(* ===== verification/C_Machine.thy ===== *)
theory C_Machine
  imports Main "HOL-Library.Word"
begin

text \<open>
  The prelude of the development. It fixes how the C firmware is read in HOL:

  \<^item> unsigned machine integers are words of the source's width;
  \<^item> a C function is a computation \<open>('s, 'a) cm\<close>: it takes the state and either never returns
    (\<open>None\<close>: an intended \<open>while(1)\<close> or a poll loop that is never satisfied), or stops at undefined
    behaviour (\<open>Some (Inl fault)\<close>), or returns a value and the new state (\<open>Some (Inr (x, s))\<close>);
  \<^item> a C loop is the combinator \<open>whileM\<close> (a least fixed point, so an endless loop is \<open>None\<close>);
  \<^item> memory-mapped peripherals are reached through a bus that logs every access. What a read returns
    is decided by the hardware, a function of the history of all accesses; the hardware is an
    argument of every definition that reads a register, so a statement about all hardware is a
    statement about every device behaviour.

  The rest of the theory is the weakest-precondition calculus the component proofs rest on.
\<close>

unbundle bit_operations_syntax

type_synonym u8 = "8 word"
type_synonym u16 = "16 word"
type_synonym u32 = "32 word"

named_theorems wp_simps \<open>equations that push weakest preconditions through computations\<close>
named_theorems run_simps \<open>equations that execute a computation on a state\<close>

section \<open>Computations\<close>

datatype fault = Null_Dereference | Out_Of_Bounds | Division_By_Zero | Misaligned_Access

type_synonym ('s, 'a) cm = "'s \<Rightarrow> (fault + 'a \<times> 's) option"

definition ret :: "'a \<Rightarrow> ('s, 'a) cm" where
  "ret x = (\<lambda>s. Some (Inr (x, s)))"

definition faultM :: "fault \<Rightarrow> ('s, 'a) cm" where
  "faultM e = (\<lambda>s. Some (Inl e))"

definition hang :: "('s, 'a) cm" where
  "hang = (\<lambda>s. None)"

definition bindM :: "('s, 'a) cm \<Rightarrow> ('a \<Rightarrow> ('s, 'b) cm) \<Rightarrow> ('s, 'b) cm" where
  "bindM m k = (\<lambda>s. case m s of
      None \<Rightarrow> None
    | Some (Inl e) \<Rightarrow> Some (Inl e)
    | Some (Inr (x, s')) \<Rightarrow> k x s')"

definition thenM :: "('s, unit) cm \<Rightarrow> ('s, 'b) cm \<Rightarrow> ('s, 'b) cm" where
  "thenM m k = bindM m (\<lambda>_. k)"

definition getM :: "('s \<Rightarrow> 'a) \<Rightarrow> ('s, 'a) cm" where
  "getM f = (\<lambda>s. Some (Inr (f s, s)))"

definition modM :: "('s \<Rightarrow> 's) \<Rightarrow> ('s, unit) cm" where
  "modM f = (\<lambda>s. Some (Inr ((), f s)))"

definition whenM :: "bool \<Rightarrow> ('s, unit) cm \<Rightarrow> ('s, unit) cm" where
  "whenM b m = (if b then m else ret ())"

text \<open>Reading and writing an element of an array of known length.\<close>

definition load_elem :: "'a list \<Rightarrow> nat \<Rightarrow> ('s, 'a) cm" where
  "load_elem xs i = (if i < length xs then ret (xs ! i) else faultM Out_Of_Bounds)"

definition store_elem :: "'a list \<Rightarrow> nat \<Rightarrow> 'a \<Rightarrow> ('s, 'a list) cm" where
  "store_elem xs i x = (if i < length xs then ret (xs[i := x]) else faultM Out_Of_Bounds)"

text \<open>A straight-line block of statements.\<close>

primrec seqM :: "('s, unit) cm list \<Rightarrow> ('s, unit) cm" where
  "seqM [] = ret ()"
| "seqM (m # ms) = bindM m (\<lambda>_. seqM ms)"

text \<open>A counted loop whose body runs for each element of a list, threading a local value.\<close>

primrec foldM :: "('a \<Rightarrow> 'v \<Rightarrow> ('s, 'v) cm) \<Rightarrow> 'a list \<Rightarrow> 'v \<Rightarrow> ('s, 'v) cm" where
  "foldM f [] v = ret v"
| "foldM f (x # xs) v = bindM (f x v) (foldM f xs)"

text \<open>
  \<open>while (b) c\<close>, with the loop's local variables as the value \<open>v\<close>. The guard is a computation
  because reading a peripheral register in a guard is itself an event on the bus.
\<close>

partial_function (option) whileM ::
    "('v \<Rightarrow> ('s, bool) cm) \<Rightarrow> ('v \<Rightarrow> ('s, 'v) cm) \<Rightarrow> 'v \<Rightarrow> 's \<Rightarrow> (fault + 'v \<times> 's) option" where
  "whileM b c v s =
     Option.bind (b v s) (\<lambda>r. case r of
         Inl e \<Rightarrow> Some (Inl e)
       | Inr (t, s1) \<Rightarrow>
           if t then Option.bind (c v s1) (\<lambda>q. case q of
               Inl e \<Rightarrow> Some (Inl e)
             | Inr (v', s2) \<Rightarrow> whileM b c v' s2)
           else Some (Inr (v, s1)))"

declare whileM.simps [code]

section \<open>Execution equations\<close>

lemma ret_run [run_simps]: "ret x s = Some (Inr (x, s))"
  by (simp add: ret_def)

lemma faultM_run [run_simps]: "faultM e s = Some (Inl e)"
  by (simp add: faultM_def)

lemma hang_run [run_simps]: "hang s = None"
  by (simp add: hang_def)

lemma getM_run [run_simps]: "getM f s = Some (Inr (f s, s))"
  by (simp add: getM_def)

lemma modM_run [run_simps]: "modM f s = Some (Inr ((), f s))"
  by (simp add: modM_def)

lemma bindM_run [run_simps]:
  "bindM m k s = (case m s of
      None \<Rightarrow> None
    | Some (Inl e) \<Rightarrow> Some (Inl e)
    | Some (Inr (x, s')) \<Rightarrow> k x s')"
  by (simp add: bindM_def)

lemma thenM_run [run_simps]: "thenM m k s = bindM m (\<lambda>_. k) s"
  by (simp add: thenM_def)

lemma bindM_ret [simp]: "bindM (ret x) k = k x"
  by (rule ext) (simp add: run_simps)

lemma bindM_ret_right [simp]: "bindM m ret = m"
  by (rule ext) (auto simp: bindM_def ret_run split: option.splits sum.splits)

lemma bindM_assoc: "bindM (bindM m f) g = bindM m (\<lambda>x. bindM (f x) g)"
  by (rule ext) (auto simp: bindM_def split: option.splits sum.splits)

lemma whileM_unfold:
  "whileM b c v s =
     bindM (b v) (\<lambda>t. if t then bindM (c v) (whileM b c) else ret v) s"
  by (subst whileM.simps)
    (auto simp: bindM_def ret_run bind_eq_Some_conv split: option.splits sum.splits prod.splits
      intro!: arg_cong2 [where f = Option.bind])

section \<open>Weakest preconditions\<close>

text \<open>
  \<open>wp m Q s\<close>: from \<open>s\<close> the computation returns, without undefined behaviour, and \<open>Q\<close> holds of the
  result (total correctness). \<open>wlp m Q s\<close>: it does not run into undefined behaviour, and \<open>Q\<close> holds
  if it returns (the code may still wait for the hardware forever).
\<close>

definition wp :: "('s, 'a) cm \<Rightarrow> ('a \<Rightarrow> 's \<Rightarrow> bool) \<Rightarrow> 's \<Rightarrow> bool" where
  "wp m Q s \<longleftrightarrow> (\<exists>x s'. m s = Some (Inr (x, s')) \<and> Q x s')"

definition wlp :: "('s, 'a) cm \<Rightarrow> ('a \<Rightarrow> 's \<Rightarrow> bool) \<Rightarrow> 's \<Rightarrow> bool" where
  "wlp m Q s \<longleftrightarrow> (\<forall>e. m s \<noteq> Some (Inl e)) \<and> (\<forall>x s'. m s = Some (Inr (x, s')) \<longrightarrow> Q x s')"

lemma wp_wlp: "wp m Q s \<Longrightarrow> wlp m Q s"
  by (auto simp: wp_def wlp_def)

lemma wlp_iff: "wlp m Q s \<longleftrightarrow> m s = None \<or> wp m Q s"
proof (cases "m s")
  case (Some r)
  then show ?thesis by (cases r) (auto simp: wp_def wlp_def)
qed (simp add: wlp_def)

lemma wp_mono: "wp m P s \<Longrightarrow> (\<And>x t. P x t \<Longrightarrow> Q x t) \<Longrightarrow> wp m Q s"
  by (auto simp: wp_def)

lemma wlp_mono: "wlp m P s \<Longrightarrow> (\<And>x t. P x t \<Longrightarrow> Q x t) \<Longrightarrow> wlp m Q s"
  by (auto simp: wlp_def)

lemma wp_conj: "wp m P s \<Longrightarrow> wlp m Q s \<Longrightarrow> wp m (\<lambda>x t. P x t \<and> Q x t) s"
  by (auto simp: wp_def wlp_def)

lemma wlp_conj: "wlp m P s \<Longrightarrow> wlp m Q s \<Longrightarrow> wlp m (\<lambda>x t. P x t \<and> Q x t) s"
  by (auto simp: wlp_def)

text \<open>
  The equations are stated between predicates, so that they apply under a binder as well.
\<close>

lemma wp_ret [wp_simps]: "wp (ret x) Q = Q x" "wlp (ret x) Q = Q x"
  by (rule ext, simp add: wp_def wlp_def run_simps)+

lemma wp_hang [wp_simps]: "wp hang Q = (\<lambda>s. False)" "wlp hang Q = (\<lambda>s. True)"
  by (rule ext, simp add: wp_def wlp_def run_simps)+

lemma wp_fault [wp_simps]: "wp (faultM e) Q = (\<lambda>s. False)" "wlp (faultM e) Q = (\<lambda>s. False)"
  by (rule ext, simp add: wp_def wlp_def run_simps)+

lemma wp_getM [wp_simps]: "wp (getM f) Q = (\<lambda>s. Q (f s) s)" "wlp (getM f) Q = (\<lambda>s. Q (f s) s)"
  by (rule ext, simp add: wp_def wlp_def run_simps)+

lemma wp_modM [wp_simps]: "wp (modM f) Q = (\<lambda>s. Q () (f s))" "wlp (modM f) Q = (\<lambda>s. Q () (f s))"
  by (rule ext, simp add: wp_def wlp_def run_simps)+

lemma wp_bindM [wp_simps]: "wp (bindM m k) Q = wp m (\<lambda>x. wp (k x) Q)"
  by (rule ext) (auto simp: wp_def bindM_def split: option.splits sum.splits)

lemma wlp_bindM [wp_simps]: "wlp (bindM m k) Q = wlp m (\<lambda>x. wlp (k x) Q)"
  by (rule ext) (auto simp: wlp_def bindM_def split: option.splits sum.splits)

lemma wp_thenM [wp_simps]:
  "wp (thenM m k) Q = wp m (\<lambda>_. wp k Q)" "wlp (thenM m k) Q = wlp m (\<lambda>_. wlp k Q)"
  by (simp_all add: thenM_def wp_bindM wlp_bindM)

lemma wp_if [wp_simps]:
  "wp (if b then m else n) Q = (if b then wp m Q else wp n Q)"
  "wlp (if b then m else n) Q = (if b then wlp m Q else wlp n Q)"
  by simp_all

lemma wp_whenM [wp_simps]:
  "wp (whenM b m) Q = (if b then wp m Q else Q ())" "wlp (whenM b m) Q = (if b then wlp m Q else Q ())"
  by (simp_all add: whenM_def wp_ret)

lemma wp_seqM [wp_simps]:
  "wp (seqM []) Q = Q ()" "wp (seqM (m # ms)) Q = wp m (\<lambda>_. wp (seqM ms) Q)"
  by (simp_all add: wp_ret wp_bindM)

lemma wlp_seqM [wp_simps]:
  "wlp (seqM []) Q = Q ()" "wlp (seqM (m # ms)) Q = wlp m (\<lambda>_. wlp (seqM ms) Q)"
  by (simp_all add: wp_ret wlp_bindM)

lemma foldM_Nil: "foldM f [] = ret"
  by (rule ext)+ simp

lemma foldM_Cons: "foldM f (x # xs) v = bindM (f x v) (foldM f xs)"
  by (rule ext) (simp add: bindM_def)

declare seqM.simps [simp del] foldM.simps [simp del]

lemma wp_foldM [wp_simps]:
  "wp (foldM f [] v) Q = Q v"
  "wp (foldM f (x # xs) v) Q = wp (f x v) (\<lambda>v'. wp (foldM f xs v') Q)"
  by (simp_all add: foldM_Nil foldM_Cons wp_ret wp_bindM)

lemma wlp_foldM [wp_simps]:
  "wlp (foldM f [] v) Q = Q v"
  "wlp (foldM f (x # xs) v) Q = wlp (f x v) (\<lambda>v'. wlp (foldM f xs v') Q)"
  by (simp_all add: foldM_Nil foldM_Cons wp_ret wlp_bindM)

lemma foldM_run [run_simps]:
  "foldM f [] v s = Some (Inr (v, s))"
  "foldM f (x # xs) v s = bindM (f x v) (foldM f xs) s"
  by (simp_all add: foldM_Nil foldM_Cons ret_run)

lemma foldM_append: "foldM f (xs @ ys) v = bindM (foldM f xs v) (foldM f ys)"
proof (induction xs arbitrary: v)
  case (Cons x xs)
  then have "foldM f (xs @ ys) = (\<lambda>v. bindM (foldM f xs v) (foldM f ys))" by (rule ext)
  then show ?case by (simp add: foldM_Cons bindM_assoc)
qed (simp add: foldM_Nil)

lemma seqM_run [run_simps]:
  "seqM [] s = Some (Inr ((), s))"
  "seqM (m # ms) s = bindM m (\<lambda>_. seqM ms) s"
  by (simp_all add: seqM.simps ret_run)

text \<open>A loop that reads the first \<open>n\<close> elements of an array is a loop over these elements.\<close>

lemma foldM_load:
  "n \<le> length xs \<Longrightarrow>
     foldM (\<lambda>i _. bindM (load_elem xs i) f) [0..<n] () = foldM (\<lambda>x _. f x) (take n xs) ()"
proof (induction n)
  case (Suc n)
  have "foldM (\<lambda>i _. bindM (load_elem xs i) f) [n] = foldM (\<lambda>x _. f x) [xs ! n]"
    using Suc.prems by (intro ext) (simp add: foldM_Nil foldM_Cons load_elem_def)
  with Suc show ?case
    by (simp add: foldM_append take_Suc_conv_app_nth)
qed (simp add: foldM_Nil)

lemma wp_load_elem [wp_simps]:
  "wp (load_elem xs i) Q = (\<lambda>s. i < length xs \<and> Q (xs ! i) s)"
  "wlp (load_elem xs i) Q = (\<lambda>s. i < length xs \<and> Q (xs ! i) s)"
  by (auto simp: load_elem_def wp_simps fun_eq_iff)

lemma wp_store_elem [wp_simps]:
  "wp (store_elem xs i x) Q = (\<lambda>s. i < length xs \<and> Q (xs[i := x]) s)"
  "wlp (store_elem xs i x) Q = (\<lambda>s. i < length xs \<and> Q (xs[i := x]) s)"
  by (auto simp: store_elem_def wp_simps fun_eq_iff)

text \<open>One unfolding of a loop, and the total and partial correctness rules.\<close>

lemma wp_whileM_unfold:
  "wp (whileM b c v) Q s \<longleftrightarrow>
     wp (b v) (\<lambda>t. if t then wp (c v) (\<lambda>v'. wp (whileM b c v') Q) else Q v) s"
proof -
  have "wp (whileM b c v) Q s
      = wp (bindM (b v) (\<lambda>t. if t then bindM (c v) (whileM b c) else ret v)) Q s"
    by (simp add: wp_def whileM_unfold)
  also have "\<dots> = wp (b v) (\<lambda>t. if t then wp (c v) (\<lambda>v'. wp (whileM b c v') Q) else Q v) s"
    by (auto simp: wp_bindM wp_ret fun_eq_iff intro!: arg_cong2 [where f = "\<lambda>Q s. wp (b v) Q s"])
  finally show ?thesis .
qed

lemma wp_whileM:
  fixes M :: "'v \<Rightarrow> 's \<Rightarrow> nat"
  assumes init: "I v s"
    and step: "\<And>v s. I v s \<Longrightarrow>
        wp (b v) (\<lambda>t s'. if t then wp (c v) (\<lambda>v' s''. I v' s'' \<and> M v' s'' < M v s) s' else Q v s') s"
  shows "wp (whileM b c v) Q s"
  using init
proof (induction "M v s" arbitrary: v s rule: less_induct)
  case less
  have "wp (b v) (\<lambda>t s'. if t then wp (c v) (\<lambda>v' s''. wp (whileM b c v') Q s'') s' else Q v s') s"
    using step [OF less.prems]
    by (rule wp_mono) (auto split: if_splits elim!: wp_mono intro: less.hyps)
  then show ?case
    by (subst wp_whileM_unfold) (auto elim!: wp_mono split: if_splits)
qed

lemma whileM_result:
  assumes ret: "whileM b c v s = Some r"
    and init: "I v s"
    and step: "\<And>v s. I v s \<Longrightarrow> wlp (b v) (\<lambda>t s'. if t then wlp (c v) I s' else Q v s') s"
  shows "case r of Inl e \<Rightarrow> False | Inr (x, s') \<Rightarrow> Q x s'"
proof -
  let ?P = "\<lambda>b' c' v s r. b' = b \<longrightarrow> c' = c \<longrightarrow> I v s \<longrightarrow>
      (case r of Inl e \<Rightarrow> False | Inr (x, s') \<Rightarrow> Q x s')"
  have "?P b c v s r"
  proof (rule whileM.raw_induct [where P = ?P, OF _ ret], intro impI)
    fix f :: "('a \<Rightarrow> ('b, bool) cm) \<Rightarrow> ('a \<Rightarrow> ('b, 'a) cm) \<Rightarrow> 'a \<Rightarrow> 'b \<Rightarrow> (fault + 'a \<times> 'b) option"
      and b' c' v s r
    assume IH: "\<And>b' c' v s r. f b' c' v s = Some r \<Longrightarrow> ?P b' c' v s r"
      and eq: "Option.bind (b' v s) (\<lambda>r. case r of Inl e \<Rightarrow> Some (Inl e)
        | Inr (t, s1) \<Rightarrow> if t then Option.bind (c' v s1) (\<lambda>q. case q of Inl e \<Rightarrow> Some (Inl e)
             | Inr (v', s2) \<Rightarrow> f b' c' v' s2) else Some (Inr (v, s1))) = Some r"
      and b': "b' = b" "c' = c" and inv: "I v s"
    from eq step [OF inv] obtain t s1 where bv: "b v s = Some (Inr (t, s1))"
      by (auto simp: wlp_iff wp_def b')
    show "case r of Inl e \<Rightarrow> False | Inr (x, s') \<Rightarrow> Q x s'"
    proof (cases t)
      case True
      with step [OF inv] bv have c: "wlp (c v) I s1" by (auto simp: wlp_iff wp_def)
      with eq bv True obtain v' s2 where "c v s1 = Some (Inr (v', s2))" "f b c v' s2 = Some r"
        by (auto simp: wlp_iff wp_def b')
      with c IH show ?thesis by (auto simp: wlp_def)
    next
      case False
      with eq bv step [OF inv] show ?thesis by (auto simp: wlp_def b')
    qed
  qed
  with init show ?thesis by simp
qed

lemma wlp_whileM:
  assumes "I v s"
    and "\<And>v s. I v s \<Longrightarrow> wlp (b v) (\<lambda>t s'. if t then wlp (c v) I s' else Q v s') s"
  shows "wlp (whileM b c v) Q s"
  using whileM_result [where I = I and Q = Q, OF _ assms(1)] assms(2)
  by (fastforce simp: wlp_def)

section \<open>The peripheral bus\<close>

text \<open>
  Every access to a memory-mapped register is an event. \<open>Idle\<close> is one turn of a loop that waits for
  an interrupt without touching the bus: it lets time pass. The log is kept newest first.
\<close>

datatype io = Rd u32 u32 | Wr u32 u32 | Idle

type_synonym io_log = "io list"

text \<open>The hardware: what a read of an address returns after a history of accesses.\<close>

type_synonym hw = "io_log \<Rightarrow> u32 \<Rightarrow> u32"

record bus =
  iolog :: io_log

definition rd32 :: "hw \<Rightarrow> u32 \<Rightarrow> ('z bus_scheme, u32) cm" where
  "rd32 h a = (\<lambda>s. Some (Inr (h (iolog s) a, s\<lparr>iolog := Rd a (h (iolog s) a) # iolog s\<rparr>)))"

definition wr32 :: "u32 \<Rightarrow> u32 \<Rightarrow> ('z bus_scheme, unit) cm" where
  "wr32 a v = (\<lambda>s. Some (Inr ((), s\<lparr>iolog := Wr a v # iolog s\<rparr>)))"

definition idleM :: "('z bus_scheme, unit) cm" where
  "idleM = (\<lambda>s. Some (Inr ((), s\<lparr>iolog := Idle # iolog s\<rparr>)))"

text \<open>\<open>REG op= ...\<close>: a read followed by a write; \<open>REG |= m\<close> and \<open>REG &= ~m\<close>.\<close>

definition mod32 :: "hw \<Rightarrow> u32 \<Rightarrow> (u32 \<Rightarrow> u32) \<Rightarrow> ('z bus_scheme, unit) cm" where
  "mod32 h a f = bindM (rd32 h a) (\<lambda>v. wr32 a (f v))"

definition setbits :: "hw \<Rightarrow> u32 \<Rightarrow> u32 \<Rightarrow> ('z bus_scheme, unit) cm" where
  "setbits h a m = mod32 h a (\<lambda>v. v OR m)"

definition clrbits :: "hw \<Rightarrow> u32 \<Rightarrow> u32 \<Rightarrow> ('z bus_scheme, unit) cm" where
  "clrbits h a m = mod32 h a (\<lambda>v. v AND NOT m)"

text \<open>The writes of a log, oldest first, and the value last written to an address.\<close>

fun writes :: "io_log \<Rightarrow> (u32 \<times> u32) list" where
  "writes [] = []"
| "writes (Wr a v # l) = writes l @ [(a, v)]"
| "writes (Rd a v # l) = writes l"
| "writes (Idle # l) = writes l"

fun last_wr :: "u32 \<Rightarrow> io_log \<Rightarrow> u32 option" where
  "last_wr a [] = None"
| "last_wr a (Wr b v # l) = (if a = b then Some v else last_wr a l)"
| "last_wr a (Rd b v # l) = last_wr a l"
| "last_wr a (Idle # l) = last_wr a l"

text \<open>
  Hardware in which the register at \<open>a\<close> is plain storage: a read returns what was written last, and
  \<open>reset\<close> before the first write.
\<close>

definition storage_reg :: "hw \<Rightarrow> u32 \<Rightarrow> u32 \<Rightarrow> bool" where
  "storage_reg h a reset \<longleftrightarrow> (\<forall>l. h l a = (case last_wr a l of None \<Rightarrow> reset | Some v \<Rightarrow> v))"

lemma iolog_update_eq [simp]: "s\<lparr>iolog := a\<rparr> = s\<lparr>iolog := b\<rparr> \<longleftrightarrow> a = b"
  by (cases s) simp

lemma rd32_run [run_simps]:
  "rd32 h a s = Some (Inr (h (iolog s) a, s\<lparr>iolog := Rd a (h (iolog s) a) # iolog s\<rparr>))"
  by (simp add: rd32_def)

lemma wr32_run [run_simps]: "wr32 a v s = Some (Inr ((), s\<lparr>iolog := Wr a v # iolog s\<rparr>))"
  by (simp add: wr32_def)

lemma idleM_run [run_simps]: "idleM s = Some (Inr ((), s\<lparr>iolog := Idle # iolog s\<rparr>))"
  by (simp add: idleM_def)

lemma wp_rd32 [wp_simps]:
  "wp (rd32 h a) Q = (\<lambda>s. Q (h (iolog s) a) (s\<lparr>iolog := Rd a (h (iolog s) a) # iolog s\<rparr>))"
  "wlp (rd32 h a) Q = (\<lambda>s. Q (h (iolog s) a) (s\<lparr>iolog := Rd a (h (iolog s) a) # iolog s\<rparr>))"
  by (simp_all add: wp_def wlp_def rd32_def fun_eq_iff)

lemma wp_wr32 [wp_simps]:
  "wp (wr32 a v) Q = (\<lambda>s. Q () (s\<lparr>iolog := Wr a v # iolog s\<rparr>))"
  "wlp (wr32 a v) Q = (\<lambda>s. Q () (s\<lparr>iolog := Wr a v # iolog s\<rparr>))"
  by (simp_all add: wp_def wlp_def wr32_def fun_eq_iff)

lemma wp_idleM [wp_simps]:
  "wp idleM Q = (\<lambda>s. Q () (s\<lparr>iolog := Idle # iolog s\<rparr>))"
  "wlp idleM Q = (\<lambda>s. Q () (s\<lparr>iolog := Idle # iolog s\<rparr>))"
  by (simp_all add: wp_def wlp_def idleM_def fun_eq_iff)

lemma wp_mod32 [wp_simps]:
  "wp (mod32 h a f) Q =
     (\<lambda>s. Q () (s\<lparr>iolog := Wr a (f (h (iolog s) a)) # Rd a (h (iolog s) a) # iolog s\<rparr>))"
  "wlp (mod32 h a f) Q =
     (\<lambda>s. Q () (s\<lparr>iolog := Wr a (f (h (iolog s) a)) # Rd a (h (iolog s) a) # iolog s\<rparr>))"
  by (simp_all add: mod32_def wp_simps)

lemma mod32_run [run_simps]:
  "mod32 h a f s =
     Some (Inr ((), s\<lparr>iolog := Wr a (f (h (iolog s) a)) # Rd a (h (iolog s) a) # iolog s\<rparr>))"
  by (simp add: mod32_def run_simps)

lemmas bits_defs = setbits_def clrbits_def

section \<open>Bit fields and polling\<close>

text \<open>\<open>BIT\<close>, \<open>BITS\<close> and \<open>GET_BITS\<close> of the vendor headers.\<close>

abbreviation BIT :: "nat \<Rightarrow> 'a::len word" where
  "BIT n \<equiv> push_bit n 1"

definition BITS :: "nat \<Rightarrow> nat \<Rightarrow> u32" where
  "BITS start end = push_bit start 0xFFFFFFFF AND drop_bit (31 - end) 0xFFFFFFFF"

definition GET_BITS :: "u32 \<Rightarrow> nat \<Rightarrow> nat \<Rightarrow> u32" where
  "GET_BITS regval start end = drop_bit start (regval AND BITS start end)"

lemma BITS_values:
  "BITS 0 (Suc 0) = 0x3" "BITS 2 3 = 0xC" "BITS 4 7 = 0xF0" "BITS 0 5 = 0x3F" "BITS 6 14 = 0x7FC0"
  "BITS 16 17 = 0x30000" "BITS 10 12 = 0x1C00" "BITS 13 15 = 0xE000" "BITS 14 15 = 0xC000"
  by (simp_all add: BITS_def drop_bit_eq_div)

text \<open>\<open>while (cond on a register) {}\<close>: poll a register until a test of its value succeeds.\<close>

definition poll_until :: "hw \<Rightarrow> u32 \<Rightarrow> (u32 \<Rightarrow> bool) \<Rightarrow> ('z bus_scheme, unit) cm" where
  "poll_until h a p = whileM (\<lambda>_. bindM (rd32 h a) (\<lambda>v. ret (\<not> p v))) (\<lambda>_. ret ()) ()"

text \<open>
  A register that answers a poll after finitely many reads: some count of remaining turns goes down
  with every read that fails the test.
\<close>

definition responds :: "hw \<Rightarrow> u32 \<Rightarrow> (u32 \<Rightarrow> bool) \<Rightarrow> bool" where
  "responds h a p \<longleftrightarrow> (\<exists>d :: io_log \<Rightarrow> nat. \<forall>l. \<not> p (h l a) \<longrightarrow> d (Rd a (h l a) # l) < d l)"

definition same_writes :: "io_log \<Rightarrow> io_log \<Rightarrow> bool" where
  "same_writes l l' \<longleftrightarrow> (\<forall>b. last_wr b l' = last_wr b l)"

lemma same_writes_Rd: "same_writes l l' \<Longrightarrow> same_writes l (Rd a v # l')"
  by (simp add: same_writes_def)

lemma wp_poll_until:
  assumes "responds h a p"
    and Q: "\<And>l. same_writes (iolog s) l \<Longrightarrow> p (h l a) \<Longrightarrow> Q () (s\<lparr>iolog := Rd a (h l a) # l\<rparr>)"
  shows "wp (poll_until h a p) Q s"
proof -
  obtain d :: "io_log \<Rightarrow> nat" where d: "\<And>l. \<not> p (h l a) \<Longrightarrow> d (Rd a (h l a) # l) < d l"
    using assms(1) by (auto simp: responds_def)
  show ?thesis
    unfolding poll_until_def
  proof (rule wp_whileM [where I = "\<lambda>_ t. \<exists>l. t = s\<lparr>iolog := l\<rparr> \<and> same_writes (iolog s) l"
        and M = "\<lambda>_ t. d (iolog t)"], goal_cases)
    case 1
    show ?case by (auto intro!: exI [of _ "iolog s"] simp: same_writes_def)
  next
    case (2 v t)
    then show ?case by (auto simp: wp_simps Q d same_writes_Rd)
  qed
qed

lemma same_writes_refl: "same_writes l l"
  by (simp add: same_writes_def)

lemma same_writesD: "same_writes l l' \<Longrightarrow> last_wr a l' = last_wr a l"
  by (simp add: same_writes_def)

text \<open>A poll whose answer the last writes decide.\<close>

lemma wp_poll_now:
  assumes "\<And>l. same_writes (iolog s) l \<Longrightarrow> p (h l a)"
    and Q: "\<And>l. same_writes (iolog s) l \<Longrightarrow> Q () (s\<lparr>iolog := l\<rparr>)"
  shows "wp (poll_until h a p) Q s"
  unfolding poll_until_def
  using assms(1) [OF same_writes_refl] Q [OF same_writes_Rd [OF same_writes_refl]]
  by (subst wp_whileM_unfold) (simp add: wp_simps)

section \<open>Computations that only touch the bus\<close>

text \<open>
  \<open>io_only m\<close>: whatever the hardware does, \<open>m\<close> has no undefined behaviour, leaves every variable of the
  program as it was, and only extends the history of bus accesses. The rules go with the structure
  of the code, so that drivers built from register accesses are covered without further proof.
\<close>

named_theorems io_intros \<open>rules for computations that only touch the bus\<close>

definition log_ext :: "'z bus_scheme \<Rightarrow> 'z bus_scheme \<Rightarrow> bool" where
  "log_ext s s' \<longleftrightarrow> (\<exists>l. s' = s\<lparr>iolog := l @ iolog s\<rparr>)"

definition io_only :: "('z bus_scheme, 'a) cm \<Rightarrow> bool" where
  "io_only m \<longleftrightarrow> (\<forall>s. wlp m (\<lambda>_. log_ext s) s)"

lemma log_ext_refl [simp]: "log_ext s s"
  by (simp add: log_ext_def exI [of _ "[]"])

lemma log_ext_trans: "log_ext s t \<Longrightarrow> log_ext t u \<Longrightarrow> log_ext s u"
  by (auto simp: log_ext_def)

lemma log_ext_Cons: "log_ext s (s\<lparr>iolog := e # iolog s\<rparr>)"
  by (auto simp: log_ext_def intro: exI [of _ "[e]"])

lemma io_onlyD: "io_only m \<Longrightarrow> wlp m (\<lambda>_. log_ext s) s"
  by (simp add: io_only_def)

lemma io_only_wlp: "io_only m \<Longrightarrow> log_ext s t \<Longrightarrow> wlp m (\<lambda>_. log_ext s) t"
  by (rule wlp_mono [OF io_onlyD]) (auto intro: log_ext_trans)

lemma io_ret [io_intros]: "io_only (ret x)"
  by (simp add: io_only_def wp_simps)

lemma io_hang [io_intros]: "io_only hang"
  by (simp add: io_only_def wp_simps)

lemma io_getM [io_intros]: "io_only (getM f)"
  by (simp add: io_only_def wp_simps)

lemma io_rd32 [io_intros]: "io_only (rd32 h a)"
  by (simp add: io_only_def wp_simps log_ext_Cons)

lemma io_wr32 [io_intros]: "io_only (wr32 a v)"
  by (simp add: io_only_def wp_simps log_ext_Cons)

lemma io_idleM [io_intros]: "io_only idleM"
  by (simp add: io_only_def wp_simps log_ext_Cons)

lemma io_bindM [io_intros]: "io_only m \<Longrightarrow> (\<And>x. io_only (k x)) \<Longrightarrow> io_only (bindM m k)"
  unfolding io_only_def wlp_bindM
  by (intro allI, rule wlp_mono, blast) (auto intro: wlp_mono log_ext_trans)

lemma io_thenM [io_intros]: "io_only m \<Longrightarrow> io_only k \<Longrightarrow> io_only (thenM m k)"
  unfolding thenM_def by (intro io_bindM)

lemma io_if [io_intros]: "(b \<Longrightarrow> io_only m) \<Longrightarrow> (\<not> b \<Longrightarrow> io_only n) \<Longrightarrow> io_only (if b then m else n)"
  by simp

lemma io_whenM [io_intros]: "(b \<Longrightarrow> io_only m) \<Longrightarrow> io_only (whenM b m)"
  by (simp add: whenM_def io_ret)

lemma io_Let [io_intros]: "(\<And>x. io_only (k x)) \<Longrightarrow> io_only (let x = e in k x)"
  by (simp add: Let_def)

lemma io_split [io_intros]: "(\<And>x y. io_only (f x y)) \<Longrightarrow> io_only (case p of (x, y) \<Rightarrow> f x y)"
  by (cases p) simp

lemma io_seqM_Nil [io_intros]: "io_only (seqM [])"
  by (simp add: seqM.simps io_ret)

lemma io_seqM_Cons [io_intros]: "io_only m \<Longrightarrow> io_only (seqM ms) \<Longrightarrow> io_only (seqM (m # ms))"
  by (simp add: seqM.simps io_bindM)

lemma io_mod32 [io_intros]: "io_only (mod32 h a f)"
  unfolding mod32_def by (intro io_intros)

lemma io_setbits [io_intros]: "io_only (setbits h a v)" "io_only (clrbits h a v)"
  unfolding bits_defs by (intro io_intros)+

lemma io_whileM [io_intros]:
  assumes "\<And>v. io_only (b v)" "\<And>v. io_only (c v)"
  shows "io_only (whileM b c v)"
  unfolding io_only_def
proof
  fix s
  show "wlp (whileM b c v) (\<lambda>_. log_ext s) s"
  proof (rule wlp_whileM [where I = "\<lambda>_. log_ext s"])
    fix v t assume "log_ext s t"
    then show "wlp (b v) (\<lambda>r u. if r then wlp (c v) (\<lambda>_. log_ext s) u else log_ext s u) t"
      using assms by (intro wlp_mono [OF io_only_wlp]) (auto intro: io_only_wlp)
  qed simp
qed

lemma io_foldM [io_intros]: "(\<And>x v. io_only (f x v)) \<Longrightarrow> io_only (foldM f xs v)"
  by (induction xs arbitrary: v) (simp_all add: foldM_Nil foldM_Cons io_ret io_bindM)

lemma io_poll_until [io_intros]: "io_only (poll_until h a p)"
  unfolding poll_until_def by (intro io_intros)

section \<open>Frames\<close>

text \<open>
  What a computation may change, as a preorder between the states before and after that allows any
  bus access. A driver proves its frame once, by following the structure of its code, for every
  hardware; in particular the code has no undefined behaviour.
\<close>

definition keeps :: "('s \<Rightarrow> 's \<Rightarrow> bool) \<Rightarrow> ('s, 'a) cm \<Rightarrow> bool" where
  "keeps R m \<longleftrightarrow> (\<forall>s. wlp m (\<lambda>_. R s) s)"

locale frame_rel =
  fixes R :: "'s \<Rightarrow> 's \<Rightarrow> bool"
  assumes frame_refl: "R s s"
    and frame_trans: "R s t \<Longrightarrow> R t u \<Longrightarrow> R s u"
begin

lemma keepsD: "keeps R m \<Longrightarrow> R s t \<Longrightarrow> wlp m (\<lambda>_. R s) t"
  unfolding keeps_def by (blast intro: wlp_mono frame_trans)

lemma keeps_ret: "keeps R (ret x)"
  by (simp add: keeps_def wp_simps frame_refl)

lemma keeps_getM: "keeps R (getM f)"
  by (simp add: keeps_def wp_simps frame_refl)

lemma keeps_modM: "(\<And>s. R s (f s)) \<Longrightarrow> keeps R (modM f)"
  by (simp add: keeps_def wp_simps)

lemma keeps_bindM: "keeps R m \<Longrightarrow> (\<And>x. keeps R (k x)) \<Longrightarrow> keeps R (bindM m k)"
  unfolding keeps_def wlp_bindM by (blast intro: wlp_mono frame_trans)

lemma keeps_thenM: "keeps R m \<Longrightarrow> keeps R k \<Longrightarrow> keeps R (thenM m k)"
  unfolding thenM_def by (rule keeps_bindM)

lemma keeps_if: "(b \<Longrightarrow> keeps R m) \<Longrightarrow> (\<not> b \<Longrightarrow> keeps R n) \<Longrightarrow> keeps R (if b then m else n)"
  by simp

lemma keeps_whenM: "(b \<Longrightarrow> keeps R m) \<Longrightarrow> keeps R (whenM b m)"
  by (simp add: whenM_def keeps_ret)

lemma keeps_Let: "(\<And>x. keeps R (k x)) \<Longrightarrow> keeps R (let x = e in k x)"
  by (simp add: Let_def)

lemma keeps_split: "(\<And>x y. keeps R (f x y)) \<Longrightarrow> keeps R (case p of (x, y) \<Rightarrow> f x y)"
  by (cases p) simp

lemma keeps_seqM: "keeps R (seqM [])" "keeps R m \<Longrightarrow> keeps R (seqM ms) \<Longrightarrow> keeps R (seqM (m # ms))"
  by (simp_all add: seqM.simps keeps_ret keeps_bindM)

lemma keeps_foldM: "(\<And>x v. keeps R (f x v)) \<Longrightarrow> keeps R (foldM f xs v)"
  by (induction xs arbitrary: v) (simp_all add: foldM_Nil foldM_Cons keeps_ret keeps_bindM)

lemma keeps_whileM:
  assumes "\<And>v. keeps R (b v)" "\<And>v. keeps R (c v)"
  shows "keeps R (whileM b c v)"
  unfolding keeps_def
proof
  fix s
  show "wlp (whileM b c v) (\<lambda>_. R s) s"
  proof (rule wlp_whileM [where I = "\<lambda>_. R s"])
    fix v t assume "R s t"
    then show "wlp (b v) (\<lambda>r u. if r then wlp (c v) (\<lambda>_. R s) u else R s u) t"
      using assms by (intro wlp_mono [OF keepsD]) (auto intro: keepsD)
  qed (rule frame_refl)
qed

lemmas keeps_intros = keeps_modM keeps_bindM keeps_thenM keeps_if keeps_whenM keeps_Let keeps_split keeps_whileM
  keeps_seqM keeps_foldM

end

text \<open>A frame that allows every access to the bus.\<close>

locale state_frame = frame_rel R for R :: "'z bus_scheme \<Rightarrow> 'z bus_scheme \<Rightarrow> bool" +
  assumes frame_log: "log_ext s t \<Longrightarrow> R s t"
begin

lemma keeps_io: "io_only m \<Longrightarrow> keeps R m"
  unfolding keeps_def by (blast intro: wlp_mono [OF io_onlyD] frame_log)

end

section \<open>Computations that always return\<close>

text \<open>
  \<open>returns m\<close>: from every state \<open>m\<close> ends, with a value or at undefined behaviour. The rules follow the
  structure of the code; a loop needs a measure.
\<close>

named_theorems total_intros \<open>rules for computations that always return\<close>

definition returns :: "('s, 'a) cm \<Rightarrow> bool" where
  "returns m \<longleftrightarrow> (\<forall>s. m s \<noteq> None)"

lemma wp_returns: "(\<And>s. wp m (\<lambda>_ _. True) s) \<Longrightarrow> returns m"
  unfolding returns_def wp_def by force

lemma returnsD: "returns m \<Longrightarrow> m s \<noteq> None"
  unfolding returns_def by blast

lemma returns_wp: "returns m \<Longrightarrow> wlp m Q s \<Longrightarrow> wp m Q s"
  using returnsD [of m s] unfolding wlp_iff by blast

lemma total_basic [total_intros]:
  "returns (ret x)" "returns (faultM e)" "returns (getM f)" "returns (modM g)" "returns (rd32 h a)"
  "returns (wr32 a v)" "returns idleM" "returns (load_elem xs i)" "returns (store_elem xs i y)"
  by (simp_all add: returns_def run_simps load_elem_def store_elem_def)

lemma total_bindM [total_intros]: "returns m \<Longrightarrow> (\<And>x. returns (k x)) \<Longrightarrow> returns (bindM m k)"
  by (auto simp: returns_def bindM_def split: option.splits sum.splits)

lemma total_thenM [total_intros]: "returns m \<Longrightarrow> returns k \<Longrightarrow> returns (thenM m k)"
  unfolding thenM_def by (intro total_bindM)

lemma total_if [total_intros]: "(b \<Longrightarrow> returns m) \<Longrightarrow> (\<not> b \<Longrightarrow> returns n) \<Longrightarrow> returns (if b then m else n)"
  by simp

lemma total_whenM [total_intros]: "(b \<Longrightarrow> returns m) \<Longrightarrow> returns (whenM b m)"
  by (simp add: whenM_def total_basic)

lemma total_Let [total_intros]: "(\<And>x. returns (k x)) \<Longrightarrow> returns (let x = e in k x)"
  by (simp add: Let_def)

lemma total_split [total_intros]: "(\<And>x y. returns (f x y)) \<Longrightarrow> returns (case p of (x, y) \<Rightarrow> f x y)"
  by (cases p) simp

lemma total_seqM [total_intros]: "returns (seqM [])" "returns m \<Longrightarrow> returns (seqM ms) \<Longrightarrow> returns (seqM (m # ms))"
  by (simp_all add: seqM.simps total_basic total_bindM)

lemma total_mod32 [total_intros]: "returns (mod32 h a f)" "returns (setbits h a v)" "returns (clrbits h a v)"
  unfolding bits_defs mod32_def by (intro total_intros)+

lemma total_foldM [total_intros]: "(\<And>x v. returns (f x v)) \<Longrightarrow> returns (foldM f xs v)"
  by (induction xs arbitrary: v) (simp_all add: foldM_Nil foldM_Cons total_basic total_bindM)

lemma total_whileM:
  fixes M :: "'v \<Rightarrow> nat"
  assumes b: "\<And>v. returns (b v)" and c: "\<And>v. returns (c v)"
    and dec: "\<And>v s v' s' t. b v s = Some (Inr (True, t)) \<Longrightarrow> c v t = Some (Inr (v', s')) \<Longrightarrow>
      (\<exists>u. b v' s' = Some (Inr (False, u))) \<or> M v' < M v"
  shows "returns (whileM b c v)"
  unfolding returns_def
proof
  fix s
  show "whileM b c v s \<noteq> None"
  proof (induction "M v" arbitrary: v s rule: less_induct)
    case less
    show ?case
    proof (cases "b v s")
      case (Some r)
      show ?thesis
      proof (cases "\<exists>t. r = Inr (True, t)")
        case True
        then obtain t where t: "b v s = Some (Inr (True, t))" using Some by auto
        obtain r' where r': "c v t = Some r'" using c [of v] by (auto simp: returns_def)
        show ?thesis
        proof (cases r')
          case (Inr p)
          obtain v' s' where p: "p = (v', s')" by (cases p)
          show ?thesis
            using dec [OF t, of v' s'] less [of v' s'] r' t Inr p
            by (auto simp: whileM_unfold [of b c v s] whileM_unfold [of b c v' s'] run_simps)
        qed (simp add: whileM_unfold [of b c v s] run_simps t r')
      qed (use Some in \<open>auto simp: whileM_unfold [of b c v s] run_simps split: sum.splits\<close>)
    qed (use returnsD [OF b, of v s] in blast)
  qed
qed

section \<open>Facts on lists\<close>

lemma map_upt_shift:
  "map (\<lambda>k. f (a + k)) [1..<Suc (Suc n)] = f (a + 1) # map (\<lambda>k. f (a + 1 + k)) [1..<Suc n]" for a :: nat
  by (rule nth_equalityI) (auto simp: nth_Cons' simp del: upt_Suc)

section \<open>Facts on words\<close>

text \<open>The test \<open>x & BIT(n)\<close>.\<close>

lemma and_BIT_eq_0_iff: "x AND BIT n = 0 \<longleftrightarrow> \<not> (bit x n \<and> n < LENGTH('a))" for x :: "'a::len word"
  by (subst bit_eq_iff) (auto simp: bit_simps)

lemma unat_word_of_nat: "n < 2 ^ LENGTH('a) \<Longrightarrow> unat (word_of_nat n :: 'a::len word) = n"
  by (simp add: unsigned_of_nat take_bit_nat_eq_self)

lemma u32_plus_one_unat: "unat (x::u32) < 2 ^ 32 - 1 \<Longrightarrow> unat (x + 1) = unat x + 1"
  by (simp add: unat_word_ariths)

end
