(* ===== verification/Ring_Buffer.thy ===== *)
theory Ring_Buffer
  imports C_Machine
begin

text \<open>
  The byte ring buffer of \<open>src/module/ringbuffer\<close>: \<open>ring_buffer_t\<close> as a record, the five operations of
  \<open>ringbuffer.c\<close>, the interface of a bounded FIFO they provide (locale \<open>bounded_fifo\<close>), and the
  behaviour when the buffer is full, which depends on the \<open>mirror\<close> field.
\<close>

section \<open>The code\<close>

record ring_buffer =
  buffer :: "u8 list"
  rb_size :: u16
  write_index :: u16
  read_index :: u16
  mirror :: u16

definition ring_buffer_init :: "u8 list \<Rightarrow> u16 \<Rightarrow> ring_buffer" where
  "ring_buffer_init buf sz =
     \<lparr>buffer = buf, rb_size = sz, write_index = 0, read_index = 0, mirror = 0\<rparr>"

text \<open>\<open>(i + 1) % rb->size\<close>: the sum is computed in \<open>int\<close>, so it does not wrap at 16 bits.\<close>

definition next_index :: "u16 \<Rightarrow> (ring_buffer, u16) cm" where
  "next_index i = bindM (getM rb_size) (\<lambda>sz.
     if sz = 0 then faultM Division_By_Zero else ret (word_of_nat (Suc (unat i) mod unat sz)))"

text \<open>\<open>if (index == 0) rb->mirror = ~rb->mirror;\<close>\<close>

definition flip_mirror_if_zero :: "u16 \<Rightarrow> (ring_buffer, unit) cm" where
  "flip_mirror_if_zero i = whenM (i = 0) (modM (\<lambda>rb. rb\<lparr>mirror := NOT (mirror rb)\<rparr>))"

text \<open>\<open>rb->read_index = (rb->read_index + 1) % rb->size\<close> and the mirror update that follows it.\<close>

definition advance_read :: "(ring_buffer, unit) cm" where
  "advance_read =
     bindM (getM read_index) (\<lambda>r. bindM (next_index r) (\<lambda>r'.
       thenM (modM (\<lambda>rb. rb\<lparr>read_index := r'\<rparr>)) (flip_mirror_if_zero r')))"

text \<open>The body of the loop of \<open>ring_buffer_read\<close>, without the store into the caller's buffer.\<close>

definition get_byte :: "(ring_buffer, u8) cm" where
  "get_byte =
     bindM (getM (\<lambda>rb. (buffer rb, read_index rb))) (\<lambda>(b, r).
     bindM (load_elem b (unat r)) (\<lambda>x.
     thenM advance_read (ret x)))"

fun read_loop :: "nat \<Rightarrow> nat \<Rightarrow> u8 list \<Rightarrow> (ring_buffer, nat \<times> u8 list) cm" where
  "read_loop 0 i dest = ret (i, dest)"
| "read_loop (Suc k) i dest =
     bindM (getM (\<lambda>rb. read_index rb = write_index rb)) (\<lambda>empty.
       if empty then ret (i, dest)
       else bindM get_byte (\<lambda>x. bindM (store_elem dest i x) (read_loop k (Suc i))))"

text \<open>\<open>ring_buffer_read\<close>: the number of bytes read and the caller's buffer after the call.\<close>

definition ring_buffer_read :: "u8 list \<Rightarrow> u16 \<Rightarrow> (ring_buffer, u16 \<times> u8 list) cm" where
  "ring_buffer_read dest n =
     bindM (read_loop (unat n) 0 dest) (\<lambda>(i, d). ret (word_of_nat i, d))"

text \<open>The body of the loop of \<open>ring_buffer_write\<close> for one byte of the data.\<close>

definition put_byte :: "u8 \<Rightarrow> (ring_buffer, unit) cm" where
  "put_byte x =
     bindM (getM write_index) (\<lambda>w. bindM (next_index w) (\<lambda>next_write_index.
     bindM (getM (\<lambda>rb. next_write_index = read_index rb
               \<and> (mirror rb AND 0x8000) = (write_index rb AND 0x8000))) (\<lambda>full.
     thenM (whenM full advance_read) (
     bindM (getM buffer) (\<lambda>b. bindM (store_elem b (unat w) x) (\<lambda>b'.
     thenM (modM (\<lambda>rb. rb\<lparr>buffer := b', write_index := next_write_index\<rparr>))
       (flip_mirror_if_zero next_write_index)))))))"

definition ring_buffer_write :: "u8 list \<Rightarrow> u16 \<Rightarrow> (ring_buffer, u16) cm" where
  "ring_buffer_write data n =
     bindM (foldM (\<lambda>i _. bindM (load_elem data i) put_byte) [0..<unat n] ()) (\<lambda>_. ret n)"

text \<open>\<open>temp\<close> is 16 bits wide, so \<open>temp += rb->size\<close> wraps.\<close>

definition ring_buffer_available_read :: "ring_buffer \<Rightarrow> u16" where
  "ring_buffer_available_read rb =
     (let temp = write_index rb;
          temp = (if read_index rb > temp then temp + rb_size rb else temp)
      in temp - read_index rb)"

definition ring_buffer_reset :: "ring_buffer \<Rightarrow> ring_buffer" where
  "ring_buffer_reset rb = rb\<lparr>write_index := 0, read_index := 0, mirror := 0\<rparr>"

section \<open>Abstraction: the bytes waiting to be read\<close>

definition avail :: "ring_buffer \<Rightarrow> nat" where
  "avail rb = (if read_index rb \<le> write_index rb
     then unat (write_index rb) - unat (read_index rb)
     else unat (write_index rb) + unat (rb_size rb) - unat (read_index rb))"

definition contents :: "ring_buffer \<Rightarrow> u8 list" where
  "contents rb = map (\<lambda>k. buffer rb ! ((unat (read_index rb) + k) mod unat (rb_size rb))) [0..<avail rb]"

text \<open>
  Well-formed: the memory has the declared size, the indices are in range, and bit 15 of an index is
  never set (the code uses it as the mirror bit).
\<close>

definition rb_inv :: "ring_buffer \<Rightarrow> bool" where
  "rb_inv rb \<longleftrightarrow> length (buffer rb) = unat (rb_size rb) \<and> write_index rb < rb_size rb
     \<and> read_index rb < rb_size rb \<and> rb_size rb \<le> 0x8000"

text \<open>The number of bytes the buffer can hold: one slot always stays free.\<close>

definition rb_capacity :: "ring_buffer \<Rightarrow> nat" where
  "rb_capacity rb = unat (rb_size rb) - 1"

section \<open>Lemmas on indices\<close>

lemma mod_add_small:
  "a < n \<Longrightarrow> b < n \<Longrightarrow> (a + b) mod n = (if a + b < n then a + b else a + b - n)" for n :: nat
  by (simp add: mod_if)

lemma unat_next:
  "sz \<noteq> 0 \<Longrightarrow> unat (word_of_nat (Suc (unat i) mod unat sz) :: u16) = Suc (unat i) mod unat sz"
  for i sz :: u16
proof -
  assume "sz \<noteq> 0"
  then have "0 < unat sz" by (simp add: unat_gt_0)
  then have "Suc (unat i) mod unat sz < unat sz" by simp
  also have "unat sz < 2 ^ LENGTH(16)" by (rule unsigned_less)
  finally show ?thesis by (simp add: unat_of_nat)
qed

lemma low_index_bit15: "i < 0x8000 \<Longrightarrow> i AND 0x8000 = 0" for i :: u16
proof -
  assume "i < 0x8000"
  then have "unat i div 2 ^ 15 = 0"
    by (simp add: word_less_nat_alt)
  then have "\<not> bit (unat i) 15" by (simp add: bit_iff_odd)
  then have "\<not> bit i 15" by (simp add: bit_unsigned_iff)
  then show ?thesis
    using and_BIT_eq_0_iff [of i 15] by simp
qed

lemma length_contents [simp]: "length (contents rb) = avail rb"
  by (simp add: contents_def)


text \<open>All the arithmetic of the indices, over \<open>nat\<close>.\<close>

lemma rb_inv_nat:
  assumes "rb_inv rb"
  shows "0 < unat (rb_size rb)" "unat (write_index rb) < unat (rb_size rb)"
    "unat (read_index rb) < unat (rb_size rb)" "length (buffer rb) = unat (rb_size rb)"
    "rb_size rb \<noteq> 0" "unat (rb_size rb) \<le> 32768"
  using assms by (auto simp: rb_inv_def word_less_nat_alt word_le_nat_alt)

lemma avail_less: "rb_inv rb \<Longrightarrow> avail rb < unat (rb_size rb)"
  using rb_inv_nat [of rb] by (auto simp: avail_def word_le_nat_alt)

lemma contents_eq_Nil_iff: "rb_inv rb \<Longrightarrow> contents rb = [] \<longleftrightarrow> read_index rb = write_index rb"
  using rb_inv_nat [of rb]
  by (auto simp: contents_def avail_def word_le_nat_alt simp flip: word_unat_eq_iff)

text \<open>The position of the \<open>k\<close>-th waiting byte, and that the write position is just after the last.\<close>

lemma slot_eq:
  "rb_inv rb \<Longrightarrow> k < unat (rb_size rb) \<Longrightarrow>
     (unat (read_index rb) + k) mod unat (rb_size rb) =
       (if unat (read_index rb) + k < unat (rb_size rb) then unat (read_index rb) + k
        else unat (read_index rb) + k - unat (rb_size rb))"
  using rb_inv_nat [of rb] by (intro mod_add_small)

lemma slot_avail: "rb_inv rb \<Longrightarrow> (unat (read_index rb) + avail rb) mod unat (rb_size rb) = unat (write_index rb)"
  using rb_inv_nat [of rb] avail_less [of rb]
  by (auto simp: slot_eq avail_def word_le_nat_alt)

lemma slot_neq_write:
  "rb_inv rb \<Longrightarrow> k < avail rb \<Longrightarrow>
     (unat (read_index rb) + k) mod unat (rb_size rb) \<noteq> unat (write_index rb)"
  using rb_inv_nat [of rb] avail_less [of rb]
  by (auto simp: slot_eq avail_def word_le_nat_alt split: if_splits)

lemma next_less: "sz \<noteq> 0 \<Longrightarrow> word_of_nat (Suc (unat i) mod unat sz) < sz" for i sz :: u16
  by (simp add: word_less_nat_alt unat_next unat_gt_0)

lemma unat_next_if:
  "unat i < unat sz \<Longrightarrow> unat (word_of_nat (Suc (unat i) mod unat sz) :: u16) =
     (if Suc (unat i) = unat sz then 0 else Suc (unat i))" for i sz :: u16
  by (subst unat_next) (auto simp: mod_if)

text \<open>The states after one turn of the write and of the read loop.\<close>

definition after_put :: "u8 \<Rightarrow> ring_buffer \<Rightarrow> ring_buffer" where
  "after_put x rb = rb\<lparr>buffer := (buffer rb)[unat (write_index rb) := x],
     write_index := word_of_nat (Suc (unat (write_index rb)) mod unat (rb_size rb)),
     mirror := (if Suc (unat (write_index rb)) mod unat (rb_size rb) = 0
                then NOT (mirror rb) else mirror rb)\<rparr>"

definition after_get :: "ring_buffer \<Rightarrow> ring_buffer" where
  "after_get rb = rb\<lparr>
     read_index := word_of_nat (Suc (unat (read_index rb)) mod unat (rb_size rb)),
     mirror := (if Suc (unat (read_index rb)) mod unat (rb_size rb) = 0
                then NOT (mirror rb) else mirror rb)\<rparr>"

lemma after_put_inv: "rb_inv rb \<Longrightarrow> rb_inv (after_put x rb)"
  using rb_inv_nat [of rb] next_less [of "rb_size rb" "write_index rb"]
  by (simp add: rb_inv_def after_put_def)

lemma after_get_inv: "rb_inv rb \<Longrightarrow> rb_inv (after_get rb)"
  using rb_inv_nat [of rb] next_less [of "rb_size rb" "read_index rb"]
  by (simp add: rb_inv_def after_get_def)

lemma rb_capacity_after [simp]:
  "rb_capacity (after_put x rb) = rb_capacity rb" "rb_capacity (after_get rb) = rb_capacity rb"
  by (simp_all add: rb_capacity_def after_put_def after_get_def)

lemma avail_after_put:
  "rb_inv rb \<Longrightarrow> avail (after_put x rb) = (if avail rb + 1 = unat (rb_size rb) then 0 else avail rb + 1)"
  using rb_inv_nat [of rb]
  by (auto simp: avail_def after_put_def word_le_nat_alt unat_next_if split: if_splits)

lemma avail_after_get:
  "rb_inv rb \<Longrightarrow> avail rb \<noteq> 0 \<Longrightarrow> avail (after_get rb) = avail rb - 1"
  using rb_inv_nat [of rb]
  by (auto simp: avail_def after_get_def word_le_nat_alt unat_next_if split: if_splits)

lemma contents_after_put:
  assumes "rb_inv rb" and "avail rb + 1 < unat (rb_size rb)"
  shows "contents (after_put x rb) = contents rb @ [x]"
proof (rule nth_equalityI)
  show "length (contents (after_put x rb)) = length (contents rb @ [x])"
    using assms by (simp add: avail_after_put)
  fix k assume "k < length (contents (after_put x rb))"
  then have k: "k < avail rb + 1" using assms by (simp add: avail_after_put)
  then show "contents (after_put x rb) ! k = (contents rb @ [x]) ! k"
    using assms rb_inv_nat [of rb] slot_neq_write [of rb k] slot_avail [of rb]
    by (cases "k = avail rb") (auto simp: contents_def nth_append avail_after_put, auto simp: after_put_def)
qed

lemma contents_after_get:
  assumes "rb_inv rb" and "contents rb \<noteq> []"
  shows "contents (after_get rb) = tl (contents rb)"
    and "hd (contents rb) = buffer rb ! unat (read_index rb)"
proof -
  have ne: "avail rb \<noteq> 0" using assms(2) by (simp flip: length_contents)
  show "contents (after_get rb) = tl (contents rb)"
    using assms(1) ne rb_inv_nat [of rb]
    by (intro nth_equalityI)
      (auto simp: contents_def avail_after_get nth_tl, auto simp: after_get_def unat_next mod_add_left_eq)
  show "hd (contents rb) = buffer rb ! unat (read_index rb)"
    using ne rb_inv_nat [OF assms(1)] by (simp add: contents_def hd_map upt_conv_Cons)
qed

section \<open>What one turn of each loop does\<close>

definition mirror_bit :: "ring_buffer \<Rightarrow> bool" where
  "mirror_bit rb \<longleftrightarrow> mirror rb AND 0x8000 \<noteq> 0"

definition rb_full :: "ring_buffer \<Rightarrow> bool" where
  "rb_full rb \<longleftrightarrow> avail rb = rb_capacity rb"

lemma next_eq_0_iff:
  "sz \<noteq> 0 \<Longrightarrow> (word_of_nat (Suc (unat i) mod unat sz) :: u16) = 0 \<longleftrightarrow> Suc (unat i) mod unat sz = 0"
  for i sz :: u16
  by (metis unat_next unat_eq_zero)

lemma next_write_eq_read_iff:
  "rb_inv rb \<Longrightarrow>
     word_of_nat (Suc (unat (write_index rb)) mod unat (rb_size rb)) = read_index rb \<longleftrightarrow> rb_full rb"
  using rb_inv_nat [of rb]
  by (auto simp: word_unat_eq_iff unat_next_if rb_full_def rb_capacity_def avail_def word_le_nat_alt
      split: if_splits)

lemma advance_read_run: "rb_inv rb \<Longrightarrow> advance_read rb = Some (Inr ((), after_get rb))"
  using rb_inv_nat [of rb]
  by (auto simp: advance_read_def next_index_def flip_mirror_if_zero_def whenM_def run_simps
      next_eq_0_iff after_get_def)

lemma get_byte_run:
  "rb_inv rb \<Longrightarrow> get_byte rb = Some (Inr (buffer rb ! unat (read_index rb), after_get rb))"
  using rb_inv_nat [of rb]
  by (simp add: get_byte_def load_elem_def run_simps advance_read_run)

lemma put_byte_run:
  assumes "rb_inv rb"
  shows "put_byte x rb =
     Some (Inr ((), after_put x (if rb_full rb \<and> \<not> mirror_bit rb then after_get rb else rb)))"
proof -
  have w0: "write_index rb AND 0x8000 = 0"
    using assms by (intro low_index_bit15) (auto simp: rb_inv_def)
  have sz: "rb_size rb \<noteq> 0" "unat (write_index rb) < length (buffer rb)"
    using rb_inv_nat [OF assms] by auto
  show ?thesis
    using sz by (auto simp: put_byte_def next_index_def flip_mirror_if_zero_def whenM_def store_elem_def
        run_simps next_write_eq_read_iff [OF assms] w0 mirror_bit_def advance_read_run [OF assms]
        next_eq_0_iff after_put_def after_get_def)
qed

lemma contents_put_full:
  assumes "rb_inv rb" "rb_full rb" "0 < rb_capacity rb"
  shows "contents (after_put x (after_get rb)) = tl (contents rb) @ [x]"
proof -
  have ne: "avail rb \<noteq> 0" "contents rb \<noteq> []"
    using assms by (auto simp: rb_full_def simp flip: length_0_conv)
  have "avail (after_get rb) + 1 < unat (rb_size (after_get rb))"
    using assms ne by (simp add: avail_after_get rb_full_def rb_capacity_def) (simp add: after_get_def)
  then show ?thesis
    using assms(1) ne by (simp add: contents_after_put after_get_inv contents_after_get)
qed

lemma contents_put_lost:
  "rb_inv rb \<Longrightarrow> rb_full rb \<Longrightarrow> contents (after_put x rb) = []"
  using rb_inv_nat [of rb]
  by (simp add: avail_after_put rb_full_def rb_capacity_def flip: length_0_conv)

lemma contents_put_free:
  "rb_inv rb \<Longrightarrow> length (contents rb) < rb_capacity rb \<Longrightarrow> contents (after_put x rb) = contents rb @ [x]"
  by (simp add: contents_after_put rb_capacity_def)

section \<open>The interface of a bounded FIFO\<close>

text \<open>
  What a client of a byte queue relies on. The operations are computations on the queue's state; a
  \<open>put\<close> below capacity appends, a \<open>get\<close> of a non-empty queue takes the oldest element.
\<close>

datatype 'a queue_op = Put 'a | Get

fun list_step :: "'a queue_op \<Rightarrow> 'a list \<Rightarrow> 'a list" where
  "list_step (Put x) xs = xs @ [x]"
| "list_step Get xs = tl xs"

fun list_run :: "'a queue_op list \<Rightarrow> 'a list \<Rightarrow> 'a list" where
  "list_run [] xs = xs"
| "list_run (p # ps) xs = list_run ps (list_step p xs)"

text \<open>A schedule the queue can follow: no \<open>put\<close> at capacity, no \<open>get\<close> when empty.\<close>

fun feasible :: "nat \<Rightarrow> 'a queue_op list \<Rightarrow> 'a list \<Rightarrow> bool" where
  "feasible n [] xs = True"
| "feasible n (Put x # ps) xs = (length xs < n \<and> feasible n ps (xs @ [x]))"
| "feasible n (Get # ps) xs = (xs \<noteq> [] \<and> feasible n ps (tl xs))"

text \<open>The elements a schedule delivers.\<close>

fun list_out :: "'a queue_op list \<Rightarrow> 'a list \<Rightarrow> 'a list" where
  "list_out [] xs = []"
| "list_out (Put x # ps) xs = list_out ps (xs @ [x])"
| "list_out (Get # ps) xs = hd xs # list_out ps (tl xs)"

definition queue_step :: "('a \<Rightarrow> ('q, unit) cm) \<Rightarrow> ('q, 'a) cm \<Rightarrow> 'a queue_op \<Rightarrow> 'a list \<Rightarrow> ('q, 'a list) cm" where
  "queue_step put get p out = (case p of
      Put x \<Rightarrow> thenM (put x) (ret out)
    | Get \<Rightarrow> bindM get (\<lambda>x. ret (out @ [x])))"

lemma wp_queue_step [wp_simps]:
  "wp (queue_step put get (Put x) out) Q = wp (put x) (\<lambda>_. Q out)"
  "wp (queue_step put get Get out) Q = wp get (\<lambda>x. Q (out @ [x]))"
  by (simp_all add: queue_step_def wp_simps)

definition queue_run :: "('a \<Rightarrow> ('q, unit) cm) \<Rightarrow> ('q, 'a) cm \<Rightarrow> 'a queue_op list \<Rightarrow> ('q, 'a list) cm" where
  "queue_run put get ps = foldM (queue_step put get) ps []"

locale bounded_fifo =
  fixes inv :: "'q \<Rightarrow> bool"
    and view :: "'q \<Rightarrow> 'a list"
    and capacity :: "'q \<Rightarrow> nat"
    and put :: "'a \<Rightarrow> ('q, unit) cm"
    and get :: "('q, 'a) cm"
  assumes put_law: "inv q \<Longrightarrow> length (view q) < capacity q \<Longrightarrow>
      wp (put x) (\<lambda>_ q'. inv q' \<and> view q' = view q @ [x] \<and> capacity q' = capacity q) q"
    and get_law: "inv q \<Longrightarrow> view q \<noteq> [] \<Longrightarrow>
      wp get (\<lambda>x q'. inv q' \<and> x = hd (view q) \<and> view q' = tl (view q) \<and> capacity q' = capacity q) q"
begin

lemma put_all:
  "inv q \<Longrightarrow> length (view q) + length xs \<le> capacity q \<Longrightarrow>
     wp (foldM (\<lambda>x _. put x) xs ()) (\<lambda>_ q'. inv q' \<and> view q' = view q @ xs \<and> capacity q' = capacity q) q"
proof (induction xs arbitrary: q)
  case Nil
  then show ?case by (simp add: wp_simps)
next
  case (Cons x xs)
  have "wp (put x) (\<lambda>_ q'. inv q' \<and> view q' = view q @ [x] \<and> capacity q' = capacity q) q"
    using Cons.prems by (intro put_law) auto
  then show ?case
    using Cons.prems by (auto simp: wp_simps elim!: wp_mono intro!: Cons.IH [THEN wp_mono])
qed

lemma steps_refine_list:
  "inv q \<Longrightarrow> feasible (capacity q) ps (view q) \<Longrightarrow>
     wp (foldM (queue_step put get) ps out)
       (\<lambda>out' q'. inv q' \<and> view q' = list_run ps (view q) \<and> out' = out @ list_out ps (view q)) q"
proof (induction ps arbitrary: q out)
  case Nil
  then show ?case by (simp add: wp_simps)
next
  case (Cons p ps)
  show ?case
  proof (cases p)
    case (Put x)
    have "wp (put x) (\<lambda>_ q'. inv q' \<and> view q' = view q @ [x] \<and> capacity q' = capacity q) q"
      using Cons.prems Put by (intro put_law) auto
    then show ?thesis
      using Cons.prems Put
      by (auto simp: wp_simps elim!: wp_mono intro!: Cons.IH [THEN wp_mono])
  next
    case Get
    have "wp get (\<lambda>x q'. inv q' \<and> x = hd (view q) \<and> view q' = tl (view q) \<and> capacity q' = capacity q) q"
      using Cons.prems Get by (intro get_law) auto
    then show ?thesis
      using Cons.prems Get
      by (auto simp: wp_simps elim!: wp_mono intro!: Cons.IH [THEN wp_mono])
  qed
qed

end

interpretation rbq: bounded_fifo rb_inv contents rb_capacity put_byte get_byte
proof (unfold_locales, goal_cases)
  case (1 q x)
  then have "\<not> rb_full q" by (simp add: rb_full_def)
  with 1 show ?case
    by (simp add: wp_def put_byte_run after_put_inv contents_put_free)
next
  case (2 q)
  then show ?case
    by (simp add: wp_def get_byte_run after_get_inv contents_after_get)
qed

section \<open>Properties\<close>

text \<open>
  C36: for every schedule of byte writes and byte reads that never writes at capacity and never reads
  an empty buffer, the loops' bodies of \<open>ring_buffer_write\<close> and \<open>ring_buffer_read\<close> return, deliver the
  bytes in the order they were written, and leave exactly the undelivered bytes.
\<close>

theorem ring_buffer_refines_queue:
  assumes "rb_inv rb" and "feasible (rb_capacity rb) ps (contents rb)"
  shows "wp (queue_run put_byte get_byte ps)
    (\<lambda>out rb'. rb_inv rb' \<and> out = list_out ps (contents rb) \<and> contents rb' = list_run ps (contents rb)) rb"
  using rbq.steps_refine_list [OF assms, of "[]"]
  by (auto simp: queue_run_def elim!: wp_mono)

theorem ring_buffer_refines_queue_witness:
  "wp (queue_run put_byte get_byte [Put 1, Put 2, Get, Put 3, Get])
    (\<lambda>out rb'. rb_inv rb' \<and> out = [1, 2] \<and> contents rb' = [3]) (ring_buffer_init [0, 0, 0, 0] 4)"
proof -
  have "rb_inv (ring_buffer_init [0, 0, 0, 0] 4)"
    by (simp add: rb_inv_def ring_buffer_init_def)
  moreover have c: "contents (ring_buffer_init [0, 0, 0, 0] 4) = []"
    by (simp add: contents_def avail_def ring_buffer_init_def)
  moreover have "rb_capacity (ring_buffer_init [0, 0, 0, 0] 4) = 3"
    by (simp add: rb_capacity_def ring_buffer_init_def)
  ultimately show ?thesis
    using ring_buffer_refines_queue [of "ring_buffer_init [0, 0, 0, 0] 4" "[Put 1, Put 2, Get, Put 3, Get]"]
    by simp
qed

text \<open>
  \<open>ring_buffer_write\<close> of \<open>n\<close> bytes into a well-formed buffer with room for them returns \<open>n\<close> and
  appends exactly those bytes.
\<close>

theorem ring_buffer_write_appends:
  assumes "rb_inv rb" and "unat n \<le> length data" and "length (contents rb) + unat n \<le> rb_capacity rb"
  shows "wp (ring_buffer_write data n)
    (\<lambda>r rb'. r = n \<and> rb_inv rb' \<and> contents rb' = contents rb @ take (unat n) data) rb"
  using rbq.put_all [of rb "take (unat n) data"] assms
  by (auto simp: ring_buffer_write_def foldM_load wp_simps elim!: wp_mono)

theorem ring_buffer_write_appends_witness:
  "wp (ring_buffer_write [7, 8] 2)
    (\<lambda>r rb'. r = 2 \<and> rb_inv rb' \<and> contents rb' = [7, 8]) (ring_buffer_init [0, 0, 0, 0] 4)"
  using ring_buffer_write_appends [of "ring_buffer_init [0, 0, 0, 0] 4" 2 "[7, 8]"]
  by (simp add: rb_inv_def rb_capacity_def contents_def avail_def ring_buffer_init_def)

lemma read_loop_wp:
  "rb_inv rb \<Longrightarrow> i + k \<le> length d \<Longrightarrow>
     wp (read_loop k i d) (\<lambda>(i', d') rb'. i' = i + min k (length (contents rb)) \<and> rb_inv rb'
       \<and> d' = take i d @ take k (contents rb) @ drop (i + min k (length (contents rb))) d
       \<and> contents rb' = drop k (contents rb)) rb"
proof (induction k arbitrary: i d rb)
  case 0
  then show ?case by (simp add: wp_simps)
next
  case (Suc k)
  show ?case
  proof (cases "contents rb = []")
    case True
    then have "avail rb = 0" by (metis length_contents list.size(3))
    moreover have "read_index rb = write_index rb"
      using True Suc.prems by (simp add: contents_eq_Nil_iff)
    ultimately show ?thesis
      using True Suc.prems by (simp add: wp_simps)
  next
    case False
    let ?x = "hd (contents rb)" and ?rb = "after_get rb"
    have "wp (read_loop k (Suc i) (d[i := ?x]))
      (\<lambda>(i', d') rb'. i' = Suc i + min k (length (tl (contents rb))) \<and> rb_inv rb'
       \<and> d' = take (Suc i) (d[i := ?x]) @ take k (tl (contents rb))
           @ drop (Suc i + min k (length (tl (contents rb)))) (d[i := ?x])
       \<and> contents rb' = drop k (tl (contents rb))) ?rb"
      using Suc.IH [of ?rb "Suc i" "d[i := ?x]"] Suc.prems False
      by (simp add: after_get_inv contents_after_get del: length_tl length_contents)
    moreover obtain y ys where "contents rb = y # ys" using False by (cases "contents rb") auto
    ultimately show ?thesis
      using Suc.prems False contents_eq_Nil_iff [of rb]
      by (auto simp: wp_simps wp_def get_byte_run contents_after_get(2) [symmetric] take_Suc_conv_app_nth
          simp del: length_contents)
  qed
qed


text \<open>
  \<open>ring_buffer_read\<close> returns the number of bytes it delivered, the smaller of the request and the
  bytes waiting; it stores the oldest bytes in order at the start of the caller's buffer, leaves the
  rest of that buffer alone and removes exactly the delivered bytes.
\<close>

theorem ring_buffer_read_takes_oldest:
  assumes "rb_inv rb" and "unat n \<le> length dest"
  shows "wp (ring_buffer_read dest n)
    (\<lambda>(r, d) rb'. unat r = min (unat n) (length (contents rb)) \<and> rb_inv rb'
       \<and> d = take (unat n) (contents rb) @ drop (unat r) dest
       \<and> contents rb' = drop (unat n) (contents rb)) rb"
proof -
  have "min (unat n) (length (contents rb)) < 2 ^ LENGTH(16)"
    using unsigned_less [of n, where 'a = nat] by (simp add: min_less_iff_disj)
  then have "unat (word_of_nat (min (unat n) (length (contents rb))) :: u16)
      = min (unat n) (length (contents rb))"
    by (rule unat_word_of_nat)
  then show ?thesis
    using read_loop_wp [of rb 0 "unat n" dest] assms
    by (auto simp: ring_buffer_read_def wp_simps split_def simp del: length_contents elim!: wp_mono)
qed

theorem ring_buffer_read_takes_oldest_witness:
  "wp (ring_buffer_read [0, 0, 0] 3)
    (\<lambda>(r, d) rb'. unat r = 2 \<and> d = [6, 5, 0] \<and> contents rb' = [])
    \<lparr>buffer = [5, 9, 9, 6], rb_size = 4, write_index = 1, read_index = 3, mirror = 0xFFFF\<rparr>"
proof -
  let ?rb = "\<lparr>buffer = [5, 9, 9, 6], rb_size = 4, write_index = 1, read_index = 3, mirror = 0xFFFF\<rparr>"
  have "rb_inv ?rb" and c: "contents ?rb = [6, 5]"
    by (simp_all add: rb_inv_def contents_def avail_def word_le_nat_alt upt_rec)
  then show ?thesis
    using ring_buffer_read_takes_oldest [of ?rb 3 "[0, 0, 0]"]
    by (auto simp: c simp del: length_contents elim!: wp_mono)
qed

text \<open>
  \<open>ring_buffer_available_read\<close> is the number of bytes waiting; its 16-bit addition does not
  overflow on a well-formed buffer.
\<close>

lemma available_read_nat:
  assumes "rb_inv rb"
  shows "unat (ring_buffer_available_read rb) = length (contents rb)"
proof (cases "read_index rb \<le> write_index rb")
  case True
  then show ?thesis
    by (simp add: ring_buffer_available_read_def Let_def avail_def unat_sub not_less)
next
  case False
  have "unat (write_index rb) + unat (rb_size rb) < 2 ^ LENGTH(16)"
    using rb_inv_nat [OF assms] False by (simp add: word_le_nat_alt)
  then have sum: "unat (write_index rb + rb_size rb) = unat (write_index rb) + unat (rb_size rb)"
    by (simp only: unat_add_lem)
  moreover have "read_index rb \<le> write_index rb + rb_size rb"
    using rb_inv_nat [OF assms] by (simp add: word_le_nat_alt sum)
  ultimately show ?thesis
    using False by (simp add: ring_buffer_available_read_def Let_def avail_def unat_sub not_le)
qed

section \<open>Every use of the interface\<close>

text \<open>
  A call of one of the functions that change the buffer, with its arguments. A call is legal when the
  array it names is at least as long as the count, which is all the functions ask of their callers.
\<close>

datatype rb_call = Write "u8 list" u16 | Read "u8 list" u16 | Reset

fun legal :: "rb_call \<Rightarrow> bool" where
  "legal (Write data n) \<longleftrightarrow> unat n \<le> length data"
| "legal (Read dest n) \<longleftrightarrow> unat n \<le> length dest"
| "legal Reset \<longleftrightarrow> True"

fun rb_exec :: "rb_call \<Rightarrow> (ring_buffer, unit) cm" where
  "rb_exec (Write data n) = bindM (ring_buffer_write data n) (\<lambda>_. ret ())"
| "rb_exec (Read dest n) = bindM (ring_buffer_read dest n) (\<lambda>_. ret ())"
| "rb_exec Reset = modM ring_buffer_reset"

definition well_formed :: "u16 \<Rightarrow> ring_buffer \<Rightarrow> bool" where
  "well_formed sz rb \<longleftrightarrow> rb_inv rb \<and> rb_size rb = sz"

lemma well_formed_after:
  "well_formed sz rb \<Longrightarrow> well_formed sz (after_put x rb)"
  "well_formed sz rb \<Longrightarrow> well_formed sz (after_get rb)"
  by (simp_all add: well_formed_def after_put_inv after_get_inv) (simp_all add: after_put_def after_get_def)

lemma put_bytes_well_formed:
  "well_formed sz rb \<Longrightarrow> wp (foldM (\<lambda>x _. put_byte x) xs ()) (\<lambda>_. well_formed sz) rb"
proof (induction xs arbitrary: rb)
  case (Cons x xs)
  then have "rb_inv rb" by (simp add: well_formed_def)
  with Cons show ?case
    by (auto simp: wp_simps wp_def [of "put_byte x"] put_byte_run intro!: Cons.IH well_formed_after)
qed (simp add: wp_simps)

lemma read_loop_well_formed:
  "well_formed sz rb \<Longrightarrow> i + k \<le> length d \<Longrightarrow> wp (read_loop k i d) (\<lambda>_. well_formed sz) rb"
proof (induction k arbitrary: i d rb)
  case (Suc k)
  then have "rb_inv rb" by (simp add: well_formed_def)
  with Suc show ?case
    by (auto simp: wp_simps wp_def [of get_byte] get_byte_run intro!: Suc.IH well_formed_after)
qed (simp add: wp_simps)

lemma reset_well_formed: "well_formed sz rb \<Longrightarrow> well_formed sz (ring_buffer_reset rb)"
  using rb_inv_nat(5) [of rb] by (auto simp: well_formed_def ring_buffer_reset_def rb_inv_def word_gt_0)

lemma rb_exec_well_formed:
  "well_formed sz rb \<Longrightarrow> legal c \<Longrightarrow> wp (rb_exec c) (\<lambda>_. well_formed sz) rb"
  by (cases c) (simp_all add: ring_buffer_write_def ring_buffer_read_def foldM_load wp_simps split_def
      reset_well_formed put_bytes_well_formed read_loop_well_formed)

text \<open>
  C35: a buffer set up by \<open>ring_buffer_init\<close> with a memory of its declared size, at most 32768 bytes,
  keeps its type: after any sequence of legal writes, reads and resets, overfilled writes included,
  no call divided by zero or left an array, the memory has the size, both indices are below it, and
  \<open>ring_buffer_available_read\<close> is the number of waiting bytes, below the size.
\<close>

theorem ring_buffer_stays_well_formed:
  assumes "length buf = unat sz" and "0 < sz" and "sz \<le> 0x8000" and "\<forall>c \<in> set cs. legal c"
  shows "wp (foldM (\<lambda>c _. rb_exec c) cs ())
    (\<lambda>_ rb. well_formed sz rb \<and> unat (ring_buffer_available_read rb) = length (contents rb)
       \<and> ring_buffer_available_read rb < sz) (ring_buffer_init buf sz)"
proof -
  have step: "well_formed sz rb \<Longrightarrow> wp (foldM (\<lambda>c _. rb_exec c) cs ()) (\<lambda>_. well_formed sz) rb" for rb
    using assms(4)
  proof (induction cs arbitrary: rb)
    case (Cons c cs)
    then have "wp (rb_exec c) (\<lambda>_. well_formed sz) rb" by (intro rb_exec_well_formed) simp_all
    then have "wp (rb_exec c) (\<lambda>_ rb'. wp (foldM (\<lambda>c _. rb_exec c) cs ()) (\<lambda>_. well_formed sz) rb') rb"
      by (rule wp_mono) (rule Cons.IH, use Cons.prems in simp_all)
    then show ?case by (simp add: wp_foldM)
  qed (simp add: wp_simps)
  have "well_formed sz (ring_buffer_init buf sz)"
    using assms by (simp add: well_formed_def rb_inv_def ring_buffer_init_def)
  from step [OF this] show ?thesis
    by (rule wp_mono) (auto simp: well_formed_def available_read_nat avail_less word_less_nat_alt)
qed

theorem ring_buffer_stays_well_formed_witness:
  "wp (foldM (\<lambda>c _. rb_exec c) [Write [1, 2, 3, 4, 5] 5, Read [0, 0] 1, Reset, Write [6] 1] ())
    (\<lambda>_ rb. well_formed 4 rb \<and> unat (ring_buffer_available_read rb) = length (contents rb)
       \<and> ring_buffer_available_read rb < 4) (ring_buffer_init [0, 0, 0, 0] 4)"
  using ring_buffer_stays_well_formed [of "[0, 0, 0, 0]" 4 "[Write [1, 2, 3, 4, 5] 5, Read [0, 0] 1, Reset, Write [6] 1]"]
  by simp

text \<open>
  A full buffer whose mirror bit is clear behaves as documented: writing one more byte drops the
  oldest byte and appends the new one.
\<close>

theorem put_byte_overwrites_oldest:
  assumes "rb_inv rb" and "rb_full rb" and "\<not> mirror_bit rb" and "0 < rb_capacity rb"
  shows "wp (put_byte x) (\<lambda>_ rb'. rb_inv rb' \<and> contents rb' = tl (contents rb) @ [x]) rb"
  using assms by (simp add: wp_def put_byte_run contents_put_full after_put_inv after_get_inv)

theorem put_byte_overwrites_oldest_witness:
  "wp (put_byte 9) (\<lambda>_ rb'. rb_inv rb' \<and> contents rb' = [6, 7, 9])
    \<lparr>buffer = [5, 6, 7, 0], rb_size = 4, write_index = 3, read_index = 0, mirror = 0\<rparr>"
proof -
  let ?rb = "\<lparr>buffer = [5, 6, 7, 0], rb_size = 4, write_index = 3, read_index = 0, mirror = 0\<rparr> :: ring_buffer"
  have "rb_inv ?rb" "rb_full ?rb" "\<not> mirror_bit ?rb" "0 < rb_capacity ?rb" "contents ?rb = [5, 6, 7]"
    by (simp_all add: rb_inv_def rb_full_def mirror_bit_def rb_capacity_def contents_def avail_def upt_rec)
  then show ?thesis using put_byte_overwrites_oldest [of ?rb 9] by simp
qed

text \<open>
  A full buffer whose mirror bit is set does not behave as documented. The overwrite test compares
  bit 15 of \<open>mirror\<close> with bit 15 of an index (always 0), so it is skipped, the write index catches up
  with the read index and every waiting byte is lost, the new one included.
\<close>

theorem put_byte_full_mirrored_loses_all:
  assumes "rb_inv rb" and "rb_full rb" and "mirror_bit rb"
  shows "wp (put_byte x) (\<lambda>_ rb'. rb_inv rb' \<and> contents rb' = []) rb"
  using assms by (simp add: wp_def put_byte_run contents_put_lost after_put_inv)

text \<open>The state is reached from an empty four-byte buffer by writing four bytes; the fifth empties it.\<close>

theorem put_byte_full_mirrored_loses_all_witness:
  "wp (ring_buffer_write [1, 2, 3, 4] 4)
    (\<lambda>_ rb. contents rb = [2, 3, 4] \<and> wp (put_byte 5) (\<lambda>_ rb'. contents rb' = []) rb)
    (ring_buffer_init [0, 0, 0, 0] 4)"
proof -
  let ?rb = "\<lparr>buffer = [1, 2, 3, 4], rb_size = 4, write_index = 0, read_index = 1, mirror = 0xFFFF\<rparr> :: ring_buffer"
  have run: "ring_buffer_write [1, 2, 3, 4] 4 (ring_buffer_init [0, 0, 0, 0] 4) = Some (Inr (4, ?rb))"
    by (simp add: ring_buffer_write_def ring_buffer_init_def put_byte_def next_index_def load_elem_def
        store_elem_def flip_mirror_if_zero_def advance_read_def whenM_def run_simps upt_rec)
  have "rb_inv ?rb" "rb_full ?rb" "mirror_bit ?rb" "contents ?rb = [2, 3, 4]"
    by (simp_all add: rb_inv_def rb_full_def mirror_bit_def rb_capacity_def contents_def avail_def upt_rec)
  then show ?thesis
    using put_byte_full_mirrored_loses_all [of ?rb 5] by (auto simp: wp_def run)
qed

end
