(* ===== verification/Soft_Timer.thy ===== *)
theory Soft_Timer
  imports C_Machine
begin

text \<open>
  The software timers of \<open>src/module/soft_timer\<close>: the static array of ten timers, the API of
  \<open>soft_timer.c\<close> and the tick that the SysTick handler calls. The API masks interrupts around its
  updates; \<open>irq_enabled\<close> is that mask. The properties say when a timer that is polled after every tick
  reports a timeout.
\<close>

section \<open>The code\<close>

record software_timer =
  counter :: u32
  timeout :: u32
  is_timeout :: u8
  is_repeat :: u8

record soft_timers =
  timers :: "software_timer list"
  irq_enabled :: bool

definition SOFT_TIMER_MAX :: nat where "SOFT_TIMER_MAX = 10"

definition soft_timer_interrupt_disable :: "'z soft_timers_scheme \<Rightarrow> 'z soft_timers_scheme" where
  "soft_timer_interrupt_disable s = s\<lparr>irq_enabled := False\<rparr>"

definition soft_timer_interrupt_enable :: "'z soft_timers_scheme \<Rightarrow> 'z soft_timers_scheme" where
  "soft_timer_interrupt_enable s = s\<lparr>irq_enabled := True\<rparr>"

text \<open>An update of \<open>timers[timer]\<close>, as the assignments of the source's blocks make it.\<close>

definition upd_timer :: "nat \<Rightarrow> (software_timer \<Rightarrow> software_timer) \<Rightarrow> 'z soft_timers_scheme \<Rightarrow> 'z soft_timers_scheme" where
  "upd_timer i f s = s\<lparr>timers := (timers s)[i := f (timers s ! i)]\<rparr>"

definition soft_timer_single_init :: "nat \<Rightarrow> u32 \<Rightarrow> 'z soft_timers_scheme \<Rightarrow> 'z soft_timers_scheme" where
  "soft_timer_single_init timer t s =
     (let s = soft_timer_interrupt_disable s;
          s = (if timer < SOFT_TIMER_MAX
               then upd_timer timer (\<lambda>x. x\<lparr>counter := 0, timeout := t, is_timeout := 0, is_repeat := 0\<rparr>) s
               else s)
      in soft_timer_interrupt_enable s)"

definition soft_timer_repeat_init :: "nat \<Rightarrow> u32 \<Rightarrow> 'z soft_timers_scheme \<Rightarrow> 'z soft_timers_scheme" where
  "soft_timer_repeat_init timer t s =
     (let s = soft_timer_interrupt_disable s;
          s = (if timer < SOFT_TIMER_MAX
               then upd_timer timer (\<lambda>x. x\<lparr>counter := 0, timeout := t, is_timeout := 0, is_repeat := 1\<rparr>) s
               else s)
      in soft_timer_interrupt_enable s)"

definition soft_timer_stop :: "nat \<Rightarrow> 'z soft_timers_scheme \<Rightarrow> 'z soft_timers_scheme" where
  "soft_timer_stop timer s =
     (let s = soft_timer_interrupt_disable s;
          s = (if timer < SOFT_TIMER_MAX
               then upd_timer timer (\<lambda>x. x\<lparr>is_timeout := 0, counter := 0, is_repeat := 0\<rparr>) s
               else s)
      in soft_timer_interrupt_enable s)"

definition soft_timer_is_timeout :: "nat \<Rightarrow> 'z soft_timers_scheme \<Rightarrow> u8 \<times> 'z soft_timers_scheme" where
  "soft_timer_is_timeout timer s =
     (if timer < SOFT_TIMER_MAX
      then let ret = is_timeout (timers s ! timer)
           in (ret, if ret \<noteq> 0 then upd_timer timer (\<lambda>x. x\<lparr>is_timeout := 0\<rparr>) s else s)
      else (0, s))"

definition soft_timer_reset :: "nat \<Rightarrow> 'z soft_timers_scheme \<Rightarrow> 'z soft_timers_scheme" where
  "soft_timer_reset timer s =
     (let s = soft_timer_interrupt_disable s;
          s = (if timer < SOFT_TIMER_MAX
               then upd_timer timer (\<lambda>x. x\<lparr>counter := 0, is_timeout := 0\<rparr>) s
               else s)
      in soft_timer_interrupt_enable s)"

text \<open>The body of the loop of \<open>soft_timer_tick\<close>: \<open>++counter\<close> wraps at 32 bits.\<close>

definition tick_timer :: "software_timer \<Rightarrow> software_timer" where
  "tick_timer x =
     (let x = x\<lparr>counter := counter x + 1\<rparr>
      in if counter x \<ge> timeout x
         then let x = x\<lparr>is_timeout := 1\<rparr>
              in if is_repeat x \<noteq> 0 then x\<lparr>counter := 0\<rparr> else x
         else x)"

definition soft_timer_tick :: "'z soft_timers_scheme \<Rightarrow> 'z soft_timers_scheme" where
  "soft_timer_tick s = fold (\<lambda>timer. upd_timer timer tick_timer) [0..<SOFT_TIMER_MAX] s"

text \<open>The array as the C runtime leaves it before \<open>main\<close>: all zero.\<close>

definition soft_timers_start :: soft_timers where
  "soft_timers_start =
     \<lparr>timers = replicate SOFT_TIMER_MAX \<lparr>counter = 0, timeout = 0, is_timeout = 0, is_repeat = 0\<rparr>,
      irq_enabled = True\<rparr>"

section \<open>The invariant and the shape of the updates\<close>

definition timer_wf :: "software_timer \<Rightarrow> bool" where
  "timer_wf x \<longleftrightarrow> is_timeout x \<in> {0, 1} \<and> is_repeat x \<in> {0, 1}"

definition timers_inv :: "'z soft_timers_scheme \<Rightarrow> bool" where
  "timers_inv s \<longleftrightarrow> length (timers s) = SOFT_TIMER_MAX \<and> (\<forall>x \<in> set (timers s). timer_wf x)"

lemma length_upd_timer [simp]: "length (timers (upd_timer i f s)) = length (timers s)"
  by (simp add: upd_timer_def)

lemma nth_upd_timer:
  "j < length (timers s) \<Longrightarrow>
     timers (upd_timer i f s) ! j = (if i = j then f (timers s ! j) else timers s ! j)"
  by (simp add: upd_timer_def)

lemma upd_timer_inv:
  "timers_inv s \<Longrightarrow> i < SOFT_TIMER_MAX \<Longrightarrow> (\<And>x. timer_wf x \<Longrightarrow> timer_wf (f x)) \<Longrightarrow> timers_inv (upd_timer i f s)"
  by (auto simp: timers_inv_def upd_timer_def dest!: set_update_subset_insert [THEN subsetD])

lemma irq_simps [simp]:
  "timers (soft_timer_interrupt_disable s) = timers s" "timers (soft_timer_interrupt_enable s) = timers s"
  "timers_inv (soft_timer_interrupt_disable s) = timers_inv s"
  "timers_inv (soft_timer_interrupt_enable s) = timers_inv s"
  by (simp_all add: soft_timer_interrupt_disable_def soft_timer_interrupt_enable_def timers_inv_def)

text \<open>
  The interface of an operation that updates one slot of the array and leaves the others alone. Its
  clients see any slot after the operation, and that operations on different slots do not interfere.
\<close>

locale slot_operation =
  fixes inv :: "'s \<Rightarrow> bool"
    and slot :: "'s \<Rightarrow> nat \<Rightarrow> 't"
    and size :: nat
    and oper :: "nat \<Rightarrow> 's \<Rightarrow> 's"
    and effect :: "'t \<Rightarrow> 't"
  assumes inv_oper: "inv s \<Longrightarrow> inv (oper i s)"
    and slot_oper: "inv s \<Longrightarrow> j < size \<Longrightarrow> slot (oper i s) j = (if i = j then effect (slot s j) else slot s j)"
begin

lemma frame: "inv s \<Longrightarrow> j < size \<Longrightarrow> i \<noteq> j \<Longrightarrow> slot (oper i s) j = slot s j"
  by (simp add: slot_oper)

lemma effect_at: "inv s \<Longrightarrow> i < size \<Longrightarrow> slot (oper i s) i = effect (slot s i)"
  by (simp add: slot_oper)

lemma commute: "inv s \<Longrightarrow> j < size \<Longrightarrow> slot (oper i (oper k s)) j = slot (oper k (oper i s)) j"
  by (simp add: slot_oper inv_oper)

end

lemma timers_inv_length: "timers_inv s \<Longrightarrow> length (timers s) = SOFT_TIMER_MAX"
  by (simp add: timers_inv_def)

lemmas slot_simps = Let_def nth_upd_timer timers_inv_length timer_wf_def

interpretation single_op: slot_operation timers_inv "\<lambda>s. (!) (timers s)" SOFT_TIMER_MAX
    "\<lambda>i. soft_timer_single_init i t" "\<lambda>x. x\<lparr>counter := 0, timeout := t, is_timeout := 0, is_repeat := 0\<rparr>" for t
  by unfold_locales (auto simp: soft_timer_single_init_def slot_simps intro!: upd_timer_inv)

interpretation repeat_op: slot_operation timers_inv "\<lambda>s. (!) (timers s)" SOFT_TIMER_MAX
    "\<lambda>i. soft_timer_repeat_init i t" "\<lambda>x. x\<lparr>counter := 0, timeout := t, is_timeout := 0, is_repeat := 1\<rparr>" for t
  by unfold_locales (auto simp: soft_timer_repeat_init_def slot_simps intro!: upd_timer_inv)

interpretation stop_op: slot_operation timers_inv "\<lambda>s. (!) (timers s)" SOFT_TIMER_MAX
    soft_timer_stop "\<lambda>x. x\<lparr>is_timeout := 0, counter := 0, is_repeat := 0\<rparr>"
  by unfold_locales (auto simp: soft_timer_stop_def slot_simps intro!: upd_timer_inv)

interpretation reset_op: slot_operation timers_inv "\<lambda>s. (!) (timers s)" SOFT_TIMER_MAX
    soft_timer_reset "\<lambda>x. x\<lparr>counter := 0, is_timeout := 0\<rparr>"
  by unfold_locales (auto simp: soft_timer_reset_def slot_simps intro!: upd_timer_inv)

interpretation poll_op: slot_operation timers_inv "\<lambda>s. (!) (timers s)" SOFT_TIMER_MAX
    "\<lambda>i s. snd (soft_timer_is_timeout i s)" "\<lambda>x. if is_timeout x \<noteq> 0 then x\<lparr>is_timeout := 0\<rparr> else x"
  by unfold_locales (auto simp: soft_timer_is_timeout_def slot_simps intro!: upd_timer_inv)

section \<open>The tick\<close>

lemma fold_upd_timers:
  "n \<le> length (timers s) \<Longrightarrow>
     timers (fold (\<lambda>i. upd_timer i f) [0..<n] s) = map f (take n (timers s)) @ drop n (timers s)"
proof (induction n)
  case (Suc n)
  then have "n < length (timers s)" by simp
  with Suc show ?case
    by (simp add: upd_timer_def take_Suc_conv_app_nth list_update_append nth_append
        flip: Cons_nth_drop_Suc)
qed simp

lemma timers_tick: "timers_inv s \<Longrightarrow> timers (soft_timer_tick s) = map tick_timer (timers s)"
  by (simp add: soft_timer_tick_def fold_upd_timers timers_inv_length)

lemma tick_timer_wf: "timer_wf x \<Longrightarrow> timer_wf (tick_timer x)"
  by (auto simp: tick_timer_def timer_wf_def Let_def)

lemma tick_inv: "timers_inv s \<Longrightarrow> timers_inv (soft_timer_tick s)"
  by (auto simp: timers_inv_def [of "soft_timer_tick s"] timers_tick timers_inv_length)
    (auto simp: timers_inv_def intro: tick_timer_wf)

section \<open>Polling a timer after every tick\<close>

text \<open>
  The schedule of the firmware's clients: the SysTick interrupt runs \<open>soft_timer_tick\<close>, then the main
  loop asks \<open>soft_timer_is_timeout\<close>. The result is the list of answers, the first tick first.
\<close>

fun poll_rounds :: "nat \<Rightarrow> nat \<Rightarrow> 'z soft_timers_scheme \<Rightarrow> u8 list" where
  "poll_rounds timer 0 s = []"
| "poll_rounds timer (Suc n) s =
     (let (r, s') = soft_timer_is_timeout timer (soft_timer_tick s) in r # poll_rounds timer n s')"

fun poll_timer :: "nat \<Rightarrow> software_timer \<Rightarrow> u8 list" where
  "poll_timer 0 x = []"
| "poll_timer (Suc n) x =
     (let y = tick_timer x
      in is_timeout y # poll_timer n (if is_timeout y \<noteq> 0 then y\<lparr>is_timeout := 0\<rparr> else y))"

lemma poll_rounds_timer:
  "timers_inv s \<Longrightarrow> i < SOFT_TIMER_MAX \<Longrightarrow> poll_rounds i n s = poll_timer n (timers s ! i)"
proof (induction n arbitrary: s)
  case (Suc n)
  let ?t = "soft_timer_tick s"
  have "timers_inv (snd (soft_timer_is_timeout i ?t))"
    using Suc.prems by (intro poll_op.inv_oper tick_inv)
  moreover have "timers (snd (soft_timer_is_timeout i ?t)) ! i =
      (if is_timeout (timers ?t ! i) \<noteq> 0 then (timers ?t ! i)\<lparr>is_timeout := 0\<rparr> else timers ?t ! i)"
    using Suc.prems by (intro poll_op.effect_at tick_inv)
  moreover have "fst (soft_timer_is_timeout i ?t) = is_timeout (timers ?t ! i)"
    using Suc.prems by (simp add: soft_timer_is_timeout_def Let_def)
  moreover have "timers ?t ! i = tick_timer (timers s ! i)"
    using Suc.prems by (simp add: timers_tick timers_inv_length)
  ultimately show ?case
    using Suc.IH [of "snd (soft_timer_is_timeout i ?t)"] Suc.prems
    by (simp add: split_def Let_def)
qed simp

lemma clear_timeout: "is_timeout x = 0 \<Longrightarrow> x\<lparr>counter := c, is_timeout := 0\<rparr> = x\<lparr>counter := c\<rparr>"
  by (cases x) simp

text \<open>A repeat timer: the count \<open>c\<close> of ticks since the last timeout is the counter.\<close>

lemma poll_repeat:
  "is_repeat x \<noteq> 0 \<Longrightarrow> is_timeout x = 0 \<Longrightarrow> timeout x \<noteq> 0 \<Longrightarrow> counter x < timeout x \<Longrightarrow>
     poll_timer n x =
       map (\<lambda>k. if (unat (counter x) + k) mod unat (timeout x) = 0 then 1 else 0) [1..<Suc n]"
proof (induction n arbitrary: x)
  case (Suc n)
  have c: "unat (counter x + 1) = unat (counter x) + 1"
    using Suc.prems unsigned_less [of "timeout x", where 'a = nat]
    by (intro u32_plus_one_unat) (simp add: word_less_nat_alt)
  show ?case
  proof (cases "counter x + 1 = timeout x")
    case True
    then have m: "(unat (counter x) + 1) mod unat (timeout x) = 0"
      using c by (metis mod_self)
    have s: "(unat (counter x) + 1 + k) mod unat (timeout x) = k mod unat (timeout x)" for k
      by (subst mod_add_left_eq [symmetric]) (simp only: m add_0)
    have tick: "poll_timer (Suc n) x = 1 # poll_timer n (x\<lparr>counter := 0\<rparr>)"
      using True Suc.prems by (simp add: tick_timer_def Let_def clear_timeout)
    show ?thesis
      unfolding tick map_upt_shift [of "\<lambda>k. if k mod unat (timeout x) = 0 then 1 else 0" "unat (counter x)" n] s m
      using Suc.prems Suc.IH [of "x\<lparr>counter := 0\<rparr>"] by (simp add: word_gt_0 del: upt_Suc)
  next
    case False
    then have lt: "counter x + 1 < timeout x"
      using Suc.prems c by (simp add: word_less_nat_alt word_unat_eq_iff)
    then have m: "(unat (counter x) + 1) mod unat (timeout x) \<noteq> 0"
      using c by (simp add: word_less_nat_alt)
    have tick: "poll_timer (Suc n) x = 0 # poll_timer n (x\<lparr>counter := counter x + 1\<rparr>)"
      using lt Suc.prems by (simp add: tick_timer_def Let_def)
    show ?thesis
      unfolding tick map_upt_shift [of "\<lambda>k. if k mod unat (timeout x) = 0 then 1 else 0" "unat (counter x)" n]
      using Suc.prems Suc.IH [of "x\<lparr>counter := counter x + 1\<rparr>"] lt m c by (simp del: upt_Suc)
  qed
qed simp

text \<open>Any other timer: once the counter has reached the timeout it stays there.\<close>

lemma poll_single:
  "is_repeat x = 0 \<Longrightarrow> is_timeout x = 0 \<Longrightarrow> unat (counter x) + n < 2 ^ 32 \<Longrightarrow>
     poll_timer n x = map (\<lambda>k. if unat (timeout x) \<le> unat (counter x) + k then 1 else 0) [1..<Suc n]"
proof (induction n arbitrary: x)
  case (Suc n)
  have c: "unat (counter x + 1) = unat (counter x) + 1"
    using Suc.prems by (intro u32_plus_one_unat) simp
  have tick: "poll_timer (Suc n) x =
      (if unat (timeout x) \<le> unat (counter x) + 1 then 1 else 0) # poll_timer n (x\<lparr>counter := counter x + 1\<rparr>)"
    using Suc.prems c by (simp add: tick_timer_def Let_def word_le_nat_alt clear_timeout)
  show ?case
    unfolding tick map_upt_shift [of "\<lambda>k. if unat (timeout x) \<le> k then 1 else 0" "unat (counter x)" n]
    using Suc.prems c by (subst Suc.IH) (simp_all del: upt_Suc)
qed simp

section \<open>Sequences of calls\<close>

datatype timer_call = Single_init nat u32 | Repeat_init nat u32 | Stop nat | Reset nat | Is_timeout nat

fun call_timer :: "timer_call \<Rightarrow> nat" where
  "call_timer (Single_init i t) = i"
| "call_timer (Repeat_init i t) = i"
| "call_timer (Stop i) = i"
| "call_timer (Reset i) = i"
| "call_timer (Is_timeout i) = i"

fun run_call :: "timer_call \<Rightarrow> 'z soft_timers_scheme \<Rightarrow> 'z soft_timers_scheme" where
  "run_call (Single_init i t) s = soft_timer_single_init i t s"
| "run_call (Repeat_init i t) s = soft_timer_repeat_init i t s"
| "run_call (Stop i) s = soft_timer_stop i s"
| "run_call (Reset i) s = soft_timer_reset i s"
| "run_call (Is_timeout i) s = snd (soft_timer_is_timeout i s)"

lemma run_call_inv: "timers_inv s \<Longrightarrow> timers_inv (run_call c s)"
  by (cases c) (simp_all add: single_op.inv_oper repeat_op.inv_oper stop_op.inv_oper
      reset_op.inv_oper poll_op.inv_oper)

lemma run_call_frame:
  "timers_inv s \<Longrightarrow> j < SOFT_TIMER_MAX \<Longrightarrow> call_timer c \<noteq> j \<Longrightarrow> timers (run_call c s) ! j = timers s ! j"
  by (cases c) (simp_all add: single_op.frame repeat_op.frame stop_op.frame reset_op.frame poll_op.frame)

section \<open>Properties\<close>

lemma start_inv: "timers_inv soft_timers_start"
  by (simp add: timers_inv_def soft_timers_start_def timer_wf_def)

lemma nth_start: "i < SOFT_TIMER_MAX \<Longrightarrow>
    timers soft_timers_start ! i = \<lparr>counter = 0, timeout = 0, is_timeout = 0, is_repeat = 0\<rparr>"
  by (simp add: soft_timers_start_def)

text \<open>
  C37: a repeat timer of period \<open>t\<close> that is polled after every tick reports a timeout at exactly the
  ticks \<open>t, 2t, 3t, \<dots>\<close> after its initialisation, whatever it and the other timers held before.
\<close>

theorem repeat_timer_fires_periodically:
  assumes "timers_inv s" "i < SOFT_TIMER_MAX" "t \<noteq> 0"
  shows "poll_rounds i n (soft_timer_repeat_init i t s) =
           map (\<lambda>k. if unat t dvd k then 1 else 0) [1..<Suc n]"
proof -
  let ?x = "timers (soft_timer_repeat_init i t s) ! i"
  have x: "?x = (timers s ! i)\<lparr>counter := 0, timeout := t, is_timeout := 0, is_repeat := 1\<rparr>"
    using assms by (intro repeat_op.effect_at)
  have "poll_rounds i n (soft_timer_repeat_init i t s) = poll_timer n ?x"
    using assms by (intro poll_rounds_timer repeat_op.inv_oper)
  also have "\<dots> = map (\<lambda>k. if (unat (counter ?x) + k) mod unat (timeout ?x) = 0 then 1 else 0) [1..<Suc n]"
    using assms(3) by (intro poll_repeat) (simp_all add: x word_gt_0)
  finally show ?thesis by (simp add: x dvd_eq_mod_eq_0 del: upt_Suc)
qed

theorem repeat_timer_fires_periodically_witness:
  "poll_rounds 4 7 (soft_timer_repeat_init 4 3 soft_timers_start) = [0, 0, 1, 0, 0, 1, 0]"
proof -
  have "[1..<Suc 7] = [1, 2, 3, 4, 5, 6, 7]" by code_simp
  then show ?thesis
    using repeat_timer_fires_periodically [OF start_inv, of 4 3 7]
    by (simp add: SOFT_TIMER_MAX_def del: upt_Suc)
qed

text \<open>
  a timer set up by \<open>soft_timer_single_init\<close> and polled after every tick is silent before tick \<open>t\<close>,
  and from tick \<open>t\<close> on it reports a timeout at \<^emph>\<open>every\<close> tick: it is not single-shot, because nothing
  stops the comparison of the saturated counter from setting the flag again.
\<close>

theorem single_timer_fires_from_timeout_on:
  assumes "timers_inv s" "i < SOFT_TIMER_MAX" "n < 2 ^ 32"
  shows "poll_rounds i n (soft_timer_single_init i t s) =
           map (\<lambda>k. if unat t \<le> k then 1 else 0) [1..<Suc n]"
proof -
  let ?x = "timers (soft_timer_single_init i t s) ! i"
  have x: "?x = (timers s ! i)\<lparr>counter := 0, timeout := t, is_timeout := 0, is_repeat := 0\<rparr>"
    using assms by (intro single_op.effect_at)
  have "poll_rounds i n (soft_timer_single_init i t s) = poll_timer n ?x"
    using assms by (intro poll_rounds_timer single_op.inv_oper)
  also have "\<dots> = map (\<lambda>k. if unat (timeout ?x) \<le> unat (counter ?x) + k then 1 else 0) [1..<Suc n]"
    using assms(3) by (intro poll_single) (simp_all add: x)
  finally show ?thesis by (simp add: x del: upt_Suc)
qed

theorem single_timer_fires_from_timeout_on_witness:
  "poll_rounds 2 5 (soft_timer_single_init 2 3 soft_timers_start) = [0, 0, 1, 1, 1]"
  using single_timer_fires_from_timeout_on [OF start_inv, of 2 5 3]
  by (simp add: SOFT_TIMER_MAX_def upt_rec [of _ "Suc _"] upt_rec [of _ "numeral _"])

text \<open>
  \<open>soft_timer_stop\<close> does not stop a timer. It clears the counter and the repeat flag but keeps the
  timeout, so a stopped timer that is polled reports a timeout again from tick \<open>timeout\<close> on (at once
  for a slot that was never initialised).
\<close>

theorem stopped_timer_fires_again:
  assumes "timers_inv s" "i < SOFT_TIMER_MAX" "n < 2 ^ 32"
  shows "poll_rounds i n (soft_timer_stop i s) =
           map (\<lambda>k. if unat (timeout (timers s ! i)) \<le> k then 1 else 0) [1..<Suc n]"
proof -
  let ?x = "timers (soft_timer_stop i s) ! i"
  have x: "?x = (timers s ! i)\<lparr>is_timeout := 0, counter := 0, is_repeat := 0\<rparr>"
    using assms by (intro stop_op.effect_at)
  have "poll_rounds i n (soft_timer_stop i s) = poll_timer n ?x"
    using assms by (intro poll_rounds_timer stop_op.inv_oper)
  also have "\<dots> = map (\<lambda>k. if unat (timeout ?x) \<le> unat (counter ?x) + k then 1 else 0) [1..<Suc n]"
    using assms(3) by (intro poll_single) (simp_all add: x)
  finally show ?thesis by (simp add: x del: upt_Suc)
qed

theorem stopped_timer_fires_again_witness:
  "poll_rounds 2 4 (soft_timer_stop 2 (soft_timer_repeat_init 2 3 soft_timers_start)) = [0, 0, 1, 1]"
proof -
  have "timers (soft_timer_repeat_init 2 3 soft_timers_start) ! 2
      = (timers soft_timers_start ! 2)\<lparr>counter := 0, timeout := 3, is_timeout := 0, is_repeat := 1\<rparr>"
    by (rule repeat_op.effect_at [OF start_inv]) (simp add: SOFT_TIMER_MAX_def)
  then show ?thesis
    using stopped_timer_fires_again [OF repeat_op.inv_oper [OF start_inv], of 2 4 2 3]
    by (simp add: SOFT_TIMER_MAX_def upt_rec [of _ "Suc _"] upt_rec [of _ "numeral _"])
qed

text \<open>
  The operations on one timer never disturb another one. From any state of the invariant, an
  arbitrary sequence of API calls on timers other than \<open>j\<close> leaves timer \<open>j\<close> as it was and the
  invariant in place.
\<close>

theorem timers_do_not_interfere:
  assumes "timers_inv s" "j < SOFT_TIMER_MAX" "\<forall>c \<in> set cs. call_timer c \<noteq> j"
  shows "timers_inv (fold run_call cs s) \<and> timers (fold run_call cs s) ! j = timers s ! j"
  using assms by (induction cs arbitrary: s) (simp_all add: run_call_inv run_call_frame)

theorem timers_do_not_interfere_witness:
  "timers (fold run_call [Single_init 1 9, Stop 3, Is_timeout 7, Reset 200] soft_timers_start) ! 2
     = timers soft_timers_start ! 2"
  using timers_do_not_interfere [OF start_inv, of 2 "[Single_init 1 9, Stop 3, Is_timeout 7, Reset 200]"]
  by (simp add: SOFT_TIMER_MAX_def)

end
