(* ===== verification/System_Tick.thy ===== *)
theory System_Tick
  imports Soft_Timer
begin

text \<open>
  The clock of the board: \<open>SystemInit\<close> and \<open>SystemCoreClockUpdate\<close> of \<open>system_gd32f4xx.c\<close> in the
  configuration the build selects (168 MHz from the PLL on the 8 MHz crystal), the SysTick and NVIC
  routines of the CMSIS headers, and the handlers and delays of \<open>app/gd32f4xx_it.c\<close>. The properties
  are the 10 ms period of the tick, that a delay is never too short, and that it returns.
\<close>

section \<open>Cortex-M4 core: SysTick and NVIC\<close>

definition SYSTICK_CTRL :: u32 where "SYSTICK_CTRL = 0xE000E010"
definition SYSTICK_LOAD :: u32 where "SYSTICK_LOAD = 0xE000E014"
definition SYSTICK_VAL :: u32 where "SYSTICK_VAL = 0xE000E018"
definition NVIC_ISER :: u32 where "NVIC_ISER = 0xE000E100"
definition NVIC_ICER :: u32 where "NVIC_ICER = 0xE000E180"
definition NVIC_IP :: u32 where "NVIC_IP = 0xE000E400"
definition SCB_VTOR :: u32 where "SCB_VTOR = 0xE000ED08"
definition SCB_AIRCR :: u32 where "SCB_AIRCR = 0xE000ED0C"
definition SCB_SHP :: u32 where "SCB_SHP = 0xE000ED18"

definition NVIC_PRIGROUP_PRE2_SUB2 :: u32 where "NVIC_PRIGROUP_PRE2_SUB2 = 0x500"

definition nvic_priority_group_set :: "u32 \<Rightarrow> ('z bus_scheme, unit) cm" where
  "nvic_priority_group_set nvic_prigroup = wr32 SCB_AIRCR (0x05FA0000 OR nvic_prigroup)"

text \<open>The register is read again for each comparison, as in the source's chain of tests.\<close>

definition nvic_priority_split :: "hw \<Rightarrow> ('z bus_scheme, nat \<times> nat) cm" where
  "nvic_priority_split h =
     bindM (rd32 h SCB_AIRCR) (\<lambda>a. if a AND 0x700 = 0x700 then ret (0, 4) else
     bindM (rd32 h SCB_AIRCR) (\<lambda>a. if a AND 0x700 = 0x600 then ret (1, 3) else
     bindM (rd32 h SCB_AIRCR) (\<lambda>a. if a AND 0x700 = 0x500 then ret (2, 2) else
     bindM (rd32 h SCB_AIRCR) (\<lambda>a. if a AND 0x700 = 0x400 then ret (3, 1) else
     bindM (rd32 h SCB_AIRCR) (\<lambda>a. if a AND 0x700 = 0x300 then ret (4, 0) else
     thenM (nvic_priority_group_set NVIC_PRIGROUP_PRE2_SUB2) (ret (2, 2)))))))"

definition nvic_irq_enable :: "hw \<Rightarrow> u8 \<Rightarrow> u8 \<Rightarrow> u8 \<Rightarrow> ('z bus_scheme, unit) cm" where
  "nvic_irq_enable h nvic_irq pre_priority sub_priority =
     bindM (nvic_priority_split h) (\<lambda>(temp_pre, temp_sub).
       let p = push_bit (4 - temp_pre) (ucast pre_priority :: u32);
           p = p OR (ucast sub_priority AND drop_bit (4 - temp_sub) 0x0F);
           p = push_bit 4 p
       in thenM (wr32 (NVIC_IP + ucast nvic_irq) (p AND 0xFF))
            (wr32 (NVIC_ISER + 4 * drop_bit 5 (ucast nvic_irq)) (push_bit (unat (nvic_irq AND 0x1F)) 1)))"

definition nvic_irq_disable :: "u8 \<Rightarrow> ('z bus_scheme, unit) cm" where
  "nvic_irq_disable nvic_irq =
     wr32 (NVIC_ICER + 4 * drop_bit 5 (ucast nvic_irq)) (push_bit (unat (nvic_irq AND 0x1F)) 1)"

definition nvic_vector_table_set :: "u32 \<Rightarrow> u32 \<Rightarrow> ('z bus_scheme, unit) cm" where
  "nvic_vector_table_set nvic_vict_tab offset = wr32 SCB_VTOR (nvic_vict_tab OR (offset AND 0x1FFFFF80))"

text \<open>\<open>SysTick_IRQn\<close> is \<open>-1\<close>; four priority bits are implemented. The store is one byte wide.\<close>

definition NVIC_SetPriority :: "int \<Rightarrow> u32 \<Rightarrow> ('z bus_scheme, unit) cm" where
  "NVIC_SetPriority irqn priority =
     (let v = push_bit 4 priority AND 0xFF
      in if irqn < 0 then wr32 (SCB_SHP + ((word_of_int irqn AND 0xF) - 4)) v
         else wr32 (NVIC_IP + word_of_int irqn) v)"

definition SysTick_Config :: "u32 \<Rightarrow> ('z bus_scheme, u32) cm" where
  "SysTick_Config ticks =
     (if ticks - 1 > 0xFFFFFF then ret 1
      else thenM (wr32 SYSTICK_LOAD (ticks - 1))
          (thenM (NVIC_SetPriority (- 1) (push_bit 4 1 - 1))
          (thenM (wr32 SYSTICK_VAL 0)
          (thenM (wr32 SYSTICK_CTRL (BIT 2 OR BIT 1 OR BIT 0))
          (ret 0)))))"

section \<open>System clock\<close>

definition RCU_CTL :: u32 where "RCU_CTL = 0x40023800"
definition RCU_PLL :: u32 where "RCU_PLL = 0x40023804"
definition RCU_CFG0 :: u32 where "RCU_CFG0 = 0x40023808"
definition RCU_INT :: u32 where "RCU_INT = 0x4002380C"
definition RCU_APB1EN :: u32 where "RCU_APB1EN = 0x40023840"
definition PMU_CTL :: u32 where "PMU_CTL = 0x40007000"
definition PMU_CS :: u32 where "PMU_CS = 0x40007004"

definition IRC16M_VALUE :: u32 where "IRC16M_VALUE = 16000000"
definition HXTAL_VALUE :: u32 where "HXTAL_VALUE = 8000000"

text \<open>The bounded wait: \<open>while ((0 == (REG & m)) && (TIMEOUT != timeout++)) {}\<close>.\<close>

definition wait_stable :: "hw \<Rightarrow> u32 \<Rightarrow> u32 \<Rightarrow> u32 \<Rightarrow> ('z bus_scheme, u32) cm" where
  "wait_stable h a m limit =
     whileM (\<lambda>timeout. bindM (rd32 h a) (\<lambda>v. ret (v AND m = 0 \<and> limit \<noteq> timeout)))
       (\<lambda>timeout. ret (timeout + 1)) 0"

text \<open>The part of \<open>system_clock_168m_8m_hxtal\<close> after the crystal is stable.\<close>

definition select_pll_168m :: "hw \<Rightarrow> ('z bus_scheme, unit) cm" where
  "select_pll_168m h = seqM
        [setbits h RCU_APB1EN (BIT 28),
         setbits h PMU_CTL (BITS 14 15),
         setbits h RCU_CFG0 (BITS 4 7 AND push_bit 4 0),
         setbits h RCU_CFG0 (BITS 13 15 AND push_bit 13 4),
         setbits h RCU_CFG0 (BITS 10 12 AND push_bit 10 5),
         wr32 RCU_PLL (8 OR push_bit 6 336 OR push_bit 16 (drop_bit 1 2 - 1) OR BIT 22 OR push_bit 24 7),
         setbits h RCU_CTL (BIT 24),
         poll_until h RCU_CTL (\<lambda>v. v AND BIT 25 \<noteq> 0),
         setbits h PMU_CTL (BIT 16),
         poll_until h PMU_CS (\<lambda>v. v AND BIT 16 \<noteq> 0),
         setbits h PMU_CTL (BIT 17),
         poll_until h PMU_CS (\<lambda>v. v AND BIT 17 \<noteq> 0),
         clrbits h RCU_CFG0 (BITS 0 1),
         setbits h RCU_CFG0 (BITS 0 1 AND 2),
         poll_until h RCU_CFG0 (\<lambda>v. v AND (BITS 2 3 AND push_bit 2 2) \<noteq> 0)]"

definition system_clock_168m_8m_hxtal :: "hw \<Rightarrow> ('z bus_scheme, unit) cm" where
  "system_clock_168m_8m_hxtal h =
     thenM (setbits h RCU_CTL (BIT 16))
     (bindM (wait_stable h RCU_CTL (BIT 17) 0xFFFF) (\<lambda>timeout.
      bindM (rd32 h RCU_CTL) (\<lambda>v.
      thenM (whenM (v AND BIT 17 = 0) (poll_until h RCU_CTL (\<lambda>v. v AND BIT 17 \<noteq> 0)))
      (select_pll_168m h))))"

definition system_clock_config :: "hw \<Rightarrow> ('z bus_scheme, unit) cm" where
  "system_clock_config h = system_clock_168m_8m_hxtal h"

text \<open>\<open>RCU_MODIFY\<close>: its empty counting loops only burn time.\<close>

definition RCU_MODIFY :: "hw \<Rightarrow> nat \<Rightarrow> ('z bus_scheme, unit) cm" where
  "RCU_MODIFY h delay =
     whenM (delay \<noteq> 0)
       (seqM [setbits h RCU_CFG0 (BITS 4 7 AND push_bit 4 8), idleM,
              setbits h RCU_CFG0 (BITS 4 7 AND push_bit 4 9), idleM])"

definition SystemInit :: "hw \<Rightarrow> ('z bus_scheme, unit) cm" where
  "SystemInit h =
     seqM
      [setbits h 0xE000ED88 (push_bit 20 3 OR push_bit 22 3),
       setbits h RCU_CTL (BIT 0),
       poll_until h RCU_CTL (\<lambda>v. v AND BIT 1 \<noteq> 0),
       RCU_MODIFY h 0x50,
       clrbits h RCU_CFG0 (BITS 0 1),
       clrbits h RCU_CTL (BIT 24 OR BIT 19 OR BIT 16),
       clrbits h RCU_CTL (BIT 18),
       wr32 RCU_CFG0 0,
       poll_until h RCU_CFG0 (\<lambda>v. v AND (BITS 2 3 AND push_bit 2 0) = 0),
       wr32 RCU_PLL 0x24003010,
       wr32 RCU_INT 0,
       system_clock_config h]"

record board = bus +
  SystemCoreClock :: u32
  g_system_tick :: u32
  softtimers :: soft_timers

definition ahb_exp :: "nat list" where
  "ahb_exp = [0, 0, 0, 0, 0, 0, 0, 0, 1, 2, 3, 4, 6, 7, 8, 9]"

definition pll_clock :: "hw \<Rightarrow> ('z bus_scheme, u32) cm" where
  "pll_clock h =
     bindM (rd32 h RCU_PLL) (\<lambda>r. let pllpsc = GET_BITS r 0 5 in
     bindM (rd32 h RCU_PLL) (\<lambda>r. let plln = GET_BITS r 6 14 in
     bindM (rd32 h RCU_PLL) (\<lambda>r. let pllp = (GET_BITS r 16 17 + 1) * 2 in
     bindM (rd32 h RCU_PLL) (\<lambda>r. let pllsel = r AND BIT 22;
           ck_src = (if pllsel = BIT 22 then HXTAL_VALUE else IRC16M_VALUE) in
     if pllpsc = 0 then faultM Division_By_Zero
     else ret (((ck_src div pllpsc) * plln) div pllp)))))"

definition SystemCoreClockUpdate :: "hw \<Rightarrow> ('z board_scheme, unit) cm" where
  "SystemCoreClockUpdate h =
     bindM (rd32 h RCU_CFG0) (\<lambda>r.
     let sws = GET_BITS r 2 3 in
     bindM (if sws = 0 then ret IRC16M_VALUE
            else if sws = 1 then ret HXTAL_VALUE
            else if sws = 2 then pll_clock h
            else ret IRC16M_VALUE) (\<lambda>clk.
     thenM (modM (\<lambda>s. s\<lparr>SystemCoreClock := clk\<rparr>))
    (bindM (rd32 h RCU_CFG0) (\<lambda>r.
     let idx = GET_BITS r 4 7 in
     bindM (load_elem ahb_exp (unat idx)) (\<lambda>clk_exp.
     modM (\<lambda>s. s\<lparr>SystemCoreClock := drop_bit clk_exp (SystemCoreClock s)\<rparr>))))))"

section \<open>Handlers, tick and delays of \<open>gd32f4xx_it.c\<close>\<close>

definition NMI_Handler :: "('s, unit) cm" where
  "NMI_Handler = ret ()"

text \<open>\<open>while (1) {}\<close>: the exception handlers and \<open>Error_Handler\<close> never return.\<close>

definition spin_forever :: "('s, unit) cm" where
  "spin_forever = whileM (\<lambda>_. ret True) ret ()"

definition HardFault_Handler :: "('s, unit) cm" where "HardFault_Handler = spin_forever"
definition MemManage_Handler :: "('s, unit) cm" where "MemManage_Handler = spin_forever"
definition BusFault_Handler :: "('s, unit) cm" where "BusFault_Handler = spin_forever"
definition UsageFault_Handler :: "('s, unit) cm" where "UsageFault_Handler = spin_forever"
definition Error_Handler :: "('s, unit) cm" where "Error_Handler = spin_forever"

definition systick_config :: "('z board_scheme, unit) cm" where
  "systick_config =
     bindM (getM SystemCoreClock) (\<lambda>clk.
     bindM (SysTick_Config (clk div 100)) (\<lambda>r.
     thenM (whenM (r \<noteq> 0) spin_forever) (NVIC_SetPriority (- 1) 15)))"

definition SysTick_Handler :: "'z board_scheme \<Rightarrow> 'z board_scheme" where
  "SysTick_Handler s =
     (let s = s\<lparr>g_system_tick := g_system_tick s + 1\<rparr>
      in s\<lparr>softtimers := soft_timer_tick (softtimers s)\<rparr>)"

definition get_system_tick :: "'z board_scheme \<Rightarrow> u32" where
  "get_system_tick s = g_system_tick s"

definition board_init :: "hw \<Rightarrow> ('z board_scheme, unit) cm" where
  "board_init h =
     seqM [nvic_priority_group_set NVIC_PRIGROUP_PRE2_SUB2,
           nvic_vector_table_set 0x08000000 0,
           SystemCoreClockUpdate h,
           systick_config]"

text \<open>One turn of the loop of \<open>delay_us\<close>; the flag is the \<open>break\<close>.\<close>

definition delay_turn :: "hw \<Rightarrow> u32 \<Rightarrow> bool \<times> u32 \<times> u32 \<Rightarrow> ('z bus_scheme, bool \<times> u32 \<times> u32) cm" where
  "delay_turn h ticks = (\<lambda>(go, told, tcnt).
     bindM (rd32 h SYSTICK_VAL) (\<lambda>tnow.
     if tnow = told then ret (True, told, tcnt)
     else bindM (if tnow < told then ret (tcnt + (told - tnow))
                 else bindM (rd32 h SYSTICK_LOAD) (\<lambda>ld. ret (tcnt + (ld - tnow + told)))) (\<lambda>tcnt.
          ret (tcnt < ticks, tnow, tcnt))))"

definition delay_us :: "hw \<Rightarrow> u32 \<Rightarrow> ('z board_scheme, unit) cm" where
  "delay_us h us =
     bindM (getM SystemCoreClock) (\<lambda>clk.
     let ticks = us * (clk div 1000000) in
     bindM (rd32 h SYSTICK_VAL) (\<lambda>told.
     bindM (whileM (\<lambda>(go, told, tcnt). ret go) (delay_turn h ticks) (True, told, 0)) (\<lambda>_.
     ret ())))"

definition delay_ms :: "hw \<Rightarrow> u32 \<Rightarrow> ('z board_scheme, unit) cm" where
  "delay_ms h ms = delay_us h (ms * 1000)"

section \<open>Loops\<close>

lemma spin_forever_None: "spin_forever s = None"
proof -
  have "wlp spin_forever (\<lambda>_ _. False) s"
    unfolding spin_forever_def by (rule wlp_whileM [where I = "\<lambda>_ _. True"]) (simp_all add: wp_simps)
  then show ?thesis by (auto simp: wlp_iff wp_def)
qed

lemma wp_spin_forever [wp_simps]: "wp spin_forever Q = (\<lambda>s. False)"
  by (rule ext) (simp add: wp_def spin_forever_None)

text \<open>The wait with a limit always ends, after at most \<open>limit\<close> turns.\<close>

lemma wp_wait_stable:
  assumes Q: "\<And>l r. same_writes (iolog s) l \<Longrightarrow> Q r (s\<lparr>iolog := l\<rparr>)"
  shows "wp (wait_stable h a m limit) Q s"
  unfolding wait_stable_def
proof (rule wp_whileM [where I = "\<lambda>c t. unat c \<le> unat limit \<and> (\<exists>l. t = s\<lparr>iolog := l\<rparr> \<and> same_writes (iolog s) l)"
      and M = "\<lambda>c t. unat limit - unat c"], goal_cases)
  case 1
  show ?case by (auto intro!: exI [of _ "iolog s"] simp: same_writes_def)
next
  case (2 c t)
  have "limit \<noteq> c \<Longrightarrow> unat (c + 1) = unat c + 1"
    using 2 unsigned_less [of limit, where 'a = nat]
    by (intro u32_plus_one_unat) (auto simp: word_unat_eq_iff)
  with 2 show ?case
    by (auto simp: wp_simps word_unat_eq_iff Q same_writes_Rd)
qed

section \<open>The delay\<close>

text \<open>
  SysTick as the architecture manual describes it: a counter that goes down by one per core cycle from
  the reload value to zero and starts over. \<open>cyc l\<close> is the number of cycles since some origin when the
  history is \<open>l\<close>; two accesses in a row are at least one cycle and at most half a period apart.
\<close>

definition systick_counts :: "hw \<Rightarrow> nat \<Rightarrow> (io_log \<Rightarrow> nat) \<Rightarrow> bool" where
  "systick_counts h load cyc \<longleftrightarrow>
     load < 2 ^ 24 \<and>
     (\<forall>l. h l SYSTICK_LOAD = of_nat load \<and> h l SYSTICK_VAL = of_nat (load - cyc l mod (load + 1))) \<and>
     (\<forall>e l. cyc l < cyc (e # l) \<and> cyc (e # l) \<le> cyc l + load div 2)"

lemma systick_step:
  "systick_counts h load cyc \<Longrightarrow> cyc l < cyc (e # l)"
  "systick_counts h load cyc \<Longrightarrow> cyc (e # l) \<le> cyc l + load"
  unfolding systick_counts_def by blast (meson add_left_mono div_le_dividend order_trans)

lemma mod_step_cases:
  fixes t0 t1 load :: nat
  assumes "t0 < t1" "t1 \<le> t0 + load"
  shows "t1 mod (load + 1) = t0 mod (load + 1) + (t1 - t0) \<or>
         t1 mod (load + 1) + (load + 1) = t0 mod (load + 1) + (t1 - t0)"
proof -
  define a where "a = t0 mod (load + 1)"
  have a: "a \<le> load" by (simp add: a_def less_Suc_eq_le flip: Suc_eq_plus1)
  have "t1 mod (load + 1) = (a + (t1 - t0)) mod (load + 1)"
    unfolding a_def mod_add_left_eq using assms(1) by simp
  moreover have "a + (t1 - t0) < 2 * (load + 1)" using a assms by simp
  ultimately show ?thesis
    unfolding a_def [symmetric] by (cases "a + (t1 - t0) < load + 1") (auto simp: mod_if [of "a + (t1 - t0)"])
qed

text \<open>What one turn adds to the count: the cycles that passed, or one less if the counter wrapped.\<close>

definition delay_inv :: "nat \<Rightarrow> (io_log \<Rightarrow> nat) \<Rightarrow> nat \<Rightarrow> nat \<Rightarrow> nat \<Rightarrow> bool \<times> u32 \<times> u32 \<Rightarrow> io_log \<Rightarrow> bool" where
  "delay_inv load cyc c0 T t0 = (\<lambda>(go, told, tcnt) l.
     told = of_nat (load - t0 mod (load + 1)) \<and> c0 \<le> t0 \<and> t0 < cyc l \<and> cyc l \<le> t0 + load \<and>
     unat tcnt + c0 \<le> t0 \<and> (if go then unat tcnt \<le> T else T \<le> unat tcnt))"

definition delay_measure :: "nat \<Rightarrow> bool \<times> u32 \<times> u32 \<Rightarrow> nat" where
  "delay_measure T = (\<lambda>(go, told, tcnt). if go then Suc (2 * (T - unat tcnt) + (if told = 0 then 1 else 0)) else 0)"

lemma u32_of_nat_simps:
  "n < 2 ^ 32 \<Longrightarrow> unat (of_nat n :: u32) = n"
  "n < 2 ^ 32 \<Longrightarrow> of_nat n = (0 :: u32) \<longleftrightarrow> n = 0"
  by (simp_all add: unat_word_of_nat word_unat_eq_iff)


lemma delay_turn_step:
  fixes s :: "'z bus_scheme"
  assumes sys: "systick_counts h load cyc" and T: "unat ticks = T" "T + 2 ^ 24 < 2 ^ 32"
    and inv: "delay_inv load cyc c0 T t0 (True, told, tcnt) (iolog s)"
  shows "wp (delay_turn h ticks (True, told, tcnt))
           (\<lambda>v s'. (\<exists>l t0'. s' = s\<lparr>iolog := l\<rparr> \<and> delay_inv load cyc c0 T t0' v l) \<and>
              delay_measure T v < delay_measure T (True, told, tcnt)) s"
proof -
  define t1 where "t1 = cyc (iolog s)"
  define a b where "a = t0 mod (load + 1)" and "b = t1 mod (load + 1)"
  define tnow :: u32 where "tnow = of_nat (load - b)"
  let ?l = "Rd SYSTICK_VAL tnow # iolog s"
  have load: "load < 2 ^ 24" "h l SYSTICK_LOAD = of_nat load"
    "h l SYSTICK_VAL = of_nat (load - cyc l mod (load + 1))"
    "cyc l < cyc (e # l)" "cyc (e # l) \<le> cyc l + load div 2" for e l
    using sys unfolding systick_counts_def by blast+
  have t1: "t0 < t1" "t1 \<le> t0 + load" and told: "told = of_nat (load - a)" and c0: "c0 \<le> t0"
    and tc: "unat tcnt + c0 \<le> t0" "unat tcnt \<le> T"
    using inv by (simp_all add: delay_inv_def t1_def a_def)
  have ab: "a \<le> load" "b \<le> load" by (simp_all add: a_def b_def less_Suc_eq_le flip: Suc_eq_plus1)
  have un: "unat told = load - a" "unat tnow = load - b" "unat (of_nat load :: u32) = load"
    using load(1) by (simp_all add: told tnow_def u32_of_nat_simps)
  have read: "h (iolog s) SYSTICK_VAL = tnow" by (simp add: load tnow_def b_def t1_def)
  have cyc: "t1 < cyc ?l" "cyc ?l \<le> t1 + load" "cyc (Rd SYSTICK_LOAD v # ?l) \<le> t1 + load"
    "t1 < cyc (Rd SYSTICK_LOAD v # ?l)" for v
    using load(4,5) [where l = "iolog s" and e = "Rd SYSTICK_VAL tnow"]
      load(4,5) [where l = ?l and e = "Rd SYSTICK_LOAD v"]
    by (simp_all add: t1_def)
  have inv': "delay_inv load cyc c0 T t1 (tcnt' < ticks, tnow, tcnt') l'"
    if "unat tcnt' \<le> unat tcnt + (t1 - t0)" "t1 < cyc l'" "cyc l' \<le> t1 + load" for tcnt' l'
    using that c0 t1 tc(1) T(1) by (auto simp: delay_inv_def tnow_def b_def word_less_nat_alt)
  consider (down) "b = a + (t1 - t0)" | (wrap) "b + (load + 1) = a + (t1 - t0)"
    using mod_step_cases [OF t1] by (auto simp: a_def b_def)
  then show ?thesis
  proof cases
    case down
    then have lt: "tnow < told" using t1 ab by (simp add: word_less_nat_alt un)
    then have d: "unat (told - tnow) = t1 - t0" using down ab by (simp add: unat_sub_if' un word_less_nat_alt)
    let ?c = "tcnt + (told - tnow)"
    have c: "unat ?c = unat tcnt + (t1 - t0)"
      using d tc T(2) t1 load(1) by (subst unat_add_lem [THEN iffD1]) (simp_all add: d)
    have "delay_inv load cyc c0 T t1 (?c < ticks, tnow, ?c) ?l"
      using cyc c by (intro inv') simp_all
    moreover have "delay_measure T (?c < ticks, tnow, ?c) < delay_measure T (True, told, tcnt)"
      using c t1 tc T by (auto simp: delay_measure_def word_less_nat_alt)
    ultimately show ?thesis
      using lt by (simp add: delay_turn_def wp_simps read) blast
  next
    case wrap
    then have lt: "\<not> tnow < told" "tnow \<noteq> told" using t1 ab by (auto simp: word_less_nat_alt word_unat_eq_iff un)
    have "unat (of_nat load - tnow :: u32) = b"
      using ab by (simp add: unat_sub_if' un)
    then have d: "unat (of_nat load - tnow + told) = t1 - t0 - 1"
      using wrap ab load(1) t1 by (subst unat_add_lem [THEN iffD1]) (simp_all add: un)
    let ?c = "tcnt + (of_nat load - tnow + told)"
    have c: "unat ?c = unat tcnt + (t1 - t0 - 1)"
      using d tc T(2) t1 load(1) by (subst unat_add_lem [THEN iffD1]) simp_all
    have z: "told = 0 \<and> tnow \<noteq> 0" if "t1 - t0 = 1"
      using wrap that ab t1 load(1) by (auto simp: word_unat_eq_iff un)
    let ?l' = "Rd SYSTICK_LOAD (of_nat load) # ?l"
    have "delay_inv load cyc c0 T t1 (?c < ticks, tnow, ?c) ?l'"
      using cyc c by (intro inv') simp_all
    moreover have "delay_measure T (?c < ticks, tnow, ?c) < delay_measure T (True, told, tcnt)"
      using c t1 tc T z by (cases "t1 - t0 = 1") (auto simp: delay_measure_def word_less_nat_alt)
    ultimately show ?thesis
      using lt by (simp add: delay_turn_def wp_simps read load(2)) blast
  qed
qed

lemma wp_delay_us:
  fixes s :: "'z board_scheme"
  assumes sys: "systick_counts h load cyc"
    and T: "T = unat (us * (SystemCoreClock s div 1000000))" "T + 2 ^ 24 < 2 ^ 32"
  shows "wp (delay_us h us) (\<lambda>_ s'. \<exists>l. s' = s\<lparr>iolog := l\<rparr> \<and> cyc (iolog s) + T \<le> cyc l) s"
proof -
  let ?ticks = "us * (SystemCoreClock s div 1000000)"
  let ?l0 = "Rd SYSTICK_VAL (h (iolog s) SYSTICK_VAL) # iolog s"
  let ?I = "\<lambda>v t. \<exists>l t0. t = s\<lparr>iolog := l\<rparr> \<and> delay_inv load cyc (cyc (iolog s)) T t0 v l"
  have "cyc (iolog s) < cyc ?l0" "cyc ?l0 \<le> cyc (iolog s) + load"
    using systick_step [OF sys] by blast+
  then have init: "?I (True, h (iolog s) SYSTICK_VAL, 0) (s\<lparr>iolog := ?l0\<rparr>)"
    using sys by (auto simp: delay_inv_def systick_counts_def intro!: exI [of _ "cyc (iolog s)"])
  have "wp (whileM (\<lambda>(go, told, tcnt). ret go) (delay_turn h ?ticks) (True, h (iolog s) SYSTICK_VAL, 0))
      (\<lambda>_ s'. \<exists>l. s' = s\<lparr>iolog := l\<rparr> \<and> cyc (iolog s) + T \<le> cyc l) (s\<lparr>iolog := ?l0\<rparr>)"
  proof (rule wp_whileM [where I = ?I and M = "\<lambda>v _. delay_measure T v", OF init], goal_cases)
    case (1 v t)
    then obtain l t0 go told tcnt where v: "v = (go, told, tcnt)" and t: "t = s\<lparr>iolog := l\<rparr>"
      and inv: "delay_inv load cyc (cyc (iolog s)) T t0 (go, told, tcnt) l" by (cases v) auto
    show ?case
    proof (cases go)
      case True
      have "wp (delay_turn h ?ticks (True, told, tcnt))
          (\<lambda>v s'. (\<exists>l' t0'. s' = t\<lparr>iolog := l'\<rparr> \<and> delay_inv load cyc (cyc (iolog s)) T t0' v l') \<and>
             delay_measure T v < delay_measure T (True, told, tcnt)) t"
        using inv True by (intro delay_turn_step [OF sys T(1) [symmetric] T(2)]) (simp add: t)
      then show ?thesis
        using True by (auto simp: v wp_simps t elim!: wp_mono)
    next
      case False
      then show ?thesis using inv by (auto simp: v wp_simps t delay_inv_def)
    qed
  qed
  then show ?thesis by (simp add: delay_us_def wp_simps Let_def)
qed


section \<open>The clock tree\<close>

text \<open>
  The clock hardware as the reference manual describes it: every stabilisation flag the code polls
  comes up in the end; the PLL register keeps what was written; in \<open>RCU_CFG0\<close> the field \<open>SCSS\<close> (bits 2
  and 3) follows the field \<open>SCS\<close> (bits 0 and 1) and the other bits keep what was written.
\<close>

definition cfg0_value :: "u32 \<Rightarrow> u32" where
  "cfg0_value v = (v AND 0xFFFFFFF3) OR push_bit 2 (v AND 3)"

definition clock_hw :: "hw \<Rightarrow> bool" where
  "clock_hw h \<longleftrightarrow>
     responds h RCU_CTL (\<lambda>v. v AND BIT 1 \<noteq> 0) \<and> responds h RCU_CTL (\<lambda>v. v AND BIT 17 \<noteq> 0) \<and>
     responds h RCU_CTL (\<lambda>v. v AND BIT 25 \<noteq> 0) \<and> responds h PMU_CS (\<lambda>v. v AND BIT 16 \<noteq> 0) \<and>
     responds h PMU_CS (\<lambda>v. v AND BIT 17 \<noteq> 0) \<and>
     storage_reg h RCU_PLL 0x24003010 \<and>
     (\<forall>l. h l RCU_CFG0 = cfg0_value (case last_wr RCU_CFG0 l of None \<Rightarrow> 0 | Some v \<Rightarrow> v))"

lemmas clock_regs = RCU_CTL_def RCU_PLL_def RCU_CFG0_def RCU_INT_def RCU_APB1EN_def PMU_CTL_def PMU_CS_def

lemma clock_regs_neq:
  "RCU_CFG0 \<noteq> RCU_CTL" "RCU_CFG0 \<noteq> RCU_PLL" "RCU_CFG0 \<noteq> RCU_INT" "RCU_CFG0 \<noteq> RCU_APB1EN"
  "RCU_CFG0 \<noteq> PMU_CTL" "RCU_PLL \<noteq> RCU_CTL" "RCU_PLL \<noteq> RCU_CFG0" "RCU_PLL \<noteq> RCU_INT"
  "RCU_PLL \<noteq> RCU_APB1EN" "RCU_PLL \<noteq> PMU_CTL"
  by (simp_all add: clock_regs)

definition cfg0_is :: "u32 \<Rightarrow> io_log \<Rightarrow> bool" where
  "cfg0_is v l \<longleftrightarrow> last_wr RCU_CFG0 l = Some v"

lemma cfg0_read: "clock_hw h \<Longrightarrow> cfg0_is v l \<Longrightarrow> h l RCU_CFG0 = cfg0_value v"
  by (simp add: clock_hw_def cfg0_is_def)

lemma cfg0_same: "same_writes l l' \<Longrightarrow> cfg0_is v l' = cfg0_is v l"
  by (simp add: cfg0_is_def same_writes_def)

text \<open>\<open>SystemInit\<close> and the clock configuration leave the PLL selected, with the AHB undivided.\<close>

definition pll_168m :: "'z bus_scheme \<Rightarrow> 'z bus_scheme \<Rightarrow> bool" where
  "pll_168m s s' \<longleftrightarrow>
     (\<exists>l. s' = s\<lparr>iolog := l\<rparr> \<and> cfg0_is 0x9402 l \<and> last_wr RCU_PLL l = Some 0x7405408)"

lemma pll_168m_iolog [simp]: "pll_168m (s\<lparr>iolog := l\<rparr>) = pll_168m s"
  by (auto simp: pll_168m_def fun_eq_iff)

lemma wp_select_pll_168m:
  assumes h: "clock_hw h" and s: "cfg0_is 0 (iolog s)"
  shows "wp (select_pll_168m h) (\<lambda>_. pll_168m s) s"
proof -
  have resp: "responds h RCU_CTL (\<lambda>v. v AND BIT 25 \<noteq> 0)"
    "responds h PMU_CS (\<lambda>v. v AND BIT 16 \<noteq> 0)" "responds h PMU_CS (\<lambda>v. v AND BIT 17 \<noteq> 0)"
    and cfg: "h l RCU_CFG0 = cfg0_value (case last_wr RCU_CFG0 l of None \<Rightarrow> 0 | Some v \<Rightarrow> v)" for l
    using h by (simp_all add: clock_hw_def)
  note ev = wp_simps bits_defs same_writes_def clock_regs_neq cfg0_is_def BITS_values cfg0_value_def cfg
    pll_168m_def
  show ?thesis
    using s unfolding select_pll_168m_def
    apply (simp add: ev)
    apply (rule wp_poll_until [OF resp(1) [simplified]])
    apply (simp add: ev)
    apply (rule wp_poll_until [OF resp(2) [simplified]])
    apply (simp add: ev)
    apply (rule wp_poll_until [OF resp(3) [simplified]])
    apply (simp add: ev)
    apply (rule wp_poll_now)
     apply (simp_all add: ev)
    done
qed

lemma wp_system_clock:
  assumes h: "clock_hw h" and s: "cfg0_is 0 (iolog s)"
  shows "wp (system_clock_config h) (\<lambda>_. pll_168m s) s"
proof -
  have tail: "wp (select_pll_168m h) (\<lambda>_. pll_168m s) (s\<lparr>iolog := l\<rparr>)" if "cfg0_is 0 l" for l
    using wp_select_pll_168m [OF h, of "s\<lparr>iolog := l\<rparr>"] that by simp
  have resp: "responds h RCU_CTL (\<lambda>v. v AND BIT 17 \<noteq> 0)"
    using h by (simp add: clock_hw_def)
  have wait: "wp (whenM b (poll_until h RCU_CTL (\<lambda>v. v AND BIT 17 \<noteq> 0)))
      (\<lambda>_. wp (select_pll_168m h) (\<lambda>_. pll_168m s)) (s\<lparr>iolog := l\<rparr>)" if "cfg0_is 0 l" for b l
    unfolding whenM_def using that
    by (cases b) (auto simp: wp_ret tail cfg0_is_def same_writesD intro!: wp_poll_until [OF resp [simplified]])
  show ?thesis
    unfolding system_clock_config_def system_clock_168m_8m_hxtal_def wp_bindM wp_thenM wp_mod32 wp_rd32 bits_defs
    by (rule wp_wait_stable) (use s in \<open>auto simp: cfg0_is_def same_writes_def clock_regs_neq intro!: wait [simplified]\<close>)
qed

lemma wp_SystemInit:
  assumes h: "clock_hw h"
  shows "wp (SystemInit h)
           (\<lambda>_. pll_168m s) s"
proof -
  have resp: "responds h RCU_CTL (\<lambda>v. v AND BIT 1 \<noteq> 0)"
    using h by (simp add: clock_hw_def)
  have "wp (system_clock_config h) (\<lambda>_. pll_168m s) (s\<lparr>iolog := l\<rparr>)"
    if "cfg0_is 0 l" for l
    using wp_system_clock [OF h, of "s\<lparr>iolog := l\<rparr>"] that by simp
  then show ?thesis
    unfolding SystemInit_def RCU_MODIFY_def
    apply (simp add: wp_simps bits_defs)
    apply (rule wp_poll_until [OF resp [simplified]])
    apply (simp add: wp_simps bits_defs)
    apply (rule wp_poll_now)
     apply (simp_all add: wp_simps bits_defs BITS_values cfg0_is_def same_writes_def clock_regs_neq)
    done
qed

lemma wp_board_init:
  assumes h: "clock_hw h" and s: "cfg0_is 0x9402 (iolog s)" "last_wr RCU_PLL (iolog s) = Some 0x7405408"
  shows "wp (board_init h)
           (\<lambda>_ s'. SystemCoreClock s' = 168000000 \<and> last_wr SYSTICK_LOAD (iolog s') = Some (1680000 - 1) \<and>
              last_wr SYSTICK_CTRL (iolog s') = Some 7 \<and> g_system_tick s' = g_system_tick s \<and>
              softtimers s' = softtimers s) s"
proof -
  have cfg: "h l RCU_CFG0 = cfg0_value (case last_wr RCU_CFG0 l of None \<Rightarrow> 0 | Some v \<Rightarrow> v)"
    and pll: "h l RCU_PLL = (case last_wr RCU_PLL l of None \<Rightarrow> 0x24003010 | Some v \<Rightarrow> v)" for l
    using h by (simp_all add: clock_hw_def storage_reg_def)
  have neq: "RCU_CFG0 \<noteq> SCB_AIRCR" "RCU_CFG0 \<noteq> SCB_VTOR" "RCU_PLL \<noteq> SCB_AIRCR" "RCU_PLL \<noteq> SCB_VTOR"
    "SYSTICK_LOAD \<noteq> SYSTICK_VAL" "SYSTICK_LOAD \<noteq> SYSTICK_CTRL"
    "SYSTICK_LOAD \<noteq> SCB_SHP + 11" "SYSTICK_CTRL \<noteq> SCB_SHP + 11"
    by (simp_all add: clock_regs SCB_SHP_def SCB_AIRCR_def SCB_VTOR_def SYSTICK_LOAD_def SYSTICK_VAL_def SYSTICK_CTRL_def)
  show ?thesis
    using s
    by (simp add: board_init_def nvic_priority_group_set_def nvic_vector_table_set_def SystemCoreClockUpdate_def
        pll_clock_def systick_config_def SysTick_Config_def NVIC_SetPriority_def wp_simps Let_def cfg pll
        cfg0_is_def neq cfg0_value_def GET_BITS_def BITS_values ahb_exp_def HXTAL_VALUE_def)
qed

section \<open>Properties\<close>

text \<open>
  For every clock hardware whose stabilisation flags come up in the end, \<open>SystemInit\<close> followed by
  \<open>board_init\<close> returns, computes a core clock of 168 MHz, and starts SysTick with a reload value of
  1679999, that is one interrupt every 1680000 cycles: a period of exactly 10 ms (100 interrupts of
  that many cycles are one second of the core clock), not the 1 ms of the comments.
\<close>

theorem tick_period_is_10ms:
  fixes s :: "'z board_scheme"
  assumes "clock_hw h"
  shows "wp (thenM (SystemInit h) (board_init h))
           (\<lambda>_ s'. unat (SystemCoreClock s') = 168 * 10 ^ 6 \<and>
              (\<exists>r. last_wr SYSTICK_LOAD (iolog s') = Some r \<and> 100 * (unat r + 1) = unat (SystemCoreClock s')) \<and>
              last_wr SYSTICK_CTRL (iolog s') = Some 7) s"
proof -
  have "wp (board_init h)
           (\<lambda>_ s'. unat (SystemCoreClock s') = 168 * 10 ^ 6 \<and>
              (\<exists>r. last_wr SYSTICK_LOAD (iolog s') = Some r \<and> 100 * (unat r + 1) = unat (SystemCoreClock s')) \<and>
              last_wr SYSTICK_CTRL (iolog s') = Some 7) t" if "pll_168m s t" for t
  proof -
    obtain l where "t = s\<lparr>iolog := l\<rparr>" "cfg0_is 0x9402 l" "last_wr RCU_PLL l = Some 0x7405408"
      using \<open>pll_168m s t\<close> by (auto simp: pll_168m_def)
    then show ?thesis by (intro wp_mono [OF wp_board_init [OF assms]]) auto
  qed
  with wp_SystemInit [OF assms, of s] show ?thesis
    unfolding wp_thenM by (rule wp_mono) auto
qed

text \<open>A concrete clock hardware: all flags up at once, storage for the two registers read back.\<close>

definition demo_clock :: hw where
  "demo_clock l a =
     (if a = RCU_PLL then (case last_wr a l of None \<Rightarrow> 0x24003010 | Some v \<Rightarrow> v)
      else if a = RCU_CFG0 then cfg0_value (case last_wr a l of None \<Rightarrow> 0 | Some v \<Rightarrow> v)
      else 0xFFFFFFFF)"

lemma demo_clock_hw: "clock_hw demo_clock"
  by (auto simp: clock_hw_def responds_def storage_reg_def demo_clock_def clock_regs_neq clock_regs)

definition board_start :: board where
  "board_start = \<lparr>iolog = [], SystemCoreClock = 168000000, g_system_tick = 0, softtimers = soft_timers_start\<rparr>"

theorem tick_period_is_10ms_witness:
  "wp (thenM (SystemInit demo_clock) (board_init demo_clock))
      (\<lambda>_ s'. unat (SystemCoreClock s') = 168 * 10 ^ 6 \<and>
         (\<exists>r. last_wr SYSTICK_LOAD (iolog s') = Some r \<and> 100 * (unat r + 1) = unat (SystemCoreClock s')) \<and>
         last_wr SYSTICK_CTRL (iolog s') = Some 7) board_start"
  by (rule tick_period_is_10ms [OF demo_clock_hw])

text \<open>
  C38: \<open>delay_us\<close> returns, changes nothing but the history of register reads, and does not return early:
  at least \<open>us\<close> times the cycles per microsecond have passed on the core clock, although the counter
  wraps around during the wait and each wrap is counted one cycle short. The product must stay below
  \<open>2^32 - 2^24\<close>, about 25.4 seconds at 168 MHz: a longer delay wraps around in the 32-bit product. The
  counter must be read at least every half period, so an interrupt may not hold the wait up for longer.
\<close>

theorem delay_us_not_too_short:
  fixes s :: "'z board_scheme"
  assumes "systick_counts h load cyc"
    and "unat us * (unat (SystemCoreClock s) div 10 ^ 6) + 2 ^ 24 < 2 ^ 32"
  shows "wp (delay_us h us)
           (\<lambda>_ s'. (\<exists>l. s' = s\<lparr>iolog := l\<rparr>) \<and>
              unat us * (unat (SystemCoreClock s) div 10 ^ 6) \<le> cyc (iolog s') - cyc (iolog s)) s"
proof -
  have T: "unat (us * (SystemCoreClock s div 1000000)) = unat us * (unat (SystemCoreClock s) div 10 ^ 6)"
    using assms(2) by (subst unat_mult_lem [THEN iffD1]) (simp_all add: unat_div)
  show ?thesis
    using assms by (intro wp_mono [OF wp_delay_us [OF assms(1) refl]]) (auto simp: T)
qed

text \<open>A counter of period 8 that advances by one cycle per access.\<close>

definition demo_systick :: hw where
  "demo_systick l a = (if a = SYSTICK_LOAD then 7 else if a = SYSTICK_VAL then of_nat (7 - length l mod 8) else 0)"

theorem delay_us_not_too_short_witness:
  "wp (delay_us demo_systick 3) (\<lambda>_ s'. (\<exists>l. s' = board_start\<lparr>iolog := l\<rparr>) \<and> 504 \<le> length (iolog s')) board_start"
proof -
  have "systick_counts demo_systick 7 length"
    by (simp add: systick_counts_def demo_systick_def SYSTICK_LOAD_def SYSTICK_VAL_def)
  moreover have "unat (3 :: u32) * (unat (SystemCoreClock board_start) div 10 ^ 6) = 504"
    by (simp add: board_start_def)
  ultimately show ?thesis
    using delay_us_not_too_short [of demo_systick 7 length 3 board_start] by (simp add: board_start_def)
qed

text \<open>
  \<open>systick_config\<close> hangs in its error loop exactly when a hundredth of the core clock does not fit
  the 24-bit reload register (or is zero), and otherwise always returns.
\<close>

theorem systick_config_hangs_iff:
  "systick_config s = None \<longleftrightarrow> unat (SystemCoreClock s) div 100 = 0 \<or> 2 ^ 24 < unat (SystemCoreClock s) div 100"
proof -
  let ?t = "SystemCoreClock s div 100"
  have "unat ?t = unat (SystemCoreClock s) div 100" by (simp add: unat_div)
  moreover have "?t - 1 > 0xFFFFFF \<longleftrightarrow> unat ?t = 0 \<or> 2 ^ 24 < unat ?t"
  proof (cases "?t = 0")
    case False
    then have "unat (?t - 1) = unat ?t - 1" by (simp add: unat_minus_one)
    with False show ?thesis by (auto simp: word_less_nat_alt word_unat_eq_iff)
  qed simp
  ultimately show ?thesis
    by (simp add: systick_config_def run_simps SysTick_Config_def NVIC_SetPriority_def whenM_def
        spin_forever_None Let_def)
qed

end
