(* ===== verification/Buzzer.thy ===== *)
theory Buzzer
  imports System_Tick
begin

text \<open>
  The non-blocking driver of the passive buzzer, \<open>src/module/buzzer/buzzer.c\<close>. The functions
  \<open>buzzer_beep_set\<close> and \<open>beep_init\<close> of \<open>bsp_beep.h\<close> are not part of the repository: they are arguments
  here, acting on a port state of any type. The properties give the course of one queued tone tick
  by tick, the bounds of the queue, and what happens to the queue when it has been played.
\<close>

section \<open>The code\<close>

record buzzer_data =
  tone_freq :: u16
  volume :: u8
  on_time :: u32
  off_time :: u32

definition MAX_BUZZER_DATA_SIZE :: nat where "MAX_BUZZER_DATA_SIZE = 20"

text \<open>The file's static variables and those of \<open>buzzer_poll\<close>, on top of the board's tick.\<close>

record 'p buzzer = board +
  buzzer_beep_data :: "buzzer_data list"
  write_pos :: u8
  read_pos :: u8
  is_beeping :: u8
  immediate_end_time :: u32
  beep_on_time :: u32
  beep_off_time :: u32
  current_tick :: u32
  inter_beeping_flag :: u8
  port :: 'p

type_synonym 'p beep_set = "u16 \<Rightarrow> u8 \<Rightarrow> 'p \<Rightarrow> 'p"

definition buzzer_beep_port :: "'p beep_set \<Rightarrow> u16 \<Rightarrow> u8 \<Rightarrow> ('p buzzer, unit) cm" where
  "buzzer_beep_port beep_set freq vol =
     (if freq = 0 \<or> vol = 0 then modM (\<lambda>s. s\<lparr>port := beep_set freq vol (port s)\<rparr>)
      else modM (\<lambda>s. s\<lparr>port := beep_set freq vol (port s)\<rparr>))"

definition buzzer_init :: "('p \<Rightarrow> 'p) \<Rightarrow> ('p buzzer, unit) cm" where
  "buzzer_init beep_init =
     seqM [modM (\<lambda>s. s\<lparr>is_beeping := 0\<rparr>),
           modM (\<lambda>s. s\<lparr>immediate_end_time := 0\<rparr>),
           modM (\<lambda>s. s\<lparr>port := beep_init (port s)\<rparr>)]"

text \<open>The three blocks of \<open>buzzer_poll\<close>: the immediate beep, the start of an entry, and its course.\<close>

definition poll_immediate :: "'p beep_set \<Rightarrow> ('p buzzer, unit) cm" where
  "poll_immediate beep_set =
     bindM (getM (\<lambda>s. s)) (\<lambda>s.
     whenM (immediate_end_time s \<noteq> 0)
       (if immediate_end_time s \<ge> current_tick s
        then whenM (is_beeping s = 0)
               (seqM [buzzer_beep_port beep_set 4000 50, modM (\<lambda>s. s\<lparr>is_beeping := 1\<rparr>)])
        else seqM [modM (\<lambda>s. s\<lparr>immediate_end_time := 0\<rparr>),
                   buzzer_beep_port beep_set 0 0,
                   modM (\<lambda>s. s\<lparr>is_beeping := 0\<rparr>)]))"

definition poll_start_entry :: "('p buzzer, unit) cm" where
  "poll_start_entry =
     bindM (getM (\<lambda>s. s)) (\<lambda>s.
     whenM (inter_beeping_flag s = 0)
       (bindM (load_elem (buzzer_beep_data s) (unat (read_pos s))) (\<lambda>d.
        thenM (modM (\<lambda>s. s\<lparr>beep_on_time := on_time d + current_tick s\<rparr>))
       (thenM (modM (\<lambda>s. s\<lparr>beep_off_time := off_time d + beep_on_time s\<rparr>))
        (modM (\<lambda>s. s\<lparr>inter_beeping_flag := 1\<rparr>))))))"

definition poll_sound :: "'p beep_set \<Rightarrow> ('p buzzer, unit) cm" where
  "poll_sound beep_set =
     bindM (getM (\<lambda>s. s)) (\<lambda>s.
     if current_tick s < beep_on_time s
     then thenM (whenM (is_beeping s = 0)
                  (bindM (load_elem (buzzer_beep_data s) (unat (read_pos s))) (\<lambda>d.
                   buzzer_beep_port beep_set (tone_freq d) (volume d))))
            (modM (\<lambda>s. s\<lparr>is_beeping := 1\<rparr>))
     else thenM (buzzer_beep_port beep_set 0 0) (modM (\<lambda>s. s\<lparr>is_beeping := 0\<rparr>)))"

definition poll_next_entry :: "('p buzzer, unit) cm" where
  "poll_next_entry =
     bindM (getM (\<lambda>s. s)) (\<lambda>s.
     whenM (\<not> current_tick s \<le> beep_off_time s)
       (thenM (modM (\<lambda>s. s\<lparr>inter_beeping_flag := 0\<rparr>))
       (thenM (modM (\<lambda>s. s\<lparr>read_pos := read_pos s + 1\<rparr>))
       (bindM (getM (\<lambda>s. s)) (\<lambda>s.
        whenM (unat (read_pos s) \<ge> MAX_BUZZER_DATA_SIZE)
          (modM (\<lambda>s. s\<lparr>read_pos := 0, write_pos := 0\<rparr>)))))))"

definition buzzer_poll :: "'p beep_set \<Rightarrow> ('p buzzer, unit) cm" where
  "buzzer_poll beep_set =
     thenM (modM (\<lambda>s. s\<lparr>current_tick := get_system_tick s\<rparr>))
    (thenM (poll_immediate beep_set)
    (bindM (getM (\<lambda>s. s)) (\<lambda>s.
     whenM (immediate_end_time s < current_tick s)
       (whenM (write_pos s \<noteq> 0)
          (seqM [poll_start_entry, poll_sound beep_set, poll_next_entry])))))"

definition buzzer_beep_tone :: "u16 \<Rightarrow> u8 \<Rightarrow> u32 \<Rightarrow> u32 \<Rightarrow> ('p buzzer, unit) cm" where
  "buzzer_beep_tone freq vol on off =
     bindM (getM (\<lambda>s. s)) (\<lambda>s.
     whenM (unat (write_pos s) < MAX_BUZZER_DATA_SIZE)
       (bindM (store_elem (buzzer_beep_data s) (unat (write_pos s))
                 \<lparr>tone_freq = freq, volume = vol, on_time = on, off_time = off\<rparr>) (\<lambda>ds.
        modM (\<lambda>s. s\<lparr>buzzer_beep_data := ds, write_pos := write_pos s + 1\<rparr>))))"

definition buzzer_beep_immediate :: "u32 \<Rightarrow> ('p buzzer, unit) cm" where
  "buzzer_beep_immediate on = modM (\<lambda>s. s\<lparr>immediate_end_time := on + get_system_tick s\<rparr>)"

definition is_buzzer_beeping :: "'p buzzer \<Rightarrow> u8" where
  "is_buzzer_beeping s = is_beeping s"

text \<open>The variables as the C runtime initialises them.\<close>

definition buzzer_start :: "'p \<Rightarrow> 'p buzzer" where
  "buzzer_start p =
     \<lparr>iolog = [], SystemCoreClock = 168000000, g_system_tick = 0, softtimers = soft_timers_start,
      buzzer_beep_data = replicate MAX_BUZZER_DATA_SIZE \<lparr>tone_freq = 0, volume = 0, on_time = 0, off_time = 0\<rparr>,
      write_pos = 0, read_pos = 0, is_beeping = 0, immediate_end_time = 0, beep_on_time = 0,
      beep_off_time = 0, current_tick = 0, inter_beeping_flag = 0, port = p\<rparr>"

section \<open>The invariant\<close>

definition buzzer_inv :: "'p buzzer \<Rightarrow> bool" where
  "buzzer_inv s \<longleftrightarrow>
     length (buzzer_beep_data s) = MAX_BUZZER_DATA_SIZE \<and> unat (write_pos s) \<le> MAX_BUZZER_DATA_SIZE \<and>
     unat (read_pos s) < MAX_BUZZER_DATA_SIZE \<and> is_beeping s \<in> {0, 1} \<and> inter_beeping_flag s \<in> {0, 1}"

lemma u8_plus_one_unat: "unat (x::u8) \<le> 20 \<Longrightarrow> unat (x + 1) = unat x + 1"
  by (simp add: unat_word_ariths)

lemma start_buzzer_inv: "buzzer_inv (buzzer_start p)"
  by (simp add: buzzer_inv_def buzzer_start_def MAX_BUZZER_DATA_SIZE_def)

lemma wp_get_id: "wp (bindM (getM (\<lambda>s. s)) k) Q s = wp (k s) Q s"
  by (simp add: wp_simps)

lemma poll_immediate_inv: "buzzer_inv s \<Longrightarrow> wp (poll_immediate bs) (\<lambda>_. buzzer_inv) s"
  by (auto simp: poll_immediate_def buzzer_beep_port_def wp_get_id wp_simps buzzer_inv_def)

lemma poll_start_entry_inv: "buzzer_inv s \<Longrightarrow> wp poll_start_entry (\<lambda>_. buzzer_inv) s"
  by (auto simp: poll_start_entry_def wp_get_id wp_simps buzzer_inv_def)

lemma poll_sound_inv: "buzzer_inv s \<Longrightarrow> wp (poll_sound bs) (\<lambda>_. buzzer_inv) s"
  by (auto simp: poll_sound_def buzzer_beep_port_def wp_get_id wp_simps buzzer_inv_def)

lemma poll_next_entry_inv: "buzzer_inv s \<Longrightarrow> wp poll_next_entry (\<lambda>_. buzzer_inv) s"
  by (auto simp: poll_next_entry_def wp_get_id wp_simps buzzer_inv_def MAX_BUZZER_DATA_SIZE_def)

lemma buzzer_poll_inv: "buzzer_inv s \<Longrightarrow> wp (buzzer_poll bs) (\<lambda>_. buzzer_inv) s"
proof -
  have entry: "wp (seqM [poll_start_entry, poll_sound bs, poll_next_entry]) (\<lambda>_. buzzer_inv) t"
    if "buzzer_inv t" for t
    unfolding wp_seqM
    by (rule wp_mono [OF poll_start_entry_inv [OF that]], rule wp_mono [OF poll_sound_inv], assumption,
        rule poll_next_entry_inv)
  assume "buzzer_inv s"
  then have "buzzer_inv (s\<lparr>current_tick := get_system_tick s\<rparr>)" by (simp add: buzzer_inv_def)
  then show ?thesis
    unfolding buzzer_poll_def wp_thenM wp_modM
    by (rule wp_mono [OF poll_immediate_inv]) (simp add: wp_get_id wp_whenM entry)
qed

section \<open>Polling once per tick\<close>

text \<open>The documented use: the SysTick interrupt, then one call of \<open>buzzer_poll\<close>, every 10 ms.\<close>

definition tick_and_poll :: "'p beep_set \<Rightarrow> ('p buzzer, unit) cm" where
  "tick_and_poll bs = thenM (modM SysTick_Handler) (buzzer_poll bs)"

primrec rounds :: "'p beep_set \<Rightarrow> nat \<Rightarrow> ('p buzzer, unit) cm" where
  "rounds bs 0 = ret ()"
| "rounds bs (Suc n) = thenM (rounds bs n) (tick_and_poll bs)"

lemma wp_rounds_Suc: "wp (rounds bs (Suc n)) Q s = wp (rounds bs n) (\<lambda>_. wp (tick_and_poll bs) Q) s"
  by (simp add: wp_thenM)

text \<open>
  The state after \<open>k\<close> rounds of an entry \<open>d\<close> that was started from the state \<open>s0\<close>: the tone is set once,
  in the first round, and switched off in every round after \<open>on_time\<close>.
\<close>

definition beep_course :: "'p beep_set \<Rightarrow> buzzer_data \<Rightarrow> nat \<Rightarrow> 'p \<Rightarrow> 'p" where
  "beep_course bs d k p =
     (bs 0 0 ^^ (k - unat (on_time d))) (if on_time d \<noteq> 0 then bs (tone_freq d) (volume d) p else p)"

definition in_entry :: "'p beep_set \<Rightarrow> 'p buzzer \<Rightarrow> buzzer_data \<Rightarrow> nat \<Rightarrow> 'p buzzer \<Rightarrow> bool" where
  "in_entry bs s0 d k s \<longleftrightarrow>
     unat (g_system_tick s) = unat (g_system_tick s0) + k \<and>
     read_pos s = read_pos s0 \<and> write_pos s = write_pos s0 \<and> buzzer_beep_data s = buzzer_beep_data s0 \<and>
     immediate_end_time s = 0 \<and> inter_beeping_flag s = 1 \<and>
     unat (beep_on_time s) = unat (g_system_tick s0) + 1 + unat (on_time d) \<and>
     unat (beep_off_time s) = unat (g_system_tick s0) + 1 + unat (on_time d) + unat (off_time d) \<and>
     is_beeping s = (if k \<le> unat (on_time d) then 1 else 0) \<and>
     port s = beep_course bs d k (port s0)"

text \<open>An idle driver with an entry \<open>d\<close> under the read position, and ticks far from the 32-bit wrap.\<close>

definition entry_ready :: "'p buzzer \<Rightarrow> buzzer_data \<Rightarrow> bool" where
  "entry_ready s d \<longleftrightarrow>
     buzzer_inv s \<and> immediate_end_time s = 0 \<and> write_pos s \<noteq> 0 \<and> inter_beeping_flag s = 0 \<and> is_beeping s = 0 \<and>
     buzzer_beep_data s ! unat (read_pos s) = d \<and>
     unat (g_system_tick s) + unat (on_time d) + unat (off_time d) + 2 < 2 ^ 32"

lemmas poll_defs = poll_immediate_def poll_start_entry_def poll_sound_def poll_next_entry_def buzzer_beep_port_def

text \<open>The blocks of a poll as equations, one per branch that the course of an entry takes.\<close>

lemma poll_immediate_none: "immediate_end_time s = 0 \<Longrightarrow> wp (poll_immediate bs) Q s = Q () s"
  by (simp add: poll_defs wp_simps)

lemma poll_start_entry_go:
  "inter_beeping_flag s = 0 \<Longrightarrow> unat (read_pos s) < length (buzzer_beep_data s) \<Longrightarrow>
   buzzer_beep_data s ! unat (read_pos s) = d \<Longrightarrow>
     wp poll_start_entry Q s =
       Q () (s\<lparr>beep_on_time := on_time d + current_tick s,
               beep_off_time := off_time d + (on_time d + current_tick s), inter_beeping_flag := 1\<rparr>)"
  by (simp add: poll_defs wp_simps)

lemma poll_start_entry_running: "inter_beeping_flag s = 1 \<Longrightarrow> wp poll_start_entry Q s = Q () s"
  by (simp add: poll_defs wp_simps)

lemma poll_sound_on:
  "current_tick s < beep_on_time s \<Longrightarrow> unat (read_pos s) < length (buzzer_beep_data s) \<Longrightarrow>
   buzzer_beep_data s ! unat (read_pos s) = d \<Longrightarrow>
     wp (poll_sound bs) Q s =
       Q () (if is_beeping s = 0 then s\<lparr>port := bs (tone_freq d) (volume d) (port s), is_beeping := 1\<rparr>
             else s\<lparr>is_beeping := 1\<rparr>)"
  by (simp add: poll_defs wp_simps)

lemma poll_sound_off:
  "\<not> current_tick s < beep_on_time s \<Longrightarrow>
     wp (poll_sound bs) Q s = Q () (s\<lparr>port := bs 0 0 (port s), is_beeping := 0\<rparr>)"
  by (simp add: poll_defs wp_simps)

lemma poll_next_entry_stay: "current_tick s \<le> beep_off_time s \<Longrightarrow> wp poll_next_entry Q s = Q () s"
  by (simp add: poll_defs wp_simps)

lemma wp_tick_and_poll:
  "immediate_end_time s = 0 \<Longrightarrow> write_pos s \<noteq> 0 \<Longrightarrow> 0 < g_system_tick s + 1 \<Longrightarrow>
     wp (tick_and_poll bs) Q s =
       wp poll_start_entry (\<lambda>_. wp (poll_sound bs) (\<lambda>_. wp poll_next_entry Q))
         (s\<lparr>g_system_tick := g_system_tick s + 1, softtimers := soft_timer_tick (softtimers s),
            current_tick := g_system_tick s + 1\<rparr>)"
  by (simp add: tick_and_poll_def buzzer_poll_def SysTick_Handler_def get_system_tick_def Let_def
      wp_thenM wp_modM wp_seqM wp_whenM wp_get_id poll_immediate_none)

lemma unat_add_small: "unat (x::u32) + unat y < 2 ^ 32 \<Longrightarrow> unat (x + y) = unat x + unat y"
  by (subst unat_add_lem [THEN iffD1]) simp_all

lemma entry_first_round:
  assumes r: "entry_ready s d"
  shows "wp (tick_and_poll bs) (\<lambda>_. in_entry bs s d 1) s"
proof -
  define t where "t = g_system_tick s + 1"
  have d: "unat (read_pos s) < length (buzzer_beep_data s)" "buzzer_beep_data s ! unat (read_pos s) = d"
    "immediate_end_time s = 0" "write_pos s \<noteq> 0" "inter_beeping_flag s = 0" "is_beeping s = 0"
    using r by (simp_all add: entry_ready_def buzzer_inv_def)
  have t: "unat t = unat (g_system_tick s) + 1"
    unfolding t_def using r by (intro u32_plus_one_unat) (simp add: entry_ready_def)
  have on: "unat (on_time d + t) = unat (on_time d) + unat t"
    using r t by (intro unat_add_small) (simp add: entry_ready_def)
  have off: "unat (off_time d + (on_time d + t)) = unat (off_time d) + unat (on_time d + t)"
    using r t on by (intro unat_add_small) (simp add: entry_ready_def)
  have le: "t \<le> off_time d + (on_time d + t)" "0 < t"
    using on off t by (auto simp: word_less_nat_alt word_le_nat_alt)
  show ?thesis
  proof (cases "on_time d = 0")
    case True
    have "\<not> t < on_time d + t" by (simp add: True)
    with d le t on off True show ?thesis
      by (simp add: wp_tick_and_poll poll_start_entry_go poll_sound_off poll_next_entry_stay in_entry_def
          beep_course_def t_def [symmetric])
  next
    case False
    then have one: "Suc 0 \<le> unat (on_time d)" by (simp add: unat_gt_0 Suc_le_eq)
    then have "t < on_time d + t" using on by (simp add: word_less_nat_alt)
    with d le t on off False one show ?thesis
      by (simp add: wp_tick_and_poll poll_start_entry_go poll_sound_on poll_next_entry_stay in_entry_def
          beep_course_def t_def [symmetric])
  qed
qed

lemma entry_next_round:
  assumes r: "entry_ready s0 d" and i: "in_entry bs s0 d k s" and k: "1 \<le> k" "k \<le> unat (on_time d) + unat (off_time d)"
  shows "wp (tick_and_poll bs) (\<lambda>_. in_entry bs s0 d (Suc k)) s"
proof -
  define t where "t = g_system_tick s + 1"
  have f: "unat (read_pos s) < length (buzzer_beep_data s)" "buzzer_beep_data s ! unat (read_pos s) = d" "write_pos s \<noteq> 0"
    "immediate_end_time s = 0" "inter_beeping_flag s = 1"
    using r i by (simp_all add: entry_ready_def in_entry_def buzzer_inv_def)
  have t: "unat t = unat (g_system_tick s0) + k + 1"
    unfolding t_def using r i k by (subst u32_plus_one_unat) (simp_all add: entry_ready_def in_entry_def)
  have le: "t \<le> beep_off_time s" "0 < t"
    using t i k by (auto simp: word_less_nat_alt word_le_nat_alt in_entry_def)
  have on: "t < beep_on_time s \<longleftrightarrow> k < unat (on_time d)"
    using t i by (auto simp: word_less_nat_alt in_entry_def)
  show ?thesis
  proof (cases "k < unat (on_time d)")
    case True
    with f le on t i show ?thesis
      by (simp add: wp_tick_and_poll poll_start_entry_running poll_sound_on poll_next_entry_stay in_entry_def
          beep_course_def t_def [symmetric])
  next
    case False
    with f le on t i show ?thesis
      by (simp add: wp_tick_and_poll poll_start_entry_running poll_sound_off poll_next_entry_stay in_entry_def
          beep_course_def Suc_diff_le t_def [symmetric])
  qed
qed

lemma entry_rounds:
  assumes "entry_ready s d"
  shows "k \<le> unat (on_time d) + unat (off_time d) \<Longrightarrow> wp (rounds bs (Suc k)) (\<lambda>_. in_entry bs s d (Suc k)) s"
proof (induction k)
  case 0
  then show ?case using entry_first_round [OF assms, of bs] by (simp add: wp_simps)
next
  case (Suc k)
  then have "wp (rounds bs (Suc k)) (\<lambda>_. in_entry bs s d (Suc k)) s" by simp
  then show ?case
    unfolding wp_rounds_Suc [of bs "Suc k"]
    by (rule wp_mono) (use Suc.prems assms in \<open>auto intro!: entry_next_round\<close>)
qed

lemma entry_last_round:
  assumes r: "entry_ready s0 d" and i: "in_entry bs s0 d (Suc (unat (on_time d) + unat (off_time d))) s"
  shows "wp (tick_and_poll bs) (\<lambda>_ s'. inter_beeping_flag s' = 0 \<and> is_beeping s' = 0 \<and>
      buzzer_beep_data s' = buzzer_beep_data s0 \<and>
      (if unat (read_pos s0) + 1 < MAX_BUZZER_DATA_SIZE
       then read_pos s' = read_pos s0 + 1 \<and> write_pos s' = write_pos s0
       else read_pos s' = 0 \<and> write_pos s' = 0)) s"
proof -
  define t where "t = g_system_tick s + 1"
  have f: "write_pos s \<noteq> 0" "unat (read_pos s0 + 1) = unat (read_pos s0) + 1"
    "immediate_end_time s = 0" "inter_beeping_flag s = 1"
    using r i by (simp_all add: entry_ready_def in_entry_def buzzer_inv_def u8_plus_one_unat MAX_BUZZER_DATA_SIZE_def)
  have t: "unat t = unat (g_system_tick s0) + unat (on_time d) + unat (off_time d) + 2"
    unfolding t_def using r i by (subst u32_plus_one_unat) (simp_all add: entry_ready_def in_entry_def)
  have lt: "\<not> t < beep_on_time s" "\<not> t \<le> beep_off_time s" "0 < t"
    using t i by (auto simp: word_less_nat_alt word_le_nat_alt in_entry_def)
  with f i show ?thesis
    by (simp add: wp_tick_and_poll poll_start_entry_running poll_sound_off poll_next_entry_def wp_simps in_entry_def
        t_def [symmetric])
qed

datatype buzzer_event = Tone u16 u8 u32 u32 | Immediate u32 | Init | Tick | Poll

fun run_event :: "'p beep_set \<Rightarrow> ('p \<Rightarrow> 'p) \<Rightarrow> buzzer_event \<Rightarrow> ('p buzzer, unit) cm" where
  "run_event bs bi (Tone f v on off) = buzzer_beep_tone f v on off"
| "run_event bs bi (Immediate on) = buzzer_beep_immediate on"
| "run_event bs bi Init = buzzer_init bi"
| "run_event bs bi Tick = modM SysTick_Handler"
| "run_event bs bi Poll = buzzer_poll bs"

lemma buzzer_beep_tone_inv: "buzzer_inv s \<Longrightarrow> wp (buzzer_beep_tone f v on off) (\<lambda>_. buzzer_inv) s"
  by (auto simp: buzzer_beep_tone_def wp_get_id wp_simps buzzer_inv_def u8_plus_one_unat MAX_BUZZER_DATA_SIZE_def)

lemma run_event_inv: "buzzer_inv s \<Longrightarrow> wp (run_event bs bi e) (\<lambda>_. buzzer_inv) s"
  by (cases e) (auto simp: buzzer_beep_tone_inv buzzer_poll_inv wp_simps buzzer_beep_immediate_def
      buzzer_init_def SysTick_Handler_def buzzer_inv_def Let_def)

section \<open>Properties\<close>

text \<open>
  The queue indices stay in range and no access leaves the array: from any state of the invariant,
  any sequence of driver calls, ticks and polls returns without undefined behaviour and keeps it.
\<close>

theorem buzzer_never_out_of_bounds:
  "buzzer_inv s \<Longrightarrow> wp (seqM (map (run_event bs bi) es)) (\<lambda>_. buzzer_inv) s"
proof (induction es arbitrary: s)
  case (Cons e es)
  then show ?case by (auto simp: wp_seqM intro: wp_mono [OF run_event_inv])
qed (simp add: wp_seqM)

theorem buzzer_never_out_of_bounds_witness:
  "wp (seqM (map (run_event (\<lambda>f v. (#) (f, v)) (\<lambda>p. p)) (replicate 25 (Tone 440 50 1 1) @ [Tick, Poll, Immediate 3, Poll])))
      (\<lambda>_. buzzer_inv) (buzzer_start [])"
  by (rule buzzer_never_out_of_bounds [OF start_buzzer_inv])

text \<open>
  C39: the course of one queued tone, for a driver polled once per tick. For every \<open>k\<close> up to
  \<open>on_time + off_time\<close>, after \<open>k + 1\<close> rounds the driver is beeping exactly if \<open>k < on_time\<close>, the tone was
  set exactly once and switched off once per silent round, and the entry is still the current one: it
  sounds for \<open>on_time\<close> rounds and is silent for \<open>off_time + 1\<close>, one more than its name says. After
  \<open>on_time + off_time + 2\<close> rounds the next entry is current (or, after the last slot, the queue is reset).
\<close>

theorem tone_sounds_for_on_time:
  assumes "entry_ready s d"
  shows "(\<forall>k \<le> unat (on_time d) + unat (off_time d).
            wp (rounds bs (Suc k)) (\<lambda>_ s'. is_buzzer_beeping s' = (if k < unat (on_time d) then 1 else 0) \<and>
               port s' = beep_course bs d (Suc k) (port s) \<and> read_pos s' = read_pos s) s) \<and>
         wp (rounds bs (unat (on_time d) + unat (off_time d) + 2))
            (\<lambda>_ s'. is_buzzer_beeping s' = 0 \<and>
               (if unat (read_pos s) + 1 < MAX_BUZZER_DATA_SIZE
                then read_pos s' = read_pos s + 1 \<and> write_pos s' = write_pos s
                else read_pos s' = 0 \<and> write_pos s' = 0)) s"
proof (intro conjI allI impI)
  fix k assume "k \<le> unat (on_time d) + unat (off_time d)"
  then show "wp (rounds bs (Suc k)) (\<lambda>_ s'. is_buzzer_beeping s' = (if k < unat (on_time d) then 1 else 0) \<and>
               port s' = beep_course bs d (Suc k) (port s) \<and> read_pos s' = read_pos s) s"
    by (intro wp_mono [OF entry_rounds [OF assms]]) (auto simp: in_entry_def is_buzzer_beeping_def Suc_le_eq)
next
  let ?n = "unat (on_time d) + unat (off_time d)"
  have "wp (rounds bs (Suc (Suc ?n))) (\<lambda>_ s'. is_buzzer_beeping s' = 0 \<and>
               (if unat (read_pos s) + 1 < MAX_BUZZER_DATA_SIZE
                then read_pos s' = read_pos s + 1 \<and> write_pos s' = write_pos s
                else read_pos s' = 0 \<and> write_pos s' = 0)) s"
    unfolding wp_rounds_Suc [of bs "Suc ?n"]
    by (rule wp_mono [OF entry_rounds [OF assms order_refl]], rule wp_mono [OF entry_last_round [OF assms]])
      (auto simp: is_buzzer_beeping_def split: if_splits)
  then show "wp (rounds bs (unat (on_time d) + unat (off_time d) + 2))
            (\<lambda>_ s'. is_buzzer_beeping s' = 0 \<and>
               (if unat (read_pos s) + 1 < MAX_BUZZER_DATA_SIZE
                then read_pos s' = read_pos s + 1 \<and> write_pos s' = write_pos s
                else read_pos s' = 0 \<and> write_pos s' = 0)) s" by simp
qed

definition one_tone :: "(u16 \<times> u8) list buzzer" where
  "one_tone = (buzzer_start [])\<lparr>write_pos := 1,
     buzzer_beep_data := (buzzer_beep_data (buzzer_start ([] :: (u16 \<times> u8) list)))
        [0 := \<lparr>tone_freq = 440, volume = 50, on_time = 2, off_time = 3\<rparr>]\<rparr>"

lemma funpow_two: "(f ^^ 2) x = f (f x)"
  by (simp add: numeral_2_eq_2)

theorem tone_sounds_for_on_time_witness:
  "wp (rounds (\<lambda>f v. (#) (f, v)) 4) (\<lambda>_ s'. is_buzzer_beeping s' = 0 \<and> port s' = [(0, 0), (0, 0), (440, 50)]) one_tone"
proof -
  let ?d = "\<lparr>tone_freq = 440, volume = 50, on_time = 2, off_time = 3\<rparr>"
  have "entry_ready one_tone ?d"
    by (simp add: entry_ready_def one_tone_def buzzer_start_def buzzer_inv_def MAX_BUZZER_DATA_SIZE_def)
  note tone_sounds_for_on_time [OF this, of "\<lambda>f v. (#) (f, v)", THEN conjunct1, rule_format, of 3]
  moreover have "beep_course (\<lambda>f v. (#) (f, v)) ?d (Suc 3) (port one_tone) = [(0, 0), (0, 0), (440, 50)]"
    using funpow_two [of "(#) (0, 0)" "[(440, 50)]"] by (simp add: beep_course_def one_tone_def buzzer_start_def)
  moreover have "Suc 3 = 4" by simp
  ultimately show ?thesis by (auto elim: wp_mono)
qed

text \<open>
  the driver does not stop at the write position. When every entry that was written has been
  played (\<open>read_pos \<ge> write_pos > 0\<close>), the next round starts the slot under the read position all the
  same and sounds what an earlier use of the queue left there.
\<close>

theorem played_queue_replays_stale_slots:
  assumes "entry_ready s d" "write_pos s \<le> read_pos s" "on_time d \<noteq> 0"
  shows "wp (rounds bs 1) (\<lambda>_ s'. is_buzzer_beeping s' = 1 \<and> port s' = bs (tone_freq d) (volume d) (port s)) s"
proof -
  have "0 < unat (on_time d)" using assms(3) by (simp add: unat_gt_0)
  then show ?thesis
    using entry_rounds [OF assms(1), of 0 bs]
    by (auto simp: in_entry_def is_buzzer_beeping_def beep_course_def assms(3) elim!: wp_mono)
qed

theorem played_queue_replays_stale_slots_witness:
  "wp (rounds (\<lambda>f v. (#) (f, v)) 1) (\<lambda>_ s'. is_buzzer_beeping s' = 1 \<and> port s' = [(880, 30)])
      (one_tone\<lparr>read_pos := 1, buzzer_beep_data := (buzzer_beep_data one_tone)
         [1 := \<lparr>tone_freq = 880, volume = 30, on_time = 5, off_time = 5\<rparr>]\<rparr>)"
proof -
  let ?d = "\<lparr>tone_freq = 880, volume = 30, on_time = 5, off_time = 5\<rparr>"
  let ?s = "one_tone\<lparr>read_pos := 1, buzzer_beep_data := (buzzer_beep_data one_tone)[1 := ?d]\<rparr>"
  have "entry_ready ?s ?d"
    by (simp add: entry_ready_def one_tone_def buzzer_start_def buzzer_inv_def MAX_BUZZER_DATA_SIZE_def)
  from played_queue_replays_stale_slots [OF this, of "\<lambda>f v. (#) (f, v)"] show ?thesis
    by (simp add: one_tone_def buzzer_start_def)
qed

end
