(* ===== verification/Periph.thy ===== *)
theory Periph
  imports C_Machine
begin

text \<open>
  The functions of the GD32F4xx standard peripheral library that the drivers call: clock and reset
  control (\<open>gd32f4xx_rcu.c\<close>), pins (\<open>gd32f4xx_gpio.c\<close>), DMA (\<open>gd32f4xx_dma.c\<close>) and the SDIO interface
  (\<open>gd32f4xx_sdio.c\<close>), each as its sequence of register accesses. A \<open>FlagStatus\<close> is a \<open>bool\<close>. All of
  them touch nothing but the bus (\<open>io_only\<close>).
\<close>

section \<open>RCU\<close>

text \<open>A peripheral is encoded as register offset and bit position, as in the vendor's enumerations.\<close>

definition RCU_REGIDX_BIT :: "u32 \<Rightarrow> u32 \<Rightarrow> u32" where
  "RCU_REGIDX_BIT regidx bitpos = push_bit 6 regidx OR bitpos"

definition RCU_REG_ADDR :: "u32 \<Rightarrow> u32" where
  "RCU_REG_ADDR periph = 0x40023800 + drop_bit 6 periph"

definition RCU_BIT_POS :: "u32 \<Rightarrow> nat" where
  "RCU_BIT_POS v = unat (v AND 0x1F)"

definition rcu_periph_clock_enable :: "hw \<Rightarrow> u32 \<Rightarrow> ('z bus_scheme, unit) cm" where
  "rcu_periph_clock_enable h periph = setbits h (RCU_REG_ADDR periph) (BIT (RCU_BIT_POS periph))"

definition rcu_periph_reset_enable :: "hw \<Rightarrow> u32 \<Rightarrow> ('z bus_scheme, unit) cm" where
  "rcu_periph_reset_enable h periph_reset = setbits h (RCU_REG_ADDR periph_reset) (BIT (RCU_BIT_POS periph_reset))"

definition rcu_periph_reset_disable :: "hw \<Rightarrow> u32 \<Rightarrow> ('z bus_scheme, unit) cm" where
  "rcu_periph_reset_disable h periph_reset = clrbits h (RCU_REG_ADDR periph_reset) (BIT (RCU_BIT_POS periph_reset))"

section \<open>GPIO\<close>

definition GPIOA :: u32 where "GPIOA = 0x40020000"
definition GPIOB :: u32 where "GPIOB = 0x40020400"
definition GPIOC :: u32 where "GPIOC = 0x40020800"
definition GPIOD :: u32 where "GPIOD = 0x40020C00"

definition GPIO_AF_10 :: u32 where "GPIO_AF_10 = 10"
definition GPIO_AF_11 :: u32 where "GPIO_AF_11 = 11"
definition GPIO_AF_5 :: u32 where "GPIO_AF_5 = 5"
definition GPIO_AF_7 :: u32 where "GPIO_AF_7 = 7"
definition GPIO_MODE_AF :: u32 where "GPIO_MODE_AF = 2"
definition GPIO_MODE_OUTPUT :: u32 where "GPIO_MODE_OUTPUT = 1"
definition GPIO_OSPEED_2MHZ :: u32 where "GPIO_OSPEED_2MHZ = 0"
definition GPIO_OSPEED_50MHZ :: u32 where "GPIO_OSPEED_50MHZ = 2"
definition GPIO_OSPEED_MAX :: u32 where "GPIO_OSPEED_MAX = 3"
definition GPIO_OTYPE_PP :: u8 where "GPIO_OTYPE_PP = 0"
definition GPIO_PUPD_NONE :: u32 where "GPIO_PUPD_NONE = 0"
definition GPIO_PUPD_PULLUP :: u32 where "GPIO_PUPD_PULLUP = 1"

lemmas gpio_consts = GPIO_AF_10_def GPIO_AF_11_def GPIO_AF_5_def GPIO_AF_7_def GPIO_MODE_AF_def GPIO_MODE_OUTPUT_def GPIO_OSPEED_2MHZ_def GPIO_OSPEED_50MHZ_def GPIO_OSPEED_MAX_def GPIO_OTYPE_PP_def GPIO_PUPD_NONE_def GPIO_PUPD_PULLUP_def

text \<open>A field of width \<open>w\<close> at pin \<open>i\<close>, set for every pin of the mask.\<close>

definition set_pin_field :: "nat \<Rightarrow> u32 \<Rightarrow> u32 \<Rightarrow> nat \<Rightarrow> u32 \<Rightarrow> u32" where
  "set_pin_field w m v i r = (r AND NOT (push_bit (w * i) m)) OR push_bit (w * i) v"

definition for_pins :: "nat list \<Rightarrow> u32 \<Rightarrow> (nat \<Rightarrow> u32 \<Rightarrow> u32) \<Rightarrow> u32 \<Rightarrow> u32" where
  "for_pins idx pin f r = fold (\<lambda>i r. if BIT i AND pin \<noteq> 0 then f i r else r) idx r"

definition gpio_mode_set :: "hw \<Rightarrow> u32 \<Rightarrow> u32 \<Rightarrow> u32 \<Rightarrow> u32 \<Rightarrow> ('z bus_scheme, unit) cm" where
  "gpio_mode_set h gpio_periph mode pull_up_down pin =
     bindM (rd32 h (gpio_periph + 0x00)) (\<lambda>ctl.
     bindM (rd32 h (gpio_periph + 0x0C)) (\<lambda>pupd.
     thenM (wr32 (gpio_periph + 0x00) (for_pins [0..<16] pin (set_pin_field 2 3 mode) ctl))
           (wr32 (gpio_periph + 0x0C) (for_pins [0..<16] pin (set_pin_field 2 3 pull_up_down) pupd))))"

definition gpio_output_options_set :: "hw \<Rightarrow> u32 \<Rightarrow> u8 \<Rightarrow> u32 \<Rightarrow> u32 \<Rightarrow> ('z bus_scheme, unit) cm" where
  "gpio_output_options_set h gpio_periph otype speed pin =
     thenM (if otype = 1 then setbits h (gpio_periph + 0x04) pin else clrbits h (gpio_periph + 0x04) pin)
    (bindM (rd32 h (gpio_periph + 0x08)) (\<lambda>ospeedr.
     wr32 (gpio_periph + 0x08) (for_pins [0..<16] pin (set_pin_field 2 3 speed) ospeedr)))"

definition gpio_bit_set :: "u32 \<Rightarrow> u32 \<Rightarrow> ('z bus_scheme, unit) cm" where
  "gpio_bit_set gpio_periph pin = wr32 (gpio_periph + 0x18) pin"

definition gpio_bit_reset :: "u32 \<Rightarrow> u32 \<Rightarrow> ('z bus_scheme, unit) cm" where
  "gpio_bit_reset gpio_periph pin = wr32 (gpio_periph + 0x28) pin"

definition gpio_bit_write :: "u32 \<Rightarrow> u32 \<Rightarrow> bool \<Rightarrow> ('z bus_scheme, unit) cm" where
  "gpio_bit_write gpio_periph pin bit_value =
     (if bit_value then wr32 (gpio_periph + 0x18) pin else wr32 (gpio_periph + 0x28) pin)"

definition gpio_bit_toggle :: "u32 \<Rightarrow> u32 \<Rightarrow> ('z bus_scheme, unit) cm" where
  "gpio_bit_toggle gpio_periph pin = wr32 (gpio_periph + 0x2C) pin"

definition gpio_input_bit_get :: "hw \<Rightarrow> u32 \<Rightarrow> u32 \<Rightarrow> ('z bus_scheme, bool) cm" where
  "gpio_input_bit_get h gpio_periph pin = bindM (rd32 h (gpio_periph + 0x10)) (\<lambda>v. ret (v AND pin \<noteq> 0))"

definition gpio_af_set :: "hw \<Rightarrow> u32 \<Rightarrow> u32 \<Rightarrow> u32 \<Rightarrow> ('z bus_scheme, unit) cm" where
  "gpio_af_set h gpio_periph alt_func_num pin =
     bindM (rd32 h (gpio_periph + 0x20)) (\<lambda>afrl.
     bindM (rd32 h (gpio_periph + 0x24)) (\<lambda>afrh.
     thenM (wr32 (gpio_periph + 0x20) (for_pins [0..<8] pin (set_pin_field 4 0xF alt_func_num) afrl))
           (wr32 (gpio_periph + 0x24) (for_pins [8..<16] pin (\<lambda>i. set_pin_field 4 0xF alt_func_num (i - 8)) afrh))))"

section \<open>DMA\<close>

definition DMA1 :: u32 where "DMA1 = 0x40026400"

definition DMA_CHCTL :: "u32 \<Rightarrow> nat \<Rightarrow> u32" where "DMA_CHCTL dma ch = dma + 0x10 + 0x18 * of_nat ch"
definition DMA_CHCNT :: "u32 \<Rightarrow> nat \<Rightarrow> u32" where "DMA_CHCNT dma ch = dma + 0x14 + 0x18 * of_nat ch"
definition DMA_CHPADDR :: "u32 \<Rightarrow> nat \<Rightarrow> u32" where "DMA_CHPADDR dma ch = dma + 0x18 + 0x18 * of_nat ch"
definition DMA_CHM0ADDR :: "u32 \<Rightarrow> nat \<Rightarrow> u32" where "DMA_CHM0ADDR dma ch = dma + 0x1C + 0x18 * of_nat ch"
definition DMA_CHM1ADDR :: "u32 \<Rightarrow> nat \<Rightarrow> u32" where "DMA_CHM1ADDR dma ch = dma + 0x20 + 0x18 * of_nat ch"
definition DMA_CHFCTL :: "u32 \<Rightarrow> nat \<Rightarrow> u32" where "DMA_CHFCTL dma ch = dma + 0x24 + 0x18 * of_nat ch"

definition DMA_FLAG_ADD :: "u32 \<Rightarrow> nat \<Rightarrow> u32" where
  "DMA_FLAG_ADD flag ch = push_bit (ch * 6 + (ch div 2 mod 2) * 4) flag"

text \<open>The flag and clear registers: channels 0 to 3 in the first, 4 to 7 in the second.\<close>

definition dma_flag_get :: "hw \<Rightarrow> u32 \<Rightarrow> nat \<Rightarrow> u32 \<Rightarrow> ('z bus_scheme, bool) cm" where
  "dma_flag_get h dma ch flag =
     (if ch < 4 then bindM (rd32 h (dma + 0x00)) (\<lambda>v. ret (v AND DMA_FLAG_ADD flag ch \<noteq> 0))
      else bindM (rd32 h (dma + 0x04)) (\<lambda>v. ret (v AND DMA_FLAG_ADD flag (ch - 4) \<noteq> 0)))"

definition dma_flag_clear :: "hw \<Rightarrow> u32 \<Rightarrow> nat \<Rightarrow> u32 \<Rightarrow> ('z bus_scheme, unit) cm" where
  "dma_flag_clear h dma ch flag =
     (if ch < 4 then setbits h (dma + 0x08) (DMA_FLAG_ADD flag ch)
      else setbits h (dma + 0x0C) (DMA_FLAG_ADD flag (ch - 4)))"

definition dma_deinit :: "hw \<Rightarrow> u32 \<Rightarrow> nat \<Rightarrow> ('z bus_scheme, unit) cm" where
  "dma_deinit h dma ch =
     seqM [clrbits h (DMA_CHCTL dma ch) (BIT 0),
           wr32 (DMA_CHCTL dma ch) 0,
           wr32 (DMA_CHCNT dma ch) 0,
           wr32 (DMA_CHPADDR dma ch) 0,
           wr32 (DMA_CHM0ADDR dma ch) 0,
           wr32 (DMA_CHM1ADDR dma ch) 0,
           wr32 (DMA_CHFCTL dma ch) 0,
           if ch < 4 then setbits h (dma + 0x08) (DMA_FLAG_ADD 0x3D ch)
           else setbits h (dma + 0x0C) (DMA_FLAG_ADD 0x3D (ch - 4))]"

record dma_multi_data_parameter =
  periph_addr :: u32
  periph_width :: u32
  periph_inc :: u32
  memory0_addr :: u32
  memory_width :: u32
  memory_inc :: u32
  memory_burst_width :: u32
  periph_burst_width :: u32
  critical_value :: u32
  circular_mode :: u32
  direction :: u32
  number :: u32
  priority :: u32

definition dma_multi_data_mode_init :: "hw \<Rightarrow> u32 \<Rightarrow> nat \<Rightarrow> dma_multi_data_parameter \<Rightarrow> ('z bus_scheme, unit) cm" where
  "dma_multi_data_mode_init h dma ch p =
     seqM [setbits h (DMA_CHFCTL dma ch) (BIT 2 OR critical_value p),
           wr32 (DMA_CHPADDR dma ch) (periph_addr p),
           wr32 (DMA_CHM0ADDR dma ch) (memory0_addr p),
           wr32 (DMA_CHCNT dma ch) (number p),
           mod32 h (DMA_CHCTL dma ch) (\<lambda>ctl.
             (ctl AND NOT (BITS 11 12 OR BITS 13 14 OR BITS 16 17 OR BITS 6 7 OR BITS 21 22 OR BITS 23 24))
             OR (periph_width p OR memory_width p OR priority p OR direction p OR memory_burst_width p
                 OR periph_burst_width p)),
           if periph_inc p = 0 then setbits h (DMA_CHCTL dma ch) (BIT 9)
           else if periph_inc p = 1 then clrbits h (DMA_CHCTL dma ch) (BIT 9)
           else setbits h (DMA_CHCTL dma ch) (BIT 15),
           if memory_inc p = 0 then setbits h (DMA_CHCTL dma ch) (BIT 10)
           else clrbits h (DMA_CHCTL dma ch) (BIT 10),
           if circular_mode p = 0 then setbits h (DMA_CHCTL dma ch) (BIT 8)
           else clrbits h (DMA_CHCTL dma ch) (BIT 8)]"

definition dma_flow_controller_config :: "hw \<Rightarrow> u32 \<Rightarrow> nat \<Rightarrow> u32 \<Rightarrow> ('z bus_scheme, unit) cm" where
  "dma_flow_controller_config h dma ch controller =
     (if controller = 0 then clrbits h (DMA_CHCTL dma ch) (BIT 5) else setbits h (DMA_CHCTL dma ch) (BIT 5))"

definition dma_channel_enable :: "hw \<Rightarrow> u32 \<Rightarrow> nat \<Rightarrow> ('z bus_scheme, unit) cm" where
  "dma_channel_enable h dma ch = setbits h (DMA_CHCTL dma ch) (BIT 0)"

definition dma_channel_disable :: "hw \<Rightarrow> u32 \<Rightarrow> nat \<Rightarrow> ('z bus_scheme, unit) cm" where
  "dma_channel_disable h dma ch = clrbits h (DMA_CHCTL dma ch) (BIT 0)"

definition dma_channel_subperipheral_select :: "hw \<Rightarrow> u32 \<Rightarrow> nat \<Rightarrow> u32 \<Rightarrow> ('z bus_scheme, unit) cm" where
  "dma_channel_subperipheral_select h dma ch sub_periph =
     mod32 h (DMA_CHCTL dma ch) (\<lambda>ctl. (ctl AND NOT (BITS 25 27)) OR push_bit 25 sub_periph)"

section \<open>SDIO\<close>

definition SDIO_PWRCTL :: u32 where "SDIO_PWRCTL = 0x40012C00"
definition SDIO_CLKCTL :: u32 where "SDIO_CLKCTL = 0x40012C04"
definition SDIO_CMDAGMT :: u32 where "SDIO_CMDAGMT = 0x40012C08"
definition SDIO_CMDCTL :: u32 where "SDIO_CMDCTL = 0x40012C0C"
definition SDIO_RSPCMDIDX :: u32 where "SDIO_RSPCMDIDX = 0x40012C10"
definition SDIO_RESP0 :: u32 where "SDIO_RESP0 = 0x40012C14"
definition SDIO_RESP1 :: u32 where "SDIO_RESP1 = 0x40012C18"
definition SDIO_RESP2 :: u32 where "SDIO_RESP2 = 0x40012C1C"
definition SDIO_RESP3 :: u32 where "SDIO_RESP3 = 0x40012C20"
definition SDIO_DATATO :: u32 where "SDIO_DATATO = 0x40012C24"
definition SDIO_DATALEN :: u32 where "SDIO_DATALEN = 0x40012C28"
definition SDIO_DATACTL :: u32 where "SDIO_DATACTL = 0x40012C2C"
definition SDIO_STAT :: u32 where "SDIO_STAT = 0x40012C34"
definition SDIO_INTC :: u32 where "SDIO_INTC = 0x40012C38"
definition SDIO_INTEN :: u32 where "SDIO_INTEN = 0x40012C3C"
definition SDIO_FIFO :: u32 where "SDIO_FIFO = 0x40012C80"

lemmas sdio_regs = SDIO_PWRCTL_def SDIO_CLKCTL_def SDIO_CMDAGMT_def SDIO_CMDCTL_def SDIO_RSPCMDIDX_def
  SDIO_RESP0_def SDIO_RESP1_def SDIO_RESP2_def SDIO_RESP3_def SDIO_DATATO_def SDIO_DATALEN_def
  SDIO_DATACTL_def SDIO_STAT_def SDIO_INTC_def SDIO_INTEN_def SDIO_FIFO_def

definition sdio_deinit :: "hw \<Rightarrow> ('z bus_scheme, unit) cm" where
  "sdio_deinit h =
     thenM (rcu_periph_reset_enable h (RCU_REGIDX_BIT 0x24 11)) (rcu_periph_reset_disable h (RCU_REGIDX_BIT 0x24 11))"

definition sdio_clock_config :: "hw \<Rightarrow> u32 \<Rightarrow> u32 \<Rightarrow> u32 \<Rightarrow> u16 \<Rightarrow> ('z bus_scheme, unit) cm" where
  "sdio_clock_config h clock_edge clock_bypass clock_powersave clock_division =
     bindM (rd32 h SDIO_CLKCTL) (\<lambda>cfg.
     let cfg = cfg AND NOT (BIT 13 OR BIT 10 OR BIT 9 OR BIT 31 OR BITS 0 7);
         (cfg, division) = (if clock_division \<ge> 256 then (cfg OR BIT 31, clock_division - 256) else (cfg, clock_division))
     in wr32 SDIO_CLKCTL (cfg OR (clock_edge OR clock_bypass OR clock_powersave OR ucast division)))"

definition sdio_hardware_clock_disable :: "hw \<Rightarrow> ('z bus_scheme, unit) cm" where
  "sdio_hardware_clock_disable h = clrbits h SDIO_CLKCTL (BIT 14)"

definition sdio_bus_mode_set :: "hw \<Rightarrow> u32 \<Rightarrow> ('z bus_scheme, unit) cm" where
  "sdio_bus_mode_set h bus_mode = thenM (clrbits h SDIO_CLKCTL (BITS 11 12)) (setbits h SDIO_CLKCTL bus_mode)"

definition sdio_power_state_set :: "u32 \<Rightarrow> ('z bus_scheme, unit) cm" where
  "sdio_power_state_set power_state = wr32 SDIO_PWRCTL power_state"

definition sdio_power_state_get :: "hw \<Rightarrow> ('z bus_scheme, u32) cm" where
  "sdio_power_state_get h = rd32 h SDIO_PWRCTL"

definition sdio_clock_enable :: "hw \<Rightarrow> ('z bus_scheme, unit) cm" where
  "sdio_clock_enable h = setbits h SDIO_CLKCTL (BIT 8)"

definition sdio_command_response_config :: "hw \<Rightarrow> u32 \<Rightarrow> u32 \<Rightarrow> u32 \<Rightarrow> ('z bus_scheme, unit) cm" where
  "sdio_command_response_config h cmd_index cmd_argument response_type =
     seqM [clrbits h SDIO_CMDCTL (BIT 10),
           clrbits h SDIO_CMDAGMT (BITS 0 31),
           wr32 SDIO_CMDAGMT cmd_argument,
           mod32 h SDIO_CMDCTL (\<lambda>c. (c AND NOT (BITS 0 5 OR BITS 6 7)) OR (cmd_index OR response_type))]"

definition sdio_wait_type_set :: "hw \<Rightarrow> u32 \<Rightarrow> ('z bus_scheme, unit) cm" where
  "sdio_wait_type_set h wait_type =
     thenM (clrbits h SDIO_CMDCTL (BIT 8 OR BIT 9)) (setbits h SDIO_CMDCTL wait_type)"

definition sdio_csm_enable :: "hw \<Rightarrow> ('z bus_scheme, unit) cm" where
  "sdio_csm_enable h = setbits h SDIO_CMDCTL (BIT 10)"

definition sdio_command_index_get :: "hw \<Rightarrow> ('z bus_scheme, u8) cm" where
  "sdio_command_index_get h = bindM (rd32 h SDIO_RSPCMDIDX) (\<lambda>v. ret (ucast v))"

definition sdio_response_get :: "hw \<Rightarrow> u32 \<Rightarrow> ('z bus_scheme, u32) cm" where
  "sdio_response_get h sdio_responsex =
     (if sdio_responsex = 0 then rd32 h SDIO_RESP0
      else if sdio_responsex = 1 then rd32 h SDIO_RESP1
      else if sdio_responsex = 2 then rd32 h SDIO_RESP2
      else if sdio_responsex = 3 then rd32 h SDIO_RESP3
      else ret 0)"

definition sdio_data_config :: "hw \<Rightarrow> u32 \<Rightarrow> u32 \<Rightarrow> u32 \<Rightarrow> ('z bus_scheme, unit) cm" where
  "sdio_data_config h data_timeout data_length data_blocksize =
     seqM [clrbits h SDIO_DATATO (BITS 0 31),
           clrbits h SDIO_DATALEN (BITS 0 24),
           clrbits h SDIO_DATACTL (BITS 4 7),
           wr32 SDIO_DATATO data_timeout,
           wr32 SDIO_DATALEN data_length,
           setbits h SDIO_DATACTL data_blocksize]"

definition sdio_data_transfer_config :: "hw \<Rightarrow> u32 \<Rightarrow> u32 \<Rightarrow> ('z bus_scheme, unit) cm" where
  "sdio_data_transfer_config h transfer_mode transfer_direction =
     mod32 h SDIO_DATACTL (\<lambda>d. (d AND NOT (BIT 2 OR BIT 1)) OR (transfer_mode OR transfer_direction))"

definition sdio_dsm_enable :: "hw \<Rightarrow> ('z bus_scheme, unit) cm" where
  "sdio_dsm_enable h = setbits h SDIO_DATACTL (BIT 0)"

definition sdio_dsm_disable :: "hw \<Rightarrow> ('z bus_scheme, unit) cm" where
  "sdio_dsm_disable h = clrbits h SDIO_DATACTL (BIT 0)"

definition sdio_data_write :: "u32 \<Rightarrow> ('z bus_scheme, unit) cm" where
  "sdio_data_write data = wr32 SDIO_FIFO data"

definition sdio_data_read :: "hw \<Rightarrow> ('z bus_scheme, u32) cm" where
  "sdio_data_read h = rd32 h SDIO_FIFO"

definition sdio_dma_enable :: "hw \<Rightarrow> ('z bus_scheme, unit) cm" where
  "sdio_dma_enable h = setbits h SDIO_DATACTL (BIT 3)"

definition sdio_dma_disable :: "hw \<Rightarrow> ('z bus_scheme, unit) cm" where
  "sdio_dma_disable h = clrbits h SDIO_DATACTL (BIT 3)"

definition sdio_flag_get :: "hw \<Rightarrow> u32 \<Rightarrow> ('z bus_scheme, bool) cm" where
  "sdio_flag_get h flag = bindM (rd32 h SDIO_STAT) (\<lambda>v. ret (v AND flag \<noteq> 0))"

definition sdio_flag_clear :: "u32 \<Rightarrow> ('z bus_scheme, unit) cm" where
  "sdio_flag_clear flag = wr32 SDIO_INTC flag"

definition sdio_interrupt_enable :: "hw \<Rightarrow> u32 \<Rightarrow> ('z bus_scheme, unit) cm" where
  "sdio_interrupt_enable h int_flag = setbits h SDIO_INTEN int_flag"

definition sdio_interrupt_disable :: "hw \<Rightarrow> u32 \<Rightarrow> ('z bus_scheme, unit) cm" where
  "sdio_interrupt_disable h int_flag = clrbits h SDIO_INTEN int_flag"

definition sdio_interrupt_flag_get :: "hw \<Rightarrow> u32 \<Rightarrow> ('z bus_scheme, bool) cm" where
  "sdio_interrupt_flag_get h int_flag = bindM (rd32 h SDIO_STAT) (\<lambda>v. ret (v AND int_flag \<noteq> 0))"

definition sdio_interrupt_flag_clear :: "u32 \<Rightarrow> ('z bus_scheme, unit) cm" where
  "sdio_interrupt_flag_clear int_flag = wr32 SDIO_INTC int_flag"

section \<open>All of them only touch the bus\<close>

lemmas periph_defs =
  rcu_periph_clock_enable_def rcu_periph_reset_enable_def rcu_periph_reset_disable_def
  gpio_mode_set_def gpio_output_options_set_def gpio_bit_set_def gpio_bit_reset_def gpio_bit_write_def
  gpio_bit_toggle_def gpio_input_bit_get_def gpio_af_set_def
  dma_flag_get_def dma_flag_clear_def dma_deinit_def dma_multi_data_mode_init_def
  dma_flow_controller_config_def dma_channel_enable_def dma_channel_disable_def
  dma_channel_subperipheral_select_def

lemmas sdio_defs =
  sdio_deinit_def sdio_clock_config_def sdio_hardware_clock_disable_def sdio_bus_mode_set_def
  sdio_power_state_set_def sdio_power_state_get_def sdio_clock_enable_def sdio_command_response_config_def
  sdio_wait_type_set_def sdio_csm_enable_def sdio_command_index_get_def sdio_response_get_def
  sdio_data_config_def sdio_data_transfer_config_def sdio_dsm_enable_def sdio_dsm_disable_def
  sdio_data_write_def sdio_data_read_def sdio_dma_enable_def sdio_dma_disable_def sdio_flag_get_def
  sdio_flag_clear_def sdio_interrupt_enable_def sdio_interrupt_disable_def sdio_interrupt_flag_get_def
  sdio_interrupt_flag_clear_def

lemma io_periph [io_intros]:
  "io_only (rcu_periph_clock_enable h p)" "io_only (rcu_periph_reset_enable h p)"
  "io_only (rcu_periph_reset_disable h p)"
  "io_only (gpio_mode_set h g m u p)" "io_only (gpio_output_options_set h g ot sp p)"
  "io_only (gpio_bit_set g p)" "io_only (gpio_bit_reset g p)" "io_only (gpio_bit_write g p b)"
  "io_only (gpio_bit_toggle g p)" "io_only (gpio_input_bit_get h g p)" "io_only (gpio_af_set h g n p)"
  "io_only (dma_flag_get h d c f)" "io_only (dma_flag_clear h d c f)" "io_only (dma_deinit h d c)"
  "io_only (dma_multi_data_mode_init h d c prm)" "io_only (dma_flow_controller_config h d c ct)"
  "io_only (dma_channel_enable h d c)" "io_only (dma_channel_disable h d c)"
  "io_only (dma_channel_subperipheral_select h d c sp')"
  unfolding periph_defs by (intro io_intros)+

lemma io_sdio [io_intros]:
  "io_only (sdio_deinit h)" "io_only (sdio_clock_config h e b p dv)" "io_only (sdio_hardware_clock_disable h)"
  "io_only (sdio_bus_mode_set h m)" "io_only (sdio_power_state_set ps)" "io_only (sdio_power_state_get h)"
  "io_only (sdio_clock_enable h)" "io_only (sdio_command_response_config h i a r)"
  "io_only (sdio_wait_type_set h w)" "io_only (sdio_csm_enable h)" "io_only (sdio_command_index_get h)"
  "io_only (sdio_response_get h x)" "io_only (sdio_data_config h t n bs)"
  "io_only (sdio_data_transfer_config h tm td)" "io_only (sdio_dsm_enable h)" "io_only (sdio_dsm_disable h)"
  "io_only (sdio_data_write d)" "io_only (sdio_data_read h)" "io_only (sdio_dma_enable h)"
  "io_only (sdio_dma_disable h)" "io_only (sdio_flag_get h f)" "io_only (sdio_flag_clear f)"
  "io_only (sdio_interrupt_enable h f)" "io_only (sdio_interrupt_disable h f)"
  "io_only (sdio_interrupt_flag_get h f)" "io_only (sdio_interrupt_flag_clear f)"
  unfolding sdio_defs by (auto intro!: io_intros simp: Let_def split: prod.split)

end
