(* ===== verification/Sd_Command.thy ===== *)
theory Sd_Command
  imports Periph
begin

text \<open>
  The command layer of the SD card driver \<open>src/user/sys/sdcard.c\<close>: its types and static variables, the
  way a command is sent, and the checks of the response formats R1, R2, R3, R6 and R7. The
  properties classify every outcome of a check, for all behaviours of the SDIO hardware.
\<close>

section \<open>Types and state\<close>

datatype sdio_card_type =
    SDIO_STD_CAPACITY_SD_CARD_V1_1
  | SDIO_STD_CAPACITY_SD_CARD_V2_0
  | SDIO_HIGH_CAPACITY_SD_CARD
  | SDIO_SECURE_DIGITAL_IO_CARD
  | SDIO_SECURE_DIGITAL_IO_COMBO_CARD
  | SDIO_MULTIMEDIA_CARD
  | SDIO_HIGH_CAPACITY_MULTIMEDIA_CARD
  | SDIO_HIGH_SPEED_MULTIMEDIA_CARD

datatype sd_error =
    SD_OUT_OF_RANGE | SD_ADDRESS_ERROR | SD_BLOCK_LEN_ERROR | SD_ERASE_SEQ_ERROR | SD_ERASE_PARAM
  | SD_WP_VIOLATION | SD_LOCK_UNLOCK_FAILED | SD_COM_CRC_ERROR | SD_ILLEGAL_COMMAND
  | SD_CARD_ECC_FAILED | SD_CC_ERROR | SD_GENERAL_UNKNOWN_ERROR | SD_CSD_OVERWRITE | SD_WP_ERASE_SKIP
  | SD_CARD_ECC_DISABLED | SD_ERASE_RESET | SD_AKE_SEQ_ERROR
  | SD_CMD_CRC_ERROR | SD_DATA_CRC_ERROR | SD_CMD_RESP_TIMEOUT | SD_DATA_TIMEOUT
  | SD_TX_UNDERRUN_ERROR | SD_RX_OVERRUN_ERROR | SD_START_BIT_ERROR
  | SD_VOLTRANGE_INVALID | SD_PARAMETER_INVALID | SD_OPERATION_IMPROPER | SD_FUNCTION_UNSUPPORTED
  | SD_ERROR | SD_OK

text \<open>
  The static variables of \<open>sdcard.c\<close>, and the memory the callers' buffers live in: a partial map from
  word addresses, so that an access outside every buffer is a fault.
\<close>

record sdcard = bus +
  sd_scr :: "u32 list"
  cardtype :: sdio_card_type
  sd_csd :: "u32 list"
  sd_cid :: "u32 list"
  sd_rca :: u16
  transmode :: u32
  totalnumber_bytes :: u32
  stopcondition :: u32
  transerror :: sd_error
  transend :: u32
  number_bytes :: u32
  ram :: "u32 \<rightharpoonup> u32"

text \<open>\<open>sd_scr\<close>, \<open>sd_csd\<close> and \<open>sd_cid\<close> are arrays of two and four words.\<close>

definition sd_wf :: "'z sdcard_scheme \<Rightarrow> bool" where
  "sd_wf s \<longleftrightarrow> length (sd_scr s) = 2 \<and> length (sd_csd s) = 4 \<and> length (sd_cid s) = 4"

abbreviation std_capacity :: "sdio_card_type \<Rightarrow> bool" where
  "std_capacity t \<equiv> t = SDIO_STD_CAPACITY_SD_CARD_V1_1 \<or> t = SDIO_STD_CAPACITY_SD_CARD_V2_0"

abbreviation sd_memory_card :: "sdio_card_type \<Rightarrow> bool" where
  "sd_memory_card t \<equiv> std_capacity t \<or> t = SDIO_HIGH_CAPACITY_SD_CARD"

text \<open>Constants of \<open>sdcard.h\<close>, \<open>sdcard.c\<close> and \<open>gd32f4xx_sdio.h\<close>.\<close>

abbreviation SD_CMD_GO_IDLE_STATE :: u8 where "SD_CMD_GO_IDLE_STATE \<equiv> 0"
abbreviation SD_CMD_ALL_SEND_CID :: u8 where "SD_CMD_ALL_SEND_CID \<equiv> 2"
abbreviation SD_CMD_SEND_RELATIVE_ADDR :: u8 where "SD_CMD_SEND_RELATIVE_ADDR \<equiv> 3"
abbreviation SD_CMD_SELECT_DESELECT_CARD :: u8 where "SD_CMD_SELECT_DESELECT_CARD \<equiv> 7"
abbreviation SD_CMD_SEND_IF_COND :: u8 where "SD_CMD_SEND_IF_COND \<equiv> 8"
abbreviation SD_CMD_SEND_CSD :: u8 where "SD_CMD_SEND_CSD \<equiv> 9"
abbreviation SD_CMD_STOP_TRANSMISSION :: u8 where "SD_CMD_STOP_TRANSMISSION \<equiv> 12"
abbreviation SD_CMD_SEND_STATUS :: u8 where "SD_CMD_SEND_STATUS \<equiv> 13"
abbreviation SD_CMD_SET_BLOCKLEN :: u8 where "SD_CMD_SET_BLOCKLEN \<equiv> 16"
abbreviation SD_CMD_READ_SINGLE_BLOCK :: u8 where "SD_CMD_READ_SINGLE_BLOCK \<equiv> 17"
abbreviation SD_CMD_READ_MULTIPLE_BLOCK :: u8 where "SD_CMD_READ_MULTIPLE_BLOCK \<equiv> 18"
abbreviation SD_CMD_WRITE_BLOCK :: u8 where "SD_CMD_WRITE_BLOCK \<equiv> 24"
abbreviation SD_CMD_WRITE_MULTIPLE_BLOCK :: u8 where "SD_CMD_WRITE_MULTIPLE_BLOCK \<equiv> 25"
abbreviation SD_CMD_ERASE_WR_BLK_START :: u8 where "SD_CMD_ERASE_WR_BLK_START \<equiv> 32"
abbreviation SD_CMD_ERASE_WR_BLK_END :: u8 where "SD_CMD_ERASE_WR_BLK_END \<equiv> 33"
abbreviation SD_CMD_ERASE :: u8 where "SD_CMD_ERASE \<equiv> 38"
abbreviation SD_CMD_LOCK_UNLOCK :: u8 where "SD_CMD_LOCK_UNLOCK \<equiv> 42"
abbreviation SD_CMD_APP_CMD :: u8 where "SD_CMD_APP_CMD \<equiv> 55"
abbreviation SD_APPCMD_SET_BUS_WIDTH :: u8 where "SD_APPCMD_SET_BUS_WIDTH \<equiv> 6"
abbreviation SD_APPCMD_SD_STATUS :: u8 where "SD_APPCMD_SD_STATUS \<equiv> 13"
abbreviation SD_APPCMD_SET_WR_BLK_ERASE_COUNT :: u8 where "SD_APPCMD_SET_WR_BLK_ERASE_COUNT \<equiv> 23"
abbreviation SD_APPCMD_SD_SEND_OP_COND :: u8 where "SD_APPCMD_SD_SEND_OP_COND \<equiv> 41"
abbreviation SD_APPCMD_SEND_SCR :: u8 where "SD_APPCMD_SEND_SCR \<equiv> 51"

definition SDIO_RESPONSETYPE_NO :: u32 where "SDIO_RESPONSETYPE_NO = 0"
definition SDIO_RESPONSETYPE_SHORT :: u32 where "SDIO_RESPONSETYPE_SHORT = 0x40"
definition SDIO_RESPONSETYPE_LONG :: u32 where "SDIO_RESPONSETYPE_LONG = 0xC0"

definition SDIO_FLAG_CCRCERR :: u32 where "SDIO_FLAG_CCRCERR = BIT 0"
definition SDIO_FLAG_DTCRCERR :: u32 where "SDIO_FLAG_DTCRCERR = BIT 1"
definition SDIO_FLAG_CMDTMOUT :: u32 where "SDIO_FLAG_CMDTMOUT = BIT 2"
definition SDIO_FLAG_DTTMOUT :: u32 where "SDIO_FLAG_DTTMOUT = BIT 3"
definition SDIO_FLAG_TXURE :: u32 where "SDIO_FLAG_TXURE = BIT 4"
definition SDIO_FLAG_RXORE :: u32 where "SDIO_FLAG_RXORE = BIT 5"
definition SDIO_FLAG_CMDRECV :: u32 where "SDIO_FLAG_CMDRECV = BIT 6"
definition SDIO_FLAG_CMDSEND :: u32 where "SDIO_FLAG_CMDSEND = BIT 7"
definition SDIO_FLAG_DTEND :: u32 where "SDIO_FLAG_DTEND = BIT 8"
definition SDIO_FLAG_STBITE :: u32 where "SDIO_FLAG_STBITE = BIT 9"
definition SDIO_FLAG_DTBLKEND :: u32 where "SDIO_FLAG_DTBLKEND = BIT 10"
definition SDIO_FLAG_TXRUN :: u32 where "SDIO_FLAG_TXRUN = BIT 12"
definition SDIO_FLAG_RXRUN :: u32 where "SDIO_FLAG_RXRUN = BIT 13"
definition SDIO_FLAG_TFH :: u32 where "SDIO_FLAG_TFH = BIT 14"
definition SDIO_FLAG_RFH :: u32 where "SDIO_FLAG_RFH = BIT 15"
definition SDIO_FLAG_RXDTVAL :: u32 where "SDIO_FLAG_RXDTVAL = BIT 21"

lemmas sdio_flags = SDIO_FLAG_CCRCERR_def SDIO_FLAG_DTCRCERR_def SDIO_FLAG_CMDTMOUT_def SDIO_FLAG_DTTMOUT_def
  SDIO_FLAG_TXURE_def SDIO_FLAG_RXORE_def SDIO_FLAG_CMDRECV_def SDIO_FLAG_CMDSEND_def SDIO_FLAG_DTEND_def
  SDIO_FLAG_STBITE_def SDIO_FLAG_DTBLKEND_def SDIO_FLAG_TXRUN_def SDIO_FLAG_RXRUN_def SDIO_FLAG_TFH_def
  SDIO_FLAG_RFH_def SDIO_FLAG_RXDTVAL_def

definition SDIO_MASK_INTC_FLAGS :: u32 where "SDIO_MASK_INTC_FLAGS = 0x00C007FF"
definition SD_R1_ERROR_BITS :: u32 where "SD_R1_ERROR_BITS = 0xFDF9E008"
definition SD_R1_READY_FOR_DATA :: u32 where "SD_R1_READY_FOR_DATA = BIT 8"
definition SD_CARDSTATE_LOCKED :: u32 where "SD_CARDSTATE_LOCKED = 0x02000000"
definition SD_CHECK_PATTERN :: u32 where "SD_CHECK_PATTERN = 0x000001AA"
definition SD_VOLTAGE_WINDOW :: u32 where "SD_VOLTAGE_WINDOW = 0x80100000"
definition SD_HIGH_CAPACITY :: u32 where "SD_HIGH_CAPACITY = 0x40000000"
definition SD_STD_CAPACITY :: u32 where "SD_STD_CAPACITY = 0"
definition SD_MAX_VOLT_VALIDATION :: u32 where "SD_MAX_VOLT_VALIDATION = 0x0000FFFF"
definition SD_DATATIMEOUT :: u32 where "SD_DATATIMEOUT = 0xFFFFFFFF"
definition SD_MAX_DATA_LENGTH :: u32 where "SD_MAX_DATA_LENGTH = 0x01FFFFFF"
definition SD_POLLING_MODE :: u32 where "SD_POLLING_MODE = 1"
definition SD_DMA_MODE :: u32 where "SD_DMA_MODE = 0"

text \<open>\<open>status = m; if (SD_OK != status) return status;\<close> followed by \<open>k\<close>.\<close>

definition check_ok :: "('s, sd_error) cm \<Rightarrow> ('s, sd_error) cm \<Rightarrow> ('s, sd_error) cm" where
  "check_ok m k = bindM m (\<lambda>status. if status \<noteq> SD_OK then ret status else k)"

text \<open>The RCA in a command argument: \<open>(uint32_t)sd_rca << SD_RCA_SHIFT\<close>.\<close>

definition rca_arg :: "u16 \<Rightarrow> u32" where
  "rca_arg rca = push_bit 16 (ucast rca)"

section \<open>Commands and response checks\<close>

text \<open>The three calls with which the driver issues every command.\<close>

definition sd_command :: "hw \<Rightarrow> u8 \<Rightarrow> u32 \<Rightarrow> u32 \<Rightarrow> ('z bus_scheme, unit) cm" where
  "sd_command h cmd arg resp =
     seqM [sdio_command_response_config h (ucast cmd) arg resp, sdio_wait_type_set h 0, sdio_csm_enable h]"

definition cmdsent_error_check :: "hw \<Rightarrow> ('z bus_scheme, sd_error) cm" where
  "cmdsent_error_check h =
     bindM (whileM (\<lambda>timeout::u32. bindM (sdio_flag_get h SDIO_FLAG_CMDSEND) (\<lambda>f. ret (\<not> f \<and> timeout > 0)))
              (\<lambda>timeout. ret (timeout - 1)) 100000) (\<lambda>timeout.
     if timeout = 0 then ret SD_CMD_RESP_TIMEOUT
     else thenM (sdio_flag_clear SDIO_MASK_INTC_FLAGS) (ret SD_OK))"

definition r1_error_type_check :: "u32 \<Rightarrow> sd_error" where
  "r1_error_type_check resp =
     (if resp AND BIT 31 \<noteq> 0 then SD_OUT_OF_RANGE
      else if resp AND BIT 30 \<noteq> 0 then SD_ADDRESS_ERROR
      else if resp AND BIT 29 \<noteq> 0 then SD_BLOCK_LEN_ERROR
      else if resp AND BIT 28 \<noteq> 0 then SD_ERASE_SEQ_ERROR
      else if resp AND BIT 27 \<noteq> 0 then SD_ERASE_PARAM
      else if resp AND BIT 26 \<noteq> 0 then SD_WP_VIOLATION
      else if resp AND BIT 24 \<noteq> 0 then SD_LOCK_UNLOCK_FAILED
      else if resp AND BIT 23 \<noteq> 0 then SD_COM_CRC_ERROR
      else if resp AND BIT 22 \<noteq> 0 then SD_ILLEGAL_COMMAND
      else if resp AND BIT 21 \<noteq> 0 then SD_CARD_ECC_FAILED
      else if resp AND BIT 20 \<noteq> 0 then SD_CC_ERROR
      else if resp AND BIT 19 \<noteq> 0 then SD_GENERAL_UNKNOWN_ERROR
      else if resp AND BIT 16 \<noteq> 0 then SD_CSD_OVERWRITE
      else if resp AND BIT 15 \<noteq> 0 then SD_WP_ERASE_SKIP
      else if resp AND BIT 14 \<noteq> 0 then SD_CARD_ECC_DISABLED
      else if resp AND BIT 13 \<noteq> 0 then SD_ERASE_RESET
      else if resp AND BIT 3 \<noteq> 0 then SD_AKE_SEQ_ERROR
      else SD_ERROR)"

text \<open>\<open>reg_status = SDIO_STAT; while (!(reg_status & ...)) reg_status = SDIO_STAT;\<close>\<close>

definition CMD_DONE :: u32 where
  "CMD_DONE = SDIO_FLAG_CCRCERR OR SDIO_FLAG_CMDTMOUT OR SDIO_FLAG_CMDRECV"

definition wait_response :: "hw \<Rightarrow> ('z bus_scheme, u32) cm" where
  "wait_response h =
     bindM (rd32 h SDIO_STAT) (whileM (\<lambda>reg_status. ret (reg_status AND CMD_DONE = 0)) (\<lambda>_. rd32 h SDIO_STAT))"

definition r1_error_check :: "hw \<Rightarrow> u8 \<Rightarrow> ('z bus_scheme, sd_error) cm" where
  "r1_error_check h cmdindex =
     bindM (wait_response h) (\<lambda>reg_status.
     if reg_status AND SDIO_FLAG_CCRCERR \<noteq> 0
     then thenM (sdio_flag_clear SDIO_FLAG_CCRCERR) (ret SD_CMD_CRC_ERROR)
     else if reg_status AND SDIO_FLAG_CMDTMOUT \<noteq> 0
     then thenM (sdio_flag_clear SDIO_FLAG_CMDTMOUT) (ret SD_CMD_RESP_TIMEOUT)
     else bindM (sdio_command_index_get h) (\<lambda>idx.
     if idx \<noteq> cmdindex then ret SD_ILLEGAL_COMMAND
     else thenM (sdio_flag_clear SDIO_MASK_INTC_FLAGS)
    (bindM (sdio_response_get h 0) (\<lambda>resp_r1.
     if resp_r1 AND SD_R1_ERROR_BITS = 0 then ret SD_OK
     else ret (r1_error_type_check resp_r1)))))"

definition r2_error_check :: "hw \<Rightarrow> ('z bus_scheme, sd_error) cm" where
  "r2_error_check h =
     bindM (wait_response h) (\<lambda>reg_status.
     if reg_status AND SDIO_FLAG_CCRCERR \<noteq> 0
     then thenM (sdio_flag_clear SDIO_FLAG_CCRCERR) (ret SD_CMD_CRC_ERROR)
     else if reg_status AND SDIO_FLAG_CMDTMOUT \<noteq> 0
     then thenM (sdio_flag_clear SDIO_FLAG_CMDTMOUT) (ret SD_CMD_RESP_TIMEOUT)
     else thenM (sdio_flag_clear SDIO_MASK_INTC_FLAGS) (ret SD_OK))"

definition r3_error_check :: "hw \<Rightarrow> ('z bus_scheme, sd_error) cm" where
  "r3_error_check h =
     bindM (wait_response h) (\<lambda>reg_status.
     if reg_status AND SDIO_FLAG_CMDTMOUT \<noteq> 0
     then thenM (sdio_flag_clear SDIO_FLAG_CMDTMOUT) (ret SD_CMD_RESP_TIMEOUT)
     else thenM (sdio_flag_clear SDIO_MASK_INTC_FLAGS) (ret SD_OK))"

text \<open>The out-parameter \<open>*prca\<close> is passed in and returned.\<close>

definition r6_error_check :: "hw \<Rightarrow> u8 \<Rightarrow> u16 \<Rightarrow> ('z bus_scheme, sd_error \<times> u16) cm" where
  "r6_error_check h cmdindex prca =
     bindM (wait_response h) (\<lambda>reg_status.
     if reg_status AND SDIO_FLAG_CCRCERR \<noteq> 0
     then thenM (sdio_flag_clear SDIO_FLAG_CCRCERR) (ret (SD_CMD_CRC_ERROR, prca))
     else if reg_status AND SDIO_FLAG_CMDTMOUT \<noteq> 0
     then thenM (sdio_flag_clear SDIO_FLAG_CMDTMOUT) (ret (SD_CMD_RESP_TIMEOUT, prca))
     else bindM (sdio_command_index_get h) (\<lambda>idx.
     if idx \<noteq> cmdindex then ret (SD_ILLEGAL_COMMAND, prca)
     else thenM (sdio_flag_clear SDIO_MASK_INTC_FLAGS)
    (bindM (sdio_response_get h 0) (\<lambda>response.
     if response AND (BIT 15 OR BIT 14 OR BIT 13) = 0 then ret (SD_OK, ucast (drop_bit 16 response))
     else if response AND BIT 15 \<noteq> 0 then ret (SD_COM_CRC_ERROR, prca)
     else if response AND BIT 14 \<noteq> 0 then ret (SD_ILLEGAL_COMMAND, prca)
     else if response AND BIT 13 \<noteq> 0 then ret (SD_GENERAL_UNKNOWN_ERROR, prca)
     else ret (SD_OK, prca)))))"

definition r7_error_check :: "hw \<Rightarrow> ('z bus_scheme, sd_error) cm" where
  "r7_error_check h =
     bindM (rd32 h SDIO_STAT) (\<lambda>reg_status.
     bindM (whileM (\<lambda>(reg_status, timeout::u32). ret (reg_status AND CMD_DONE = 0 \<and> timeout > 0))
              (\<lambda>(reg_status, timeout). bindM (rd32 h SDIO_STAT) (\<lambda>r. ret (r, timeout - 1)))
              (reg_status, 100000)) (\<lambda>(reg_status, timeout).
     if reg_status AND SDIO_FLAG_CMDTMOUT \<noteq> 0 \<or> timeout = 0
     then thenM (sdio_flag_clear SDIO_FLAG_CMDTMOUT) (ret SD_CMD_RESP_TIMEOUT)
     else if reg_status AND SDIO_FLAG_CMDRECV \<noteq> 0
     then thenM (sdio_flag_clear SDIO_FLAG_CMDRECV) (ret SD_OK)
     else ret SD_ERROR))"

text \<open>The most frequent step of the driver: a command with a short response, checked as R1.\<close>

definition cmd_r1 :: "hw \<Rightarrow> u8 \<Rightarrow> u32 \<Rightarrow> ('z bus_scheme, sd_error) cm" where
  "cmd_r1 h cmd arg = thenM (sd_command h cmd arg SDIO_RESPONSETYPE_SHORT) (r1_error_check h cmd)"

definition sd_card_state_get :: "hw \<Rightarrow> u8 \<Rightarrow> ('z sdcard_scheme, sd_error \<times> u8) cm" where
  "sd_card_state_get h pcardstate =
     bindM (getM sd_rca) (\<lambda>rca.
     thenM (sd_command h SD_CMD_SEND_STATUS (rca_arg rca) SDIO_RESPONSETYPE_SHORT)
    (bindM (wait_response h) (\<lambda>reg_status.
     if reg_status AND SDIO_FLAG_CCRCERR \<noteq> 0
     then thenM (sdio_flag_clear SDIO_FLAG_CCRCERR) (ret (SD_CMD_CRC_ERROR, pcardstate))
     else if reg_status AND SDIO_FLAG_CMDTMOUT \<noteq> 0
     then thenM (sdio_flag_clear SDIO_FLAG_CMDTMOUT) (ret (SD_CMD_RESP_TIMEOUT, pcardstate))
     else bindM (sdio_command_index_get h) (\<lambda>idx.
     if (ucast idx :: u32) \<noteq> ucast SD_CMD_SEND_STATUS then ret (SD_ILLEGAL_COMMAND, pcardstate)
     else thenM (sdio_flag_clear SDIO_MASK_INTC_FLAGS)
    (bindM (sdio_response_get h 0) (\<lambda>response.
     let pcardstate = ucast (drop_bit 9 response AND 0xF) in
     if response AND SD_R1_ERROR_BITS = 0 then ret (SD_OK, pcardstate)
     else ret (r1_error_type_check response, pcardstate)))))))"

text \<open>\<open>while (SD_OK == status && (PROGRAMMING == cardstate || RECEIVING == cardstate))\<close>, at the end of
  every operation that programs the card.\<close>

definition wait_programmed :: "hw \<Rightarrow> ('z sdcard_scheme, sd_error) cm" where
  "wait_programmed h =
     bindM (sd_card_state_get h 0) (\<lambda>v.
     bindM (whileM (\<lambda>(status, cardstate). ret (status = SD_OK \<and> (cardstate = 7 \<or> cardstate = 6)))
              (\<lambda>(status, cardstate). sd_card_state_get h cardstate) v) (\<lambda>(status, _). ret status))"

section \<open>Basic facts\<close>

lemma io_check_ok [io_intros]: "io_only m \<Longrightarrow> io_only k \<Longrightarrow> io_only (check_ok m k)"
  unfolding check_ok_def by (intro io_intros)

lemma io_wait_response [io_intros]: "io_only (wait_response h)"
  unfolding wait_response_def by (intro io_intros)

lemma io_command [io_intros]:
  "io_only (sd_command h c a r)" "io_only (cmdsent_error_check h)" "io_only (r1_error_check h c)"
  "io_only (r2_error_check h)" "io_only (r3_error_check h)" "io_only (r6_error_check h c p)"
  unfolding sd_command_def cmdsent_error_check_def r1_error_check_def r2_error_check_def r3_error_check_def
    r6_error_check_def
  by (intro io_intros)+

lemma io_r7 [io_intros]: "io_only (r7_error_check h)"
  unfolding r7_error_check_def by (intro io_intros)

lemma io_cmd_r1 [io_intros]: "io_only (cmd_r1 h c a)"
  unfolding cmd_r1_def by (intro io_intros)

lemma io_sd_card_state_get [io_intros]: "io_only (sd_card_state_get h p)"
  unfolding sd_card_state_get_def by (intro io_intros)

lemma io_wait_programmed [io_intros]: "io_only (wait_programmed h)"
  unfolding wait_programmed_def by (intro io_intros)

lemma wp_check_ok [wp_simps]:
  "wp (check_ok m k) Q = wp m (\<lambda>st. if st \<noteq> SD_OK then Q st else wp k Q)"
  "wlp (check_ok m k) Q = wlp m (\<lambda>st. if st \<noteq> SD_OK then Q st else wlp k Q)"
  unfolding check_ok_def wp_simps by simp_all

section \<open>The response checks\<close>

text \<open>
  Waiting for a response ends when the status register shows one, and then the last access to the
  bus is the read that showed it.
\<close>

definition card_answers :: "hw \<Rightarrow> bool" where
  "card_answers h \<longleftrightarrow> responds h SDIO_STAT (\<lambda>v. v AND CMD_DONE \<noteq> 0)"

lemma wlp_wait_response:
  assumes "\<And>l. log_ext s (s\<lparr>iolog := l\<rparr>) \<Longrightarrow> h l SDIO_STAT AND CMD_DONE \<noteq> 0 \<Longrightarrow>
      Q (h l SDIO_STAT) (s\<lparr>iolog := Rd SDIO_STAT (h l SDIO_STAT) # l\<rparr>)"
  shows "wlp (wait_response h) Q s"
proof -
  let ?I = "\<lambda>v t. \<exists>l. log_ext s (s\<lparr>iolog := l\<rparr>) \<and> v = h l SDIO_STAT \<and> t = s\<lparr>iolog := Rd SDIO_STAT v # l\<rparr>"
  have step: "log_ext s (s\<lparr>iolog := Rd a v # l\<rparr>)" if "log_ext s (s\<lparr>iolog := l\<rparr>)" for a v l
    using that log_ext_Cons [of "s\<lparr>iolog := l\<rparr>"] log_ext_trans by fastforce
  have "wlp (whileM (\<lambda>reg_status. ret (reg_status AND CMD_DONE = 0)) (\<lambda>_. rd32 h SDIO_STAT) (h (iolog s) SDIO_STAT))
      Q (s\<lparr>iolog := Rd SDIO_STAT (h (iolog s) SDIO_STAT) # iolog s\<rparr>)"
  proof (rule wlp_whileM [where I = ?I])
    show "?I (h (iolog s) SDIO_STAT) (s\<lparr>iolog := Rd SDIO_STAT (h (iolog s) SDIO_STAT) # iolog s\<rparr>)"
      by (rule exI [of _ "iolog s"]) simp
  next
    fix v t assume "?I v t"
    then obtain l where l: "log_ext s (s\<lparr>iolog := l\<rparr>)" "v = h l SDIO_STAT" "t = s\<lparr>iolog := Rd SDIO_STAT v # l\<rparr>"
      by blast
    show "wlp (ret (v AND CMD_DONE = 0)) (\<lambda>r u. if r then wlp (rd32 h SDIO_STAT) ?I u else Q v u) t"
      using l step [OF l(1)] assms [OF l(1)] by (auto simp: wp_simps)
  qed
  then show ?thesis by (simp add: wait_response_def wp_simps)
qed

lemma wait_response_returns:
  assumes "card_answers h" shows "wait_response h s \<noteq> None"
proof -
  obtain d :: "io_log \<Rightarrow> nat" where d: "\<And>l. h l SDIO_STAT AND CMD_DONE = 0 \<Longrightarrow> d (Rd SDIO_STAT (h l SDIO_STAT) # l) < d l"
    using assms by (auto simp: card_answers_def responds_def)
  let ?I = "\<lambda>v t. \<exists>l. v = h l SDIO_STAT \<and> iolog t = Rd SDIO_STAT v # l"
  let ?M = "\<lambda>v t. d (tl (iolog t))"
  have "wp (whileM (\<lambda>reg_status. ret (reg_status AND CMD_DONE = 0)) (\<lambda>_. rd32 h SDIO_STAT) (h (iolog s) SDIO_STAT))
      (\<lambda>_ _. True) (s\<lparr>iolog := Rd SDIO_STAT (h (iolog s) SDIO_STAT) # iolog s\<rparr>)"
    by (rule wp_whileM [where I = ?I and M = ?M]) (auto simp: wp_simps d)
  then show ?thesis by (auto simp: wait_response_def run_simps wp_def)
qed

lemma wp_wait_response:
  assumes "card_answers h"
    and "\<And>l. log_ext s (s\<lparr>iolog := l\<rparr>) \<Longrightarrow> h l SDIO_STAT AND CMD_DONE \<noteq> 0 \<Longrightarrow>
      Q (h l SDIO_STAT) (s\<lparr>iolog := Rd SDIO_STAT (h l SDIO_STAT) # l\<rparr>)"
  shows "wp (wait_response h) Q s"
  using wlp_wait_response [of s h Q, OF assms(2)] wait_response_returns [OF assms(1), of s]
  by (simp add: wlp_iff)

text \<open>The error bits of an R1 response and what they mean, most significant first.\<close>

definition r1_errors :: "(nat \<times> sd_error) list" where
  "r1_errors = [(31, SD_OUT_OF_RANGE), (30, SD_ADDRESS_ERROR), (29, SD_BLOCK_LEN_ERROR), (28, SD_ERASE_SEQ_ERROR),
     (27, SD_ERASE_PARAM), (26, SD_WP_VIOLATION), (24, SD_LOCK_UNLOCK_FAILED), (23, SD_COM_CRC_ERROR),
     (22, SD_ILLEGAL_COMMAND), (21, SD_CARD_ECC_FAILED), (20, SD_CC_ERROR), (19, SD_GENERAL_UNKNOWN_ERROR),
     (16, SD_CSD_OVERWRITE), (15, SD_WP_ERASE_SKIP), (14, SD_CARD_ECC_DISABLED), (13, SD_ERASE_RESET),
     (3, SD_AKE_SEQ_ERROR)]"

fun first_error :: "(nat \<times> sd_error) list \<Rightarrow> u32 \<Rightarrow> sd_error" where
  "first_error [] r = SD_ERROR"
| "first_error ((n, e) # es) r = (if bit r n then e else first_error es r)"

lemma and_BIT_iff: "x AND BIT n \<noteq> 0 \<longleftrightarrow> bit x n" for x :: u32
  using and_BIT_eq_0_iff [of x n] by (auto dest: bit_imp_le_length)

lemma r1_error_type_first: "r1_error_type_check r = first_error r1_errors r"
  unfolding r1_error_type_check_def r1_errors_def first_error.simps and_BIT_iff by (rule refl)

lemma first_error_cases:
  "sorted_wrt (>) (map fst es) \<Longrightarrow> (\<exists>n \<in> fst ` set es. bit r n) \<Longrightarrow>
     \<exists>n e. (n, e) \<in> set es \<and> bit r n \<and> first_error es r = e \<and> (\<forall>m \<in> fst ` set es. bit r m \<longrightarrow> m \<le> n)"
proof (induction es)
  case (Cons ne es)
  obtain n e where ne: "ne = (n, e)" by (cases ne)
  show ?case
  proof (cases "bit r n")
    case True
    then show ?thesis using Cons.prems(1) by (intro exI [of _ n] exI [of _ e]) (auto simp: ne)
  next
    case False
    with Cons obtain m f where "(m, f) \<in> set es" "bit r m" "first_error es r = f"
      "\<forall>k \<in> fst ` set es. bit r k \<longrightarrow> k \<le> m" by (auto simp: ne)
    with False show ?thesis by (intro exI [of _ m] exI [of _ f]) (auto simp: ne)
  qed
qed simp

lemma r1_mask_bits: "r AND SD_R1_ERROR_BITS = 0 \<longleftrightarrow> (\<forall>n \<in> fst ` set r1_errors. \<not> bit r n)"
proof -
  have m: "SD_R1_ERROR_BITS = BIT 31 OR BIT 30 OR BIT 29 OR BIT 28 OR BIT 27 OR BIT 26 OR BIT 24 OR BIT 23 OR
      BIT 22 OR BIT 21 OR BIT 20 OR BIT 19 OR BIT 16 OR BIT 15 OR BIT 14 OR BIT 13 OR BIT 3"
    by (simp add: SD_R1_ERROR_BITS_def)
  have "r AND SD_R1_ERROR_BITS = 0 \<longleftrightarrow> (r AND BIT 31 = 0 \<and> r AND BIT 30 = 0 \<and> r AND BIT 29 = 0 \<and>
      r AND BIT 28 = 0 \<and> r AND BIT 27 = 0 \<and> r AND BIT 26 = 0 \<and> r AND BIT 24 = 0 \<and> r AND BIT 23 = 0 \<and>
      r AND BIT 22 = 0 \<and> r AND BIT 21 = 0 \<and> r AND BIT 20 = 0 \<and> r AND BIT 19 = 0 \<and> r AND BIT 16 = 0 \<and>
      r AND BIT 15 = 0 \<and> r AND BIT 14 = 0 \<and> r AND BIT 13 = 0 \<and> r AND BIT 3 = 0)"
    unfolding m bit.conj_disj_distrib or_eq_0_iff by (rule refl)
  then show ?thesis
    unfolding r1_errors_def and_BIT_eq_0_iff by (auto dest: bit_imp_le_length)
qed

lemma first_error_not_ok: "\<forall>e \<in> snd ` set es. e \<noteq> SD_OK \<Longrightarrow> first_error es r \<noteq> SD_OK"
  by (induction es) (auto split: if_splits)

lemma r1_error_type_not_ok: "r1_error_type_check r \<noteq> SD_OK"
  unfolding r1_error_type_first by (rule first_error_not_ok) (simp add: r1_errors_def)

text \<open>
  What the bus shows at the end of an R1 check: the history ends with the status read that ended the
  wait, and for a received response with the command index and the response word.
\<close>

definition r1_outcome :: "u8 \<Rightarrow> sd_error \<Rightarrow> io_log \<Rightarrow> bool" where
  "r1_outcome c st l \<longleftrightarrow>
     (\<exists>v l0. l = Wr SDIO_INTC SDIO_FLAG_CCRCERR # Rd SDIO_STAT v # l0 \<and> bit v 0 \<and> st = SD_CMD_CRC_ERROR) \<or>
     (\<exists>v l0. l = Wr SDIO_INTC SDIO_FLAG_CMDTMOUT # Rd SDIO_STAT v # l0 \<and> \<not> bit v 0 \<and> bit v 2 \<and>
        st = SD_CMD_RESP_TIMEOUT) \<or>
     (\<exists>v i l0. l = Rd SDIO_RSPCMDIDX i # Rd SDIO_STAT v # l0 \<and> \<not> bit v 0 \<and> \<not> bit v 2 \<and> bit v 6 \<and>
        ucast i \<noteq> c \<and> st = SD_ILLEGAL_COMMAND) \<or>
     (\<exists>v i r l0. l = Rd SDIO_RESP0 r # Wr SDIO_INTC SDIO_MASK_INTC_FLAGS # Rd SDIO_RSPCMDIDX i # Rd SDIO_STAT v # l0 \<and>
        \<not> bit v 0 \<and> \<not> bit v 2 \<and> bit v 6 \<and> ucast i = c \<and>
        st = (if r AND SD_R1_ERROR_BITS = 0 then SD_OK else r1_error_type_check r))"

lemma flag_tests:
  "v AND SDIO_FLAG_CCRCERR = 0 \<longleftrightarrow> \<not> bit v 0" "v AND SDIO_FLAG_DTCRCERR = 0 \<longleftrightarrow> \<not> bit v 1"
  "v AND SDIO_FLAG_CMDTMOUT = 0 \<longleftrightarrow> \<not> bit v 2" "v AND SDIO_FLAG_DTTMOUT = 0 \<longleftrightarrow> \<not> bit v 3"
  "v AND SDIO_FLAG_TXURE = 0 \<longleftrightarrow> \<not> bit v 4" "v AND SDIO_FLAG_RXORE = 0 \<longleftrightarrow> \<not> bit v 5"
  "v AND SDIO_FLAG_CMDRECV = 0 \<longleftrightarrow> \<not> bit v 6" "v AND SDIO_FLAG_CMDSEND = 0 \<longleftrightarrow> \<not> bit v 7"
  "v AND SDIO_FLAG_DTEND = 0 \<longleftrightarrow> \<not> bit v 8" "v AND SDIO_FLAG_STBITE = 0 \<longleftrightarrow> \<not> bit v 9"
  "v AND SDIO_FLAG_DTBLKEND = 0 \<longleftrightarrow> \<not> bit v 10" "v AND SDIO_FLAG_TFH = 0 \<longleftrightarrow> \<not> bit v 14"
  "v AND SDIO_FLAG_RFH = 0 \<longleftrightarrow> \<not> bit v 15" "v AND SDIO_FLAG_RXDTVAL = 0 \<longleftrightarrow> \<not> bit v 21"
  unfolding sdio_flags using and_BIT_iff by blast+

lemma CMD_DONE_iff: "v AND CMD_DONE \<noteq> 0 \<longleftrightarrow> bit v 0 \<or> bit v 2 \<or> bit v 6"
  unfolding CMD_DONE_def bit.conj_disj_distrib or_eq_0_iff flag_tests by blast

lemma wlp_r1_error_check: "wlp (r1_error_check h c) (\<lambda>st s'. log_ext s s' \<and> r1_outcome c st (iolog s')) s"
proof (rule wlp_conj)
  show "wlp (r1_error_check h c) (\<lambda>st s'. log_ext s s') s"
    by (rule io_onlyD) (intro io_intros)
  show "wlp (r1_error_check h c) (\<lambda>st s'. r1_outcome c st (iolog s')) s"
    unfolding r1_error_check_def wp_bindM wlp_bindM
    by (rule wlp_wait_response)
      (auto simp: CMD_DONE_iff wp_simps sdio_flag_clear_def sdio_command_index_get_def sdio_response_get_def
        flag_tests r1_outcome_def)
qed

section \<open>Bounded waits\<close>

text \<open>A loop whose count of remaining turns is a 32-bit variable that goes down to zero returns.\<close>

lemma countdown_returns:
  fixes s :: "'z bus_scheme" and cnt :: "'v \<Rightarrow> u32"
  assumes b: "\<And>v s. wp (b v) (\<lambda>t _. t \<longrightarrow> cnt v > 0) s"
    and c: "\<And>v s. wp (c v) (\<lambda>v' _. cnt v' = cnt v - (1 :: u32)) s"
  shows "wp (whileM b c v) (\<lambda>_ _. True) s"
proof (rule wp_whileM [where I = "\<lambda>_ _. True" and M = "\<lambda>v _. unat (cnt v)"])
  fix v :: 'v and s :: "'z bus_scheme"
  have "cnt v > 0 \<Longrightarrow> unat (cnt v - 1) < unat (cnt v)"
    by (simp add: unat_minus_one unat_gt_0 word_gt_0)
  then show "wp (b v) (\<lambda>t s'. if t then wp (c v) (\<lambda>v' s''. True \<and> unat (cnt v') < unat (cnt v)) s' else True) s"
    by (intro wp_mono [OF b]) (auto intro: wp_mono [OF c])
qed simp

lemma cmdsent_error_check_returns: "wp (cmdsent_error_check h) (\<lambda>_ _. True) s"
proof -
  have "wp (whileM (\<lambda>timeout::u32. bindM (sdio_flag_get h SDIO_FLAG_CMDSEND) (\<lambda>f. ret (\<not> f \<and> timeout > 0)))
      (\<lambda>timeout. ret (timeout - 1)) 100000) (\<lambda>_ _. True) s"
    by (rule countdown_returns [where cnt = "\<lambda>v. v"]) (simp_all add: wp_simps sdio_flag_get_def)
  then show ?thesis
    unfolding cmdsent_error_check_def wp_bindM by (rule wp_mono) (simp add: wp_simps sdio_flag_clear_def)
qed

lemma r7_error_check_returns: "wp (r7_error_check h) (\<lambda>_ _. True) s"
proof -
  have "wp (whileM (\<lambda>(reg_status, timeout::u32). ret (reg_status AND CMD_DONE = 0 \<and> timeout > 0))
      (\<lambda>(reg_status, timeout). bindM (rd32 h SDIO_STAT) (\<lambda>r. ret (r, timeout - 1))) v) (\<lambda>_ _. True) t" for v t
    by (rule countdown_returns [where cnt = snd]) (simp_all add: wp_simps split_beta)
  then show ?thesis
    unfolding r7_error_check_def wp_bindM wp_rd32
    by (rule wp_mono) (auto simp: wp_simps sdio_flag_clear_def)
qed

section \<open>The command register\<close>

lemma bit_BIT: "bit (push_bit k 1 :: int) n \<longleftrightarrow> n = k"
  by (subst bit_push_bit_iff) (auto simp: bit_1_iff)

lemma bit_0x400: "bit (1024 :: int) n \<longleftrightarrow> n = 10"
  using bit_BIT [of 10 n] by simp

lemma bit_0x40: "bit (64 :: int) n \<longleftrightarrow> n = 6"
  using bit_BIT [of 6 n] by simp

lemma cmdctl_value:
  fixes v cc :: u32
  assumes cc: "cc < 64" and r: "resp = 0 \<or> resp = 0x40 \<or> resp = 0xC0"
  shows "((((v AND NOT (BIT 10)) AND NOT 0xFF) OR (cc OR resp)) AND NOT 0x300) OR BIT 10
       = (v AND NOT 0x7FF) OR cc OR resp OR BIT 10"
proof -
  have m: "(0xFF :: u32) = mask 8" "(0x7FF :: u32) = mask 11" "(0x300 :: u32) = push_bit 8 (mask 2)"
    by (simp_all add: mask_eq_exp_minus_1)
  have "cc = take_bit 6 cc"
    using cc by (simp add: word_unat_eq_iff unsigned_take_bit_eq take_bit_nat_eq_self word_less_nat_alt)
  then have c: "bit cc n \<Longrightarrow> n < 6" for n
    by (metis bit_take_bit_iff)
  have rr: "resp = 0 \<or> resp = BIT 6 \<or> resp = push_bit 6 (mask 2)"
    using r by (simp add: mask_eq_exp_minus_1)
  show ?thesis
    unfolding m by (rule bit_eqI) (use rr in \<open>auto simp: bit_simps bit_0x40 bit_0x400 dest: c\<close>)
qed
lemma sd_command_registers:
  fixes s :: "'z bus_scheme"
  assumes st: "storage_reg h SDIO_CMDCTL rst"
  shows "wp (sd_command h c arg resp)
           (\<lambda>_ s'. last_wr SDIO_CMDAGMT (iolog s') = Some arg \<and>
              last_wr SDIO_CMDCTL (iolog s') =
                Some (((((h (iolog s) SDIO_CMDCTL AND NOT (BIT 10)) AND NOT 0xFF) OR (ucast c OR resp)) AND NOT 0x300) OR BIT 10)) s"
proof -
  have h: "h l SDIO_CMDCTL = (case last_wr SDIO_CMDCTL l of None \<Rightarrow> rst | Some v \<Rightarrow> v)" for l
    using st by (simp add: storage_reg_def)
  have neq: "SDIO_CMDAGMT \<noteq> SDIO_CMDCTL" "SDIO_CMDCTL \<noteq> SDIO_CMDAGMT" by (simp_all add: sdio_regs)
  have b: "BITS 0 5 OR BITS 6 7 = 0xFF" "BIT 8 OR BIT 9 = (0x300 :: u32)"
    by (simp_all add: BITS_def drop_bit_eq_div)
  show ?thesis
    unfolding sd_command_def sdio_command_response_config_def sdio_wait_type_set_def sdio_csm_enable_def bits_defs
    by (simp add: wp_simps h neq b del: push_bit_numeral push_bit_of_1 )
qed

section \<open>Properties\<close>

text \<open>
  Every R1 check returns as soon as the card answers at all, changes no variable of the driver, and
  its status is the one the hardware showed: a CRC error or a timeout of the status register, in
  this order; an illegal command if the response belongs to another command; otherwise \<open>SD_OK\<close>
  exactly if no error bit of the response is set, and the error type of the response if one is.
\<close>

theorem r1_error_check_outcome:
  assumes "card_answers h"
  shows "wp (r1_error_check h c) (\<lambda>st s'. log_ext s s' \<and> r1_outcome c st (iolog s')) s"
proof -
  have "wp (r1_error_check h c) (\<lambda>_ _. True) s"
    unfolding r1_error_check_def wp_bindM
    by (rule wp_wait_response [OF assms])
      (auto simp: wp_simps sdio_flag_clear_def sdio_command_index_get_def sdio_response_get_def)
  from wp_conj [OF this wlp_r1_error_check] show ?thesis by (rule wp_mono) simp
qed

text \<open>Hardware that answers every command at once, with the response word \<open>r\<close> for command \<open>c\<close>.\<close>

definition demo_card :: "u8 \<Rightarrow> u32 \<Rightarrow> hw" where
  "demo_card c r l a =
     (if a = SDIO_STAT then BIT 6 else if a = SDIO_RSPCMDIDX then ucast c else if a = SDIO_RESP0 then r else 0)"

lemma demo_card_answers: "card_answers (demo_card c r)"
  by (simp add: card_answers_def responds_def demo_card_def CMD_DONE_iff bit_simps)

theorem r1_error_check_outcome_witness:
  "wp (r1_error_check (demo_card 16 0x900) 16) (\<lambda>st s'. r1_outcome 16 st (iolog s')) \<lparr>iolog = []\<rparr>"
  by (rule wp_mono [OF r1_error_check_outcome [OF demo_card_answers]]) simp

text \<open>
  the classification of an R1 response is complete and agrees with the driver's error mask. A
  response with no bit of \<open>SD_R1_ERROR_BITS\<close> is classified as \<open>SD_ERROR\<close>; with any of them set, the
  result is the error of the most significant set error bit; \<open>SD_OK\<close> is never returned.
\<close>

theorem r1_error_type_is_most_significant:
  "r1_error_type_check r \<noteq> SD_OK \<and>
   (if r AND SD_R1_ERROR_BITS = 0 then r1_error_type_check r = SD_ERROR
    else \<exists>n e. (n, e) \<in> set r1_errors \<and> bit r n \<and> r1_error_type_check r = e \<and>
           (\<forall>m \<in> fst ` set r1_errors. bit r m \<longrightarrow> m \<le> n))"
proof -
  have "\<forall>n \<in> fst ` set es. \<not> bit r n \<Longrightarrow> first_error es r = SD_ERROR" for es
    by (induction es) auto
  moreover have "sorted_wrt (>) (map fst r1_errors)" by (simp add: r1_errors_def)
  ultimately show ?thesis
    using first_error_cases [of r1_errors r] r1_mask_bits [of r] r1_error_type_not_ok [of r]
    by (auto simp: r1_error_type_first)
qed

theorem r1_error_type_is_most_significant_witness:
  "r1_error_type_check 0x00480000 \<noteq> SD_OK \<and>
   (\<exists>n e. (n, e) \<in> set r1_errors \<and> bit (0x00480000 :: u32) n \<and> r1_error_type_check 0x00480000 = e)"
  using r1_error_type_is_most_significant [of "0x00480000"] by (auto simp: SD_R1_ERROR_BITS_def)

text \<open>
  the two checks that run before a card is known to be present, of CMD0 and of CMD8, return for
  every behaviour of the hardware: they give up after 100000 turns.
\<close>

theorem presence_checks_always_return:
  "cmdsent_error_check h s \<noteq> None \<and> r7_error_check h s \<noteq> None"
  using cmdsent_error_check_returns [of h s] r7_error_check_returns [of h s] by (auto simp: wp_def)

text \<open>
  a command reaches the SDIO registers as it was given. If the command register keeps what is
  written to it, then after \<open>sd_command\<close> the argument register was last written with the argument, and the
  command register with the index, the response type, the enable bit, no wait bits, and its upper
  bits as they were.
\<close>

theorem sd_command_programs_registers:
  assumes "storage_reg h SDIO_CMDCTL rst" "c < 64"
    and "resp \<in> {SDIO_RESPONSETYPE_NO, SDIO_RESPONSETYPE_SHORT, SDIO_RESPONSETYPE_LONG}"
  shows "wp (sd_command h c arg resp)
           (\<lambda>_ s'. last_wr SDIO_CMDAGMT (iolog s') = Some arg \<and>
              last_wr SDIO_CMDCTL (iolog s') =
                Some ((h (iolog s) SDIO_CMDCTL AND NOT 0x7FF) OR ucast c OR resp OR BIT 10)) s"
proof -
  have "(ucast c :: u32) < 64"
    using assms(2) by (simp add: word_less_nat_alt unsigned_ucast_eq take_bit_nat_eq_self)
  moreover have "resp = 0 \<or> resp = 0x40 \<or> resp = 0xC0"
    using assms(3) by (simp add: SDIO_RESPONSETYPE_NO_def SDIO_RESPONSETYPE_SHORT_def SDIO_RESPONSETYPE_LONG_def)
  ultimately show ?thesis
    using sd_command_registers [OF assms(1), of c arg resp s] by (simp only: cmdctl_value)
qed

definition storage_hw :: hw where
  "storage_hw l a = (case last_wr a l of None \<Rightarrow> 0 | Some v \<Rightarrow> v)"

theorem sd_command_programs_registers_witness:
  "wp (sd_command storage_hw SD_CMD_SEND_CSD 0x12340000 SDIO_RESPONSETYPE_LONG)
      (\<lambda>_ s'. last_wr SDIO_CMDAGMT (iolog s') = Some 0x12340000 \<and>
         last_wr SDIO_CMDCTL (iolog s') = Some ((0 AND NOT 0x7FF) OR ucast SD_CMD_SEND_CSD OR 0xC0 OR BIT 10)) \<lparr>iolog = []\<rparr>"
proof -
  have "storage_reg storage_hw SDIO_CMDCTL 0" by (simp add: storage_reg_def storage_hw_def)
  from sd_command_programs_registers [OF this, of SD_CMD_SEND_CSD SDIO_RESPONSETYPE_LONG "0x12340000" "\<lparr>iolog = []\<rparr>"]
  show ?thesis by (simp add: storage_hw_def SDIO_RESPONSETYPE_LONG_def)
qed

end
