(* ===== verification/Sd_Info.thy ===== *)
theory Sd_Info
  imports Sd_Command
begin

text \<open>
  The decoding of the card's CID and CSD registers in \<open>sdcard.c\<close>: \<open>sd_card_capacity_get\<close> and
  \<open>sd_card_information_get\<close>. The specification is the SD physical layer's table of fields of the two
  128-bit registers; the properties say which fields the byte juggling of the driver decodes as
  that table says, and which it does not.
\<close>

section \<open>The code\<close>

record sd_cid_struct =
  mid :: u8
  oid :: u16
  pnm0 :: u32
  pnm1 :: u8
  prv :: u8
  psn :: u32
  mdt :: u16
  cid_crc :: u8

record sd_csd_struct =
  csd_struct :: u8
  taac :: u8
  nsac :: u8
  tran_speed :: u8
  ccc :: u16
  read_bl_len :: u8
  read_bl_partial :: u8
  write_blk_misalign :: u8
  read_blk_misalign :: u8
  dsp_imp :: u8
  c_size :: u32
  vdd_r_curr_min :: u8
  vdd_r_curr_max :: u8
  vdd_w_curr_min :: u8
  vdd_w_curr_max :: u8
  c_size_mult :: u8
  erase_blk_en :: u8
  sector_size :: u8
  wp_grp_size :: u8
  wp_grp_enable :: u8
  r2w_factor :: u8
  write_bl_len :: u8
  write_bl_partial :: u8
  file_format_grp :: u8
  copy_flag :: u8
  perm_write_protect :: u8
  tmp_write_protect :: u8
  file_format :: u8
  csd_crc :: u8

record sd_card_info =
  card_cid :: sd_cid_struct
  card_csd :: sd_csd_struct
  card_type :: sdio_card_type
  card_capacity :: u32
  card_blocksize :: u32
  card_rca :: u16

text \<open>\<open>(uint8_t)((x & SD_MASK_24_31BITS) >> 24)\<close> and so on.\<close>

definition byte3 :: "u32 \<Rightarrow> u8" where "byte3 x = ucast (drop_bit 24 (x AND 0xFF000000))"
definition byte2 :: "u32 \<Rightarrow> u8" where "byte2 x = ucast (drop_bit 16 (x AND 0x00FF0000))"
definition byte1 :: "u32 \<Rightarrow> u8" where "byte1 x = ucast (drop_bit 8 (x AND 0x0000FF00))"
definition byte0 :: "u32 \<Rightarrow> u8" where "byte0 x = ucast (x AND 0x000000FF)"

definition std_capacity_kb :: "u32 list \<Rightarrow> u32" where
  "std_capacity_kb csd =
     (let devicesize = push_bit 10 (ucast (byte1 (csd ! 1) AND 0x03));
          devicesize = devicesize OR push_bit 2 (ucast (byte0 (csd ! 1)));
          devicesize = devicesize OR drop_bit 6 (ucast (byte3 (csd ! 2) AND 0xC0));
          devicesize_mult = push_bit 1 (byte2 (csd ! 2) AND 0x03);
          devicesize_mult = devicesize_mult OR drop_bit 7 (byte1 (csd ! 2) AND 0x80);
          readblklen = byte2 (csd ! 1) AND 0x0F;
          capacity = (devicesize + 1) * push_bit (unat devicesize_mult + 2) 1;
          capacity = capacity * push_bit (unat readblklen) 1
      in capacity div 1024)"

definition high_capacity_kb :: "u32 list \<Rightarrow> u32" where
  "high_capacity_kb csd =
     (let devicesize = push_bit 16 (ucast (byte0 (csd ! 1) AND 0x3F));
          devicesize = devicesize OR push_bit 8 (ucast (byte3 (csd ! 2)));
          devicesize = devicesize OR ucast (byte2 (csd ! 2))
      in (devicesize + 1) * 512)"

definition sd_card_capacity_get :: "'z sdcard_scheme \<Rightarrow> u32" where
  "sd_card_capacity_get s =
     (if std_capacity (cardtype s) then std_capacity_kb (sd_csd s)
      else if cardtype s = SDIO_HIGH_CAPACITY_SD_CARD then high_capacity_kb (sd_csd s)
      else 0)"

text \<open>\<open>sd_card_information_get\<close> in the order of the source: CID, the common head of the CSD, the two
  versions of its middle part, and its tail. The local \<open>tempbyte\<close> is passed on explicitly.\<close>

definition info_cid :: "u32 list \<Rightarrow> sd_cid_struct \<Rightarrow> sd_cid_struct" where
  "info_cid cid p =
     (let p = p\<lparr>mid := byte3 (cid ! 0)\<rparr>;
          p = p\<lparr>oid := push_bit 8 (ucast (byte2 (cid ! 0)))\<rparr>;
          p = p\<lparr>oid := oid p OR ucast (byte1 (cid ! 0))\<rparr>;
          p = p\<lparr>pnm0 := push_bit 24 (ucast (byte0 (cid ! 0)))\<rparr>;
          p = p\<lparr>pnm0 := pnm0 p OR push_bit 16 (ucast (byte3 (cid ! 1)))\<rparr>;
          p = p\<lparr>pnm0 := pnm0 p OR push_bit 8 (ucast (byte2 (cid ! 1)))\<rparr>;
          p = p\<lparr>pnm0 := pnm0 p OR ucast (byte1 (cid ! 1))\<rparr>;
          p = p\<lparr>pnm1 := byte0 (cid ! 1)\<rparr>;
          p = p\<lparr>prv := byte3 (cid ! 2)\<rparr>;
          p = p\<lparr>psn := push_bit 24 (ucast (byte2 (cid ! 2)))\<rparr>;
          p = p\<lparr>psn := psn p OR push_bit 16 (ucast (byte1 (cid ! 2)))\<rparr>;
          p = p\<lparr>psn := psn p OR ucast (byte0 (cid ! 2))\<rparr>;
          p = p\<lparr>psn := psn p OR ucast (byte3 (cid ! 3))\<rparr>;
          p = p\<lparr>mdt := push_bit 8 (ucast (byte2 (cid ! 3) AND 0x0F))\<rparr>;
          p = p\<lparr>mdt := mdt p OR ucast (byte1 (cid ! 3))\<rparr>
      in p\<lparr>cid_crc := drop_bit 1 (byte0 (cid ! 3) AND 0xFE)\<rparr>)"

definition info_csd_head :: "u32 list \<Rightarrow> sd_csd_struct \<Rightarrow> sd_csd_struct \<times> u8" where
  "info_csd_head csd p =
     (let p = p\<lparr>csd_struct := drop_bit 6 (byte3 (csd ! 0) AND 0xC0)\<rparr>;
          p = p\<lparr>taac := byte2 (csd ! 0)\<rparr>;
          p = p\<lparr>nsac := byte1 (csd ! 0)\<rparr>;
          p = p\<lparr>tran_speed := byte0 (csd ! 0)\<rparr>;
          p = p\<lparr>ccc := push_bit 4 (ucast (byte3 (csd ! 1)))\<rparr>;
          tempbyte = byte2 (csd ! 1);
          p = p\<lparr>ccc := ccc p OR drop_bit 4 (ucast (tempbyte AND 0xF0)), read_bl_len := tempbyte AND 0x0F\<rparr>;
          tempbyte = byte1 (csd ! 1);
          p = p\<lparr>read_bl_partial := drop_bit 7 (tempbyte AND 0x80),
                write_blk_misalign := drop_bit 6 (tempbyte AND 0x40),
                read_blk_misalign := drop_bit 5 (tempbyte AND 0x20),
                dsp_imp := drop_bit 4 (tempbyte AND 0x10)\<rparr>
      in (p, tempbyte))"

definition info_std :: "u32 list \<Rightarrow> u8 \<Rightarrow> sd_card_info \<Rightarrow> sd_card_info \<times> u8" where
  "info_std csd tempbyte i =
     (let p = (card_csd i)\<lparr>c_size := push_bit 10 (ucast (tempbyte AND 0x03))\<rparr>;
          tempbyte = byte0 (csd ! 1);
          p = p\<lparr>c_size := c_size p OR push_bit 2 (ucast tempbyte)\<rparr>;
          tempbyte = byte3 (csd ! 2);
          p = p\<lparr>c_size := c_size p OR drop_bit 6 (ucast (tempbyte AND 0xC0)),
                vdd_r_curr_min := drop_bit 3 (tempbyte AND 0x38), vdd_r_curr_max := tempbyte AND 0x07\<rparr>;
          tempbyte = byte2 (csd ! 2);
          p = p\<lparr>vdd_w_curr_min := drop_bit 5 (tempbyte AND 0xE0), vdd_w_curr_max := drop_bit 2 (tempbyte AND 0x1C),
                c_size_mult := push_bit 1 (tempbyte AND 0x03)\<rparr>;
          tempbyte = byte1 (csd ! 2);
          p = p\<lparr>c_size_mult := c_size_mult p OR drop_bit 7 (tempbyte AND 0x80)\<rparr>;
          i = i\<lparr>card_csd := p, card_blocksize := push_bit (unat (read_bl_len p)) 1\<rparr>;
          i = i\<lparr>card_capacity := c_size p + 1\<rparr>;
          i = i\<lparr>card_capacity := card_capacity i * push_bit (unat (c_size_mult p) + 2) 1\<rparr>;
          i = i\<lparr>card_capacity := card_capacity i * card_blocksize i\<rparr>
      in (i, tempbyte))"

definition info_high :: "u32 list \<Rightarrow> sd_card_info \<Rightarrow> sd_card_info \<times> u8" where
  "info_high csd i =
     (let tempbyte = byte0 (csd ! 1);
          p = (card_csd i)\<lparr>c_size := push_bit 16 (ucast (tempbyte AND 0x3F))\<rparr>;
          tempbyte = byte3 (csd ! 2);
          p = p\<lparr>c_size := c_size p OR push_bit 8 (ucast tempbyte)\<rparr>;
          tempbyte = byte2 (csd ! 2);
          p = p\<lparr>c_size := c_size p OR ucast tempbyte\<rparr>;
          i = i\<lparr>card_csd := p, card_blocksize := 512\<rparr>;
          i = i\<lparr>card_capacity := (c_size p + 1) * 512 * 1024\<rparr>
      in (i, tempbyte))"

definition info_csd_tail :: "u32 list \<Rightarrow> u8 \<Rightarrow> sd_csd_struct \<Rightarrow> sd_csd_struct" where
  "info_csd_tail csd tempbyte p =
     (let p = p\<lparr>erase_blk_en := drop_bit 6 (tempbyte AND 0x40), sector_size := push_bit 1 (tempbyte AND 0x3F)\<rparr>;
          tempbyte = byte0 (csd ! 2);
          p = p\<lparr>sector_size := sector_size p OR drop_bit 7 (tempbyte AND 0x80), wp_grp_size := tempbyte AND 0x7F\<rparr>;
          tempbyte = byte3 (csd ! 3);
          p = p\<lparr>wp_grp_enable := drop_bit 7 (tempbyte AND 0x80), r2w_factor := drop_bit 2 (tempbyte AND 0x1C),
                write_bl_len := push_bit 2 (tempbyte AND 0x03)\<rparr>;
          tempbyte = byte2 (csd ! 3);
          p = p\<lparr>write_bl_len := write_bl_len p OR drop_bit 6 (tempbyte AND 0xC0),
                write_bl_partial := drop_bit 5 (tempbyte AND 0x20)\<rparr>;
          tempbyte = byte1 (csd ! 3);
          p = p\<lparr>file_format_grp := drop_bit 7 (tempbyte AND 0x80), copy_flag := drop_bit 6 (tempbyte AND 0x40),
                perm_write_protect := drop_bit 5 (tempbyte AND 0x20), tmp_write_protect := drop_bit 4 (tempbyte AND 0x10),
                file_format := drop_bit 2 (tempbyte AND 0x0C)\<rparr>;
          tempbyte = byte0 (csd ! 3)
      in p\<lparr>csd_crc := drop_bit 1 (tempbyte AND 0xFE)\<rparr>)"

text \<open>A null pointer is \<open>None\<close>.\<close>

definition sd_card_information_get :: "sd_card_info option \<Rightarrow> 'z sdcard_scheme \<Rightarrow> sd_error \<times> sd_card_info option" where
  "sd_card_information_get pcardinfo s =
     (case pcardinfo of None \<Rightarrow> (SD_PARAMETER_INVALID, None)
      | Some i \<Rightarrow>
         let i = i\<lparr>card_type := cardtype s, card_rca := sd_rca s\<rparr>;
             i = i\<lparr>card_cid := info_cid (sd_cid s) (card_cid i)\<rparr>;
             (p, tempbyte) = info_csd_head (sd_csd s) (card_csd i);
             i = i\<lparr>card_csd := p\<rparr>;
             (i, tempbyte) =
               (if std_capacity (cardtype s) then info_std (sd_csd s) tempbyte i
                else if cardtype s = SDIO_HIGH_CAPACITY_SD_CARD then info_high (sd_csd s) i
                else (i, tempbyte))
         in (SD_OK, Some (i\<lparr>card_csd := info_csd_tail (sd_csd s) tempbyte (card_csd i)\<rparr>)))"

section \<open>Specification: fields of a 128-bit register\<close>

text \<open>Word 0 holds the most significant bits, as the SDIO peripheral stores a long response.\<close>

definition reg_bit :: "u32 list \<Rightarrow> nat \<Rightarrow> bool" where
  "reg_bit r n = bit (r ! (3 - n div 32)) (n mod 32)"

text \<open>\<open>is_field r hi lo x\<close>: the word \<open>x\<close> is the field \<open>[hi:lo]\<close> of the register.\<close>

definition is_field :: "u32 list \<Rightarrow> nat \<Rightarrow> nat \<Rightarrow> 'a::len word \<Rightarrow> bool" where
  "is_field r hi lo x \<longleftrightarrow> (\<forall>n < LENGTH('a). bit x n = (n \<le> hi - lo \<and> reg_bit r (lo + n)))"

definition field_val :: "u32 list \<Rightarrow> nat \<Rightarrow> nat \<Rightarrow> nat" where
  "field_val r hi lo = horner_sum of_bool 2 (map (\<lambda>n. reg_bit r (lo + n)) [0..<hi - lo + 1])"

lemma bit_bytes [simp]:
  "bit (byte3 x) n \<longleftrightarrow> n < 8 \<and> bit x (n + 24)" "bit (byte2 x) n \<longleftrightarrow> n < 8 \<and> bit x (n + 16)"
  "bit (byte1 x) n \<longleftrightarrow> n < 8 \<and> bit x (n + 8)" "bit (byte0 x) n \<longleftrightarrow> n < 8 \<and> bit x n"
proof -
  have m: "(0xFF000000 :: u32) = push_bit 24 (mask 8)" "(0x00FF0000 :: u32) = push_bit 16 (mask 8)"
    "(0x0000FF00 :: u32) = push_bit 8 (mask 8)" "(0x000000FF :: u32) = mask 8"
    by (simp_all add: mask_eq_exp_minus_1)
  show "bit (byte3 x) n \<longleftrightarrow> n < 8 \<and> bit x (n + 24)" "bit (byte2 x) n \<longleftrightarrow> n < 8 \<and> bit x (n + 16)"
    "bit (byte1 x) n \<longleftrightarrow> n < 8 \<and> bit x (n + 8)" "bit (byte0 x) n \<longleftrightarrow> n < 8 \<and> bit x n"
    unfolding byte3_def byte2_def byte1_def byte0_def m
    by (auto simp: bit_simps ac_simps)
qed

lemma all_less_8: "(\<forall>n < (8::nat). P n) \<longleftrightarrow> P 0 \<and> P 1 \<and> P 2 \<and> P 3 \<and> P 4 \<and> P 5 \<and> P 6 \<and> P 7"
  by (simp add: eval_nat_numeral All_less_Suc) blast

lemma all_less_16: "(\<forall>n < (16::nat). P n) \<longleftrightarrow> (\<forall>n < 8. P n) \<and> (\<forall>n < 8. P (n + 8))"
proof safe
  fix n :: nat assume "\<forall>n < 8. P n" "\<forall>n < 8. P (n + 8)" "n < 16"
  then show "P n" by (cases "n < 8") (auto dest: spec [of _ "n - 8"])
qed auto

lemma all_less_32: "(\<forall>n < (32::nat). P n) \<longleftrightarrow> (\<forall>n < 16. P n) \<and> (\<forall>n < 16. P (n + 16))"
proof safe
  fix n :: nat assume "\<forall>n < 16. P n" "\<forall>n < 16. P (n + 16)" "n < 32"
  then show "P n" by (cases "n < 16") (auto dest: spec [of _ "n - 16"])
qed auto

lemma bit_times_2: "bit (x * 2 :: u8) n \<longleftrightarrow> 0 < n \<and> n < 8 \<and> bit x (n - 1)"
  by (auto simp: mult.commute [of x 2] bit_double_iff)

lemmas decode_field = bit_times_2 is_field_def reg_bit_def all_less_8 all_less_16 all_less_32 bit_simps

text \<open>A field as a number.\<close>

lemma bits_eq_value:
  fixes x :: "'a::len word"
  assumes "\<forall>n < LENGTH('a). bit x n = (n < w \<and> b n)" "w \<le> LENGTH('a)"
  shows "unat x = horner_sum of_bool 2 (map b [0..<w])"
proof -
  have "take_bit w (unat x) = unat x"
    by (rule bit_eqI) (use assms in \<open>auto simp: bit_simps bit_unsigned_iff dest: bit_imp_le_length\<close>)
  moreover have "map (bit (unat x)) [0..<w] = map b [0..<w]"
    using assms by (auto simp: bit_unsigned_iff bit_simps)
  ultimately show ?thesis
    using horner_sum_bit_eq_take_bit [of "unat x" w] by (simp del: map_eq_conv)
qed

lemma field_value: "is_field r hi lo (x :: 'a::len word) \<Longrightarrow> hi - lo < LENGTH('a) \<Longrightarrow> unat x = field_val r hi lo"
  unfolding is_field_def field_val_def
  by (rule bits_eq_value) (auto simp: less_Suc_eq_le)

lemma field_val_less: "field_val r hi lo < 2 ^ (hi - lo + 1)"
proof -
  have "field_val r hi lo = take_bit (hi - lo + 1) (field_val r hi lo)"
    unfolding field_val_def by (rule bit_eqI) (auto simp: bit_simps bit_horner_sum_bit_iff)
  then show ?thesis by (metis take_bit_nat_less_exp)
qed

section \<open>Capacity\<close>

abbreviation "csd1_c_size csd \<equiv> field_val csd 73 62"
abbreviation "csd1_c_size_mult csd \<equiv> field_val csd 49 47"
abbreviation "csd_read_bl_len csd \<equiv> field_val csd 83 80"
abbreviation "csd2_c_size csd \<equiv> field_val csd 69 48"

lemma std_c_size_field:
  "is_field csd 73 62 ((push_bit 10 (ucast (byte1 (csd ! 1) AND 0x03)) OR push_bit 2 (ucast (byte0 (csd ! 1))))
     OR drop_bit 6 (ucast (byte3 (csd ! 2) AND 0xC0)) :: u32)"
  by (simp add: decode_field)

lemma std_c_size_mult_field:
  "is_field csd 49 47 (push_bit 1 (byte2 (csd ! 2) AND 0x03) OR drop_bit 7 (byte1 (csd ! 2) AND 0x80))"
  by (simp add: decode_field)

lemma read_bl_len_field: "is_field csd 83 80 (byte2 (csd ! 1) AND 0x0F)"
  by (simp add: decode_field)

lemma high_c_size_field:
  "is_field csd 69 48 ((push_bit 16 (ucast (byte0 (csd ! 1) AND 0x3F)) OR push_bit 8 (ucast (byte3 (csd ! 2))))
     OR ucast (byte2 (csd ! 2)) :: u32)"
  by (simp add: decode_field)

lemma unat_mult_small: "unat (x::u32) * unat y < 2 ^ 32 \<Longrightarrow> unat (x * y) = unat x * unat y"
  by (subst unat_mult_lem [THEN iffD1]) simp_all

lemma unat_mult_mod: "unat ((x::u32) * y) = (unat x * unat y) mod 2 ^ 32"
  by (simp add: unat_word_ariths)

lemma unat_BIT: "n < 32 \<Longrightarrow> unat (push_bit n 1 :: u32) = 2 ^ n"
  by (subst unsigned_push_bit_eq) (simp_all add: take_bit_nat_eq_self push_bit_eq_mult)

text \<open>The capacity of a standard card in bytes, as the specification defines it.\<close>

definition csd1_bytes :: "u32 list \<Rightarrow> nat" where
  "csd1_bytes csd = (csd1_c_size csd + 1) * 2 ^ (csd1_c_size_mult csd + 2) * 2 ^ csd_read_bl_len csd"

lemma std_bytes:
  fixes csd :: "u32 list"
  defines "c \<equiv> (push_bit 10 (ucast (byte1 (csd ! 1) AND 0x03)) OR push_bit 2 (ucast (byte0 (csd ! 1))))
     OR drop_bit 6 (ucast (byte3 (csd ! 2) AND 0xC0)) :: u32"
    and "m \<equiv> push_bit 1 (byte2 (csd ! 2) AND 0x03) OR drop_bit 7 (byte1 (csd ! 2) AND 0x80)"
    and "b \<equiv> byte2 (csd ! 1) AND 0x0F"
  assumes lt: "csd1_bytes csd < 2 ^ 32"
  shows "unat ((c + 1) * push_bit (unat m + 2) 1 * push_bit (unat b) 1) = csd1_bytes csd"
proof -
  have v: "unat c = csd1_c_size csd" "unat m = csd1_c_size_mult csd" "unat b = csd_read_bl_len csd"
    unfolding c_def m_def b_def
    by (rule field_value [OF std_c_size_field] field_value [OF std_c_size_mult_field]
        field_value [OF read_bl_len_field], simp)+
  have small: "csd1_c_size csd < 2 ^ 12" "csd1_c_size_mult csd < 8" "csd_read_bl_len csd < 16"
    using field_val_less [of csd 73 62] field_val_less [of csd 49 47] field_val_less [of csd 83 80] by simp_all
  have c1: "unat (c + 1) = csd1_c_size csd + 1"
    using small(1) v(1) by (subst u32_plus_one_unat) simp_all
  have p1: "unat (push_bit (unat m + 2) 1 :: u32) = 2 ^ (csd1_c_size_mult csd + 2)"
    and p2: "unat (push_bit (unat b) 1 :: u32) = 2 ^ csd_read_bl_len csd"
    using small v by (subst unat_BIT; simp)+
  have "(csd1_c_size csd + 1) * 2 ^ (csd1_c_size_mult csd + 2) < 2 ^ 32"
    using lt unfolding csd1_bytes_def by (rule le_less_trans [rotated]) simp
  then have "unat ((c + 1) * push_bit (unat m + 2) 1) = (csd1_c_size csd + 1) * 2 ^ (csd1_c_size_mult csd + 2)"
    using c1 p1 by (subst unat_mult_small) simp_all
  then show ?thesis
    using p2 lt by (subst unat_mult_small) (simp_all add: csd1_bytes_def)
qed

lemma high_units:
  fixes csd :: "u32 list"
  defines "c \<equiv> (push_bit 16 (ucast (byte0 (csd ! 1) AND 0x3F)) OR push_bit 8 (ucast (byte3 (csd ! 2))))
     OR ucast (byte2 (csd ! 2)) :: u32"
  shows "unat (c + 1) = csd2_c_size csd + 1" "unat ((c + 1) * 512) = (csd2_c_size csd + 1) * 512"
proof -
  have v: "unat c = csd2_c_size csd" unfolding c_def by (rule field_value [OF high_c_size_field]) simp
  have small: "csd2_c_size csd < 2 ^ 22" using field_val_less [of csd 69 48] by simp
  show c: "unat (c + 1) = csd2_c_size csd + 1" using small v by (subst u32_plus_one_unat) simp_all
  show "unat ((c + 1) * 512) = (csd2_c_size csd + 1) * 512"
    using small c by (subst unat_mult_small) simp_all
qed

section \<open>The CSD register\<close>

text \<open>The fields that both versions of the CSD register share, with their positions.\<close>

definition csd_common :: "u32 list \<Rightarrow> sd_csd_struct \<Rightarrow> bool" where
  "csd_common csd p \<longleftrightarrow>
     is_field csd 127 126 (csd_struct p) \<and> is_field csd 119 112 (taac p) \<and> is_field csd 111 104 (nsac p) \<and>
     is_field csd 103 96 (tran_speed p) \<and> is_field csd 95 84 (ccc p) \<and> is_field csd 83 80 (read_bl_len p) \<and>
     is_field csd 79 79 (read_bl_partial p) \<and> is_field csd 78 78 (write_blk_misalign p) \<and>
     is_field csd 77 77 (read_blk_misalign p) \<and> is_field csd 76 76 (dsp_imp p) \<and>
     is_field csd 38 32 (wp_grp_size p) \<and> is_field csd 31 31 (wp_grp_enable p) \<and> is_field csd 28 26 (r2w_factor p) \<and>
     is_field csd 25 22 (write_bl_len p) \<and> is_field csd 21 21 (write_bl_partial p) \<and>
     is_field csd 15 15 (file_format_grp p) \<and> is_field csd 14 14 (copy_flag p) \<and>
     is_field csd 13 13 (perm_write_protect p) \<and> is_field csd 12 12 (tmp_write_protect p) \<and>
     is_field csd 11 10 (file_format p) \<and> is_field csd 7 1 (csd_crc p)"

lemma csd_common_tail:
  assumes "csd_struct p = csd_struct q" "taac p = taac q" "nsac p = nsac q" "tran_speed p = tran_speed q" "ccc p = ccc q"
    "read_bl_len p = read_bl_len q" "read_bl_partial p = read_bl_partial q" "write_blk_misalign p = write_blk_misalign q"
    "read_blk_misalign p = read_blk_misalign q" "dsp_imp p = dsp_imp q" "q = fst (info_csd_head csd p0)"
  shows "csd_common csd (info_csd_tail csd tb p)"
proof -
  let ?t = "info_csd_tail csd tb p"
  have "is_field csd 127 126 (csd_struct ?t)" "is_field csd 119 112 (taac ?t)" "is_field csd 111 104 (nsac ?t)"
     "is_field csd 103 96 (tran_speed ?t)" "is_field csd 95 84 (ccc ?t)" "is_field csd 83 80 (read_bl_len ?t)"
     "is_field csd 79 79 (read_bl_partial ?t)" "is_field csd 78 78 (write_blk_misalign ?t)"
     "is_field csd 77 77 (read_blk_misalign ?t)" "is_field csd 76 76 (dsp_imp ?t)"
    by (simp_all add: info_csd_tail_def info_csd_head_def assms Let_def decode_field)
  moreover have "is_field csd 38 32 (wp_grp_size ?t)" "is_field csd 31 31 (wp_grp_enable ?t)" "is_field csd 28 26 (r2w_factor ?t)"
     "is_field csd 25 22 (write_bl_len ?t)" "is_field csd 21 21 (write_bl_partial ?t)"
     "is_field csd 15 15 (file_format_grp ?t)" "is_field csd 14 14 (copy_flag ?t)"
     "is_field csd 13 13 (perm_write_protect ?t)" "is_field csd 12 12 (tmp_write_protect ?t)"
     "is_field csd 11 10 (file_format ?t)" "is_field csd 7 1 (csd_crc ?t)"
    by (simp_all add: info_csd_tail_def Let_def decode_field)
  ultimately show ?thesis by (simp add: csd_common_def)
qed

lemma info_std_keeps:
  fixes i :: sd_card_info and csd tb
  defines "p \<equiv> card_csd (fst (info_std csd tb i))"
  shows "csd_struct p = csd_struct (card_csd i)" "taac p = taac (card_csd i)" "nsac p = nsac (card_csd i)"
    "tran_speed p = tran_speed (card_csd i)" "ccc p = ccc (card_csd i)" "read_bl_len p = read_bl_len (card_csd i)"
    "read_bl_partial p = read_bl_partial (card_csd i)" "write_blk_misalign p = write_blk_misalign (card_csd i)"
    "read_blk_misalign p = read_blk_misalign (card_csd i)" "dsp_imp p = dsp_imp (card_csd i)"
  by (simp_all add: p_def info_std_def Let_def)

lemma info_high_keeps:
  fixes i :: sd_card_info and csd
  defines "p \<equiv> card_csd (fst (info_high csd i))"
  shows "csd_struct p = csd_struct (card_csd i)" "taac p = taac (card_csd i)" "nsac p = nsac (card_csd i)"
    "tran_speed p = tran_speed (card_csd i)" "ccc p = ccc (card_csd i)" "read_bl_len p = read_bl_len (card_csd i)"
    "read_bl_partial p = read_bl_partial (card_csd i)" "write_blk_misalign p = write_blk_misalign (card_csd i)"
    "read_blk_misalign p = read_blk_misalign (card_csd i)" "dsp_imp p = dsp_imp (card_csd i)"
  by (simp_all add: p_def info_high_def Let_def)

section \<open>Properties\<close>

text \<open>
  C28: \<open>sd_card_capacity_get\<close> is the capacity formula of the SD specification on the fields of the CSD
  register: for a standard capacity card \<open>(C_SIZE + 1) * 2^(C_SIZE_MULT + 2) * 2^READ_BL_LEN\<close> bytes,
  in units of 1024, as long as that is below 4 GiB; for a high capacity card \<open>(C_SIZE + 1) * 512\<close>
  KiB, for every value of the register.
\<close>

theorem capacity_matches_csd:
  "(std_capacity (cardtype s) \<longrightarrow> csd1_bytes (sd_csd s) < 2 ^ 32 \<longrightarrow>
      unat (sd_card_capacity_get s) = csd1_bytes (sd_csd s) div 1024) \<and>
   (cardtype s = SDIO_HIGH_CAPACITY_SD_CARD \<longrightarrow>
      unat (sd_card_capacity_get s) = (csd2_c_size (sd_csd s) + 1) * 512)"
proof (intro conjI impI)
  assume "std_capacity (cardtype s)" "csd1_bytes (sd_csd s) < 2 ^ 32"
  then show "unat (sd_card_capacity_get s) = csd1_bytes (sd_csd s) div 1024"
    unfolding sd_card_capacity_get_def std_capacity_kb_def Let_def by (simp only: if_True unat_div std_bytes) simp
next
  assume "cardtype s = SDIO_HIGH_CAPACITY_SD_CARD"
  then have "sd_card_capacity_get s = high_capacity_kb (sd_csd s)"
    by (simp add: sd_card_capacity_get_def)
  then show "unat (sd_card_capacity_get s) = (csd2_c_size (sd_csd s) + 1) * 512"
    using high_units(2) [of "sd_csd s"] by (simp only: high_capacity_kb_def Let_def)
qed

text \<open>A 2 GB standard card: \<open>C_SIZE = 0xFFF\<close>, \<open>C_SIZE_MULT = 7\<close>, \<open>READ_BL_LEN = 10\<close>.\<close>

definition demo_sd :: "sdio_card_type \<Rightarrow> u32 list \<Rightarrow> u32 list \<Rightarrow> sdcard" where
  "demo_sd t cid csd = \<lparr>iolog = [], sd_scr = [0, 0], cardtype = t, sd_csd = csd, sd_cid = cid, sd_rca = 1, transmode = 1,
     totalnumber_bytes = 0, stopcondition = 0, transerror = SD_OK, transend = 0, number_bytes = 0, ram = Map.empty\<rparr>"

lemma demo_csd_bytes: "csd1_bytes [0, 0x000A03FF, 0xC0038000, 0] = 2 ^ 31"
  by (simp add: csd1_bytes_def field_val_def reg_bit_def upt_rec [of _ "numeral _"] upt_rec [of _ "Suc _"])

theorem capacity_matches_csd_witness:
  "unat (sd_card_capacity_get (demo_sd SDIO_STD_CAPACITY_SD_CARD_V1_1 [0, 0, 0, 0] [0, 0x000A03FF, 0xC0038000, 0])) = 2 ^ 21"
  using capacity_matches_csd [of "demo_sd SDIO_STD_CAPACITY_SD_CARD_V1_1 [0, 0, 0, 0] [0, 0x000A03FF, 0xC0038000, 0]"]
  by (simp add: demo_sd_def demo_csd_bytes)

text \<open>
  The card identification register is decoded field by field as the specification says, except for
  the product serial number. That number is decoded correctly only if its third byte (byte 11 of the
  register) is zero, because this byte is not shifted into place.
\<close>

theorem cid_decoded_except_serial_number:
  "let p = info_cid cid p0 in
     is_field cid 127 120 (mid p) \<and> is_field cid 119 104 (oid p) \<and> is_field cid 103 72 (pnm0 p) \<and>
     is_field cid 71 64 (pnm1 p) \<and> is_field cid 63 56 (prv p) \<and> is_field cid 19 8 (mdt p) \<and>
     is_field cid 7 1 (cid_crc p) \<and>
     (is_field cid 55 24 (psn p) \<longleftrightarrow> byte0 (cid ! 2) = 0)"
proof -
  let ?p = "info_cid cid p0"
  have "is_field cid 127 120 (mid ?p)" "is_field cid 119 104 (oid ?p)" "is_field cid 103 72 (pnm0 ?p)"
    "is_field cid 71 64 (pnm1 ?p)" "is_field cid 63 56 (prv ?p)" "is_field cid 19 8 (mdt ?p)"
    "is_field cid 7 1 (cid_crc ?p)"
    by (simp_all add: info_cid_def Let_def decode_field)
  moreover have "byte0 (cid ! 2) = 0 \<longleftrightarrow> (\<forall>n < 8. \<not> bit (cid ! 2) n)"
    by (auto simp: bit_eq_iff)
  then have "is_field cid 55 24 (psn ?p) \<longleftrightarrow> byte0 (cid ! 2) = 0"
    by (auto simp: info_cid_def Let_def decode_field)
  ultimately show ?thesis by (simp add: Let_def)
qed

text \<open>
  For a standard capacity card every field of the card specific data register is decoded as the
  specification's table (CSD version 1.0) says, and type, address and block size are reported.
\<close>

theorem std_csd_decoded:
  assumes "std_capacity (cardtype s)"
  shows "\<exists>i'. sd_card_information_get (Some i) s = (SD_OK, Some i') \<and>
     card_type i' = cardtype s \<and> card_rca i' = sd_rca s \<and>
     unat (card_blocksize i') = 2 ^ csd_read_bl_len (sd_csd s) \<and>
     (let p = card_csd i'; csd = sd_csd s in
        csd_common csd p \<and> is_field csd 73 62 (c_size p) \<and> is_field csd 61 59 (vdd_r_curr_min p) \<and>
        is_field csd 58 56 (vdd_r_curr_max p) \<and> is_field csd 55 53 (vdd_w_curr_min p) \<and>
        is_field csd 52 50 (vdd_w_curr_max p) \<and> is_field csd 49 47 (c_size_mult p) \<and>
        is_field csd 46 46 (erase_blk_en p) \<and> is_field csd 45 39 (sector_size p))"
proof -
  let ?csd = "sd_csd s"
  define i0 where "i0 = i\<lparr>card_type := cardtype s, card_rca := sd_rca s, card_cid := info_cid (sd_cid s) (card_cid i)\<rparr>"
  define hd where "hd = info_csd_head ?csd (card_csd i0)"
  define st where "st = info_std ?csd (snd hd) (i0\<lparr>card_csd := fst hd\<rparr>)"
  define i' where "i' = (fst st)\<lparr>card_csd := info_csd_tail ?csd (snd st) (card_csd (fst st))\<rparr>"
  have run: "sd_card_information_get (Some i) s = (SD_OK, Some i')"
    using assms by (simp add: sd_card_information_get_def Let_def split_beta i'_def st_def hd_def i0_def)
  have bl: "unat (byte2 (?csd ! 1) AND 0x0F) = csd_read_bl_len ?csd" "csd_read_bl_len ?csd < 16"
    using field_value [OF read_bl_len_field, of ?csd] field_val_less [of ?csd 83 80] by simp_all
  have "card_type i' = cardtype s" "card_rca i' = sd_rca s"
    "card_blocksize i' = push_bit (unat (byte2 (?csd ! 1) AND 0x0F)) 1"
    by (simp_all add: i'_def st_def i0_def info_std_def Let_def hd_def info_csd_head_def)
  moreover have "csd_common ?csd (card_csd i')"
    using csd_common_tail [of "card_csd (fst st)" "fst hd" ?csd "card_csd i0" "snd st"]
    by (simp add: i'_def st_def info_std_keeps hd_def)
  moreover have "is_field ?csd 73 62 (c_size (card_csd i'))" "is_field ?csd 61 59 (vdd_r_curr_min (card_csd i'))"
    "is_field ?csd 58 56 (vdd_r_curr_max (card_csd i'))" "is_field ?csd 55 53 (vdd_w_curr_min (card_csd i'))"
    "is_field ?csd 52 50 (vdd_w_curr_max (card_csd i'))" "is_field ?csd 49 47 (c_size_mult (card_csd i'))"
    "is_field ?csd 46 46 (erase_blk_en (card_csd i'))" "is_field ?csd 45 39 (sector_size (card_csd i'))"
    by (simp_all add: i'_def st_def hd_def info_csd_head_def info_std_def info_csd_tail_def Let_def decode_field)
  ultimately show ?thesis
    using run bl unat_BIT [of "csd_read_bl_len ?csd"] by (simp add: Let_def)
qed

definition demo_info :: sd_card_info where
  "demo_info =
     \<lparr>card_cid = \<lparr>mid = 0, oid = 0, pnm0 = 0, pnm1 = 0, prv = 0, psn = 0, mdt = 0, cid_crc = 0\<rparr>,
      card_csd = \<lparr>csd_struct = 0, taac = 0, nsac = 0, tran_speed = 0, ccc = 0, read_bl_len = 0, read_bl_partial = 0,
        write_blk_misalign = 0, read_blk_misalign = 0, dsp_imp = 0, c_size = 0, vdd_r_curr_min = 0, vdd_r_curr_max = 0,
        vdd_w_curr_min = 0, vdd_w_curr_max = 0, c_size_mult = 0, erase_blk_en = 0, sector_size = 0, wp_grp_size = 0,
        wp_grp_enable = 0, r2w_factor = 0, write_bl_len = 0, write_bl_partial = 0, file_format_grp = 0, copy_flag = 0,
        perm_write_protect = 0, tmp_write_protect = 0, file_format = 0, csd_crc = 0\<rparr>,
      card_type = SDIO_STD_CAPACITY_SD_CARD_V1_1, card_capacity = 0, card_blocksize = 0, card_rca = 0\<rparr>"

theorem std_csd_decoded_witness:
  "\<exists>i'. sd_card_information_get (Some demo_info) (demo_sd SDIO_STD_CAPACITY_SD_CARD_V2_0 [0, 0, 0, 0] [0, 0x000A03FF, 0xC0038000, 0])
      = (SD_OK, Some i') \<and> unat (card_blocksize i') = 1024"
proof -
  have "csd_read_bl_len [0, 0x000A03FF, 0xC0038000, 0] = 10"
    by (simp add: field_val_def reg_bit_def upt_rec [of _ "numeral _"] upt_rec [of _ "Suc _"])
  then show ?thesis
    using std_csd_decoded [of "demo_sd SDIO_STD_CAPACITY_SD_CARD_V2_0 [0, 0, 0, 0] [0, 0x000A03FF, 0xC0038000, 0]" demo_info]
    by (auto simp: demo_sd_def Let_def)
qed

text \<open>
  For a high capacity card the fields common to both register versions and the 22 bit device size
  are decoded as the table for CSD version 2.0 says and the block size is 512. The capacity in bytes is a
  32 bit product, so it is reported modulo 4 GiB; and \<open>erase_blk_en\<close> and the upper six bits of
  \<open>sector_size\<close> are taken from bits 54 and 53 to 48 of the register, which belong to the device size,
  instead of bits 46 and 45 to 40.
\<close>

theorem high_csd_decoded:
  assumes "cardtype s = SDIO_HIGH_CAPACITY_SD_CARD"
  shows "\<exists>i'. sd_card_information_get (Some i) s = (SD_OK, Some i') \<and>
     card_type i' = cardtype s \<and> card_rca i' = sd_rca s \<and> card_blocksize i' = 512 \<and>
     unat (card_capacity i') = ((csd2_c_size (sd_csd s) + 1) * 2 ^ 19) mod 2 ^ 32 \<and>
     (let p = card_csd i'; csd = sd_csd s in
        csd_common csd p \<and> is_field csd 69 48 (c_size p) \<and> is_field csd 54 54 (erase_blk_en p) \<and>
        is_field csd 53 48 (drop_bit 1 (sector_size p)) \<and> bit (sector_size p) 0 = reg_bit csd 39)"
proof -
  let ?csd = "sd_csd s"
  define i0 where "i0 = i\<lparr>card_type := cardtype s, card_rca := sd_rca s, card_cid := info_cid (sd_cid s) (card_cid i)\<rparr>"
  define hd where "hd = info_csd_head ?csd (card_csd i0)"
  define st where "st = info_high ?csd (i0\<lparr>card_csd := fst hd\<rparr>)"
  define i' where "i' = (fst st)\<lparr>card_csd := info_csd_tail ?csd (snd st) (card_csd (fst st))\<rparr>"
  have run: "sd_card_information_get (Some i) s = (SD_OK, Some i')"
    using assms by (simp add: sd_card_information_get_def Let_def split_beta i'_def st_def hd_def i0_def)
  have "card_type i' = cardtype s" "card_rca i' = sd_rca s" "card_blocksize i' = 512"
    by (simp_all add: i'_def st_def i0_def info_high_def Let_def)
  moreover have "unat (card_capacity i') = ((csd2_c_size ?csd + 1) * 2 ^ 19) mod 2 ^ 32"
  proof -
    define c :: u32 where "c = (push_bit 16 (ucast (byte0 (?csd ! 1) AND 0x3F)) OR push_bit 8 (ucast (byte3 (?csd ! 2))))
      OR ucast (byte2 (?csd ! 2))"
    have "card_capacity i' = (c + 1) * 512 * 1024"
      unfolding i'_def st_def info_high_def Let_def c_def by simp
    moreover have "unat ((c + 1) * 512) = (csd2_c_size ?csd + 1) * 512"
      unfolding c_def by (rule high_units(2))
    ultimately have "unat (card_capacity i') = ((csd2_c_size ?csd + 1) * 512 * unat (1024 :: u32)) mod 2 ^ 32"
      by (simp only: unat_mult_mod [of "(c + 1) * 512" 1024])
    moreover have "n * 512 * unat (1024 :: u32) = n * 2 ^ 19" for n :: nat by simp
    ultimately show ?thesis by (simp only:)
  qed
  moreover have "csd_common ?csd (card_csd i')"
    using csd_common_tail [of "card_csd (fst st)" "fst hd" ?csd "card_csd i0" "snd st"]
    by (simp add: i'_def st_def info_high_keeps hd_def)
  moreover have "is_field ?csd 69 48 (c_size (card_csd i'))" "is_field ?csd 54 54 (erase_blk_en (card_csd i'))"
    "is_field ?csd 53 48 (drop_bit 1 (sector_size (card_csd i')))"
    "bit (sector_size (card_csd i')) 0 = reg_bit ?csd 39"
    by (simp_all add: i'_def st_def hd_def info_csd_head_def info_high_def info_csd_tail_def Let_def decode_field)
  ultimately show ?thesis
    using run by (simp add: Let_def)
qed

theorem high_csd_decoded_witness:
  "\<exists>i'. sd_card_information_get (Some demo_info) (demo_sd SDIO_HIGH_CAPACITY_SD_CARD [0, 0, 0, 0] [0, 0, 0x1FFF0000, 0])
      = (SD_OK, Some i') \<and> unat (card_capacity i') = 0"
proof -
  have "csd2_c_size [0, 0, 0x1FFF0000, 0] = 0x1FFF"
    by (simp add: field_val_def reg_bit_def upt_rec [of _ "numeral _"] upt_rec [of _ "Suc _"])
  then show ?thesis
    using high_csd_decoded [of "demo_sd SDIO_HIGH_CAPACITY_SD_CARD [0, 0, 0, 0] [0, 0, 0x1FFF0000, 0]" demo_info]
    by (auto simp: demo_sd_def Let_def)
qed

end
