(* ===== verification/Sd_Init.thy ===== *)
theory Sd_Init
  imports Sd_Command
begin

text \<open>
  Bringing a card up, from \<open>sdcard.c\<close>: \<open>sd_init\<close>, \<open>sd_power_on\<close>, \<open>sd_card_init\<close>, the bus width with the
  SCR register it depends on, and the configuration of clocks, pins and DMA. The properties say
  that a start ends on every card that lets the commands end, and how it ends without a card;
  \<open>Sd_Identify\<close> has the start of a card that works.
\<close>

section \<open>Clocks, pins and DMA\<close>

definition rcu_config :: "hw \<Rightarrow> ('z bus_scheme, unit) cm" where
  "rcu_config h =
     seqM [rcu_periph_clock_enable h (RCU_REGIDX_BIT 0x30 2),
           rcu_periph_clock_enable h (RCU_REGIDX_BIT 0x30 3),
           rcu_periph_clock_enable h (RCU_REGIDX_BIT 0x44 11),
           rcu_periph_clock_enable h (RCU_REGIDX_BIT 0x30 22)]"

definition gpio_config :: "hw \<Rightarrow> ('z bus_scheme, unit) cm" where
  "gpio_config h =
     seqM [gpio_af_set h GPIOC 12 (BIT 8 OR BIT 9 OR BIT 10 OR BIT 11 OR BIT 12),
           gpio_af_set h GPIOD 12 (BIT 2),
           gpio_mode_set h GPIOC 2 1 (BIT 8 OR BIT 9 OR BIT 10 OR BIT 11),
           gpio_output_options_set h GPIOC 0 1 (BIT 8 OR BIT 9 OR BIT 10 OR BIT 11),
           gpio_mode_set h GPIOC 2 0 (BIT 12),
           gpio_output_options_set h GPIOC 0 1 (BIT 12),
           gpio_mode_set h GPIOD 2 1 (BIT 2),
           gpio_output_options_set h GPIOD 0 1 (BIT 2)]"

text \<open>\<open>DMA_FLAG_FEE\<close>, \<open>SDE\<close>, \<open>TAE\<close>, \<open>HTF\<close> and \<open>FTF\<close>; the parameter \<open>bufsize\<close> is not used by the code.\<close>

definition DMA_FLAG_FTF :: u32 where "DMA_FLAG_FTF = BIT 5"

definition sdio_dma_parameter :: "u32 \<Rightarrow> u32 \<Rightarrow> dma_multi_data_parameter" where
  "sdio_dma_parameter buf dir =
     \<lparr>periph_addr = SDIO_FIFO, periph_width = push_bit 11 2, periph_inc = 1, memory0_addr = buf,
      memory_width = push_bit 13 2, memory_inc = 0, memory_burst_width = push_bit 23 1, periph_burst_width = push_bit 21 1,
      critical_value = 3, circular_mode = 1, direction = dir, number = 0, priority = push_bit 16 3\<rparr>"

definition dma_transfer_config :: "hw \<Rightarrow> u32 \<Rightarrow> u32 \<Rightarrow> ('z bus_scheme, unit) cm" where
  "dma_transfer_config h srcbuf bufsize =
     seqM [dma_flag_clear h DMA1 3 (BIT 0), dma_flag_clear h DMA1 3 (BIT 2), dma_flag_clear h DMA1 3 (BIT 3),
           dma_flag_clear h DMA1 3 (BIT 4), dma_flag_clear h DMA1 3 DMA_FLAG_FTF,
           dma_channel_disable h DMA1 3,
           dma_deinit h DMA1 3,
           dma_multi_data_mode_init h DMA1 3 (sdio_dma_parameter srcbuf (push_bit 6 1)),
           dma_flow_controller_config h DMA1 3 1,
           dma_channel_subperipheral_select h DMA1 3 4,
           dma_channel_enable h DMA1 3]"

definition dma_receive_config :: "hw \<Rightarrow> u32 \<Rightarrow> u32 \<Rightarrow> ('z bus_scheme, unit) cm" where
  "dma_receive_config h dstbuf bufsize =
     seqM [dma_flag_clear h DMA1 3 (BIT 0), dma_flag_clear h DMA1 3 (BIT 2), dma_flag_clear h DMA1 3 (BIT 3),
           dma_flag_clear h DMA1 3 (BIT 4), dma_flag_clear h DMA1 3 DMA_FLAG_FTF,
           dma_channel_disable h DMA1 3,
           dma_deinit h DMA1 3,
           dma_multi_data_mode_init h DMA1 3 (sdio_dma_parameter dstbuf 0),
           dma_flow_controller_config h DMA1 3 1,
           dma_channel_subperipheral_select h DMA1 3 4,
           dma_channel_enable h DMA1 3]"

section \<open>Power on and identification\<close>

definition SDIO_POWER_OFF :: u32 where "SDIO_POWER_OFF = 0"
definition SDIO_POWER_ON :: u32 where "SDIO_POWER_ON = 3"
definition SDIO_BUSMODE_1BIT :: u32 where "SDIO_BUSMODE_1BIT = 0"
definition SDIO_BUSMODE_4BIT :: u32 where "SDIO_BUSMODE_4BIT = 0x800"
definition SDIO_BUSMODE_8BIT :: u32 where "SDIO_BUSMODE_8BIT = 0x1000"
definition SD_CLK_DIV_INIT :: u16 where "SD_CLK_DIV_INIT = 0x76"
definition SD_CLK_DIV_TRANS :: u16 where "SD_CLK_DIV_TRANS = 2"

text \<open>The loop of \<open>sd_power_on\<close> that repeats CMD55 and ACMD41 until the card leaves its busy state. An
  error status ends it, as the \<open>return\<close> in its body does.\<close>

definition volt_validation :: "hw \<Rightarrow> u32 \<Rightarrow> ('z bus_scheme, sd_error \<times> u8 \<times> u32 \<times> u32) cm" where
  "volt_validation h sdcardtype =
     whileM (\<lambda>(status, busyflag, count, response).
         ret (status = SD_OK \<and> busyflag = 0 \<and> count < SD_MAX_VOLT_VALIDATION))
       (\<lambda>(status, busyflag, count, response).
          bindM (cmd_r1 h SD_CMD_APP_CMD 0) (\<lambda>status.
          if status \<noteq> SD_OK then ret (status, busyflag, count, response)
          else thenM (sd_command h SD_APPCMD_SD_SEND_OP_COND (SD_VOLTAGE_WINDOW OR sdcardtype) SDIO_RESPONSETYPE_SHORT)
         (bindM (r3_error_check h) (\<lambda>status.
          if status \<noteq> SD_OK then ret (status, busyflag, count, response)
          else bindM (sdio_response_get h 0) (\<lambda>response.
          ret (status, ucast (drop_bit 31 response AND 1), count + 1, response))))))
       (SD_OK, 0, 0, 0)"

definition sd_power_on :: "hw \<Rightarrow> ('z sdcard_scheme, sd_error) cm" where
  "sd_power_on h =
     thenM (seqM [sdio_clock_config h 0 0 0 SD_CLK_DIV_INIT,
                  sdio_bus_mode_set h SDIO_BUSMODE_1BIT,
                  sdio_hardware_clock_disable h,
                  sdio_power_state_set SDIO_POWER_ON,
                  sdio_clock_enable h,
                  sd_command h SD_CMD_GO_IDLE_STATE 0 SDIO_RESPONSETYPE_NO])
    (check_ok (cmdsent_error_check h)
    (thenM (sd_command h SD_CMD_SEND_IF_COND SD_CHECK_PATTERN SDIO_RESPONSETYPE_SHORT)
    (bindM (r7_error_check h) (\<lambda>r7.
     thenM (whenM (r7 = SD_OK) (modM (\<lambda>s. s\<lparr>cardtype := SDIO_STD_CAPACITY_SD_CARD_V2_0\<rparr>)))
    (let sdcardtype = (if r7 = SD_OK then SD_HIGH_CAPACITY else SD_STD_CAPACITY) in
     bindM (cmd_r1 h SD_CMD_APP_CMD 0) (\<lambda>r1.
     if r1 = SD_OK
     then bindM (volt_validation h sdcardtype) (\<lambda>(status, busyflag, count, response).
          if status \<noteq> SD_OK then ret status
          else if count \<ge> SD_MAX_VOLT_VALIDATION then ret SD_VOLTRANGE_INVALID
          else thenM (whenM (response AND SD_HIGH_CAPACITY \<noteq> 0) (modM (\<lambda>s. s\<lparr>cardtype := SDIO_HIGH_CAPACITY_SD_CARD\<rparr>)))
                     (ret status))
     else ret SD_OK))))))"

definition sd_power_off :: "('z sdcard_scheme, sd_error) cm" where
  "sd_power_off = thenM (sdio_power_state_set SDIO_POWER_OFF) (ret SD_OK)"

text \<open>The four response registers, read in order.\<close>

definition read_response :: "hw \<Rightarrow> ('z bus_scheme, u32 list) cm" where
  "read_response h =
     bindM (sdio_response_get h 0) (\<lambda>r0. bindM (sdio_response_get h 1) (\<lambda>r1.
     bindM (sdio_response_get h 2) (\<lambda>r2. bindM (sdio_response_get h 3) (\<lambda>r3. ret [r0, r1, r2, r3]))))"

definition card_init_cid :: "hw \<Rightarrow> ('z sdcard_scheme, sd_error) cm" where
  "card_init_cid h =
     thenM (sd_command h SD_CMD_ALL_SEND_CID 0 SDIO_RESPONSETYPE_LONG)
    (check_ok (r2_error_check h)
    (bindM (read_response h) (\<lambda>r. thenM (modM (\<lambda>s. s\<lparr>sd_cid := r\<rparr>)) (ret SD_OK))))"

definition card_init_csd :: "hw \<Rightarrow> u16 \<Rightarrow> ('z sdcard_scheme, sd_error) cm" where
  "card_init_csd h temp_rca =
     thenM (modM (\<lambda>s. s\<lparr>sd_rca := temp_rca\<rparr>))
    (thenM (sd_command h SD_CMD_SEND_CSD (rca_arg temp_rca) SDIO_RESPONSETYPE_LONG)
    (check_ok (r2_error_check h)
    (bindM (read_response h) (\<lambda>r. thenM (modM (\<lambda>s. s\<lparr>sd_csd := r\<rparr>)) (ret SD_OK)))))"

definition sd_card_init :: "hw \<Rightarrow> ('z sdcard_scheme, sd_error) cm" where
  "sd_card_init h =
     bindM (sdio_power_state_get h) (\<lambda>pwr.
     if pwr = SDIO_POWER_OFF then ret SD_OPERATION_IMPROPER
     else bindM (getM cardtype) (\<lambda>t.
     check_ok (if t \<noteq> SDIO_SECURE_DIGITAL_IO_CARD then card_init_cid h else ret SD_OK)
    (bindM (if sd_memory_card t \<or> t = SDIO_SECURE_DIGITAL_IO_COMBO_CARD
            then thenM (sd_command h SD_CMD_SEND_RELATIVE_ADDR 0 SDIO_RESPONSETYPE_SHORT)
                       (r6_error_check h SD_CMD_SEND_RELATIVE_ADDR 1)
            else ret (SD_OK, 1)) (\<lambda>(status, temp_rca).
     if status \<noteq> SD_OK then ret status
     else if t \<noteq> SDIO_SECURE_DIGITAL_IO_CARD then card_init_csd h temp_rca else ret status))))"

definition sd_init :: "hw \<Rightarrow> ('z sdcard_scheme, sd_error) cm" where
  "sd_init h =
     thenM (seqM [rcu_config h, gpio_config h, sdio_deinit h])
    (check_ok (sd_power_on h)
    (check_ok (sd_card_init h)
    (thenM (seqM [sdio_clock_config h 0 0 0 SD_CLK_DIV_TRANS,
                  sdio_bus_mode_set h SDIO_BUSMODE_1BIT,
                  sdio_hardware_clock_disable h])
           (ret SD_OK))))"

section \<open>Bus width\<close>

text \<open>The chain of tests after a data transfer: the first flag that is set is cleared and its error
  returned.\<close>

primrec first_flag :: "hw \<Rightarrow> (u32 \<times> sd_error) list \<Rightarrow> ('z bus_scheme, sd_error) cm" where
  "first_flag h [] = ret SD_OK"
| "first_flag h (fe # fs) =
     bindM (sdio_flag_get h (fst fe)) (\<lambda>b.
     if b then thenM (sdio_flag_clear (fst fe)) (ret (snd fe)) else first_flag h fs)"

definition rx_errors :: "(u32 \<times> sd_error) list" where
  "rx_errors = [(SDIO_FLAG_DTCRCERR, SD_DATA_CRC_ERROR), (SDIO_FLAG_DTTMOUT, SD_DATA_TIMEOUT),
     (SDIO_FLAG_RXORE, SD_RX_OVERRUN_ERROR), (SDIO_FLAG_STBITE, SD_START_BIT_ERROR)]"

text \<open>\<open>SDIO_FLAG_DTCRCERR | SDIO_FLAG_DTTMOUT | SDIO_FLAG_RXORE | fin | SDIO_FLAG_STBITE\<close>\<close>

definition rx_done :: "u32 \<Rightarrow> u32" where
  "rx_done fin = SDIO_FLAG_DTCRCERR OR SDIO_FLAG_DTTMOUT OR SDIO_FLAG_RXORE OR fin OR SDIO_FLAG_STBITE"

text \<open>The reordering of the bytes of a word.\<close>

definition swap_bytes :: "u32 \<Rightarrow> u32" where
  "swap_bytes w =
     ((push_bit 24 (w AND 0x000000FF) OR push_bit 8 (w AND 0x0000FF00))
      OR drop_bit 8 (w AND 0x00FF0000)) OR drop_bit 24 (w AND 0xFF000000)"

text \<open>The local array \<open>temp_scr\<close> has two elements; a store behind its end is a fault.\<close>

definition scr_receive :: "hw \<Rightarrow> ('z bus_scheme, u32 list \<times> nat) cm" where
  "scr_receive h =
     whileM (\<lambda>_. bindM (sdio_flag_get h (rx_done SDIO_FLAG_DTBLKEND)) (\<lambda>f. ret (\<not> f)))
       (\<lambda>(temp_scr, idx_scr).
          bindM (sdio_flag_get h SDIO_FLAG_RXDTVAL) (\<lambda>f.
          if f then bindM (sdio_data_read h) (\<lambda>d.
                    bindM (store_elem temp_scr idx_scr d) (\<lambda>temp_scr. ret (temp_scr, idx_scr + 1)))
          else ret (temp_scr, idx_scr)))
       ([0, 0], 0)"

text \<open>The out-parameter \<open>pscr\<close> is the driver's array \<open>sd_scr\<close>, the only one it is called with.\<close>

definition sd_scr_get :: "hw \<Rightarrow> u16 \<Rightarrow> ('z sdcard_scheme, sd_error) cm" where
  "sd_scr_get h rca =
     check_ok (cmd_r1 h SD_CMD_SET_BLOCKLEN 8)
    (check_ok (cmd_r1 h SD_CMD_APP_CMD (rca_arg rca))
    (thenM (seqM [sdio_data_config h SD_DATATIMEOUT 8 (push_bit 4 3),
                  sdio_data_transfer_config h 0 (BIT 1),
                  sdio_dsm_enable h])
    (check_ok (cmd_r1 h SD_APPCMD_SEND_SCR 0)
    (bindM (scr_receive h) (\<lambda>(temp_scr, idx_scr).
     check_ok (first_flag h rx_errors)
    (thenM (sdio_flag_clear SDIO_MASK_INTC_FLAGS)
    (thenM (modM (\<lambda>s. s\<lparr>sd_scr := [swap_bytes (temp_scr ! 1), swap_bytes (temp_scr ! 0)]\<rparr>))
           (ret SD_OK))))))))"

definition SD_BUS_WIDTH_4BIT :: u32 where "SD_BUS_WIDTH_4BIT = 0x00040000"
definition SD_BUS_WIDTH_1BIT :: u32 where "SD_BUS_WIDTH_1BIT = 0x00010000"

definition card_locked :: "hw \<Rightarrow> ('z bus_scheme, bool) cm" where
  "card_locked h = bindM (sdio_response_get h 0) (\<lambda>r. ret (r AND SD_CARDSTATE_LOCKED \<noteq> 0))"

definition set_bus_width :: "hw \<Rightarrow> u32 \<Rightarrow> u32 \<Rightarrow> ('z sdcard_scheme, sd_error) cm" where
  "set_bus_width h buswidth arg =
     bindM (getM (\<lambda>s. (sd_scr s ! 1, sd_rca s))) (\<lambda>(scr1, rca).
     if scr1 AND buswidth \<noteq> 0
     then check_ok (cmd_r1 h SD_CMD_APP_CMD (rca_arg rca)) (cmd_r1 h SD_APPCMD_SET_BUS_WIDTH arg)
     else ret SD_OPERATION_IMPROPER)"

definition sd_bus_width_config :: "hw \<Rightarrow> u32 \<Rightarrow> ('z sdcard_scheme, sd_error) cm" where
  "sd_bus_width_config h buswidth =
     bindM (card_locked h) (\<lambda>locked.
     if locked then ret SD_LOCK_UNLOCK_FAILED
     else check_ok (bindM (getM sd_rca) (sd_scr_get h))
    (if buswidth = SD_BUS_WIDTH_1BIT then set_bus_width h buswidth 0
     else if buswidth = SD_BUS_WIDTH_4BIT then set_bus_width h buswidth 2
     else ret SD_PARAMETER_INVALID))"

definition bus_mode_apply :: "hw \<Rightarrow> u32 \<Rightarrow> ('z bus_scheme, unit) cm" where
  "bus_mode_apply h busmode =
     seqM [sdio_clock_config h 0 0 0 SD_CLK_DIV_TRANS, sdio_bus_mode_set h busmode, sdio_hardware_clock_disable h]"

definition sd_bus_mode_config :: "hw \<Rightarrow> u32 \<Rightarrow> ('z sdcard_scheme, sd_error) cm" where
  "sd_bus_mode_config h busmode =
     bindM (getM cardtype) (\<lambda>t.
     if t = SDIO_MULTIMEDIA_CARD then ret SD_FUNCTION_UNSUPPORTED
     else if sd_memory_card t
     then if busmode = SDIO_BUSMODE_8BIT then ret SD_FUNCTION_UNSUPPORTED
          else if busmode = SDIO_BUSMODE_4BIT
          then bindM (sd_bus_width_config h SD_BUS_WIDTH_4BIT) (\<lambda>status.
               thenM (whenM (status = SD_OK) (bus_mode_apply h busmode)) (ret status))
          else if busmode = SDIO_BUSMODE_1BIT
          then bindM (sd_bus_width_config h SD_BUS_WIDTH_1BIT) (\<lambda>status.
               thenM (whenM (status = SD_OK) (bus_mode_apply h busmode)) (ret status))
          else ret SD_PARAMETER_INVALID
     else ret SD_OK)"

definition sd_transfer_mode_config :: "u32 \<Rightarrow> ('z sdcard_scheme, sd_error) cm" where
  "sd_transfer_mode_config txmode =
     (if txmode = SD_DMA_MODE \<or> txmode = SD_POLLING_MODE
      then thenM (modM (\<lambda>s. s\<lparr>transmode := txmode\<rparr>)) (ret SD_OK)
      else ret SD_PARAMETER_INVALID)"

section \<open>Bus-only parts\<close>

lemma io_first_flag [io_intros]: "io_only (first_flag h fs)"
  by (induction fs) (auto intro!: io_intros)

lemma io_sd_config [io_intros]:
  "io_only (rcu_config h)" "io_only (gpio_config h)" "io_only (dma_transfer_config h b n)"
  "io_only (dma_receive_config h b n)" "io_only (volt_validation h t)" "io_only (read_response h)"
  "io_only (card_locked h)" "io_only (bus_mode_apply h m)" "io_only (set_bus_width h w a)"
  unfolding rcu_config_def gpio_config_def dma_transfer_config_def dma_receive_config_def volt_validation_def
    read_response_def card_locked_def bus_mode_apply_def set_bus_width_def
  by (intro io_intros)+

section \<open>Termination\<close>

lemma total_periph [total_intros]:
  "returns (rcu_periph_clock_enable h p)" "returns (rcu_periph_reset_enable h p)"
  "returns (rcu_periph_reset_disable h p)" "returns (gpio_mode_set h g m u p)"
  "returns (gpio_output_options_set h g ot sp p)" "returns (gpio_af_set h g n p)"
  "returns (dma_flag_get h d c f)" "returns (dma_flag_clear h d c f)" "returns (dma_deinit h d c)"
  "returns (dma_multi_data_mode_init h d c prm)" "returns (dma_flow_controller_config h d c ct)"
  "returns (dma_channel_enable h d c)" "returns (dma_channel_disable h d c)"
  "returns (dma_channel_subperipheral_select h d c sp')"
  unfolding periph_defs by (intro total_intros)+

lemma total_sdio [total_intros]:
  "returns (sdio_deinit h)" "returns (sdio_clock_config h e b p dv)" "returns (sdio_hardware_clock_disable h)"
  "returns (sdio_bus_mode_set h m)" "returns (sdio_power_state_set ps)" "returns (sdio_power_state_get h)"
  "returns (sdio_clock_enable h)" "returns (sdio_command_response_config h i a r)"
  "returns (sdio_wait_type_set h w)" "returns (sdio_csm_enable h)" "returns (sdio_command_index_get h)"
  "returns (sdio_response_get h x)" "returns (sdio_data_config h t n bs)"
  "returns (sdio_data_transfer_config h tm td)" "returns (sdio_dsm_enable h)" "returns (sdio_dsm_disable h)"
  "returns (sdio_data_write d)" "returns (sdio_data_read h)" "returns (sdio_dma_enable h)"
  "returns (sdio_dma_disable h)" "returns (sdio_flag_get h f)" "returns (sdio_flag_clear f)"
  "returns (sdio_interrupt_enable h f)" "returns (sdio_interrupt_disable h f)"
  "returns (sdio_interrupt_flag_get h f)" "returns (sdio_interrupt_flag_clear f)"
  unfolding sdio_defs by (auto intro!: total_intros simp: Let_def split: prod.split)

lemma total_check_ok [total_intros]: "returns m \<Longrightarrow> returns k \<Longrightarrow> returns (check_ok m k)"
  unfolding check_ok_def by (intro total_intros)

lemma total_checks [total_intros]:
  "returns (sd_command h c a r)" "returns (cmdsent_error_check h)" "returns (r7_error_check h)"
  "returns (rcu_config h)" "returns (gpio_config h)" "returns (read_response h)" "returns (bus_mode_apply h m)"
  "returns (card_locked h)" "returns (dma_transfer_config h b n)" "returns (dma_receive_config h b n)"
  unfolding sd_command_def rcu_config_def gpio_config_def read_response_def bus_mode_apply_def card_locked_def
    dma_transfer_config_def dma_receive_config_def
  by (intro total_intros wp_returns [OF cmdsent_error_check_returns] wp_returns [OF r7_error_check_returns])+

lemma total_wait_response: "card_answers h \<Longrightarrow> returns (wait_response h)"
  unfolding returns_def by (auto dest: wait_response_returns)

lemma total_answers:
  assumes "card_answers h"
  shows "returns (r1_error_check h c)" "returns (r2_error_check h)" "returns (r3_error_check h)"
    "returns (r6_error_check h c p)" "returns (cmd_r1 h c a)" "returns (set_bus_width h w a)"
  unfolding cmd_r1_def set_bus_width_def r1_error_check_def r2_error_check_def r3_error_check_def r6_error_check_def
  by (intro total_intros total_wait_response [OF assms])+

lemma count_less: "(c :: u32) < SD_MAX_VOLT_VALIDATION \<Longrightarrow> 0xFFFF - unat (c + 1) < 0xFFFF - unat c"
  by (simp add: SD_MAX_VOLT_VALIDATION_def word_less_nat_alt u32_plus_one_unat)

lemma total_volt_validation:
  assumes "card_answers h"
  shows "returns (volt_validation h t)"
  unfolding volt_validation_def
proof (rule total_whileM [where M = "\<lambda>(st, busy, count, r). 0xFFFF - unat (count :: u32)"], goal_cases)
  case (1 v) show ?case by (intro total_intros)
next
  case (2 v) show ?case by (intro total_intros total_answers [OF assms])
next
  case (3 v s v' s' t)
  then show ?case
    by (auto simp: run_simps count_less split: prod.splits option.splits sum.splits if_splits)
qed

lemma sd_init_returns:
  assumes "card_answers h"
  shows "returns (sd_init h)"
  unfolding sd_init_def sd_power_on_def sd_card_init_def card_init_cid_def card_init_csd_def
  by (intro total_intros total_answers [OF assms] total_volt_validation [OF assms])

section \<open>What the start of a card may change\<close>

definition init_frame :: "'z sdcard_scheme \<Rightarrow> 'z sdcard_scheme \<Rightarrow> bool" where
  "init_frame s s' \<longleftrightarrow>
     s' = s\<lparr>iolog := iolog s', cardtype := cardtype s', sd_csd := sd_csd s', sd_cid := sd_cid s', sd_rca := sd_rca s'\<rparr> \<and>
     cardtype s' \<in> {cardtype s, SDIO_STD_CAPACITY_SD_CARD_V2_0, SDIO_HIGH_CAPACITY_SD_CARD} \<and>
     (sd_csd s' = sd_csd s \<or> length (sd_csd s') = 4) \<and> (sd_cid s' = sd_cid s \<or> length (sd_cid s') = 4)"

interpretation init_fr: state_frame "init_frame :: 'z sdcard_scheme \<Rightarrow> 'z sdcard_scheme \<Rightarrow> bool"
proof
  fix s :: "'z sdcard_scheme"
  show "init_frame s s" by (simp add: init_frame_def)
next
  fix s t u :: "'z sdcard_scheme"
  assume "init_frame s t" "init_frame t u"
  then show "init_frame s u"
    by (cases s; cases t; cases u) (auto simp: init_frame_def)
next
  fix s t :: "'z sdcard_scheme"
  assume "log_ext s t"
  then show "init_frame s t"
    by (cases s) (auto simp: init_frame_def log_ext_def)
qed

lemma keeps_check_ok:
  assumes "frame_rel R" "keeps R m" "keeps R k"
  shows "keeps R (check_ok m k)"
  unfolding check_ok_def
  using assms(2,3) by (intro frame_rel.keeps_bindM [OF assms(1)] frame_rel.keeps_if [OF assms(1)] frame_rel.keeps_ret [OF assms(1)])

lemma read_response_length:
  "wlp (read_response h) (\<lambda>r s'. log_ext s s' \<and> length r = 4) s"
proof (rule wlp_conj)
  show "wlp (read_response h) (\<lambda>r s'. log_ext s s') s" by (rule io_onlyD) (rule io_intros)
qed (simp add: read_response_def wp_simps sdio_response_get_def)

lemma keeps_read_response:
  assumes "\<And>r s. length r = 4 \<Longrightarrow> init_frame s (f r s)"
  shows "keeps init_frame (bindM (read_response h) (\<lambda>r. thenM (modM (f r)) (ret SD_OK)))"
  unfolding keeps_def wlp_bindM
  by (intro allI, rule wlp_mono [OF read_response_length])
    (auto simp: wp_simps intro: init_fr.frame_trans [OF init_fr.frame_log] assms)

lemmas keeps_init = keeps_check_ok [OF init_fr.frame_rel_axioms] init_fr.keeps_intros

lemma init_frame_updates:
  "length r = 4 \<Longrightarrow> init_frame s (s\<lparr>sd_cid := r\<rparr>)" "length r = 4 \<Longrightarrow> init_frame s (s\<lparr>sd_csd := r\<rparr>)"
  "init_frame s (s\<lparr>sd_rca := x\<rparr>)" "init_frame s (s\<lparr>cardtype := SDIO_STD_CAPACITY_SD_CARD_V2_0\<rparr>)"
  "init_frame s (s\<lparr>cardtype := SDIO_HIGH_CAPACITY_SD_CARD\<rparr>)"
  by (cases s; simp add: init_frame_def)+

lemma keeps_card_init: "keeps init_frame (card_init_cid h)" "keeps init_frame (card_init_csd h r)"
  unfolding card_init_cid_def card_init_csd_def
  by (intro keeps_init keeps_read_response init_frame_updates; assumption?; intro init_fr.keeps_io io_intros)+

lemma keeps_sd_power_on: "keeps init_frame (sd_power_on h)"
  unfolding sd_power_on_def
  by (intro keeps_init init_frame_updates; intro init_fr.keeps_io io_intros)

lemma keeps_sd_init: "keeps init_frame (sd_init h)"
  unfolding sd_init_def sd_card_init_def
  by (intro keeps_init keeps_sd_power_on keeps_card_init; intro init_fr.keeps_io io_intros)

section \<open>Hardware without a card\<close>

text \<open>The socket is empty: every command is sent, and every response times out.\<close>

definition no_card :: "hw \<Rightarrow> bool" where
  "no_card h \<longleftrightarrow> (\<forall>l. bit (h l SDIO_STAT) 7 \<and> bit (h l SDIO_STAT) 2 \<and> \<not> bit (h l SDIO_STAT) 0 \<and> h l SDIO_PWRCTL \<noteq> 0)"

lemma wait_response_now:
  "h (iolog s) SDIO_STAT AND CMD_DONE \<noteq> 0 \<Longrightarrow>
     wp (wait_response h) Q s = Q (h (iolog s) SDIO_STAT) (s\<lparr>iolog := Rd SDIO_STAT (h (iolog s) SDIO_STAT) # iolog s\<rparr>)"
  unfolding wait_response_def wp_bindM wp_rd32
  by (subst wp_whileM_unfold) (simp add: wp_simps)

lemma no_card_done: "no_card h \<Longrightarrow> h l SDIO_STAT AND CMD_DONE \<noteq> 0"
  by (simp add: no_card_def CMD_DONE_iff)

text \<open>Steps of a proof that follows a run and records that only the bus was touched since \<open>s0\<close>.\<close>

lemma wp_result:
  assumes "log_ext s0 s" "io_only m" "wp m (\<lambda>x _. P x) s" "\<And>x t. P x \<Longrightarrow> log_ext s0 t \<Longrightarrow> Q x t"
  shows "wp m Q s"
  using wp_conj [OF assms(3) io_only_wlp [OF assms(2,1)]] by (rule wp_mono) (simp add: assms(4))

lemma wp_io_then:
  assumes "log_ext s0 s" "io_only m" "returns m" "\<And>x t. log_ext s0 t \<Longrightarrow> Q x t"
  shows "wp m Q s"
  using assms(4) by (intro returns_wp [OF assms(3)] wlp_mono [OF io_only_wlp [OF assms(2,1)]])

lemma wp_command: "log_ext s0 s \<Longrightarrow> (\<And>t. log_ext s0 t \<Longrightarrow> Q () t) \<Longrightarrow> wp (sd_command h c a r) Q s"
  by (rule wp_io_then [of s0]) (auto intro: io_intros total_intros)

lemma no_card_checks:
  assumes "no_card h"
  shows "wp (cmdsent_error_check h) (\<lambda>st _. st = SD_OK) s"
    "wp (r7_error_check h) (\<lambda>st _. st = SD_CMD_RESP_TIMEOUT) s"
    "wp (r2_error_check h) (\<lambda>st _. st = SD_CMD_RESP_TIMEOUT) s"
    "wp (cmd_r1 h c a) (\<lambda>st _. st = SD_CMD_RESP_TIMEOUT) s"
proof -
  have b: "bit (h l SDIO_STAT) 7" "bit (h l SDIO_STAT) 2" "\<not> bit (h l SDIO_STAT) 0" for l
    using assms by (simp_all add: no_card_def)
  note sim = wp_simps sdio_flag_get_def sdio_flag_clear_def flag_tests b CMD_DONE_iff
  show "wp (cmdsent_error_check h) (\<lambda>st _. st = SD_OK) s"
    unfolding cmdsent_error_check_def wp_bindM by (subst wp_whileM_unfold) (simp add: sim)
  show "wp (r7_error_check h) (\<lambda>st _. st = SD_CMD_RESP_TIMEOUT) s"
    unfolding r7_error_check_def wp_bindM wp_rd32
    by (subst wp_whileM_unfold) (simp add: sim no_card_done [OF assms])
  have r1: "wp (r1_error_check h c) (\<lambda>st _. st = SD_CMD_RESP_TIMEOUT) s" for s :: "'a bus_scheme"
    unfolding r1_error_check_def wp_bindM by (subst wait_response_now, rule no_card_done [OF assms]) (simp add: sim)
  show "wp (r2_error_check h) (\<lambda>st _. st = SD_CMD_RESP_TIMEOUT) s"
    unfolding r2_error_check_def wp_bindM by (subst wait_response_now, rule no_card_done [OF assms]) (simp add: sim)
  show "wp (cmd_r1 h c a) (\<lambda>st _. st = SD_CMD_RESP_TIMEOUT) s"
    unfolding cmd_r1_def wp_thenM by (rule wp_command [OF log_ext_refl]) (rule r1)
qed

lemma no_card_power_on:
  assumes h: "no_card h" and s: "log_ext s0 s"
  shows "wp (sd_power_on h) (\<lambda>st s'. st = SD_OK \<and> log_ext s0 s') s"
  unfolding sd_power_on_def wp_thenM wp_check_ok wp_bindM
  apply (rule wp_io_then [OF s], intro io_intros, intro total_intros)
  apply (rule wp_result [OF _ _ no_card_checks(1) [OF h]], assumption, intro io_intros, simp)
  apply (rule wp_command, assumption)
  apply (rule wp_result [OF _ _ no_card_checks(2) [OF h]], assumption, intro io_intros)
  apply (simp add: wp_simps Let_def)
  apply (rule wp_result [OF _ _ no_card_checks(4) [OF h]], assumption, intro io_intros)
  apply (simp add: wp_simps)
  done

lemma no_card_card_init:
  assumes h: "no_card h" and s: "log_ext s0 s" and t: "cardtype s \<noteq> SDIO_SECURE_DIGITAL_IO_CARD"
  shows "wp (sd_card_init h) (\<lambda>st s'. st = SD_CMD_RESP_TIMEOUT \<and> log_ext s0 s') s"
proof -
  have pwr: "h l SDIO_PWRCTL \<noteq> SDIO_POWER_OFF" for l
    using h by (simp add: no_card_def SDIO_POWER_OFF_def)
  have cid: "wp (card_init_cid h) (\<lambda>st s'. st = SD_CMD_RESP_TIMEOUT \<and> log_ext s0 s') u" if "log_ext s0 u" for u
    unfolding card_init_cid_def wp_thenM wp_check_ok
    apply (rule wp_command [OF that])
    apply (rule wp_result [OF _ _ no_card_checks(3) [OF h]], assumption, intro io_intros, simp)
    done
  let ?u = "s\<lparr>iolog := Rd SDIO_PWRCTL (h (iolog s) SDIO_PWRCTL) # iolog s\<rparr>"
  have u: "cardtype ?u \<noteq> SDIO_SECURE_DIGITAL_IO_CARD" "log_ext s0 ?u"
    using t log_ext_trans [OF s log_ext_Cons] by simp_all
  show ?thesis
    unfolding sd_card_init_def sdio_power_state_get_def wp_bindM wp_rd32 wp_if wp_getM wp_check_ok
    by (simp only: pwr u(1) if_False if_True not_False_eq_True) (rule wp_mono [OF cid [OF u(2)]], simp)
qed

lemma no_card_init:
  assumes h: "no_card h" and t: "cardtype s \<noteq> SDIO_SECURE_DIGITAL_IO_CARD"
  shows "wp (sd_init h) (\<lambda>st s'. st = SD_CMD_RESP_TIMEOUT \<and> log_ext s s') s"
proof -
  have ct: "cardtype u \<noteq> SDIO_SECURE_DIGITAL_IO_CARD" if "log_ext s u" for u
    using that t by (auto simp: log_ext_def)
  show ?thesis
    unfolding sd_init_def wp_thenM wp_check_ok
    apply (rule wp_io_then [OF log_ext_refl], intro io_intros, intro total_intros)
    apply (rule wp_mono [OF no_card_power_on [OF h]], assumption)
    apply (simp, rule wp_mono [OF no_card_card_init [OF h]])
    apply (auto simp: ct)
    done
qed

section \<open>The command of the interface\<close>

text \<open>The command the SDIO interface was last programmed with.\<close>

definition cmd_is :: "u8 \<Rightarrow> io_log \<Rightarrow> bool" where
  "cmd_is c l \<longleftrightarrow> (\<exists>v. last_wr SDIO_CMDCTL l = Some v \<and> v AND 0x3F = ucast c)"

lemma cmd_is_log [simp]:
  "cmd_is c (Rd a v # l) = cmd_is c l" "a \<noteq> SDIO_CMDCTL \<Longrightarrow> cmd_is c (Wr a v # l) = cmd_is c l"
  by (simp_all add: cmd_is_def)

lemma INTC_neq_CMDCTL [simp]: "SDIO_INTC \<noteq> SDIO_CMDCTL"
  by (simp add: sdio_regs)

lemma ucast_u8: "ucast (ucast (c :: u8) :: u32) = c"
  by (rule bit_word_eqI) (simp add: bit_simps)

lemma cmdctl_index:
  fixes c :: u8 and r x :: u32
  assumes c: "c < 64" and r: "r \<in> {SDIO_RESPONSETYPE_NO, SDIO_RESPONSETYPE_SHORT, SDIO_RESPONSETYPE_LONG}"
  shows "((x AND NOT 0x7FF) OR ucast c OR r OR BIT 10) AND 0x3F = ucast c"
proof -
  have m: "(0x3F :: u32) = mask 6" "(0x7FF :: u32) = mask 11" by (simp_all add: mask_eq_exp_minus_1)
  have "c = take_bit 6 c"
    using c by (simp add: word_unat_eq_iff unsigned_take_bit_eq take_bit_nat_eq_self word_less_nat_alt)
  then have c6: "bit c n \<Longrightarrow> n < 6" for n by (metis bit_take_bit_iff)
  have r6: "\<not> bit r n" if "n < 6" for n
    using r that by (auto simp: SDIO_RESPONSETYPE_NO_def SDIO_RESPONSETYPE_SHORT_def SDIO_RESPONSETYPE_LONG_def
        less_Suc_eq eval_nat_numeral)
  show ?thesis
    unfolding m by (rule bit_word_eqI) (auto simp: bit_simps bit_0x400 r6 dest: c6)
qed

lemma wp_command_is:
  assumes "storage_reg h SDIO_CMDCTL 0" "log_ext s0 s" "c < 64"
    "r \<in> {SDIO_RESPONSETYPE_NO, SDIO_RESPONSETYPE_SHORT, SDIO_RESPONSETYPE_LONG}"
    "\<And>t. log_ext s0 t \<Longrightarrow> cmd_is c (iolog t) \<Longrightarrow> Q () t"
  shows "wp (sd_command h c a r) Q s"
proof -
  have c: "(ucast c :: u32) < 64"
    using assms(3) by (simp add: word_less_nat_alt unsigned_ucast_eq take_bit_nat_eq_self)
  have r: "r = 0 \<or> r = 0x40 \<or> r = 0xC0"
    using assms(4) by (simp add: SDIO_RESPONSETYPE_NO_def SDIO_RESPONSETYPE_SHORT_def SDIO_RESPONSETYPE_LONG_def)
  have "cmd_is c l" if
    l: "last_wr SDIO_CMDCTL l = Some (((((v AND NOT (BIT 10)) AND NOT 0xFF) OR (ucast c OR r)) AND NOT 0x300) OR BIT 10)" for l v
    unfolding cmd_is_def
    by (rule exI, rule conjI [OF l]) (simp only: cmdctl_value [OF c r] cmdctl_index [OF assms(3,4)])
  then have "wp (sd_command h c a r) (\<lambda>_ s'. cmd_is c (iolog s')) s"
    by (intro wp_mono [OF sd_command_registers [OF assms(1), of c a r s]]) blast
  from wp_conj [OF this io_only_wlp [OF _ assms(2)]] show ?thesis
    by (rule wp_mono) (auto intro: io_intros assms(5))
qed

lemma resp_short: "SDIO_RESPONSETYPE_SHORT \<in> {SDIO_RESPONSETYPE_NO, SDIO_RESPONSETYPE_SHORT, SDIO_RESPONSETYPE_LONG}"
  and resp_no: "SDIO_RESPONSETYPE_NO \<in> {SDIO_RESPONSETYPE_NO, SDIO_RESPONSETYPE_SHORT, SDIO_RESPONSETYPE_LONG}"
  and resp_long: "SDIO_RESPONSETYPE_LONG \<in> {SDIO_RESPONSETYPE_NO, SDIO_RESPONSETYPE_SHORT, SDIO_RESPONSETYPE_LONG}"
  by simp_all

section \<open>Properties\<close>

text \<open>
  C33: \<open>sd_init\<close> never hangs on a card that lets every command end, with a response, a checksum
  error or a timeout, however wrong the responses are: it returns, without undefined behaviour, and
  changes nothing but the card type, address and registers, which keep their length.
\<close>

theorem sd_init_always_ends:
  assumes "card_answers h"
  shows "wp (sd_init h) (\<lambda>_ s'. (sd_wf s \<longrightarrow> sd_wf s') \<and>
           cardtype s' \<in> {cardtype s, SDIO_STD_CAPACITY_SD_CARD_V2_0, SDIO_HIGH_CAPACITY_SD_CARD} \<and>
           s' = s\<lparr>iolog := iolog s', cardtype := cardtype s', sd_csd := sd_csd s', sd_cid := sd_cid s', sd_rca := sd_rca s'\<rparr>) s"
proof -
  have "wp (sd_init h) (\<lambda>_. init_frame s) s"
    by (rule returns_wp [OF sd_init_returns [OF assms] keeps_sd_init [unfolded keeps_def, rule_format]])
  moreover have "sd_wf s'" if "init_frame s s'" "sd_wf s" for s'
    using that by (cases s; cases s') (auto simp: init_frame_def sd_wf_def)
  ultimately show ?thesis by (elim wp_mono) (simp add: init_frame_def)
qed

theorem sd_init_always_ends_witness:
  "wp (sd_init (demo_card 16 0x900)) (\<lambda>_ s'. sd_wf s')
      (sdcard.make [] [0, 0] SDIO_STD_CAPACITY_SD_CARD_V1_1 [0, 0, 0, 0] [0, 0, 0, 0] 0 1 0 0 SD_OK 0 0 Map.empty)"
  by (rule wp_mono [OF sd_init_always_ends [OF demo_card_answers]]) (simp add: sd_wf_def sdcard.make_def)

text \<open>
  Without a card \<open>sd_init\<close> fails with \<open>SD_CMD_RESP_TIMEOUT\<close> and leaves every variable as it was.
  But it is the identification that fails: \<open>sd_power_on\<close> itself reports \<open>SD_OK\<close>, because it ignores
  the status of CMD8 and of its first CMD55.
\<close>

theorem no_card_is_reported:
  assumes "no_card h" "cardtype s \<noteq> SDIO_SECURE_DIGITAL_IO_CARD"
  shows "wp (sd_init h) (\<lambda>st s'. st = SD_CMD_RESP_TIMEOUT \<and> s' = s\<lparr>iolog := iolog s'\<rparr>) s \<and>
         wp (sd_power_on h) (\<lambda>st s'. st = SD_OK \<and> s' = s\<lparr>iolog := iolog s'\<rparr>) s"
  by (intro conjI wp_mono [OF no_card_init [OF assms]] wp_mono [OF no_card_power_on [OF assms(1) log_ext_refl]])
    (auto simp: log_ext_def)

definition empty_socket :: hw where
  "empty_socket l a = (if a = SDIO_STAT then 0x84 else if a = SDIO_PWRCTL then 3 else 0)"

theorem no_card_is_reported_witness:
  "wp (sd_init empty_socket) (\<lambda>st s'. st = SD_CMD_RESP_TIMEOUT)
      (sdcard.make [] [0, 0] SDIO_STD_CAPACITY_SD_CARD_V1_1 [0, 0, 0, 0] [0, 0, 0, 0] 0 1 0 0 SD_OK 0 0 Map.empty)"
proof -
  have "no_card empty_socket" by (simp add: no_card_def empty_socket_def sdio_regs bit_numeral_rec)
  from no_card_is_reported [OF this] show ?thesis
    by (rule wp_mono [OF conjunct1]) (simp_all add: sdcard.make_def)
qed

end
