(* ===== verification/Sd_Control.thy ===== *)
theory Sd_Control
  imports Sd_Init
begin

text \<open>
  The control operations of \<open>sdcard.c\<close>: selecting a card, reading its status, erasing, locking, stopping
  a transfer, and the interrupt routine behind \<open>SDIO_IRQHandler\<close>.
\<close>

section \<open>Memory of the callers\<close>

text \<open>A store through a pointer to \<open>uint32_t\<close>; an address outside every object is a fault.\<close>

definition mem_wr :: "u32 \<Rightarrow> u32 \<Rightarrow> ('z sdcard_scheme, unit) cm" where
  "mem_wr p v = (\<lambda>s. if ram s p = None then Some (Inl Out_Of_Bounds)
                     else Some (Inr ((), s\<lparr>ram := (ram s)(p \<mapsto> v)\<rparr>)))"

definition mem_rd :: "u32 \<Rightarrow> ('z sdcard_scheme, u32) cm" where
  "mem_rd p = (\<lambda>s. case ram s p of None \<Rightarrow> Some (Inl Out_Of_Bounds) | Some v \<Rightarrow> Some (Inr (v, s)))"

section \<open>Selecting, stopping, card status\<close>

definition sd_card_select_deselect :: "hw \<Rightarrow> u16 \<Rightarrow> ('z sdcard_scheme, sd_error) cm" where
  "sd_card_select_deselect h cardrca = cmd_r1 h SD_CMD_SELECT_DESELECT_CARD (rca_arg cardrca)"

definition sd_transfer_stop :: "hw \<Rightarrow> ('z bus_scheme, sd_error) cm" where
  "sd_transfer_stop h = cmd_r1 h SD_CMD_STOP_TRANSMISSION 0"

definition send_status :: "hw \<Rightarrow> ('z sdcard_scheme, sd_error) cm" where
  "send_status h = bindM (getM sd_rca) (\<lambda>rca. cmd_r1 h SD_CMD_SEND_STATUS (rca_arg rca))"

definition sd_cardstatus_get :: "hw \<Rightarrow> u32 \<Rightarrow> ('z sdcard_scheme, sd_error) cm" where
  "sd_cardstatus_get h pcardstatus =
     (if pcardstatus = 0 then ret SD_PARAMETER_INVALID
      else check_ok (send_status h)
     (bindM (sdio_response_get h 0) (\<lambda>r. thenM (mem_wr pcardstatus r) (ret SD_OK))))"

datatype sd_transfer_state = SD_NO_TRANSFER | SD_TRANSFER_IN_PROGRESS

definition sd_transfer_state_get :: "hw \<Rightarrow> ('z bus_scheme, sd_transfer_state) cm" where
  "sd_transfer_state_get h =
     bindM (sdio_flag_get h (SDIO_FLAG_TXRUN OR SDIO_FLAG_RXRUN)) (\<lambda>f.
     ret (if f then SD_TRANSFER_IN_PROGRESS else SD_NO_TRANSFER))"

section \<open>SD status\<close>

text \<open>The two ways the driver empties the receive FIFO: eight words when it is half full, and one by one.\<close>

definition read_burst :: "hw \<Rightarrow> u32 \<Rightarrow> ('z sdcard_scheme, unit) cm" where
  "read_burst h p =
     foldM (\<lambda>count _. bindM (sdio_data_read h) (mem_wr (p + 4 * of_nat count))) [0..<8] ()"

definition poll_receive :: "hw \<Rightarrow> u32 \<Rightarrow> u32 \<Rightarrow> ('z sdcard_scheme, u32) cm" where
  "poll_receive h fin p =
     whileM (\<lambda>_. bindM (sdio_flag_get h (rx_done fin)) (\<lambda>f. ret (\<not> f)))
       (\<lambda>p. bindM (sdio_flag_get h SDIO_FLAG_RFH) (\<lambda>f.
            if f then thenM (read_burst h p) (ret (p + 32)) else ret p)) p"

definition drain_fifo :: "hw \<Rightarrow> u32 \<Rightarrow> ('z sdcard_scheme, u32) cm" where
  "drain_fifo h p =
     whileM (\<lambda>_. sdio_flag_get h SDIO_FLAG_RXDTVAL)
       (\<lambda>p. bindM (sdio_data_read h) (\<lambda>d. thenM (mem_wr p d) (ret (p + 4)))) p"

definition swap_status :: "u32 \<Rightarrow> ('z sdcard_scheme, unit) cm" where
  "swap_status psdstatus =
     foldM (\<lambda>count _. let a = psdstatus + 4 * of_nat count in bindM (mem_rd a) (\<lambda>w. mem_wr a (swap_bytes w))) [0..<16] ()"

definition sd_sdstatus_get :: "hw \<Rightarrow> u32 \<Rightarrow> ('z sdcard_scheme, sd_error) cm" where
  "sd_sdstatus_get h psdstatus =
     bindM (card_locked h) (\<lambda>locked.
     if locked then ret SD_LOCK_UNLOCK_FAILED
     else check_ok (cmd_r1 h SD_CMD_SET_BLOCKLEN 64)
    (check_ok (bindM (getM sd_rca) (\<lambda>rca. cmd_r1 h SD_CMD_APP_CMD (rca_arg rca)))
    (thenM (seqM [sdio_data_config h SD_DATATIMEOUT 64 (push_bit 4 6),
                  sdio_data_transfer_config h 0 (BIT 1),
                  sdio_dsm_enable h])
    (check_ok (cmd_r1 h SD_APPCMD_SD_STATUS 0)
    (bindM (poll_receive h SDIO_FLAG_DTBLKEND psdstatus) (\<lambda>psdstatus.
     check_ok (first_flag h rx_errors)
    (bindM (drain_fifo h psdstatus) (\<lambda>psdstatus.
     thenM (sdio_flag_clear SDIO_MASK_INTC_FLAGS)
    (thenM (swap_status (psdstatus - 64)) (ret SD_OK))))))))))"

section \<open>Erasing and locking\<close>

text \<open>The card command classes, from bytes 4 and 5 of the CSD register.\<close>

definition csd_ccc :: "u32 list \<Rightarrow> u16" where
  "csd_ccc csd =
     (let tempbyte = ucast (drop_bit 24 (csd ! 1 AND 0xFF000000)) :: u8;
          tempccc = push_bit 4 (ucast tempbyte);
          tempbyte = ucast (drop_bit 16 (csd ! 1 AND 0x00FF0000)) :: u8
      in tempccc OR drop_bit 4 (ucast (tempbyte AND 0xF0)))"

definition SD_CCC_ERASE :: u16 where "SD_CCC_ERASE = BIT 5"
definition SD_CCC_LOCK_CARD :: u16 where "SD_CCC_LOCK_CARD = BIT 7"

definition erase_delay :: "hw \<Rightarrow> ('z bus_scheme, u32) cm" where
  "erase_delay h =
     bindM (rd32 h SDIO_CLKCTL) (\<lambda>r1. bindM (rd32 h SDIO_CLKCTL) (\<lambda>r2.
     let clkdiv = r1 AND BITS 0 7;
         clkdiv = clkdiv + drop_bit 31 (r2 AND BIT 31) * 256;
         clkdiv = clkdiv + 2
     in if clkdiv = 0 then faultM Division_By_Zero else ret (168000 div clkdiv)))"

definition sd_erase :: "hw \<Rightarrow> u32 \<Rightarrow> u32 \<Rightarrow> ('z sdcard_scheme, sd_error) cm" where
  "sd_erase h startaddr endaddr =
     bindM (getM (\<lambda>s. (csd_ccc (sd_csd s), cardtype s))) (\<lambda>(tempccc, t).
     if tempccc AND SD_CCC_ERASE = 0 then ret SD_FUNCTION_UNSUPPORTED
     else bindM (erase_delay h) (\<lambda>delay.
     bindM (card_locked h) (\<lambda>locked.
     if locked then ret SD_LOCK_UNLOCK_FAILED
     else let startaddr = (if t = SDIO_HIGH_CAPACITY_SD_CARD then startaddr div 512 else startaddr);
              endaddr = (if t = SDIO_HIGH_CAPACITY_SD_CARD then endaddr div 512 else endaddr)
     in check_ok (if sd_memory_card t
                  then check_ok (cmd_r1 h SD_CMD_ERASE_WR_BLK_START startaddr) (cmd_r1 h SD_CMD_ERASE_WR_BLK_END endaddr)
                  else ret SD_OK)
    (check_ok (cmd_r1 h SD_CMD_ERASE 0)
    (bindM (whileM (\<lambda>count. ret (count < delay)) (\<lambda>count. ret (count + 1)) (0 :: u32)) (\<lambda>_.
     wait_programmed h))))))"

definition tx_errors :: "(u32 \<times> sd_error) list" where
  "tx_errors = [(SDIO_FLAG_DTCRCERR, SD_DATA_CRC_ERROR), (SDIO_FLAG_DTTMOUT, SD_DATA_TIMEOUT),
     (SDIO_FLAG_TXURE, SD_TX_UNDERRUN_ERROR), (SDIO_FLAG_STBITE, SD_START_BIT_ERROR)]"

text \<open>CMD13 is repeated until the card's buffer is empty, at most 100000 times.\<close>

definition wait_ready :: "hw \<Rightarrow> ('z sdcard_scheme, sd_error) cm" where
  "wait_ready h =
     check_ok (send_status h)
    (bindM (sdio_response_get h 0) (\<lambda>response.
     bindM (whileM (\<lambda>(status, response, timeout :: u32).
              ret (status = SD_OK \<and> response AND SD_R1_READY_FOR_DATA = 0 \<and> timeout > 0))
              (\<lambda>(status, response, timeout).
               bindM (send_status h) (\<lambda>status.
               if status \<noteq> SD_OK then ret (status, response, timeout - 1)
               else bindM (sdio_response_get h 0) (\<lambda>response. ret (status, response, timeout - 1))))
              (SD_OK, response, 100000)) (\<lambda>(status, response, timeout).
     if status \<noteq> SD_OK then ret status
     else if timeout = 0 then ret SD_ERROR
     else ret SD_OK)))"

definition dsm_clear :: "hw \<Rightarrow> ('z bus_scheme, unit) cm" where
  "dsm_clear h =
     seqM [sdio_data_config h 0 0 0, sdio_data_transfer_config h 0 0, sdio_dsm_disable h, sdio_dma_disable h]"

definition sd_lock_unlock :: "hw \<Rightarrow> u8 \<Rightarrow> ('z sdcard_scheme, sd_error) cm" where
  "sd_lock_unlock h lockstate =
     bindM (getM (\<lambda>s. csd_ccc (sd_csd s))) (\<lambda>tempccc.
     if tempccc AND SD_CCC_LOCK_CARD = 0 then ret SD_FUNCTION_UNSUPPORTED
     else thenM (dsm_clear h)
    (check_ok (cmd_r1 h SD_CMD_SET_BLOCKLEN 8)
    (check_ok (wait_ready h)
    (check_ok (cmd_r1 h SD_CMD_LOCK_UNLOCK 0)
    (bindM (sdio_response_get h 0) (\<lambda>response.
     thenM (seqM [sdio_data_config h SD_DATATIMEOUT 8 (push_bit 4 3),
                  sdio_data_transfer_config h 0 0,
                  sdio_dsm_enable h,
                  sdio_data_write (0x01020600 OR ucast lockstate),
                  sdio_data_write 0x03040506])
    (check_ok (first_flag h tx_errors)
    (thenM (sdio_flag_clear SDIO_MASK_INTC_FLAGS) (wait_programmed h)))))))))"

section \<open>Interrupts\<close>

definition SD_INT_ALL :: u32 where
  "SD_INT_ALL = SDIO_FLAG_DTCRCERR OR SDIO_FLAG_DTTMOUT OR SDIO_FLAG_DTEND OR SDIO_FLAG_STBITE OR
     SDIO_FLAG_TFH OR SDIO_FLAG_RFH OR SDIO_FLAG_TXURE OR SDIO_FLAG_RXORE"

definition irq_dtend :: "hw \<Rightarrow> ('z sdcard_scheme, sd_error) cm" where
  "irq_dtend h =
     bindM (getM stopcondition) (\<lambda>sc.
     bindM (if sc = 1 then sd_transfer_stop h else ret SD_OK) (\<lambda>e.
     thenM (seqM [modM (\<lambda>s. s\<lparr>transerror := e\<rparr>),
                  sdio_interrupt_flag_clear SDIO_FLAG_DTEND,
                  sdio_interrupt_disable h SD_INT_ALL,
                  modM (\<lambda>s. s\<lparr>transend := 1, number_bytes := 0\<rparr>)])
           (ret e)))"

text \<open>The tests that follow, all of the same form.\<close>

primrec irq_errors :: "hw \<Rightarrow> (u32 \<times> sd_error) list \<Rightarrow> ('z sdcard_scheme, sd_error) cm" where
  "irq_errors h [] = getM transerror"
| "irq_errors h (fe # fs) =
     bindM (sdio_interrupt_flag_get h (fst fe)) (\<lambda>f.
     if f then thenM (seqM [sdio_interrupt_flag_clear (fst fe),
                            sdio_interrupt_disable h SD_INT_ALL,
                            modM (\<lambda>s. s\<lparr>number_bytes := 0, transerror := snd fe\<rparr>)])
                     (ret (snd fe))
     else irq_errors h fs)"

definition irq_order :: "(u32 \<times> sd_error) list" where
  "irq_order = [(SDIO_FLAG_DTCRCERR, SD_DATA_CRC_ERROR), (SDIO_FLAG_DTTMOUT, SD_DATA_TIMEOUT),
     (SDIO_FLAG_STBITE, SD_START_BIT_ERROR), (SDIO_FLAG_TXURE, SD_TX_UNDERRUN_ERROR), (SDIO_FLAG_RXORE, SD_RX_OVERRUN_ERROR)]"

definition sd_interrupts_process :: "hw \<Rightarrow> ('z sdcard_scheme, sd_error) cm" where
  "sd_interrupts_process h =
     thenM (modM (\<lambda>s. s\<lparr>transerror := SD_OK\<rparr>))
    (bindM (sdio_interrupt_flag_get h SDIO_FLAG_DTEND) (\<lambda>f.
     if f then irq_dtend h else irq_errors h irq_order))"

definition SDIO_IRQHandler :: "hw \<Rightarrow> ('z sdcard_scheme, unit) cm" where
  "SDIO_IRQHandler h = bindM (sd_interrupts_process h) (\<lambda>_. ret ())"

section \<open>The commands a history issues\<close>

lemma iolog_simp: "iolog (s\<lparr>iolog := l\<rparr>) = l"
  by simp

lemma or_zero: "x OR 0 = (x :: u32)"
  by simp

text \<open>
  A command is issued when the command register is written with its enable bit (bit 10) set: its index
  is in the low bits of that register, its argument in the argument register. \<open>issued\<close> lists the
  commands of a history, oldest first.
\<close>

fun issued :: "io_log \<Rightarrow> (u8 \<times> u32) list" where
  "issued [] = []"
| "issued (Wr a v # l) =
     (if a = SDIO_CMDCTL \<and> bit v 10
      then issued l @ [(ucast (v AND 0x3F), case last_wr SDIO_CMDAGMT l of None \<Rightarrow> 0 | Some x \<Rightarrow> x)]
      else issued l)"
| "issued (Rd a v # l) = issued l"
| "issued (Idle # l) = issued l"

text \<open>The accesses to the data FIFO, oldest first.\<close>

fun fifo_io :: "io_log \<Rightarrow> io list" where
  "fifo_io [] = []"
| "fifo_io (Wr a v # l) = (if a = SDIO_FIFO then fifo_io l @ [Wr a v] else fifo_io l)"
| "fifo_io (Rd a v # l) = (if a = SDIO_FIFO then fifo_io l @ [Rd a v] else fifo_io l)"
| "fifo_io (Idle # l) = fifo_io l"

definition same_cmds :: "'z bus_scheme \<Rightarrow> 'z bus_scheme \<Rightarrow> bool" where
  "same_cmds s t \<longleftrightarrow> issued (iolog t) = issued (iolog s) \<and> fifo_io (iolog t) = fifo_io (iolog s)"

interpretation cmds: frame_rel "same_cmds :: 'z bus_scheme \<Rightarrow> 'z bus_scheme \<Rightarrow> bool"
  by unfold_locales (simp_all add: same_cmds_def)

named_theorems silent_intros \<open>rules for computations that issue no command and transfer no data\<close>

lemma silent_basic [silent_intros]:
  "a \<noteq> SDIO_FIFO \<Longrightarrow> keeps same_cmds (rd32 h a)"
  "a \<noteq> SDIO_CMDCTL \<Longrightarrow> a \<noteq> SDIO_FIFO \<Longrightarrow> keeps same_cmds (wr32 a v)"
  "a \<noteq> SDIO_CMDCTL \<Longrightarrow> a \<noteq> SDIO_FIFO \<Longrightarrow> keeps same_cmds (mod32 h a f)"
  "a \<noteq> SDIO_CMDCTL \<Longrightarrow> a \<noteq> SDIO_FIFO \<Longrightarrow> keeps same_cmds (setbits h a m)"
  "a \<noteq> SDIO_CMDCTL \<Longrightarrow> a \<noteq> SDIO_FIFO \<Longrightarrow> keeps same_cmds (clrbits h a m)"
  by (simp_all add: keeps_def wp_simps same_cmds_def bits_defs)

declare cmds.keeps_ret [silent_intros] cmds.keeps_getM [silent_intros] cmds.keeps_intros [silent_intros]
  keeps_check_ok [OF cmds.frame_rel_axioms, silent_intros]

lemma neq_CMDCTL [simp]:
  "SDIO_PWRCTL \<noteq> SDIO_CMDCTL" "SDIO_CLKCTL \<noteq> SDIO_CMDCTL" "SDIO_DATATO \<noteq> SDIO_CMDCTL" "SDIO_DATALEN \<noteq> SDIO_CMDCTL"
  "SDIO_DATACTL \<noteq> SDIO_CMDCTL" "SDIO_INTEN \<noteq> SDIO_CMDCTL" "SDIO_FIFO \<noteq> SDIO_CMDCTL"
  "SDIO_CMDAGMT \<noteq> SDIO_CMDCTL" "SDIO_CMDCTL \<noteq> SDIO_CMDAGMT" "SDIO_CMDCTL \<noteq> SDIO_FIFO"
  by (simp_all add: sdio_regs)

lemma neq_FIFO [simp]:
  "SDIO_PWRCTL \<noteq> SDIO_FIFO" "SDIO_CLKCTL \<noteq> SDIO_FIFO" "SDIO_DATATO \<noteq> SDIO_FIFO" "SDIO_DATALEN \<noteq> SDIO_FIFO"
  "SDIO_DATACTL \<noteq> SDIO_FIFO" "SDIO_INTEN \<noteq> SDIO_FIFO" "SDIO_CMDAGMT \<noteq> SDIO_FIFO" "SDIO_STAT \<noteq> SDIO_FIFO"
  "SDIO_RSPCMDIDX \<noteq> SDIO_FIFO" "SDIO_RESP0 \<noteq> SDIO_FIFO" "SDIO_RESP1 \<noteq> SDIO_FIFO" "SDIO_RESP2 \<noteq> SDIO_FIFO"
  "SDIO_RESP3 \<noteq> SDIO_FIFO" "SDIO_INTC \<noteq> SDIO_FIFO"
  by (simp_all add: sdio_regs)

lemma silent_sdio [silent_intros]:
  "keeps same_cmds (sdio_response_get h x)" "keeps same_cmds (sdio_command_index_get h)"
  "keeps same_cmds (sdio_flag_get h f)" "keeps same_cmds (sdio_flag_clear f)"
  "keeps same_cmds (sdio_data_config h t n b)"
  "keeps same_cmds (sdio_data_transfer_config h tm td)" "keeps same_cmds (sdio_dsm_enable h)"
  "keeps same_cmds (sdio_dsm_disable h)" "keeps same_cmds (sdio_dma_enable h)" "keeps same_cmds (sdio_dma_disable h)"
  "keeps same_cmds (sdio_interrupt_enable h f)" "keeps same_cmds (sdio_interrupt_disable h f)"
  "keeps same_cmds (sdio_interrupt_flag_get h f)" "keeps same_cmds (sdio_interrupt_flag_clear f)"
  unfolding sdio_defs by (intro silent_intros; simp)+

lemma silent_wait [silent_intros]: "keeps same_cmds (wait_response h)" "keeps same_cmds (card_locked h)"
  unfolding wait_response_def card_locked_def by (intro silent_intros; simp)+

lemma silent_r1 [silent_intros]: "keeps same_cmds (r1_error_check h c)"
  unfolding r1_error_check_def by (intro silent_intros)

lemma silent_memory [silent_intros]: "keeps same_cmds (modM f)" if "\<And>s. iolog (f s) = iolog s" for f
  using that by (simp add: keeps_def wp_simps same_cmds_def)

lemma command_bits:
  fixes c :: u8 and r v :: u32
  assumes c: "c < 64" and r: "r \<in> {SDIO_RESPONSETYPE_NO, SDIO_RESPONSETYPE_SHORT, SDIO_RESPONSETYPE_LONG}"
  defines "w \<equiv> ((v AND NOT (BIT 10)) AND NOT (BITS 0 5 OR BITS 6 7)) OR (ucast c OR r)"
  shows "\<not> bit (v AND NOT (BIT 10)) 10" "\<not> bit w 10" "\<not> bit (w AND NOT (BIT 8 OR BIT 9)) 10"
    "bit ((w AND NOT (BIT 8 OR BIT 9)) OR BIT 10) 10" "ucast (((w AND NOT (BIT 8 OR BIT 9)) OR BIT 10) AND 0x3F) = c"
proof -
  have b: "BITS 0 5 OR BITS 6 7 = 0xFF" "BIT 8 OR BIT 9 = (0x300 :: u32)"
    by (simp_all add: BITS_def drop_bit_eq_div)
  have c': "(ucast c :: u32) < 64" "r = 0 \<or> r = 0x40 \<or> r = 0xC0"
    using c r by (simp_all add: word_less_nat_alt unsigned_ucast_eq take_bit_nat_eq_self
        SDIO_RESPONSETYPE_NO_def SDIO_RESPONSETYPE_SHORT_def SDIO_RESPONSETYPE_LONG_def)
  have c10: "\<not> bit c 10" using bit_imp_le_length [of c 10] by auto
  show "\<not> bit (v AND NOT (BIT 10)) 10" "bit ((w AND NOT (BIT 8 OR BIT 9)) OR BIT 10) 10" by (simp_all add: bit_simps)
  show w: "\<not> bit w 10" using c10 c'(2) by (auto simp: w_def bit_simps)
  then show "\<not> bit (w AND NOT (BIT 8 OR BIT 9)) 10" unfolding bit_and_iff by blast
  show "ucast (((w AND NOT (BIT 8 OR BIT 9)) OR BIT 10) AND 0x3F) = c"
    unfolding w_def b by (simp only: cmdctl_value [OF c'] cmdctl_index [OF c r] ucast_u8)
qed

lemma wp_sd_command_issued:
  assumes st: "storage_reg h SDIO_CMDCTL rst" and c: "c < 64"
    and r: "r \<in> {SDIO_RESPONSETYPE_NO, SDIO_RESPONSETYPE_SHORT, SDIO_RESPONSETYPE_LONG}"
  shows "wp (sd_command h c a r) (\<lambda>_ t. issued (iolog t) = issued (iolog s) @ [(c, a)] \<and> fifo_io (iolog t) = fifo_io (iolog s)) s"
proof -
  have h: "h l SDIO_CMDCTL = (case last_wr SDIO_CMDCTL l of None \<Rightarrow> rst | Some v \<Rightarrow> v)" for l
    using st by (simp add: storage_reg_def)
  show ?thesis
    unfolding sd_command_def sdio_command_response_config_def sdio_wait_type_set_def sdio_csm_enable_def bits_defs wp_simps
    by (simp only: issued.simps fifo_io.simps last_wr.simps h option.case neq_CMDCTL neq_FIFO refl if_True if_False simp_thms
        iolog_simp or_zero command_bits [OF c r])
qed

text \<open>\<open>trace s cs t\<close>: between \<open>s\<close> and \<open>t\<close> only the bus was used, the commands \<open>cs\<close> were issued, and the
  data FIFO was not touched.\<close>

definition trace :: "'z bus_scheme \<Rightarrow> (u8 \<times> u32) list \<Rightarrow> 'z bus_scheme \<Rightarrow> bool" where
  "trace s cs t \<longleftrightarrow> log_ext s t \<and> issued (iolog t) = issued (iolog s) @ cs \<and> fifo_io (iolog t) = fifo_io (iolog s)"

lemma trace_refl: "trace s [] s"
  by (simp add: trace_def)

lemma trace_silent:
  assumes "trace s cs t" "io_only m" "keeps same_cmds m" "\<And>x u. trace s cs u \<Longrightarrow> Q x u"
  shows "wlp m Q t"
  using assms(1) wlp_conj [OF io_onlyD [OF assms(2)] cmds.keepsD [OF assms(3) cmds.frame_refl], of t]
  by (intro wlp_mono [where Q = Q, OF _ assms(4)])
    (auto simp: trace_def same_cmds_def intro: log_ext_trans elim!: wlp_mono)

lemma trace_command:
  assumes st: "storage_reg h SDIO_CMDCTL rst" and t: "trace s cs t" and c: "c < 64"
    and r: "r \<in> {SDIO_RESPONSETYPE_NO, SDIO_RESPONSETYPE_SHORT, SDIO_RESPONSETYPE_LONG}"
    and Q: "\<And>u. trace s (cs @ [(c, a)]) u \<Longrightarrow> Q () u"
  shows "wlp (sd_command h c a r) Q t"
proof -
  have "wlp (sd_command h c a r) (\<lambda>_. log_ext t) t" by (rule io_onlyD) (rule io_command)
  from wlp_conj [OF this wp_wlp [OF wp_sd_command_issued [OF st c r]]] show ?thesis
    by (rule wlp_mono) (use t in \<open>auto simp: trace_def intro!: Q intro: log_ext_trans\<close>)
qed

lemma trace_cmd_r1:
  assumes "storage_reg h SDIO_CMDCTL rst" "trace s cs t" "c < 64" "\<And>e u. trace s (cs @ [(c, a)]) u \<Longrightarrow> Q e u"
  shows "wlp (cmd_r1 h c a) Q t"
  unfolding cmd_r1_def wp_thenM
  by (rule trace_command [OF assms(1,2,3) resp_short]) (rule trace_silent, auto intro: io_intros silent_intros assms(4))

lemma trace_card_state:
  assumes "storage_reg h SDIO_CMDCTL rst" "trace s cs (t :: 'z sdcard_scheme)"
    "\<And>e u. trace s (cs @ [(SD_CMD_SEND_STATUS, rca_arg (sd_rca s))]) u \<Longrightarrow> Q e u"
  shows "wlp (sd_card_state_get h p) Q t"
proof -
  have rca: "sd_rca t = sd_rca s" using assms(2) by (auto simp: trace_def log_ext_def)
  show ?thesis
    unfolding sd_card_state_get_def wlp_bindM [of "getM sd_rca"] wp_getM wp_thenM rca
    apply (rule trace_command [OF assms(1,2) _ resp_short], simp)
    apply (rule trace_silent, assumption, intro io_intros, intro silent_intros)
    apply (rule assms(3), assumption)
    done
qed

text \<open>Waiting for the card to leave its programming state repeats CMD13.\<close>

lemma trace_wait_programmed:
  assumes h: "storage_reg h SDIO_CMDCTL rst" and t: "trace s cs (t :: 'z sdcard_scheme)"
    and Q: "\<And>n e u. trace s (cs @ replicate (Suc n) (SD_CMD_SEND_STATUS, rca_arg (sd_rca s))) u \<Longrightarrow> Q e u"
  shows "wlp (wait_programmed h) Q t"
proof -
  let ?I = "\<lambda>_ u. \<exists>n. trace s (cs @ replicate (Suc n) (SD_CMD_SEND_STATUS, rca_arg (sd_rca s))) u"
  show ?thesis
    unfolding wait_programmed_def wlp_bindM
    apply (rule trace_card_state [OF h t])
    apply (rule wlp_whileM [where I = ?I])
     apply (rule exI [of _ 0], simp)
    apply (clarsimp simp: wp_ret Q split: prod.splits)
    apply (rule trace_card_state [OF h], assumption)
    apply (rule_tac x = "Suc n" in exI, simp add: replicate_append_same)
    done
qed

section \<open>Termination of the wait for programming\<close>

text \<open>
  The card leaves its programming state in finite time: some measure of the history never grows, and
  shrinks with every status word that reports the states 6 or 7.
\<close>

definition programming_ends :: "hw \<Rightarrow> bool" where
  "programming_ends h \<longleftrightarrow>
     (\<exists>d :: io_log \<Rightarrow> nat. (\<forall>e l. d (e # l) \<le> d l) \<and>
        (\<forall>l. ucast (drop_bit 9 (h l SDIO_RESP0) AND 0xF) \<in> {6, 7 :: u8} \<longrightarrow> d (Rd SDIO_RESP0 (h l SDIO_RESP0) # l) < d l))"

lemma total_card_state: "card_answers h \<Longrightarrow> returns (sd_card_state_get h p)"
  unfolding sd_card_state_get_def by (intro total_intros total_wait_response)

lemma total_wait_programmed:
  assumes h: "card_answers h" and e: "programming_ends h"
  shows "returns (wait_programmed h)"
proof -
  obtain d :: "io_log \<Rightarrow> nat" where d: "\<And>e l. d (e # l) \<le> d l"
    "\<And>l. ucast (drop_bit 9 (h l SDIO_RESP0) AND 0xF) \<in> {6, 7 :: u8} \<Longrightarrow> d (Rd SDIO_RESP0 (h l SDIO_RESP0) # l) < d l"
    using e by (auto simp: programming_ends_def)
  have mono: "d (k @ l) \<le> d l" for k l
    by (induction k) (auto intro: order_trans d(1))
  have step: "wp (sd_card_state_get h p) (\<lambda>(st, c) t. st = SD_OK \<and> (c = 7 \<or> c = 6) \<longrightarrow> d (iolog t) < d (iolog s)) s"
    for p and s :: "'a sdcard_scheme"
  proof (rule returns_wp [OF total_card_state [OF h]])
    have ext: "log_ext s u \<Longrightarrow> d (iolog u) \<le> d (iolog s)" for u by (auto simp: log_ext_def mono)
    show "wlp (sd_card_state_get h p) (\<lambda>(st, c) t. st = SD_OK \<and> (c = 7 \<or> c = 6) \<longrightarrow> d (iolog t) < d (iolog s)) s"
      unfolding sd_card_state_get_def wlp_bindM wp_getM wp_thenM
      apply (rule wlp_mono [OF io_onlyD [OF io_command(1)]])
      apply (rule wlp_mono [OF io_only_wlp [OF io_wait_response]], assumption)
      apply (auto simp: wp_simps sdio_flag_clear_def sdio_command_index_get_def sdio_response_get_def Let_def
          dest!: ext intro!: less_le_trans [OF d(2)] order_trans [OF d(1)])
      done
  qed
  have "wp (whileM (\<lambda>(status, cardstate). ret (status = SD_OK \<and> (cardstate = 7 \<or> cardstate = 6)))
      (\<lambda>(status, cardstate). sd_card_state_get h cardstate) v) (\<lambda>_ _. True) s" for v and s :: "'a sdcard_scheme"
    by (rule wp_whileM [where I = "\<lambda>_ _. True"
          and M = "\<lambda>(status, cardstate) t. if status = SD_OK \<and> (cardstate = 7 \<or> cardstate = 6) then Suc (d (iolog t)) else 0"])
      (auto simp: wp_ret split: prod.splits if_splits intro!: wp_mono [OF step])
  then show ?thesis
    unfolding wait_programmed_def
    by (intro total_intros total_card_state [OF h] wp_returns)
qed

lemma io_erase_delay [io_intros]: "io_only (erase_delay h)"
proof -
  have nz: "(x AND BITS 0 7) + drop_bit 31 (y AND BIT 31) * 256 + 2 \<noteq> 0" for x y :: u32
  proof -
    have m: "BITS 0 7 = mask 8" by (simp add: BITS_def drop_bit_eq_div mask_eq_exp_minus_1)
    have "unat (x AND BITS 0 7) < 256"
      unfolding m take_bit_eq_mask [symmetric] using take_bit_nat_less_exp [of 8 "unat x"]
      by (simp add: unsigned_take_bit_eq)
    moreover have "unat (drop_bit 31 z) \<le> 1" for z :: u32
    proof -
      have "unat z < 2 ^ LENGTH(32)" by (rule unsigned_less)
      then show ?thesis by (simp add: drop_bit_eq_div unat_div)
    qed
    note this [of "y AND BIT 31"]
    ultimately have "unat ((x AND BITS 0 7) + drop_bit 31 (y AND BIT 31) * 256 + 2)
        = unat (x AND BITS 0 7) + unat (drop_bit 31 (y AND BIT 31)) * 256 + 2"
      by (simp add: unat_word_ariths del: push_bit_numeral push_bit_of_1)
    then show ?thesis by (metis add_is_0 unat_0 zero_neq_numeral)
  qed
  show ?thesis
    unfolding erase_delay_def Let_def by (intro io_intros) (simp only: nz)
qed

lemma total_erase_delay [total_intros]: "returns (erase_delay h)"
  unfolding erase_delay_def by (intro total_intros)

lemma silent_erase_delay: "keeps same_cmds (erase_delay h)"
  unfolding keeps_def
proof
  fix s :: "'a bus_scheme"
  have "wlp (erase_delay h) (\<lambda>_. log_ext s) s" by (rule io_onlyD) (rule io_intros)
  then show "wlp (erase_delay h) (\<lambda>_. same_cmds s) s"
    by (auto simp: erase_delay_def wp_simps Let_def same_cmds_def)
qed

lemma delay_loop:
  "io_only (whileM (\<lambda>count. ret (count < n)) (\<lambda>count. ret (count + 1)) (0 :: u32))"
  "keeps same_cmds (whileM (\<lambda>count. ret (count < n)) (\<lambda>count. ret (count + 1)) (0 :: u32))"
  "returns (whileM (\<lambda>count. ret (count < n)) (\<lambda>count. ret (count + 1)) (0 :: u32))"
proof -
  have "unat (v + 1) = unat v + 1" if "v < n" for v
  proof -
    have "unat n < 2 ^ LENGTH(32)" by (rule unsigned_less)
    then show ?thesis using that by (intro u32_plus_one_unat) (simp add: word_less_nat_alt)
  qed
  then show "returns (whileM (\<lambda>count. ret (count < n)) (\<lambda>count. ret (count + 1)) (0 :: u32))"
    by (intro total_whileM [where M = "\<lambda>c. unat n - unat c"]) (auto simp: total_basic run_simps word_less_nat_alt)
qed (intro io_intros silent_intros)+

lemma check_ok_assoc: "check_ok (check_ok a b) c = check_ok a (check_ok b c)"
  by (auto simp: check_ok_def bindM_assoc fun_eq_iff bindM_def ret_run split: option.splits sum.splits)

lemma wlp_ifI: "(b \<Longrightarrow> wlp m Q s) \<Longrightarrow> (\<not> b \<Longrightarrow> wlp n Q s) \<Longrightarrow> wlp (if b then m else n) Q s"
  by simp

lemma trace_check:
  assumes "storage_reg h SDIO_CMDCTL rst" "trace s cs t" "c < 64"
    "\<And>e u. trace s (cs @ [(c, a)]) u \<Longrightarrow> e \<noteq> SD_OK \<Longrightarrow> Q e u" "\<And>u. trace s (cs @ [(c, a)]) u \<Longrightarrow> wlp k Q u"
  shows "wlp (check_ok (cmd_r1 h c a) k) Q t"
  unfolding wp_check_ok by (rule trace_cmd_r1 [OF assms(1-3)]) (simp add: assms(4,5))

text \<open>The commands of an erase, and what is left of them when it is given up.\<close>

definition erase_commands :: "'z sdcard_scheme \<Rightarrow> u32 \<Rightarrow> u32 \<Rightarrow> nat \<Rightarrow> (u8 \<times> u32) list" where
  "erase_commands s startaddr endaddr n =
     (let u = (if cardtype s = SDIO_HIGH_CAPACITY_SD_CARD then 512 else 1) in
      [(SD_CMD_ERASE_WR_BLK_START, startaddr div u), (SD_CMD_ERASE_WR_BLK_END, endaddr div u), (SD_CMD_ERASE, 0)] @
      replicate n (SD_CMD_SEND_STATUS, rca_arg (sd_rca s)))"

lemma wlp_sd_erase:
  assumes h: "storage_reg h SDIO_CMDCTL rst" and m: "sd_memory_card (cardtype s)"
    and cc: "csd_ccc (sd_csd s) AND SD_CCC_ERASE \<noteq> 0"
  shows "wlp (sd_erase h a b) (\<lambda>e t. \<exists>k n. trace s (take k (erase_commands s a b n)) t \<and> (e = SD_OK \<longrightarrow> n > 0 \<and> k = 3 + n)) s"
    (is "wlp _ ?Q s")
proof -
  define u :: u32 where "u = (if cardtype s = SDIO_HIGH_CAPACITY_SD_CARD then 512 else 1)"
  let ?l = "[(SD_CMD_ERASE_WR_BLK_START, a div u), (SD_CMD_ERASE_WR_BLK_END, b div u), (SD_CMD_ERASE, 0 :: u32)]"
  have giveup: "?Q e t" if "trace s (take k ?l) t" "e \<noteq> SD_OK" "k \<le> 3" for e t k
    using that by (intro exI [of _ k] exI [of _ 0]) (auto simp: erase_commands_def Let_def u_def)
  have full: "?Q e t" if "trace s (?l @ replicate (Suc n) (SD_CMD_SEND_STATUS, rca_arg (sd_rca s))) t" for e t n
    using that by (intro exI [of _ "4 + n"] exI [of _ "Suc n"]) (simp add: erase_commands_def Let_def u_def)
  have args: "(if cardtype s = SDIO_HIGH_CAPACITY_SD_CARD then x div 512 else x) = x div u" for x by (simp add: u_def)
  show ?thesis
    unfolding sd_erase_def wlp_bindM wp_getM
    using m cc apply (simp only: split_beta fst_conv snd_conv if_False wlp_bindM args Let_def if_True check_ok_assoc)
    apply (rule trace_silent [OF trace_refl], rule io_intros, rule silent_erase_delay)
    apply (rule trace_silent, assumption, rule io_intros, rule silent_intros)
    apply (rule wlp_ifI, simp only: wp_ret, rule giveup [of 0], simp, simp, simp)
    apply (rule trace_check [OF h], assumption, simp, rule giveup [of 1], simp, simp, simp)
    apply (rule trace_check [OF h], assumption, simp, rule giveup [of 2], simp add: numeral_2_eq_2, simp, simp)
    apply (rule trace_check [OF h], assumption, simp, rule giveup [of 3], simp add: numeral_3_eq_3, simp, simp)
    apply (simp only: wlp_bindM)
    apply (rule trace_silent, assumption, rule delay_loop, rule delay_loop)
    apply (rule trace_wait_programmed [OF h], assumption)
    apply (rule full, simp)
    done
qed

section \<open>Properties\<close>

lemma total_sd_erase: "card_answers h \<Longrightarrow> programming_ends h \<Longrightarrow> returns (sd_erase h a b)"
  unfolding sd_erase_def by (intro total_intros total_answers total_wait_programmed delay_loop(3))

text \<open>
  Erasing follows the protocol. On a memory card whose CSD register lists the erase class, the
  commands that \<open>sd_erase\<close> issues are CMD32 and CMD33 with the two addresses, in units of 512 bytes
  for high capacity cards, then CMD38, then CMD13 until the card has left its programming state; if it
  gives up, then after a prefix of these, so that CMD38 is never sent unless both limits were
  accepted. Without the erase class nothing is sent at all. It always returns if the card
  answers commands and finishes programming, and changes no variable.
\<close>

theorem sd_erase_follows_protocol:
  assumes "storage_reg h SDIO_CMDCTL rst" "card_answers h" "programming_ends h" "sd_memory_card (cardtype s)"
  shows "wp (sd_erase h startaddr endaddr)
           (\<lambda>e t. if csd_ccc (sd_csd s) AND SD_CCC_ERASE = 0 then e = SD_FUNCTION_UNSUPPORTED \<and> t = s
                  else log_ext s t \<and> (\<exists>k n. issued (iolog t) = issued (iolog s) @ take k (erase_commands s startaddr endaddr n) \<and>
                                             (e = SD_OK \<longrightarrow> n > 0 \<and> k = 3 + n))) s"
proof (cases "csd_ccc (sd_csd s) AND SD_CCC_ERASE = 0")
  case True
  then show ?thesis by (simp add: sd_erase_def wp_simps)
next
  case False
  have "wp (sd_erase h startaddr endaddr) (\<lambda>e t. \<exists>k n. trace s (take k (erase_commands s startaddr endaddr n)) t \<and>
      (e = SD_OK \<longrightarrow> n > 0 \<and> k = 3 + n)) s"
    by (rule returns_wp [OF total_sd_erase [OF assms(2,3)] wlp_sd_erase [OF assms(1,4) False]])
  then show ?thesis
    by (rule wp_mono) (auto simp: trace_def False)
qed

definition demo_sdhc :: hw where
  "demo_sdhc l a =
     (let c = (case last_wr SDIO_CMDCTL l of None \<Rightarrow> 0 | Some v \<Rightarrow> v) in
      if a = SDIO_CMDCTL then c
      else if a = SDIO_PWRCTL then 3
      else if a = SDIO_STAT then 0xC0
      else if a = SDIO_RSPCMDIDX then c AND 0x3F
      else if a = SDIO_RESP0 then (if c AND 0x3F = 41 then 0xC0FF8000 else if c AND 0x3F = 3 then 0x12340500 else 0x900)
      else if a \<in> {SDIO_RESP1, SDIO_RESP2, SDIO_RESP3} then 7
      else 0)"

lemma demo_sdhc_works:
  "storage_reg demo_sdhc SDIO_CMDCTL 0" "card_answers demo_sdhc" "programming_ends demo_sdhc"
proof -
  show "storage_reg demo_sdhc SDIO_CMDCTL 0" by (simp add: storage_reg_def demo_sdhc_def Let_def)
  show "card_answers demo_sdhc"
    by (simp add: card_answers_def responds_def demo_sdhc_def CMD_DONE_iff sdio_regs Let_def bit_numeral_rec)
  have s: "demo_sdhc l SDIO_RESP0 \<in> {0xC0FF8000, 0x12340500, 0x900}" for l
    by (simp add: demo_sdhc_def sdio_regs Let_def)
  have "ucast (drop_bit 9 (demo_sdhc l SDIO_RESP0) AND 0xF) \<notin> {6, 7 :: u8}" for l
    using s [of l] by (auto simp: drop_bit_eq_div)
  then show "programming_ends demo_sdhc"
    unfolding programming_ends_def by (intro exI [of _ "\<lambda>_. 0"]) blast
qed

theorem sd_erase_follows_protocol_witness:
  "wp (sd_erase demo_sdhc 0x400 0x800) (\<lambda>e t. \<exists>k n. issued (iolog t) =
        take k ([(SD_CMD_ERASE_WR_BLK_START, 2), (SD_CMD_ERASE_WR_BLK_END, 4), (SD_CMD_ERASE, 0)] @
          replicate n (SD_CMD_SEND_STATUS, 0x12340000)) \<and> (e = SD_OK \<longrightarrow> n > 0 \<and> k = 3 + n))
      (sdcard.make [] [0, 0] SDIO_HIGH_CAPACITY_SD_CARD [0, 0x5B590000, 0, 0] [0, 0, 0, 0] 0x1234 1 0 0 SD_OK 0 0 Map.empty)"
proof -
  let ?s = "sdcard.make [] [0, 0] SDIO_HIGH_CAPACITY_SD_CARD [0, 0x5B590000, 0, 0] [0, 0, 0, 0] 0x1234 1 0 0 SD_OK 0 0 Map.empty"
  have "csd_ccc [0, 0x5B590000, 0, 0] AND SD_CCC_ERASE \<noteq> 0"
    by (simp add: csd_ccc_def SD_CCC_ERASE_def Let_def drop_bit_eq_div)
  then show ?thesis
    by (intro wp_mono [OF sd_erase_follows_protocol [OF demo_sdhc_works]])
      (simp_all add: sdcard.make_def erase_commands_def rca_arg_def Let_def)
qed

text \<open>What the interrupt routine is meant to report for a status word.\<close>

definition irq_status :: "u32 \<Rightarrow> sd_error" where
  "irq_status v =
     (if bit v 8 then SD_OK else if bit v 1 then SD_DATA_CRC_ERROR else if bit v 3 then SD_DATA_TIMEOUT
      else if bit v 9 then SD_START_BIT_ERROR else if bit v 4 then SD_TX_UNDERRUN_ERROR
      else if bit v 5 then SD_RX_OVERRUN_ERROR else SD_OK)"

abbreviation irq_pending :: "u32 \<Rightarrow> bool" where
  "irq_pending v \<equiv> \<exists>n \<in> {1, 3, 4, 5, 8, 9}. bit v n"

lemma SDIO_INTC_INTEN [simp]: "SDIO_INTC \<noteq> SDIO_INTEN" "SDIO_INTEN \<noteq> SDIO_INTC"
  by (simp_all add: sdio_regs)

text \<open>The interrupt enable register was last written with all data interrupts off.\<close>

definition ints_off :: "io_log \<Rightarrow> bool" where
  "ints_off l \<longleftrightarrow> (\<exists>v. last_wr SDIO_INTEN l = Some v \<and> v AND SD_INT_ALL = 0)"

lemma ints_off_write [simp]: "ints_off (Wr SDIO_INTEN (x AND NOT SD_INT_ALL) # l)"
  unfolding ints_off_def by (rule exI [of _ "x AND NOT SD_INT_ALL"]) (auto intro!: bit_word_eqI simp: bit_simps)

lemma irq_errors_wp:
  assumes v: "\<And>l. h l SDIO_STAT = v" and s: "transerror s = SD_OK" and nb: "\<not> bit v 8"
  shows "wp (irq_errors h irq_order) (\<lambda>e t. e = irq_status v \<and> transerror t = e \<and> transend t = transend s \<and>
           (irq_pending v \<longrightarrow> number_bytes t = 0 \<and> ints_off (iolog t))) s"
  using s nb
  by (simp add: irq_order_def wp_simps sdio_interrupt_flag_get_def sdio_interrupt_flag_clear_def
      sdio_interrupt_disable_def bits_defs v flag_tests irq_status_def)

text \<open>
  The interrupt routine reports the cause of the interrupt. For a status word \<open>v\<close> the result, which
  is also left in \<open>transerror\<close>, is the error of the first flag in the order checksum, timeout, start
  bit, underrun, overrun, and none of them if the transfer is complete; a completed transfer sets
  \<open>transend\<close>. In every case but a spurious interrupt all data interrupts are switched off, and the
  waiting transfer routine is released: \<open>transend\<close> or \<open>transerror\<close> is set. (A multiple block transfer
  is also stopped by CMD12, and then the result is the status of this command.)
\<close>

theorem interrupt_reports_cause:
  assumes v: "\<And>l. h l SDIO_STAT = v" and stop: "stopcondition s = 1 \<longrightarrow> bit v 8 \<longrightarrow> v AND CMD_DONE \<noteq> 0"
  shows "wp (sd_interrupts_process h)
           (\<lambda>e t. transerror t = e \<and> (stopcondition s \<noteq> 1 \<or> \<not> bit v 8 \<longrightarrow> e = irq_status v) \<and>
                  transend t = (if bit v 8 then 1 else transend s) \<and>
                  (irq_pending v \<longrightarrow> number_bytes t = 0 \<and> (transend t \<noteq> 0 \<or> transerror t \<noteq> SD_OK) \<and>
                     ints_off (iolog t))) s"
proof (cases "bit v 8")
  case False
  show ?thesis
    unfolding sd_interrupts_process_def wp_thenM wp_modM wp_bindM sdio_interrupt_flag_get_def wp_rd32 wp_ret
    by (simp add: v flag_tests False, rule wp_mono [OF irq_errors_wp [where v = v and h = h]])
      (auto simp: irq_status_def False v)
next
  case True
  have ans: "card_answers h" if "stopcondition s = 1"
    using that stop True by (simp add: card_answers_def responds_def v)
  note sim = wp_simps sdio_interrupt_flag_clear_def sdio_interrupt_disable_def bits_defs irq_status_def True
  show ?thesis
    unfolding sd_interrupts_process_def wp_thenM wp_modM wp_bindM sdio_interrupt_flag_get_def wp_rd32 wp_ret
    apply (simp add: v flag_tests True irq_dtend_def wp_simps sd_transfer_stop_def, intro conjI impI)
     apply (rule wp_io_then [OF log_ext_refl], intro io_intros, rule total_answers [OF ans], assumption)
     apply (simp_all add: sim)
    done
qed

theorem interrupt_reports_cause_witness:
  "wp (sd_interrupts_process (\<lambda>l a. if a = SDIO_STAT then 0x2 else 0)) (\<lambda>e t. e = SD_DATA_CRC_ERROR \<and> transerror t = e)
      (sdcard.make [] [0, 0] SDIO_HIGH_CAPACITY_SD_CARD [0, 0, 0, 0] [0, 0, 0, 0] 0x1234 0 0 0 SD_OK 0 0 Map.empty)"
  by (rule wp_mono [OF interrupt_reports_cause [where v = 2]]) (simp_all add: sdcard.make_def irq_status_def bit_numeral_rec)

end
