(* ===== verification/Sd_Identify.thy ===== *)
theory Sd_Identify
  imports Sd_Control
begin

text \<open>
  The start of an SD memory card of version 2.0 or later. The card is the state machine of the SD
  specification from power-on to the stand-by state: it takes only the commands that its state allows,
  an application command only after CMD55 for its address, needs some rounds of ACMD41 before it is
  ready, and answers after some time. On every such card \<open>sd_init\<close> goes through the identification and
  holds the card's registers at the end.
\<close>

section \<open>The card\<close>

datatype phase = Idle_State | Ready_State | Ident_State | Standby_State

text \<open>
  \<open>app\<close>: the next command is an application command; \<open>conds\<close>: the rounds of ACMD41 so far; \<open>checked\<close>: CMD8
  was received.
\<close>

record sd_state =
  phase :: phase
  app :: bool
  conds :: nat
  checked :: bool

text \<open>What distinguishes one card from another; \<open>tries\<close> is the number of rounds of ACMD41 until it is ready.\<close>

record sd_device =
  cid :: "u32 list"
  csd :: "u32 list"
  rca :: u16
  ocr :: u32
  tries :: nat

definition power_up :: sd_state where
  "power_up = \<lparr>phase = Idle_State, app = False, conds = 0, checked = False\<rparr>"

text \<open>The commands a card answers; \<open>a\<close> is the argument.\<close>

definition legal :: "sd_device \<Rightarrow> sd_state \<Rightarrow> u8 \<times> u32 \<Rightarrow> bool" where
  "legal dv k x = (case x of (c, a) \<Rightarrow>
     if c = SD_CMD_GO_IDLE_STATE then True
     else if c = SD_CMD_SEND_IF_COND then phase k = Idle_State \<and> a AND 0xF00 = 0x100
     else if c = SD_CMD_APP_CMD then drop_bit 16 a = (if phase k = Standby_State then ucast (rca dv) else 0)
     else if c = SD_APPCMD_SD_SEND_OP_COND
     then phase k = Idle_State \<and> app k \<and> a AND 0xFF8000 \<noteq> 0 \<and> (bit (ocr dv) 30 \<longrightarrow> checked k \<and> bit a 30)
     else if c = SD_CMD_ALL_SEND_CID then phase k = Ready_State
     else if c = SD_CMD_SEND_RELATIVE_ADDR then phase k = Ident_State
     else if c = SD_CMD_SEND_CSD then phase k = Standby_State \<and> drop_bit 16 a = ucast (rca dv)
     else False)"

definition obey :: "sd_device \<Rightarrow> u8 \<times> u32 \<Rightarrow> sd_state \<Rightarrow> sd_state" where
  "obey dv x k = (let c = fst x in
     if \<not> legal dv k x then k\<lparr>app := False\<rparr>
     else if c = SD_CMD_GO_IDLE_STATE then power_up
     else if c = SD_CMD_SEND_IF_COND then k\<lparr>app := False, checked := True\<rparr>
     else if c = SD_CMD_APP_CMD then k\<lparr>app := True\<rparr>
     else if c = SD_APPCMD_SD_SEND_OP_COND
     then k\<lparr>app := False, conds := Suc (conds k), phase := (if Suc (conds k) \<ge> tries dv then Ready_State else Idle_State)\<rparr>
     else if c = SD_CMD_ALL_SEND_CID then k\<lparr>app := False, phase := Ident_State\<rparr>
     else if c = SD_CMD_SEND_RELATIVE_ADDR then k\<lparr>app := False, phase := Standby_State\<rparr>
     else k\<lparr>app := False\<rparr>)"

definition after_cmds :: "sd_device \<Rightarrow> (u8 \<times> u32) list \<Rightarrow> sd_state" where
  "after_cmds dv cs = fold (obey dv) cs power_up"

text \<open>
  The answer to the command \<open>c\<close> in the response registers; \<open>k\<close> is the state the command leads to. Only a
  card that is ready shows its operating conditions and leaves the busy state (bit 31).
\<close>

definition answer :: "sd_device \<Rightarrow> hw \<Rightarrow> io_log \<Rightarrow> sd_state \<Rightarrow> u8 \<Rightarrow> bool" where
  "answer dv h l k c \<longleftrightarrow>
     (c = SD_CMD_APP_CMD \<longrightarrow> h l SDIO_RESP0 AND SD_R1_ERROR_BITS = 0) \<and>
     (c = SD_APPCMD_SD_SEND_OP_COND \<longrightarrow>
        (if phase k = Ready_State then h l SDIO_RESP0 = ocr dv else \<not> bit (h l SDIO_RESP0) 31)) \<and>
     (c = SD_CMD_SEND_RELATIVE_ADDR \<longrightarrow>
        drop_bit 16 (h l SDIO_RESP0) = ucast (rca dv) \<and> h l SDIO_RESP0 AND (BIT 15 OR BIT 14 OR BIT 13) = 0) \<and>
     (c = SD_CMD_ALL_SEND_CID \<longrightarrow> [h l SDIO_RESP0, h l SDIO_RESP1, h l SDIO_RESP2, h l SDIO_RESP3] = cid dv) \<and>
     (c = SD_CMD_SEND_CSD \<longrightarrow> [h l SDIO_RESP0, h l SDIO_RESP1, h l SDIO_RESP2, h l SDIO_RESP3] = csd dv)"

section \<open>The interface\<close>

text \<open>
  Where the command line is. A write of the command register with its enable bit sends a command; a look
  at the status that shows the flag of its end (sent for CMD0, a response for the others) ends it, and the
  flags that it has raised have to be cleared before the next command. The reset by the clock unit makes
  the line quiet. After anything else the driver knows nothing of the line.
\<close>

datatype line_state = Unknown | Quiet | Waiting | Ended | Served

abbreviation SDIO_RESET :: u32 where
  "SDIO_RESET \<equiv> 0x40023824"

definition end_flags :: "u8 \<Rightarrow> u32" where
  "end_flags c = (if c = SD_CMD_GO_IDLE_STATE then SDIO_FLAG_CMDSEND else CMD_DONE)"

text \<open>The response to ACMD41 has no checksum, which the interface may report as an error.\<close>

definition raised :: "u8 \<Rightarrow> u32" where
  "raised c =
     (if c = SD_CMD_GO_IDLE_STATE then SDIO_FLAG_CMDSEND
      else if c = SD_APPCMD_SD_SEND_OP_COND then SDIO_FLAG_CMDRECV OR SDIO_FLAG_CCRCERR else SDIO_FLAG_CMDRECV)"

fun line :: "io_log \<Rightarrow> line_state" where
  "line [] = Unknown"
| "line (Wr a v # l) =
     (if a = SDIO_CMDCTL \<and> bit v 10 then (if line l \<in> {Quiet, Served} then Waiting else Unknown)
      else if a = SDIO_INTC
      then (if line l = Waiting then Unknown
            else if line l = Ended \<and> raised (fst (last (issued l))) AND NOT v = 0 then Served else line l)
      else if a = SDIO_RESET \<and> bit v 11 then Quiet
      else line l)"
| "line (Rd a v # l) =
     (if a = SDIO_STAT \<and> line l = Waiting \<and> v AND end_flags (fst (last (issued l))) \<noteq> 0 then Ended else line l)"
| "line (Idle # l) = line l"

text \<open>The value a register was given since the last reset.\<close>

fun kept :: "u32 \<Rightarrow> io_log \<Rightarrow> u32 option" where
  "kept r [] = None"
| "kept r (Wr a v # l) = (if a = r then Some v else if a = SDIO_RESET \<and> bit v 11 then None else kept r l)"
| "kept r (Rd a v # l) = kept r l"
| "kept r (Idle # l) = kept r l"

text \<open>The command \<open>(c, a)\<close>, which the card answers, is the last one, after \<open>cs\<close>: it is under way, or it has ended.\<close>

definition asked :: "sd_device \<Rightarrow> (u8 \<times> u32) list \<Rightarrow> u8 \<Rightarrow> u32 \<Rightarrow> io_log \<Rightarrow> bool" where
  "asked dv cs c a l \<longleftrightarrow> issued l = cs @ [(c, a)] \<and> legal dv (after_cmds dv cs) (c, a) \<and> line l = Waiting"

definition told :: "sd_device \<Rightarrow> (u8 \<times> u32) list \<Rightarrow> u8 \<Rightarrow> u32 \<Rightarrow> io_log \<Rightarrow> bool" where
  "told dv cs c a l \<longleftrightarrow> issued l = cs @ [(c, a)] \<and> legal dv (after_cmds dv cs) (c, a) \<and> line l \<in> {Ended, Served}"

text \<open>
  The interface with the card behind it. The command and the power register hold what they were given.
  While a command that the card answers is under way there is no timeout, and a checksum error only for
  ACMD41; its end comes within 100000 looks at the status, as a measure of the history tells. Only then do
  the registers hold the response: the index of the command, but for the responses that carry none, and
  the answer.
\<close>

definition sd_card :: "sd_device \<Rightarrow> hw \<Rightarrow> bool" where
  "sd_card dv h \<longleftrightarrow>
     (\<forall>l r v. r \<in> {SDIO_CMDCTL, SDIO_PWRCTL} \<longrightarrow> kept r l = Some v \<longrightarrow> h l r = v) \<and>
     length (cid dv) = 4 \<and> length (csd dv) = 4 \<and> bit (ocr dv) 31 \<and> 0 < tries dv \<and> tries dv < 0xFFFF \<and>
     (\<forall>l cs c a. asked dv cs c a l \<longrightarrow>
        \<not> bit (h l SDIO_STAT) 2 \<and> (bit (h l SDIO_STAT) 0 \<longrightarrow> c = SD_APPCMD_SD_SEND_OP_COND)) \<and>
     (\<exists>d :: io_log \<Rightarrow> nat. (\<forall>l. d l < 100000) \<and>
        (\<forall>l cs c a. asked dv cs c a l \<longrightarrow> h l SDIO_STAT AND end_flags c = 0 \<longrightarrow>
           d (Rd SDIO_STAT (h l SDIO_STAT) # l) < d l)) \<and>
     (\<forall>l cs c a. told dv cs c a l \<longrightarrow>
        (c \<in> {SD_CMD_APP_CMD, SD_CMD_SEND_RELATIVE_ADDR} \<longrightarrow> h l SDIO_RSPCMDIDX = ucast c) \<and>
        answer dv h l (after_cmds dv (cs @ [(c, a)])) c)"

section \<open>Waiting for the card\<close>

lemma asked_log:
  "asked dv cs c a l \<Longrightarrow> v AND end_flags c = 0 \<Longrightarrow> asked dv cs c a (Rd SDIO_STAT v # l)"
  by (simp add: asked_def)

lemma told_log:
  "asked dv cs c a l \<Longrightarrow> v AND end_flags c \<noteq> 0 \<Longrightarrow> told dv cs c a (Rd SDIO_STAT v # l)"
  "told dv cs c a l \<Longrightarrow> told dv cs c a (Rd x v # l)"
  "told dv cs c a l \<Longrightarrow> told dv cs c a (Wr SDIO_INTC v # l)"
  by (auto simp: told_def asked_def sdio_regs)

lemma served:
  "told dv cs c a l \<Longrightarrow> raised c AND NOT v = 0 \<Longrightarrow> line (Wr SDIO_INTC v # l) = Served"
  by (auto simp: told_def sdio_regs)

lemma card_facts:
  assumes "sd_card dv h"
  shows "asked dv cs c a l \<Longrightarrow> \<not> bit (h l SDIO_STAT) 2"
    "asked dv cs c a l \<Longrightarrow> bit (h l SDIO_STAT) 0 \<Longrightarrow> c = SD_APPCMD_SD_SEND_OP_COND"
    "told dv cs c a l \<Longrightarrow> c \<in> {SD_CMD_APP_CMD, SD_CMD_SEND_RELATIVE_ADDR} \<Longrightarrow> h l SDIO_RSPCMDIDX = ucast c"
    "told dv cs c a l \<Longrightarrow> answer dv h l (after_cmds dv (cs @ [(c, a)])) c"
  using assms unfolding sd_card_def by blast+

lemma card_kept: "sd_card dv h \<Longrightarrow> r \<in> {SDIO_CMDCTL, SDIO_PWRCTL} \<Longrightarrow> kept r l = Some v \<Longrightarrow> h l r = v"
  unfolding sd_card_def by blast

lemma card_measure:
  assumes "sd_card dv h"
  obtains d :: "io_log \<Rightarrow> nat" where "\<And>l. d l < 100000"
    "\<And>l cs c a. asked dv cs c a l \<Longrightarrow> h l SDIO_STAT AND end_flags c = 0 \<Longrightarrow> d (Rd SDIO_STAT (h l SDIO_STAT) # l) < d l"
  using assms unfolding sd_card_def by metis

lemma wp_wait_answer:
  assumes h: "sd_card dv h" and s: "asked dv cs c a (iolog s)" and c: "c \<noteq> SD_CMD_GO_IDLE_STATE"
    and Q: "\<And>l. asked dv cs c a l \<Longrightarrow> told dv cs c a (Rd SDIO_STAT (h l SDIO_STAT) # l) \<Longrightarrow> h l SDIO_STAT AND CMD_DONE \<noteq> 0 \<Longrightarrow>
      Q (h l SDIO_STAT) (s\<lparr>iolog := Rd SDIO_STAT (h l SDIO_STAT) # l\<rparr>)"
  shows "wp (wait_response h) Q s"
proof -
  have e: "end_flags c = CMD_DONE" using c by (simp add: end_flags_def)
  obtain d :: "io_log \<Rightarrow> nat" where d: "\<And>l. asked dv cs c a l \<Longrightarrow> h l SDIO_STAT AND CMD_DONE = 0 \<Longrightarrow>
      d (Rd SDIO_STAT (h l SDIO_STAT) # l) < d l"
    using card_measure [OF h] e by metis
  let ?I = "\<lambda>v t. \<exists>l. asked dv cs c a l \<and> v = h l SDIO_STAT \<and> t = s\<lparr>iolog := Rd SDIO_STAT v # l\<rparr>"
  note l = asked_log [of dv cs c a, unfolded e] told_log(1) [of dv cs c a, unfolded e]
  show ?thesis
    unfolding wait_response_def wp_bindM wp_rd32
    by (rule wp_whileM [where I = ?I and M = "\<lambda>v t. d (tl (iolog t))"]) (use s in \<open>auto simp: wp_simps d intro: Q l\<close>)
qed

lemma count_dec: "0 < unat n \<Longrightarrow> unat (n - 1) = unat n - 1" for n :: u32
  by (cases "n = 0") (simp_all add: unat_minus_one)

lemma flags_cleared: "raised c AND NOT SDIO_MASK_INTC_FLAGS = 0"
  "c \<noteq> SD_CMD_GO_IDLE_STATE \<Longrightarrow> c \<noteq> SD_APPCMD_SD_SEND_OP_COND \<Longrightarrow> raised c AND NOT SDIO_FLAG_CMDRECV = 0"
  by (simp_all add: raised_def sdio_flags SDIO_MASK_INTC_FLAGS_def)

text \<open>After a check the response is there and the flags are cleared.\<close>

definition seen :: "sd_device \<Rightarrow> (u8 \<times> u32) list \<Rightarrow> u8 \<Rightarrow> u32 \<Rightarrow> io_log \<Rightarrow> bool" where
  "seen dv cs c a l \<longleftrightarrow> told dv cs c a l \<and> line l = Served"

lemma seen_log:
  "told dv cs c a l \<Longrightarrow> raised c AND NOT v = 0 \<Longrightarrow> seen dv cs c a (Wr SDIO_INTC v # l)"
  "seen dv cs c a l \<Longrightarrow> seen dv cs c a (Rd x v # l)"
  by (auto simp: seen_def told_def sdio_regs)

lemma wp_cmdsent:
  assumes h: "sd_card dv h" and s: "asked dv cs SD_CMD_GO_IDLE_STATE a (iolog s)"
  shows "wp (cmdsent_error_check h) (\<lambda>st t. st = SD_OK \<and> seen dv cs SD_CMD_GO_IDLE_STATE a (iolog t)) s"
proof -
  have e: "v AND end_flags SD_CMD_GO_IDLE_STATE = 0 \<longleftrightarrow> \<not> bit v 7" for v by (simp add: end_flags_def flag_tests)
  obtain d :: "io_log \<Rightarrow> nat" where d: "\<And>l. d l < 100000"
    "\<And>l. asked dv cs SD_CMD_GO_IDLE_STATE a l \<Longrightarrow> \<not> bit (h l SDIO_STAT) 7 \<Longrightarrow> d (Rd SDIO_STAT (h l SDIO_STAT) # l) < d l"
    using card_measure [OF h] e by metis
  let ?I = "\<lambda>n t. asked dv cs SD_CMD_GO_IDLE_STATE a (iolog t) \<and> d (iolog t) < unat (n :: u32)"
  show ?thesis
    unfolding cmdsent_error_check_def wp_bindM
  proof (rule wp_whileM [where I = ?I and M = "\<lambda>n t. unat (n :: u32)"], goal_cases)
    case 1
    show ?case using s d(1) by simp
  next
    case (2 n t)
    then have "0 < n" "unat (n - 1) = unat n - 1" by (auto simp: word_less_nat_alt count_dec)
    then show ?case using 2 d(2) [of "iolog t"]
      by (auto simp: wp_simps sdio_flag_get_def sdio_flag_clear_def flag_tests e word_less_nat_alt
          intro!: seen_log flags_cleared told_log(1) asked_log)
  qed
qed

lemma wp_r7:
  assumes h: "sd_card dv h" and s: "asked dv cs SD_CMD_SEND_IF_COND a (iolog s)"
  shows "wp (r7_error_check h) (\<lambda>st t. st = SD_OK \<and> seen dv cs SD_CMD_SEND_IF_COND a (iolog t)) s"
proof -
  have e: "end_flags SD_CMD_SEND_IF_COND = CMD_DONE" by (simp add: end_flags_def)
  obtain d :: "io_log \<Rightarrow> nat" where d: "\<And>l. d l < 100000"
    "\<And>l. asked dv cs SD_CMD_SEND_IF_COND a l \<Longrightarrow> h l SDIO_STAT AND CMD_DONE = 0 \<Longrightarrow> d (Rd SDIO_STAT (h l SDIO_STAT) # l) < d l"
    using card_measure [OF h] e by metis
  note f = card_facts [OF h, of cs SD_CMD_SEND_IF_COND a]
    and lg = asked_log [of dv cs SD_CMD_SEND_IF_COND a, unfolded e] told_log(1) [of dv cs SD_CMD_SEND_IF_COND a, unfolded e]
  let ?I = "\<lambda>(v, n) t. \<exists>l. asked dv cs SD_CMD_SEND_IF_COND a l \<and> v = h l SDIO_STAT \<and>
      t = s\<lparr>iolog := Rd SDIO_STAT v # l\<rparr> \<and> d l < unat (n :: u32)"
  show ?thesis
    unfolding r7_error_check_def wp_bindM wp_rd32
  proof (rule wp_whileM [where I = ?I and M = "\<lambda>(v, n) t. unat (n :: u32)"], goal_cases)
    case 1
    show ?case using s d(1) [of "iolog s"] by auto
  next
    case (2 v t)
    then obtain n l where l: "asked dv cs SD_CMD_SEND_IF_COND a l" "v = (h l SDIO_STAT, n)" "d l < unat n"
        "t = s\<lparr>iolog := Rd SDIO_STAT (h l SDIO_STAT) # l\<rparr>" by (auto split: prod.splits)
    have "0 < n" "unat (n - 1) = unat n - 1" using l(3) by (auto simp: word_less_nat_alt count_dec)
    moreover have "bit (h l SDIO_STAT) 6" if "h l SDIO_STAT AND CMD_DONE \<noteq> 0"
      using that f(1,2) [OF l(1)] unfolding CMD_DONE_iff by auto
    ultimately show ?case
      using l d(2) [OF l(1)] f(1) [OF l(1)]
      by (auto simp: wp_simps sdio_flag_clear_def flag_tests word_less_nat_alt intro!: seen_log flags_cleared lg)
  qed
qed

lemma wp_checks:
  assumes h: "sd_card dv h" and s: "asked dv cs c a (iolog s)"
  shows "c = SD_CMD_APP_CMD \<Longrightarrow> wp (r1_error_check h c) (\<lambda>st t. st = SD_OK \<and> seen dv cs c a (iolog t)) s"
    "c = SD_CMD_ALL_SEND_CID \<or> c = SD_CMD_SEND_CSD \<Longrightarrow>
       wp (r2_error_check h) (\<lambda>st t. st = SD_OK \<and> seen dv cs c a (iolog t)) s"
    "c = SD_APPCMD_SD_SEND_OP_COND \<Longrightarrow> wp (r3_error_check h) (\<lambda>st t. st = SD_OK \<and> seen dv cs c a (iolog t)) s"
    "c = SD_CMD_SEND_RELATIVE_ADDR \<Longrightarrow>
       wp (r6_error_check h c p) (\<lambda>r t. r = (SD_OK, rca dv) \<and> seen dv cs c a (iolog t)) s"
proof -
  note f = card_facts [OF h, of cs c a]
  have u16: "ucast (ucast x :: u32) = x" for x :: u16 by (rule bit_word_eqI) (simp add: bit_simps)
  have r1: "h l SDIO_RESP0 AND SD_R1_ERROR_BITS = 0" if "told dv cs c a l" "c = SD_CMD_APP_CMD" for l
    using f(4) [OF that(1)] that(2) by (simp add: answer_def)
  have r6: "drop_bit 16 (h l SDIO_RESP0) = ucast (rca dv)" "h l SDIO_RESP0 AND (BIT 15 OR BIT 14 OR BIT 13) = 0"
    if "told dv cs c a l" "c = SD_CMD_SEND_RELATIVE_ADDR" for l
    using f(4) [OF that(1)] that(2) by (simp_all add: answer_def)
  note sim = wp_simps sdio_flag_clear_def sdio_response_get_def sdio_command_index_get_def flag_tests f(1) ucast_u8
    and lg = told_log(2,3) seen_log flags_cleared
  show "wp (r1_error_check h c) (\<lambda>st t. st = SD_OK \<and> seen dv cs c a (iolog t)) s" if c: "c = SD_CMD_APP_CMD"
    unfolding r1_error_check_def wp_bindM
    by (rule wp_wait_answer [OF h s]) (use c f(2,3) in \<open>auto simp: sim r1 lg\<close>)
  show "wp (r2_error_check h) (\<lambda>st t. st = SD_OK \<and> seen dv cs c a (iolog t)) s"
    if c: "c = SD_CMD_ALL_SEND_CID \<or> c = SD_CMD_SEND_CSD"
    unfolding r2_error_check_def wp_bindM
    by (rule wp_wait_answer [OF h s]) (use c f(2) in \<open>auto simp: sim lg\<close>)
  show "wp (r3_error_check h) (\<lambda>st t. st = SD_OK \<and> seen dv cs c a (iolog t)) s" if c: "c = SD_APPCMD_SD_SEND_OP_COND"
    unfolding r3_error_check_def wp_bindM
    by (rule wp_wait_answer [OF h s]) (use c in \<open>auto simp: sim lg\<close>)
  show "wp (r6_error_check h c p) (\<lambda>r t. r = (SD_OK, rca dv) \<and> seen dv cs c a (iolog t)) s"
    if c: "c = SD_CMD_SEND_RELATIVE_ADDR"
    unfolding r6_error_check_def wp_bindM
    by (rule wp_wait_answer [OF h s]) (use c f(2,3) in \<open>auto simp: sim r6 [simplified] u16 lg\<close>)
qed

section \<open>The commands in order\<close>

text \<open>
  The bus was used only since \<open>s\<close>, the commands so far are \<open>cs\<close>, the power register holds \<open>p\<close>, and the line is
  free, or a command was just sent.
\<close>

definition on :: "u32 option \<Rightarrow> 'z bus_scheme \<Rightarrow> (u8 \<times> u32) list \<Rightarrow> 'z bus_scheme \<Rightarrow> bool" where
  "on p s cs t \<longleftrightarrow> log_ext s t \<and> issued (iolog t) = cs \<and> kept SDIO_PWRCTL (iolog t) = p \<and> line (iolog t) \<in> {Quiet, Served}"

definition sent :: "u32 option \<Rightarrow> 'z bus_scheme \<Rightarrow> (u8 \<times> u32) list \<Rightarrow> 'z bus_scheme \<Rightarrow> bool" where
  "sent p s cs t \<longleftrightarrow> log_ext s t \<and> issued (iolog t) = cs \<and> kept SDIO_PWRCTL (iolog t) = p \<and> line (iolog t) = Waiting"

definition same_power :: "'z bus_scheme \<Rightarrow> 'z bus_scheme \<Rightarrow> bool" where
  "same_power s t \<longleftrightarrow> kept SDIO_PWRCTL (iolog t) = kept SDIO_PWRCTL (iolog s)"

definition same_line :: "'z bus_scheme \<Rightarrow> 'z bus_scheme \<Rightarrow> bool" where
  "same_line s t \<longleftrightarrow> issued (iolog t) = issued (iolog s) \<and> line (iolog t) = line (iolog s) \<and> same_power s t"

interpretation power: frame_rel "same_power :: 'z bus_scheme \<Rightarrow> 'z bus_scheme \<Rightarrow> bool"
  by unfold_locales (simp_all add: same_power_def)

interpretation quiet: frame_rel "same_line :: 'z bus_scheme \<Rightarrow> 'z bus_scheme \<Rightarrow> bool"
  by unfold_locales (simp_all add: same_line_def same_power_def)

named_theorems line_intros \<open>rules for computations that leave the command line or the power register as it is\<close>

lemma power_basic [line_intros]:
  "keeps same_power (rd32 h a)"
  "a \<noteq> SDIO_PWRCTL \<Longrightarrow> a \<noteq> SDIO_RESET \<Longrightarrow> keeps same_power (wr32 a v)"
  "a \<noteq> SDIO_PWRCTL \<Longrightarrow> a \<noteq> SDIO_RESET \<Longrightarrow> keeps same_power (mod32 h a f)"
  "a \<noteq> SDIO_PWRCTL \<Longrightarrow> a \<noteq> SDIO_RESET \<Longrightarrow> keeps same_power (setbits h a m)"
  "a \<noteq> SDIO_PWRCTL \<Longrightarrow> a \<noteq> SDIO_RESET \<Longrightarrow> keeps same_power (clrbits h a m)"
  by (simp_all add: keeps_def wp_simps same_power_def bits_defs)

lemma line_basic [line_intros]:
  "a \<noteq> SDIO_STAT \<Longrightarrow> keeps same_line (rd32 h a)"
  "a \<noteq> SDIO_CMDCTL \<Longrightarrow> a \<noteq> SDIO_INTC \<Longrightarrow> a \<noteq> SDIO_PWRCTL \<Longrightarrow> a \<noteq> SDIO_RESET \<Longrightarrow> keeps same_line (wr32 a v)"
  "a \<noteq> SDIO_STAT \<Longrightarrow> a \<noteq> SDIO_CMDCTL \<Longrightarrow> a \<noteq> SDIO_INTC \<Longrightarrow> a \<noteq> SDIO_PWRCTL \<Longrightarrow> a \<noteq> SDIO_RESET \<Longrightarrow> keeps same_line (setbits h a m)"
  "a \<noteq> SDIO_STAT \<Longrightarrow> a \<noteq> SDIO_CMDCTL \<Longrightarrow> a \<noteq> SDIO_INTC \<Longrightarrow> a \<noteq> SDIO_PWRCTL \<Longrightarrow> a \<noteq> SDIO_RESET \<Longrightarrow> keeps same_line (clrbits h a m)"
  by (simp_all add: keeps_def wp_simps same_line_def same_power_def bits_defs)

declare power.keeps_ret [line_intros] power.keeps_getM [line_intros] power.keeps_intros [line_intros]
  quiet.keeps_ret [line_intros] quiet.keeps_getM [line_intros] quiet.keeps_intros [line_intros]

lemma line_sdio [line_intros]:
  "keeps same_line (sdio_clock_config h e b p dv)" "keeps same_line (sdio_bus_mode_set h m)"
  "keeps same_line (sdio_hardware_clock_disable h)" "keeps same_line (sdio_clock_enable h)"
  "keeps same_line (sdio_response_get h x)" "keeps same_line (sdio_power_state_get h)"
  unfolding sdio_defs by (intro line_intros; simp add: sdio_regs)+

lemma line_read [line_intros]: "keeps same_line (read_response h)"
  unfolding read_response_def by (intro line_intros)

lemma power_sdio [line_intros]:
  "keeps same_power (sdio_response_get h x)" "keeps same_power (sdio_command_index_get h)"
  "keeps same_power (sdio_flag_get h f)" "keeps same_power (sdio_flag_clear f)"
  "keeps same_power (sdio_command_response_config h i a r)" "keeps same_power (sdio_wait_type_set h w)"
  "keeps same_power (sdio_csm_enable h)"
  unfolding sdio_defs by (intro line_intros; simp add: sdio_regs)+

lemma power_checks [line_intros]:
  "keeps same_power (wait_response h)" "keeps same_power (r1_error_check h c)" "keeps same_power (r2_error_check h)"
  "keeps same_power (r3_error_check h)" "keeps same_power (r6_error_check h c q)"
  "keeps same_power (cmdsent_error_check h)" "keeps same_power (r7_error_check h)" "keeps same_power (sd_command h c a r)"
  unfolding wait_response_def r1_error_check_def r2_error_check_def r3_error_check_def r6_error_check_def
    cmdsent_error_check_def r7_error_check_def sd_command_def
  by (intro line_intros; simp)+

lemma wp_on_io:
  assumes "on p s cs t" "io_only m" "keeps same_line m" "returns m" "\<And>x u. on p s cs u \<Longrightarrow> Q x u"
  shows "wp m Q t"
proof (rule returns_wp [OF assms(4)])
  have "wlp m (\<lambda>_ u. log_ext s u \<and> same_line t u) t"
    using assms(1) by (intro wlp_conj io_only_wlp [OF assms(2)] quiet.keepsD [OF assms(3)] quiet.frame_refl) (simp add: on_def)
  then show "wlp m Q t"
    by (rule wlp_mono) (use assms(1) in \<open>auto simp: on_def same_line_def same_power_def intro!: assms(5)\<close>)
qed

lemma wp_on_value:
  assumes "on p s cs t" "io_only m" "keeps same_line m" "wp m (\<lambda>x _. P x) t" "\<And>x u. P x \<Longrightarrow> on p s cs u \<Longrightarrow> Q x u"
  shows "wp m Q t"
proof -
  have "wlp m (\<lambda>_ u. log_ext s u \<and> same_line t u) t"
    using assms(1) by (intro wlp_conj io_only_wlp [OF assms(2)] quiet.keepsD [OF assms(3)] quiet.frame_refl) (simp add: on_def)
  from wp_conj [OF assms(4) this] show ?thesis
    by (rule wp_mono) (use assms(1) in \<open>auto simp: on_def same_line_def same_power_def intro!: assms(5)\<close>)
qed

text \<open>Sending a command when the line is free: whatever the register held before, the command goes out.\<close>

lemma wp_on_command:
  assumes h: "sd_card dv h" and t: "on p s cs t" and c: "c < 64"
    and r: "r \<in> {SDIO_RESPONSETYPE_NO, SDIO_RESPONSETYPE_SHORT, SDIO_RESPONSETYPE_LONG}"
    and Q: "\<And>u. sent p s (cs @ [(c, a)]) u \<Longrightarrow> Q () u"
  shows "wp (sd_command h c a r) Q t"
proof -
  have k: "h (Wr SDIO_CMDCTL v # l) SDIO_CMDCTL = v" 
    "h (Wr SDIO_CMDAGMT x # Wr SDIO_CMDAGMT y # Rd SDIO_CMDAGMT z # Wr SDIO_CMDCTL v # l) SDIO_CMDCTL = v" for l v x y z
    by (rule card_kept [OF h]; simp add: sdio_regs)+
  have ln: "line (Wr SDIO_CMDAGMT v # l) = line l" "line (Rd SDIO_CMDCTL v # l) = line l"
    "line (Rd SDIO_CMDAGMT v # l) = line l"
    "bit v 10 \<Longrightarrow> line (Wr SDIO_CMDCTL v # l) = (if line l \<in> {Quiet, Served} then Waiting else Unknown)"
    "\<not> bit v 10 \<Longrightarrow> line (Wr SDIO_CMDCTL v # l) = line l" for v l
    by (simp_all add: sdio_regs)
  have "wp (sd_command h c a r) (\<lambda>_ u. issued (iolog u) = issued (iolog t) @ [(c, a)] \<and>
      line (iolog u) = (if line (iolog t) \<in> {Quiet, Served} then Waiting else Unknown)) t"
    unfolding sd_command_def sdio_command_response_config_def sdio_wait_type_set_def sdio_csm_enable_def bits_defs wp_simps
    by (simp only: issued.simps ln last_wr.simps k option.case neq_CMDCTL refl if_True if_False simp_thms
        iolog_simp or_zero command_bits [OF c r])
  from wp_conj [OF this wlp_conj [OF io_only_wlp [where s = s] power.keepsD [OF _ power.frame_refl]]] show ?thesis
    by (rule wp_mono) (use t in \<open>auto simp: on_def sent_def same_power_def intro!: Q intro: io_intros line_intros\<close>)
qed

lemma wp_on_check:
  assumes t: "sent p s (cs @ [(c, a)]) t" and l: "legal dv (after_cmds dv cs) (c, a)"
    and m: "io_only m" "keeps same_power m"
    and w: "asked dv cs c a (iolog t) \<Longrightarrow> wp m (\<lambda>x u. P x \<and> seen dv cs c a (iolog u)) t"
    and Q: "\<And>x u. P x \<Longrightarrow> on p s (cs @ [(c, a)]) u \<Longrightarrow> told dv cs c a (iolog u) \<Longrightarrow> Q x u"
  shows "wp m Q t"
proof -
  have "asked dv cs c a (iolog t)" using t l by (simp add: sent_def asked_def)
  from wp_conj [OF w [OF this] wlp_conj [OF io_only_wlp [OF m(1), of s] power.keepsD [OF m(2) power.frame_refl]]] show ?thesis
    by (rule wp_mono) (use t in \<open>auto simp: on_def sent_def same_power_def seen_def told_def intro!: Q\<close>)
qed

definition COND_ARG :: u32 where
  "COND_ARG = SD_VOLTAGE_WINDOW OR SD_HIGH_CAPACITY"

text \<open>The commands up to the \<open>n\<close>-th round of ACMD41, and the state they lead to.\<close>

definition rounds_done :: "(u8 \<times> u32) list \<Rightarrow> nat \<Rightarrow> (u8 \<times> u32) list" where
  "rounds_done cs n = cs @ [(SD_CMD_GO_IDLE_STATE, 0), (SD_CMD_SEND_IF_COND, SD_CHECK_PATTERN), (SD_CMD_APP_CMD, 0)] @
     concat (replicate n [(SD_CMD_APP_CMD, 0), (SD_APPCMD_SD_SEND_OP_COND, COND_ARG)])"

lemma rounds_done_Suc:
  "rounds_done cs (Suc n) = (rounds_done cs n @ [(SD_CMD_APP_CMD, 0)]) @ [(SD_APPCMD_SD_SEND_OP_COND, COND_ARG)]"
  by (simp add: rounds_done_def replicate_append_same [symmetric])

lemma after_snoc: "after_cmds dv (cs @ [x]) = obey dv x (after_cmds dv cs)"
  by (simp add: after_cmds_def)

lemma after_first:
  "legal dv k (SD_CMD_GO_IDLE_STATE, a)" "after_cmds dv (cs @ [(SD_CMD_GO_IDLE_STATE, a)]) = power_up"
  "legal dv power_up (SD_CMD_SEND_IF_COND, SD_CHECK_PATTERN)"
  "legal dv (power_up\<lparr>checked := True\<rparr>) (SD_CMD_APP_CMD, 0)"
  "after_cmds dv (cs @ [(SD_CMD_GO_IDLE_STATE, a), (SD_CMD_SEND_IF_COND, SD_CHECK_PATTERN)]) = power_up\<lparr>checked := True\<rparr>"
  by (simp_all add: after_cmds_def obey_def legal_def power_up_def SD_CHECK_PATTERN_def)

lemma after_rounds:
  assumes "n \<le> tries dv" "0 < tries dv"
  shows "after_cmds dv (rounds_done cs n) = \<lparr>phase = (if n = tries dv then Ready_State else Idle_State), app = (n = 0),
      conds = n, checked = True\<rparr>"
    "n < tries dv \<Longrightarrow> legal dv (after_cmds dv (rounds_done cs n)) (SD_CMD_APP_CMD, 0)"
    "n < tries dv \<Longrightarrow> legal dv (after_cmds dv (rounds_done cs n @ [(SD_CMD_APP_CMD, 0)])) (SD_APPCMD_SD_SEND_OP_COND, COND_ARG)"
proof -
  have arg: "COND_ARG AND 0xFF8000 \<noteq> 0" "bit COND_ARG 30"
    by (simp_all add: COND_ARG_def SD_VOLTAGE_WINDOW_def SD_HIGH_CAPACITY_def)
  have l55: "legal dv k (SD_CMD_APP_CMD, 0)" if "phase k = Idle_State" for k using that by (simp add: legal_def)
  have l41: "legal dv k (SD_APPCMD_SD_SEND_OP_COND, COND_ARG)" if "phase k = Idle_State" "checked k" "app k" for k
    using that arg by (simp add: legal_def)
  have st: "after_cmds dv (rounds_done cs n) = \<lparr>phase = (if n = tries dv then Ready_State else Idle_State), app = (n = 0),
      conds = n, checked = True\<rparr>"
    using assms(1)
  proof (induction n)
    case 0
    then show ?case using assms(2)
      by (simp add: rounds_done_def after_cmds_def obey_def legal_def power_up_def SD_CHECK_PATTERN_def)
  next
    case (Suc n)
    then have IH: "after_cmds dv (rounds_done cs n) = \<lparr>phase = Idle_State, app = (n = 0), conds = n, checked = True\<rparr>" by simp
    show ?case
      unfolding rounds_done_Suc after_snoc IH using Suc.prems l55 l41
      by (auto simp: obey_def Let_def)
  qed
  show "after_cmds dv (rounds_done cs n) = \<lparr>phase = (if n = tries dv then Ready_State else Idle_State), app = (n = 0),
      conds = n, checked = True\<rparr>" by (rule st)
  show "legal dv (after_cmds dv (rounds_done cs n)) (SD_CMD_APP_CMD, 0)" if "n < tries dv"
    unfolding st using that by (intro l55) simp
  then show "legal dv (after_cmds dv (rounds_done cs n @ [(SD_CMD_APP_CMD, 0)])) (SD_APPCMD_SD_SEND_OP_COND, COND_ARG)"
    if "n < tries dv"
    using that unfolding after_snoc st by (intro l41) (simp_all add: obey_def l55)
qed

section \<open>Identification\<close>

lemma wp_app_cmd:
  assumes h: "sd_card dv h" and t: "on p s cs t" and l: "legal dv (after_cmds dv cs) (SD_CMD_APP_CMD, a)"
    and Q: "\<And>u. on p s (cs @ [(SD_CMD_APP_CMD, a)]) u \<Longrightarrow> Q SD_OK u"
  shows "wp (cmd_r1 h SD_CMD_APP_CMD a) Q t"
  unfolding cmd_r1_def wp_thenM
  by (rule wp_on_command [OF h t _ resp_short], simp,
      rule wp_on_check [OF _ l _ _ wp_checks(1) [OF h]])
    (auto intro: io_intros line_intros Q)

lemma wp_volt_validation:
  assumes h: "sd_card dv h" and t: "on p s (rounds_done cs 0) t"
    and Q: "\<And>u. on p s (rounds_done cs (tries dv)) u \<Longrightarrow> Q (SD_OK, 1, of_nat (tries dv), ocr dv) u"
  shows "wp (volt_validation h SD_HIGH_CAPACITY) Q t"
proof -
  have tr: "0 < tries dv" "tries dv < 0xFFFF" and o: "bit (ocr dv) 31" using h by (simp_all add: sd_card_def)
  let ?I = "\<lambda>(st, busy :: u8, count :: u32, r) u. \<exists>n \<le> tries dv. st = SD_OK \<and> count = of_nat n \<and> on p s (rounds_done cs n) u \<and>
      (if n = tries dv then busy = 1 \<and> r = ocr dv else busy = 0)"
  let ?M = "\<lambda>(st :: sd_error, busy :: u8, count :: u32, r :: u32) (u :: 'a bus_scheme). 0xFFFF - unat count"
  have busy: "ucast (drop_bit 31 x AND 1) = (if bit x 31 then 1 else 0 :: u8)" for x :: u32
    by (rule bit_word_eqI) (auto simp: bit_simps intro!: gr0I)
  have num: "unat (of_nat n :: u32) = n" if "n \<le> tries dv" for n using that tr(2) by (intro unat_word_of_nat) simp
  show ?thesis
    unfolding volt_validation_def
  proof (rule wp_whileM [where I = ?I and M = ?M], goal_cases)
    case 1
    show ?case using t tr by (auto intro!: exI [of _ 0])
  next
    case (2 v u)
    then obtain n b r where v: "v = (SD_OK, b, of_nat n, r)" and n: "n \<le> tries dv" "on p s (rounds_done cs n) u"
        "if n = tries dv then b = 1 \<and> r = ocr dv else b = 0" by (auto split: prod.splits)
    show ?case
    proof (cases "n = tries dv")
      case True
      then show ?thesis using v n Q by (simp add: wp_simps)
    next
      case False
      then have lt: "n < tries dv" using n by simp
      note a = after_rounds [OF n(1) tr(1), of cs] after_rounds(1) [of "Suc n" dv cs]
      define P where "P = (\<lambda>v' u'. ?I v' u' \<and> ?M v' u' < 0xFFFF - n)"
      have resp: "P (SD_OK, ucast (drop_bit 31 (h (iolog w) SDIO_RESP0) AND 1), of_nat n + 1, h (iolog w) SDIO_RESP0)
          (w\<lparr>iolog := Rd SDIO_RESP0 (h (iolog w) SDIO_RESP0) # iolog w\<rparr>)"
        if w: "on p s (rounds_done cs (Suc n)) w"
          and w': "told dv (rounds_done cs n @ [(SD_CMD_APP_CMD, 0)]) SD_APPCMD_SD_SEND_OP_COND COND_ARG (iolog w)" for w
      proof -
        from card_facts(4) [OF h w'] have r: "if Suc n = tries dv then h (iolog w) SDIO_RESP0 = ocr dv else \<not> bit (h (iolog w) SDIO_RESP0) 31"
          using a(4) lt tr by (simp add: answer_def rounds_done_Suc [symmetric] del: append_assoc split: if_splits)
        have b: "ucast (drop_bit 31 (h (iolog w) SDIO_RESP0) AND 1) = (if Suc n = tries dv then 1 else 0 :: u8)"
          unfolding busy using r o by (simp split: if_splits)
        have m: "of_nat n + 1 = (of_nat (Suc n) :: u32)" by simp
        have "0xFFFF - unat (of_nat (Suc n) :: u32) < 0xFFFF - n" using num [of "Suc n"] lt tr(2) by (simp del: of_nat_Suc)
        moreover have "on p s (rounds_done cs (Suc n)) (w\<lparr>iolog := Rd SDIO_RESP0 (h (iolog w) SDIO_RESP0) # iolog w\<rparr>)"
          using w by (auto simp: on_def sdio_regs intro: log_ext_trans log_ext_Cons)
        ultimately show ?thesis
          unfolding P_def b m prod.case using r lt by (intro conjI exI [of _ "Suc n"]) (auto split: if_splits)
      qed
      have "wp (cmd_r1 h SD_CMD_APP_CMD 0) (\<lambda>status. wp (if status \<noteq> SD_OK then ret (status, b, of_nat n, r)
          else thenM (sd_command h SD_APPCMD_SD_SEND_OP_COND (SD_VOLTAGE_WINDOW OR SD_HIGH_CAPACITY) SDIO_RESPONSETYPE_SHORT)
         (bindM (r3_error_check h) (\<lambda>status.
          if status \<noteq> SD_OK then ret (status, b, of_nat n, r)
          else bindM (sdio_response_get h 0) (\<lambda>response.
          ret (status, ucast (drop_bit 31 response AND 1), of_nat n + 1, response))))) P) u"
        apply (rule wp_app_cmd [OF h n(2) a(2) [OF lt]])
        apply (simp add: wp_thenM wp_bindM COND_ARG_def [symmetric])
        apply (rule wp_on_command [OF h _ _ resp_short], assumption, simp)
        apply (rule wp_on_check [OF _ a(3) [OF lt] _ _ wp_checks(3) [OF h]], assumption,
            rule io_intros, rule line_intros, assumption, rule refl)
        apply (simp add: wp_simps sdio_response_get_def)
        apply (rule resp)
         apply (simp_all add: rounds_done_Suc)
        done
      note body = this [unfolded P_def]
      have "b = 0" "(of_nat n :: u32) < SD_MAX_VOLT_VALIDATION"
        using n(3) False num [OF n(1)] lt tr(2) by (simp_all add: SD_MAX_VOLT_VALIDATION_def word_less_nat_alt)
      with body show ?thesis
        unfolding v prod.case wp_ret wp_bindM num [OF n(1)] by (simp only: simp_thms if_True)
    qed
  qed
qed

lemma on_update:
  fixes s t :: "'z sdcard_scheme"
  assumes "on p s cs t"
  shows "on p (s\<lparr>cardtype := x\<rparr>) cs (t\<lparr>cardtype := x\<rparr>)" "on p (s\<lparr>sd_cid := y\<rparr>) cs (t\<lparr>sd_cid := y\<rparr>)"
    "on p (s\<lparr>sd_csd := y\<rparr>) cs (t\<lparr>sd_csd := y\<rparr>)" "on p (s\<lparr>sd_rca := r\<rparr>) cs (t\<lparr>sd_rca := r\<rparr>)"
  using assms by (cases s; auto simp: on_def log_ext_def)+

lemma wp_power_set:
  assumes "on p s cs t" "\<And>u. on (Some v) s cs u \<Longrightarrow> Q () u"
  shows "wp (sdio_power_state_set v) Q t"
  unfolding sdio_power_state_set_def wp_simps
  by (rule assms(2)) (use assms(1) in \<open>auto simp: on_def sdio_regs intro: log_ext_trans log_ext_Cons\<close>)

definition card_kind :: "u32 \<Rightarrow> sdio_card_type" where
  "card_kind x = (if bit x 30 then SDIO_HIGH_CAPACITY_SD_CARD else SDIO_STD_CAPACITY_SD_CARD_V2_0)"

lemma wp_power_on:
  assumes h: "sd_card dv h" and t: "on p s cs t"
    and Q: "\<And>u. on (Some SDIO_POWER_ON) (s\<lparr>cardtype := card_kind (ocr dv)\<rparr>) (rounds_done cs (tries dv)) u \<Longrightarrow> Q SD_OK u"
  shows "wp (sd_power_on h) Q t"
proof -
  have tr: "tries dv < 0xFFFF" using h by (simp add: sd_card_def)
  then have n: "\<not> SD_MAX_VOLT_VALIDATION \<le> (of_nat (tries dv) :: u32)"
    by (simp add: SD_MAX_VOLT_VALIDATION_def word_le_nat_alt unsigned_of_nat take_bit_nat_eq_self)
  have hc: "x AND SD_HIGH_CAPACITY \<noteq> 0 \<longleftrightarrow> bit x 30" for x
    using and_BIT_iff [of x 30] by (simp add: SD_HIGH_CAPACITY_def)
  note f = after_first
  let ?c1 = "cs @ [(SD_CMD_GO_IDLE_STATE, 0)]"
  have fin: "Q SD_OK (if bit (ocr dv) 30 then w\<lparr>cardtype := SDIO_HIGH_CAPACITY_SD_CARD\<rparr> else w)"
    if "on (Some SDIO_POWER_ON) (s\<lparr>cardtype := SDIO_STD_CAPACITY_SD_CARD_V2_0\<rparr>) (rounds_done cs (tries dv)) w" for w
    by (rule Q) (use on_update(1) [OF that, of SDIO_HIGH_CAPACITY_SD_CARD] that in \<open>simp add: card_kind_def\<close>)
  show ?thesis
    unfolding sd_power_on_def wp_thenM wp_check_ok wp_bindM wp_seqM
    apply (rule wp_on_io [OF t], rule io_intros, rule line_intros, rule total_intros)
    apply (rule wp_on_io, assumption, rule io_intros, rule line_intros, rule total_intros)
    apply (rule wp_on_io, assumption, rule io_intros, rule line_intros, rule total_intros)
    apply (rule wp_power_set, assumption)
    apply (rule wp_on_io, assumption, rule io_intros, rule line_intros, rule total_intros)
    apply (rule wp_on_command [OF h _ _ resp_no], assumption, simp)
    apply (rule wp_on_check [OF _ f(1) _ _ wp_cmdsent [OF h]], assumption, rule io_intros, rule line_intros, assumption)
    apply (simp only: simp_thms if_False)
    apply (rule wp_on_command [OF h _ _ resp_short], assumption, simp)
    apply (rule wp_on_check [OF _ _ _ _ wp_r7 [OF h]], assumption, simp add: f, rule io_intros, rule line_intros, assumption)
    apply (simp add: wp_whenM wp_modM Let_def wp_bindM)
    apply (rule wp_app_cmd [OF h on_update(1)], assumption, simp add: f)
    apply (simp add: wp_bindM)
    apply (rule wp_volt_validation [OF h, where cs = cs], simp add: rounds_done_def)
    using fin apply (auto simp: wp_simps n hc split: if_splits)
    done
qed

text \<open>The commands of the identification, and the states they lead to.\<close>

definition identification :: "sd_device \<Rightarrow> (u8 \<times> u32) list \<Rightarrow> (u8 \<times> u32) list" where
  "identification dv cs = rounds_done cs (tries dv) @
     [(SD_CMD_ALL_SEND_CID, 0), (SD_CMD_SEND_RELATIVE_ADDR, 0), (SD_CMD_SEND_CSD, rca_arg (rca dv))]"

lemma drop_rca: "drop_bit 16 (rca_arg x) = ucast x"
  by (rule bit_word_eqI) (auto simp: rca_arg_def bit_simps dest: bit_imp_le_length)

lemma after_ready:
  fixes cs :: "(u8 \<times> u32) list"
  assumes "sd_card dv h"
  defines "R \<equiv> rounds_done cs (tries dv)"
  shows "legal dv (after_cmds dv R) (SD_CMD_ALL_SEND_CID, 0)"
    "legal dv (after_cmds dv (R @ [(SD_CMD_ALL_SEND_CID, 0)])) (SD_CMD_SEND_RELATIVE_ADDR, 0)"
    "legal dv (after_cmds dv (R @ [(SD_CMD_ALL_SEND_CID, 0), (SD_CMD_SEND_RELATIVE_ADDR, 0)])) (SD_CMD_SEND_CSD, rca_arg (rca dv))"
    "phase (after_cmds dv (identification dv cs)) = Standby_State"
proof -
  have "0 < tries dv" using assms by (simp add: sd_card_def)
  then have R: "after_cmds dv R = \<lparr>phase = Ready_State, app = False, conds = tries dv, checked = True\<rparr>"
    using after_rounds(1) [of "tries dv" dv cs] by (simp add: R_def)
  have snoc: "after_cmds dv (R @ xs @ [x]) = obey dv x (after_cmds dv (R @ xs))" for xs x
    using after_snoc [of dv "R @ xs" x] by simp
  have s1: "after_cmds dv (R @ [(SD_CMD_ALL_SEND_CID, 0)]) = \<lparr>phase = Ident_State, app = False, conds = tries dv, checked = True\<rparr>"
    using snoc [of "[]"] R by (simp add: obey_def legal_def)
  have s2: "after_cmds dv (R @ [(SD_CMD_ALL_SEND_CID, 0), (SD_CMD_SEND_RELATIVE_ADDR, 0)]) =
      \<lparr>phase = Standby_State, app = False, conds = tries dv, checked = True\<rparr>"
    using snoc [of "[(SD_CMD_ALL_SEND_CID, 0)]"] s1 by (simp add: obey_def legal_def)
  show "legal dv (after_cmds dv R) (SD_CMD_ALL_SEND_CID, 0)"
    "legal dv (after_cmds dv (R @ [(SD_CMD_ALL_SEND_CID, 0)])) (SD_CMD_SEND_RELATIVE_ADDR, 0)"
    "legal dv (after_cmds dv (R @ [(SD_CMD_ALL_SEND_CID, 0), (SD_CMD_SEND_RELATIVE_ADDR, 0)])) (SD_CMD_SEND_CSD, rca_arg (rca dv))"
    by (simp_all add: R s1 s2 legal_def drop_rca)
  show "phase (after_cmds dv (identification dv cs)) = Standby_State"
    using snoc [of "[(SD_CMD_ALL_SEND_CID, 0), (SD_CMD_SEND_RELATIVE_ADDR, 0)]"] s2
    by (simp add: identification_def R_def [symmetric] obey_def legal_def drop_rca)
qed

text \<open>A command with a long response, and the register it carries.\<close>

lemma wp_long_response:
  assumes h: "sd_card dv h" and t: "on p s cs t" and l: "legal dv (after_cmds dv cs) (c, a)"
    and c: "c = SD_CMD_ALL_SEND_CID \<and> reg = cid dv \<or> c = SD_CMD_SEND_CSD \<and> reg = csd dv"
    and Q: "\<And>u. on p s (cs @ [(c, a)]) u \<Longrightarrow> wp (k reg) Q u"
  shows "wp (thenM (sd_command h c a SDIO_RESPONSETYPE_LONG) (check_ok (r2_error_check h) (bindM (read_response h) k))) Q t"
  unfolding wp_thenM wp_check_ok wp_bindM
proof (rule wp_on_command [OF h t _ resp_long])
  show "c < 64" using c by auto
  have regs: "[h l SDIO_RESP0, h l SDIO_RESP1, h l SDIO_RESP2, h l SDIO_RESP3] = reg" if "told dv cs c a l" for l
    using card_facts(4) [OF h that] c by (auto simp: answer_def)
  have e: "h l SDIO_RESP0 = reg ! 0" "h l SDIO_RESP1 = reg ! 1" "h l SDIO_RESP2 = reg ! 2" "h l SDIO_RESP3 = reg ! 3"
    if "told dv cs c a l" for l using regs [OF that] by auto
  have rd: "wp (read_response h) (\<lambda>x. wp (k x) Q) w" if w: "on p s (cs @ [(c, a)]) w" "told dv cs c a (iolog w)" for w
  proof (rule wp_on_value [OF w(1), where P = "\<lambda>x. x = reg"])
    have r4: "[reg ! 0, reg ! 1, reg ! 2, reg ! 3] = reg" using regs [OF w(2)] by auto
    show "wp (read_response h) (\<lambda>x _. x = reg) w"
      unfolding read_response_def sdio_response_get_def using w(2) r4 by (simp add: wp_simps e told_log(2))
  qed (auto intro: io_intros line_intros Q)
  show "wp (r2_error_check h) (\<lambda>st. if st \<noteq> SD_OK then Q st else wp (read_response h) (\<lambda>x. wp (k x) Q)) u"
    if "sent p s (cs @ [(c, a)]) u" for u
    by (rule wp_on_check [OF that l _ _ wp_checks(2) [OF h]]) (use c in \<open>auto intro: io_intros line_intros simp: rd\<close>)
qed

lemma wp_card_init:
  assumes h: "sd_card dv h" and t: "on (Some SDIO_POWER_ON) s (rounds_done cs (tries dv)) t" and k: "sd_memory_card (cardtype s)"
    and Q: "\<And>u. on (Some SDIO_POWER_ON) (s\<lparr>sd_cid := cid dv, sd_rca := rca dv, sd_csd := csd dv\<rparr>) (identification dv cs) u \<Longrightarrow> Q SD_OK u"
  shows "wp (sd_card_init h) Q t"
proof -
  let ?p = "Some SDIO_POWER_ON" and ?R = "rounds_done cs (tries dv)" and ?s1 = "s\<lparr>sd_cid := cid dv\<rparr>"
  note l = after_ready [OF h, of cs]
  have pwr: "h (iolog t) SDIO_PWRCTL = SDIO_POWER_ON" using t by (intro card_kept [OF h]) (simp_all add: on_def)
  have kind: "cardtype w = cardtype s" if "on p s xs w" for p xs w using that by (auto simp: on_def log_ext_def)
  have ne: "cardtype s \<noteq> SDIO_SECURE_DIGITAL_IO_CARD" using k by auto
  have first: "wp (card_init_cid h) Q' u"
    if "on ?p s ?R u" "\<And>w. on ?p ?s1 (?R @ [(SD_CMD_ALL_SEND_CID, 0)]) w \<Longrightarrow> Q' SD_OK w" for u Q'
    unfolding card_init_cid_def
    by (rule wp_long_response [OF h that(1) l(1), where reg = "cid dv"]) (auto simp: wp_simps intro!: that(2) on_update)
  have last: "wp (card_init_csd h (rca dv)) Q u"
    if "on ?p ?s1 (?R @ [(SD_CMD_ALL_SEND_CID, 0), (SD_CMD_SEND_RELATIVE_ADDR, 0)]) u" for u
    unfolding card_init_csd_def wp_thenM wp_modM
    by (rule wp_long_response [OF h on_update(4) [OF that] l(3), where reg = "csd dv", unfolded wp_thenM])
      (auto simp: wp_simps identification_def intro!: Q dest: on_update(3) [where y = "csd dv"])
  have addr: "wp (r6_error_check h SD_CMD_SEND_RELATIVE_ADDR 1) (\<lambda>(status, temp_rca).
      wp (if status \<noteq> SD_OK then ret status else card_init_csd h temp_rca) Q) u"
    if "sent ?p ?s1 ((?R @ [(SD_CMD_ALL_SEND_CID, 0)]) @ [(SD_CMD_SEND_RELATIVE_ADDR, 0)]) u" for u
    by (rule wp_on_check [OF that l(2) _ _ wp_checks(4) [OF h]]) (auto intro: io_intros line_intros last)
  show ?thesis
    unfolding sd_card_init_def wp_bindM
    apply (rule wp_on_value [OF t, where P = "\<lambda>p. p \<noteq> SDIO_POWER_OFF"], rule io_intros, rule line_intros)
     apply (simp add: sdio_power_state_get_def wp_simps pwr SDIO_POWER_ON_def SDIO_POWER_OFF_def)
    apply (simp only: wp_getM kind k ne if_False if_True not_False_eq_True simp_thms wp_check_ok wp_bindM wp_if)
    apply (rule first, assumption)
    apply (simp only: wp_thenM simp_thms if_False not_False_eq_True)
    apply (rule wp_on_command [OF h _ _ resp_short], assumption, simp)
    apply (rule wp_mono [OF addr], assumption)
    apply (auto simp: wp_simps split: prod.splits)
    done
qed

lemma silent_rcu [silent_intros]:
  assumes "RCU_REG_ADDR p \<noteq> SDIO_CMDCTL" "RCU_REG_ADDR p \<noteq> SDIO_FIFO"
  shows "keeps same_cmds (rcu_periph_clock_enable h p)" "keeps same_cmds (rcu_periph_reset_enable h p)"
    "keeps same_cmds (rcu_periph_reset_disable h p)"
  unfolding rcu_periph_clock_enable_def rcu_periph_reset_enable_def rcu_periph_reset_disable_def
  by (intro silent_intros; simp add: assms)+

lemma silent_gpio [silent_intros]:
  assumes "g = GPIOC \<or> g = GPIOD"
  shows "keeps same_cmds (gpio_mode_set h g m u p)" "keeps same_cmds (gpio_output_options_set h g ot sp p)"
    "keeps same_cmds (gpio_af_set h g n p)"
proof -
  have a: "g + x \<noteq> SDIO_CMDCTL" "g + x \<noteq> SDIO_FIFO" if "x \<in> {0, 4, 8, 12, 32, 36}" for x
    using assms that by (auto simp: GPIOC_def GPIOD_def sdio_regs)
  show "keeps same_cmds (gpio_mode_set h g m u p)" "keeps same_cmds (gpio_output_options_set h g ot sp p)"
    "keeps same_cmds (gpio_af_set h g n p)"
    unfolding gpio_mode_set_def gpio_output_options_set_def gpio_af_set_def
    by (intro silent_intros; use a [of 0] a [of 4] a [of 8] a [of 12] a [of 32] a [of 36] in simp)+
qed

lemma silent_config [silent_intros]:
  "keeps same_cmds (rcu_config h)" "keeps same_cmds (gpio_config h)" "keeps same_cmds (sdio_deinit h)"
proof -
  have r: "RCU_REG_ADDR (RCU_REGIDX_BIT i b) \<noteq> SDIO_CMDCTL" "RCU_REG_ADDR (RCU_REGIDX_BIT i b) \<noteq> SDIO_FIFO"
    if "(i, b) \<in> {(48, 2), (48, 3), (68, 11), (48, 22), (36, 11)}" for i b
    using that by (auto simp: RCU_REG_ADDR_def RCU_REGIDX_BIT_def sdio_regs)
  show "keeps same_cmds (rcu_config h)" "keeps same_cmds (sdio_deinit h)"
    unfolding rcu_config_def sdio_deinit_def by (intro silent_intros; simp add: r)+
  show "keeps same_cmds (gpio_config h)"
    unfolding gpio_config_def by (intro silent_intros; simp)
qed

lemma wp_reset:
  "wp (seqM [rcu_config h, gpio_config h, sdio_deinit h]) (\<lambda>_. on None s (issued (iolog s))) s"
proof -
  have first: "wp m Q t" if "trace s [] t" "io_only m" "keeps same_cmds m" "returns m" "\<And>u. trace s [] u \<Longrightarrow> Q () u" for m Q and t
    by (rule returns_wp [OF that(4) trace_silent [OF that(1-3)]]) (simp add: that(5))
  have addr: "RCU_REG_ADDR (RCU_REGIDX_BIT 36 11) = SDIO_RESET" "RCU_BIT_POS (RCU_REGIDX_BIT 36 11) = 11"
    by (simp_all add: RCU_REG_ADDR_def RCU_REGIDX_BIT_def RCU_BIT_POS_def)
  have last: "wp (sdio_deinit h) (\<lambda>_. on None s (issued (iolog s))) t" if "trace s [] t" for t
    using that unfolding sdio_deinit_def rcu_periph_reset_enable_def rcu_periph_reset_disable_def addr bits_defs wp_simps
    by (auto simp: on_def trace_def sdio_regs bit_simps log_ext_def)
  show ?thesis
    unfolding wp_seqM
    by (rule first [OF trace_refl]; (intro io_intros silent_intros total_intros)?) (rule first; (intro io_intros silent_intros total_intros last)?; assumption?)
qed

section \<open>Properties\<close>

lemma wp_sd_init:
  assumes h: "sd_card dv h"
  shows "wp (sd_init h) (\<lambda>st t. st = SD_OK \<and> on (Some SDIO_POWER_ON) (s\<lparr>cardtype := card_kind (ocr dv), sd_cid := cid dv,
      sd_rca := rca dv, sd_csd := csd dv\<rparr>) (identification dv (issued (iolog s))) t) s"
proof -
  have k: "sd_memory_card (cardtype (s\<lparr>cardtype := card_kind (ocr dv)\<rparr>))" by (simp add: card_kind_def)
  show ?thesis
    unfolding sd_init_def wp_thenM wp_check_ok
    apply (rule wp_mono [OF wp_reset])
    apply (rule wp_power_on [OF h], assumption)
    apply (simp only: simp_thms if_False)
    apply (rule wp_card_init [OF h _ k], assumption)
    apply (simp only: simp_thms if_False wp_thenM)
    apply (rule wp_on_io, assumption, intro io_intros, intro line_intros, intro total_intros)
    apply (simp add: wp_ret)
    done
qed

text \<open>
  C7: starting a card succeeds. For every SD memory card of version 2.0 or later, which answers each command
  that its state allows within 100000 looks at the status and is ready after fewer than 65535 rounds of
  ACMD41, \<open>sd_init\<close> returns \<open>SD_OK\<close>. It has sent the commands of the identification and no other, the card is
  in the stand-by state, and the driver holds the card's CID and CSD registers, its relative address and
  its type (high capacity exactly if the CCS bit of the operating conditions is set); nothing else has
  changed.
\<close>

theorem sd_init_identifies_card:
  assumes "sd_card dv h"
  shows "wp (sd_init h) (\<lambda>st s'. st = SD_OK \<and> sd_cid s' = cid dv \<and> sd_csd s' = csd dv \<and> sd_rca s' = rca dv \<and>
           cardtype s' = (if bit (ocr dv) 30 then SDIO_HIGH_CAPACITY_SD_CARD else SDIO_STD_CAPACITY_SD_CARD_V2_0) \<and>
           issued (iolog s') = identification dv (issued (iolog s)) \<and>
           phase (after_cmds dv (issued (iolog s'))) = Standby_State \<and>
           s' = s\<lparr>iolog := iolog s', cardtype := cardtype s', sd_csd := csd dv, sd_cid := cid dv, sd_rca := rca dv\<rparr>) s"
  by (rule wp_mono [OF wp_sd_init [OF assms]])
    (use after_ready(4) [OF assms] in \<open>auto simp: on_def log_ext_def card_kind_def\<close>)

text \<open>A card that needs three looks for every answer and three rounds of ACMD41, whose responses are flagged.\<close>

fun looks :: "io_log \<Rightarrow> nat" where
  "looks [] = 0"
| "looks (Wr a v # l) = (if a = SDIO_CMDCTL \<and> bit v 10 then 0 else looks l)"
| "looks (Rd a v # l) = (if a = SDIO_STAT then Suc (looks l) else looks l)"
| "looks (Idle # l) = looks l"

definition demo_dev :: sd_device where
  "demo_dev = \<lparr>cid = [1, 2, 3, 4], csd = [5, 6, 7, 8], rca = 0x1234, ocr = 0xC0FF8000, tries = 3\<rparr>"

definition demo_sd :: hw where
  "demo_sd l x =
     (let c = fst (last (issued l));
          long = (if c = SD_CMD_ALL_SEND_CID then cid demo_dev else csd demo_dev) in
      if x \<in> {SDIO_CMDCTL, SDIO_PWRCTL} then (case kept x l of None \<Rightarrow> 0 | Some v \<Rightarrow> v)
      else if x = SDIO_STAT
      then (if line l \<noteq> Waiting \<or> looks l < 3 then 0 else if c = SD_CMD_GO_IDLE_STATE then 0x80
            else if c = SD_APPCMD_SD_SEND_OP_COND then 1 else 0x40)
      else if line l \<notin> {Ended, Served} then 0
      else if x = SDIO_RSPCMDIDX then ucast c
      else if x = SDIO_RESP0
      then (if c = SD_CMD_APP_CMD then 0x120
            else if c = SD_APPCMD_SD_SEND_OP_COND
            then (if phase (after_cmds demo_dev (issued l)) = Ready_State then ocr demo_dev else 0x00FF8000)
            else if c = SD_CMD_SEND_RELATIVE_ADDR then 0x12340500 else long ! 0)
      else if x = SDIO_RESP1 then long ! 1 else if x = SDIO_RESP2 then long ! 2 else long ! 3)"

lemma demo_sd_works: "sd_card demo_dev demo_sd"
proof -
  have regs: "SDIO_STAT \<notin> {SDIO_CMDCTL, SDIO_PWRCTL}" "SDIO_RSPCMDIDX \<notin> {SDIO_CMDCTL, SDIO_PWRCTL, SDIO_STAT}"
    "SDIO_RESP0 \<notin> {SDIO_CMDCTL, SDIO_PWRCTL, SDIO_STAT, SDIO_RSPCMDIDX}"
    "SDIO_RESP1 \<notin> {SDIO_CMDCTL, SDIO_PWRCTL, SDIO_STAT, SDIO_RSPCMDIDX, SDIO_RESP0}"
    "SDIO_RESP2 \<notin> {SDIO_CMDCTL, SDIO_PWRCTL, SDIO_STAT, SDIO_RSPCMDIDX, SDIO_RESP0, SDIO_RESP1}"
    "SDIO_RESP3 \<notin> {SDIO_CMDCTL, SDIO_PWRCTL, SDIO_STAT, SDIO_RSPCMDIDX, SDIO_RESP0, SDIO_RESP1, SDIO_RESP2}"
    by (simp_all add: sdio_regs)
  have stat: "demo_sd l SDIO_STAT = (if looks l < 3 then 0 else if c = SD_CMD_GO_IDLE_STATE then 0x80
      else if c = SD_APPCMD_SD_SEND_OP_COND then 1 else 0x40)" if "asked demo_dev cs c a l" for cs c a l
    using that regs(1) by (simp add: demo_sd_def asked_def Let_def)
  have d: "\<exists>d :: io_log \<Rightarrow> nat. (\<forall>l. d l < 100000) \<and> (\<forall>l cs c a. asked demo_dev cs c a l \<longrightarrow>
      demo_sd l SDIO_STAT AND end_flags c = 0 \<longrightarrow> d (Rd SDIO_STAT (demo_sd l SDIO_STAT) # l) < d l)"
    by (rule exI [of _ "\<lambda>l. 3 - looks l"]) (auto simp: stat end_flags_def CMD_DONE_def sdio_flags split: if_splits)
  have told: "(c \<in> {SD_CMD_APP_CMD, SD_CMD_SEND_RELATIVE_ADDR} \<longrightarrow> demo_sd l SDIO_RSPCMDIDX = ucast c) \<and>
      answer demo_dev demo_sd l (after_cmds demo_dev (cs @ [(c, a)])) c" if "told demo_dev cs c a l" for cs c a l
    using that regs unfolding answer_def told_def
    by (auto simp: demo_sd_def Let_def demo_dev_def SD_R1_ERROR_BITS_def)
  show ?thesis
    unfolding sd_card_def using d told
    by (auto simp: stat demo_dev_def bit_numeral_rec) (simp_all add: demo_sd_def)
qed

theorem sd_init_identifies_card_witness:
  "wp (sd_init demo_sd) (\<lambda>st s'. st = SD_OK \<and> sd_rca s' = 0x1234 \<and> cardtype s' = SDIO_HIGH_CAPACITY_SD_CARD \<and>
      sd_cid s' = [1, 2, 3, 4] \<and> sd_csd s' = [5, 6, 7, 8] \<and>
      map fst (issued (iolog s')) = [0, 8, 55, 55, 41, 55, 41, 55, 41, 2, 3, 9])
      (sdcard.make [] [0, 0] SDIO_STD_CAPACITY_SD_CARD_V1_1 [0, 0, 0, 0] [0, 0, 0, 0] 0 1 0 0 SD_OK 0 0 Map.empty)"
  by (rule wp_mono [OF sd_init_identifies_card [OF demo_sd_works]])
    (auto simp: demo_dev_def identification_def rounds_done_def numeral_eq_Suc sdcard.make_def bit_numeral_rec)

end
