(* ===== verification/Sd_Transfer.thy ===== *)
theory Sd_Transfer
  imports Sd_Control
begin

text \<open>
  Data transfer in \<open>sdcard.c\<close>: reading and writing one or several blocks, by polling the FIFO or by DMA.
  In DMA mode the routines wait for \<open>SDIO_IRQHandler\<close>: the argument \<open>irq\<close> says after which histories
  of the bus the interrupt is taken, at the turns of the waiting loops. (Between the loops the code
  only programs the DMA controller, which the handler does not touch, so that an interrupt there is
  an interrupt at the first turn.)
\<close>

section \<open>Common steps\<close>

definition sd_datablocksize_get :: "u16 \<Rightarrow> ('z bus_scheme, u32) cm" where
  "sd_datablocksize_get bytesnumber =
     bindM (whileM (\<lambda>(bytesnumber, exp_val). ret (1 \<noteq> bytesnumber))
              (\<lambda>(bytesnumber, exp_val). ret (drop_bit 1 bytesnumber, exp_val + 1))
              (bytesnumber, 0 :: u8)) (\<lambda>(bytesnumber, exp_val).
     ret (BITS 4 7 AND push_bit 4 (ucast exp_val)))"

definition transfer_reset :: "hw \<Rightarrow> ('z sdcard_scheme, unit) cm" where
  "transfer_reset h =
     thenM (modM (\<lambda>s. s\<lparr>transerror := SD_OK, transend := 0, totalnumber_bytes := 0\<rparr>)) (dsm_clear h)"

text \<open>The block length check and CMD16; the rest of the operation gets the block size code.\<close>

definition set_blocklen :: "hw \<Rightarrow> u16 \<Rightarrow> (u32 \<Rightarrow> ('z sdcard_scheme, sd_error) cm) \<Rightarrow> ('z sdcard_scheme, sd_error) cm" where
  "set_blocklen h blocksize k =
     (let align = blocksize AND (blocksize - 1) in
      if blocksize > 0 \<and> blocksize \<le> 2048 \<and> align = 0
      then bindM (sd_datablocksize_get blocksize) (\<lambda>datablksize.
           check_ok (cmd_r1 h SD_CMD_SET_BLOCKLEN (ucast blocksize)) (k datablksize))
      else ret SD_PARAMETER_INVALID)"

text \<open>What all four operations do first: the argument check, the reset of the data path, the lock
  check, and the addressing of high capacity cards in blocks of 512 bytes.\<close>

definition transfer_setup ::
    "hw \<Rightarrow> u32 \<Rightarrow> u32 \<Rightarrow> u16 \<Rightarrow> (u32 \<Rightarrow> u16 \<Rightarrow> u32 \<Rightarrow> ('z sdcard_scheme, sd_error) cm) \<Rightarrow> ('z sdcard_scheme, sd_error) cm" where
  "transfer_setup h buf addr blocksize k =
     (if buf = 0 then ret SD_PARAMETER_INVALID
      else thenM (transfer_reset h)
     (bindM (card_locked h) (\<lambda>locked.
      if locked then ret SD_LOCK_UNLOCK_FAILED
      else bindM (getM cardtype) (\<lambda>t.
      let blocksize = (if t = SDIO_HIGH_CAPACITY_SD_CARD then 512 else blocksize);
          addr = (if t = SDIO_HIGH_CAPACITY_SD_CARD then addr div 512 else addr)
      in set_blocklen h blocksize (k addr blocksize)))))"

definition data_start :: "hw \<Rightarrow> u32 \<Rightarrow> u32 \<Rightarrow> u32 \<Rightarrow> u32 \<Rightarrow> ('z sdcard_scheme, unit) cm" where
  "data_start h stop nbytes datablksize dir =
     seqM [modM (\<lambda>s. s\<lparr>stopcondition := stop, totalnumber_bytes := nbytes\<rparr>),
           sdio_data_config h SD_DATATIMEOUT nbytes datablksize,
           sdio_data_transfer_config h 0 dir,
           sdio_dsm_enable h]"

definition irq_point :: "hw \<Rightarrow> (io_log \<Rightarrow> bool) \<Rightarrow> ('z sdcard_scheme, unit) cm" where
  "irq_point h irq = bindM (getM (\<lambda>s. irq (iolog s))) (\<lambda>b. whenM b (SDIO_IRQHandler h))"

text \<open>The wait for the DMA channel, which gives up after \<open>timeout\<close> turns, and the wait for the interrupt.\<close>

definition dma_wait :: "hw \<Rightarrow> (io_log \<Rightarrow> bool) \<Rightarrow> u32 \<Rightarrow> ('z sdcard_scheme, sd_error) cm" where
  "dma_wait h irq timeout =
     bindM (whileM (\<lambda>(status, timeout).
              if status \<noteq> SD_OK then ret False
              else bindM (dma_flag_get h DMA1 3 DMA_FLAG_FTF) (\<lambda>f. ret (\<not> f \<and> timeout > 0)))
              (\<lambda>(status, timeout).
               thenM (irq_point h irq)
              (let timeout = timeout - 1 in ret (if timeout = 0 then SD_ERROR else SD_OK, timeout)))
              (SD_OK, timeout)) (\<lambda>(status, _). ret status)"

definition wait_transend :: "hw \<Rightarrow> (io_log \<Rightarrow> bool) \<Rightarrow> ('z sdcard_scheme, sd_error) cm" where
  "wait_transend h irq =
     bindM (whileM (\<lambda>_. getM (\<lambda>s. transend s = 0 \<and> transerror s = SD_OK))
              (\<lambda>_. thenM idleM (irq_point h irq)) ()) (\<lambda>_.
     getM transerror)"

definition stop_transmission :: "hw \<Rightarrow> ('z sdcard_scheme, sd_error) cm" where
  "stop_transmission h =
     bindM (sdio_flag_get h SDIO_FLAG_DTEND) (\<lambda>f.
     bindM (getM cardtype) (\<lambda>t.
     check_ok (if f \<and> sd_memory_card t then cmd_r1 h SD_CMD_STOP_TRANSMISSION 0 else ret SD_OK)
    (thenM (sdio_flag_clear SDIO_MASK_INTC_FLAGS) (ret SD_OK))))"

section \<open>Reading\<close>

definition block_read_data :: "hw \<Rightarrow> (io_log \<Rightarrow> bool) \<Rightarrow> u32 \<Rightarrow> u16 \<Rightarrow> ('z sdcard_scheme, sd_error) cm" where
  "block_read_data h irq preadbuffer blocksize =
     bindM (getM transmode) (\<lambda>mode.
     if mode = SD_POLLING_MODE
     then bindM (poll_receive h SDIO_FLAG_DTBLKEND preadbuffer) (\<lambda>ptempbuff.
          check_ok (first_flag h rx_errors)
         (bindM (drain_fifo h ptempbuff) (\<lambda>_.
          thenM (sdio_flag_clear SDIO_MASK_INTC_FLAGS) (ret SD_OK))))
     else if mode = SD_DMA_MODE
     then thenM (seqM [sdio_interrupt_enable h (SDIO_FLAG_CCRCERR OR SDIO_FLAG_DTTMOUT OR SDIO_FLAG_RXORE OR SDIO_FLAG_DTEND OR SDIO_FLAG_STBITE),
                       sdio_dma_enable h,
                       dma_receive_config h preadbuffer (ucast blocksize)])
               (dma_wait h irq 100000)
     else ret SD_PARAMETER_INVALID)"

definition sd_block_read :: "hw \<Rightarrow> (io_log \<Rightarrow> bool) \<Rightarrow> u32 \<Rightarrow> u32 \<Rightarrow> u16 \<Rightarrow> ('z sdcard_scheme, sd_error) cm" where
  "sd_block_read h irq preadbuffer readaddr blocksize =
     transfer_setup h preadbuffer readaddr blocksize (\<lambda>readaddr blocksize datablksize.
     thenM (data_start h 0 (ucast blocksize) datablksize (BIT 1))
    (check_ok (cmd_r1 h SD_CMD_READ_SINGLE_BLOCK readaddr)
    (block_read_data h irq preadbuffer blocksize)))"

definition multiblocks_read_data :: "hw \<Rightarrow> (io_log \<Rightarrow> bool) \<Rightarrow> u32 \<Rightarrow> ('z sdcard_scheme, sd_error) cm" where
  "multiblocks_read_data h irq preadbuffer =
     bindM (getM (\<lambda>s. (transmode s, totalnumber_bytes s))) (\<lambda>(mode, nbytes).
     if mode = SD_POLLING_MODE
     then bindM (poll_receive h SDIO_FLAG_DTEND preadbuffer) (\<lambda>ptempbuff.
          check_ok (first_flag h rx_errors)
         (bindM (drain_fifo h ptempbuff) (\<lambda>_. stop_transmission h)))
     else if mode = SD_DMA_MODE
     then thenM (seqM [sdio_interrupt_enable h (SDIO_FLAG_DTCRCERR OR SDIO_FLAG_DTTMOUT OR SDIO_FLAG_RXORE OR SDIO_FLAG_DTEND OR SDIO_FLAG_STBITE),
                       sdio_dma_enable h,
                       dma_receive_config h preadbuffer nbytes])
         (check_ok (dma_wait h irq 100000) (wait_transend h irq))
     else ret SD_PARAMETER_INVALID)"

definition sd_multiblocks_read ::
    "hw \<Rightarrow> (io_log \<Rightarrow> bool) \<Rightarrow> u32 \<Rightarrow> u32 \<Rightarrow> u16 \<Rightarrow> u32 \<Rightarrow> ('z sdcard_scheme, sd_error) cm" where
  "sd_multiblocks_read h irq preadbuffer readaddr blocksize blocksnumber =
     transfer_setup h preadbuffer readaddr blocksize (\<lambda>readaddr blocksize datablksize.
     if blocksnumber > 1
     then if blocksnumber * ucast blocksize > SD_MAX_DATA_LENGTH then ret SD_PARAMETER_INVALID
          else thenM (data_start h 1 (blocksnumber * ucast blocksize) datablksize (BIT 1))
              (check_ok (cmd_r1 h SD_CMD_READ_MULTIPLE_BLOCK readaddr)
              (multiblocks_read_data h irq preadbuffer))
     else ret SD_OK)"

section \<open>Writing\<close>

text \<open>One turn of the sending loop: the last words one by one, or a burst of eight. The local variables
  are the pointer and the number of bytes sent.\<close>

definition send_words :: "u32 \<Rightarrow> u32 \<Rightarrow> u32 \<Rightarrow> ('z sdcard_scheme, u32 \<times> u32) cm" where
  "send_words restwords ptempbuff transbytes =
     bindM (whileM (\<lambda>(count, _). ret (count < restwords))
              (\<lambda>(count, ptempbuff, transbytes).
               bindM (mem_rd ptempbuff) (\<lambda>w. thenM (sdio_data_write w) (ret (count + 1, ptempbuff + 4, transbytes + 4))))
              (0 :: u32, ptempbuff, transbytes)) (\<lambda>(_, r). ret r)"

definition send_burst :: "u32 \<Rightarrow> ('z sdcard_scheme, unit) cm" where
  "send_burst ptempbuff =
     foldM (\<lambda>count _. bindM (mem_rd (ptempbuff + 4 * of_nat count)) sdio_data_write) [0..<8] ()"

definition send_turn :: "u32 \<Rightarrow> u32 \<Rightarrow> u32 \<Rightarrow> ('z sdcard_scheme, u32 \<times> u32) cm" where
  "send_turn nbytes ptempbuff transbytes =
     (if nbytes - transbytes < 32
      then send_words ((nbytes - transbytes) div 4 + (if (nbytes - transbytes) mod 4 = 0 then 0 else 1)) ptempbuff transbytes
      else thenM (send_burst ptempbuff) (ret (ptempbuff + 32, transbytes + 32)))"

definition tx_done :: "u32 \<Rightarrow> u32" where
  "tx_done fin = SDIO_FLAG_DTCRCERR OR SDIO_FLAG_DTTMOUT OR SDIO_FLAG_TXURE OR fin OR SDIO_FLAG_STBITE"

definition poll_send :: "hw \<Rightarrow> u32 \<Rightarrow> u32 \<Rightarrow> ('z sdcard_scheme, unit) cm" where
  "poll_send h fin pwritebuffer =
     bindM (whileM (\<lambda>_. bindM (sdio_flag_get h (tx_done fin)) (\<lambda>f. ret (\<not> f)))
              (\<lambda>(ptempbuff, transbytes).
               bindM (sdio_flag_get h SDIO_FLAG_TFH) (\<lambda>f.
               if f then bindM (getM totalnumber_bytes) (\<lambda>nbytes. send_turn nbytes ptempbuff transbytes)
               else ret (ptempbuff, transbytes)))
              (pwritebuffer, 0)) (\<lambda>_. ret ())"

definition write_dma :: "hw \<Rightarrow> (io_log \<Rightarrow> bool) \<Rightarrow> u32 \<Rightarrow> ('z sdcard_scheme, unit) cm \<Rightarrow> ('z sdcard_scheme, sd_error) cm" where
  "write_dma h irq timeout start =
     thenM (sdio_interrupt_enable h (SDIO_FLAG_DTCRCERR OR SDIO_FLAG_DTTMOUT OR SDIO_FLAG_TXURE OR SDIO_FLAG_DTEND OR SDIO_FLAG_STBITE))
    (thenM start
    (check_ok (dma_wait h irq timeout) (wait_transend h irq)))"

definition block_write_data :: "hw \<Rightarrow> (io_log \<Rightarrow> bool) \<Rightarrow> u32 \<Rightarrow> u16 \<Rightarrow> ('z sdcard_scheme, sd_error) cm" where
  "block_write_data h irq pwritebuffer blocksize =
     bindM (getM transmode) (\<lambda>mode.
     if mode = SD_POLLING_MODE
     then thenM (poll_send h SDIO_FLAG_DTBLKEND pwritebuffer) (first_flag h tx_errors)
     else if mode = SD_DMA_MODE
     then write_dma h irq 100000 (thenM (dma_transfer_config h pwritebuffer (ucast blocksize)) (sdio_dma_enable h))
     else ret SD_PARAMETER_INVALID)"

definition sd_block_write :: "hw \<Rightarrow> (io_log \<Rightarrow> bool) \<Rightarrow> u32 \<Rightarrow> u32 \<Rightarrow> u16 \<Rightarrow> ('z sdcard_scheme, sd_error) cm" where
  "sd_block_write h irq pwritebuffer writeaddr blocksize =
     transfer_setup h pwritebuffer writeaddr blocksize (\<lambda>writeaddr blocksize datablksize.
     check_ok (wait_ready h)
    (check_ok (cmd_r1 h SD_CMD_WRITE_BLOCK writeaddr)
    (thenM (data_start h 0 (ucast blocksize) datablksize 0)
    (check_ok (block_write_data h irq pwritebuffer blocksize)
    (thenM (sdio_flag_clear SDIO_MASK_INTC_FLAGS) (wait_programmed h))))))"

definition multiblocks_write_data :: "hw \<Rightarrow> (io_log \<Rightarrow> bool) \<Rightarrow> u32 \<Rightarrow> ('z sdcard_scheme, sd_error) cm" where
  "multiblocks_write_data h irq pwritebuffer =
     bindM (getM (\<lambda>s. (transmode s, totalnumber_bytes s))) (\<lambda>(mode, nbytes).
     if mode = SD_POLLING_MODE
     then thenM (poll_send h SDIO_FLAG_DTEND pwritebuffer)
         (check_ok (first_flag h tx_errors) (stop_transmission h))
     else if mode = SD_DMA_MODE
     then write_dma h irq 200000 (thenM (sdio_dma_enable h) (dma_transfer_config h pwritebuffer nbytes))
     else ret SD_PARAMETER_INVALID)"

definition preerase :: "hw \<Rightarrow> u32 \<Rightarrow> ('z sdcard_scheme, sd_error) cm" where
  "preerase h blocksnumber =
     bindM (getM (\<lambda>s. (cardtype s, sd_rca s))) (\<lambda>(t, rca).
     if sd_memory_card t
     then check_ok (cmd_r1 h SD_CMD_APP_CMD (rca_arg rca)) (cmd_r1 h SD_APPCMD_SET_WR_BLK_ERASE_COUNT blocksnumber)
     else ret SD_OK)"

definition sd_multiblocks_write ::
    "hw \<Rightarrow> (io_log \<Rightarrow> bool) \<Rightarrow> u32 \<Rightarrow> u32 \<Rightarrow> u16 \<Rightarrow> u32 \<Rightarrow> ('z sdcard_scheme, sd_error) cm" where
  "sd_multiblocks_write h irq pwritebuffer writeaddr blocksize blocksnumber =
     transfer_setup h pwritebuffer writeaddr blocksize (\<lambda>writeaddr blocksize datablksize.
     check_ok (send_status h)
    (check_ok
      (if blocksnumber > 1
       then if blocksnumber * ucast blocksize > SD_MAX_DATA_LENGTH then ret SD_PARAMETER_INVALID
            else check_ok (preerase h blocksnumber)
                (check_ok (cmd_r1 h SD_CMD_WRITE_MULTIPLE_BLOCK writeaddr)
                (thenM (data_start h 1 (blocksnumber * ucast blocksize) datablksize 0)
                (multiblocks_write_data h irq pwritebuffer)))
       else ret SD_OK)
    (thenM (sdio_flag_clear SDIO_MASK_INTC_FLAGS) (wait_programmed h))))"

section \<open>The block size code\<close>

lemma size_code_bits:
  "k < 16 \<Longrightarrow> BITS 4 7 AND push_bit 4 (ucast (of_nat k :: u8)) = push_bit 4 (of_nat k :: u32)"
  by (simp only: numeral_eq_Suc pred_numeral_simps BitM.simps numeral_One One_nat_def less_Suc_eq less_zeroE not_less_zero eval_nat_numeral)
     (elim disjE; simp add: BITS_def)

lemma sd_datablocksize_run:
  assumes "0 < n"
  shows "wp (sd_datablocksize_get n)
           (\<lambda>r t. t = s \<and> (\<exists>k \<le> 15. 2 ^ k \<le> unat n \<and> unat n < 2 ^ (k + 1) \<and> r = push_bit 4 (of_nat k))) s"
proof -
  let ?I = "\<lambda>(b :: u16, e :: u8) t. t = s \<and> (\<exists>k \<le> 15. unat b = unat n div 2 ^ k \<and> 0 < unat b \<and> e = of_nat k)"
  have n16: "unat n < 2 ^ 16" using unsigned_less [of n] by simp
  have step: "\<exists>k' \<le> 15. unat (drop_bit 1 b) = unat n div 2 ^ k' \<and> 0 < unat (drop_bit 1 b) \<and> of_nat k + 1 = (of_nat k' :: u8)"
    if k: "k \<le> 15" "unat b = unat n div 2 ^ k" "0 < unat b" "b \<noteq> 1" for b :: u16 and k
  proof -
    have b2: "2 \<le> unat b" using k(3,4) by (metis One_nat_def Suc_leI less_2_cases_iff linorder_not_less nat_neq_iff unat_1 word_unat_eq_iff)
    have "k \<noteq> 15"
    proof
      assume "k = 15"
      then have "unat b < 2" using k(2) n16 by simp
      with b2 show False by simp
    qed
    moreover have d: "unat (drop_bit 1 b) = unat b div 2" by (simp add: drop_bit_eq_div unat_div)
    moreover have "unat b div 2 = unat n div 2 ^ Suc k"
      using k(2) by (simp add: div_mult2_eq [symmetric] mult.commute)
    ultimately show ?thesis using k(1) b2 by (intro exI [of _ "Suc k"]) auto
  qed
  have fin: "2 ^ k \<le> unat n \<and> unat n < 2 ^ (k + 1) \<and> BITS 4 7 AND push_bit 4 (ucast (of_nat k :: u8)) = push_bit 4 (of_nat k :: u32)"
    if k: "k \<le> 15" "unat (1 :: u16) = unat n div 2 ^ k" for k
  proof (intro conjI)
    have d: "unat n div 2 ^ k = 1" using k(2) by simp
    show "2 ^ k \<le> unat n" using d by (metis div_less linorder_not_less zero_neq_one)
    have "unat n < 2 ^ k + 2 ^ k * (unat n div 2 ^ k)" by (rule dividend_less_times_div) simp
    then show "unat n < 2 ^ (k + 1)" using d by simp
    have "k < 16" using k(1) by simp
    then show "BITS 4 7 AND push_bit 4 (ucast (of_nat k :: u8)) = push_bit 4 (of_nat k :: u32)"
      by (rule size_code_bits)
  qed
  show ?thesis
    unfolding sd_datablocksize_get_def wp_bindM
  proof (rule wp_whileM [where I = ?I and M = "\<lambda>(b, e) _. unat b"], goal_cases)
    case 1
    show ?case using assms by (auto simp: unat_gt_0 intro!: exI [of _ 0])
  next
    case (2 v t)
    obtain b e where v: "v = (b, e)" by (cases v)
    from 2 obtain k where k: "t = s" "k \<le> 15" "unat b = unat n div 2 ^ k" "0 < unat b" "e = of_nat k" by (auto simp: v)
    show ?case
    proof (cases "b = 1")
      case True
      then have b: "unat (1 :: u16) = unat n div 2 ^ k" using k by simp
      show ?thesis using fin [OF k(2) b] k(1,2,5) True by (simp add: v wp_ret) (intro exI [of _ k] conjI; simp)
    next
      case False
      have "unat (drop_bit 1 b) < unat b" using k(4) by (simp add: drop_bit_eq_div unat_div)
      then show ?thesis using step [OF k(2-4) False] k(1,5) False by (auto simp: v wp_ret)
    qed
  qed
qed

text \<open>A loop whose guard never fails does not return.\<close>

lemma sd_datablocksize_zero: "sd_datablocksize_get 0 s = None"
proof -
  let ?w = "whileM (\<lambda>(bytesnumber :: u16, exp_val :: u8). ret (1 \<noteq> bytesnumber))
    (\<lambda>(bytesnumber, exp_val). ret (drop_bit 1 bytesnumber, exp_val + 1)) (0, 0)"
  have "wlp ?w (\<lambda>_ _. False) s"
    by (rule wlp_whileM [where I = "\<lambda>v _. fst v = 0"]) (auto simp: wp_ret split: prod.splits)
  then have "?w s = None" by (auto simp: wlp_iff wp_def)
  then show ?thesis by (simp add: sd_datablocksize_get_def run_simps)
qed

section \<open>Properties\<close>

text \<open>
  the block size code is the base-two logarithm of the block size, in the bits 4 to 7 of the data
  control register, for every size but zero; for the size zero the loop never ends.
\<close>

theorem datablocksize_is_log2:
  "if n = 0 then sd_datablocksize_get n s = None
   else wp (sd_datablocksize_get n)
      (\<lambda>r t. t = s \<and> (\<exists>k \<le> 15. 2 ^ k \<le> unat n \<and> unat n < 2 ^ (k + 1) \<and> r = push_bit 4 (of_nat k))) s"
  using sd_datablocksize_run [of n s] by (cases "n = 0") (simp_all add: sd_datablocksize_zero word_neq_0_conv)

end
