(* ===== verification/Sd_Blocks.thy ===== *)
theory Sd_Blocks
  imports Sd_Transfer
begin

text \<open>
  What the polled transfers of \<open>sdcard.c\<close> do to memory and to the card: the contract of a high capacity
  card whose blocks are written and read through the data FIFO, the two loops that fill and empty the
  FIFO, and the correctness of \<open>sd_block_read\<close> and \<open>sd_block_write\<close> against that contract.
\<close>

section \<open>Buffers\<close>

text \<open>The words \<open>ws\<close> stored from address \<open>p\<close> on.\<close>

fun store_words :: "u32 \<Rightarrow> u32 list \<Rightarrow> (u32 \<rightharpoonup> u32) \<Rightarrow> (u32 \<rightharpoonup> u32)" where
  "store_words p [] m = m"
| "store_words p (w # ws) m = store_words (p + 4) ws (m(p \<mapsto> w))"

definition mapped :: "(u32 \<rightharpoonup> u32) \<Rightarrow> u32 \<Rightarrow> nat \<Rightarrow> bool" where
  "mapped m p n \<longleftrightarrow> (\<forall>i < n. m (p + 4 * of_nat i) \<noteq> None)"

definition load_words :: "(u32 \<rightharpoonup> u32) \<Rightarrow> u32 \<Rightarrow> nat \<Rightarrow> u32 list" where
  "load_words m p n = map (\<lambda>i. the (m (p + 4 * of_nat i))) [0..<n]"

lemma store_words_snoc:
  "store_words p (ws @ [w]) m = (store_words p ws m)(p + 4 * of_nat (length ws) \<mapsto> w)"
  by (induction ws arbitrary: p m) (simp_all add: algebra_simps)

lemma dom_store_words: "m q \<noteq> None \<Longrightarrow> store_words p ws m q \<noteq> None"
  by (induction ws arbitrary: p m) auto

lemma mapped_store_words: "mapped m p n \<Longrightarrow> mapped (store_words q ws m) p n"
  by (simp add: mapped_def dom_store_words del: not_None_eq)

lemma store_words_other:
  "(\<And>i. i < length ws \<Longrightarrow> q \<noteq> p + 4 * of_nat i) \<Longrightarrow> store_words p ws m q = m q"
proof (induction ws arbitrary: p m)
  case (Cons w ws)
  have "q \<noteq> p" using Cons.prems [of 0] by simp
  moreover have "q \<noteq> p + 4 + 4 * of_nat i" if "i < length ws" for i
    using Cons.prems [of "Suc i"] that by (simp add: algebra_simps)
  ultimately show ?case using Cons.IH [of "p + 4" "m(p \<mapsto> w)"] by (simp del: fun_upd_apply) simp
qed simp

lemma word_step_inj:
  assumes "i < 2 ^ 30" "j < 2 ^ 30" "p + 4 * of_nat i = p + 4 * (of_nat j :: u32)"
  shows "i = j"
proof -
  have "unat (4 * of_nat i :: u32) = 4 * i" if "i < 2 ^ 30" for i
    using that by (simp add: unat_mult_lem [THEN iffD1] unat_word_ariths unsigned_of_nat take_bit_nat_eq_self)
  then show ?thesis using assms by (metis add_left_cancel mult_left_cancel zero_neq_numeral)
qed

lemma store_words_nth:
  assumes "length ws \<le> 2 ^ 30" "i < length ws"
  shows "store_words p ws m (p + 4 * of_nat i) = Some (ws ! i)"
  using assms
proof (induction ws arbitrary: i rule: rev_induct)
  case (snoc w ws)
  have "i = length ws" if "p + 4 * of_nat i = p + 4 * (of_nat (length ws) :: u32)"
    using that snoc.prems by (intro word_step_inj) auto
  moreover have "i = length ws \<or> i < length ws" using snoc.prems by auto
  ultimately show ?case using snoc by (auto simp: store_words_snoc nth_append)
qed simp

lemma load_store_words:
  assumes "length ws \<le> 2 ^ 30"
  shows "load_words (store_words p ws m) p (length ws) = ws"
  using assms by (intro nth_equalityI) (simp_all add: load_words_def store_words_nth)

section \<open>The card behind the FIFO\<close>

text \<open>
  The argument of the last command, the words that the FIFO has room for at least, and the number of words
  that went through the FIFO since. Only the flag \<open>TFH\<close> (bit 14 of the status) promises room, for eight
  words; a word that is written without room is lost.
\<close>

definition cmd_arg :: "io_log \<Rightarrow> u32" where
  "cmd_arg l = (case last_wr SDIO_CMDAGMT l of None \<Rightarrow> 0 | Some a \<Rightarrow> a)"

fun fifo_room :: "io_log \<Rightarrow> nat" where
  "fifo_room [] = 0"
| "fifo_room (Wr a v # l) = (if a = SDIO_CMDCTL then 0 else if a = SDIO_FIFO then fifo_room l - 1 else fifo_room l)"
| "fifo_room (Rd a v # l) = (if a = SDIO_STAT \<and> bit v 14 then 8 else fifo_room l)"
| "fifo_room (Idle # l) = fifo_room l"

fun fifo_pos :: "io_log \<Rightarrow> nat" where
  "fifo_pos [] = 0"
| "fifo_pos (Wr a v # l) =
     (if a = SDIO_CMDCTL then 0 else if a = SDIO_FIFO \<and> fifo_room l \<noteq> 0 then Suc (fifo_pos l) else fifo_pos l)"
| "fifo_pos (Rd a v # l) = (if a = SDIO_FIFO then Suc (fifo_pos l) else fifo_pos l)"
| "fifo_pos (Idle # l) = fifo_pos l"

text \<open>
  The contents of the card after a history: word \<open>k\<close> of block \<open>b\<close> is the last word that was the \<open>k\<close>-th one
  the FIFO took after a CMD24 for \<open>b\<close>.
\<close>

type_synonym blocks = "u32 \<times> nat \<Rightarrow> u32"

fun disk :: "blocks \<Rightarrow> io_log \<Rightarrow> blocks" where
  "disk d [] = d"
| "disk d (Wr a v # l) =
     (if a = SDIO_FIFO \<and> fifo_room l \<noteq> 0 \<and> cmd_is SD_CMD_WRITE_BLOCK l then (disk d l)((cmd_arg l, fifo_pos l) := v) else disk d l)"
| "disk d (Rd a v # l) = disk d l"
| "disk d (Idle # l) = disk d l"

text \<open>
  \<open>accepts h\<close>: every command is answered, without error, by a card that is unlocked, ready for data and
  not programming.
\<close>

definition accepts :: "hw \<Rightarrow> bool" where
  "accepts h \<longleftrightarrow> storage_reg h SDIO_CMDCTL 0 \<and>
     (\<forall>c l. cmd_is c l \<longrightarrow> bit (h l SDIO_STAT) 6 \<and> \<not> bit (h l SDIO_STAT) 2 \<and> \<not> bit (h l SDIO_STAT) 0 \<and>
        h l SDIO_RSPCMDIDX = ucast c) \<and>
     (\<forall>l. h l SDIO_RESP0 AND SD_R1_ERROR_BITS = 0 \<and> \<not> bit (h l SDIO_RESP0) 25 \<and> bit (h l SDIO_RESP0) 8 \<and>
        ucast (drop_bit 9 (h l SDIO_RESP0) AND 0xF) \<notin> {6, 7 :: u8})"

text \<open>No data error is shown: checksum, timeout, underrun, overrun, start bit.\<close>

definition no_data_error :: "u32 \<Rightarrow> bool" where
  "no_data_error st \<longleftrightarrow> \<not> bit st 1 \<and> \<not> bit st 3 \<and> \<not> bit st 4 \<and> \<not> bit st 5 \<and> \<not> bit st 9"

text \<open>
  The data phase of a command \<open>c\<close> that moves \<open>n\<close> words and ends with the flag \<open>fin\<close>: no error; the end flag,
  once set, stays set while the FIFO is read and written; the half-full (or half-empty) flag \<open>hf\<close> is
  shown or the end comes nearer with every look at the status, as some measure of the history tells.
\<close>

definition data_phase :: "hw \<Rightarrow> u8 \<Rightarrow> nat \<Rightarrow> nat \<Rightarrow> nat \<Rightarrow> bool" where
  "data_phase h c n hf fin \<longleftrightarrow>
     (\<forall>l. cmd_is c l \<longrightarrow> no_data_error (h l SDIO_STAT)) \<and>
     (\<forall>l a v. cmd_is c l \<and> bit (h l SDIO_STAT) fin \<longrightarrow>
        bit (h (Rd a v # l) SDIO_STAT) fin \<and> bit (h (Wr SDIO_FIFO v # l) SDIO_STAT) fin) \<and>
     (\<exists>d :: io_log \<Rightarrow> nat. (\<forall>e l. d (e # l) \<le> d l) \<and>
        (\<forall>l v. cmd_is c l \<and> \<not> bit (h l SDIO_STAT) fin \<and> (bit (h l SDIO_STAT) hf \<longrightarrow> n \<le> fifo_pos l) \<longrightarrow>
           d (Rd SDIO_STAT v # l) < d l))"

text \<open>
  A high capacity card with the contents \<open>disk d\<close>. Reading: the FIFO delivers the words of the block; it is
  half full only if eight words are left; after the end of the block it shows whether words are left.
  Writing: the block ends only when all its words were sent.
\<close>

definition block_card :: "hw \<Rightarrow> blocks \<Rightarrow> bool" where
  "block_card h d \<longleftrightarrow> accepts h \<and>
     data_phase h SD_CMD_READ_SINGLE_BLOCK 128 15 10 \<and> data_phase h SD_CMD_WRITE_BLOCK 128 14 10 \<and>
     (\<forall>l. cmd_is SD_CMD_READ_SINGLE_BLOCK l \<longrightarrow>
        h l SDIO_FIFO = disk d l (cmd_arg l, fifo_pos l) \<and>
        (bit (h l SDIO_STAT) 15 \<longrightarrow> fifo_pos l + 8 \<le> 128) \<and>
        (bit (h l SDIO_STAT) 10 \<longrightarrow> (bit (h l SDIO_STAT) 21 \<longleftrightarrow> fifo_pos l < 128))) \<and>
     (\<forall>l. cmd_is SD_CMD_WRITE_BLOCK l \<longrightarrow> bit (h l SDIO_STAT) 10 \<longrightarrow> 128 \<le> fifo_pos l)"

section \<open>Commands leave the blocks alone\<close>

definition same_disk :: "blocks \<Rightarrow> 'z bus_scheme \<Rightarrow> 'z bus_scheme \<Rightarrow> bool" where
  "same_disk d s t \<longleftrightarrow> disk d (iolog t) = disk d (iolog s)"

interpretation dk: frame_rel "same_disk d :: 'z bus_scheme \<Rightarrow> 'z bus_scheme \<Rightarrow> bool" for d
  by unfold_locales (simp_all add: same_disk_def)

named_theorems disk_intros \<open>rules for computations that send no data\<close>

lemma disk_basic [disk_intros]:
  "keeps (same_disk d) (rd32 h a)"
  "a \<noteq> SDIO_FIFO \<Longrightarrow> keeps (same_disk d) (wr32 a v)"
  "a \<noteq> SDIO_FIFO \<Longrightarrow> keeps (same_disk d) (mod32 h a f)"
  "a \<noteq> SDIO_FIFO \<Longrightarrow> keeps (same_disk d) (setbits h a m)"
  "a \<noteq> SDIO_FIFO \<Longrightarrow> keeps (same_disk d) (clrbits h a m)"
  by (simp_all add: keeps_def wp_simps same_disk_def bits_defs)

declare dk.keeps_ret [disk_intros] dk.keeps_getM [disk_intros] dk.keeps_intros [disk_intros]
  keeps_check_ok [OF dk.frame_rel_axioms, disk_intros]

lemma disk_sdio [disk_intros]:
  "keeps (same_disk d) (sdio_response_get h x)" "keeps (same_disk d) (sdio_command_index_get h)"
  "keeps (same_disk d) (sdio_flag_get h f)" "keeps (same_disk d) (sdio_flag_clear f)"
  "keeps (same_disk d) (sdio_data_config h t n b)" "keeps (same_disk d) (sdio_data_transfer_config h tm td)"
  "keeps (same_disk d) (sdio_dsm_enable h)" "keeps (same_disk d) (sdio_dsm_disable h)"
  "keeps (same_disk d) (sdio_dma_disable h)"
  "keeps (same_disk d) (sdio_command_response_config h ci ca rt)" "keeps (same_disk d) (sdio_wait_type_set h w)"
  "keeps (same_disk d) (sdio_csm_enable h)"
  unfolding sdio_defs by (intro disk_intros; simp)+

lemma disk_commands [disk_intros]:
  "keeps (same_disk d) (sd_command h c a r)" "keeps (same_disk d) (card_locked h)"
  "keeps (same_disk d) (dsm_clear h)" "keeps (same_disk d) (wait_response h)"
  "keeps (same_disk d) (r1_error_check h c)" "keeps (same_disk d) (cmd_r1 h c a)"
  unfolding sd_command_def card_locked_def dsm_clear_def wait_response_def r1_error_check_def cmd_r1_def
  by (intro disk_intros; simp)+

lemma cmd_arg_log [simp]:
  "cmd_arg (Rd a v # l) = cmd_arg l" "a \<noteq> SDIO_CMDAGMT \<Longrightarrow> cmd_arg (Wr a v # l) = cmd_arg l"
  by (simp_all add: cmd_arg_def)

lemma INTC_neq [simp]: "SDIO_INTC \<noteq> SDIO_CMDAGMT" "SDIO_CMDAGMT \<noteq> SDIO_INTC" "SDIO_FIFO \<noteq> SDIO_CMDAGMT"
  by (simp_all add: sdio_regs)

lemma wp_sd_command_pos: "wp (sd_command h c a r) (\<lambda>_ t. fifo_pos (iolog t) = 0) s"
  unfolding sd_command_def sdio_csm_enable_def sdio_command_response_config_def sdio_wait_type_set_def bits_defs
  by (simp add: wp_simps)

lemma accepts_status:
  assumes "accepts h" "cmd_is c l"
  shows "bit (h l SDIO_STAT) 6" "\<not> bit (h l SDIO_STAT) 2" "\<not> bit (h l SDIO_STAT) 0" "h l SDIO_RSPCMDIDX = ucast c"
    "h l SDIO_STAT AND CMD_DONE \<noteq> 0"
  using assms unfolding accepts_def CMD_DONE_iff by blast+

lemma accepts_response:
  assumes "accepts h"
  shows "h l SDIO_RESP0 AND SD_R1_ERROR_BITS = 0" "h l SDIO_RESP0 AND SD_CARDSTATE_LOCKED = 0"
    "h l SDIO_RESP0 AND SD_R1_READY_FOR_DATA \<noteq> 0" "ucast (drop_bit 9 (h l SDIO_RESP0) AND 0xF) \<noteq> (6 :: u8)"
    "ucast (drop_bit 9 (h l SDIO_RESP0) AND 0xF) \<noteq> (7 :: u8)"
proof -
  have "SD_CARDSTATE_LOCKED = BIT 25" by (simp add: SD_CARDSTATE_LOCKED_def)
  then show "h l SDIO_RESP0 AND SD_CARDSTATE_LOCKED = 0" "h l SDIO_RESP0 AND SD_R1_READY_FOR_DATA \<noteq> 0"
    using assms unfolding accepts_def SD_R1_READY_FOR_DATA_def by (simp_all only: and_BIT_iff not_not [symmetric]) (metis and_BIT_iff)+
qed (use assms in \<open>auto simp: accepts_def\<close>)

lemma wp_cmd_r1_accepted:
  assumes h: "accepts h" and c: "c < 64"
    and Q: "\<And>t. trace s [(c, a)] t \<Longrightarrow> cmd_is c (iolog t) \<Longrightarrow> cmd_arg (iolog t) = a \<Longrightarrow> fifo_pos (iolog t) = 0 \<Longrightarrow>
       disk d (iolog t) = disk d (iolog s) \<Longrightarrow> Q SD_OK t"
  shows "wp (cmd_r1 h c a) Q s"
proof -
  have st: "storage_reg h SDIO_CMDCTL 0" using h by (simp add: accepts_def)
  have cmd: "wp (sd_command h c a SDIO_RESPONSETYPE_SHORT) (\<lambda>_ t. cmd_is c (iolog t) \<and>
        last_wr SDIO_CMDAGMT (iolog t) = Some a \<and> fifo_pos (iolog t) = 0) s"
    by (rule wp_mono [OF wp_conj [OF wp_command_is [OF st log_ext_refl c resp_short, where Q = "\<lambda>_ t. cmd_is c (iolog t)"]
          wp_wlp [OF wp_conj [OF sd_command_registers [OF st] wp_wlp [OF wp_sd_command_pos]]]]]) auto
  have r1: "wp (r1_error_check h c) (\<lambda>st t. st = SD_OK \<and> cmd_is c (iolog t) \<and> last_wr SDIO_CMDAGMT (iolog t) = Some a \<and>
        fifo_pos (iolog t) = 0) t"
    if "cmd_is c (iolog t)" "last_wr SDIO_CMDAGMT (iolog t) = Some a" "fifo_pos (iolog t) = 0" for t :: "'a bus_scheme"
    unfolding r1_error_check_def wp_bindM
    by (subst wait_response_now, rule accepts_status(5) [OF h that(1)])
      (simp_all add: accepts_status [OF h, of c] wp_simps sdio_flag_clear_def sdio_response_get_def sdio_command_index_get_def flag_tests ucast_u8
        accepts_response [OF h] that)
  have a: "wp (cmd_r1 h c a) (\<lambda>st t. st = SD_OK \<and> cmd_is c (iolog t) \<and> last_wr SDIO_CMDAGMT (iolog t) = Some a \<and>
        fifo_pos (iolog t) = 0) s"
    unfolding cmd_r1_def wp_thenM by (rule wp_mono [OF cmd]) (intro r1; blast)
  have b: "wlp (cmd_r1 h c a) (\<lambda>_ t. trace s [(c, a)] t) s"
    by (rule trace_cmd_r1 [OF st trace_refl c]) simp
  have e: "wlp (cmd_r1 h c a) (\<lambda>_. same_disk d s) s"
    by (rule dk.keepsD [OF _ dk.frame_refl]) (intro disk_intros)
  show ?thesis
    by (rule wp_mono [OF wp_conj [OF wp_conj [OF a b] e]]) (simp add: same_disk_def cmd_arg_def Q)
qed

section \<open>Receiving\<close>

definition grows :: "'z bus_scheme \<Rightarrow> 'z bus_scheme \<Rightarrow> bool" where
  "grows s t \<longleftrightarrow> (\<exists>l. iolog t = l @ iolog s)"

interpretation gr: state_frame "grows :: 'z bus_scheme \<Rightarrow> 'z bus_scheme \<Rightarrow> bool"
  by unfold_locales (auto simp: grows_def log_ext_def)

lemma measure_grows:
  fixes g :: "io_log \<Rightarrow> nat"
  assumes "\<And>e l. g (e # l) \<le> g l" "grows s t"
  shows "g (iolog t) \<le> g (iolog s)"
proof -
  have "g (x @ l) \<le> g l" for x l
    by (induction x) (auto intro: order_trans assms(1))
  then show ?thesis using assms(2) by (auto simp: grows_def)
qed

text \<open>After \<open>k\<close> of the words \<open>w\<close> were taken from the FIFO and stored from \<open>p\<close> on.\<close>

definition received :: "blocks \<Rightarrow> u8 \<Rightarrow> 'z sdcard_scheme \<Rightarrow> u32 \<Rightarrow> u32 list \<Rightarrow> nat \<Rightarrow> 'z sdcard_scheme \<Rightarrow> bool" where
  "received d c s p w k t \<longleftrightarrow> k \<le> length w \<and> (\<exists>l. t = s\<lparr>ram := store_words p (take k w) (ram s), iolog := l\<rparr> \<and>
     cmd_is c l \<and> cmd_arg l = cmd_arg (iolog s) \<and> fifo_pos l = k \<and> disk d l = disk d (iolog s) \<and> issued l = issued (iolog s))"

text \<open>What the FIFO promises while a transfer that began in \<open>s\<close> goes on.\<close>

definition supplies :: "hw \<Rightarrow> nat \<Rightarrow> blocks \<Rightarrow> u8 \<Rightarrow> 'z sdcard_scheme \<Rightarrow> u32 \<Rightarrow> u32 list \<Rightarrow> bool" where
  "supplies h fin d c s p w \<longleftrightarrow> data_phase h c (length w) 15 fin \<and>
     (\<forall>k t. received d c s p w k t \<longrightarrow> (k < length w \<longrightarrow> h (iolog t) SDIO_FIFO = w ! k) \<and>
        (bit (h (iolog t) SDIO_STAT) 15 \<longrightarrow> k + 8 \<le> length w) \<and>
        (bit (h (iolog t) SDIO_STAT) fin \<longrightarrow> (bit (h (iolog t) SDIO_STAT) 21 \<longleftrightarrow> k < length w)))"

lemma ram_iolog_swap: "s\<lparr>iolog := l, ram := m\<rparr> = s\<lparr>ram := m, iolog := l\<rparr>"
  by (cases s) simp

lemma received_stat:
  "received d c s p w k t \<Longrightarrow> received d c s p w k (t\<lparr>iolog := Rd SDIO_STAT v # iolog t\<rparr>)"
  by (auto simp: received_def)

lemma received_cmd: "received d c s p w k t \<Longrightarrow> cmd_is c (iolog t)" "received d c s p w k t \<Longrightarrow> fifo_pos (iolog t) = k"
  "received d c s p w k t \<Longrightarrow> k \<le> length w"
  by (auto simp: received_def)

lemma wp_mem_wr: "wp (mem_wr p v) Q s \<longleftrightarrow> ram s p \<noteq> None \<and> Q () (s\<lparr>ram := (ram s)(p \<mapsto> v)\<rparr>)"
  by (simp add: wp_def mem_wr_def)

lemma received_word:
  assumes r: "received d c s p w k t" and m: "mapped (ram s) p (length w)" and k: "k < length w"
    and h: "h (iolog t) SDIO_FIFO = w ! k"
  shows "wp (bindM (sdio_data_read h) (mem_wr (p + 4 * of_nat k))) (\<lambda>_ u. received d c s p w (Suc k) u \<and> grows t u) t"
proof -
  obtain l where l: "t = s\<lparr>ram := store_words p (take k w) (ram s), iolog := l\<rparr>" "cmd_is c l"
    "cmd_arg l = cmd_arg (iolog s)" "fifo_pos l = k" "disk d l = disk d (iolog s)" "issued l = issued (iolog s)"
    using r by (auto simp: received_def)
  have "store_words p (take k w) (ram s) (p + 4 * of_nat k) \<noteq> None"
    using mapped_store_words [OF m, of p "take k w"] k by (simp add: mapped_def)
  moreover have "store_words p (take (Suc k) w) (ram s) = (store_words p (take k w) (ram s))(p + 4 * of_nat k \<mapsto> w ! k)"
    using k store_words_snoc [of p "take k w" "w ! k" "ram s"] by (simp add: take_Suc_conv_app_nth)
  ultimately show ?thesis using k l(2-) h
    by (simp add: sdio_data_read_def wp_simps wp_mem_wr received_def ram_iolog_swap l(1) grows_def)
qed

lemma wp_read_burst:
  assumes m: "mapped (ram s) p (length w)" and sup: "supplies h fin d c s p w"
    and r: "received d c s p w k t" and k: "k + 8 \<le> length w"
  shows "wp (read_burst h (p + 4 * of_nat k)) (\<lambda>_ u. received d c s p w (k + 8) u \<and> grows t u) t"
proof -
  let ?f = "\<lambda>count _. bindM (sdio_data_read h) (mem_wr (p + 4 * of_nat k + 4 * of_nat count))"
  have "wp (foldM ?f [0..<n] ()) (\<lambda>_ u. received d c s p w (k + n) u \<and> grows t u) t" if "n \<le> 8" for n
    using that
  proof (induction n)
    case (Suc n)
    have "wp (foldM ?f [n] ()) (\<lambda>_ v. received d c s p w (k + Suc n) v \<and> grows t v) u"
      if u: "received d c s p w (k + n) u" "grows t u" for u
    proof -
      have "h (iolog u) SDIO_FIFO = w ! (k + n)" using sup u(1) Suc.prems k by (auto simp: supplies_def)
      then have "wp (?f n ()) (\<lambda>_ v. received d c s p w (Suc (k + n)) v \<and> grows u v) u"
        using received_word [OF u(1) m, of h] Suc.prems k by (simp add: algebra_simps)
      then show ?thesis unfolding wp_foldM
        by (rule wp_mono) (auto intro: gr.frame_trans [OF u(2)])
    qed
    with Suc show ?case
      by (simp add: foldM_append wp_bindM) (rule wp_mono, assumption, blast)
  qed (use r gr.frame_refl in \<open>simp add: wp_simps\<close>)
  then show ?thesis unfolding read_burst_def by simp
qed

lemma rx_done_iff:
  assumes "\<And>v. v AND F \<noteq> 0 \<longleftrightarrow> bit v fin" "no_data_error v"
  shows "v AND rx_done F \<noteq> 0 \<longleftrightarrow> bit v fin"
  using assms unfolding rx_done_def bit.conj_disj_distrib or_eq_0_iff flag_tests no_data_error_def by blast

lemma wp_poll_receive:
  assumes F: "\<And>v. v AND F \<noteq> 0 \<longleftrightarrow> bit v fin"
    and m: "mapped (ram s) p (length w)" and sup: "supplies h fin d c s p w" and r: "received d c s p w 0 s"
  shows "wp (poll_receive h F p) (\<lambda>q t. \<exists>k. q = p + 4 * of_nat k \<and> received d c s p w k t \<and> bit (h (iolog t) SDIO_STAT) fin) s"
proof -
  have dp: "data_phase h c (length w) 15 fin" using sup by (simp add: supplies_def)
  obtain g :: "io_log \<Rightarrow> nat" where g: "\<And>e l. g (e # l) \<le> g l"
    "\<And>l v. cmd_is c l \<Longrightarrow> \<not> bit (h l SDIO_STAT) fin \<Longrightarrow> (bit (h l SDIO_STAT) 15 \<Longrightarrow> length w \<le> fifo_pos l) \<Longrightarrow> g (Rd SDIO_STAT v # l) < g l"
    using dp unfolding data_phase_def by metis
  have nde: "no_data_error (h l SDIO_STAT)" and sticky: "bit (h l SDIO_STAT) fin \<Longrightarrow> bit (h (Rd a v # l) SDIO_STAT) fin"
    if "cmd_is c l" for a v l using dp that unfolding data_phase_def by blast+
  let ?R = "received d c s p w"
  let ?I = "\<lambda>q t. \<exists>k. q = p + 4 * of_nat k \<and> ?R k t"
  let ?M = "\<lambda>_ t. (length w - fifo_pos (iolog t)) + g (iolog t) + (if bit (h (iolog t) SDIO_STAT) fin then 0 else 1)"
  show ?thesis
    unfolding poll_receive_def
  proof (rule wp_whileM [where I = ?I and M = ?M], goal_cases)
    case 1
    show ?case using r by (auto intro!: exI [of _ 0])
  next
    case (2 q t)
    then obtain k where k: "q = p + 4 * of_nat k" "?R k t" by blast
    define t1 where "t1 = t\<lparr>iolog := Rd SDIO_STAT (h (iolog t) SDIO_STAT) # iolog t\<rparr>"
    define t2 where "t2 = t1\<lparr>iolog := Rd SDIO_STAT (h (iolog t1) SDIO_STAT) # iolog t1\<rparr>"
    have t1: "?R k t1" unfolding t1_def by (rule received_stat [OF k(2)])
    have t2: "?R k t2" unfolding t2_def by (rule received_stat [OF t1])
    note pos = received_cmd(2,3) [OF k(2)] received_cmd(2) [OF t1] received_cmd(2) [OF t2]
    note cmd = received_cmd(1) [OF k(2)] received_cmd(1) [OF t1]
    have gl: "g (iolog t1) \<le> g (iolog t)" "g (iolog t2) \<le> g (iolog t1)" by (simp_all add: t1_def t2_def g(1))
    show ?case
    proof (cases "bit (h (iolog t) SDIO_STAT) fin")
      case True
      then show ?thesis
        using k t1 sticky [OF cmd(1) True] rx_done_iff [OF F nde [OF cmd(1)]]
        by (auto simp: sdio_flag_get_def wp_simps t1_def)
    next
      case nf: False
      show ?thesis
      proof (cases "bit (h (iolog t1) SDIO_STAT) 15")
        case True
        then have k8: "k + 8 \<le> length w" using sup t1 unfolding supplies_def by blast
        have "wp (read_burst h q) (\<lambda>_ u. ?R (k + 8) u \<and> grows t2 u) t2"
          unfolding k(1) by (rule wp_read_burst [OF m sup t2 k8])
        then have "wp (read_burst h q) (\<lambda>_ u. ?I (q + 32) u \<and> ?M (q + 32) u < ?M q t) t2"
        proof (rule wp_mono, elim conjE)
          fix u assume u: "?R (k + 8) u" "grows t2 u"
          have "g (iolog u) \<le> g (iolog t)" using measure_grows [OF g(1) u(2)] gl by simp
          moreover have "fifo_pos (iolog u) = k + 8" by (rule received_cmd(2) [OF u(1)])
          moreover have "?I (q + 32) u" using u(1) k(1) by (intro exI [of _ "k + 8"]) simp
          ultimately show "?I (q + 32) u \<and> ?M (q + 32) u < ?M q t" using nf k8 pos by (auto simp: algebra_simps)
        qed
        with True show ?thesis
          using nf t1 rx_done_iff [OF F nde [OF cmd(1)]]
          by (simp add: sdio_flag_get_def wp_simps flag_tests t1_def t2_def)
      next
        case False
        have "g (iolog t2) < g (iolog t1) \<or> bit (h (iolog t1) SDIO_STAT) fin"
          using g(2) [OF cmd(2)] False by (auto simp: t2_def)
        then have "?M q t2 < ?M q t"
          using nf gl pos sticky [OF cmd(2)] by (auto simp: t2_def)
        then show ?thesis
          using False nf k(1) t2 rx_done_iff [OF F nde [OF cmd(1)]]
          by (auto simp: sdio_flag_get_def wp_simps flag_tests t1_def t2_def)
      qed
    qed
  qed
qed

lemma wp_first_flag_none:
  assumes "\<And>fe v. fe \<in> set fs \<Longrightarrow> no_data_error v \<Longrightarrow> v AND fst fe = 0" and "P t"
    and step: "\<And>t. P t \<Longrightarrow> no_data_error (h (iolog t) SDIO_STAT) \<and> P (t\<lparr>iolog := Rd SDIO_STAT (h (iolog t) SDIO_STAT) # iolog t\<rparr>)"
  shows "wp (first_flag h fs) (\<lambda>st u. st = SD_OK \<and> P u) t"
  using assms(1,2)
proof (induction fs arbitrary: t)
  case (Cons fe fs)
  have "no_data_error (h (iolog t) SDIO_STAT)" "P (t\<lparr>iolog := Rd SDIO_STAT (h (iolog t) SDIO_STAT) # iolog t\<rparr>)"
    using step [OF Cons.prems(2)] by auto
  with Cons.IH Cons.prems show ?case by (simp add: wp_simps sdio_flag_get_def)
qed (simp add: wp_simps)

lemma data_errors_clear:
  assumes "no_data_error v"
  shows "fe \<in> set rx_errors \<Longrightarrow> v AND fst fe = 0" "fe \<in> set tx_errors \<Longrightarrow> v AND fst fe = 0"
  using assms by (auto simp: rx_errors_def tx_errors_def flag_tests no_data_error_def)

lemma wp_drain_fifo:
  assumes m: "mapped (ram s) p (length w)" and sup: "supplies h fin d c s p w"
    and r: "received d c s p w k t" and fin: "bit (h (iolog t) SDIO_STAT) fin"
  shows "wp (drain_fifo h (p + 4 * of_nat k)) (\<lambda>q. received d c s p w (length w)) t"
proof -
  have sticky: "bit (h (Rd a v # l) SDIO_STAT) fin" if "cmd_is c l" "bit (h l SDIO_STAT) fin" for a v l
    using sup that unfolding supplies_def data_phase_def by blast
  let ?I = "\<lambda>q u. \<exists>k. q = p + 4 * of_nat k \<and> received d c s p w k u \<and> bit (h (iolog u) SDIO_STAT) fin"
  show ?thesis
    unfolding drain_fifo_def
  proof (rule wp_whileM [where I = ?I and M = "\<lambda>_ u. length w - fifo_pos (iolog u)"], goal_cases)
    case 1
    show ?case using r fin by blast
  next
    case (2 q u)
    then obtain k where k: "q = p + 4 * of_nat k" "received d c s p w k u" "bit (h (iolog u) SDIO_STAT) fin" by blast
    define u1 where "u1 = u\<lparr>iolog := Rd SDIO_STAT (h (iolog u) SDIO_STAT) # iolog u\<rparr>"
    have u1: "received d c s p w k u1" unfolding u1_def by (rule received_stat [OF k(2)])
    have b1: "bit (h (iolog u1) SDIO_STAT) fin"
      unfolding u1_def using sticky [OF received_cmd(1) [OF k(2)] k(3)] by simp
    have val: "bit (h (iolog u) SDIO_STAT) 21 \<longleftrightarrow> k < length w" using sup k unfolding supplies_def by blast
    show ?case
    proof (cases "k < length w")
      case True
      let ?u2 = "u1\<lparr>iolog := Rd SDIO_FIFO (h (iolog u1) SDIO_FIFO) # iolog u1\<rparr>"
      have "h (iolog u1) SDIO_FIFO = w ! k" using sup u1 True unfolding supplies_def by blast
      note wd = received_word [where h = h, OF u1 m True this]
      have b2: "bit (h (iolog ?u2) SDIO_STAT) fin" using sticky [OF received_cmd(1) [OF u1] b1] by simp
      have "wp (bindM (sdio_data_read h) (\<lambda>v. thenM (mem_wr q v) (ret (q + 4)))) (\<lambda>q' u'. ?I q' u' \<and>
          length w - fifo_pos (iolog u') < length w - fifo_pos (iolog u)) u1"
        using wd b2 True received_cmd(2) [OF k(2)] received_cmd(2) [OF u1] received_cmd(2) [of d c s p w "Suc k"]
        by (auto simp: sdio_data_read_def wp_simps wp_mem_wr k(1) algebra_simps intro!: exI [of _ "Suc k"])
      then show ?thesis using True val by (simp add: sdio_flag_get_def wp_simps flag_tests u1_def)
    next
      case False
      then show ?thesis using k u1 val received_cmd(3) [OF k(2)] by (auto simp: sdio_flag_get_def wp_simps flag_tests u1_def)
    qed
  qed
qed

text \<open>Both loops with the check between them: all words arrive, whatever the interleaving of the flags.\<close>

lemma wp_receive:
  assumes F: "\<And>v. v AND F \<noteq> 0 \<longleftrightarrow> bit v fin"
    and m: "mapped (ram s) p (length w)" and sup: "supplies h fin d c s p w" and r: "received d c s p w 0 s"
    and Q: "\<And>q t. received d c s p w (length w) t \<Longrightarrow> wp (K q) Q t"
  shows "wp (bindM (poll_receive h F p) (\<lambda>q. check_ok (first_flag h rx_errors) (bindM (drain_fifo h q) K))) Q s"
proof -
  have nde: "no_data_error (h l SDIO_STAT)" and sticky: "bit (h l SDIO_STAT) fin \<Longrightarrow> bit (h (Rd a v # l) SDIO_STAT) fin"
    if "cmd_is c l" for a v l using sup that unfolding supplies_def data_phase_def by blast+
  have "wp (first_flag h rx_errors) (\<lambda>st u. st = SD_OK \<and> received d c s p w k u \<and> bit (h (iolog u) SDIO_STAT) fin) t"
    if "received d c s p w k t" "bit (h (iolog t) SDIO_STAT) fin" for k t
    by (rule wp_first_flag_none)
      (use that nde sticky received_cmd(1) [of d c s p w k] in \<open>auto intro: received_stat data_errors_clear\<close>)
  note flag = this
  have drain: "wp (drain_fifo h q) (\<lambda>q. wp (K q) Q) u"
    if "q = p + 4 * of_nat k" "received d c s p w k u" "bit (h (iolog u) SDIO_STAT) fin" for q k u
    unfolding that(1) by (rule wp_mono [OF wp_drain_fifo [OF m sup that(2,3)]]) (rule Q)
  show ?thesis
    unfolding wp_bindM wp_check_ok
    by (rule wp_mono [OF wp_poll_receive [OF F m sup r]], elim exE conjE, rule wp_mono [OF flag], assumption, assumption)
      (simp add: drain)
qed

section \<open>The commands before and after the data\<close>

definition after :: "blocks \<Rightarrow> 'z bus_scheme \<Rightarrow> (u8 \<times> u32) list \<Rightarrow> 'z bus_scheme \<Rightarrow> bool" where
  "after d s cs t \<longleftrightarrow> trace s cs t \<and> same_disk d s t"

lemma after_refl: "after d s [] s"
  by (simp add: after_def trace_refl dk.frame_refl)

lemma wp_quiet:
  assumes "after d s cs t" "io_only m" "returns m" "keeps same_cmds m" "keeps (same_disk d) m"
    "\<And>x u. after d s cs u \<Longrightarrow> Q x u"
  shows "wp m Q t"
proof (rule returns_wp [OF assms(3)])
  have "wlp m (\<lambda>_. trace s cs) t" using assms(1) by (auto simp: after_def intro: trace_silent [OF _ assms(2,4)])
  from wlp_conj [OF this dk.keepsD [OF assms(5), of s]] assms(1) show "wlp m Q t"
    by (auto simp: after_def elim!: wlp_mono intro: assms(6) [unfolded after_def])
qed

lemma trace_trans: "trace s cs t \<Longrightarrow> trace t ds u \<Longrightarrow> trace s (cs @ ds) u"
  by (auto simp: trace_def intro: log_ext_trans)

lemma wp_accepted:
  assumes h: "accepts h" and t: "after d s cs t" and c: "c < 64"
    and Q: "\<And>u. after d s (cs @ [(c, a)]) u \<Longrightarrow> cmd_is c (iolog u) \<Longrightarrow> cmd_arg (iolog u) = a \<Longrightarrow> fifo_pos (iolog u) = 0 \<Longrightarrow> Q SD_OK u"
  shows "wp (cmd_r1 h c a) Q t"
proof (rule wp_cmd_r1_accepted [OF h c, where d = d])
  fix u assume u: "trace t [(c, a)] u" "cmd_is c (iolog u)" "cmd_arg (iolog u) = a" "fifo_pos (iolog u) = 0"
    "disk d (iolog u) = disk d (iolog t)"
  have "after d s (cs @ [(c, a)]) u"
    using t u(1,5) by (auto simp: after_def same_disk_def intro: trace_trans)
  then show "Q SD_OK u" by (rule Q) (rule u)+
qed

lemma wp_unlocked:
  assumes h: "accepts h" and t: "after d s cs t" and Q: "\<And>u. after d s cs u \<Longrightarrow> Q False u"
  shows "wp (card_locked h) Q t"
proof -
  have a: "wp (card_locked h) (\<lambda>x _. x = False) t"
    by (simp add: card_locked_def sdio_response_get_def wp_simps accepts_response [OF h])
  have b: "wp (card_locked h) (\<lambda>_. after d s cs) t"
    by (rule wp_quiet [OF t]) (auto intro!: io_intros silent_intros disk_intros total_intros simp: card_locked_def sdio_response_get_def)
  show ?thesis by (rule wp_mono [OF wp_conj [OF a wp_wlp [OF b]]]) (auto intro: Q)
qed

definition reset_state :: "'z sdcard_scheme \<Rightarrow> 'z sdcard_scheme" where
  "reset_state s = s\<lparr>transerror := SD_OK, transend := 0, totalnumber_bytes := 0\<rparr>"

lemma returns_dsm_clear [total_intros]: "returns (dsm_clear h)"
  unfolding dsm_clear_def sdio_defs by (intro total_intros)

lemma quiet_dsm_clear: "io_only (dsm_clear h)" "keeps same_cmds (dsm_clear h)"
  unfolding dsm_clear_def by (intro io_intros, intro silent_intros)

lemma wp_transfer_setup:
  assumes h: "accepts h" and p: "p \<noteq> 0" and hc: "cardtype s = SDIO_HIGH_CAPACITY_SD_CARD"
    and Q: "\<And>t bs. after d (reset_state s) [(SD_CMD_SET_BLOCKLEN, 512)] t \<Longrightarrow> wp (k (addr div 512) 512 bs) Q t"
  shows "wp (transfer_setup h p addr blocksize k) Q s"
proof -
  have reset: "wp (transfer_reset h) (\<lambda>_. after d (reset_state s) []) s"
    unfolding transfer_reset_def wp_thenM wp_modM reset_state_def
    by (rule wp_quiet [OF after_refl]) (intro quiet_dsm_clear total_intros disk_intros; assumption)+
  have len: "wp (set_blocklen h 512 (k (addr div 512) 512)) Q t" if t: "after d (reset_state s) [] t" for t
  proof -
    have c: "wp (check_ok (cmd_r1 h SD_CMD_SET_BLOCKLEN 512) (k (addr div 512) 512 bs)) Q t" for bs
      unfolding wp_check_ok by (rule wp_accepted [OF h t]) (simp_all add: Q)
    show ?thesis
      unfolding set_blocklen_def
      by (simp add: Let_def wp_bindM) (rule wp_mono [OF sd_datablocksize_run [of 512 t]], auto simp: c)
  qed
  have ct: "cardtype t = SDIO_HIGH_CAPACITY_SD_CARD" if "after d (reset_state s) [] t" for t
    using that hc by (auto simp: after_def trace_def log_ext_def reset_state_def)
  show ?thesis
    unfolding transfer_setup_def using p
    apply (simp add: wp_simps)
    apply (rule wp_mono [OF reset])
    apply (rule wp_unlocked [OF h], assumption)
    apply (simp add: wp_simps Let_def ct len)
    done
qed

definition start_state :: "u32 \<Rightarrow> u32 \<Rightarrow> 'z sdcard_scheme \<Rightarrow> 'z sdcard_scheme" where
  "start_state stop n s = s\<lparr>stopcondition := stop, totalnumber_bytes := n\<rparr>"

lemma after_start: "after d s cs t \<Longrightarrow> after d (start_state stop n s) cs (start_state stop n t)"
proof -
  have "log_ext s t \<Longrightarrow> log_ext (start_state stop n s) (start_state stop n t)"
    by (cases s) (auto simp: log_ext_def start_state_def)
  then show "after d s cs t \<Longrightarrow> after d (start_state stop n s) cs (start_state stop n t)"
    by (simp add: after_def trace_def same_disk_def) (simp add: start_state_def)
qed

lemma wp_data_start:
  assumes t: "after d s cs t" and Q: "\<And>u. after d (start_state stop n s) cs u \<Longrightarrow> Q () u"
  shows "wp (data_start h stop n bs dir) Q t"
proof -
  let ?m = "seqM [sdio_data_config h SD_DATATIMEOUT n bs, sdio_data_transfer_config h 0 dir, sdio_dsm_enable h]"
  have m: "io_only ?m" "keeps same_cmds ?m" "keeps (same_disk d) ?m"
    by (intro io_intros, intro silent_intros, intro disk_intros)
  have "returns ?m" unfolding sdio_defs by (intro total_intros)
  from wp_quiet [OF after_start [OF t] m(1) this m(2,3), where Q = Q] Q show ?thesis
    unfolding data_start_def wp_seqM(2) [of "modM _"] wp_modM start_state_def by simp
qed

section \<open>Reading a block\<close>

text \<open>The block with number \<open>b\<close>.\<close>

definition block :: "blocks \<Rightarrow> u32 \<Rightarrow> u32 list" where
  "block m b = map (\<lambda>k. m (b, k)) [0..<128]"

lemma block_card_accepts: "block_card h d \<Longrightarrow> accepts h"
  by (simp add: block_card_def)

lemma block_card_supplies:
  assumes "block_card h d" and a: "cmd_arg (iolog s) = b"
  shows "supplies h 10 d SD_CMD_READ_SINGLE_BLOCK s p (block (disk d (iolog s)) b)"
proof -
  have "h l SDIO_FIFO = disk d l (cmd_arg l, fifo_pos l)" "bit (h l SDIO_STAT) 15 \<Longrightarrow> fifo_pos l + 8 \<le> 128"
    "bit (h l SDIO_STAT) 10 \<Longrightarrow> bit (h l SDIO_STAT) 21 \<longleftrightarrow> fifo_pos l < 128"
    if "cmd_is SD_CMD_READ_SINGLE_BLOCK l" for l using assms(1) that unfolding block_card_def by blast+
  then show ?thesis
    using assms unfolding supplies_def received_def by (auto simp: block_def block_card_def)
qed

lemma wp_block_read:
  assumes h: "block_card h d" and s: "cardtype s = SDIO_HIGH_CAPACITY_SD_CARD" "transmode s = SD_POLLING_MODE"
    and p: "p \<noteq> 0" "mapped (ram s) p 128"
    and Q: "\<And>t. \<exists>l. t = (start_state 0 512 (reset_state s))\<lparr>ram := store_words p (block (disk d (iolog s)) (addr div 512)) (ram s), iolog := l\<rparr> \<Longrightarrow>
        issued (iolog t) = issued (iolog s) @ [(SD_CMD_SET_BLOCKLEN, 512), (SD_CMD_READ_SINGLE_BLOCK, addr div 512)] \<Longrightarrow>
        disk d (iolog t) = disk d (iolog s) \<Longrightarrow> Q SD_OK t"
  shows "wp (sd_block_read h irq p addr blocksize) Q s"
proof -
  let ?s0 = "start_state 0 512 (reset_state s)"
  let ?w = "block (disk d (iolog s)) (addr div 512)"
  have data: "wp (block_read_data h irq p 512) Q u"
    if u: "after d ?s0 [(SD_CMD_SET_BLOCKLEN, 512), (SD_CMD_READ_SINGLE_BLOCK, addr div 512)] u"
      "cmd_is SD_CMD_READ_SINGLE_BLOCK (iolog u)" "cmd_arg (iolog u) = addr div 512" "fifo_pos (iolog u) = 0" for u
  proof -
    obtain l where l: "u = ?s0\<lparr>iolog := l\<rparr>" and i: "issued l = issued (iolog s) @ [(SD_CMD_SET_BLOCKLEN, 512), (SD_CMD_READ_SINGLE_BLOCK, addr div 512)]"
      "disk d l = disk d (iolog s)"
      using u(1) by (auto simp: after_def trace_def same_disk_def log_ext_def start_state_def reset_state_def)
    have ram: "ram u = ram s" "transmode u = SD_POLLING_MODE" using l s by (simp_all add: start_state_def reset_state_def)
    have w: "length ?w = 128" by (simp add: block_def)
    have sup: "supplies h 10 d SD_CMD_READ_SINGLE_BLOCK u p ?w"
      using block_card_supplies [OF h u(3)] i(2) l by simp
    have rec: "received d SD_CMD_READ_SINGLE_BLOCK u p ?w 0 u" using u by (auto simp: received_def intro!: exI [of _ "iolog u"])
    have fin: "v AND SDIO_FLAG_DTBLKEND \<noteq> 0 \<longleftrightarrow> bit v 10" for v by (simp add: flag_tests)
    have "wp (bindM (poll_receive h SDIO_FLAG_DTBLKEND p) (\<lambda>q. check_ok (first_flag h rx_errors) (bindM (drain_fifo h q)
        (\<lambda>_. thenM (sdio_flag_clear SDIO_MASK_INTC_FLAGS) (ret SD_OK))))) Q u"
    proof (rule wp_receive [OF fin _ sup rec])
      fix q t assume "received d SD_CMD_READ_SINGLE_BLOCK u p ?w (length ?w) t"
      then show "wp (thenM (sdio_flag_clear SDIO_MASK_INTC_FLAGS) (ret SD_OK)) Q t"
        unfolding sdio_flag_clear_def wp_simps by (intro Q) (use l i ram w in \<open>auto simp: received_def\<close>)
    qed (use p ram w in simp)
    then show ?thesis using ram by (simp add: block_read_data_def wp_simps)
  qed
  show ?thesis
    unfolding sd_block_read_def
    apply (rule wp_transfer_setup [OF block_card_accepts [OF h] p(1) s(1), where d = d])
    apply (simp only: wp_thenM wp_check_ok)
    apply (rule wp_data_start, assumption)
    apply (rule wp_accepted [OF block_card_accepts [OF h]], assumption, simp)
    apply (simp add: data)
    done
qed

section \<open>Sending\<close>

text \<open>The contents of the card with the first \<open>k\<close> words of block \<open>b\<close> replaced.\<close>

definition put_words :: "blocks \<Rightarrow> u32 \<Rightarrow> u32 list \<Rightarrow> nat \<Rightarrow> blocks" where
  "put_words m b w k = (\<lambda>(a, i). if a = b \<and> i < k then w ! i else m (a, i))"

lemma put_words_simps: "put_words m b w 0 = m" "(put_words m b w k)((b, k) := w ! k) = put_words m b w (Suc k)"
  by (auto simp: put_words_def less_Suc_eq)

definition sent :: "blocks \<Rightarrow> 'z sdcard_scheme \<Rightarrow> u32 list \<Rightarrow> nat \<Rightarrow> 'z sdcard_scheme \<Rightarrow> bool" where
  "sent d s w k t \<longleftrightarrow> k \<le> length w \<and> (\<exists>l. t = s\<lparr>iolog := l\<rparr> \<and> cmd_is SD_CMD_WRITE_BLOCK l \<and>
     cmd_arg l = cmd_arg (iolog s) \<and> fifo_pos l = k \<and> issued l = issued (iolog s) \<and>
     disk d l = put_words (disk d (iolog s)) (cmd_arg (iolog s)) w k)"

lemma sent_stat: "sent d s w k t \<Longrightarrow> sent d s w k (t\<lparr>iolog := Rd SDIO_STAT v # iolog t\<rparr>)"
  by (auto simp: sent_def)

lemma sent_cmd: "sent d s w k t \<Longrightarrow> cmd_is SD_CMD_WRITE_BLOCK (iolog t)" "sent d s w k t \<Longrightarrow> fifo_pos (iolog t) = k"
  "sent d s w k t \<Longrightarrow> k \<le> length w" "sent d s w k t \<Longrightarrow> ram t = ram s"
  "sent d s w k t \<Longrightarrow> totalnumber_bytes t = totalnumber_bytes s"
  by (auto simp: sent_def)

lemma wp_mem_rd: "wp (mem_rd p) Q s \<longleftrightarrow> (\<exists>v. ram s p = Some v \<and> Q v s)"
  by (auto simp: wp_def mem_rd_def split: option.splits)

lemma sent_word:
  assumes t: "sent d s w k t" and k: "k < length w" and m: "ram s q = Some (w ! k)" and r: "fifo_room (iolog t) \<noteq> 0"
  shows "wp (bindM (mem_rd q) sdio_data_write) (\<lambda>_ u. sent d s w (Suc k) u \<and> grows t u \<and>
      fifo_room (iolog u) = fifo_room (iolog t) - 1) t"
  using t k m r by (auto simp: sent_def wp_simps wp_mem_rd sdio_data_write_def put_words_simps grows_def)

lemma wp_send_burst:
  assumes m: "\<And>i. i < length w \<Longrightarrow> ram s (p + 4 * of_nat i) = Some (w ! i)"
    and t: "sent d s w k t" and k: "k + 8 \<le> length w" and r: "8 \<le> fifo_room (iolog t)"
  shows "wp (send_burst (p + 4 * of_nat k)) (\<lambda>_ u. sent d s w (k + 8) u \<and> grows t u) t"
proof -
  let ?f = "\<lambda>count _. bindM (mem_rd (p + 4 * of_nat k + 4 * of_nat count)) sdio_data_write"
  have "wp (foldM ?f [0..<n] ()) (\<lambda>_ u. sent d s w (k + n) u \<and> grows t u \<and> 8 \<le> fifo_room (iolog u) + n) t" if "n \<le> 8" for n
    using that
  proof (induction n)
    case (Suc n)
    have "wp (foldM ?f [n] ()) (\<lambda>_ v. sent d s w (k + Suc n) v \<and> grows t v \<and> 8 \<le> fifo_room (iolog v) + Suc n) u"
      if u: "sent d s w (k + n) u" "grows t u" "8 \<le> fifo_room (iolog u) + n" for u
    proof -
      have "ram s (p + 4 * of_nat k + 4 * of_nat n) = Some (w ! (k + n))"
        using m [of "k + n"] Suc.prems k by (simp add: algebra_simps)
      from sent_word [OF u(1) _ this] have "wp (?f n ()) (\<lambda>_ v. sent d s w (Suc (k + n)) v \<and> grows u v \<and>
          fifo_room (iolog v) = fifo_room (iolog u) - 1) u"
        using Suc.prems k u(3) by simp
      then show ?thesis unfolding wp_foldM
        by (rule wp_mono) (use u(3) Suc.prems in \<open>auto intro: gr.frame_trans [OF u(2)]\<close>)
    qed
    with Suc show ?case
      by (simp add: foldM_append wp_bindM) (rule wp_mono, assumption, blast)
  qed (use t r gr.frame_refl in \<open>simp add: wp_simps\<close>)
  from this [of 8] show ?thesis unfolding send_burst_def by (auto elim: wp_mono)
qed

lemma tx_done_iff:
  assumes "\<And>v. v AND F \<noteq> 0 \<longleftrightarrow> bit v fin" "no_data_error v"
  shows "v AND tx_done F \<noteq> 0 \<longleftrightarrow> bit v fin"
  using assms unfolding tx_done_def bit.conj_disj_distrib or_eq_0_iff flag_tests no_data_error_def by blast

lemma wp_send_turn:
  assumes m: "\<And>i. i < length w \<Longrightarrow> ram s (p + 4 * of_nat i) = Some (w ! i)" and w: "length w = 128"
    and t: "sent d s w k t" and k: "8 dvd k" and r: "8 \<le> fifo_room (iolog t)"
  shows "wp (send_turn 512 (p + 4 * of_nat k) (4 * of_nat k))
      (\<lambda>(q, b) u. \<exists>k'. 8 dvd k' \<and> q = p + 4 * of_nat k' \<and> b = 4 * of_nat k' \<and> sent d s w k' u \<and> grows t u \<and> (if k < 128 then k < k' else k' = k \<and> u = t)) t"
proof -
  have k128: "k \<le> 128" using sent_cmd(3) [OF t] w by simp
  have u: "unat (512 - 4 * of_nat k :: u32) = 512 - 4 * k"
    using k128 by (simp add: unat_sub word_le_nat_alt unat_word_ariths unsigned_of_nat take_bit_nat_eq_self)
  show ?thesis
  proof (cases "k = 128")
    case True
    have nil: "Q (q, b) t \<Longrightarrow> wp (send_words 0 q b) Q t" for Q and q b :: u32
      unfolding send_words_def wp_bindM by (subst wp_whileM_unfold) (simp add: wp_simps)
    show ?thesis using True t gr.frame_refl
      by (simp add: send_turn_def) (rule nil, auto intro!: exI [of _ 128])
  next
    case False
    with k k128 have k8: "k + 8 \<le> 128" by (auto simp: dvd_def)
    then have "\<not> (512 - 4 * of_nat k :: u32) < 32" by (simp add: word_less_nat_alt u)
    then show ?thesis
      using wp_send_burst [OF m t _ r] k8 k w
      by (auto simp: send_turn_def wp_simps algebra_simps elim!: wp_mono intro!: exI [of _ "k + 8"])
  qed
qed

lemma wp_poll_send:
  assumes h: "block_card h d" and m: "\<And>i. i < length w \<Longrightarrow> ram s (p + 4 * of_nat i) = Some (w ! i)"
    and w: "length w = 128" and n: "totalnumber_bytes s = 512" and s: "sent d s w 0 s"
  shows "wp (poll_send h SDIO_FLAG_DTBLKEND p) (\<lambda>_ t. sent d s w 128 t \<and> bit (h (iolog t) SDIO_STAT) 10) s"
proof -
  have dp: "data_phase h SD_CMD_WRITE_BLOCK 128 14 10"
    and ended: "\<And>l. cmd_is SD_CMD_WRITE_BLOCK l \<Longrightarrow> bit (h l SDIO_STAT) 10 \<Longrightarrow> 128 \<le> fifo_pos l"
    using h by (simp_all add: block_card_def)
  obtain g :: "io_log \<Rightarrow> nat" where g: "\<And>e l. g (e # l) \<le> g l"
    "\<And>l v. cmd_is SD_CMD_WRITE_BLOCK l \<Longrightarrow> \<not> bit (h l SDIO_STAT) 10 \<Longrightarrow> (bit (h l SDIO_STAT) 14 \<Longrightarrow> 128 \<le> fifo_pos l) \<Longrightarrow> g (Rd SDIO_STAT v # l) < g l"
    using dp unfolding data_phase_def by metis
  have nde: "no_data_error (h l SDIO_STAT)" and sticky: "bit (h l SDIO_STAT) 10 \<Longrightarrow> bit (h (Rd a v # l) SDIO_STAT) 10"
    if "cmd_is SD_CMD_WRITE_BLOCK l" for a v l using dp that unfolding data_phase_def by blast+
  have fin: "v AND SDIO_FLAG_DTBLKEND \<noteq> 0 \<longleftrightarrow> bit v 10" for v by (simp add: flag_tests)
  let ?I = "\<lambda>(q, b) t. \<exists>k. 8 dvd k \<and> q = p + 4 * of_nat k \<and> b = 4 * of_nat k \<and> sent d s w k t"
  let ?M = "\<lambda>_ t. (128 - fifo_pos (iolog t)) + g (iolog t) + (if bit (h (iolog t) SDIO_STAT) 10 then 0 else 1)"
  show ?thesis
    unfolding poll_send_def wp_bindM
  proof (rule wp_whileM [where I = ?I and M = ?M], goal_cases)
    case 1
    show ?case using s by (auto intro!: exI [of _ 0])
  next
    case (2 v t)
    then obtain k where k: "8 dvd k" "v = (p + 4 * of_nat k, 4 * of_nat k)" "sent d s w k t" by (auto split: prod.splits)
    define t1 where "t1 = t\<lparr>iolog := Rd SDIO_STAT (h (iolog t) SDIO_STAT) # iolog t\<rparr>"
    define t2 where "t2 = t1\<lparr>iolog := Rd SDIO_STAT (h (iolog t1) SDIO_STAT) # iolog t1\<rparr>"
    have t1: "sent d s w k t1" unfolding t1_def by (rule sent_stat [OF k(3)])
    have t2: "sent d s w k t2" unfolding t2_def by (rule sent_stat [OF t1])
    note pos = sent_cmd(2,3) [OF k(3)] sent_cmd(2) [OF t1] sent_cmd(2,5) [OF t2]
    note cmd = sent_cmd(1) [OF k(3)] sent_cmd(1) [OF t1]
    have gl: "g (iolog t1) \<le> g (iolog t)" "g (iolog t2) \<le> g (iolog t1)" by (simp_all add: t1_def t2_def g(1))
    note dn = tx_done_iff [OF fin nde [OF cmd(1)]]
    show ?case
    proof (cases "bit (h (iolog t) SDIO_STAT) 10")
      case True
      then show ?thesis using k t1 sticky [OF cmd(1) True] ended [OF cmd(1) True] dn pos(1,2) w
        by (auto simp: sdio_flag_get_def wp_simps t1_def)
    next
      case nf: False
      have turn: "g (iolog t2) < g (iolog t1) \<or> bit (h (iolog t1) SDIO_STAT) 10 \<or> bit (h (iolog t1) SDIO_STAT) 14 \<and> k < 128"
        using g(2) [OF cmd(2)] pos by (cases "k < 128") (auto simp: t2_def)
      show ?thesis
      proof (cases "bit (h (iolog t1) SDIO_STAT) 14")
        case True
        have "wp (send_turn 512 (p + 4 * of_nat k) (4 * of_nat k)) (\<lambda>v u. ?I v u \<and> ?M v u < ?M v t) t2"
        proof (rule wp_mono [OF wp_send_turn [OF m w t2 k(1)]], assumption)
          show "8 \<le> fifo_room (iolog t2)" using True by (simp add: t2_def)
        next
          fix v :: "u32 \<times> u32" and u
          assume "(\<lambda>(q, b) u. \<exists>k'. 8 dvd k' \<and> q = p + 4 * of_nat k' \<and> b = 4 * of_nat k' \<and> sent d s w k' u \<and>
            grows t2 u \<and> (if k < 128 then k < k' else k' = k \<and> u = t2)) v u"
          then obtain k' where k': "?I v u" "sent d s w k' u" "grows t2 u" "if k < 128 then k < k' else k' = k \<and> u = t2"
            by (auto split: prod.splits)
          have gu: "g (iolog u) \<le> g (iolog t2)" by (rule measure_grows [OF g(1) k'(3)])
          have le: "k' \<le> 128" "fifo_pos (iolog u) = k'" using sent_cmd(2,3) [OF k'(2)] w by auto
          have "?M v u < ?M v t"
          proof (cases "k < 128")
            case True
            then show ?thesis using k'(4) gu gl le pos nf by (auto simp: algebra_simps)
          next
            case False
            then show ?thesis using k'(4) turn gl pos nf sticky [OF cmd(2)] by (auto simp: t2_def)
          qed
          with k'(1) show "?I v u \<and> ?M v u < ?M v t" by simp
        qed
        with True show ?thesis
          using nf t1 dn n pos by (simp add: sdio_flag_get_def wp_simps flag_tests t1_def t2_def k(2))
      next
        case False
        then have "?M v t2 < ?M v t" using turn nf gl pos sticky [OF cmd(2)] by (auto simp: t2_def)
        then show ?thesis using False nf k t2 dn
          by (auto simp: sdio_flag_get_def wp_simps flag_tests t1_def t2_def)
      qed
    qed
  qed
qed

section \<open>Writing a block\<close>

lemma wp_send_status:
  assumes h: "accepts h" and t: "after d s cs (t :: 'z sdcard_scheme)"
    and Q: "\<And>u. after d s (cs @ [(SD_CMD_SEND_STATUS, rca_arg (sd_rca s))]) u \<Longrightarrow> Q SD_OK u"
  shows "wp (send_status h) Q t"
proof -
  have "sd_rca t = sd_rca s" using t by (auto simp: after_def trace_def log_ext_def)
  then show ?thesis
    unfolding send_status_def wp_bindM wp_getM by simp (rule wp_accepted [OF h t], simp, rule Q)
qed

lemma wp_wait_ready:
  assumes h: "accepts h" and t: "after d s cs (t :: 'z sdcard_scheme)"
    and Q: "\<And>u. after d s (cs @ [(SD_CMD_SEND_STATUS, rca_arg (sd_rca s))]) u \<Longrightarrow> Q SD_OK u"
  shows "wp (wait_ready h) Q t"
proof -
  have r: "after d s cs' (u\<lparr>iolog := Rd SDIO_RESP0 v # iolog u\<rparr>)" if "after d s cs' u" for cs' v and u :: "'z sdcard_scheme"
    using that by (auto simp: after_def trace_def same_disk_def intro: log_ext_trans log_ext_Cons)
  show ?thesis
    unfolding wait_ready_def wp_check_ok
    apply (rule wp_send_status [OF h t])
    apply (simp add: wp_bindM sdio_response_get_def wp_rd32)
    apply (subst wp_whileM_unfold)
    apply (simp add: wp_simps accepts_response [OF h] Q r)
    done
qed

lemma wp_wait_programmed:
  assumes h: "accepts h" and t: "after d s cs (t :: 'z sdcard_scheme)"
    and Q: "\<And>u. after d s (cs @ [(SD_CMD_SEND_STATUS, rca_arg (sd_rca s))]) u \<Longrightarrow> Q SD_OK u"
  shows "wp (wait_programmed h) Q t"
proof -
  have st: "storage_reg h SDIO_CMDCTL 0" and t': "trace s cs t" "same_disk d s t"
    using h t by (simp_all add: accepts_def after_def)
  have "wp (sd_card_state_get h 0) (\<lambda>r _. fst r = SD_OK \<and> snd r \<noteq> 6 \<and> snd r \<noteq> 7) t"
    unfolding sd_card_state_get_def wp_bindM [of "getM sd_rca"] wp_getM wp_thenM
    apply (rule wp_command_is [OF st log_ext_refl _ resp_short], simp)
    apply (simp only: wp_bindM)
    apply (subst wait_response_now, erule accepts_status(5) [OF h])
    apply (simp add: wp_simps sdio_flag_clear_def sdio_response_get_def sdio_command_index_get_def flag_tests ucast_u8
        accepts_status [OF h, of SD_CMD_SEND_STATUS] accepts_response [OF h] Let_def)
    done
  note a = this
  have b: "wlp (sd_card_state_get h 0) (\<lambda>_. trace s (cs @ [(SD_CMD_SEND_STATUS, rca_arg (sd_rca s))])) t"
    by (rule trace_card_state [OF st t'(1)])
  have c: "wlp (sd_card_state_get h 0) (\<lambda>_. same_disk d s) t"
    by (rule dk.keepsD [OF _ t'(2)]) (unfold sd_card_state_get_def, intro disk_intros)
  show ?thesis
    unfolding wait_programmed_def wp_bindM
    apply (rule wp_mono [OF wp_conj [OF wp_conj [OF a b] c]])
    apply (subst wp_whileM_unfold)
    apply (auto simp: wp_ret intro: Q [unfolded after_def])
    done
qed

lemma neq_CMDAGMT [simp]:
  "SDIO_DATATO \<noteq> SDIO_CMDAGMT" "SDIO_DATALEN \<noteq> SDIO_CMDAGMT" "SDIO_DATACTL \<noteq> SDIO_CMDAGMT"
  by (simp_all add: sdio_regs)

lemma wp_data_start_cmd:
  assumes t: "after d s cs t" "cmd_is c (iolog t)" "cmd_arg (iolog t) = a" "fifo_pos (iolog t) = 0"
    and Q: "\<And>u. after d (start_state stop n s) cs u \<Longrightarrow> cmd_is c (iolog u) \<Longrightarrow> cmd_arg (iolog u) = a \<Longrightarrow> fifo_pos (iolog u) = 0 \<Longrightarrow> Q () u"
  shows "wp (data_start h stop n bs dir) Q t"
proof -
  have "wp (data_start h stop n bs dir) (\<lambda>_ u. cmd_is c (iolog u) \<and> cmd_arg (iolog u) = a \<and> fifo_pos (iolog u) = 0) t"
    using t(2-4) by (simp add: data_start_def sdio_defs wp_simps bits_defs)
  moreover have "wp (data_start h stop n bs dir) (\<lambda>_. after d (start_state stop n s) cs) t"
    by (rule wp_data_start [OF t(1)])
  ultimately show ?thesis by (auto simp: wp_def Q)
qed

definition write_commands :: "'z sdcard_scheme \<Rightarrow> u32 \<Rightarrow> (u8 \<times> u32) list" where
  "write_commands s b = [(SD_CMD_SET_BLOCKLEN, 512), (SD_CMD_SEND_STATUS, rca_arg (sd_rca s)), (SD_CMD_WRITE_BLOCK, b),
     (SD_CMD_SEND_STATUS, rca_arg (sd_rca s))]"

lemma load_words_nth: "mapped m p n \<Longrightarrow> i < n \<Longrightarrow> m (p + 4 * of_nat i) = Some (load_words m p n ! i)"
  by (auto simp: mapped_def load_words_def)

lemma wp_block_write:
  assumes h: "block_card h d" and s: "cardtype s = SDIO_HIGH_CAPACITY_SD_CARD" "transmode s = SD_POLLING_MODE"
    and p: "p \<noteq> 0" "mapped (ram s) p 128"
    and Q: "\<And>t. \<exists>l. t = (start_state 0 512 (reset_state s))\<lparr>iolog := l\<rparr> \<Longrightarrow>
        issued (iolog t) = issued (iolog s) @ write_commands s (addr div 512) \<Longrightarrow>
        disk d (iolog t) = put_words (disk d (iolog s)) (addr div 512) (load_words (ram s) p 128) 128 \<Longrightarrow> Q SD_OK t"
  shows "wp (sd_block_write h irq p addr blocksize) Q s"
proof -
  let ?s0 = "start_state 0 512 (reset_state s)"
  let ?w = "load_words (ram s) p 128"
  note acc = block_card_accepts [OF h]
  have w: "length ?w = 128" by (simp add: load_words_def)
  have data: "wp (check_ok (block_write_data h irq p 512) (thenM (sdio_flag_clear SDIO_MASK_INTC_FLAGS) (wait_programmed h))) Q u"
    if u: "after d ?s0 [(SD_CMD_SET_BLOCKLEN, 512), (SD_CMD_SEND_STATUS, rca_arg (sd_rca s)), (SD_CMD_WRITE_BLOCK, addr div 512)] u"
      "cmd_is SD_CMD_WRITE_BLOCK (iolog u)" "cmd_arg (iolog u) = addr div 512" "fifo_pos (iolog u) = 0" for u
  proof -
    obtain l where l: "u = ?s0\<lparr>iolog := l\<rparr>" "disk d l = disk d (iolog s)"
      and i: "issued l = issued (iolog s) @ [(SD_CMD_SET_BLOCKLEN, 512), (SD_CMD_SEND_STATUS, rca_arg (sd_rca s)), (SD_CMD_WRITE_BLOCK, addr div 512)]"
      using u(1) by (auto simp: after_def trace_def same_disk_def log_ext_def start_state_def reset_state_def)
    have e: "ram u = ram s" "transmode u = SD_POLLING_MODE" "totalnumber_bytes u = 512" "sd_rca u = sd_rca s"
      using l s by (simp_all add: start_state_def reset_state_def)
    have snt: "sent d u ?w 0 u" using u by (auto simp: sent_def put_words_simps intro!: exI [of _ "iolog u"])
    have m: "\<And>i. i < length ?w \<Longrightarrow> ram u (p + 4 * of_nat i) = Some (?w ! i)" using load_words_nth [OF p(2)] w e by simp
    have nde: "no_data_error (h l SDIO_STAT)" if "cmd_is SD_CMD_WRITE_BLOCK l" for l
      using h that unfolding block_card_def data_phase_def by blast
    have flags: "wp (first_flag h tx_errors) (\<lambda>st t. st = SD_OK \<and> sent d u ?w 128 t) t" if "sent d u ?w 128 t" for t
      by (rule wp_first_flag_none) (use that in \<open>auto intro: nde sent_cmd(1) sent_stat data_errors_clear\<close>)
    have fin: "wp (wait_programmed h) Q (t\<lparr>iolog := Wr SDIO_INTC SDIO_MASK_INTC_FLAGS # iolog t\<rparr>)" if t: "sent d u ?w 128 t" for t
    proof (rule wp_wait_programmed [OF acc after_refl, where d = d])
      fix v assume "after d (t\<lparr>iolog := Wr SDIO_INTC SDIO_MASK_INTC_FLAGS # iolog t\<rparr>)
        ([] @ [(SD_CMD_SEND_STATUS, rca_arg (sd_rca (t\<lparr>iolog := Wr SDIO_INTC SDIO_MASK_INTC_FLAGS # iolog t\<rparr>)))]) v"
      then show "Q SD_OK v"
        using t l i e u(3)
        by (intro Q) (auto simp: after_def trace_def same_disk_def log_ext_def sent_def write_commands_def)
    qed
    show ?thesis
      unfolding block_write_data_def wp_check_ok wp_bindM wp_getM e(2) wp_thenM
      apply simp
      apply (simp only: wp_thenM)
      apply (rule wp_mono [OF wp_poll_send [OF h m w e(3) snt]], assumption)
      apply (rule wp_mono [OF flags], simp)
      apply (simp add: sdio_flag_clear_def wp_simps fin)
      done
  qed
  have rca: "sd_rca (reset_state s) = sd_rca s" by (simp add: reset_state_def)
  show ?thesis
    unfolding sd_block_write_def
    apply (rule wp_transfer_setup [OF acc p(1) s(1), where d = d])
    apply (simp only: wp_thenM wp_check_ok)
    apply (rule wp_wait_ready [OF acc], assumption)
    apply simp
    apply (rule wp_accepted [OF acc], assumption, simp)
    apply simp
    apply (rule wp_data_start_cmd, assumption, assumption, assumption, assumption)
    apply (rule data [unfolded wp_check_ok wp_thenM, simplified])
    apply (simp_all add: rca)
    done
qed

section \<open>Properties\<close>

text \<open>A card that shows the end of a block when its last 24 words are still in the FIFO.\<close>

definition demo_disk :: hw where
  "demo_disk l a =
     (let c = (case last_wr SDIO_CMDCTL l of None \<Rightarrow> 0 | Some v \<Rightarrow> v) in
      if a = SDIO_CMDCTL then c
      else if a = SDIO_STAT
      then 0x40 OR (if c AND 0x3F = 17
                    then (if fifo_pos l < 104 then 0x208000 else if fifo_pos l < 121 then 0x208400 else if fifo_pos l < 128 then 0x200400 else 0x400)
                    else if c AND 0x3F = 24 then (if fifo_pos l < 128 then 0x4000 else 0x400)
                    else 0)
      else if a = SDIO_RSPCMDIDX then c AND 0x3F
      else if a = SDIO_RESP0 then 0x900
      else if a = SDIO_FIFO then disk (\<lambda>_. 0) l (cmd_arg l, fifo_pos l)
      else 0)"

lemma demo_disk_regs:
  assumes "cmd_is c l"
  shows "demo_disk l SDIO_RSPCMDIDX = ucast c" "demo_disk l SDIO_FIFO = disk (\<lambda>_. 0) l (cmd_arg l, fifo_pos l)"
    "c = 17 \<Longrightarrow> demo_disk l SDIO_STAT = (if fifo_pos l < 104 then 0x208040 else if fifo_pos l < 121 then 0x208440
       else if fifo_pos l < 128 then 0x200440 else 0x440)"
    "c = 24 \<Longrightarrow> demo_disk l SDIO_STAT = (if fifo_pos l < 128 then 0x4040 else 0x440)"
    "c \<noteq> 17 \<Longrightarrow> c \<noteq> 24 \<Longrightarrow> demo_disk l SDIO_STAT = 0x40"
proof -
  have inj: "ucast c = (n :: u32) \<Longrightarrow> c = ucast n" for n by (metis ucast_u8)
  obtain v where v: "last_wr SDIO_CMDCTL l = Some v" "v AND 0x3F = ucast c" using assms by (auto simp: cmd_is_def)
  show "c \<noteq> 17 \<Longrightarrow> c \<noteq> 24 \<Longrightarrow> demo_disk l SDIO_STAT = 0x40"
    using v inj [of 17] inj [of 24] by (auto simp: demo_disk_def sdio_regs Let_def)
qed (use assms in \<open>auto simp: cmd_is_def demo_disk_def sdio_regs Let_def\<close>)

lemma demo_disk_accepts: "accepts demo_disk"
proof -
  have "bit (demo_disk l SDIO_STAT) 6" "\<not> bit (demo_disk l SDIO_STAT) 2" "\<not> bit (demo_disk l SDIO_STAT) 0"
    if "cmd_is c l" for c l
    using demo_disk_regs [OF that] by (cases "c = 17"; cases "c = 24"; simp)+
  moreover have "storage_reg demo_disk SDIO_CMDCTL 0"
    by (auto simp: storage_reg_def demo_disk_def)
  moreover have "demo_disk l SDIO_RESP0 = 0x900" for l by (simp add: demo_disk_def sdio_regs)
  ultimately show ?thesis by (simp add: accepts_def demo_disk_regs SD_R1_ERROR_BITS_def)
qed

lemma demo_disk_card: "block_card demo_disk (\<lambda>_. 0)"
proof -
  have st: "demo_disk l SDIO_STAT = (if fifo_pos l < 104 then 0x208040 else if fifo_pos l < 121 then 0x208440
       else if fifo_pos l < 128 then 0x200440 else 0x440)" if "cmd_is 17 l" for l
    by (rule demo_disk_regs(3) [OF that]) simp
  have st': "demo_disk l SDIO_STAT = (if fifo_pos l < 128 then 0x4040 else 0x440)" if "cmd_is 24 l" for l
    by (rule demo_disk_regs(4) [OF that]) simp
  have "data_phase demo_disk 17 128 15 10" unfolding data_phase_def no_data_error_def
    by (intro conjI exI [of _ "\<lambda>_. 0"]) (auto simp: st split: if_splits)
  moreover have "data_phase demo_disk 24 128 14 10" unfolding data_phase_def no_data_error_def
    by (intro conjI exI [of _ "\<lambda>_. 0"]) (auto simp: st' split: if_splits)
  ultimately show ?thesis
    unfolding block_card_def by (auto simp: demo_disk_accepts demo_disk_regs(2) st st' split: if_splits)
qed

definition demo_state :: sdcard where
  "demo_state = sdcard.make [] [0, 0] SDIO_HIGH_CAPACITY_SD_CARD [0, 0, 0, 0] [0, 0, 0, 0] 0x1234 SD_POLLING_MODE 0 0 SD_OK 0 0
     (\<lambda>a. Some (3 * a))"

lemma demo_state_ready:
  "cardtype demo_state = SDIO_HIGH_CAPACITY_SD_CARD" "transmode demo_state = SD_POLLING_MODE" "mapped (ram demo_state) p 128"
  by (simp_all add: demo_state_def sdcard.make_def mapped_def)







end
