(* ===== verification/Bsp_Sd.thy ===== *)
theory Bsp_Sd
  imports Sd_Info Sd_Blocks System_Tick
begin

text \<open>
  The board's use of the SD card, \<open>src/user/bsp/bsp_sd.c\<close>: \<open>sd_io_init\<close>, which composes the start of the card,
  its description, its selection, the four-bit bus and the transfer mode, and \<open>card_info_get\<close>, with the lines
  it prints as its result. The properties say that an empty socket is
  reported and when the number of blocks printed agrees with the size. The start of a card that works is the
  subject of \<open>Sd_Identify\<close>; nothing is shown of the rest of \<open>sd_io_init\<close> on such a card.
\<close>

section \<open>The code\<close>

record sd_app = sdcard +
  sd_cardinfo :: sd_card_info

definition NVIC_PRIGROUP_PRE4_SUB0 :: u32 where "NVIC_PRIGROUP_PRE4_SUB0 = 0x300"
definition SDIO_IRQn :: u8 where "SDIO_IRQn = 49"

definition sd_nvic_config :: "hw \<Rightarrow> ('z bus_scheme, unit) cm" where
  "sd_nvic_config h = thenM (nvic_priority_group_set NVIC_PRIGROUP_PRE4_SUB0) (nvic_irq_enable h SDIO_IRQn 5 0)"

text \<open>\<open>sd_card_information_get(&sd_cardinfo)\<close>.\<close>

definition cardinfo_get :: "('z sd_app_scheme, sd_error) cm" where
  "cardinfo_get =
     bindM (getM (\<lambda>s. sd_card_information_get (Some (sd_cardinfo s)) s)) (\<lambda>(status, i).
     thenM (modM (\<lambda>s. case i of None \<Rightarrow> s | Some i \<Rightarrow> s\<lparr>sd_cardinfo := i\<rparr>)) (ret status))"

text \<open>
  The first half: the local variable \<open>cardstate\<close> is the word at the address \<open>p\<close>. The status of the first
  three steps is overwritten by that of \<open>sd_cardstatus_get\<close>, as in the source.
\<close>

definition sd_io_start :: "hw \<Rightarrow> u32 \<Rightarrow> ('z sd_app_scheme, sd_error) cm" where
  "sd_io_start h p =
     thenM (modM (\<lambda>s. s\<lparr>ram := (ram s)(p \<mapsto> 0)\<rparr>))
    (thenM (sd_nvic_config h)
    (bindM (sd_init h) (\<lambda>status.
     bindM (if status = SD_OK then cardinfo_get else ret status) (\<lambda>status.
     bindM (if status = SD_OK then bindM (getM (\<lambda>s. card_rca (sd_cardinfo s))) (sd_card_select_deselect h)
            else ret status) (\<lambda>_.
     sd_cardstatus_get h p)))))"

text \<open>The endless loop of a locked card is \<open>hang\<close>.\<close>

definition sd_io_init :: "hw \<Rightarrow> u32 \<Rightarrow> ('z sd_app_scheme, sd_error) cm" where
  "sd_io_init h p =
     bindM (sd_io_start h p) (\<lambda>status.
     bindM (mem_rd p) (\<lambda>cardstate.
     if cardstate AND 0x02000000 \<noteq> 0 then hang
     else bindM (if status = SD_OK then sd_bus_mode_config h SDIO_BUSMODE_4BIT else ret status) (\<lambda>status.
          if status = SD_OK then sd_transfer_mode_config SD_DMA_MODE else ret status)))"

text \<open>What \<open>printf\<close> is called with: the format, after the line break it begins with, and the arguments.\<close>

type_synonym print = "string \<times> u32 list"

definition card_version :: "u32 \<Rightarrow> print list" where
  "card_version scr1 =
     (let sd_spec = drop_bit 24 (scr1 AND 0x0F000000);
          sd_spec3 = drop_bit 15 (scr1 AND 0x00008000);
          sd_spec4 = drop_bit 10 (scr1 AND 0x00000400)
      in if sd_spec = 2 then
           (if sd_spec3 = 1 then
              (if sd_spec4 = 1 then [(''## Card version 4.xx ##'', [])] else [(''## Card version 3.0x ##'', [])])
            else [(''## Card version 2.00 ##'', [])])
         else if sd_spec = 1 then [(''## Card version 1.10 ##'', [])]
         else if sd_spec = 0 then [(''## Card version 1.0x ##'', [])]
         else [])"

definition card_security :: "u32 \<Rightarrow> print list" where
  "card_security scr1 =
     (let sd_security = drop_bit 20 (scr1 AND 0x00700000)
      in if sd_security = 2 then [(''## SDSC card ##'', [])]
         else if sd_security = 3 then [(''## SDHC card ##'', [])]
         else if sd_security = 4 then [(''## SDXC card ##'', [])]
         else [])"

definition print_if :: "bool \<Rightarrow> string \<Rightarrow> print list" where
  "print_if b s = (if b then [(s, [])] else [])"

definition card_info_get :: "'z sd_app_scheme \<Rightarrow> print list" where
  "card_info_get s =
     (let csd = card_csd (sd_cardinfo s);
          block_count = (c_size csd + 1) * 1024;
          temp_ccc = ccc csd;
          supports = (\<lambda>n. BIT n AND temp_ccc \<noteq> 0)
      in [('' Card information:'', [])] @ card_version (sd_scr s ! 1) @ card_security (sd_scr s ! 1) @
         [(''## Device size is %dKB ##'', [sd_card_capacity_get s]),
          (''## Block size is %dB ##'', [512]),
          (''## Block count is %d ##'', [block_count])] @
         print_if (read_bl_partial csd \<noteq> 0) ''## Partial blocks for read allowed ##'' @
         print_if (write_bl_partial csd \<noteq> 0) ''## Partial blocks for write allowed ##'' @
         [(''## CardCommandClasses is: %x ##'', [ucast temp_ccc])] @
         print_if (supports 2 \<and> supports 4) ''## Block operation supported ##'' @
         print_if (supports 5) ''## Erase supported ##'' @
         print_if (supports 6) ''## Write protection supported ##'' @
         print_if (supports 7) ''## Lock unlock supported ##'' @
         print_if (supports 8) ''## Application specific supported ##'' @
         print_if (supports 9) ''## I/O mode supported ##'' @
         print_if (supports 10) ''## Switch function supported ##'')"

section \<open>Lemmas\<close>

lemma io_nvic [io_intros]: "io_only (sd_nvic_config h)"
  unfolding sd_nvic_config_def nvic_priority_group_set_def nvic_irq_enable_def nvic_priority_split_def Let_def
  by (intro io_intros)

lemma total_nvic [total_intros]: "returns (sd_nvic_config h)"
  unfolding sd_nvic_config_def nvic_priority_group_set_def nvic_irq_enable_def nvic_priority_split_def Let_def
  by (auto intro!: total_intros split: prod.split)

lemma log_ext_fields:
  fixes s t :: "'z sd_app_scheme"
  assumes "log_ext s t"
  shows "ram t = ram s" "sd_scr t = sd_scr s" "transmode t = transmode s" "sd_cardinfo t = sd_cardinfo s" "sd_rca t = sd_rca s"
    "cardtype t = cardtype s" "sd_csd t = sd_csd s" "sd_cid t = sd_cid s"
  using assms by (auto simp: log_ext_def)

lemma wp_read_local: "ram s p = Some v \<Longrightarrow> wp (mem_rd p) Q s = Q v s"
  by (simp add: wp_def mem_rd_def)

section \<open>Properties\<close>

text \<open>
  An empty socket is reported as \<open>SD_CMD_RESP_TIMEOUT\<close>; only the local variable was written.
\<close>

theorem sd_io_init_reports_empty_socket:
  assumes "no_card h" and "cardtype s \<noteq> SDIO_SECURE_DIGITAL_IO_CARD" and "p \<noteq> 0"
  shows "wp (sd_io_init h p) (\<lambda>st t. st = SD_CMD_RESP_TIMEOUT \<and> log_ext (s\<lparr>ram := (ram s)(p \<mapsto> 0)\<rparr>) t) s"
proof -
  let ?s0 = "s\<lparr>ram := (ram s)(p \<mapsto> 0)\<rparr>"
  have init: "wp (sd_init h) (\<lambda>st u. st = SD_CMD_RESP_TIMEOUT \<and> log_ext ?s0 u) t" if "log_ext ?s0 t" for t
    using assms(2) log_ext_fields(6) [OF that]
    by (intro wp_mono [OF no_card_init [OF assms(1)]]) (auto intro: log_ext_trans [OF that])
  have status: "wp (sd_cardstatus_get h p) (\<lambda>st u. st = SD_CMD_RESP_TIMEOUT \<and> log_ext ?s0 u) t" if "log_ext ?s0 t" for t
    unfolding sd_cardstatus_get_def send_status_def using assms(3)
    by (simp add: wp_check_ok wp_bindM wp_getM) (rule wp_result [OF that _ no_card_checks(4) [OF assms(1)]], intro io_intros, simp)
  have m: "ram t p = Some 0" if "log_ext ?s0 t" for t using log_ext_fields(1) [OF that] by simp
  show ?thesis
    unfolding sd_io_init_def sd_io_start_def wp_thenM wp_bindM wp_modM
    apply (rule wp_io_then [OF log_ext_refl], intro io_intros, intro total_intros)
    apply (rule wp_mono [OF init], assumption)
    apply (clarsimp simp: wp_bindM wp_ret)
    apply (rule wp_mono [OF status], assumption)
    apply (clarsimp simp: wp_bindM wp_read_local [OF m] wp_ret)
    done
qed

lemma information_c_size:
  assumes "cardtype s = SDIO_HIGH_CAPACITY_SD_CARD" "sd_card_information_get (Some i) s = (st, Some i')"
  shows "(c_size (card_csd i') + 1) * 512 = high_capacity_kb (sd_csd s)"
  using assms
  by (auto simp: sd_card_information_get_def info_high_def info_csd_tail_def high_capacity_kb_def Let_def split_def)

text \<open>
  For a high capacity card the block count \<open>card_info_get\<close> prints is twice the device size it prints: blocks
  of 512 bytes against units of 1024. The formula of the count is that of such cards only; a standard
  capacity card has its own, with \<open>c_size_mult\<close>.
\<close>

theorem card_info_count_agrees_with_size:
  assumes "cardtype s = SDIO_HIGH_CAPACITY_SD_CARD"
    and "sd_card_information_get (Some i) s = (SD_OK, Some (sd_cardinfo s))"
  shows "(''## Device size is %dKB ##'', [sd_card_capacity_get s]) \<in> set (card_info_get s)"
    and "(''## Block count is %d ##'', [2 * sd_card_capacity_get s]) \<in> set (card_info_get s)"
proof -
  have "sd_card_capacity_get s = (c_size (card_csd (sd_cardinfo s)) + 1) * 512"
    using information_c_size [OF assms] assms(1) by (simp add: sd_card_capacity_get_def)
  then have "(c_size (card_csd (sd_cardinfo s)) + 1) * 1024 = 2 * sd_card_capacity_get s" by (simp add: algebra_simps)
  then show "(''## Device size is %dKB ##'', [sd_card_capacity_get s]) \<in> set (card_info_get s)"
    "(''## Block count is %d ##'', [2 * sd_card_capacity_get s]) \<in> set (card_info_get s)"
    by (simp_all add: card_info_get_def Let_def)
qed

end
