(* ===== verification/Spi_Flash.thy ===== *)
theory Spi_Flash
  imports Periph
begin

text \<open>
  The driver of the GD25Q32 serial flash, \<open>spi_flash.c\<close>, with the functions of \<open>gd32f4xx_spi.c\<close> it calls,
  and the chip at the other end of the wires: the commands of its data sheet, as the driver's bytes and
  select pulses on the bus reach it. The theorems are about what the chip's cells hold after an
  operation. A buffer of the caller is a list of bytes; an index past its end is a fault.
\<close>

section \<open>The SPI peripheral\<close>

definition SPI0 :: u32 where "SPI0 = 0x40013000"

record spi_parameter =
  device_mode :: u32
  trans_mode :: u32
  frame_size :: u32
  nss :: u32
  endian :: u32
  clock_polarity_phase :: u32
  prescale :: u32

definition spi_init :: "hw \<Rightarrow> u32 \<Rightarrow> spi_parameter \<Rightarrow> ('z bus_scheme, unit) cm" where
  "spi_init h spi_periph spi_struct =
     bindM (rd32 h (spi_periph + 0x00)) (\<lambda>reg.
     let reg = reg AND 0x00003040;
         reg = reg OR device_mode spi_struct;
         reg = reg OR trans_mode spi_struct;
         reg = reg OR frame_size spi_struct;
         reg = reg OR nss spi_struct;
         reg = reg OR endian spi_struct;
         reg = reg OR clock_polarity_phase spi_struct;
         reg = reg OR prescale spi_struct
     in thenM (wr32 (spi_periph + 0x00) reg)
              (clrbits h (spi_periph + 0x1C) (BIT 11)))"

definition spi_enable :: "hw \<Rightarrow> u32 \<Rightarrow> ('z bus_scheme, unit) cm" where
  "spi_enable h spi_periph = setbits h (spi_periph + 0x00) (BIT 6)"

definition spi_i2s_data_transmit :: "u32 \<Rightarrow> u16 \<Rightarrow> ('z bus_scheme, unit) cm" where
  "spi_i2s_data_transmit spi_periph data = wr32 (spi_periph + 0x0C) (ucast data)"

definition spi_i2s_data_receive :: "hw \<Rightarrow> u32 \<Rightarrow> ('z bus_scheme, u16) cm" where
  "spi_i2s_data_receive h spi_periph = bindM (rd32 h (spi_periph + 0x0C)) (\<lambda>v. ret (ucast v))"

definition spi_i2s_flag_get :: "hw \<Rightarrow> u32 \<Rightarrow> u32 \<Rightarrow> ('z bus_scheme, bool) cm" where
  "spi_i2s_flag_get h spi_periph flag = bindM (rd32 h (spi_periph + 0x08)) (\<lambda>v. ret (v AND flag \<noteq> 0))"

section \<open>The driver\<close>

definition BSP_SPI_NSS :: u32 where "BSP_SPI_NSS = BIT 4"
definition BSP_SPI_SCK :: u32 where "BSP_SPI_SCK = BIT 5"
definition BSP_SPI_MISO :: u32 where "BSP_SPI_MISO = BIT 6"
definition BSP_SPI_MOSI :: u32 where "BSP_SPI_MOSI = BIT 7"

definition bsp_spi_init :: "hw \<Rightarrow> ('z bus_scheme, unit) cm" where
  "bsp_spi_init h =
     seqM [rcu_periph_clock_enable h (RCU_REGIDX_BIT 0x30 0),
           rcu_periph_clock_enable h (RCU_REGIDX_BIT 0x44 12),
           gpio_af_set h GPIOA GPIO_AF_5 BSP_SPI_SCK,
           gpio_af_set h GPIOA GPIO_AF_5 BSP_SPI_MISO,
           gpio_af_set h GPIOA GPIO_AF_5 BSP_SPI_MOSI,
           gpio_mode_set h GPIOA GPIO_MODE_AF GPIO_PUPD_NONE BSP_SPI_SCK,
           gpio_mode_set h GPIOA GPIO_MODE_AF GPIO_PUPD_NONE BSP_SPI_MISO,
           gpio_mode_set h GPIOA GPIO_MODE_AF GPIO_PUPD_NONE BSP_SPI_MOSI,
           gpio_output_options_set h GPIOA GPIO_OTYPE_PP GPIO_OSPEED_50MHZ BSP_SPI_SCK,
           gpio_output_options_set h GPIOA GPIO_OTYPE_PP GPIO_OSPEED_50MHZ BSP_SPI_MISO,
           gpio_output_options_set h GPIOA GPIO_OTYPE_PP GPIO_OSPEED_50MHZ BSP_SPI_MOSI,
           rcu_periph_clock_enable h (RCU_REGIDX_BIT 0x30 0),
           gpio_mode_set h GPIOA GPIO_MODE_OUTPUT GPIO_PUPD_PULLUP BSP_SPI_NSS,
           gpio_output_options_set h GPIOA GPIO_OTYPE_PP GPIO_OSPEED_50MHZ BSP_SPI_NSS,
           gpio_bit_write GPIOA BSP_SPI_NSS True,
           spi_init h SPI0 \<lparr>device_mode = BIT 2 OR BIT 8, trans_mode = 0, frame_size = 0, nss = BIT 9, endian = 0,
             clock_polarity_phase = BIT 1 OR BIT 0, prescale = push_bit 3 1\<rparr>,
           spi_enable h SPI0]"

definition spi_read_write_byte :: "hw \<Rightarrow> u8 \<Rightarrow> ('z bus_scheme, u8) cm" where
  "spi_read_write_byte h dat =
     thenM (whileM (\<lambda>_. bindM (spi_i2s_flag_get h SPI0 (BIT 1)) (\<lambda>f. ret (\<not> f))) (\<lambda>_. ret ()) ())
    (thenM (spi_i2s_data_transmit SPI0 (ucast dat))
    (thenM (whileM (\<lambda>_. bindM (spi_i2s_flag_get h SPI0 (BIT 0)) (\<lambda>f. ret (\<not> f))) (\<lambda>_. ret ()) ())
    (bindM (spi_i2s_data_receive h SPI0) (\<lambda>r. ret (ucast r)))))"

definition W25QXX_CS_ON :: "u32 \<Rightarrow> ('z bus_scheme, unit) cm" where
  "W25QXX_CS_ON x = gpio_bit_write GPIOA BSP_SPI_NSS (x \<noteq> 0)"

text \<open>A byte whose answer is not used.\<close>

definition spi_send :: "hw \<Rightarrow> u8 \<Rightarrow> ('z bus_scheme, unit) cm" where
  "spi_send h dat = bindM (spi_read_write_byte h dat) (\<lambda>_. ret ())"

text \<open>The command byte and the address, most significant byte first.\<close>

definition send_address :: "hw \<Rightarrow> u8 \<Rightarrow> u32 \<Rightarrow> ('z bus_scheme, unit) cm" where
  "send_address h cmd addr =
     seqM [spi_send h cmd, spi_send h (ucast (drop_bit 16 addr)), spi_send h (ucast (drop_bit 8 addr)), spi_send h (ucast addr)]"

definition GD25Q32_readID :: "hw \<Rightarrow> ('z bus_scheme, u16) cm" where
  "GD25Q32_readID h =
     thenM (W25QXX_CS_ON 0)
    (thenM (spi_send h 0x90)
    (thenM (spi_send h 0x00)
    (thenM (spi_send h 0x00)
    (thenM (spi_send h 0x00)
    (bindM (spi_read_write_byte h 0xFF) (\<lambda>m.
     bindM (spi_read_write_byte h 0xFF) (\<lambda>d.
     let temp = 0 OR push_bit 8 (ucast m); temp = temp OR ucast d
     in thenM (W25QXX_CS_ON 1) (ret temp)))))))) "

definition GD25Q32_write_enable :: "hw \<Rightarrow> ('z bus_scheme, unit) cm" where
  "GD25Q32_write_enable h = seqM [W25QXX_CS_ON 0, spi_send h 0x06, W25QXX_CS_ON 1]"

definition read_status :: "hw \<Rightarrow> ('z bus_scheme, u8) cm" where
  "read_status h =
     thenM (W25QXX_CS_ON 0)
    (thenM (spi_send h 0x05)
    (bindM (spi_read_write_byte h 0xFF) (\<lambda>byte.
     thenM (W25QXX_CS_ON 1) (ret byte))))"

definition GD25Q32_wait_busy :: "hw \<Rightarrow> ('z bus_scheme, unit) cm" where
  "GD25Q32_wait_busy h =
     bindM (read_status h) (\<lambda>byte.
     bindM (whileM (\<lambda>byte. ret (byte AND 0x01 = 1)) (\<lambda>_. read_status h) byte) (\<lambda>_. ret ()))"

definition GD25Q32_erase_sector :: "hw \<Rightarrow> u32 \<Rightarrow> ('z bus_scheme, unit) cm" where
  "GD25Q32_erase_sector h addr =
     (let addr = addr * 4096 in
      seqM [GD25Q32_write_enable h, GD25Q32_wait_busy h, W25QXX_CS_ON 0, send_address h 0x20 addr, W25QXX_CS_ON 1,
            GD25Q32_wait_busy h])"

definition GD25Q32_write :: "hw \<Rightarrow> u8 list \<Rightarrow> u32 \<Rightarrow> u16 \<Rightarrow> ('z bus_scheme, unit) cm" where
  "GD25Q32_write h buffer addr numbyte =
     seqM [GD25Q32_erase_sector h (addr div 4096),
           GD25Q32_write_enable h,
           GD25Q32_wait_busy h,
           W25QXX_CS_ON 0,
           send_address h 0x02 addr,
           foldM (\<lambda>i _. bindM (load_elem buffer i) (spi_send h)) [0..<unat numbyte] (),
           W25QXX_CS_ON 1,
           GD25Q32_wait_busy h]"

definition GD25Q32_read :: "hw \<Rightarrow> u8 list \<Rightarrow> u32 \<Rightarrow> u16 \<Rightarrow> ('z bus_scheme, u8 list) cm" where
  "GD25Q32_read h buffer read_addr read_length =
     thenM (W25QXX_CS_ON 0)
    (thenM (send_address h 0x03 read_addr)
    (bindM (foldM (\<lambda>i buffer. bindM (spi_read_write_byte h 0xFF) (store_elem buffer i)) [0..<unat read_length] buffer) (\<lambda>buffer.
     thenM (W25QXX_CS_ON 1) (ret buffer))))"

section \<open>The chip\<close>

text \<open>
  \<open>sel\<close> holds the bytes since the select line went low; a command takes effect when it goes high.
  Erasing and programming need the write enable latch, and leave the chip busy until a status read
  shows that it is idle; a busy chip ignores every other command.
\<close>

record chip =
  cells :: "nat \<Rightarrow> u8"
  wel :: bool
  busy :: bool
  selected :: bool
  sel :: "u8 list"

definition addr24 :: "u8 \<Rightarrow> u8 \<Rightarrow> u8 \<Rightarrow> nat" where
  "addr24 a b c = unat a * 65536 + unat b * 256 + unat c"

definition erase_cells :: "nat \<Rightarrow> (nat \<Rightarrow> u8) \<Rightarrow> nat \<Rightarrow> u8" where
  "erase_cells a m = (\<lambda>x. if x div 4096 = a div 4096 then 0xFF else m x)"

text \<open>A page program fills the page buffer, where the offset wraps at 256, and clears bits of the cells.\<close>

fun page_buffer :: "nat \<Rightarrow> u8 list \<Rightarrow> (nat \<rightharpoonup> u8) \<Rightarrow> (nat \<rightharpoonup> u8)" where
  "page_buffer off [] pb = pb"
| "page_buffer off (d # ds) pb = page_buffer (Suc off) ds (pb(off mod 256 \<mapsto> d))"

definition program_cells :: "nat \<Rightarrow> u8 list \<Rightarrow> (nat \<Rightarrow> u8) \<Rightarrow> nat \<Rightarrow> u8" where
  "program_cells a ds m = (\<lambda>x. if x div 256 = a div 256
     then (case page_buffer (a mod 256) ds Map.empty (x mod 256) of None \<Rightarrow> m x | Some d \<Rightarrow> m x AND d) else m x)"

definition execute :: "u8 list \<Rightarrow> chip \<Rightarrow> chip" where
  "execute bs c = (if busy c then c else
     (case bs of
        [] \<Rightarrow> c
      | cmd # args \<Rightarrow>
          if cmd = 0x06 then c\<lparr>wel := True\<rparr>
          else if \<not> wel c then c
          else (case args of
              a # b # e # ds \<Rightarrow>
                if cmd = 0x20 \<and> ds = [] then c\<lparr>cells := erase_cells (addr24 a b e) (cells c), wel := False, busy := True\<rparr>
                else if cmd = 0x02 \<and> ds \<noteq> [] then c\<lparr>cells := program_cells (addr24 a b e) ds (cells c), wel := False, busy := True\<rparr>
                else c
            | _ \<Rightarrow> c)))"

definition NSS_HIGH :: u32 where "NSS_HIGH = GPIOA + 0x18"
definition NSS_LOW :: u32 where "NSS_LOW = GPIOA + 0x28"
definition SPI_DATA :: u32 where "SPI_DATA = SPI0 + 0x0C"
definition SPI_STAT :: u32 where "SPI_STAT = SPI0 + 0x08"

definition chip_step :: "io \<Rightarrow> chip \<Rightarrow> chip" where
  "chip_step e c = (case e of
       Wr a v \<Rightarrow>
         if a = NSS_LOW \<and> v = BSP_SPI_NSS then c\<lparr>selected := True, sel := []\<rparr>
         else if a = NSS_HIGH \<and> v = BSP_SPI_NSS
         then (if selected c then execute (sel c) c else c)\<lparr>selected := False, sel := []\<rparr>
         else if a = SPI_DATA \<and> selected c then c\<lparr>sel := sel c @ [ucast v]\<rparr>
         else c
     | Rd a v \<Rightarrow>
         if a = SPI_DATA \<and> selected c \<and> length (sel c) = 2 \<and> hd (sel c) = 0x05 \<and> \<not> bit v 0 then c\<lparr>busy := False\<rparr> else c
     | Idle \<Rightarrow> c)"

primrec chip_of :: "chip \<Rightarrow> io_log \<Rightarrow> chip" where
  "chip_of c [] = c"
| "chip_of c (e # l) = chip_step e (chip_of c l)"

text \<open>
  The wires: the SPI peripheral moves every byte, and what it received while the last byte was sent is
  what the chip drives. A status read shows the busy bit; the chip becomes idle after a while. A read
  command (03h) gets the cells in ascending order, the read-ID command (90h) the two identification bytes.
\<close>

definition flash_wires :: "hw \<Rightarrow> chip \<Rightarrow> u8 \<Rightarrow> u8 \<Rightarrow> bool" where
  "flash_wires h c mid did \<longleftrightarrow>
     responds h SPI_STAT (\<lambda>v. v AND BIT 1 \<noteq> 0) \<and> responds h SPI_STAT (\<lambda>v. v AND BIT 0 \<noteq> 0) \<and>
     (\<forall>l. let k = chip_of c l in selected k \<longrightarrow>
        (length (sel k) = 2 \<and> hd (sel k) = 0x05 \<and> \<not> busy k \<longrightarrow> \<not> bit (h l SPI_DATA) 0) \<and>
        (\<forall>a b e ds. sel k = 0x03 # a # b # e # ds \<and> ds \<noteq> [] \<and> \<not> busy k \<longrightarrow>
           h l SPI_DATA = ucast (cells k ((addr24 a b e + length ds - 1) mod 2 ^ 24))) \<and>
        (\<forall>x. sel k = [0x90, 0, 0, 0, x] \<and> \<not> busy k \<longrightarrow> h l SPI_DATA = ucast mid) \<and>
        (\<forall>x y. sel k = [0x90, 0, 0, 0, x, y] \<and> \<not> busy k \<longrightarrow> h l SPI_DATA = ucast did)) \<and>
     (\<exists>d :: io_log \<Rightarrow> nat. (\<forall>e l. d (e # l) \<le> d l) \<and>
        (\<forall>l v. let k = chip_of c l in selected k \<and> length (sel k) = 2 \<and> hd (sel k) = 0x05 \<and> bit (h l SPI_DATA) 0 \<longrightarrow>
           d (Rd SPI_DATA v # l) < d l))"

section \<open>Bytes and select pulses\<close>

lemma spi_regs [simp]:
  "SPI_STAT \<noteq> SPI_DATA" "SPI_DATA \<noteq> SPI_STAT" "NSS_LOW \<noteq> NSS_HIGH" "NSS_HIGH \<noteq> NSS_LOW" "SPI_DATA \<noteq> NSS_LOW" "SPI_DATA \<noteq> NSS_HIGH"
  by (simp_all add: SPI_STAT_def SPI_DATA_def NSS_LOW_def NSS_HIGH_def SPI0_def GPIOA_def)

lemma chip_of_polls: "chip_of c (map (Rd SPI_STAT) vs @ l) = chip_of c l"
  by (induction vs) (simp_all add: chip_step_def)

text \<open>\<open>at c s k t\<close>: between \<open>s\<close> and \<open>t\<close> only the bus was used, and in \<open>t\<close> the chip is in the state \<open>k\<close>.\<close>

definition at :: "chip \<Rightarrow> 'z bus_scheme \<Rightarrow> chip \<Rightarrow> 'z bus_scheme \<Rightarrow> bool" where
  "at c s k t \<longleftrightarrow> log_ext s t \<and> chip_of c (iolog t) = k"

lemma at_refl: "at c s (chip_of c (iolog s)) s"
  by (simp add: at_def)

lemma at_Cons: "at c s k t \<Longrightarrow> at c s (chip_step e k) (t\<lparr>iolog := e # iolog t\<rparr>)"
  by (auto simp: at_def intro: log_ext_trans log_ext_Cons)

lemma wp_flag_poll:
  assumes "responds h SPI_STAT (\<lambda>v. v AND f \<noteq> 0)" and t: "at c s k t" and Q: "\<And>u. at c s k u \<Longrightarrow> Q () u"
  shows "wp (whileM (\<lambda>_. bindM (spi_i2s_flag_get h SPI0 f) (\<lambda>f. ret (\<not> f))) (\<lambda>_. ret ()) ()) Q t"
proof -
  obtain d :: "io_log \<Rightarrow> nat" where d: "\<And>l. h l SPI_STAT AND f = 0 \<Longrightarrow> d (Rd SPI_STAT (h l SPI_STAT) # l) < d l"
    using assms(1) by (auto simp: responds_def)
  have st: "at c s k (u\<lparr>iolog := Rd SPI_STAT v # iolog u\<rparr>)" if "at c s k u" for u v
    using at_Cons [OF that, of "Rd SPI_STAT v"] by (simp add: chip_step_def)
  show ?thesis
    by (rule wp_whileM [where I = "\<lambda>_. at c s k" and M = "\<lambda>_ u. d (iolog u)"])
      (auto simp: t wp_simps spi_i2s_flag_get_def d Q st SPI_STAT_def [symmetric])
qed

definition status_read :: "u8 list \<Rightarrow> bool" where
  "status_read bs \<longleftrightarrow> length bs = 2 \<and> hd bs = 0x05"

lemma wp_byte:
  assumes h: "flash_wires h c m d" and t: "at c s k t" and k: "selected k"
    and Q: "\<And>u v. at c s (k\<lparr>sel := sel k @ [b]\<rparr>) u \<Longrightarrow>
       at c s (chip_step (Rd SPI_DATA (h (iolog u) SPI_DATA)) (k\<lparr>sel := sel k @ [b]\<rparr>)) (u\<lparr>iolog := Rd SPI_DATA (h (iolog u) SPI_DATA) # iolog u\<rparr>) \<Longrightarrow>
       Q (ucast (h (iolog u) SPI_DATA)) (u\<lparr>iolog := Rd SPI_DATA (h (iolog u) SPI_DATA) # iolog u\<rparr>)"
  shows "wp (spi_read_write_byte h b) Q t"
proof -
  have r: "responds h SPI_STAT (\<lambda>v. v AND BIT 1 \<noteq> 0)" "responds h SPI_STAT (\<lambda>v. v AND BIT 0 \<noteq> 0)"
    using h unfolding flash_wires_def by blast+
  have u8: "ucast (ucast x :: u16) = (ucast x :: u8)" "ucast (ucast (ucast y :: u16) :: u32) = (y :: u8)" for x :: u32 and y :: u8
    by (rule bit_word_eqI, simp add: bit_simps)+
  have w: "at c s (k\<lparr>sel := sel k @ [b]\<rparr>) (u\<lparr>iolog := Wr SPI_DATA (ucast (ucast b :: u16)) # iolog u\<rparr>)" if "at c s k u" for u
    using at_Cons [OF that, of "Wr SPI_DATA (ucast (ucast b :: u16))"] k by (simp add: chip_step_def u8)
  show ?thesis
    unfolding spi_read_write_byte_def wp_thenM
    apply (rule wp_flag_poll [OF r(1) t])
    apply (simp only: spi_i2s_data_transmit_def SPI_DATA_def [symmetric] wp_simps)
    apply (rule wp_flag_poll [OF r(2) w], assumption)
    apply (simp only: spi_i2s_data_receive_def SPI_DATA_def [symmetric] wp_simps u8)
    apply (rule Q, assumption, rule at_Cons, assumption)
    done
qed

lemma wp_send:
  assumes h: "flash_wires h c m d" and t: "at c s k t" and k: "selected k" and b: "\<not> status_read (sel k @ [b])"
    and Q: "\<And>u. at c s (k\<lparr>sel := sel k @ [b]\<rparr>) u \<Longrightarrow> Q () u"
  shows "wp (spi_send h b) Q t"
proof -
  have "chip_step (Rd SPI_DATA v) (k\<lparr>sel := sel k @ [b]\<rparr>) = k\<lparr>sel := sel k @ [b]\<rparr>" for v
    using b by (auto simp: chip_step_def status_read_def)
  then show ?thesis
    unfolding spi_send_def wp_bindM by (intro wp_byte [OF h t k]) (simp add: wp_ret Q)
qed

lemma wp_cs_low:
  assumes t: "at c s k t" and Q: "\<And>u. at c s (k\<lparr>selected := True, sel := []\<rparr>) u \<Longrightarrow> Q () u"
  shows "wp (W25QXX_CS_ON 0) Q t"
  using at_Cons [OF t, of "Wr NSS_LOW BSP_SPI_NSS"]
  by (auto simp: W25QXX_CS_ON_def gpio_bit_write_def wp_simps NSS_LOW_def [symmetric] chip_step_def intro!: Q)

lemma wp_cs_high:
  assumes t: "at c s k t" and k: "selected k"
    and Q: "\<And>u. at c s ((execute (sel k) k)\<lparr>selected := False, sel := []\<rparr>) u \<Longrightarrow> Q () u"
  shows "wp (W25QXX_CS_ON 1) Q t"
  using at_Cons [OF t, of "Wr NSS_HIGH BSP_SPI_NSS"] k
  by (auto simp: W25QXX_CS_ON_def gpio_bit_write_def wp_simps NSS_HIGH_def [symmetric] chip_step_def intro!: Q)

section \<open>Waiting\<close>

abbreviation released :: "chip \<Rightarrow> chip" where
  "released k \<equiv> k\<lparr>selected := False, sel := []\<rparr>"

lemma execute_simps [simp]:
  "execute (0x05 # bs) k = k" "execute (0x03 # bs) k = k" "execute (0x90 # bs) k = k"
  "busy k \<Longrightarrow> execute bs k = k" "\<not> busy k \<Longrightarrow> execute [0x06] k = k\<lparr>wel := True\<rparr>"
  by (auto simp: execute_def split: list.splits)

lemma chip_update_swap:
  "released (k\<lparr>selected := True, sel := x, busy := b\<rparr>) = released (k\<lparr>busy := b\<rparr>)"
  "released (k\<lparr>selected := True, sel := x\<rparr>) = released k"
  "released (k\<lparr>selected := True, sel := x, wel := w\<rparr>) = released (k\<lparr>wel := w\<rparr>)"
  by (cases k, simp)+

lemma log_ext_measure:
  fixes g :: "io_log \<Rightarrow> nat"
  assumes "\<And>e l. g (e # l) \<le> g l" "log_ext s t"
  shows "g (iolog t) \<le> g (iolog s)"
proof -
  have "g (x @ l) \<le> g l" for x l
    by (induction x) (auto intro: order_trans assms(1))
  then show ?thesis using assms(2) by (auto simp: log_ext_def)
qed

lemma wp_read_status:
  fixes g :: "io_log \<Rightarrow> nat"
  assumes h: "flash_wires h c m d"
    and g: "\<And>e l. g (e # l) \<le> g l"
      "\<And>l v. selected (chip_of c l) \<Longrightarrow> status_read (sel (chip_of c l)) \<Longrightarrow> bit (h l SPI_DATA) 0 \<Longrightarrow> g (Rd SPI_DATA v # l) < g l"
    and t: "chip_of c (iolog t) = k"
    and Q: "\<And>b u. log_ext t u \<Longrightarrow> (if bit b 0 then chip_of c (iolog u) = released k \<and> g (iolog u) < g (iolog t)
        else chip_of c (iolog u) = released (k\<lparr>busy := False\<rparr>)) \<Longrightarrow> Q b u"
  shows "wp (read_status h) Q t"
proof -
  have t': "at c t k t" using t by (simp add: at_def)
  let ?k = "k\<lparr>selected := True, sel := [0x05, 0xFF]\<rparr>"
  have fin: "wp (W25QXX_CS_ON 1) (\<lambda>_. Q (ucast (h (iolog u) SPI_DATA))) (u\<lparr>iolog := Rd SPI_DATA (h (iolog u) SPI_DATA) # iolog u\<rparr>)"
    if u: "at c t ?k u"
      "at c t (chip_step (Rd SPI_DATA (h (iolog u) SPI_DATA)) ?k) (u\<lparr>iolog := Rd SPI_DATA (h (iolog u) SPI_DATA) # iolog u\<rparr>)" for u
  proof (cases "bit (h (iolog u) SPI_DATA) 0")
    case True
    let ?u = "u\<lparr>iolog := Rd SPI_DATA (h (iolog u) SPI_DATA) # iolog u\<rparr>"
    have "g (iolog ?u) < g (iolog u)" using g(2) [of "iolog u"] u(1) True by (simp add: at_def status_read_def)
    also have "\<dots> \<le> g (iolog t)" using u(1) by (auto simp: at_def intro: log_ext_measure [OF g(1)])
    finally have lt: "g (iolog ?u) < g (iolog t)" .
    have at: "at c t ?k ?u" using u(2) True by (simp add: chip_step_def)
    have "wp (W25QXX_CS_ON 1) (\<lambda>_ v. at c t (released k) v \<and> log_ext ?u v) ?u"
    proof (rule wp_conj)
      show "wp (W25QXX_CS_ON 1) (\<lambda>_. at c t (released k)) ?u"
        by (rule wp_cs_high [OF at]) (simp_all add: chip_update_swap)
      show "wlp (W25QXX_CS_ON 1) (\<lambda>_. log_ext ?u) ?u"
        unfolding W25QXX_CS_ON_def by (rule io_onlyD, intro io_intros)
    qed
    then show ?thesis
    proof (rule wp_mono, elim conjE)
      fix v assume v: "at c t (released k) v" "log_ext ?u v"
      have "g (iolog v) < g (iolog t)" using log_ext_measure [OF g(1) v(2)] lt by simp
      then show "Q (ucast (h (iolog u) SPI_DATA)) v" using v True by (intro Q) (auto simp: at_def bit_simps)
    qed
  next
    case False
    have "chip_step (Rd SPI_DATA (h (iolog u) SPI_DATA)) ?k = ?k\<lparr>busy := False\<rparr>" using False by (simp add: chip_step_def)
    with u(2) have "at c t (k\<lparr>selected := True, sel := [0x05, 0xFF], busy := False\<rparr>) (u\<lparr>iolog := Rd SPI_DATA (h (iolog u) SPI_DATA) # iolog u\<rparr>)"
      by simp
    then show ?thesis
      by (rule wp_cs_high) (use False in \<open>auto simp: at_def bit_simps chip_update_swap intro!: Q\<close>)
  qed
  show ?thesis
    unfolding read_status_def wp_thenM wp_bindM
    apply (rule wp_cs_low [OF t'])
    apply (rule wp_send [OF h], assumption, simp, simp add: status_read_def)
    apply (rule wp_byte [OF h], assumption, simp)
    apply (simp add: wp_simps)
    apply (rule fin, simp_all)
    done
qed

lemma wp_wait_busy:
  assumes h: "flash_wires h c m d" and t: "at c s k t"
    and Q: "\<And>u. at c s (released (k\<lparr>busy := False\<rparr>)) u \<Longrightarrow> Q () u"
  shows "wp (GD25Q32_wait_busy h) Q t"
proof -
  obtain g :: "io_log \<Rightarrow> nat" where g: "\<And>e l. g (e # l) \<le> g l"
    "\<And>l v. selected (chip_of c l) \<Longrightarrow> status_read (sel (chip_of c l)) \<Longrightarrow> bit (h l SPI_DATA) 0 \<Longrightarrow> g (Rd SPI_DATA v # l) < g l"
    using h unfolding flash_wires_def status_read_def Let_def by metis
  let ?idle = "released (k\<lparr>busy := False\<rparr>)"
  let ?I = "\<lambda>b u. log_ext s u \<and> (if bit b 0 then chip_of c (iolog u) = released k else chip_of c (iolog u) = ?idle)"
  have b0: "b AND 1 = 1 \<longleftrightarrow> bit b 0" for b :: u8
    by (simp add: and_one_eq odd_iff_mod_2_eq_one bit_0)
  have first: "wp (read_status h) (\<lambda>b u. ?I b u) t"
    using t by (intro wp_read_status [OF h g]) (auto simp: at_def intro: log_ext_trans split: if_splits)
  let ?M = "\<lambda>b u. g (iolog u) + (if bit b 0 then 1 else 0)"
  have again: "wp (read_status h) (\<lambda>b v. ?I b v \<and> ?M b v < ?M b' u) u" if u: "?I b' u" "bit b' 0" for b' :: u8 and u
  proof (rule wp_read_status [OF h g refl])
    fix b v assume v: "log_ext u v" "if bit b 0 then chip_of c (iolog v) = released (chip_of c (iolog u)) \<and> g (iolog v) < g (iolog u)
      else chip_of c (iolog v) = released (chip_of c (iolog u)\<lparr>busy := False\<rparr>)"
    have "released k\<lparr>busy := False\<rparr> = k\<lparr>busy := False, selected := False, sel := []\<rparr>" by (cases k) simp
    moreover have "log_ext s v" "g (iolog v) \<le> g (iolog u)"
      using u v by (auto intro: log_ext_trans log_ext_measure [OF g(1)])
    ultimately show "?I b v \<and> ?M b v < ?M b' u" using u v(2) by (auto split: if_splits)
  qed
  have "wp (whileM (\<lambda>byte. ret (byte AND 0x01 = 1)) (\<lambda>_. read_status h) b) (\<lambda>_. at c s ?idle) u" if "?I b u" for b u
  proof (rule wp_whileM [where I = ?I and M = ?M], goal_cases)
    case (2 b u)
    then show ?case using again [of u b] by (auto simp: wp_ret b0 at_def split: if_splits)
  qed (rule that)
  then show ?thesis
    unfolding GD25Q32_wait_busy_def wp_bindM
    by (intro wp_mono [OF first]) (auto intro!: wp_mono [OF _ Q] simp: wp_ret)
qed

section \<open>Operations of the chip\<close>

lemma wp_write_enable:
  assumes h: "flash_wires h c m d" and t: "at c s k t" and k: "\<not> busy k"
    and Q: "\<And>u. at c s (released (k\<lparr>wel := True\<rparr>)) u \<Longrightarrow> Q () u"
  shows "wp (GD25Q32_write_enable h) Q t"
  unfolding GD25Q32_write_enable_def wp_seqM
  apply (rule wp_cs_low [OF t])
  apply (rule wp_send [OF h], assumption, simp, simp add: status_read_def)
  apply (rule wp_cs_high, assumption, simp)
  apply (rule Q)
  apply (simp add: k chip_update_swap)
  done

lemma wp_send_address:
  assumes h: "flash_wires h c m d" and t: "at c s k t" and k: "selected k" "sel k = []" "cmd \<noteq> 0x05"
    and Q: "\<And>u. at c s (k\<lparr>sel := [cmd, ucast (drop_bit 16 addr), ucast (drop_bit 8 addr), ucast addr]\<rparr>) u \<Longrightarrow> Q () u"
  shows "wp (send_address h cmd addr) Q t"
  unfolding send_address_def wp_seqM
  apply (rule wp_send [OF h t k(1)], simp add: status_read_def k)
  apply (rule wp_send [OF h], assumption, simp add: k, simp add: status_read_def k)
  apply (rule wp_send [OF h], assumption, simp add: k, simp add: status_read_def k)
  apply (rule wp_send [OF h], assumption, simp add: k, simp add: status_read_def k)
  apply (rule Q)
  apply (simp add: k)
  done

lemma addr24_bytes: "addr24 (ucast (drop_bit 16 a)) (ucast (drop_bit 8 a)) (ucast (a :: u32)) = unat a mod 2 ^ 24"
proof -
  have d: "x mod 16777216 = x div 65536 mod 256 * 65536 + x div 256 mod 256 * 256 + x mod 256" for x :: nat
    using mod_mult2_eq [of x 65536 256] mod_mult2_eq [of x 256 256] by simp
  show ?thesis
    by (simp add: addr24_def unsigned_ucast_eq take_bit_eq_mod drop_bit_eq_div unat_div d)
qed

lemma wp_erase_sector:
  assumes h: "flash_wires h c m d" and t: "at c s k t" and k: "\<not> busy k" "\<not> selected k" "sel k = []"
    and Q: "\<And>u. at c s (k\<lparr>cells := erase_cells (unat (addr * 4096) mod 2 ^ 24) (cells k), wel := False\<rparr>) u \<Longrightarrow> Q () u"
  shows "wp (GD25Q32_erase_sector h addr) Q t"
proof -
  have e: "released (execute [0x20, x, y, z] (k\<lparr>wel := True, busy := False, selected := True, sel := w\<rparr>)\<lparr>busy := False\<rparr>)
      = k\<lparr>cells := erase_cells (addr24 x y z) (cells k), wel := False\<rparr>" for x y z w
    using k by (cases k) (simp add: execute_def)
  show ?thesis
    unfolding GD25Q32_erase_sector_def Let_def wp_seqM
    apply (rule wp_write_enable [OF h t k(1)])
    apply (rule wp_wait_busy [OF h], assumption)
    apply (rule wp_cs_low, assumption)
    apply (rule wp_send_address [OF h], assumption, simp, simp, simp)
    apply (rule wp_cs_high, assumption, simp)
    apply (rule wp_wait_busy [OF h], assumption)
    apply (rule Q)
    apply (simp add: e addr24_bytes)
    done
qed

section \<open>Writing and reading\<close>

lemma page_buffer_other:
  "(\<And>i. i < length ds \<Longrightarrow> (off + i) mod 256 \<noteq> x) \<Longrightarrow> page_buffer off ds pb x = pb x"
proof (induction ds arbitrary: off pb)
  case (Cons d ds)
  have "off mod 256 \<noteq> x" using Cons.prems [of 0] by simp
  moreover have "(Suc off + i) mod 256 \<noteq> x" if "i < length ds" for i using Cons.prems [of "Suc i"] that by simp
  ultimately show ?case using Cons.IH [of "Suc off" "pb(off mod 256 \<mapsto> d)"] by (simp del: fun_upd_apply) simp
qed simp

lemma page_buffer_nth:
  "length ds \<le> 256 \<Longrightarrow> i < length ds \<Longrightarrow> page_buffer off ds pb ((off + i) mod 256) = Some (ds ! i)"
proof (induction ds arbitrary: off pb i)
  case (Cons d ds)
  show ?case
  proof (cases i)
    case 0
    have "(Suc off + j) mod 256 \<noteq> off mod 256" if "j < length ds" for j
    proof
      assume "(Suc off + j) mod 256 = off mod 256"
      then have "(256 :: nat) dvd Suc j" by (metis add.assoc add_diff_cancel_left' add_Suc add_Suc_right le_add1 mod_eq_dvd_iff_nat)
      then show False using that Cons.prems(1) by (auto dest: dvd_imp_le)
    qed
    then show ?thesis using 0 page_buffer_other [of ds "Suc off" "off mod 256"] by simp
  next
    case (Suc j)
    then show ?thesis using Cons by (simp add: Cons.IH [of j "Suc off", simplified])
  qed
qed simp

lemma page_buffer_line:
  assumes "off + length ds \<le> 256" "x < 256"
  shows "page_buffer off ds Map.empty x = (if off \<le> x \<and> x < off + length ds then Some (ds ! (x - off)) else None)"
proof (cases "off \<le> x \<and> x < off + length ds")
  case True
  then have "page_buffer off ds Map.empty ((off + (x - off)) mod 256) = Some (ds ! (x - off))"
    using assms by (intro page_buffer_nth) auto
  then show ?thesis using True assms by simp
next
  case False
  then have "page_buffer off ds Map.empty x = Map.empty x"
    using assms by (intro page_buffer_other) auto
  then show ?thesis using False by simp
qed

lemma wp_send_bytes:
  assumes h: "flash_wires h c m d"
  shows "at c s k t \<Longrightarrow> selected k \<Longrightarrow> 2 \<le> length (sel k) \<Longrightarrow> (\<And>u. at c s (k\<lparr>sel := sel k @ bs\<rparr>) u \<Longrightarrow> Q () u) \<Longrightarrow>
    wp (foldM (\<lambda>x _. spi_send h x) bs ()) Q t"
proof (induction bs arbitrary: k t)
  case (Cons b bs)
  show ?case
    unfolding wp_foldM
    by (rule wp_send [OF h Cons.prems(1,2)], use Cons.prems(3) in \<open>simp add: status_read_def\<close>)
      (rule Cons.IH, assumption, use Cons.prems in simp_all)
qed (simp add: wp_foldM)

lemma erase_same_sector: "erase_cells (unat (addr div 4096 * 4096 :: u32) mod 2 ^ 24) = erase_cells (unat addr mod 2 ^ 24)"
proof -
  have "unat (addr div 4096 * 4096 :: u32) = unat addr div 4096 * 4096"
  proof -
    have "unat addr < 2 ^ LENGTH(32)" by (rule unsigned_less)
    moreover have "unat addr div 4096 * 4096 \<le> unat addr" by simp
    ultimately have "unat addr div 4096 * 4096 < 4294967296" "unat addr div 4096 < 4294967296" by simp_all
    then show ?thesis by (simp add: unat_word_ariths unat_div)
  qed
  moreover have "x div 4096 * 4096 mod 16777216 div 4096 = x mod 16777216 div 4096" for x :: nat
    using mod_mult2_eq [of x 4096 4096] mod_mult_mult2 [of "x div 4096" 4096 4096] by simp
  ultimately show ?thesis by (simp add: erase_cells_def fun_eq_iff)
qed

lemma wp_flash_write:
  assumes h: "flash_wires h c m d" and t: "at c s k t" and k: "\<not> busy k" "\<not> selected k" "sel k = []"
    and n: "0 < numbyte" "unat numbyte \<le> length buffer"
    and Q: "\<And>u. at c s (k\<lparr>cells := program_cells (unat addr mod 2 ^ 24) (take (unat numbyte) buffer)
        (erase_cells (unat addr mod 2 ^ 24) (cells k)), wel := False\<rparr>) u \<Longrightarrow> Q () u"
  shows "wp (GD25Q32_write h buffer addr numbyte) Q t"
proof -
  have ne: "take (unat numbyte) buffer \<noteq> []" using n by (auto simp: word_less_nat_alt)
  have e: "ds \<noteq> [] \<Longrightarrow> released (execute (0x02 # x # y # z # ds) (k\<lparr>cells := m, wel := True, busy := False, selected := True, sel := w\<rparr>)\<lparr>busy := False\<rparr>)
      = k\<lparr>cells := program_cells (addr24 x y z) ds m, wel := False\<rparr>" for x y z w ds m
    using k by (cases k) (simp add: execute_def)
  show ?thesis
    unfolding GD25Q32_write_def wp_seqM foldM_load [OF n(2)]
    apply (rule wp_erase_sector [OF h t k])
    apply (rule wp_write_enable [OF h], assumption, simp add: k)
    apply (rule wp_wait_busy [OF h], assumption)
    apply (rule wp_cs_low, assumption)
    apply (rule wp_send_address [OF h], assumption, simp, simp, simp)
    apply (rule wp_send_bytes [OF h], assumption, simp, simp)
    apply (rule wp_cs_high, assumption, simp)
    apply (rule wp_wait_busy [OF h], assumption)
    apply (rule Q)
    apply (simp add: e [OF ne] addr24_bytes erase_same_sector [simplified])
    done
qed

text \<open>Reading: byte by byte into the buffer.\<close>

lemma wires_read:
  assumes "flash_wires h c m d" "chip_of c l = k" "selected k" "\<not> busy k" "sel k = 0x03 # a # b # e # ds" "ds \<noteq> []"
  shows "ucast (h l SPI_DATA) = cells k ((addr24 a b e + length ds - 1) mod 2 ^ 24)"
proof -
  have "h l SPI_DATA = ucast (cells k ((addr24 a b e + length ds - 1) mod 2 ^ 24))"
    using assms unfolding flash_wires_def Let_def by blast
  moreover have "ucast (ucast x :: u32) = x" for x :: u8 by (rule bit_word_eqI) (simp add: bit_simps)
  ultimately show ?thesis by simp
qed

lemma wp_read_bytes:
  assumes h: "flash_wires h c m d" and k: "\<not> busy k" and A: "addr24 a b e = A"
    and Q: "\<And>u. at c s (k\<lparr>selected := True, sel := 0x03 # a # b # e # replicate n 0xFF\<rparr>) u \<Longrightarrow>
        Q (map (\<lambda>i. cells k ((A + i) mod 2 ^ 24)) [0..<n] @ drop n buffer) u"
    and t: "at c s (k\<lparr>selected := True, sel := [0x03, a, b, e]\<rparr>) t" and n: "n \<le> length buffer"
  shows "wp (foldM (\<lambda>i buffer. bindM (spi_read_write_byte h 0xFF) (store_elem buffer i)) [0..<n] buffer) Q t"
proof -
  let ?f = "\<lambda>i buffer. bindM (spi_read_write_byte h 0xFF) (store_elem buffer i)"
  let ?k = "\<lambda>j. k\<lparr>selected := True, sel := 0x03 # a # b # e # replicate j 0xFF\<rparr>"
  let ?r = "\<lambda>j. map (\<lambda>i. cells k ((A + i) mod 2 ^ 24)) [0..<j] @ drop j buffer"
  have "wp (foldM ?f [0..<j] buffer) (\<lambda>r u. r = ?r j \<and> at c s (?k j) u) t" if "j \<le> n" for j
    using that
  proof (induction j)
    case (Suc j)
    have step: "wp (?f j (?r j)) (\<lambda>r v. r = ?r (Suc j) \<and> at c s (?k (Suc j)) v) u" if u: "at c s (?k j) u" for u
      unfolding wp_bindM
    proof (rule wp_byte [OF h u])
      fix v
      assume v: "at c s (?k j\<lparr>sel := sel (?k j) @ [0xFF]\<rparr>) v"
        and v': "at c s (chip_step (Rd SPI_DATA (h (iolog v) SPI_DATA)) (?k j\<lparr>sel := sel (?k j) @ [0xFF]\<rparr>))
          (v\<lparr>iolog := Rd SPI_DATA (h (iolog v) SPI_DATA) # iolog v\<rparr>)"
      have k1: "?k j\<lparr>sel := sel (?k j) @ [0xFF]\<rparr> = ?k (Suc j)" by (simp add: replicate_append_same)
      have val: "ucast (h (iolog v) SPI_DATA) = cells k ((A + j) mod 2 ^ 24)"
        using wires_read [OF h, of "iolog v" "?k (Suc j)" a b e "replicate (Suc j) 0xFF"] v k A unfolding k1 by (simp add: at_def)
      have lst: "(?r j)[j := x] = map (\<lambda>i. cells k ((A + i) mod 2 ^ 24)) [0..<j] @ x # drop (Suc j) buffer" for x
        using Suc.prems n by (simp add: list_update_append Cons_nth_drop_Suc [symmetric])
      show "wp (store_elem (?r j) j (ucast (h (iolog v) SPI_DATA))) (\<lambda>r v. r = ?r (Suc j) \<and> at c s (?k (Suc j)) v)
          (v\<lparr>iolog := Rd SPI_DATA (h (iolog v) SPI_DATA) # iolog v\<rparr>)"
        using v' Suc.prems n unfolding k1 by (auto simp: wp_simps val lst [simplified] chip_step_def)
    qed simp
    show ?case
      using Suc by (simp add: foldM_append wp_bindM) (rule wp_mono, assumption, elim conjE, simp add: wp_foldM step [simplified])
  qed (use t in \<open>simp add: wp_simps\<close>)
  from this [OF order_refl] show ?thesis by (rule wp_mono) (elim conjE, simp only: Q)
qed

lemma wp_flash_read:
  assumes h: "flash_wires h c m d" and t: "at c s k t" and k: "\<not> busy k" "\<not> selected k" "sel k = []"
    and n: "unat read_length \<le> length buffer"
    and Q: "\<And>u. at c s k u \<Longrightarrow> Q (map (\<lambda>i. cells k ((unat read_addr + i) mod 2 ^ 24)) [0..<unat read_length] @ drop (unat read_length) buffer) u"
  shows "wp (GD25Q32_read h buffer read_addr read_length) Q t"
proof -
  have k': "released k = k" using k by (cases k) simp
  show ?thesis
    unfolding GD25Q32_read_def wp_thenM wp_bindM
    apply (rule wp_cs_low [OF t])
    apply (rule wp_send_address [OF h], assumption, simp, simp, simp)
    apply (rule wp_read_bytes [OF h k(1) addr24_bytes [of read_addr] _ _ n, where s = s])
     apply (rule wp_cs_high, assumption, simp)
     apply (simp add: wp_ret chip_update_swap k' mod_add_left_eq Q [simplified])
    apply simp
    done
qed

text \<open>The identification bytes, the manufacturer's in the high byte.\<close>

lemma wp_readID:
  assumes h: "flash_wires h c m d" and t: "at c s k t" and k: "\<not> busy k" "\<not> selected k" "sel k = []"
    and Q: "\<And>u. at c s k u \<Longrightarrow> Q (push_bit 8 (ucast m) OR ucast d) u"
  shows "wp (GD25Q32_readID h) Q t"
proof -
  have k': "released k = k" using k by (cases k) simp
  have u8: "ucast (ucast x :: u32) = (x :: u8)" for x by (rule bit_word_eqI) (simp add: bit_simps)
  have id: "h (iolog u) SPI_DATA = ucast m" if "at c s (k\<lparr>selected := True, sel := [0x90, 0, 0, 0, x]\<rparr>) u" for x u
    using h that k unfolding flash_wires_def Let_def at_def by (auto dest!: spec [of _ "iolog u"])
  have id2: "h (iolog u) SPI_DATA = ucast d" if "at c s (k\<lparr>selected := True, sel := [0x90, 0, 0, 0, x, y]\<rparr>) u" for x y u
    using h that k unfolding flash_wires_def Let_def at_def by (auto dest!: spec [of _ "iolog u"])
  show ?thesis
    unfolding GD25Q32_readID_def wp_thenM wp_bindM
    apply (rule wp_cs_low [OF t])
    apply (rule wp_send [OF h], assumption, simp, simp add: status_read_def)
    apply (rule wp_send [OF h], assumption, simp, simp add: status_read_def)
    apply (rule wp_send [OF h], assumption, simp, simp add: status_read_def)
    apply (rule wp_send [OF h], assumption, simp, simp add: status_read_def)
    apply (rule wp_byte [OF h], assumption, simp)
    apply (simp add: id chip_step_def u8)
    apply (rule wp_byte [OF h], assumption, simp)
    apply (simp add: id2 chip_step_def u8 wp_thenM wp_ret Let_def)
    apply (rule wp_cs_high, assumption, simp)
    apply (simp add: chip_update_swap k' Q)
    done
qed

section \<open>Properties\<close>

definition idle_chip :: "chip \<Rightarrow> bool" where
  "idle_chip k \<longleftrightarrow> \<not> busy k \<and> \<not> selected k \<and> sel k = []"

lemma all_ones: "0xFF AND y = y" for y :: u8
proof -
  have "(0xFF :: u8) = - 1" by simp
  then show ?thesis by (simp only: and.left_neutral)
qed

lemma program_erased_line:
  assumes "A mod 256 + length ds \<le> 256"
  shows "program_cells A ds (erase_cells A m) x =
    (if A \<le> x \<and> x < A + length ds then ds ! (x - A) else if x div 4096 = A div 4096 then 0xFF else m x)"
proof (cases "x div 256 = A div 256")
  case True
  have x: "x = A div 256 * 256 + x mod 256" using div_mult_mod_eq [of x 256] True by simp
  have A: "A = A div 256 * 256 + A mod 256" by simp
  have "x div 4096 = A div 4096" using div_mult2_eq [of x 256 16] div_mult2_eq [of A 256 16] True by simp
  moreover have "A \<le> x \<longleftrightarrow> A mod 256 \<le> x mod 256" "x < A + length ds \<longleftrightarrow> x mod 256 < A mod 256 + length ds" "x - A = x mod 256 - A mod 256"
    using x A by linarith+
  ultimately show ?thesis
    using True page_buffer_line [OF assms, of "x mod 256"] by (auto simp: program_cells_def erase_cells_def all_ones)
next
  case False
  have "\<not> (A \<le> x \<and> x < A + length ds)"
  proof
    assume "A \<le> x \<and> x < A + length ds"
    then have "256 * (A div 256) \<le> x" "x < 256 * (A div 256) + 256"
      using assms div_mult_mod_eq [of A 256] by linarith+
    then show False using False by (simp add: div_nat_eqI)
  qed
  then show ?thesis using False by (auto simp: program_cells_def erase_cells_def)
qed

text \<open>A chip that is never seen busy, behind a peripheral that is always ready.\<close>

definition demo_chip :: chip where
  "demo_chip = \<lparr>cells = (\<lambda>_. 0xAB), wel = False, busy = False, selected = False, sel = []\<rparr>"

definition demo_flash :: hw where
  "demo_flash l a =
     (if a = SPI_STAT then 3
      else if a = SPI_DATA
      then (case sel (chip_of demo_chip l) of
              x # a # b # e # ds \<Rightarrow>
                if x = 0x03 then ucast (cells (chip_of demo_chip l) ((addr24 a b e + length ds - 1) mod 2 ^ 24))
                else if x = 0x90 then (if length ds = 1 then 0xC8 else 0x15) else 0
            | _ \<Rightarrow> 0)
      else 0)"

lemma demo_flash_wires: "flash_wires demo_flash demo_chip 0xC8 0x15"
proof -
  have "demo_flash l SPI_STAT = 3" for l by (simp add: demo_flash_def)
  then have "responds demo_flash SPI_STAT (\<lambda>v. v AND BIT 1 \<noteq> 0)" "responds demo_flash SPI_STAT (\<lambda>v. v AND BIT 0 \<noteq> 0)"
    by (simp_all add: responds_def)
  moreover have "demo_flash l SPI_DATA = 0" if "length (sel (chip_of demo_chip l)) = 2" for l
    using that by (auto simp: demo_flash_def split: list.splits)
  ultimately show ?thesis
    unfolding flash_wires_def Let_def by (auto simp: demo_flash_def intro!: exI [of _ "\<lambda>_. 0"])
qed

lemma demo_flash_idle: "idle_chip (chip_of demo_chip (iolog \<lparr>iolog = []\<rparr>))" "cells (chip_of demo_chip (iolog \<lparr>iolog = []\<rparr>)) x = 0xAB"
  by (simp_all add: idle_chip_def demo_chip_def)



text \<open>
  A read returns the cells from the address on, wrapping at the end of the address space, in the
  first bytes of the buffer, keeps the rest of the buffer, and changes nothing in the chip.
\<close>

theorem flash_read_returns_cells:
  assumes "flash_wires h c m d" "idle_chip (chip_of c (iolog s))" "unat n \<le> length buffer"
  shows "wp (GD25Q32_read h buffer addr n) (\<lambda>r t. log_ext s t \<and> chip_of c (iolog t) = chip_of c (iolog s) \<and>
      r = map (\<lambda>i. cells (chip_of c (iolog s)) ((unat addr + i) mod 2 ^ 24)) [0..<unat n] @ drop (unat n) buffer) s"
  by (rule wp_flash_read [OF assms(1) at_refl]) (use assms in \<open>simp_all add: idle_chip_def at_def\<close>)

theorem flash_read_returns_cells_witness:
  "wp (GD25Q32_read demo_flash [1, 2, 3] 0x1010 2) (\<lambda>r _. r = [0xAB, 0xAB, 3]) \<lparr>iolog = []\<rparr>"
  by (rule wp_mono [OF flash_read_returns_cells [OF demo_flash_wires demo_flash_idle(1)]]) (simp_all add: demo_chip_def upt_rec)



text \<open>
  A write that crosses the end of a page goes on at the beginning of the same page: byte \<open>i\<close> of the
  buffer ends up in the cell at \<open>(addr + i) mod 256\<close> of the page that holds \<open>addr\<close>, and the cells that
  follow the page stay erased (as long as they are in the sector).
\<close>

theorem page_crossing_write_wraps:
  assumes "flash_wires h c m d" "idle_chip (chip_of c (iolog s))"
    and "0 < numbyte" "unat numbyte \<le> length buffer" "unat numbyte \<le> 256" "unat addr < 2 ^ 24"
  shows "wp (GD25Q32_write h buffer addr numbyte) (\<lambda>_ t.
      (\<forall>i < unat numbyte. cells (chip_of c (iolog t)) (unat addr div 256 * 256 + (unat addr + i) mod 256) = buffer ! i) \<and>
      (\<forall>x. x div 256 \<noteq> unat addr div 256 \<and> x div 4096 = unat addr div 4096 \<longrightarrow> cells (chip_of c (iolog t)) x = 0xFF)) s"
proof -
  let ?A = "unat addr" and ?ds = "take (unat numbyte) buffer"
  let ?m = "program_cells ?A ?ds (erase_cells ?A (cells (chip_of c (iolog s))))"
  have d: "(?A div 256 * 256 + (?A + i) mod 256) div 256 = ?A div 256" "(?A div 256 * 256 + (?A + i) mod 256) mod 256 = (?A + i) mod 256" for i
    by (simp_all add: div_add1_eq)
  have d': "(?A div 256 * 256 + (?A + i) mod 256) div 4096 = ?A div 4096" for i
    using d(1) [of i] div_mult2_eq [of "?A div 256 * 256 + (?A + i) mod 256" 256 16] div_mult2_eq [of ?A 256 16] by simp
  have "?m (?A div 256 * 256 + (?A + i) mod 256) = buffer ! i" if "i < unat numbyte" for i
    using that assms(4,5) page_buffer_nth [of ?ds i "?A mod 256" Map.empty]
    by (simp add: program_cells_def d d' erase_cells_def mod_add_left_eq all_ones)
  moreover have "?m x = 0xFF" if "x div 256 \<noteq> ?A div 256" "x div 4096 = ?A div 4096" for x
    using that by (simp add: program_cells_def erase_cells_def)
  ultimately show ?thesis
    by (intro wp_flash_write [OF assms(1) at_refl]) (use assms in \<open>auto simp: idle_chip_def at_def\<close>)
qed

theorem page_crossing_write_wraps_witness:
  "wp (GD25Q32_write demo_flash [1, 2, 3] 0x10FE 3) (\<lambda>_ t. cells (chip_of demo_chip (iolog t)) 0x1000 = 3 \<and>
     cells (chip_of demo_chip (iolog t)) 0x1100 = 0xFF) \<lparr>iolog = []\<rparr>"
proof (rule wp_mono [OF page_crossing_write_wraps [OF demo_flash_wires demo_flash_idle(1)]])
  fix t
  assume a: "(\<forall>i < unat (3 :: u16). cells (chip_of demo_chip (iolog t)) (unat (0x10FE :: u32) div 256 * 256 + (unat (0x10FE :: u32) + i) mod 256) = [1, 2, 3] ! i) \<and>
    (\<forall>x. x div 256 \<noteq> unat (0x10FE :: u32) div 256 \<and> x div 4096 = unat (0x10FE :: u32) div 4096 \<longrightarrow> cells (chip_of demo_chip (iolog t)) x = 0xFF)"
  from a have "cells (chip_of demo_chip (iolog t)) 0x1000 = 3" by (elim conjE allE [of _ 2]) simp
  moreover from a have "cells (chip_of demo_chip (iolog t)) 0x1100 = 0xFF" by (elim conjE allE [of _ 0x1100]) simp
  ultimately show "cells (chip_of demo_chip (iolog t)) 0x1000 = 3 \<and> cells (chip_of demo_chip (iolog t)) 0x1100 = 0xFF" by simp
qed simp_all

end
