(* ===== verification/Bsp_Fmc.thy ===== *)
theory Bsp_Fmc
  imports Periph
begin

text \<open>
  The internal flash: \<open>bsp_fmc.c\<close> and the functions of \<open>gd32f4xx_fmc.c\<close> it calls, the flash memory
  controller as the reference manual describes it, and what erasing, writing and reading do to the words
  of the flash. Buffers of the caller are lists of words; an index past the end is a fault.
\<close>

section \<open>The controller's functions\<close>

definition FMC_KEY :: u32 where "FMC_KEY = 0x40023C04"
definition FMC_OBKEY :: u32 where "FMC_OBKEY = 0x40023C08"
definition FMC_STAT :: u32 where "FMC_STAT = 0x40023C0C"
definition FMC_CTL :: u32 where "FMC_CTL = 0x40023C10"
definition FMC_OBCTL0 :: u32 where "FMC_OBCTL0 = 0x40023C14"
definition FMC_OBCTL1 :: u32 where "FMC_OBCTL1 = 0x40023C18"

lemmas fmc_regs = FMC_KEY_def FMC_OBKEY_def FMC_STAT_def FMC_CTL_def FMC_OBCTL0_def FMC_OBCTL1_def

definition UNLOCK_KEY0 :: u32 where "UNLOCK_KEY0 = 0x45670123"
definition UNLOCK_KEY1 :: u32 where "UNLOCK_KEY1 = 0xCDEF89AB"
definition OB_UNLOCK_KEY0 :: u32 where "OB_UNLOCK_KEY0 = 0x08192A3B"
definition OB_UNLOCK_KEY1 :: u32 where "OB_UNLOCK_KEY1 = 0x4C5D6E7F"
definition FMC_TIMEOUT_COUNT :: u32 where "FMC_TIMEOUT_COUNT = 0x4FFFFFFF"

datatype fmc_state = FMC_READY | FMC_BUSY | FMC_RDDERR | FMC_PGSERR | FMC_PGMERR | FMC_WPERR | FMC_OPERR | FMC_TOERR

definition fmc_unlock :: "hw \<Rightarrow> ('z bus_scheme, unit) cm" where
  "fmc_unlock h =
     bindM (rd32 h FMC_CTL) (\<lambda>ctl.
     whenM (ctl AND BIT 31 \<noteq> 0) (thenM (wr32 FMC_KEY UNLOCK_KEY0) (wr32 FMC_KEY UNLOCK_KEY1)))"

definition fmc_lock :: "hw \<Rightarrow> ('z bus_scheme, unit) cm" where
  "fmc_lock h = setbits h FMC_CTL (BIT 31)"

definition fmc_flag_clear :: "u32 \<Rightarrow> ('z bus_scheme, unit) cm" where
  "fmc_flag_clear fmc_flag = wr32 FMC_STAT fmc_flag"

definition fmc_state_get :: "hw \<Rightarrow> ('z bus_scheme, fmc_state) cm" where
  "fmc_state_get h =
     bindM (rd32 h FMC_STAT) (\<lambda>temp_val.
     ret (if temp_val AND BIT 16 \<noteq> 0 then FMC_BUSY
          else if temp_val AND BIT 8 \<noteq> 0 then FMC_RDDERR
          else if temp_val AND BIT 7 \<noteq> 0 then FMC_PGSERR
          else if temp_val AND BIT 6 \<noteq> 0 then FMC_PGMERR
          else if temp_val AND BIT 4 \<noteq> 0 then FMC_WPERR
          else if temp_val AND BIT 1 \<noteq> 0 then FMC_OPERR
          else FMC_READY))"

definition fmc_ready_wait :: "hw \<Rightarrow> u32 \<Rightarrow> ('z bus_scheme, fmc_state) cm" where
  "fmc_ready_wait h timeout =
     bindM (bindM (fmc_state_get h) (\<lambda>st.
        whileM (\<lambda>(fmc_state, timeout). ret (fmc_state = FMC_BUSY \<and> timeout \<noteq> 0))
          (\<lambda>(fmc_state, timeout). bindM (fmc_state_get h) (\<lambda>st. ret (st, timeout - 1)))
          (st, timeout - 1))) (\<lambda>(fmc_state, timeout).
     ret (if timeout = 0 then FMC_TOERR else fmc_state))"

definition fmc_sector_erase :: "hw \<Rightarrow> u32 \<Rightarrow> ('z bus_scheme, fmc_state) cm" where
  "fmc_sector_erase h fmc_sector =
     bindM (fmc_ready_wait h FMC_TIMEOUT_COUNT) (\<lambda>fmc_state.
     if fmc_state = FMC_READY
     then thenM (clrbits h FMC_CTL (BITS 3 7))
         (thenM (setbits h FMC_CTL (BIT 1 OR fmc_sector))
         (thenM (setbits h FMC_CTL (BIT 16))
         (bindM (fmc_ready_wait h FMC_TIMEOUT_COUNT) (\<lambda>fmc_state.
          thenM (clrbits h FMC_CTL (BIT 1)) (thenM (clrbits h FMC_CTL (BITS 3 7)) (ret fmc_state))))))
     else ret fmc_state)"

definition fmc_word_program :: "hw \<Rightarrow> u32 \<Rightarrow> u32 \<Rightarrow> ('z bus_scheme, fmc_state) cm" where
  "fmc_word_program h address data =
     bindM (fmc_ready_wait h FMC_TIMEOUT_COUNT) (\<lambda>fmc_state.
     if fmc_state = FMC_READY
     then thenM (clrbits h FMC_CTL (BITS 8 9))
         (thenM (setbits h FMC_CTL (push_bit 8 2))
         (thenM (setbits h FMC_CTL (BIT 0))
         (thenM (wr32 address data)
         (bindM (fmc_ready_wait h FMC_TIMEOUT_COUNT) (\<lambda>fmc_state.
          thenM (clrbits h FMC_CTL (BIT 0)) (ret fmc_state))))))
     else ret fmc_state)"

definition ob_unlock :: "hw \<Rightarrow> ('z bus_scheme, unit) cm" where
  "ob_unlock h =
     bindM (rd32 h FMC_OBCTL0) (\<lambda>v.
     whenM (v AND BIT 0 \<noteq> 0) (thenM (wr32 FMC_OBKEY OB_UNLOCK_KEY0) (wr32 FMC_OBKEY OB_UNLOCK_KEY1)))"

definition ob_lock :: "hw \<Rightarrow> ('z bus_scheme, unit) cm" where
  "ob_lock h = setbits h FMC_OBCTL0 (BIT 0)"

definition ob_start :: "hw \<Rightarrow> ('z bus_scheme, unit) cm" where
  "ob_start h = setbits h FMC_OBCTL0 (BIT 1)"

text \<open>The result is \<open>True\<close> for \<open>SUCCESS\<close>.\<close>

definition ob_write_protection_enable :: "hw \<Rightarrow> u32 \<Rightarrow> ('z bus_scheme, bool) cm" where
  "ob_write_protection_enable h ob_wp =
     bindM (rd32 h FMC_OBCTL0) (\<lambda>reg0.
     bindM (rd32 h FMC_OBCTL1) (\<lambda>reg1.
     bindM (rd32 h FMC_OBCTL0) (\<lambda>v.
     if v AND BIT 31 \<noteq> 0 then ret False
     else bindM (fmc_ready_wait h FMC_TIMEOUT_COUNT) (\<lambda>fmc_state.
     if fmc_state = FMC_READY
     then thenM (wr32 FMC_OBCTL0 (reg0 AND NOT (push_bit 16 ob_wp)))
         (thenM (wr32 FMC_OBCTL1 (reg1 AND NOT (ob_wp AND 0xFFFF0000)))
         (ret True))
     else ret False))))"

section \<open>The driver\<close>

definition ADDR_FMC_SECTOR :: "nat \<Rightarrow> u32" where
  "ADDR_FMC_SECTOR n = [0x08000000, 0x08004000, 0x08008000, 0x0800C000, 0x08010000, 0x08020000, 0x08040000, 0x08060000,
     0x08080000, 0x080A0000, 0x080C0000, 0x080E0000] ! n"

definition CTL_SN :: "u32 \<Rightarrow> u32" where
  "CTL_SN regval = BITS 3 7 AND push_bit 3 regval"

definition fmc_sector_get :: "u32 \<Rightarrow> u32" where
  "fmc_sector_get address =
     (if address < 0x08004000 \<and> address \<ge> 0x08000000 then CTL_SN 0
      else if address < 0x08008000 \<and> address \<ge> 0x08004000 then CTL_SN 1
      else if address < 0x0800C000 \<and> address \<ge> 0x08008000 then CTL_SN 2
      else if address < 0x08010000 \<and> address \<ge> 0x0800C000 then CTL_SN 3
      else if address < 0x08020000 \<and> address \<ge> 0x08010000 then CTL_SN 4
      else if address < 0x08040000 \<and> address \<ge> 0x08020000 then CTL_SN 5
      else if address < 0x08060000 \<and> address \<ge> 0x08040000 then CTL_SN 6
      else if address < 0x08080000 \<and> address \<ge> 0x08060000 then CTL_SN 7
      else if address < 0x080A0000 \<and> address \<ge> 0x08080000 then CTL_SN 8
      else if address < 0x080C0000 \<and> address \<ge> 0x080A0000 then CTL_SN 9
      else if address < 0x080E0000 \<and> address \<ge> 0x080C0000 then CTL_SN 10
      else CTL_SN 11)"

definition FMC_FLAGS_ALL :: u32 where
  "FMC_FLAGS_ALL = BIT 0 OR BIT 1 OR BIT 4 OR BIT 6 OR BIT 7"

definition fmc_erase_sector :: "hw \<Rightarrow> u32 \<Rightarrow> ('z bus_scheme, unit) cm" where
  "fmc_erase_sector h fmc_sector =
     thenM (fmc_unlock h)
    (thenM (fmc_flag_clear FMC_FLAGS_ALL)
    (bindM (fmc_sector_erase h fmc_sector) (\<lambda>st.
     if st \<noteq> FMC_READY then hang
     else fmc_lock h)))"

definition erase_sectors :: "hw \<Rightarrow> u16 \<Rightarrow> u16 \<Rightarrow> ('z bus_scheme, unit) cm" where
  "erase_sectors h StartSector EndSector =
     bindM (whileM (\<lambda>i. ret (i \<le> EndSector))
              (\<lambda>i. bindM (fmc_sector_erase h (ucast i)) (\<lambda>st.
                   if st \<noteq> FMC_READY then hang else ret (i + 8)))
              StartSector) (\<lambda>_. ret ())"

definition program_words :: "hw \<Rightarrow> u32 \<Rightarrow> u16 \<Rightarrow> u32 list \<Rightarrow> ('z bus_scheme, unit) cm" where
  "program_words h address len data_32 =
     bindM (whileM (\<lambda>(i, address). ret (i < len))
              (\<lambda>(i, address).
               bindM (load_elem data_32 (unat i)) (\<lambda>w.
               bindM (fmc_word_program h address w) (\<lambda>st.
               if st = FMC_READY then ret (i + 1, address + 4) else hang)))
              (0 :: u16, address)) (\<lambda>_. ret ())"

definition fmc_write_32bit_data :: "hw \<Rightarrow> u32 \<Rightarrow> u16 \<Rightarrow> u32 list \<Rightarrow> ('z bus_scheme, unit) cm" where
  "fmc_write_32bit_data h address len data_32 =
     (let StartSector = ucast (fmc_sector_get address);
          EndSector = ucast (fmc_sector_get (address + 4 * ucast len))
      in seqM [fmc_unlock h,
               fmc_flag_clear FMC_FLAGS_ALL,
               erase_sectors h StartSector EndSector,
               program_words h address len data_32,
               fmc_lock h])"

text \<open>The counter is a \<open>uint8_t\<close>, the length a \<open>uint16_t\<close>.\<close>

definition fmc_read_32bit_data :: "hw \<Rightarrow> u32 \<Rightarrow> u16 \<Rightarrow> u32 list \<Rightarrow> ('z bus_scheme, u32 list) cm" where
  "fmc_read_32bit_data h address len data_32 =
     bindM (whileM (\<lambda>(i :: u8, address, data_32). ret (ucast i < len))
              (\<lambda>(i, address, data_32).
               bindM (rd32 h address) (\<lambda>w.
               bindM (store_elem data_32 (unat i) w) (\<lambda>data_32.
               ret (i + 1, address + 4, data_32))))
              (0, address, data_32)) (\<lambda>(_, _, data_32). ret data_32)"

text \<open>
  \<open>test_fmc\<close>, compiled with \<open>WRITE_PROTECTION_ENABLE\<close>; the result is what it prints (the ten words before
  erasing, after erasing and after writing) and the final contents of \<open>data_32_2\<close>.
\<close>

definition data_32_1 :: "u32 list" where
  "data_32_1 = [- 1, - 2, - 3, - 4, - 5, - 6, - 7, - 8, - 9, - 10]"

definition test_fmc :: "hw \<Rightarrow> u32 list \<Rightarrow> ('z bus_scheme, u32 list list \<times> u32 list) cm" where
  "test_fmc h data_32_2 =
     bindM (fmc_read_32bit_data h (ADDR_FMC_SECTOR 4) 10 data_32_2) (\<lambda>d1.
     thenM (seqM [fmc_unlock h, ob_unlock h, bindM (ob_write_protection_enable h 2) (\<lambda>_. ret ()), ob_start h, ob_lock h, fmc_lock h,
                  fmc_erase_sector h (CTL_SN 4)])
    (bindM (fmc_read_32bit_data h (ADDR_FMC_SECTOR 4) 10 d1) (\<lambda>d2.
     thenM (fmc_write_32bit_data h (ADDR_FMC_SECTOR 4) 10 data_32_1)
    (bindM (fmc_read_32bit_data h (ADDR_FMC_SECTOR 4) 10 d2) (\<lambda>d3.
     ret ([d1, d2, d3], d3))))))"

section \<open>The flash\<close>

text \<open>
  The sector of an address (12 sectors: four of 16 KB, one of 64 KB, seven of 128 KB), and the state of
  the controller: its control register, how much of the key was written, the words, how often the status
  will still read busy, the number of operations so far, and how long each operation takes. An erase or a
  program keeps the controller busy; until then it ignores what is written to it.
\<close>

definition sector_of :: "u32 \<Rightarrow> nat" where
  "sector_of a = (let off = unat a - 0x08000000 in
     if off < 0x10000 then off div 0x4000 else if off < 0x20000 then 4 else 4 + off div 0x20000)"

record flash_ctl =
  ctl :: u32
  key_seen :: bool
  words :: "u32 \<Rightarrow> u32"
  busy :: nat
  ops :: nat
  lag :: "nat \<Rightarrow> nat"

definition in_flash :: "u32 \<Rightarrow> bool" where
  "in_flash a \<longleftrightarrow> 0x08000000 \<le> a \<and> a < 0x08100000"

definition start_op :: "flash_ctl \<Rightarrow> flash_ctl" where
  "start_op f = f\<lparr>busy := lag f (ops f), ops := Suc (ops f)\<rparr>"

definition ctl_write :: "u32 \<Rightarrow> flash_ctl \<Rightarrow> flash_ctl" where
  "ctl_write v f =
     (if bit (ctl f) 31 then f
      else if bit v 16 \<and> bit v 1
      then start_op (f\<lparr>ctl := v AND NOT (BIT 16),
             words := (\<lambda>a. if in_flash a \<and> sector_of a = unat (drop_bit 3 v AND 0x1F) then 0xFFFFFFFF else words f a)\<rparr>)
      else f\<lparr>ctl := v\<rparr>)"

definition flash_step :: "io \<Rightarrow> flash_ctl \<Rightarrow> flash_ctl" where
  "flash_step e f = (case e of
       Wr a v \<Rightarrow>
         if busy f \<noteq> 0 then f
         else if a = FMC_KEY
         then (if v = UNLOCK_KEY1 \<and> key_seen f then f\<lparr>ctl := ctl f AND NOT (BIT 31), key_seen := False\<rparr>
               else f\<lparr>key_seen := (v = UNLOCK_KEY0)\<rparr>)
         else if a = FMC_CTL then ctl_write v f
         else if in_flash a \<and> a mod 4 = 0 \<and> \<not> bit (ctl f) 31 \<and> bit (ctl f) 0 \<and> ctl f AND BITS 8 9 = push_bit 8 2
         then start_op (f\<lparr>words := (words f)(a := words f a AND v)\<rparr>)
         else f
     | Rd a v \<Rightarrow> if a = FMC_STAT then f\<lparr>busy := busy f - 1\<rparr> else f
     | Idle \<Rightarrow> f)"

primrec flash_of :: "flash_ctl \<Rightarrow> io_log \<Rightarrow> flash_ctl" where
  "flash_of f [] = f"
| "flash_of f (e # l) = flash_step e (flash_of f l)"

text \<open>
  What the bus shows: the control register, a status without errors whose busy bit says whether an
  operation is under way, and, while none is, the words.
\<close>

definition flash_bus :: "hw \<Rightarrow> flash_ctl \<Rightarrow> bool" where
  "flash_bus h f \<longleftrightarrow>
     (\<forall>l. h l FMC_CTL = ctl (flash_of f l)) \<and>
     (\<forall>l a. in_flash a \<longrightarrow> busy (flash_of f l) = 0 \<longrightarrow> h l a = words (flash_of f l) a) \<and>
     (\<forall>l. \<forall>n \<in> {1, 4, 6, 7, 8}. \<not> bit (h l FMC_STAT) n) \<and>
     (\<forall>l. bit (h l FMC_STAT) 16 \<longleftrightarrow> busy (flash_of f l) \<noteq> 0)"

text \<open>No operation takes a million looks at the status or more; the driver gives up after 0x4FFFFFFF.\<close>

definition prompt :: "flash_ctl \<Rightarrow> bool" where
  "prompt f \<longleftrightarrow> (\<forall>i. lag f i < 1000000)"

section \<open>Sectors\<close>

lemma CTL_SN_eq: "n < 32 \<Longrightarrow> CTL_SN (of_nat n) = push_bit 3 (of_nat n)"
proof -
  assume "n < 32"
  then have x: "(of_nat n :: u32) = take_bit 5 (of_nat n)"
    by (simp add: word_unat_eq_iff unsigned_take_bit_eq unsigned_of_nat take_bit_nat_eq_self)
  have "BITS 3 7 = push_bit 3 (mask 5)" by (simp add: BITS_def drop_bit_eq_div mask_eq_exp_minus_1)
  then show ?thesis
    unfolding CTL_SN_def by (subst (1 2) x) (auto simp: bit_simps intro!: bit_word_eqI)
qed

lemma sector_of_steps:
  assumes "in_flash a"
  shows "sector_of a = (if a < 0x08004000 then 0 else if a < 0x08008000 then 1 else if a < 0x0800C000 then 2
    else if a < 0x08010000 then 3 else if a < 0x08020000 then 4 else if a < 0x08040000 then 5 else if a < 0x08060000 then 6
    else if a < 0x08080000 then 7 else if a < 0x080A0000 then 8 else if a < 0x080C0000 then 9 else if a < 0x080E0000 then 10 else 11)"
proof -
  obtain off where off: "unat a = 0x08000000 + off" "off < 0x100000"
    using assms by (auto simp: in_flash_def word_less_nat_alt word_le_nat_alt dest!: le_Suc_ex)
  have lt: "off div 0x4000 = k" if "k * 0x4000 \<le> off" "off < (k + 1) * 0x4000" for k
    using that by (intro div_nat_eqI) auto
  have lt': "off div 0x20000 = k" if "k * 0x20000 \<le> off" "off < (k + 1) * 0x20000" for k
    using that by (intro div_nat_eqI) auto
  show ?thesis
    using off lt [of 0] lt [of 1] lt [of 2] lt [of 3] lt' [of 1] lt' [of 2] lt' [of 3] lt' [of 4] lt' [of 5] lt' [of 6] lt' [of 7]
    by (simp add: sector_of_def word_less_nat_alt Let_def)
qed

lemma sector_bounds: "in_flash a \<Longrightarrow> sector_of a < 12"
  by (simp add: sector_of_steps)

lemma sector_mono:
  assumes "a \<le> b"
  shows "sector_of a \<le> sector_of b"
proof -
  let ?x = "unat a - 0x08000000" and ?y = "unat b - 0x08000000"
  have xy: "?x \<le> ?y" using assms by (simp add: word_le_nat_alt diff_le_mono)
  have "?x < 0x10000 \<Longrightarrow> ?x div 0x4000 < 4" by (rule less_mult_imp_div_less) simp
  moreover have "?x div 0x4000 \<le> ?y div 0x4000" "?x div 0x20000 \<le> ?y div 0x20000" using xy by (simp_all add: div_le_mono)
  ultimately show ?thesis using xy by (auto simp: sector_of_def Let_def)
qed

lemma range_step:
  fixes a lo hi x v :: u32
  assumes "lo \<le> a" "v = push_bit 3 (of_nat w)" "hi \<le> a \<Longrightarrow> x = push_bit 3 (of_nat y)"
  shows "(if a < hi \<and> a \<ge> lo then v else x) = push_bit 3 (of_nat (if a < hi then w else y))"
  using assms by (cases "a < hi") (simp_all add: not_less)

lemma fmc_sector_get_eq:
  assumes "in_flash a"
  shows "fmc_sector_get a = push_bit 3 (of_nat (sector_of a))"
proof -
  have sn: "CTL_SN 0 = push_bit 3 0" "CTL_SN 1 = push_bit 3 1" "CTL_SN 2 = push_bit 3 2" "CTL_SN 3 = push_bit 3 3"
    "CTL_SN 4 = push_bit 3 4" "CTL_SN 5 = push_bit 3 5" "CTL_SN 6 = push_bit 3 6" "CTL_SN 7 = push_bit 3 7"
    "CTL_SN 8 = push_bit 3 8" "CTL_SN 9 = push_bit 3 9" "CTL_SN 10 = push_bit 3 10" "CTL_SN 11 = push_bit 3 11"
    by (simp_all add: CTL_SN_def BITS_def drop_bit_eq_div)
  have lo: "0x08000000 \<le> a" "a < 0x08100000" using assms by (simp_all add: in_flash_def)
  show ?thesis
    unfolding fmc_sector_get_def sector_of_steps [OF assms]
    by (rule range_step [OF lo(1)], simp add: sn, (rule range_step, assumption, simp add: sn)+) (simp add: sn)
qed

section \<open>Steps of the controller\<close>

definition fl :: "flash_ctl \<Rightarrow> 'z bus_scheme \<Rightarrow> flash_ctl \<Rightarrow> 'z bus_scheme \<Rightarrow> bool" where
  "fl f s k t \<longleftrightarrow> log_ext s t \<and> flash_of f (iolog t) = k"

lemma fl_refl: "fl f s (flash_of f (iolog s)) s"
  by (simp add: fl_def)

lemma fl_Cons: "fl f s k t \<Longrightarrow> fl f s (flash_step e k) (t\<lparr>iolog := e # iolog t\<rparr>)"
  by (auto simp: fl_def intro: log_ext_trans log_ext_Cons)

lemma fl_Rd: "fl f s k t \<Longrightarrow> a \<noteq> FMC_STAT \<Longrightarrow> fl f s k (t\<lparr>iolog := Rd a v # iolog t\<rparr>)"
  using fl_Cons [of f s k t "Rd a v"] by (simp add: flash_step_def)

lemma fl_look: "fl f s (k\<lparr>busy := n\<rparr>) t \<Longrightarrow> fl f s (k\<lparr>busy := n - 1\<rparr>) (t\<lparr>iolog := Rd FMC_STAT v # iolog t\<rparr>)"
  using fl_Cons [of f s "k\<lparr>busy := n\<rparr>" t "Rd FMC_STAT v"] by (simp add: flash_step_def)

lemma not_busy: "busy k = 0 \<Longrightarrow> k\<lparr>busy := 0\<rparr> = k"
  by simp

lemma fmc_neq [simp]: "FMC_CTL \<noteq> FMC_KEY" "FMC_STAT \<noteq> FMC_KEY" "FMC_STAT \<noteq> FMC_CTL" "\<not> in_flash FMC_STAT"
  "in_flash a \<Longrightarrow> a \<noteq> FMC_KEY" "in_flash a \<Longrightarrow> a \<noteq> FMC_CTL"
  "in_flash a \<Longrightarrow> a \<noteq> FMC_STAT" "FMC_CTL \<noteq> FMC_STAT"
  by (auto simp: fmc_regs in_flash_def)

lemma wp_ctl:
  assumes h: "flash_bus h f" and t: "fl f s k t" and k: "busy k = 0"
    and Q: "\<And>u. fl f s (ctl_write (g (ctl k)) k) u \<Longrightarrow> Q () u"
  shows "wp (mod32 h FMC_CTL g) Q t"
proof -
  have c: "h (iolog t) FMC_CTL = ctl k" using h t by (simp add: flash_bus_def fl_def)
  have "fl f s (flash_step (Wr FMC_CTL (g (ctl k))) k) (t\<lparr>iolog := Wr FMC_CTL (g (ctl k)) # Rd FMC_CTL (ctl k) # iolog t\<rparr>)"
    using fl_Cons [OF fl_Rd [OF t, of FMC_CTL "ctl k"], of "Wr FMC_CTL (g (ctl k))"] by simp
  then show ?thesis by (auto simp: wp_simps c flash_step_def k intro!: Q)
qed

lemma wp_ctl_to:
  assumes "flash_bus h f" "fl f s k t" "busy k = 0" "ctl k = c" "ctl_write (g c) k = k'" "\<And>u. fl f s k' u \<Longrightarrow> Q () u"
  shows "wp (mod32 h FMC_CTL g) Q t"
  using assms by (intro wp_ctl) auto

lemma ctl_sel: "ctl (k\<lparr>ctl := x\<rparr>) = x" "ctl (k\<lparr>ctl := x, words := w\<rparr>) = x"
  by simp_all

lemma wp_state_get:
  assumes h: "flash_bus h f"
  shows "wp (fmc_state_get h) Q t = Q (if bit (h (iolog t) FMC_STAT) 16 then FMC_BUSY else FMC_READY)
    (t\<lparr>iolog := Rd FMC_STAT (h (iolog t) FMC_STAT) # iolog t\<rparr>)"
proof -
  have "\<not> bit (h (iolog t) FMC_STAT) 1" "\<not> bit (h (iolog t) FMC_STAT) 4" "\<not> bit (h (iolog t) FMC_STAT) 6"
    "\<not> bit (h (iolog t) FMC_STAT) 7" "\<not> bit (h (iolog t) FMC_STAT) 8"
    using h by (simp_all add: flash_bus_def)
  then show ?thesis
    by (simp only: fmc_state_get_def wp_simps and_BIT_eq_0_iff) simp
qed

lemma wp_ready_wait:
  assumes h: "flash_bus h f" and t: "fl f s k t" and k: "busy k < 1000000" and Q: "\<And>u. fl f s (k\<lparr>busy := 0\<rparr>) u \<Longrightarrow> Q FMC_READY u"
  shows "wp (fmc_ready_wait h FMC_TIMEOUT_COUNT) Q t"
proof -
  let ?I = "\<lambda>(st, tm :: u32) u. \<exists>n. fl f s (k\<lparr>busy := n\<rparr>) u \<and> (st = FMC_READY \<and> n = 0 \<and> 0 < unat tm \<or> st = FMC_BUSY \<and> n + 1 < unat tm)"
  let ?M = "\<lambda>(st, tm :: u32) u. unat tm"
  have st: "bit (h (iolog u) FMC_STAT) 16 \<longleftrightarrow> n \<noteq> 0" if "fl f s (k\<lparr>busy := n\<rparr>) u" for u n
    using h that by (simp add: flash_bus_def fl_def)
  have dec: "unat (tm - 1) = unat tm - 1" if "0 < unat tm" for tm :: u32
    using that by (cases "tm = 0") (simp_all add: unat_minus_one)
  have "wp (whileM (\<lambda>(fmc_state, timeout). ret (fmc_state = FMC_BUSY \<and> timeout \<noteq> 0))
          (\<lambda>(fmc_state, timeout). bindM (fmc_state_get h) (\<lambda>st. ret (st, timeout - 1))) v)
        (\<lambda>(st, tm) u. st = FMC_READY \<and> tm \<noteq> 0 \<and> fl f s (k\<lparr>busy := 0\<rparr>) u) u" if "?I v u" for v u
  proof (rule wp_whileM [where I = ?I and M = ?M], goal_cases)
    case (2 v u)
    obtain st' tm where v: "v = (st', tm)" by (cases v)
    obtain n where n: "fl f s (k\<lparr>busy := n\<rparr>) u" "st' = FMC_READY \<and> n = 0 \<and> 0 < unat tm \<or> st' = FMC_BUSY \<and> n + 1 < unat tm"
      using 2 unfolding v by auto
    have "?I (if n \<noteq> 0 then FMC_BUSY else FMC_READY, tm - 1) (u\<lparr>iolog := Rd FMC_STAT (h (iolog u) FMC_STAT) # iolog u\<rparr>)"
      if "st' = FMC_BUSY"
      using fl_look [OF n(1)] n(2) that dec [of tm] by (auto intro!: exI [of _ "n - 1"])
    with n dec [of tm] show ?case
      unfolding v by (auto simp: wp_simps wp_state_get [OF h] st [OF n(1)] unat_gt_0)
  qed (rule that)
  note loop = this
  have t': "fl f s (k\<lparr>busy := busy k\<rparr>) t" using t by simp
  have "?I (if busy k \<noteq> 0 then FMC_BUSY else FMC_READY, FMC_TIMEOUT_COUNT - 1)
      (t\<lparr>iolog := Rd FMC_STAT (h (iolog t) FMC_STAT) # iolog t\<rparr>)"
    using fl_look [OF t'] k by (auto simp: FMC_TIMEOUT_COUNT_def intro!: exI [of _ "busy k - 1"])
  from loop [OF this] show ?thesis
    unfolding fmc_ready_wait_def wp_bindM wp_state_get [OF h] st [OF t']
    by (rule wp_mono) (auto simp: wp_ret intro: Q)
qed

section \<open>Erasing and programming\<close>

text \<open>Unlocked, and no command bit set.\<close>

definition ready_ctl :: "u32 \<Rightarrow> bool" where
  "ready_ctl c \<longleftrightarrow> \<not> bit c 31 \<and> \<not> bit c 16 \<and> \<not> bit c 1 \<and> \<not> bit c 0"

definition erase_words :: "nat \<Rightarrow> (u32 \<Rightarrow> u32) \<Rightarrow> u32 \<Rightarrow> u32" where
  "erase_words n m = (\<lambda>a. if in_flash a \<and> sector_of a = n then 0xFFFFFFFF else m a)"

lemma ctl_masks: "BITS 3 7 = push_bit 3 (mask 5)" "BITS 8 9 = push_bit 8 (mask 2)" "(0x1F :: u32) = mask 5" "push_bit 8 (2 :: u32) = BIT 9"
  by (simp_all add: BITS_def drop_bit_eq_div mask_eq_exp_minus_1)

lemma small_bits: "n < 12 \<Longrightarrow> bit n i \<Longrightarrow> i < 5" for n :: nat
proof -
  assume "n < 12"
  then have "n = take_bit 5 n" by (simp add: take_bit_nat_eq_self)
  then show "bit n i \<Longrightarrow> i < 5" by (metis bit_take_bit_iff)
qed

lemma erase_bits:
  assumes c: "ready_ctl c" and n: "n < 12"
  defines "c1 \<equiv> c AND NOT (BITS 3 7)"
  defines "c2 \<equiv> c1 OR (BIT 1 OR push_bit 3 (of_nat n))"
  shows "ready_ctl c1" "\<not> bit c2 31" "\<not> bit c2 16" "bit (c2 OR BIT 16) 16" "bit (c2 OR BIT 16) 1"
    "unat (drop_bit 3 (c2 OR BIT 16) AND 0x1F) = n"
    "(c2 OR BIT 16) AND NOT (BIT 16) = c2" "c2 AND NOT (BIT 1) = c1 OR push_bit 3 (of_nat n)"
    "(c1 OR push_bit 3 (of_nat n)) AND NOT (BITS 3 7) = c1" "\<not> bit (c1 OR push_bit 3 (of_nat n)) 31"
    "\<not> bit (c1 OR push_bit 3 (of_nat n)) 16"
proof -
  note b = small_bits [OF n]
  have "drop_bit 3 (c2 OR BIT 16) AND 0x1F = of_nat n"
    unfolding c1_def c2_def ctl_masks by (rule bit_word_eqI) (auto simp: bit_simps bit_1_iff simp del: push_bit_of_1 push_bit_numeral dest: b)
  then show "unat (drop_bit 3 (c2 OR BIT 16) AND 0x1F) = n"
    using n by (simp add: unsigned_of_nat take_bit_nat_eq_self)
qed (use c in \<open>unfold c1_def c2_def ctl_masks ready_ctl_def; auto simp: bit_simps bit_1_iff simp del: push_bit_of_1 push_bit_numeral intro!: bit_word_eqI dest: small_bits [OF n]\<close>)+

lemma ctl_write_plain: "\<not> bit (ctl k) 31 \<Longrightarrow> \<not> bit v 16 \<Longrightarrow> ctl_write v k = k\<lparr>ctl := v\<rparr>"
  by (simp add: ctl_write_def)

lemma ctl_write_at:
  "\<not> bit x 31 \<Longrightarrow> \<not> bit v 16 \<Longrightarrow> ctl_write v (k\<lparr>ctl := x\<rparr>) = k\<lparr>ctl := v\<rparr>"
  "\<not> bit x 31 \<Longrightarrow> \<not> bit v 16 \<Longrightarrow> ctl_write v (k\<lparr>ctl := x, words := w\<rparr>) = k\<lparr>ctl := v, words := w\<rparr>"
  "\<not> bit x 31 \<Longrightarrow> bit v 16 \<Longrightarrow> bit v 1 \<Longrightarrow> unat (drop_bit 3 v AND 0x1F) = n \<Longrightarrow> v AND NOT (BIT 16) = y \<Longrightarrow>
     ctl_write v (k\<lparr>ctl := x\<rparr>) = start_op (k\<lparr>ctl := y, words := erase_words n (words k)\<rparr>)"
  by (cases k, simp only: ctl_write_def erase_words_def flash_ctl.simps if_True if_False simp_thms)+

lemma started:
  assumes "busy k = 0"
  shows "(start_op (k\<lparr>ctl := c, words := w\<rparr>))\<lparr>busy := 0\<rparr> = k\<lparr>ops := Suc (ops k), ctl := c, words := w\<rparr>"
    "prompt k \<Longrightarrow> busy (start_op (k\<lparr>ctl := c, words := w\<rparr>)) < 1000000"
  using assms by (simp_all add: start_op_def prompt_def)

lemma busy_sel: "busy (k\<lparr>ctl := c\<rparr>) = busy k" "busy (k\<lparr>ops := n, ctl := c, words := w\<rparr>) = busy k"
  by simp_all

lemma wp_sector_erase:
  assumes h: "flash_bus h f" and t: "fl f s k t" and c: "ready_ctl (ctl k)" and n: "n < 12" and b: "busy k = 0" "prompt k"
    and Q: "\<And>u. fl f s (k\<lparr>ops := Suc (ops k), ctl := ctl k AND NOT (BITS 3 7), words := erase_words n (words k)\<rparr>) u \<Longrightarrow> Q FMC_READY u"
  shows "wp (fmc_sector_erase h (push_bit 3 (of_nat n))) Q t"
proof -
  note e = erase_bits [OF c n]
  let ?k = "k\<lparr>ops := Suc (ops k)\<rparr>"
  let ?c1 = "ctl k AND NOT (BITS 3 7)"
  let ?c2 = "?c1 OR (BIT 1 OR push_bit 3 (of_nat n))"
  let ?c4 = "?c1 OR push_bit 3 (of_nat n)"
  let ?w = "erase_words n (words k)"
  have c': "\<not> bit (ctl k) 31" "\<not> bit ?c1 31" "\<not> bit ?c1 16" using c e(1) unfolding ready_ctl_def by blast+
  have s1: "ctl_write ?c1 k = k\<lparr>ctl := ?c1\<rparr>" using c' by (intro ctl_write_plain)
  have s2: "ctl_write ?c2 (k\<lparr>ctl := ?c1\<rparr>) = k\<lparr>ctl := ?c2\<rparr>" by (rule ctl_write_at(1) [OF c'(2) e(3)])
  have s3: "ctl_write (?c2 OR BIT 16) (k\<lparr>ctl := ?c2\<rparr>) = start_op (k\<lparr>ctl := ?c2, words := ?w\<rparr>)"
    by (rule ctl_write_at(3) [OF e(2,4-7)])
  have s4: "ctl_write (?c2 AND NOT (BIT 1)) (?k\<lparr>ctl := ?c2, words := ?w\<rparr>) = ?k\<lparr>ctl := ?c4, words := ?w\<rparr>"
    unfolding e(8) by (rule ctl_write_at(2) [OF e(2,11)])
  have s5: "ctl_write (?c4 AND NOT (BITS 3 7)) (?k\<lparr>ctl := ?c4, words := ?w\<rparr>) = ?k\<lparr>ctl := ?c1, words := ?w\<rparr>"
    unfolding e(9) by (rule ctl_write_at(2) [OF e(10) c'(3)])
  have b': "busy k < 1000000" using b by simp
  show ?thesis
    unfolding fmc_sector_erase_def bits_defs wp_bindM
    apply (rule wp_ready_wait [OF h t b'])
    apply (simp only: refl if_True wp_thenM wp_bindM not_busy [OF b(1)])
    apply (rule wp_ctl_to [OF h], assumption, rule b(1), rule refl, rule s1)
    apply (rule wp_ctl_to [OF h], assumption, rule trans [OF busy_sel(1) b(1)], rule ctl_sel(1), rule s2)
    apply (rule wp_ctl_to [OF h], assumption, rule trans [OF busy_sel(1) b(1)], rule ctl_sel(1), rule s3)
    apply (rule wp_ready_wait [OF h], assumption, rule started(2) [OF b])
    apply (simp only: started(1) [OF b(1)])
    apply (rule wp_ctl_to [OF h], assumption, rule trans [OF busy_sel(2) b(1)], rule ctl_sel(2), rule s4)
    apply (rule wp_ctl_to [OF h], assumption, rule trans [OF busy_sel(2) b(1)], rule ctl_sel(2), rule s5)
    apply (simp only: wp_ret)
    apply (rule Q, assumption)
    done
qed

lemma program_bits:
  assumes c: "ready_ctl c"
  defines "c1 \<equiv> c AND NOT (BITS 8 9)"
  shows "\<not> bit c1 31" "\<not> bit c1 16" "\<not> bit (c1 OR push_bit 8 2) 31" "\<not> bit (c1 OR push_bit 8 2) 16" "ready_ctl (c1 OR push_bit 8 2)"
    "\<not> bit (c1 OR push_bit 8 2 OR BIT 0) 31" "\<not> bit (c1 OR push_bit 8 2 OR BIT 0) 16" "bit (c1 OR push_bit 8 2 OR BIT 0) 0"
    "(c1 OR push_bit 8 2 OR BIT 0) AND BITS 8 9 = push_bit 8 2" "(c1 OR push_bit 8 2 OR BIT 0) AND NOT (BIT 0) = c1 OR push_bit 8 2"
proof -
  have b: "bit (c1 OR BIT 9) n \<longleftrightarrow> (bit c n \<and> n \<noteq> 8) \<or> n = 9" if "n < 32" for n
    using that unfolding c1_def ctl_masks by (auto simp: bit_simps bit_1_iff simp del: push_bit_of_1 push_bit_numeral)
  have b1: "bit c1 n \<longleftrightarrow> bit c n \<and> n \<noteq> 8 \<and> n \<noteq> 9" if "n < 32" for n
    using that unfolding c1_def ctl_masks by (auto simp: bit_simps simp del: push_bit_of_1 push_bit_numeral)
  have b3: "bit (c1 OR BIT 9 OR BIT 0) n \<longleftrightarrow> (bit c n \<and> n \<noteq> 8) \<or> n = 9 \<or> n = 0" if "n < 32" for n
    using that b1 [OF that] by (auto simp: bit_simps bit_1_iff simp del: push_bit_of_1 push_bit_numeral)
  show "\<not> bit c1 31" "\<not> bit c1 16" "\<not> bit (c1 OR push_bit 8 2) 31" "\<not> bit (c1 OR push_bit 8 2) 16" "ready_ctl (c1 OR push_bit 8 2)"
    "\<not> bit (c1 OR push_bit 8 2 OR BIT 0) 31" "\<not> bit (c1 OR push_bit 8 2 OR BIT 0) 16" "bit (c1 OR push_bit 8 2 OR BIT 0) 0"
    using c unfolding ctl_masks ready_ctl_def by (simp_all only: b b1 b3) simp_all
  show "(c1 OR push_bit 8 2 OR BIT 0) AND BITS 8 9 = push_bit 8 2"
    unfolding ctl_masks by (rule bit_word_eqI) (auto simp: b3 bit_and_iff bit_push_bit_iff bit_mask_iff bit_1_iff simp del: push_bit_of_1 push_bit_numeral push_bit_0_id)
  show "(c1 OR push_bit 8 2 OR BIT 0) AND NOT (BIT 0) = c1 OR push_bit 8 2"
    unfolding ctl_masks using c by (intro bit_word_eqI) (auto simp: ready_ctl_def b b3 bit_and_iff bit_not_iff bit_push_bit_iff bit_1_iff simp del: push_bit_of_1 push_bit_numeral push_bit_0_id intro: gr0I)
qed

definition word_ctl :: "u32 \<Rightarrow> u32" where
  "word_ctl c = c AND NOT (BITS 8 9) OR push_bit 8 2"

lemma flash_step_word:
  "in_flash a \<Longrightarrow> a mod 4 = 0 \<Longrightarrow> busy k = 0 \<Longrightarrow> \<not> bit x 31 \<Longrightarrow> bit x 0 \<Longrightarrow> x AND BITS 8 9 = push_bit 8 2 \<Longrightarrow>
     flash_step (Wr a v) (k\<lparr>ctl := x\<rparr>) = start_op (k\<lparr>ctl := x, words := (words k)(a := words k a AND v)\<rparr>)"
  by (simp add: flash_step_def)

lemma wp_word_program:
  assumes h: "flash_bus h f" and t: "fl f s k t" and c: "ready_ctl (ctl k)" and a: "in_flash a" "a mod 4 = 0"
    and b: "busy k = 0" "prompt k"
    and Q: "\<And>u. fl f s (k\<lparr>ops := Suc (ops k), ctl := word_ctl (ctl k), words := (words k)(a := words k a AND v)\<rparr>) u \<Longrightarrow> Q FMC_READY u"
  shows "wp (fmc_word_program h a v) Q t"
proof -
  note e = program_bits [OF c]
  let ?k = "k\<lparr>ops := Suc (ops k)\<rparr>"
  let ?c1 = "ctl k AND NOT (BITS 8 9)"
  let ?c3 = "?c1 OR push_bit 8 2 OR BIT 0"
  let ?w = "(words k)(a := words k a AND v)"
  have c': "\<not> bit (ctl k) 31" using c unfolding ready_ctl_def by blast
  have s1: "ctl_write ?c1 k = k\<lparr>ctl := ?c1\<rparr>" using c' e(2) by (intro ctl_write_plain)
  have s2: "ctl_write (?c1 OR push_bit 8 2) (k\<lparr>ctl := ?c1\<rparr>) = k\<lparr>ctl := ?c1 OR push_bit 8 2\<rparr>"
    by (rule ctl_write_at(1) [OF e(1,4)])
  have s3: "ctl_write ((?c1 OR push_bit 8 2) OR BIT 0) (k\<lparr>ctl := ?c1 OR push_bit 8 2\<rparr>) = k\<lparr>ctl := ?c3\<rparr>"
    unfolding or.assoc by (rule ctl_write_at(1) [OF e(3,7)])
  have s4: "flash_step (Wr a v) (k\<lparr>ctl := ?c3\<rparr>) = start_op (k\<lparr>ctl := ?c3, words := ?w\<rparr>)"
    by (rule flash_step_word [OF a b(1) e(6,8,9)])
  have s5: "ctl_write (?c3 AND NOT (BIT 0)) (?k\<lparr>ctl := ?c3, words := ?w\<rparr>) = ?k\<lparr>ctl := ?c1 OR push_bit 8 2, words := ?w\<rparr>"
    unfolding e(10) by (rule ctl_write_at(2) [OF e(6,4)])
  have wr: "wp (wr32 a v) Q' u" if "fl f s (k\<lparr>ctl := ?c3\<rparr>) u" "\<And>u. fl f s (start_op (k\<lparr>ctl := ?c3, words := ?w\<rparr>)) u \<Longrightarrow> Q' () u" for Q' u
    using fl_Cons [OF that(1), of "Wr a v"] that(2) unfolding s4 by (simp add: wp_simps)
  have b': "busy k < 1000000" using b by simp
  show ?thesis
    unfolding fmc_word_program_def bits_defs wp_bindM
    apply (rule wp_ready_wait [OF h t b'])
    apply (simp only: refl if_True wp_thenM wp_bindM not_busy [OF b(1)])
    apply (rule wp_ctl_to [OF h], assumption, rule b(1), rule refl, rule s1)
    apply (rule wp_ctl_to [OF h], assumption, rule trans [OF busy_sel(1) b(1)], rule ctl_sel(1), rule s2)
    apply (rule wp_ctl_to [OF h], assumption, rule trans [OF busy_sel(1) b(1)], rule ctl_sel(1), rule s3)
    apply (rule wr, assumption)
    apply (rule wp_ready_wait [OF h], assumption, rule started(2) [OF b])
    apply (simp only: started(1) [OF b(1)])
    apply (rule wp_ctl_to [OF h], assumption, rule trans [OF busy_sel(2) b(1)], rule ctl_sel(2), rule s5)
    apply (simp only: wp_ret)
    apply (rule Q, simp only: word_ctl_def)
    done
qed

section \<open>The operations of the driver\<close>

text \<open>Locked, no command bit set and no operation under way: the state between the operations.\<close>

definition resting :: "flash_ctl \<Rightarrow> bool" where
  "resting k \<longleftrightarrow> bit (ctl k) 31 \<and> \<not> bit (ctl k) 16 \<and> \<not> bit (ctl k) 1 \<and> \<not> bit (ctl k) 0
     \<and> busy k = 0 \<and> prompt k"

definition ready :: "flash_ctl \<Rightarrow> (u32 \<Rightarrow> u32) \<Rightarrow> bool" where
  "ready k m \<longleftrightarrow> ready_ctl (ctl k) \<and> words k = m \<and> busy k = 0 \<and> prompt k"

lemma KEY_neq [simp]: "FMC_KEY \<noteq> FMC_CTL" "UNLOCK_KEY0 \<noteq> UNLOCK_KEY1"
  by (simp_all add: fmc_regs UNLOCK_KEY0_def UNLOCK_KEY1_def)

lemma wp_unlock:
  assumes h: "flash_bus h f" and t: "fl f s k t" and k: "resting k" and Q: "\<And>u k'. fl f s k' u \<Longrightarrow> ready k' (words k) \<Longrightarrow> Q () u"
  shows "wp (fmc_unlock h) Q t"
proof -
  have c: "h (iolog t) FMC_CTL = ctl k" using h t by (simp add: flash_bus_def fl_def)
  have b: "ctl k AND BIT 31 \<noteq> 0" using k by (simp only: resting_def and_BIT_eq_0_iff) simp
  let ?k1 = "flash_step (Wr FMC_KEY UNLOCK_KEY0) k"
  let ?k2 = "flash_step (Wr FMC_KEY UNLOCK_KEY1) ?k1"
  have "ready k2 (words k)" if "k2 = k\<lparr>key_seen := True, ctl := ctl k AND NOT (BIT 31), key_seen := False\<rparr>" for k2
    using k that unfolding ready_def ready_ctl_def resting_def prompt_def by (simp add: bit_simps del: push_bit_of_1 push_bit_numeral)
  moreover have "?k2 = k\<lparr>key_seen := True, ctl := ctl k AND NOT (BIT 31), key_seen := False\<rparr>"
    using k by (simp add: flash_step_def resting_def)
  ultimately have "ready ?k2 (words k)" by blast
  moreover have "fl f s ?k2 (t\<lparr>iolog := Wr FMC_KEY UNLOCK_KEY1 # Wr FMC_KEY UNLOCK_KEY0 # Rd FMC_CTL (ctl k) # iolog t\<rparr>)"
    using fl_Cons [OF fl_Cons [OF fl_Rd [OF t, of FMC_CTL "ctl k"], of "Wr FMC_KEY UNLOCK_KEY0"], of "Wr FMC_KEY UNLOCK_KEY1"] by simp
  ultimately show ?thesis using b unfolding fmc_unlock_def by (simp only: wp_simps c if_True) (simp add: Q)
qed

lemma wp_flag_clear:
  assumes "fl f s k t" "\<And>u. fl f s k u \<Longrightarrow> Q () u"
  shows "wp (fmc_flag_clear v) Q t"
proof -
  have "flash_step (Wr FMC_STAT v) k = k" by (simp add: flash_step_def)
  then show ?thesis using fl_Cons [OF assms(1), of "Wr FMC_STAT v"] assms(2) by (simp add: fmc_flag_clear_def wp_simps)
qed

lemma wp_lock:
  assumes h: "flash_bus h f" and t: "fl f s k t" and k: "ready k m" and Q: "\<And>u k'. fl f s k' u \<Longrightarrow> resting k' \<Longrightarrow> words k' = m \<Longrightarrow> Q () u"
  shows "wp (fmc_lock h) Q t"
  unfolding fmc_lock_def bits_defs
proof (rule wp_ctl [OF h t])
  show "busy k = 0" using k by (simp add: ready_def)
next
  let ?v = "ctl k OR BIT 31"
  have "\<not> bit ?v 16" "\<not> bit (ctl k) 31" using k unfolding ready_def ready_ctl_def by (simp_all add: bit_simps del: push_bit_of_1 push_bit_numeral)
  then have e: "ctl_write ?v k = k\<lparr>ctl := ?v\<rparr>" by (intro ctl_write_plain)
  have "resting (k\<lparr>ctl := ?v\<rparr>)"
    using k unfolding resting_def ready_def ready_ctl_def prompt_def by (simp add: bit_simps del: push_bit_of_1 push_bit_numeral)
  then show "Q () u" if "fl f s (ctl_write ?v k) u" for u
    using that k unfolding e ready_def by (intro Q) auto
qed

lemma wp_erase_one:
  assumes h: "flash_bus h f" and t: "fl f s k t" and k: "ready k m" and n: "n < 12"
    and Q: "\<And>u k'. fl f s k' u \<Longrightarrow> ready k' (erase_words n m) \<Longrightarrow> Q FMC_READY u"
  shows "wp (fmc_sector_erase h (push_bit 3 (of_nat n))) Q t"
proof (rule wp_sector_erase [OF h t _ n])
  show c: "ready_ctl (ctl k)" using k by (simp add: ready_def)
  fix u assume u: "fl f s (k\<lparr>ops := Suc (ops k), ctl := ctl k AND NOT (BITS 3 7), words := erase_words n (words k)\<rparr>) u"
  show "Q FMC_READY u" by (rule Q [OF u]) (use k erase_bits(1) [OF c n] in \<open>simp add: ready_def prompt_def\<close>)
qed (use k in \<open>simp_all add: ready_def\<close>)

lemma wp_program_one:
  assumes h: "flash_bus h f" and t: "fl f s k t" and k: "ready k m" and a: "in_flash a" "a mod 4 = 0"
    and Q: "\<And>u k'. fl f s k' u \<Longrightarrow> ready k' (m(a := m a AND v)) \<Longrightarrow> Q FMC_READY u"
  shows "wp (fmc_word_program h a v) Q t"
proof (rule wp_word_program [OF h t _ a])
  show c: "ready_ctl (ctl k)" using k by (simp add: ready_def)
  fix u assume u: "fl f s (k\<lparr>ops := Suc (ops k), ctl := word_ctl (ctl k), words := (words k)(a := words k a AND v)\<rparr>) u"
  show "Q FMC_READY u" by (rule Q [OF u]) (use k program_bits(5) [OF c] in \<open>simp add: ready_def word_ctl_def prompt_def\<close>)
qed (use k in \<open>simp_all add: ready_def\<close>)

definition erase_range :: "nat \<Rightarrow> nat \<Rightarrow> (u32 \<Rightarrow> u32) \<Rightarrow> u32 \<Rightarrow> u32" where
  "erase_range a j m = (\<lambda>x. if in_flash x \<and> a \<le> sector_of x \<and> sector_of x < j then 0xFFFFFFFF else m x)"

lemma erase_range_simps: "erase_range a a m = m" "a \<le> j \<Longrightarrow> erase_words j (erase_range a j m) = erase_range a (Suc j) m"
  by (auto simp: erase_range_def erase_words_def fun_eq_iff)

lemma sector_code: "j < 32 \<Longrightarrow> ucast (of_nat (8 * j) :: u16) = (push_bit 3 (of_nat j) :: u32)"
proof -
  assume j: "j < 32"
  have "unat (ucast (of_nat (8 * j) :: u16) :: u32) = 8 * j"
    using j by (simp add: unsigned_ucast_eq unat_word_of_nat take_bit_nat_eq_self del: of_nat_mult)
  moreover have "unat (push_bit 3 (of_nat j) :: u32) = 8 * j"
    using j unat_word_of_nat [of "8 * j", where 'a = 32] by (simp add: push_bit_eq_mult mult.commute)
  ultimately show ?thesis by (simp add: word_unat_eq_iff)
qed

lemma wp_erase_sectors:
  assumes h: "flash_bus h f" and t: "fl f s k t" and k: "ready k m" and ab: "a \<le> b" "b < 12"
    and Q: "\<And>u k'. fl f s k' u \<Longrightarrow> ready k' (erase_range a (Suc b) m) \<Longrightarrow> Q () u"
  shows "wp (erase_sectors h (of_nat (8 * a)) (of_nat (8 * b))) Q t"
proof -
  let ?I = "\<lambda>i u. \<exists>j k'. a \<le> j \<and> j \<le> Suc b \<and> i = (of_nat (8 * j) :: u16) \<and> fl f s k' u \<and> ready k' (erase_range a j m)"
  have u: "unat (of_nat (8 * j) :: u16) = 8 * j" if "j \<le> 12" for j
    using that by (intro unat_word_of_nat) simp
  show ?thesis
    unfolding erase_sectors_def wp_bindM
  proof (rule wp_whileM [where I = ?I and M = "\<lambda>i _. 200 - unat i"], goal_cases)
    case 1
    show ?case using t k ab by (auto intro!: exI [of _ a] exI [of _ k] simp: erase_range_simps)
  next
    case (2 i v)
    then obtain j k' where j: "a \<le> j" "j \<le> Suc b" "i = of_nat (8 * j)" "fl f s k' v" "ready k' (erase_range a j m)" by blast
    have le: "i \<le> of_nat (8 * b) \<longleftrightarrow> j \<le> b" using u [of j] u [of b] j(2) ab unfolding j(3) by (simp add: word_le_nat_alt del: of_nat_mult)
    show ?case
    proof (cases "j \<le> b")
      case True
      have "wp (fmc_sector_erase h (ucast i)) (\<lambda>st. wp (if st \<noteq> FMC_READY then hang else ret (i + 8))
          (\<lambda>v' s''. ?I v' s'' \<and> 200 - unat v' < 200 - unat i)) v"
      proof -
        have i8: "i + 8 = of_nat (8 * Suc j)" using j(3) by simp
        have "unat (i + 8) = 8 * Suc j" unfolding i8 by (rule u) (use True ab in simp)
        moreover have "unat i = 8 * j" unfolding j(3) by (rule u) (use True ab in simp)
        ultimately have m: "200 - unat (i + 8) < 200 - unat i" using True ab by simp
        have code: "ucast i = (push_bit 3 (of_nat j) :: u32)" unfolding j(3) by (rule sector_code) (use True ab in simp)
        show ?thesis
          unfolding code
        proof (rule wp_erase_one [OF h j(4,5)])
          fix u k' assume "fl f s k' u" "ready k' (erase_words j (erase_range a j m))"
          then have "?I (i + 8) u"
            using j(1) True unfolding i8 erase_range_simps(2) [OF j(1)] by (intro exI [of _ "Suc j"] exI [of _ k'] conjI) auto
          with m show "wp (if FMC_READY \<noteq> FMC_READY then hang else ret (i + 8)) (\<lambda>v' s''. ?I v' s'' \<and> 200 - unat v' < 200 - unat i) u"
            by (simp add: wp_ret)
        qed (use True ab in simp)
      qed
      then show ?thesis using True le by (simp add: wp_simps)
    next
      case False
      then have "Q () v" using Q [OF j(4)] j(2,5) by (simp add: le_antisym not_less_eq_eq)
      then show ?thesis using False le by (simp add: wp_simps)
    qed
  qed
qed

fun put_at :: "u32 \<Rightarrow> u32 list \<Rightarrow> (u32 \<Rightarrow> u32) \<Rightarrow> u32 \<Rightarrow> u32" where
  "put_at a [] m = m"
| "put_at a (w # ws) m = put_at (a + 4) ws (m(a := w))"

lemma put_at_snoc: "put_at a (ws @ [w]) m = (put_at a ws m)(a + 4 * of_nat (length ws) := w)"
  by (induction ws arbitrary: a m) (simp_all add: algebra_simps)

lemma put_at_other: "(\<And>i. i < length ws \<Longrightarrow> x \<noteq> a + 4 * of_nat i) \<Longrightarrow> put_at a ws m x = m x"
proof (induction ws rule: rev_induct)
  case (snoc w ws)
  have "put_at a ws m x = m x" by (rule snoc.IH) (use snoc.prems in simp)
  then show ?case using snoc.prems [of "length ws"] by (simp add: put_at_snoc)
qed simp

lemma quad_inj: "i < 2 ^ 30 \<Longrightarrow> j < 2 ^ 30 \<Longrightarrow> a + 4 * of_nat i = a + 4 * (of_nat j :: u32) \<Longrightarrow> i = j"
proof -
  assume ij: "i < 2 ^ 30" "j < 2 ^ 30" "a + 4 * of_nat i = a + 4 * (of_nat j :: u32)"
  have "unat (of_nat (4 * i) :: u32) = 4 * i" if "i < 2 ^ 30" for i
    using that by (intro unat_word_of_nat) simp
  moreover have "(of_nat (4 * i) :: u32) = of_nat (4 * j)" using ij(3) by simp
  ultimately have "4 * i = 4 * j" using ij(1,2) by metis
  then show ?thesis by simp
qed

lemma put_at_nth:
  "length ws \<le> 2 ^ 30 \<Longrightarrow> i < length ws \<Longrightarrow> put_at a ws m (a + 4 * of_nat i) = ws ! i"
proof (induction ws rule: rev_induct)
  case (snoc w ws)
  then show ?case using quad_inj [of i "length ws" a]
    by (cases "i < length ws") (auto simp: put_at_snoc nth_append less_Suc_eq)
qed simp

text \<open>The addresses of \<open>n\<close> words from \<open>a\<close> on are aligned, do not wrap and stay in the flash.\<close>

definition flash_span :: "u32 \<Rightarrow> nat \<Rightarrow> bool" where
  "flash_span a n \<longleftrightarrow> unat a mod 4 = 0 \<and> 0x08000000 \<le> unat a \<and> unat a + 4 * n < 0x08100000"

lemma flash_span_at:
  assumes "flash_span a n" "i \<le> n"
  shows "unat (a + 4 * of_nat i) = unat a + 4 * i" "in_flash (a + 4 * of_nat i)" "(a + 4 * of_nat i) mod 4 = 0"
proof -
  have "unat (of_nat (4 * i) :: u32) = 4 * i" using assms by (intro unat_word_of_nat) (simp add: flash_span_def)
  then show u: "unat (a + 4 * of_nat i) = unat a + 4 * i"
    using assms by (simp add: flash_span_def unat_add_lem [THEN iffD1])
  show "in_flash (a + 4 * of_nat i)"
    using assms by (simp add: in_flash_def word_le_nat_alt word_less_nat_alt u flash_span_def)
  have "unat ((a + 4 * of_nat i) mod 4) = (unat a + 4 * i) mod 4" by (simp add: unat_mod u)
  then show "(a + 4 * of_nat i) mod 4 = 0" using assms by (simp add: flash_span_def word_unat_eq_iff)
qed

lemma wp_program_words:
  assumes h: "flash_bus h f" and t: "fl f s k t" and k: "ready k m"
    and len: "unat len \<le> length data" "flash_span a (unat len)"
    and ones: "\<And>i. i < unat len \<Longrightarrow> m (a + 4 * of_nat i) = 0xFFFFFFFF"
    and Q: "\<And>u k'. fl f s k' u \<Longrightarrow> ready k' (put_at a (take (unat len) data) m) \<Longrightarrow> Q () u"
  shows "wp (program_words h a len data) Q t"
proof -
  let ?I = "\<lambda>(i, b) u. \<exists>k'. unat i \<le> unat len \<and> b = a + 4 * of_nat (unat i) \<and> fl f s k' u \<and> ready k' (put_at a (take (unat i) data) m)"
  have l16: "unat len < 65536" using unsigned_less [of len, where ?'a = nat] by simp
  show ?thesis
    unfolding program_words_def wp_bindM
  proof (rule wp_whileM [where I = ?I and M = "\<lambda>v _. unat len - unat (fst v)"], goal_cases)
    case 1
    show ?case using t k by auto
  next
    case (2 v u)
    obtain i b where v: "v = (i, b)" by (cases v)
    from 2 obtain k' where k': "unat i \<le> unat len" "b = a + 4 * of_nat (unat i)" "fl f s k' u" "ready k' (put_at a (take (unat i) data) m)"
      unfolding v by auto
    show ?case
    proof (cases "i < len")
      case True
      then have i: "unat i < unat len" by (simp add: word_less_nat_alt)
      have i1: "unat (i + 1) = Suc (unat i)" using i l16 by (simp add: unat_word_ariths)
      have "of_nat (unat (i + 1)) = (of_nat (unat i) + 1 :: u32)" unfolding i1 by simp
      then have c1: "ucast (i + 1) = (ucast i + 1 :: u32)" by simp
      have b: "in_flash b" "b mod 4 = 0" using flash_span_at [OF len(2), of "unat i"] i k'(2) by simp_all
      have "put_at a (take (unat i) data) m b = m b"
        unfolding k'(2)
      proof (rule put_at_other, rule notI)
        fix j assume j: "j < length (take (unat i) data)" "a + 4 * of_nat (unat i) = a + 4 * (of_nat j :: u32)"
        have "unat i = j" by (rule quad_inj [OF _ _ j(2)]) (use i j(1) l16 in auto)
        then show False using j(1) by simp
      qed
      then have w: "put_at a (take (unat i) data) m b = - 1" using ones [OF i] k'(2) by simp
      have snoc: "take (Suc (unat i)) data = take (unat i) data @ [data ! unat i]"
        using i len(1) by (simp add: take_Suc_conv_app_nth)
      have "wp (fmc_word_program h b (data ! unat i)) (\<lambda>st. wp (if st = FMC_READY then ret (i + 1, b + 4) else hang)
          (\<lambda>v' s''. ?I v' s'' \<and> unat len - unat (fst v') < unat len - unat i)) u"
      proof (rule wp_program_one [OF h k'(3,4) b])
        fix u k'' assume u: "fl f s k'' u" "ready k'' ((put_at a (take (unat i) data) m)(b := put_at a (take (unat i) data) m b AND data ! unat i))"
        have "ready k'' (put_at a (take (unat (i + 1)) data) m)"
          using u(2) [unfolded w and.left_neutral] i len(1) unfolding i1 snoc put_at_snoc k'(2) by simp
        then show "wp (if FMC_READY = FMC_READY then ret (i + 1, b + 4) else hang)
            (\<lambda>v' s''. ?I v' s'' \<and> unat len - unat (fst v') < unat len - unat i) u"
          using u(1) i i1 c1 k'(2) by (auto simp: wp_ret distrib_left)
      qed
      then show ?thesis using True i len(1) unfolding v by (simp add: wp_simps)
    next
      case False
      then have "unat i = unat len" using k'(1) by (simp add: word_less_nat_alt)
      then show ?thesis using False Q [OF k'(3)] k'(4) unfolding v by (simp add: wp_simps)
    qed
  qed
qed

lemma sector_u16: "in_flash a \<Longrightarrow> ucast (fmc_sector_get a) = (of_nat (8 * sector_of a) :: u16)"
proof -
  assume a: "in_flash a"
  have "ucast (ucast (of_nat (8 * sector_of a) :: u16) :: u32) = (of_nat (8 * sector_of a) :: u16)"
    by (rule bit_word_eqI) (simp add: bit_simps)
  then show ?thesis
    using sector_code [of "sector_of a"] sector_bounds [OF a] unfolding fmc_sector_get_eq [OF a] by simp
qed

lemma wp_fmc_write:
  assumes h: "flash_bus h f" and t: "fl f s k t" and k: "resting k"
    and len: "unat len \<le> length data" "flash_span a (unat len)"
    and Q: "\<And>u k'. fl f s k' u \<Longrightarrow> resting k' \<Longrightarrow> words k' = put_at a (take (unat len) data)
       (erase_range (sector_of a) (Suc (sector_of (a + 4 * ucast len))) (words k)) \<Longrightarrow> Q () u"
  shows "wp (fmc_write_32bit_data h a len data) Q t"
proof -
  have ul: "of_nat (unat len) = (ucast len :: u32)" by simp
  have a0: "in_flash a" using flash_span_at(2) [OF len(2), of 0] by simp
  have e: "in_flash (a + 4 * ucast len)" "unat (a + 4 * ucast len) = unat a + 4 * unat len"
    using flash_span_at [OF len(2) order_refl] unfolding ul by simp_all
  have ab: "sector_of a \<le> sector_of (a + 4 * ucast len)" by (rule sector_mono) (simp add: word_le_nat_alt e)
  have ones: "erase_range (sector_of a) (Suc (sector_of (a + 4 * ucast len))) m (a + 4 * of_nat i) = 0xFFFFFFFF" if "i < unat len" for i m
  proof -
    note p = flash_span_at [OF len(2), of i]
    have "sector_of a \<le> sector_of (a + 4 * of_nat i)" "sector_of (a + 4 * of_nat i) \<le> sector_of (a + 4 * ucast len)"
      using p that e by (simp_all add: sector_mono word_le_nat_alt)
    then show ?thesis using p that by (simp add: erase_range_def)
  qed
  show ?thesis
    unfolding fmc_write_32bit_data_def Let_def sector_u16 [OF a0] sector_u16 [OF e(1)] wp_seqM
    apply (rule wp_unlock [OF h t k])
    apply (rule wp_flag_clear, assumption)
    apply (rule wp_erase_sectors [OF h _ _ ab sector_bounds [OF e(1)]], assumption, assumption)
    apply (rule wp_program_words [OF h _ _ len], assumption, assumption, erule ones)
    apply (rule wp_lock [OF h], assumption, assumption)
    apply (rule Q, assumption, assumption, assumption)
    done
qed

lemma wp_fmc_read:
  assumes h: "flash_bus h f" and t: "fl f s k t" "busy k = 0" and len: "unat len \<le> length buf" "unat len < 256" "flash_span a (unat len)"
    and Q: "\<And>u. fl f s k u \<Longrightarrow> Q (map (\<lambda>i. words k (a + 4 * of_nat i)) [0..<unat len] @ drop (unat len) buf) u"
  shows "wp (fmc_read_32bit_data h a len buf) Q t"
proof -
  let ?r = "\<lambda>n. map (\<lambda>i. words k (a + 4 * of_nat i)) [0..<n] @ drop n buf"
  let ?I = "\<lambda>(i :: u8, b, r) u. unat i \<le> unat len \<and> b = a + 4 * of_nat (unat i) \<and> r = ?r (unat i) \<and> fl f s k u"
  have u8: "unat (ucast i :: u16) = unat i" for i :: u8
    using unsigned_less [of i, where ?'a = nat] by (simp add: unsigned_ucast_eq take_bit_nat_eq_self)
  show ?thesis
    unfolding fmc_read_32bit_data_def wp_bindM
  proof (rule wp_whileM [where I = ?I and M = "\<lambda>(i, _) _. unat len - unat i"], goal_cases)
    case 1
    show ?case using t(1) by simp
  next
    case (2 v u)
    obtain i b r where v: "v = (i, b, r)" by (cases v)
    from 2 have i: "unat i \<le> unat len" "b = a + 4 * of_nat (unat i)" "r = ?r (unat i)" "fl f s k u" unfolding v by auto
    show ?case
    proof (cases "unat i < unat len")
      case True
      have i1: "unat (i + 1) = Suc (unat i)" using True len(2) by (simp add: unat_word_ariths)
      have "of_nat (unat (i + 1)) = (of_nat (unat i) + 1 :: u32)" unfolding i1 by simp
      then have c1: "ucast (i + 1) = (ucast i + 1 :: u32)" by simp
      have fb: "in_flash b" using flash_span_at(2) [OF len(3), of "unat i"] True i(2) by simp
      then have "h (iolog u) b = words k (a + 4 * of_nat (unat i))" using h i(2,4) t(2) by (simp add: flash_bus_def fl_def)
      moreover have "r[unat i := x] = map (\<lambda>i. words k (a + 4 * of_nat i)) [0..<unat i] @ x # drop (Suc (unat i)) buf" for x
        using True len(1) unfolding i(3) by (simp add: list_update_append Cons_nth_drop_Suc [symmetric])
      ultimately show ?thesis
        using True len(1) i fmc_neq(7) [OF fb] unfolding v by (auto simp: wp_simps word_less_nat_alt u8 i1 c1 fl_Rd distrib_left)
    next
      case False
      then show ?thesis using i Q unfolding v by (simp add: wp_simps word_less_nat_alt u8)
    qed
  qed
qed

section \<open>Properties\<close>

definition demo_ctl :: flash_ctl where
  "demo_ctl = \<lparr>ctl = 0x80000000, key_seen = False, words = (\<lambda>_. 0x55), busy = 0, ops = 0, lag = (\<lambda>i. 3 + i mod 5)\<rparr>"

definition demo_fmc :: hw where
  "demo_fmc l a = (if a = FMC_CTL then ctl (flash_of demo_ctl l) else if in_flash a then words (flash_of demo_ctl l) a
     else if a = FMC_STAT \<and> busy (flash_of demo_ctl l) \<noteq> 0 then BIT 16 else 0)"

lemma demo_fmc_bus: "flash_bus demo_fmc demo_ctl" "resting (flash_of demo_ctl (iolog \<lparr>iolog = []\<rparr>))"
proof -
  have "\<not> bit (BIT 16 :: u32) n" if "n \<in> {1, 4, 6, 7, 8}" for n
    using that by (auto simp: bit_simps bit_1_iff simp del: push_bit_of_1 push_bit_numeral)
  moreover have "bit (BIT 16 :: u32) 16" by (simp add: bit_simps del: push_bit_of_1 push_bit_numeral)
  ultimately show "flash_bus demo_fmc demo_ctl"
    unfolding flash_bus_def demo_fmc_def by (simp del: push_bit_of_1 push_bit_numeral)
  show "resting (flash_of demo_ctl (iolog \<lparr>iolog = []\<rparr>))"
    by (auto simp: resting_def demo_ctl_def prompt_def)
qed

text \<open>
  for every address of the flash, \<open>fmc_sector_get\<close> returns the code of the sector that holds it: the
  sector number, computed from the layout of the 12 sectors, at bit 3 of the control register.
\<close>

theorem sector_get_agrees_with_layout:
  assumes "0x08000000 \<le> address" "address < 0x08100000"
  shows "fmc_sector_get address = push_bit 3 (of_nat (sector_of address)) \<and> sector_of address < 12"
  using assms fmc_sector_get_eq [of address] sector_bounds [of address] by (simp add: in_flash_def)

theorem sector_get_agrees_with_layout_witness:
  "fmc_sector_get 0x08030000 = 40 \<and> sector_of 0x08030000 = 5"
  using sector_get_agrees_with_layout [of "0x08030000"] by (simp add: sector_of_def)

text \<open>
  C13: on a flash whose operations take time, and that ignores what is written to it meanwhile, writing to
  an aligned address returns with no operation under way, puts the data there, erases every sector from the one of the first word to
  the one of the word after the last, and changes nothing in the other sectors; the controller is
  locked again afterwards.
\<close>

theorem fmc_write_stores_words:
  assumes "flash_bus h f" "resting (flash_of f (iolog s))" "unat len \<le> length data" "flash_span a (unat len)"
  shows "wp (fmc_write_32bit_data h a len data) (\<lambda>_ t. log_ext s t \<and> resting (flash_of f (iolog t)) \<and>
      (\<forall>i < unat len. words (flash_of f (iolog t)) (a + 4 * of_nat i) = data ! i) \<and>
      (\<forall>x. in_flash x \<longrightarrow> (\<forall>i < unat len. x \<noteq> a + 4 * of_nat i) \<longrightarrow> words (flash_of f (iolog t)) x =
        (if sector_of a \<le> sector_of x \<and> sector_of x \<le> sector_of (a + 4 * ucast len) then 0xFFFFFFFF
         else words (flash_of f (iolog s)) x))) s"
proof (rule wp_fmc_write [OF assms(1) fl_refl assms(2-4)])
  let ?ws = "take (unat len) data"
  let ?m = "erase_range (sector_of a) (Suc (sector_of (a + 4 * ucast len))) (words (flash_of f (iolog s)))"
  fix u k' assume k': "fl f s k' u" "resting k'" "words k' = put_at a ?ws ?m"
  have "put_at a ?ws ?m (a + 4 * of_nat i) = data ! i" if "i < unat len" for i
    using put_at_nth [of ?ws i a ?m] that assms(3) unsigned_less [of len, where ?'a = nat] by simp
  moreover have "put_at a ?ws ?m x = ?m x" if "\<forall>i < unat len. x \<noteq> a + 4 * of_nat i" for x
    by (rule put_at_other) (use that in auto)
  ultimately show "log_ext s u \<and> resting (flash_of f (iolog u)) \<and>
      (\<forall>i < unat len. words (flash_of f (iolog u)) (a + 4 * of_nat i) = data ! i) \<and>
      (\<forall>x. in_flash x \<longrightarrow> (\<forall>i < unat len. x \<noteq> a + 4 * of_nat i) \<longrightarrow> words (flash_of f (iolog u)) x =
        (if sector_of a \<le> sector_of x \<and> sector_of x \<le> sector_of (a + 4 * ucast len) then 0xFFFFFFFF
         else words (flash_of f (iolog s)) x))"
    using k' by (auto simp: fl_def erase_range_def)
qed

theorem fmc_write_stores_words_witness:
  "wp (fmc_write_32bit_data demo_fmc 0x08010000 2 [7, 8]) (\<lambda>_ t. words (flash_of demo_ctl (iolog t)) 0x08010004 = 8 \<and>
     words (flash_of demo_ctl (iolog t)) 0x08010008 = 0xFFFFFFFF \<and> words (flash_of demo_ctl (iolog t)) 0x08000000 = 0x55) \<lparr>iolog = []\<rparr>"
proof (rule wp_mono [OF fmc_write_stores_words [OF demo_fmc_bus]])
  fix t :: bus
  let ?w = "words (flash_of demo_ctl (iolog t))"
  assume "log_ext \<lparr>iolog = []\<rparr> t \<and> resting (flash_of demo_ctl (iolog t)) \<and>
    (\<forall>i < unat (2 :: u16). ?w (0x08010000 + 4 * of_nat i) = [7, 8] ! i) \<and>
    (\<forall>x. in_flash x \<longrightarrow> (\<forall>i < unat (2 :: u16). x \<noteq> 0x08010000 + 4 * of_nat i) \<longrightarrow> ?w x =
      (if sector_of 0x08010000 \<le> sector_of x \<and> sector_of x \<le> sector_of (0x08010000 + 4 * ucast (2 :: u16)) then 0xFFFFFFFF
       else words (flash_of demo_ctl (iolog \<lparr>iolog = []\<rparr>)) x))"
  then have a: "i < 2 \<Longrightarrow> ?w (0x08010000 + 4 * of_nat i) = [7, 8] ! i"
    and b: "in_flash x \<Longrightarrow> (\<And>i. i < 2 \<Longrightarrow> x \<noteq> 0x08010000 + 4 * of_nat i) \<Longrightarrow> ?w x =
      (if sector_of 0x08010000 \<le> sector_of x \<and> sector_of x \<le> sector_of 0x08010008 then 0xFFFFFFFF else 0x55)" for x i
    by (auto simp: demo_ctl_def)
  have x: "(0x08010008 :: u32) \<noteq> 0x08010000 + 4 * of_nat i" "(0x08000000 :: u32) \<noteq> 0x08010000 + 4 * of_nat i" if "i < 2" for i :: nat
    using that by (auto simp: less_2_cases_iff)
  show "?w 0x08010004 = 8 \<and> ?w 0x08010008 = 0xFFFFFFFF \<and> ?w 0x08000000 = 0x55"
    using a [of 1] b [OF _ x(1)] b [OF _ x(2)] by (simp add: in_flash_def sector_of_def)
qed (simp_all add: flash_span_def)

text \<open>
  C14: up to 255 words written to an aligned address of the flash are read back, however long its
  operations take, up to a million looks at the status each.
\<close>

theorem fmc_write_read_round_trip:
  assumes h: "flash_bus h f" and k: "resting (flash_of f (iolog s))"
    and len: "unat len = length data" "length buf = length data" "unat len < 256" "flash_span a (unat len)"
  shows "wp (thenM (fmc_write_32bit_data h a len data) (fmc_read_32bit_data h a len buf)) (\<lambda>r _. r = data) s"
  unfolding wp_thenM
proof (rule wp_fmc_write [OF h fl_refl k _ len(4)])
  let ?m = "erase_range (sector_of a) (Suc (sector_of (a + 4 * ucast len))) (words (flash_of f (iolog s)))"
  fix u k' assume u: "fl f s k' u" "resting k'" and w: "words k' = put_at a (take (unat len) data) ?m"
  have "map (\<lambda>i. words k' (a + 4 * of_nat i)) [0..<unat len] @ drop (unat len) buf = data"
    using len put_at_nth [of data _ a ?m] unfolding w by (intro nth_equalityI) auto
  then show "wp (fmc_read_32bit_data h a len buf) (\<lambda>r _. r = data) u"
    using len u(2) by (intro wp_fmc_read [OF h u(1)]) (auto simp: resting_def)
qed (use len in simp)

theorem fmc_write_read_round_trip_witness:
  "wp (thenM (fmc_write_32bit_data demo_fmc 0x08010000 2 [7, 8]) (fmc_read_32bit_data demo_fmc 0x08010000 2 [0, 0]))
     (\<lambda>r _. r = [7, 8]) \<lparr>iolog = []\<rparr>"
  by (rule fmc_write_read_round_trip [OF demo_fmc_bus]) (simp_all add: flash_span_def)

text \<open>
  With a length of 256 or more the reading loop never ends: its counter is an 8-bit variable.
\<close>

theorem fmc_read_hangs_from_256_words:
  assumes "256 \<le> len" "256 \<le> length buf"
  shows "fmc_read_32bit_data h a len buf s = None"
proof -
  have lt: "ucast i < len" for i :: u8
    using assms(1) unsigned_less [of i, where ?'a = nat] by (simp add: word_less_nat_alt word_le_nat_alt unsigned_ucast_eq take_bit_nat_eq_self)
  have ix: "unat i < 256" for i :: u8 using unsigned_less [of i, where ?'a = nat] by simp
  let ?w = "whileM (\<lambda>(i :: u8, address, data_32). ret (ucast i < len))
    (\<lambda>(i, address, data_32). bindM (rd32 h address) (\<lambda>w. bindM (store_elem data_32 (unat i) w) (\<lambda>data_32. ret (i + 1, address + 4, data_32))))
    (0, a, buf)"
  have "wlp ?w (\<lambda>_ _. False) s"
    by (rule wlp_whileM [where I = "\<lambda>(i, b, r) _. 256 \<le> length r"])
      (auto simp: wp_simps lt assms(2) order_less_le_trans [OF ix] split: prod.splits)
  then have "?w s = None" by (auto simp: wlp_iff wp_def)
  then show ?thesis by (simp add: fmc_read_32bit_data_def run_simps)
qed

theorem fmc_read_hangs_from_256_words_witness:
  "fmc_read_32bit_data (\<lambda>_ _. 0) 0x08010000 256 (replicate 300 0) \<lparr>iolog = []\<rparr> = None"
  by (rule fmc_read_hangs_from_256_words) simp_all

end
