(* ===== verification/Bsp_Uart.thy ===== *)
theory Bsp_Uart
  imports System_Tick Periph
begin

text \<open>
  The serial ports and the LED of the board: \<open>bsp_uart.c\<close> and \<open>bsp_led.c\<close>, the functions of
  \<open>gd32f4xx_usart.c\<close> and \<open>gd32f4xx_rcu.c\<close> they call, and the pin and clock set-up of the USB device in
  \<open>app/main.c\<close>. The theorems tie the divider of a port to the clock tree that \<open>SystemInit\<close> leaves, say
  what a sent byte does on the bus, and show that \<open>bsp_uart_init\<close> runs into a division by zero.
\<close>

section \<open>Clocks\<close>

datatype rcu_clock_freq = CK_SYS | CK_AHB | CK_APB1 | CK_APB2

definition apb_exp :: "nat list" where
  "apb_exp = [0, 0, 0, 0, 1, 2, 3, 4]"

definition rcu_clock_freq_get :: "hw \<Rightarrow> rcu_clock_freq \<Rightarrow> ('z bus_scheme, u32) cm" where
  "rcu_clock_freq_get h clock =
     bindM (rd32 h RCU_CFG0) (\<lambda>r.
     let sws = GET_BITS r 2 3 in
     bindM (if sws = 0 then ret IRC16M_VALUE
            else if sws = 1 then ret HXTAL_VALUE
            else if sws = 2 then pll_clock h
            else ret IRC16M_VALUE) (\<lambda>cksys_freq.
     bindM (rd32 h RCU_CFG0) (\<lambda>r.
     bindM (load_elem ahb_exp (unat (GET_BITS r 4 7))) (\<lambda>clk_exp.
     let ahb_freq = drop_bit clk_exp cksys_freq in
     bindM (rd32 h RCU_CFG0) (\<lambda>r.
     bindM (load_elem apb_exp (unat (GET_BITS r 10 12))) (\<lambda>clk_exp.
     let apb1_freq = drop_bit clk_exp ahb_freq in
     bindM (rd32 h RCU_CFG0) (\<lambda>r.
     bindM (load_elem apb_exp (unat (GET_BITS r 13 15))) (\<lambda>clk_exp.
     let apb2_freq = drop_bit clk_exp ahb_freq in
     ret (case clock of CK_SYS \<Rightarrow> cksys_freq | CK_AHB \<Rightarrow> ahb_freq
                      | CK_APB1 \<Rightarrow> apb1_freq | CK_APB2 \<Rightarrow> apb2_freq)))))))))"

definition RCU_ADDCTL :: u32 where "RCU_ADDCTL = 0x400238C0"

definition rcu_pll48m_clock_config :: "hw \<Rightarrow> u32 \<Rightarrow> ('z bus_scheme, unit) cm" where
  "rcu_pll48m_clock_config h pll48m_clock_source =
     bindM (rd32 h RCU_ADDCTL) (\<lambda>reg. wr32 RCU_ADDCTL ((reg AND NOT (BIT 1)) OR pll48m_clock_source))"

definition rcu_ck48m_clock_config :: "hw \<Rightarrow> u32 \<Rightarrow> ('z bus_scheme, unit) cm" where
  "rcu_ck48m_clock_config h ck48m_clock_source =
     bindM (rd32 h RCU_ADDCTL) (\<lambda>reg. wr32 RCU_ADDCTL ((reg AND NOT (BIT 0)) OR ck48m_clock_source))"

definition RCU_GPIOA :: u32 where "RCU_GPIOA = RCU_REGIDX_BIT 0x30 0"
definition RCU_GPIOB :: u32 where "RCU_GPIOB = RCU_REGIDX_BIT 0x30 1"
definition RCU_GPIOD :: u32 where "RCU_GPIOD = RCU_REGIDX_BIT 0x30 3"
definition RCU_USBFS :: u32 where "RCU_USBFS = RCU_REGIDX_BIT 0x34 7"
definition RCU_SYSCFG :: u32 where "RCU_SYSCFG = RCU_REGIDX_BIT 0x44 14"
definition RCU_USART0 :: u32 where "RCU_USART0 = RCU_REGIDX_BIT 0x44 4"
definition RCU_USART1 :: u32 where "RCU_USART1 = RCU_REGIDX_BIT 0x40 17"
definition RCU_USART2 :: u32 where "RCU_USART2 = RCU_REGIDX_BIT 0x40 18"

section \<open>USART\<close>

definition USART0 :: u32 where "USART0 = 0x40011000"
definition USART1 :: u32 where "USART1 = 0x40004400"
definition USART2 :: u32 where "USART2 = 0x40004800"
definition USART5 :: u32 where "USART5 = 0x40011400"
definition UART3 :: u32 where "UART3 = 0x40004C00"
definition UART4 :: u32 where "UART4 = 0x40005000"
definition UART6 :: u32 where "UART6 = 0x40007800"
definition UART7 :: u32 where "UART7 = 0x40007C00"

lemmas usart_bases = USART0_def USART1_def USART2_def USART5_def UART3_def UART4_def UART6_def UART7_def

definition usart_reset :: "u32 \<Rightarrow> u32 option" where
  "usart_reset usart_periph =
     (if usart_periph = USART0 then Some (RCU_REGIDX_BIT 0x24 4)
      else if usart_periph = USART1 then Some (RCU_REGIDX_BIT 0x20 17)
      else if usart_periph = USART2 then Some (RCU_REGIDX_BIT 0x20 18)
      else if usart_periph = USART5 then Some (RCU_REGIDX_BIT 0x24 5)
      else if usart_periph = UART3 then Some (RCU_REGIDX_BIT 0x20 19)
      else if usart_periph = UART4 then Some (RCU_REGIDX_BIT 0x20 20)
      else if usart_periph = UART6 then Some (RCU_REGIDX_BIT 0x20 30)
      else if usart_periph = UART7 then Some (RCU_REGIDX_BIT 0x20 31)
      else None)"

definition usart_deinit :: "hw \<Rightarrow> u32 \<Rightarrow> ('z bus_scheme, unit) cm" where
  "usart_deinit h usart_periph =
     (case usart_reset usart_periph of
        Some r \<Rightarrow> thenM (rcu_periph_reset_enable h r) (rcu_periph_reset_disable h r)
      | None \<Rightarrow> ret ())"

text \<open>The bus clock of a port; a port the switch does not name leaves \<open>uclk\<close> zero.\<close>

definition usart_clock :: "hw \<Rightarrow> u32 \<Rightarrow> ('z bus_scheme, u32) cm" where
  "usart_clock h usart_periph =
     (if usart_periph = USART0 \<or> usart_periph = USART5 then rcu_clock_freq_get h CK_APB2
      else if usart_periph \<in> {USART1, USART2, UART3, UART4, UART6, UART7} then rcu_clock_freq_get h CK_APB1
      else ret 0)"

definition udivM :: "u32 \<Rightarrow> u32 \<Rightarrow> ('s, u32) cm" where
  "udivM x y = (if y = 0 then faultM Division_By_Zero else ret (x div y))"

definition usart_baudrate_set :: "hw \<Rightarrow> u32 \<Rightarrow> u32 \<Rightarrow> ('z bus_scheme, unit) cm" where
  "usart_baudrate_set h usart_periph baudval =
     bindM (usart_clock h usart_periph) (\<lambda>uclk.
     bindM (rd32 h (usart_periph + 0x0C)) (\<lambda>ctl0.
     if ctl0 AND BIT 15 \<noteq> 0 then
       bindM (udivM (2 * uclk + baudval div 2) baudval) (\<lambda>udiv.
       let intdiv = udiv AND 0xFFF0; fradiv = drop_bit 1 udiv AND 0x7
       in wr32 (usart_periph + 0x08) ((BITS 0 3 OR BITS 4 15) AND (intdiv OR fradiv)))
     else
       bindM (udivM (uclk + baudval div 2) baudval) (\<lambda>udiv.
       let intdiv = udiv AND 0xFFF0; fradiv = udiv AND 0xF
       in wr32 (usart_periph + 0x08) ((BITS 0 3 OR BITS 4 15) AND (intdiv OR fradiv)))))"

definition usart_enable :: "hw \<Rightarrow> u32 \<Rightarrow> ('z bus_scheme, unit) cm" where
  "usart_enable h usart_periph = setbits h (usart_periph + 0x0C) (BIT 13)"

definition usart_transmit_config :: "hw \<Rightarrow> u32 \<Rightarrow> u32 \<Rightarrow> ('z bus_scheme, unit) cm" where
  "usart_transmit_config h usart_periph txconfig =
     bindM (rd32 h (usart_periph + 0x0C)) (\<lambda>ctl. wr32 (usart_periph + 0x0C) ((ctl AND NOT (BIT 3)) OR txconfig))"

definition usart_receive_config :: "hw \<Rightarrow> u32 \<Rightarrow> u32 \<Rightarrow> ('z bus_scheme, unit) cm" where
  "usart_receive_config h usart_periph rxconfig =
     bindM (rd32 h (usart_periph + 0x0C)) (\<lambda>ctl. wr32 (usart_periph + 0x0C) ((ctl AND NOT (BIT 2)) OR rxconfig))"

definition usart_data_transmit :: "u32 \<Rightarrow> u16 \<Rightarrow> ('z bus_scheme, unit) cm" where
  "usart_data_transmit usart_periph data = wr32 (usart_periph + 0x04) (BITS 0 8 AND ucast data)"

definition usart_data_receive :: "hw \<Rightarrow> u32 \<Rightarrow> ('z bus_scheme, u16) cm" where
  "usart_data_receive h usart_periph = bindM (rd32 h (usart_periph + 0x04)) (\<lambda>v. ret (ucast (GET_BITS v 0 8)))"

definition USART_FLAG_TBE :: u32 where "USART_FLAG_TBE = RCU_REGIDX_BIT 0x00 7"
definition USART_FLAG_RBNE :: u32 where "USART_FLAG_RBNE = RCU_REGIDX_BIT 0x00 5"

definition usart_flag_get :: "hw \<Rightarrow> u32 \<Rightarrow> u32 \<Rightarrow> ('z bus_scheme, bool) cm" where
  "usart_flag_get h usart_periph flag =
     bindM (rd32 h (usart_periph + drop_bit 6 (flag AND 0xFFFF))) (\<lambda>v. ret (v AND BIT (unat (flag AND 0x1F)) \<noteq> 0))"

section \<open>\<open>bsp_uart.c\<close>\<close>

text \<open>
  \<open>COM_UART_MAX_NUM\<close> is four, since the enumeration names \<open>COM_UART_NUM5\<close>, but every table has three
  initialisers: the fourth element of each is zero.
\<close>

definition COM_UART_MAX_NUM :: nat where "COM_UART_MAX_NUM = 4"

definition COM_UART :: "u32 list" where "COM_UART = [USART0, USART1, USART2, 0]"
definition COM_UART_IRQn :: "u8 list" where "COM_UART_IRQn = [37, 38, 39, 0]"
definition COM_UART_CLK :: "u32 list" where "COM_UART_CLK = [RCU_USART0, RCU_USART1, RCU_USART2, 0]"
definition COM_UART_TX_GPIO_CLK :: "u32 list" where "COM_UART_TX_GPIO_CLK = [RCU_GPIOA, RCU_GPIOA, RCU_GPIOB, 0]"
definition COM_UART_TX_GPIO_AF :: "u32 list" where "COM_UART_TX_GPIO_AF = [GPIO_AF_7, GPIO_AF_7, GPIO_AF_7, 0]"
definition COM_UART_TX_PORT :: "u32 list" where "COM_UART_TX_PORT = [GPIOA, GPIOD, GPIOB, 0]"
definition COM_UART_TX_PIN :: "u32 list" where "COM_UART_TX_PIN = [BIT 9, BIT 5, BIT 10, 0]"
definition COM_UART_RX_GPIO_CLK :: "u32 list" where "COM_UART_RX_GPIO_CLK = [RCU_GPIOA, RCU_GPIOD, RCU_GPIOA, 0]"
definition COM_UART_RX_GPIO_AF :: "u32 list" where "COM_UART_RX_GPIO_AF = [GPIO_AF_7, GPIO_AF_7, GPIO_AF_7, 0]"
definition COM_UART_RX_PORT :: "u32 list" where "COM_UART_RX_PORT = [GPIOA, GPIOD, GPIOB, 0]"
definition COM_UART_RX_PIN :: "u32 list" where "COM_UART_RX_PIN = [BIT 10, BIT 6, BIT 11, 0]"
definition COM_UART_BAUD :: "u32 list" where "COM_UART_BAUD = [115200, 115200, 115200, 0]"

definition uart_pin :: "hw \<Rightarrow> u32 \<Rightarrow> u32 \<Rightarrow> ('z bus_scheme, unit) cm" where
  "uart_pin h port pin =
     thenM (gpio_mode_set h port GPIO_MODE_AF GPIO_PUPD_PULLUP pin)
           (gpio_output_options_set h port GPIO_OTYPE_PP GPIO_OSPEED_50MHZ pin)"

definition bsp_uart_periph_init :: "hw \<Rightarrow> nat \<Rightarrow> ('z bus_scheme, unit) cm" where
  "bsp_uart_periph_init h n = seqM
     [bindM (load_elem COM_UART_TX_GPIO_CLK n) (rcu_periph_clock_enable h),
      bindM (load_elem COM_UART_RX_GPIO_CLK n) (rcu_periph_clock_enable h),
      bindM (load_elem COM_UART_CLK n) (rcu_periph_clock_enable h),
      gpio_af_set h (COM_UART_TX_PORT ! n) (COM_UART_TX_GPIO_AF ! n) (COM_UART_TX_PIN ! n),
      gpio_af_set h (COM_UART_RX_PORT ! n) (COM_UART_RX_GPIO_AF ! n) (COM_UART_RX_PIN ! n),
      uart_pin h (COM_UART_TX_PORT ! n) (COM_UART_TX_PIN ! n),
      uart_pin h (COM_UART_RX_PORT ! n) (COM_UART_RX_PIN ! n),
      usart_deinit h (COM_UART ! n),
      usart_baudrate_set h (COM_UART ! n) (COM_UART_BAUD ! n),
      usart_receive_config h (COM_UART ! n) (BIT 2),
      usart_transmit_config h (COM_UART ! n) (BIT 3),
      usart_enable h (COM_UART ! n),
      nvic_irq_enable h (COM_UART_IRQn ! n)
        (if n = 0 then 2 else if n = 1 then 2 else if n = 2 then 0 else if n = 3 then 1 else 2) 0]"

definition bsp_uart_init :: "hw \<Rightarrow> ('z bus_scheme, unit) cm" where
  "bsp_uart_init h = foldM (\<lambda>n _. bsp_uart_periph_init h n) [0..<COM_UART_MAX_NUM] ()"

definition uart_sendbyte :: "hw \<Rightarrow> u8 \<Rightarrow> ('z bus_scheme, unit) cm" where
  "uart_sendbyte h byte =
     thenM (usart_data_transmit (COM_UART ! 0) (ucast byte))
           (whileM (\<lambda>_. bindM (usart_flag_get h (COM_UART ! 0) USART_FLAG_TBE) (\<lambda>f. ret (\<not> f))) ret ())"

definition uart_receivebyte :: "hw \<Rightarrow> ('z bus_scheme, u16) cm" where
  "uart_receivebyte h =
     thenM (whileM (\<lambda>_. bindM (usart_flag_get h (COM_UART ! 0) USART_FLAG_RBNE) (\<lambda>f. ret (\<not> f))) ret ())
           (usart_data_receive h (COM_UART ! 0))"

definition io_putchar :: "hw \<Rightarrow> int \<Rightarrow> ('z bus_scheme, int) cm" where
  "io_putchar h ch = thenM (uart_sendbyte h (word_of_int ch)) (ret ch)"

section \<open>\<open>bsp_led.c\<close>\<close>

definition LED_MAX_NUM :: nat where "LED_MAX_NUM = 1"
definition LED_PORT :: "u32 list" where "LED_PORT = [GPIOB]"
definition LED_PIN :: "u32 list" where "LED_PIN = [BIT 2]"
definition LED_CLK :: "u32 list" where "LED_CLK = [RCU_GPIOB]"

text \<open>\<open>led_type_def\<close> is an unsigned enumeration; an index past the tables is a fault.\<close>

definition bsp_led_gpio_init :: "hw \<Rightarrow> nat \<Rightarrow> ('z bus_scheme, unit) cm" where
  "bsp_led_gpio_init h led =
     bindM (load_elem LED_CLK led) (\<lambda>clk.
     bindM (load_elem LED_PORT led) (\<lambda>port.
     bindM (load_elem LED_PIN led) (\<lambda>pin.
     seqM [rcu_periph_clock_enable h clk,
           gpio_mode_set h port GPIO_MODE_OUTPUT GPIO_PUPD_NONE pin,
           gpio_output_options_set h port GPIO_OTYPE_PP GPIO_OSPEED_2MHZ pin])))"

definition led_pin :: "nat \<Rightarrow> (u32 \<Rightarrow> u32 \<Rightarrow> ('s, 'a) cm) \<Rightarrow> ('s, 'a) cm" where
  "led_pin led f = bindM (load_elem LED_PORT led) (\<lambda>port. bindM (load_elem LED_PIN led) (f port))"

definition bsp_led_on :: "nat \<Rightarrow> ('z bus_scheme, unit) cm" where
  "bsp_led_on led = led_pin led gpio_bit_set"

definition bsp_led_off :: "nat \<Rightarrow> ('z bus_scheme, unit) cm" where
  "bsp_led_off led = led_pin led gpio_bit_reset"

definition bsp_led_toggle :: "nat \<Rightarrow> ('z bus_scheme, unit) cm" where
  "bsp_led_toggle led = led_pin led gpio_bit_toggle"

definition bsp_led_get_status :: "hw \<Rightarrow> nat \<Rightarrow> ('z bus_scheme, u8) cm" where
  "bsp_led_get_status h led =
     bindM (led_pin led (gpio_input_bit_get h)) (\<lambda>led_status. ret (if \<not> led_status then 0 else 1))"

definition bsp_led_init :: "hw \<Rightarrow> ('z bus_scheme, unit) cm" where
  "bsp_led_init h = foldM (\<lambda>led _. thenM (bsp_led_gpio_init h led) (bsp_led_off led)) [0..<LED_MAX_NUM] ()"

section \<open>The USB set-up of \<open>main.c\<close>\<close>

definition usb_dc_low_level_init :: "hw \<Rightarrow> ('z bus_scheme, unit) cm" where
  "usb_dc_low_level_init h = seqM
     [nvic_irq_enable h 67 0 0,
      rcu_periph_clock_enable h RCU_SYSCFG,
      rcu_periph_clock_enable h RCU_GPIOA,
      gpio_mode_set h GPIOA GPIO_MODE_AF GPIO_PUPD_NONE (BIT 11 OR BIT 12),
      gpio_output_options_set h GPIOA GPIO_OTYPE_PP GPIO_OSPEED_MAX (BIT 11 OR BIT 12),
      gpio_af_set h GPIOA GPIO_AF_10 (BIT 11 OR BIT 12),
      rcu_pll48m_clock_config h 0,
      rcu_ck48m_clock_config h 0,
      rcu_periph_clock_enable h RCU_USBFS]"

section \<open>Where an initialisation stops\<close>

text \<open>
  \<open>faults_only e m\<close>: on every bus \<open>m\<close> ends, and if it ends in undefined behaviour it is \<open>e\<close>. Followed by a
  computation that always ends in \<open>e\<close>, it always ends in \<open>e\<close>.
\<close>

named_theorems fault_intros \<open>rules for computations that end in one kind of undefined behaviour only\<close>

definition faults_only :: "fault \<Rightarrow> ('s, 'a) cm \<Rightarrow> bool" where
  "faults_only e m \<longleftrightarrow> (\<forall>s. m s = Some (Inl e) \<or> wp m (\<lambda>_ _. True) s)"

definition always_faults :: "fault \<Rightarrow> ('s, 'a) cm \<Rightarrow> bool" where
  "always_faults e m \<longleftrightarrow> (\<forall>s. m s = Some (Inl e))"

lemma faults_only_io: "io_only m \<Longrightarrow> returns m \<Longrightarrow> faults_only e m"
  unfolding faults_only_def io_only_def by (blast intro: returns_wp wlp_mono)

lemma faults_only_bindM [fault_intros]:
  assumes "faults_only e m" "\<And>x. faults_only e (k x)"
  shows "faults_only e (bindM m k)"
  unfolding faults_only_def
proof
  fix s
  consider "m s = Some (Inl e)" | x t where "m s = Some (Inr (x, t))"
    using assms(1) unfolding faults_only_def wp_def by blast
  then show "bindM m k s = Some (Inl e) \<or> wp (bindM m k) (\<lambda>_ _. True) s"
    using assms(2) by cases (auto simp: faults_only_def wp_def run_simps)
qed

lemma faults_only_seqM [fault_intros]:
  "faults_only e (seqM [])" "faults_only e m \<Longrightarrow> faults_only e (seqM ms) \<Longrightarrow> faults_only e (seqM (m # ms))"
  by (simp add: faults_only_def wp_simps) (simp only: seqM.simps faults_only_bindM)

lemma faults_only_basic [fault_intros]:
  "faults_only e (ret x)" "faults_only e (faultM e)" "faults_only e (rd32 h a)" "faults_only e (wr32 a v)"
  by (simp_all add: faults_only_def wp_simps run_simps)

lemma faults_only_if [fault_intros]:
  "(b \<Longrightarrow> faults_only e m) \<Longrightarrow> (\<not> b \<Longrightarrow> faults_only e n) \<Longrightarrow> faults_only e (if b then m else n)"
  by simp

lemma faults_only_Let [fault_intros]: "(\<And>x. faults_only e (k x)) \<Longrightarrow> faults_only e (let x = v in k x)"
  by simp

lemma faults_only_load: "i < length xs \<Longrightarrow> faults_only e (load_elem xs i)"
  by (simp add: faults_only_def load_elem_def run_simps wp_simps)

lemma always_faults_bindM: "faults_only e m \<Longrightarrow> (\<And>x. always_faults e (k x)) \<Longrightarrow> always_faults e (bindM m k)"
  unfolding faults_only_def always_faults_def wp_def
  by (rule allI, rename_tac s, erule_tac x = s in allE) (auto simp: run_simps)

lemma always_faults_start: "always_faults e m \<Longrightarrow> always_faults e (bindM m k)"
  by (simp add: always_faults_def run_simps)

section \<open>The divider of a port\<close>

lemma unat_GET_BITS_le: "unat (GET_BITS r i k) \<le> unat (BITS i k) div 2 ^ i"
proof -
  have "unat (r AND BITS i k) \<le> unat (BITS i k)"
    using word_and_le1 [of r "BITS i k"] by (simp add: word_le_nat_alt)
  then show ?thesis unfolding GET_BITS_def unat_drop_bit_eq by (simp add: drop_bit_eq_div div_le_mono)
qed

lemma psc_in_table:
  "unat (GET_BITS r 4 7) < length ahb_exp" "unat (GET_BITS r 10 12) < length apb_exp" "unat (GET_BITS r 13 15) < length apb_exp"
  using unat_GET_BITS_le [of r 4 7] unat_GET_BITS_le [of r 10 12] unat_GET_BITS_le [of r 13 15]
  by (simp_all add: BITS_values ahb_exp_def apb_exp_def)

lemma faults_clock [fault_intros]:
  "faults_only Division_By_Zero (pll_clock h)"
  "faults_only Division_By_Zero (rcu_clock_freq_get h clock)"
  "faults_only Division_By_Zero (udivM x y)"
  "faults_only Division_By_Zero (usart_clock h u)"
  "faults_only Division_By_Zero (usart_baudrate_set h u b)"
proof -
  show pll: "faults_only Division_By_Zero (pll_clock h)"
    unfolding pll_clock_def by (intro fault_intros)
  show fg: "faults_only Division_By_Zero (rcu_clock_freq_get h clock)" for clock
    unfolding rcu_clock_freq_get_def
    by (intro fault_intros pll faults_only_load psc_in_table)
  show ud: "faults_only Division_By_Zero (udivM x y)" for x y
    unfolding udivM_def by (intro fault_intros)
  show uc: "faults_only Division_By_Zero (usart_clock h u)"
    unfolding usart_clock_def by (intro fault_intros fg)
  show "faults_only Division_By_Zero (usart_baudrate_set h u b)"
    unfolding usart_baudrate_set_def by (intro fault_intros ud uc)
qed

lemma option_cases_io [io_intros]:
  "io_only m \<Longrightarrow> (\<And>x. io_only (k x)) \<Longrightarrow> io_only (case v of None \<Rightarrow> m | Some x \<Rightarrow> k x)"
  by (cases v) simp_all

lemma option_cases_total [total_intros]:
  "returns m \<Longrightarrow> (\<And>x. returns (k x)) \<Longrightarrow> returns (case v of None \<Rightarrow> m | Some x \<Rightarrow> k x)"
  by (cases v) simp_all

lemmas uart_defs = rcu_periph_clock_enable_def gpio_af_set_def uart_pin_def gpio_mode_set_def gpio_output_options_set_def
  usart_deinit_def rcu_periph_reset_enable_def rcu_periph_reset_disable_def usart_receive_config_def
  usart_transmit_config_def usart_enable_def nvic_irq_enable_def nvic_priority_split_def nvic_priority_group_set_def

lemma faults_uart [fault_intros]:
  "faults_only e (rcu_periph_clock_enable h p)" "faults_only e (gpio_af_set h p f n)" "faults_only e (uart_pin h p n)"
  "faults_only e (usart_deinit h u)" "faults_only e (usart_receive_config h u c)" "faults_only e (usart_transmit_config h u c)"
  "faults_only e (usart_enable h u)" "faults_only e (nvic_irq_enable h i pre sub)"
  unfolding uart_defs by ((rule faults_only_io; intro io_intros total_intros)[1])+

text \<open>The first three ports are set up, or the division by the PLL prescaler fails; the fourth always fails.\<close>

lemma faults_periph_init: "n < 4 \<Longrightarrow> faults_only Division_By_Zero (bsp_uart_periph_init h n)"
  unfolding bsp_uart_periph_init_def
  by (intro fault_intros faults_only_load)
    (simp_all add: COM_UART_TX_GPIO_CLK_def COM_UART_RX_GPIO_CLK_def COM_UART_CLK_def)

lemma baudrate_zero: "always_faults Division_By_Zero (usart_baudrate_set h u 0)"
  unfolding usart_baudrate_set_def
  by (intro always_faults_bindM fault_intros) (simp add: udivM_def always_faults_def run_simps)

lemma fourth_port: "always_faults Division_By_Zero (bsp_uart_periph_init h 3)"
proof -
  have ld: "faults_only Division_By_Zero (bindM (load_elem tbl 3) (rcu_periph_clock_enable h))" if "length tbl = 4" for tbl
    by (intro fault_intros faults_only_load) (simp add: that)
  show ?thesis
    unfolding bsp_uart_periph_init_def seqM.simps
    by ((rule always_faults_start, (simp add: COM_UART_BAUD_def baudrate_zero; fail)) |
        (rule always_faults_bindM, (rule ld fault_intros; simp add: COM_UART_TX_GPIO_CLK_def COM_UART_RX_GPIO_CLK_def COM_UART_CLK_def)[1]))+
qed

lemma bsp_uart_init_faults: "always_faults Division_By_Zero (bsp_uart_init h)"
proof -
  have "[0..<COM_UART_MAX_NUM] = [0, 1, 2, 3]" by (simp add: COM_UART_MAX_NUM_def upt_rec)
  then show ?thesis
    unfolding bsp_uart_init_def by (simp add: foldM_Cons foldM_Nil always_faults_bindM faults_periph_init fourth_port)
qed

section \<open>The divider of a port\<close>

text \<open>
  After \<open>SystemInit\<close> the clocks are those of the 168 MHz configuration; reading them does not change
  what the registers hold.
\<close>

definition clock_168m :: "rcu_clock_freq \<Rightarrow> u32" where
  "clock_168m clock = (case clock of CK_SYS \<Rightarrow> 168000000 | CK_AHB \<Rightarrow> 168000000 | CK_APB1 \<Rightarrow> 42000000 | CK_APB2 \<Rightarrow> 84000000)"

lemma wp_rcu_clock_freq_get:
  assumes h: "clock_hw h" and s: "cfg0_is 0x9402 (iolog s)" "last_wr RCU_PLL (iolog s) = Some 0x7405408"
    and Q: "\<And>l. same_writes (iolog s) l \<Longrightarrow> Q (clock_168m clock) (s\<lparr>iolog := l\<rparr>)"
  shows "wp (rcu_clock_freq_get h clock) Q s"
proof -
  have cfg: "h l RCU_CFG0 = cfg0_value (case last_wr RCU_CFG0 l of None \<Rightarrow> 0 | Some v \<Rightarrow> v)"
    and pll: "h l RCU_PLL = (case last_wr RCU_PLL l of None \<Rightarrow> 0x24003010 | Some v \<Rightarrow> v)" for l
    using h by (simp_all add: clock_hw_def storage_reg_def)
  have q: "Q v (s\<lparr>iolog := l\<rparr>)" if "same_writes (iolog s) l" "clock_168m clock = v" for v l
    using Q that by blast
  show ?thesis
    using s
    by (cases clock)
      (auto simp: rcu_clock_freq_get_def pll_clock_def wp_simps Let_def cfg pll cfg0_is_def cfg0_value_def GET_BITS_def
        BITS_values ahb_exp_def apb_exp_def HXTAL_VALUE_def clock_168m_def same_writes_def
        intro!: q)
qed

lemma nearest_divider:
  fixes f b :: nat
  assumes "0 < b" "f + b div 2 < b * 65536"
  shows "(f + b div 2) div b < 65536" "2 * \<bar>int ((f + b div 2) div b) * int b - int f\<bar> \<le> int b"
proof -
  let ?d = "(f + b div 2) div b"
  show "?d < 65536" using assms(2) by (simp add: less_mult_imp_div_less mult.commute)
  define D where "D = ?d * b"
  have "f + b div 2 = D + (f + b div 2) mod b" by (simp add: D_def)
  moreover have "(f + b div 2) mod b < b" using assms(1) by simp
  ultimately have "D \<le> f + b div 2" "f + b div 2 < D + b" by linarith+
  moreover have "2 * (b div 2) \<le> b" "b \<le> 2 * (b div 2) + 1" by simp_all
  ultimately have "2 * D \<le> 2 * f + b" "2 * f \<le> 2 * D + b" by linarith+
  then have "2 * \<bar>int D - int f\<bar> \<le> int b" by (cases "D \<le> f") auto
  then show "2 * \<bar>int ?d * int b - int f\<bar> \<le> int b" by (simp add: D_def)
qed

lemma divider_word:
  assumes "udiv < (65536 :: u32)"
  shows "(BITS 0 3 OR BITS 4 15) AND ((udiv AND 0xFFF0) OR (udiv AND 0xF)) = udiv"
proof -
  have "(udiv AND 0xFFF0) OR (udiv AND 0xF) = udiv AND 0xFFFF"
    by (simp only: bit.conj_disj_distrib [symmetric]) simp
  moreover have "BITS 0 3 OR BITS 4 15 = 0xFFFF" by (simp add: BITS_def drop_bit_eq_div)
  moreover have "udiv AND 0xFFFF = udiv" using less_mask_eq [of udiv 16] assms by (simp add: mask_eq_exp_minus_1)
  ultimately show ?thesis by (simp add: and.commute)
qed

lemma wp_usart_clock:
  assumes h: "clock_hw h" and s: "cfg0_is 0x9402 (iolog s)" "last_wr RCU_PLL (iolog s) = Some 0x7405408"
    and u: "u = USART0 \<and> f = 84000000 \<or> u \<in> {USART1, USART2} \<and> f = 42000000"
    and Q: "\<And>l. same_writes (iolog s) l \<Longrightarrow> Q f (s\<lparr>iolog := l\<rparr>)"
  shows "wp (usart_clock h u) Q s"
proof -
  have c: "usart_clock h u = rcu_clock_freq_get h (if u = USART0 then CK_APB2 else CK_APB1)"
    and f: "f = clock_168m (if u = USART0 then CK_APB2 else CK_APB1)"
    using u by (auto simp: usart_clock_def usart_bases clock_168m_def)
  show ?thesis unfolding c by (rule wp_rcu_clock_freq_get [OF h s]) (use Q f in blast)
qed

lemma wp_usart_baudrate_set:
  fixes f b :: u32
  assumes h: "clock_hw h" "\<And>l. \<not> bit (h l (u + 0x0C)) 15"
    and s: "cfg0_is 0x9402 (iolog s)" "last_wr RCU_PLL (iolog s) = Some 0x7405408"
    and u: "u = USART0 \<and> f = 84000000 \<or> u \<in> {USART1, USART2} \<and> f = 42000000"
    and b: "0 < unat b" "unat f + unat b div 2 < unat b * 65536" "unat f + unat b div 2 < 2 ^ 32"
    and Q: "\<And>l. same_writes (iolog s) l \<Longrightarrow>
      Q () (s\<lparr>iolog := Wr (u + 0x08) (of_nat ((unat f + unat b div 2) div unat b)) # l\<rparr>)"
  shows "wp (usart_baudrate_set h u b) Q s"
proof -
  let ?d = "(f + b div 2) div b"
  have d: "unat ?d = (unat f + unat b div 2) div unat b"
    using b(3) by (simp add: unat_div unat_word_ariths)
  have "?d < 65536" using nearest_divider(1) [OF b(1,2)] d by (simp add: word_less_nat_alt)
  then have w: "(BITS 0 3 OR BITS 4 15) AND ((?d AND 0xFFF0) OR (?d AND 0xF)) = of_nat ((unat f + unat b div 2) div unat b)"
    unfolding d [symmetric] by (subst divider_word) simp_all
  have b0: "b \<noteq> 0" using b(1) by auto
  have "wp (bindM (rd32 h (u + 0x0C)) (\<lambda>ctl0.
     if ctl0 AND BIT 15 \<noteq> 0 then
       bindM (udivM (2 * f + b div 2) b) (\<lambda>udiv.
       let intdiv = udiv AND 0xFFF0; fradiv = drop_bit 1 udiv AND 0x7
       in wr32 (u + 0x08) ((BITS 0 3 OR BITS 4 15) AND (intdiv OR fradiv)))
     else
       bindM (udivM (f + b div 2) b) (\<lambda>udiv.
       let intdiv = udiv AND 0xFFF0; fradiv = udiv AND 0xF
       in wr32 (u + 0x08) ((BITS 0 3 OR BITS 4 15) AND (intdiv OR fradiv))))) Q (s\<lparr>iolog := l\<rparr>)"
    if l: "same_writes (iolog s) l" for l
    using Q [OF same_writes_Rd [OF l]] h(2) b0
    by (simp add: wp_simps udivM_def Let_def w and_BIT_eq_0_iff del: push_bit_of_1)
  then show ?thesis
    unfolding usart_baudrate_set_def wp_bindM [of "usart_clock h u"] by (rule wp_usart_clock [OF h(1) s u])
qed

section \<open>Sending and receiving\<close>

text \<open>The data register of the first port, and the bytes written to it so far, oldest first.\<close>

definition USART0_DATA :: u32 where "USART0_DATA = USART0 + 0x04"

definition uart_out :: "io_log \<Rightarrow> u8 list" where
  "uart_out l = map (\<lambda>w. ucast (snd w)) (filter (\<lambda>w. fst w = USART0_DATA) (writes l))"

lemma usart_flag_get_eq:
  "usart_flag_get h (COM_UART ! 0) USART_FLAG_TBE = bindM (rd32 h USART0) (\<lambda>v. ret (bit v 7))"
  "usart_flag_get h (COM_UART ! 0) USART_FLAG_RBNE = bindM (rd32 h USART0) (\<lambda>v. ret (bit v 5))"
  by (simp_all add: usart_flag_get_def COM_UART_def USART_FLAG_TBE_def USART_FLAG_RBNE_def RCU_REGIDX_BIT_def
      and_BIT_eq_0_iff del: push_bit_of_1 push_bit_numeral)

lemma wp_poll_uart:
  assumes "responds h USART0 (\<lambda>v. bit v n)"
    and Q: "\<And>l. writes l = writes (iolog s) \<Longrightarrow> Q () (s\<lparr>iolog := l\<rparr>)"
  shows "wp (whileM (\<lambda>_. bindM (bindM (rd32 h USART0) (\<lambda>v. ret (bit v n))) (\<lambda>f. ret (\<not> f))) ret ()) Q s"
proof -
  obtain d :: "io_log \<Rightarrow> nat" where d: "\<And>l. \<not> bit (h l USART0) n \<Longrightarrow> d (Rd USART0 (h l USART0) # l) < d l"
    using assms(1) by (auto simp: responds_def)
  show ?thesis
  proof (rule wp_whileM [where I = "\<lambda>_ t. \<exists>l. t = s\<lparr>iolog := l\<rparr> \<and> writes l = writes (iolog s)"
        and M = "\<lambda>_ t. d (iolog t)"], goal_cases)
    case 1
    show ?case by (auto intro!: exI [of _ "iolog s"])
  next
    case (2 v t)
    then show ?case by (auto simp: wp_simps d intro!: Q)
  qed
qed

lemma ucast_byte:
  "BITS 0 8 AND ucast (ucast b :: u16) = (ucast b :: u32)" "ucast (ucast b :: u32) = b" for b :: u8
proof -
  have u: "unat (ucast b :: u32) = unat b" and u16: "unat (ucast b :: u16) = unat b"
    using unsigned_less [of b, where ?'a = nat] by (simp_all add: unsigned_ucast_eq take_bit_nat_eq_self)
  show "ucast (ucast b :: u32) = b"
    by (rule word_unat_eq_iff [THEN iffD2], simp only: unsigned_ucast_eq [of "ucast b :: u32"] u)
      (use unsigned_less [of b, where ?'a = nat] in \<open>simp add: take_bit_nat_eq_self\<close>)
  have "BITS 0 8 = mask 9" by (simp add: BITS_def drop_bit_eq_div mask_eq_exp_minus_1)
  moreover have "ucast b AND mask 9 = (ucast b :: u32)"
    by (rule less_mask_eq) (use unsigned_less [of b, where ?'a = nat] in \<open>simp add: word_less_nat_alt u\<close>)
  moreover have "ucast (ucast b :: u16) = (ucast b :: u32)"
    by (rule word_unat_eq_iff [THEN iffD2], simp only: unsigned_ucast_eq [of "ucast b :: u16"] u u16)
      (use unsigned_less [of b, where ?'a = nat] in \<open>simp add: take_bit_nat_eq_self\<close>)
  ultimately show "BITS 0 8 AND ucast (ucast b :: u16) = (ucast b :: u32)" by (simp add: and.commute)
qed

lemma wp_uart_sendbyte:
  assumes "responds h USART0 (\<lambda>v. bit v 7)"
    and Q: "\<And>l. writes l = writes (iolog s) @ [(USART0_DATA, ucast b)] \<Longrightarrow> Q () (s\<lparr>iolog := l\<rparr>)"
  shows "wp (uart_sendbyte h b) Q s"
  unfolding uart_sendbyte_def usart_data_transmit_def wp_thenM wp_wr32 usart_flag_get_eq ucast_byte(1)
  by (rule wp_poll_uart [OF assms(1)]) (simp add: Q COM_UART_def USART0_DATA_def)

lemma wp_send_uart_bytes:
  assumes "responds h USART0 (\<lambda>v. bit v 7)"
    and "\<And>l. writes l = writes (iolog s) @ map (\<lambda>b. (USART0_DATA, ucast b)) bs \<Longrightarrow> Q () (s\<lparr>iolog := l\<rparr>)"
  shows "wp (foldM (\<lambda>b _. uart_sendbyte h b) bs ()) Q s"
  using assms(2)
proof (induction bs arbitrary: s)
  case Nil
  from Nil [of "iolog s"] show ?case by (simp add: wp_simps)
next
  case (Cons b bs)
  show ?case
    unfolding foldM_Cons wp_bindM
    by (rule wp_uart_sendbyte [OF assms(1)]) (auto intro!: Cons.IH Cons.prems)
qed

lemma uart_out_append:
  "writes l = writes l0 @ map (\<lambda>b. (USART0_DATA, ucast b)) bs \<Longrightarrow> uart_out l = uart_out l0 @ bs"
  by (simp add: uart_out_def comp_def filter_map ucast_byte)

section \<open>Properties\<close>

text \<open>
  C27: after \<open>SystemInit\<close> the baud rate register of a port gets the nearest divider of its bus clock
  (84 MHz for USART0, 42 MHz for USART1 and USART2): the rate it stands for is off by at most half a
  step. The divider must fit in 16 bits, and the port must sample 16 times per bit, as after reset.
\<close>

theorem baud_rate_is_nearest:
  fixes b :: u32 and s :: "'z bus_scheme"
  assumes "clock_hw h" "\<And>l. \<not> bit (h l (u + 0x0C)) 15"
    and "u = USART0 \<and> f = (84 * 10 ^ 6 :: nat) \<or> u \<in> {USART1, USART2} \<and> f = 42 * 10 ^ 6"
    and "0 < unat b" "f + unat b div 2 < unat b * 65536" "f + unat b div 2 < 2 ^ 32"
  shows "wp (thenM (SystemInit h) (usart_baudrate_set h u b))
           (\<lambda>_ t. \<exists>d. last_wr (u + 0x08) (iolog t) = Some d \<and> 2 * \<bar>int (unat d) * int (unat b) - int f\<bar> \<le> int (unat b)) s"
proof -
  let ?Q = "\<lambda>_ t. \<exists>d. last_wr (u + 0x08) (iolog t) = Some d \<and> 2 * \<bar>int (unat d) * int (unat b) - int f\<bar> \<le> int (unat b)"
  let ?d = "(f + unat b div 2) div unat b"
  have f: "unat (of_nat f :: u32) = f" using assms(3) by (auto simp: unat_word_of_nat)
  have d: "unat (of_nat ?d :: u32) = ?d"
    by (rule unat_word_of_nat) (use nearest_divider(1) [OF assms(4,5)] in simp)
  have n: "2 * \<bar>int (unat (of_nat ?d :: u32)) * int (unat b) - int f\<bar> \<le> int (unat b)"
    unfolding d by (rule nearest_divider(2) [OF assms(4,5)])
  have u: "u = USART0 \<and> (of_nat f :: u32) = 84000000 \<or> u \<in> {USART1, USART2} \<and> (of_nat f :: u32) = 42000000"
    using assms(3) by auto
  have "wp (usart_baudrate_set h u b) ?Q t" if t: "pll_168m s t" for t
  proof -
    from t obtain l where t: "t = s\<lparr>iolog := l\<rparr>" "cfg0_is 0x9402 (iolog t)" "last_wr RCU_PLL (iolog t) = Some 0x7405408"
      by (auto simp: pll_168m_def)
    show ?thesis
      by (rule wp_usart_baudrate_set [OF assms(1,2) t(2,3) u]) (use assms(4-6) n in \<open>simp_all add: f\<close>)
  qed
  with wp_SystemInit [OF assms(1), of s] show ?thesis
    unfolding wp_thenM by (rule wp_mono) auto
qed

text \<open>A board whose registers of the first port read as after reset.\<close>

definition demo_uart :: hw where
  "demo_uart l a = (if a = USART0 + 0x0C then 0 else demo_clock l a)"

lemma demo_uart_clock: "clock_hw demo_uart"
  using demo_clock_hw
  by (auto simp: clock_hw_def demo_uart_def clock_regs usart_bases storage_reg_def responds_def demo_clock_def)

theorem baud_rate_is_nearest_witness:
  "wp (thenM (SystemInit demo_uart) (usart_baudrate_set demo_uart USART0 115200))
     (\<lambda>_ t. last_wr (USART0 + 0x08) (iolog t) = Some 729) board_start"
proof (rule wp_mono [OF baud_rate_is_nearest [where b = 115200 and f = "84 * 10 ^ 6"]])
  fix t :: board
  assume "\<exists>d. last_wr (USART0 + 0x08) (iolog t) = Some d \<and>
    2 * \<bar>int (unat d) * int (unat (115200 :: u32)) - int (84 * 10 ^ 6)\<bar> \<le> int (unat (115200 :: u32))"
  then obtain d where d: "last_wr (USART0 + 0x08) (iolog t) = Some d" "2 * \<bar>int (unat d) * 115200 - 84000000\<bar> \<le> 115200"
    by (auto simp del: of_nat_unat)
  from d(2) have "\<bar>int (unat d) * 115200 - 84000000\<bar> \<le> 57600" by (simp del: of_nat_unat)
  then have "int (unat d) * 115200 - 84000000 \<le> 57600" "- (int (unat d) * 115200 - 84000000) \<le> 57600"
    by (rule abs_le_D1, rule abs_le_D2)
  then have "unat d = 729" by linarith
  then have "d = 729" by (simp add: word_unat_eq_iff)
  with d(1) show "last_wr (USART0 + 0x08) (iolog t) = Some 729" by simp
qed (use demo_uart_clock in \<open>simp_all add: demo_uart_def\<close>)

text \<open>
  C29: \<open>bsp_uart_init\<close> never returns normally: whatever the hardware answers, it divides by zero, at the
  latest for the fourth port, whose entry in the table of baud rates is missing. It is the second
  call of \<open>main\<close>.
\<close>

theorem uart_init_divides_by_zero: "bsp_uart_init h s = Some (Inl Division_By_Zero)"
  by (rule bsp_uart_init_faults [unfolded always_faults_def, rule_format])

text \<open>
  bytes sent one after the other are written to the data register of the first port in their order,
  each exactly once and in full, with no other register written, provided that the transmit buffer
  empties after each.
\<close>

theorem sent_bytes_in_order:
  fixes s :: "'z bus_scheme"
  assumes "responds h USART0 (\<lambda>v. bit v 7)"
  shows "wp (foldM (\<lambda>b _. uart_sendbyte h b) bs ())
    (\<lambda>_ t. (\<exists>l. t = s\<lparr>iolog := l\<rparr>) \<and> uart_out (iolog t) = uart_out (iolog s) @ bs \<and>
       length (writes (iolog t)) = length (writes (iolog s)) + length bs) s"
  by (rule wp_send_uart_bytes [OF assms]) (auto simp: uart_out_append)

theorem sent_bytes_in_order_witness:
  "wp (foldM (\<lambda>b _. uart_sendbyte demo_uart b) [0x41, 0xFF] ()) (\<lambda>_ t. uart_out (iolog t) = [0x41, 0xFF]) board_start"
proof -
  have "responds demo_uart USART0 (\<lambda>v. bit v 7)"
    by (simp add: responds_def demo_uart_def demo_clock_def usart_bases clock_regs)
  from sent_bytes_in_order [OF this, of "[0x41, 0xFF]" board_start] show ?thesis
    by (rule wp_mono) (simp add: board_start_def uart_out_def)
qed

end
