(* ===== verification/Bsp_Enet.thy ===== *)
theory Bsp_Enet
  imports System_Tick
begin

text \<open>
  The periodic part of the network set-up, \<open>src/user/bsp/bsp_enet.c\<close>: the default addresses, the time base
  given to lwIP and \<open>lwip_periodic_handle\<close>, which the main loop calls with the system tick. The four lwIP
  functions it calls are recorded in the order of the calls. The timers compare 32-bit times by subtraction;
  they behave as if time never wrapped.
\<close>

section \<open>The code\<close>

datatype lwip_tmr = Tcp_Tmr | Etharp_Tmr | Dhcp_Fine_Tmr | Dhcp_Coarse_Tmr

record lwip_dev =
  mac :: "u8 list"
  remoteip :: "u8 list"
  ip :: "u8 list"
  netmask :: "u8 list"
  gateway :: "u8 list"

record enet = board +
  lwipdev :: lwip_dev
  tcp_timer :: u32
  arp_timer :: u32
  dhcp_fine_timer :: u32
  dhcp_coarse_timer :: u32
  tmr_calls :: "lwip_tmr list"

definition lwip_comm_default_ip_set :: "lwip_dev \<Rightarrow> lwip_dev" where
  "lwip_comm_default_ip_set lwipx =
     lwipx\<lparr>remoteip := [192, 168, 1, 27], mac := [2, 0xA, 0xF, 0xE, 0xD, 6], ip := [192, 168, 1, 123],
           netmask := [255, 255, 255, 0], gateway := [192, 168, 1, 1]\<rparr>"

definition TCP_TMR_INTERVAL :: u32 where "TCP_TMR_INTERVAL = 250"
definition ARP_TMR_INTERVAL :: u32 where "ARP_TMR_INTERVAL = 1000"
definition DHCP_FINE_TIMER_MSECS :: u32 where "DHCP_FINE_TIMER_MSECS = 500"
definition DHCP_COARSE_TIMER_MSECS :: u32 where "DHCP_COARSE_TIMER_MSECS = 60000"

definition lwip_periodic_handle :: "u32 \<Rightarrow> 'z enet_scheme \<Rightarrow> 'z enet_scheme" where
  "lwip_periodic_handle localtime s =
     (let s = (if localtime - tcp_timer s \<ge> TCP_TMR_INTERVAL
               then s\<lparr>tcp_timer := localtime, tmr_calls := tmr_calls s @ [Tcp_Tmr]\<rparr> else s);
          s = (if localtime - arp_timer s \<ge> ARP_TMR_INTERVAL
               then s\<lparr>arp_timer := localtime, tmr_calls := tmr_calls s @ [Etharp_Tmr]\<rparr> else s);
          s = (if localtime - dhcp_fine_timer s \<ge> DHCP_FINE_TIMER_MSECS
               then s\<lparr>dhcp_fine_timer := localtime, tmr_calls := tmr_calls s @ [Dhcp_Fine_Tmr]\<rparr> else s)
      in if localtime - dhcp_coarse_timer s \<ge> DHCP_COARSE_TIMER_MSECS
         then s\<lparr>dhcp_coarse_timer := localtime, tmr_calls := tmr_calls s @ [Dhcp_Coarse_Tmr]\<rparr> else s)"

text \<open>\<open>sys_now\<close>, the clock of lwIP in milliseconds, is the number of ticks.\<close>

definition sys_now :: "'z board_scheme \<Rightarrow> u32" where
  "sys_now s = g_system_tick s"

text \<open>The call of the main loop: \<open>lwip_periodic_handle(get_system_tick())\<close>.\<close>

definition main_lwip_turn :: "'z enet_scheme \<Rightarrow> 'z enet_scheme" where
  "main_lwip_turn s = lwip_periodic_handle (g_system_tick s) s"

section \<open>Timers over unbounded time\<close>

text \<open>
  The reference: the calls come at the times \<open>ts\<close>, natural numbers. The timer \<open>x\<close> that ran lst at \<open>lst x\<close> is
  due at \<open>t\<close> if its interval has passed.
\<close>

fun interval :: "lwip_tmr \<Rightarrow> nat" where
  "interval Tcp_Tmr = 250"
| "interval Etharp_Tmr = 1000"
| "interval Dhcp_Fine_Tmr = 500"
| "interval Dhcp_Coarse_Tmr = 60000"

fun periodic_spec :: "nat list \<Rightarrow> (lwip_tmr \<Rightarrow> nat) \<Rightarrow> lwip_tmr list" where
  "periodic_spec [] lst = []"
| "periodic_spec (t # ts) lst =
     filter (\<lambda>x. lst x + interval x \<le> t) [Tcp_Tmr, Etharp_Tmr, Dhcp_Fine_Tmr, Dhcp_Coarse_Tmr] @
     periodic_spec ts (\<lambda>x. if lst x + interval x \<le> t then t else lst x)"

text \<open>Time does not go back, and the main loop never pauses for more than \<open>2 ^ 31\<close> ticks, which is 248 days.\<close>

fun steady :: "nat \<Rightarrow> nat list \<Rightarrow> bool" where
  "steady p [] \<longleftrightarrow> True"
| "steady p (t # ts) \<longleftrightarrow> p \<le> t \<and> t \<le> p + 2 ^ 31 \<and> steady t ts"

text \<open>The variables hold the times \<open>lst\<close>, none of which is overdue at \<open>p\<close>.\<close>

definition timers_at :: "(lwip_tmr \<Rightarrow> nat) \<Rightarrow> nat \<Rightarrow> 'z enet_scheme \<Rightarrow> bool" where
  "timers_at lst p s \<longleftrightarrow> (\<forall>x. lst x \<le> p \<and> p < lst x + interval x) \<and>
     tcp_timer s = of_nat (lst Tcp_Tmr) \<and> arp_timer s = of_nat (lst Etharp_Tmr) \<and>
     dhcp_fine_timer s = of_nat (lst Dhcp_Fine_Tmr) \<and> dhcp_coarse_timer s = of_nat (lst Dhcp_Coarse_Tmr)"

lemma elapsed:
  assumes "a \<le> t" "t < a + 2 ^ 32" "n < 2 ^ 32"
  shows "(of_nat n :: u32) \<le> of_nat t - of_nat a \<longleftrightarrow> n \<le> t - a"
proof -
  have "(of_nat t - of_nat a :: u32) = of_nat (t - a)" using assms(1) by (simp add: of_nat_diff)
  then have "unat (of_nat t - of_nat a :: u32) = t - a" using assms by (simp only:) (rule unat_word_of_nat, simp)
  then show ?thesis using assms by (simp add: word_le_nat_alt unat_word_of_nat)
qed

lemma due:
  fixes lst :: "lwip_tmr \<Rightarrow> nat"
  assumes "\<forall>x. lst x \<le> p \<and> p < lst x + interval x" "p \<le> t" "t \<le> p + 2 ^ 31"
  shows "TCP_TMR_INTERVAL \<le> of_nat t - of_nat (lst Tcp_Tmr) \<longleftrightarrow> lst Tcp_Tmr + interval Tcp_Tmr \<le> t"
    "ARP_TMR_INTERVAL \<le> of_nat t - of_nat (lst Etharp_Tmr) \<longleftrightarrow> lst Etharp_Tmr + interval Etharp_Tmr \<le> t"
    "DHCP_FINE_TIMER_MSECS \<le> of_nat t - of_nat (lst Dhcp_Fine_Tmr) \<longleftrightarrow> lst Dhcp_Fine_Tmr + interval Dhcp_Fine_Tmr \<le> t"
    "DHCP_COARSE_TIMER_MSECS \<le> of_nat t - of_nat (lst Dhcp_Coarse_Tmr) \<longleftrightarrow> lst Dhcp_Coarse_Tmr + interval Dhcp_Coarse_Tmr \<le> t"
proof -
  have range: "lst x \<le> t" "t < lst x + interval x + 2 ^ 31" for x
    using assms(1) [rule_format, of x] assms(2,3) by linarith+
  have le: "interval x \<le> 60000" for x by (cases x) simp_all
  have "t < lst x + 2 ^ 32" for x by (rule order_less_le_trans [OF range(2) [of x]]) (use le [of x] in simp)
  note el = elapsed [OF range(1) this]
  show "TCP_TMR_INTERVAL \<le> of_nat t - of_nat (lst Tcp_Tmr) \<longleftrightarrow> lst Tcp_Tmr + interval Tcp_Tmr \<le> t"
    "ARP_TMR_INTERVAL \<le> of_nat t - of_nat (lst Etharp_Tmr) \<longleftrightarrow> lst Etharp_Tmr + interval Etharp_Tmr \<le> t"
    "DHCP_FINE_TIMER_MSECS \<le> of_nat t - of_nat (lst Dhcp_Fine_Tmr) \<longleftrightarrow> lst Dhcp_Fine_Tmr + interval Dhcp_Fine_Tmr \<le> t"
    "DHCP_COARSE_TIMER_MSECS \<le> of_nat t - of_nat (lst Dhcp_Coarse_Tmr) \<longleftrightarrow> lst Dhcp_Coarse_Tmr + interval Dhcp_Coarse_Tmr \<le> t"
    using el [of 250 Tcp_Tmr] el [of 1000 Etharp_Tmr] el [of 500 Dhcp_Fine_Tmr] el [of 60000 Dhcp_Coarse_Tmr] range(1)
    by (simp_all add: TCP_TMR_INTERVAL_def ARP_TMR_INTERVAL_def DHCP_FINE_TIMER_MSECS_def DHCP_COARSE_TIMER_MSECS_def le_diff_conv2 add.commute)
qed

lemma handle_step:
  assumes "timers_at lst p s" "p \<le> t" "t \<le> p + 2 ^ 31"
  shows "timers_at (\<lambda>x. if lst x + interval x \<le> t then t else lst x) t (lwip_periodic_handle (of_nat t) s)"
    "tmr_calls (lwip_periodic_handle (of_nat t) s) = tmr_calls s @
       filter (\<lambda>x. lst x + interval x \<le> t) [Tcp_Tmr, Etharp_Tmr, Dhcp_Fine_Tmr, Dhcp_Coarse_Tmr]"
proof -
  have all: "\<forall>x. lst x \<le> p \<and> p < lst x + interval x" using assms(1) by (simp add: timers_at_def)
  have "0 < interval x" for x by (cases x) simp_all
  then have "\<forall>x. (if lst x + interval x \<le> t then t else lst x) \<le> t \<and>
      t < (if lst x + interval x \<le> t then t else lst x) + interval x"
    using all assms(2) by (auto intro: order_trans)
  with assms(1) show "timers_at (\<lambda>x. if lst x + interval x \<le> t then t else lst x) t (lwip_periodic_handle (of_nat t) s)"
    by (simp add: timers_at_def lwip_periodic_handle_def Let_def due [OF all assms(2,3)] del: interval.simps)
  show "tmr_calls (lwip_periodic_handle (of_nat t) s) = tmr_calls s @
       filter (\<lambda>x. lst x + interval x \<le> t) [Tcp_Tmr, Etharp_Tmr, Dhcp_Fine_Tmr, Dhcp_Coarse_Tmr]"
    using assms(1) by (simp add: timers_at_def lwip_periodic_handle_def Let_def due [OF all assms(2,3)] del: interval.simps)
qed

section \<open>Properties\<close>

text \<open>
  C40: the wrap-around of the tick counter does not disturb the lwIP timers. For every sequence of calls of
  \<open>lwip_periodic_handle\<close> at times that only grow, however long, the lwIP functions called, and their order,
  are those of the reference over unbounded time: each is called exactly when its interval, counted in
  ticks, has passed since its lst call.
\<close>

theorem periodic_timers_ignore_wraparound:
  assumes "timers_at lst p s" and "steady p ts"
  shows "tmr_calls (fold (\<lambda>t. lwip_periodic_handle (of_nat t)) ts s) = tmr_calls s @ periodic_spec ts lst"
  using assms
proof (induction ts arbitrary: lst p s)
  case (Cons t ts)
  then have "p \<le> t" "t \<le> p + 2 ^ 31" "steady t ts" by simp_all
  note step = handle_step [OF Cons.prems(1) this(1,2)]
  from Cons.IH [OF step(1) \<open>steady t ts\<close>] step(2) show ?case by simp
qed simp

definition enet_start :: "u32 \<Rightarrow> enet" where
  "enet_start t = \<lparr>iolog = [], SystemCoreClock = 168000000, g_system_tick = t, softtimers = soft_timers_start,
     lwipdev = \<lparr>mac = [], remoteip = [], ip = [], netmask = [], gateway = []\<rparr>,
     tcp_timer = t, arp_timer = t, dhcp_fine_timer = t, dhcp_coarse_timer = t, tmr_calls = []\<rparr>"

text \<open>Three calls around the moment the counter wraps: 249, 250 and 1000 ticks after \<open>2 ^ 32 - 100\<close>.\<close>

theorem periodic_timers_ignore_wraparound_witness:
  "tmr_calls (fold (\<lambda>t. lwip_periodic_handle (of_nat t)) [4294967445, 4294967446, 4294968196] (enet_start 4294967196)) =
     [Tcp_Tmr, Tcp_Tmr, Etharp_Tmr, Dhcp_Fine_Tmr]"
proof -
  have iv: "interval x = (case x of Tcp_Tmr \<Rightarrow> 250 | Etharp_Tmr \<Rightarrow> 1000 | Dhcp_Fine_Tmr \<Rightarrow> 500 | Dhcp_Coarse_Tmr \<Rightarrow> 60000)" for x
    by (cases x) simp_all
  have "timers_at (\<lambda>_. 4294967196) 4294967196 (enet_start 4294967196)"
    by (auto simp: timers_at_def enet_start_def iv split: lwip_tmr.split)
  from periodic_timers_ignore_wraparound [OF this, of "[4294967445, 4294967446, 4294968196]"] show ?thesis
    by (simp add: enet_start_def)
qed

end
