(* ===== verification/Lwip_Pbuf.thy ===== *)
theory Lwip_Pbuf
  imports C_Machine
begin

text \<open>
  Packet buffers: the functions of \<open>core/pbuf.c\<close> of lwIP that work on existing chains, over an explicit
  heap. A pointer is an address or \<open>None\<close> (\<open>NULL\<close>); a buffer that was given back is no longer in the heap,
  and using it is a fault. Assertions do nothing in this build (\<open>LWIP_PLATFORM_ASSERT\<close> is empty in
  \<open>arch/cc.h\<close>); the checks of \<open>LWIP_ERROR\<close> return. The theorems relate each function to the list of bytes
  a chain stands for.
\<close>

section \<open>The heap\<close>

record pbuf =
  p_next :: "nat option"
  payload :: "u8 list"
  tot_len :: u16
  p_len :: u16
  p_ref :: u8

record netmem =
  pbufs :: "nat \<rightharpoonup> pbuf"

definition read_pbuf :: "nat option \<Rightarrow> ('z netmem_scheme, pbuf) cm" where
  "read_pbuf p =
     (case p of None \<Rightarrow> faultM Null_Dereference
      | Some a \<Rightarrow> bindM (getM pbufs) (\<lambda>m. case m a of None \<Rightarrow> faultM Out_Of_Bounds | Some b \<Rightarrow> ret b))"

definition modify_pbuf :: "nat option \<Rightarrow> (pbuf \<Rightarrow> pbuf) \<Rightarrow> ('z netmem_scheme, unit) cm" where
  "modify_pbuf p f =
     (case p of None \<Rightarrow> faultM Null_Dereference
      | Some a \<Rightarrow> bindM (read_pbuf p) (\<lambda>b. modM (\<lambda>s. s\<lparr>pbufs := (pbufs s)(a \<mapsto> f b)\<rparr>)))"

text \<open>\<open>memp_free\<close> and \<open>mem_free\<close>: the buffer goes back to where it came from.\<close>

definition release_pbuf :: "nat option \<Rightarrow> ('z netmem_scheme, unit) cm" where
  "release_pbuf p =
     (case p of None \<Rightarrow> faultM Null_Dereference
      | Some a \<Rightarrow> bindM (read_pbuf p) (\<lambda>_. modM (\<lambda>s. s\<lparr>pbufs := (pbufs s)(a := None)\<rparr>)))"

section \<open>Reference counts and chains\<close>

definition free_turn :: "nat option \<times> u8 \<Rightarrow> ('z netmem_scheme, nat option \<times> u8) cm" where
  "free_turn = (\<lambda>(p, count).
        thenM (modify_pbuf p (\<lambda>b. b\<lparr>p_ref := p_ref b - 1\<rparr>))
       (bindM (read_pbuf p) (\<lambda>b.
        if p_ref b = 0 then thenM (release_pbuf p) (ret (p_next b, count + 1))
        else ret (None, count))))"

definition pbuf_free :: "nat option \<Rightarrow> ('z netmem_scheme, u8) cm" where
  "pbuf_free p =
     (if p = None then ret 0
      else bindM (whileM (\<lambda>(p, count). ret (p \<noteq> None)) free_turn (p, 0)) (\<lambda>(p, count). ret count))"

definition pbuf_clen :: "nat option \<Rightarrow> ('z netmem_scheme, u16) cm" where
  "pbuf_clen p =
     bindM (whileM (\<lambda>(p, n). ret (p \<noteq> None)) (\<lambda>(p, n). bindM (read_pbuf p) (\<lambda>b. ret (p_next b, n + 1))) (p, 0))
       (\<lambda>(p, n). ret n)"

definition pbuf_ref :: "nat option \<Rightarrow> ('z netmem_scheme, unit) cm" where
  "pbuf_ref p = whenM (p \<noteq> None) (modify_pbuf p (\<lambda>b. b\<lparr>p_ref := p_ref b + 1\<rparr>))"

definition add_tot_len :: "nat option \<Rightarrow> nat option \<Rightarrow> ('z netmem_scheme, unit) cm" where
  "add_tot_len p t = bindM (read_pbuf t) (\<lambda>tb. modify_pbuf p (\<lambda>b. b\<lparr>tot_len := tot_len b + tot_len tb\<rparr>))"

definition pbuf_cat :: "nat option \<Rightarrow> nat option \<Rightarrow> ('z netmem_scheme, unit) cm" where
  "pbuf_cat h t =
     (if h = None \<or> t = None then ret ()
      else bindM (whileM (\<lambda>p. bindM (read_pbuf p) (\<lambda>b. ret (p_next b \<noteq> None)))
              (\<lambda>p. thenM (add_tot_len p t) (bindM (read_pbuf p) (\<lambda>b. ret (p_next b)))) h) (\<lambda>p.
           thenM (add_tot_len p t)
                 (modify_pbuf p (\<lambda>b. b\<lparr>p_next := t\<rparr>))))"

definition pbuf_chain :: "nat option \<Rightarrow> nat option \<Rightarrow> ('z netmem_scheme, unit) cm" where
  "pbuf_chain h t = thenM (pbuf_cat h t) (pbuf_ref t)"

definition pbuf_dechain :: "nat option \<Rightarrow> ('z netmem_scheme, nat option) cm" where
  "pbuf_dechain p =
     bindM (read_pbuf p) (\<lambda>b. let q = p_next b in
     bindM (if q \<noteq> None then
              thenM (modify_pbuf q (\<lambda>qb. qb\<lparr>tot_len := tot_len b - p_len b\<rparr>))
             (thenM (modify_pbuf p (\<lambda>b. b\<lparr>p_next := None\<rparr>))
             (thenM (modify_pbuf p (\<lambda>b. b\<lparr>tot_len := p_len b\<rparr>))
             (pbuf_free q)))
            else ret 1) (\<lambda>tail_gone. ret (if tail_gone > 0 then None else q)))"

section \<open>Contents\<close>

text \<open>\<open>MEMCPY\<close> into and out of arrays; an index past either array is a fault.\<close>

definition copy_into :: "u8 list \<Rightarrow> nat \<Rightarrow> u8 list \<Rightarrow> nat \<Rightarrow> nat \<Rightarrow> ('s, u8 list) cm" where
  "copy_into dst i src j n =
     (if i + n \<le> length dst \<and> j + n \<le> length src
      then ret (take i dst @ take n (drop j src) @ drop (i + n) dst)
      else faultM Out_Of_Bounds)"

text \<open>One turn of the loop: the position in the chain, what is left to copy, the offset, and the target.\<close>

definition copy_turn ::
  "nat option \<times> u16 \<times> u16 \<times> u16 \<times> u16 \<times> u8 list \<Rightarrow>
   ('z netmem_scheme, nat option \<times> u16 \<times> u16 \<times> u16 \<times> u16 \<times> u8 list) cm" where
  "copy_turn = (\<lambda>(p, len, offset, left, copied_total, dataptr).
     bindM (read_pbuf p) (\<lambda>b.
     if offset \<noteq> 0 \<and> offset \<ge> p_len b then ret (p_next b, len, offset - p_len b, left, copied_total, dataptr)
     else let buf_copy_len = p_len b - offset;
              buf_copy_len = (if buf_copy_len > len then len else buf_copy_len)
          in bindM (copy_into dataptr (unat left) (payload b) (unat offset) (unat buf_copy_len)) (\<lambda>dataptr.
             ret (p_next b, len - buf_copy_len, 0, left + buf_copy_len, copied_total + buf_copy_len, dataptr))))"

definition pbuf_copy_partial ::
  "nat option \<Rightarrow> u8 list option \<Rightarrow> u16 \<Rightarrow> u16 \<Rightarrow> ('z netmem_scheme, u16 \<times> u8 list option) cm" where
  "pbuf_copy_partial buf dataptr len offset =
     (if buf = None then ret (0, dataptr)
      else case dataptr of None \<Rightarrow> ret (0, dataptr)
      | Some d \<Rightarrow>
          bindM (whileM (\<lambda>(p, len, _). ret (len \<noteq> 0 \<and> p \<noteq> None)) copy_turn (buf, len, offset, 0, 0, d))
            (\<lambda>(p, len, offset, left, copied_total, d). ret (copied_total, Some d)))"

definition pbuf_skip :: "nat option \<Rightarrow> u16 \<Rightarrow> ('z netmem_scheme, nat option \<times> u16) cm" where
  "pbuf_skip inp in_offset =
     whileM (\<lambda>(q, offset_left). if q = None then ret False else bindM (read_pbuf q) (\<lambda>b. ret (p_len b \<le> offset_left)))
       (\<lambda>(q, offset_left). bindM (read_pbuf q) (\<lambda>b. ret (p_next b, offset_left - p_len b))) (inp, in_offset)"

definition pbuf_try_get_at :: "nat option \<Rightarrow> u16 \<Rightarrow> ('z netmem_scheme, int) cm" where
  "pbuf_try_get_at p offset =
     bindM (pbuf_skip p offset) (\<lambda>(q, q_idx).
     if q = None then ret (- 1)
     else bindM (read_pbuf q) (\<lambda>b.
          if p_len b > q_idx then bindM (load_elem (payload b) (unat q_idx)) (\<lambda>v. ret (uint v)) else ret (- 1)))"

definition pbuf_get_at :: "nat option \<Rightarrow> u16 \<Rightarrow> ('z netmem_scheme, u8) cm" where
  "pbuf_get_at p offset = bindM (pbuf_try_get_at p offset) (\<lambda>r. ret (if r \<ge> 0 then word_of_int r else 0))"

definition pbuf_put_at :: "nat option \<Rightarrow> u16 \<Rightarrow> u8 \<Rightarrow> ('z netmem_scheme, unit) cm" where
  "pbuf_put_at p offset data =
     bindM (pbuf_skip p offset) (\<lambda>(q, q_idx).
     if q = None then ret ()
     else bindM (read_pbuf q) (\<lambda>b.
          whenM (p_len b > q_idx)
            (bindM (store_elem (payload b) (unat q_idx) data) (\<lambda>d. modify_pbuf q (\<lambda>b. b\<lparr>payload := d\<rparr>)))))"

text \<open>
  \<open>pbuf_memcmp\<close>: the loop returns the position after the first difference, and the sum of offset and
  length is formed in \<open>int\<close>, without wrap-around.
\<close>

definition pbuf_memcmp :: "nat option \<Rightarrow> u16 \<Rightarrow> u8 list \<Rightarrow> u16 \<Rightarrow> ('z netmem_scheme, u16) cm" where
  "pbuf_memcmp p offset s2 n =
     bindM (read_pbuf p) (\<lambda>b.
     if unat (tot_len b) < unat offset + unat n then ret 0xFFFF
     else bindM (pbuf_skip p offset) (\<lambda>(q, start).
          bindM (whileM (\<lambda>(i, r). ret (r = None \<and> i < n)) (\<lambda>(i, r).
             bindM (pbuf_get_at q (start + i)) (\<lambda>a.
             bindM (load_elem s2 (unat i)) (\<lambda>b.
             if a \<noteq> b then ret (i, Some (of_nat (min (unat i + 1) 0xFFFF))) else ret (i + 1, None)))) (0, None)) (\<lambda>(i, r).
          ret (case r of None \<Rightarrow> 0 | Some v \<Rightarrow> v))))"

section \<open>Chains and packets\<close>

lemma wp_read_pbuf [wp_simps]:
  "wp (read_pbuf None) Q = (\<lambda>s. False)"
  "wp (read_pbuf (Some a)) Q = (\<lambda>s. case pbufs s a of None \<Rightarrow> False | Some b \<Rightarrow> Q b s)"
  by (auto simp: read_pbuf_def wp_simps fun_eq_iff split: option.split)

lemma wp_modify_pbuf [wp_simps]:
  "wp (modify_pbuf None f) Q = (\<lambda>s. False)"
  "wp (modify_pbuf (Some a) f) Q = (\<lambda>s. case pbufs s a of None \<Rightarrow> False | Some b \<Rightarrow> Q () (s\<lparr>pbufs := (pbufs s)(a \<mapsto> f b)\<rparr>))"
  by (simp_all add: modify_pbuf_def wp_simps)

lemma wp_release_pbuf [wp_simps]:
  "wp (release_pbuf None) Q = (\<lambda>s. False)"
  "wp (release_pbuf (Some a)) Q = (\<lambda>s. case pbufs s a of None \<Rightarrow> False | Some b \<Rightarrow> Q () (s\<lparr>pbufs := (pbufs s)(a := None)\<rparr>))"
  by (simp_all add: release_pbuf_def wp_simps)

text \<open>The buffers a pointer leads to, in their order, and the bytes they hold.\<close>

fun chain :: "(nat \<rightharpoonup> pbuf) \<Rightarrow> nat option \<Rightarrow> nat list \<Rightarrow> bool" where
  "chain m p [] = (p = None)"
| "chain m p (a # as) = (p = Some a \<and> (case m a of None \<Rightarrow> False | Some b \<Rightarrow> chain m (p_next b) as))"

definition bytes :: "(nat \<rightharpoonup> pbuf) \<Rightarrow> nat list \<Rightarrow> u8 list" where
  "bytes m as = concat (map (\<lambda>a. payload (the (m a))) as)"

definition sized :: "(nat \<rightharpoonup> pbuf) \<Rightarrow> nat list \<Rightarrow> bool" where
  "sized m as = (\<forall>a \<in> set as. length (payload (the (m a))) = unat (p_len (the (m a))))"

lemma bytes_simps [simp]: "bytes m [] = []" "bytes m (a # as) = payload (the (m a)) @ bytes m as"
  by (simp_all add: bytes_def)

lemma bytes_append [simp]: "bytes m (as @ bs) = bytes m as @ bytes m bs"
  by (simp add: bytes_def)

lemma sized_simps [simp]:
  "sized m []" "sized m (a # as) \<longleftrightarrow> length (payload (the (m a))) = unat (p_len (the (m a))) \<and> sized m as"
  "sized m (as @ bs) \<longleftrightarrow> sized m as \<and> sized m bs"
  by (auto simp: sized_def)

lemma chain_Cons: "chain m p (a # as) \<longleftrightarrow> p = Some a \<and> (\<exists>b. m a = Some b \<and> chain m (p_next b) as)"
  by (auto split: option.splits)

lemma chain_unique: "chain m p as \<Longrightarrow> chain m p bs \<Longrightarrow> as = bs"
proof (induction as arbitrary: p bs)
  case Nil
  then show ?case by (cases bs) auto
next
  case (Cons a as)
  then show ?case by (cases bs) (auto split: option.splits)
qed

lemma chain_append: "chain m p (xs @ a # ys) \<Longrightarrow> chain m (Some a) (a # ys)"
  by (induction xs arbitrary: p) (auto simp: chain_Cons simp del: chain.simps(2))

lemma chain_distinct: "chain m p as \<Longrightarrow> distinct as"
proof (induction as arbitrary: p)
  case (Cons a as)
  have "a \<notin> set as"
  proof
    assume "a \<in> set as"
    then obtain xs ys where "as = xs @ a # ys" by (auto simp: in_set_conv_decomp)
    with Cons.prems have "chain m (Some a) (a # xs @ a # ys)" "chain m (Some a) (a # ys)"
      using chain_append [of m p "a # xs" a ys] by auto
    then have "a # xs @ a # ys = a # ys" by (rule chain_unique)
    then show False by simp
  qed
  with Cons show ?case by (auto split: option.splits)
qed simp

lemma chain_in_heap: "chain m p as \<Longrightarrow> a \<in> set as \<Longrightarrow> \<exists>b. m a = Some b"
  by (induction as arbitrary: p) (auto split: option.splits)

text \<open>A chain and its contents depend on its own buffers only.\<close>

lemma chain_cong: "(\<And>a. a \<in> set as \<Longrightarrow> map_option p_next (m' a) = map_option p_next (m a)) \<Longrightarrow> chain m' p as = chain m p as"
proof (induction as arbitrary: p)
  case (Cons a as)
  have "map_option p_next (m' a) = map_option p_next (m a)" by (rule Cons.prems) simp
  moreover have "chain m' q as = chain m q as" for q by (rule Cons) (auto intro: Cons.prems)
  ultimately show ?case by (cases "m a"; cases "m' a") auto
qed simp

lemma netmem_same [simp]: "s\<lparr>pbufs := pbufs s\<rparr> = s"
  by simp

lemma bytes_cong: "(\<And>a. a \<in> set as \<Longrightarrow> payload (the (m' a)) = payload (the (m a))) \<Longrightarrow> bytes m' as = bytes m as"
  by (simp add: bytes_def cong: map_cong)

section \<open>Freeing\<close>

text \<open>The buffers whose last reference goes are those before the first with another reference.\<close>

lemma wp_pbuf_free_loop:
  assumes "chain m p as" "m = pbufs s"
    and "as = ys @ zs" "\<And>y. y \<in> set ys \<Longrightarrow> p_ref (the (m y)) = 1" "zs \<noteq> [] \<Longrightarrow> p_ref (the (m (hd zs))) \<noteq> 1"
    and Q: "Q (None, count + of_nat (length ys))
      (s\<lparr>pbufs := (\<lambda>a. if a \<in> set ys then None
                      else if zs \<noteq> [] \<and> a = hd zs then map_option (\<lambda>b. b\<lparr>p_ref := p_ref b - 1\<rparr>) (m a) else m a)\<rparr>)"
  shows "wp (whileM (\<lambda>(p, count). ret (p \<noteq> None)) free_turn (p, count)) Q s"
  using assms
proof (induction ys arbitrary: p as s m count)
  case Nil
  show ?case
  proof (cases zs)
    case Nil
    then show ?thesis using Nil.prems by (subst wp_whileM_unfold) (simp add: wp_simps free_turn_def)
  next
    case (Cons z zs')
    then obtain b where b: "p = Some z" "m z = Some b" "p_ref b \<noteq> 1"
      using Nil.prems by (auto split: option.splits)
    have eq: "(pbufs s)(z \<mapsto> b\<lparr>p_ref := p_ref b - 1\<rparr>) =
        (\<lambda>a. if a = z then map_option (\<lambda>b. b\<lparr>p_ref := p_ref b - 1\<rparr>) (m a) else m a)"
      using b Nil.prems by auto
    have "p_ref b - 1 \<noteq> 0" using b(3) by simp
    then show ?thesis
      using b Nil.prems Cons
      by (subst wp_whileM_unfold) (simp add: wp_simps free_turn_def, subst wp_whileM_unfold, simp add: wp_simps eq)
  qed
next
  case (Cons y ys)
  then obtain b where b: "p = Some y" "m y = Some b" "chain m (p_next b) (ys @ zs)"
    by (auto split: option.splits)
  have b1: "p_ref b = 1" using Cons.prems(4) [of y] b(2) by simp
  let ?m = "m(y := None)"
  have d: "distinct (y # ys @ zs)" using Cons.prems chain_distinct by fastforce
  have c: "chain ?m (p_next b) (ys @ zs)"
    using b(3) d by (subst chain_cong) auto
  have "wp (whileM (\<lambda>(p, count). ret (p \<noteq> None)) free_turn (p_next b, count + 1)) Q (s\<lparr>pbufs := ?m\<rparr>)"
  proof (rule Cons.IH [OF c])
    have "hd zs \<noteq> y" if "zs \<noteq> []" using that d by (cases zs) auto
    then have "(\<lambda>a. if a \<in> set ys then None else if zs \<noteq> [] \<and> a = hd zs then map_option (\<lambda>b. b\<lparr>p_ref := p_ref b - 1\<rparr>) (?m a) else ?m a)
      = (\<lambda>a. if a \<in> set (y # ys) then None else if zs \<noteq> [] \<and> a = hd zs then map_option (\<lambda>b. b\<lparr>p_ref := p_ref b - 1\<rparr>) (m a) else m a)"
      by (auto simp: fun_eq_iff)
    then show "Q (None, count + 1 + of_nat (length ys))
      (s\<lparr>pbufs := ?m, pbufs := \<lambda>a. if a \<in> set ys then None else if zs \<noteq> [] \<and> a = hd zs then map_option (\<lambda>b. b\<lparr>p_ref := p_ref b - 1\<rparr>) (?m a) else ?m a\<rparr>)"
      using Cons.prems(6) by (simp add: add.assoc)
  qed (use Cons.prems d in \<open>auto simp: hd_in_set\<close>)
  then show ?case
    using b b1 Cons.prems(2) by (subst wp_whileM_unfold) (simp add: wp_simps free_turn_def)
qed

lemma wp_pbuf_free:
  assumes "chain (pbufs s) p (ys @ zs)"
    and "\<And>y. y \<in> set ys \<Longrightarrow> p_ref (the (pbufs s y)) = 1" "zs \<noteq> [] \<Longrightarrow> p_ref (the (pbufs s (hd zs))) \<noteq> 1"
    and Q: "Q (of_nat (length ys))
      (s\<lparr>pbufs := (\<lambda>a. if a \<in> set ys then None
                      else if zs \<noteq> [] \<and> a = hd zs then map_option (\<lambda>b. b\<lparr>p_ref := p_ref b - 1\<rparr>) (pbufs s a) else pbufs s a)\<rparr>)"
  shows "wp (pbuf_free p) Q s"
proof (cases "p = None")
  case True
  then have "ys = []" "zs = []" using assms(1) by (cases ys; cases zs; simp)+
  with Q True show ?thesis by (simp add: pbuf_free_def wp_simps)
next
  case False
  show ?thesis
    unfolding pbuf_free_def if_not_P [OF False] wp_bindM
    by (rule wp_pbuf_free_loop [OF assms(1) refl refl assms(2,3)]; simp add: wp_simps Q)
qed

text \<open>Freeing a chain that nobody else references removes exactly its buffers.\<close>

lemma wp_pbuf_free_all:
  assumes "chain (pbufs s) p as" "\<And>a. a \<in> set as \<Longrightarrow> p_ref (the (pbufs s a)) = 1"
    and "Q (of_nat (length as)) (s\<lparr>pbufs := pbufs s |` (- set as)\<rparr>)"
  shows "wp (pbuf_free p) Q s"
proof (rule wp_pbuf_free [where ys = as and zs = "[]"])
  have "pbufs s |` (- set as) = (\<lambda>a. if a \<in> set as then None else pbufs s a)" by (auto simp: restrict_map_def)
  with assms(3) show "Q (of_nat (length as)) (s\<lparr>pbufs := \<lambda>a. if a \<in> set as then None
      else if ([] :: nat list) \<noteq> [] \<and> a = hd [] then map_option (\<lambda>b. b\<lparr>p_ref := p_ref b - 1\<rparr>) (pbufs s a) else pbufs s a\<rparr>)"
    by (simp cong: if_cong)
qed (use assms in auto)

section \<open>Concatenation\<close>

text \<open>What \<open>pbuf_cat\<close> leaves in the heap.\<close>

definition catted :: "(nat \<rightharpoonup> pbuf) \<Rightarrow> nat list \<Rightarrow> nat \<Rightarrow> nat \<rightharpoonup> pbuf" where
  "catted m hs t a =
     (if a \<in> set hs then
        map_option (\<lambda>b. b\<lparr>tot_len := tot_len b + tot_len (the (m t)),
                          p_next := if a = last hs then Some t else p_next b\<rparr>) (m a)
      else m a)"

lemma catted_parts:
  assumes "chain m h hs" "hs \<noteq> []" "chain m (Some t) ts" "set hs \<inter> set ts = {}"
  shows "chain (catted m hs t) h (hs @ ts)" "bytes (catted m hs t) (hs @ ts) = bytes m hs @ bytes m ts"
    "a \<notin> set hs \<Longrightarrow> catted m hs t a = m a"
proof -
  have ts: "chain (catted m hs t) (Some t) ts"
    using assms(3) by (subst chain_cong [of ts _ m]) (use assms(4) in \<open>auto simp: catted_def\<close>)
  show "chain (catted m hs t) h (hs @ ts)"
    using assms(1,2) chain_distinct [OF assms(1)] ts
  proof (induction hs arbitrary: h m)
    case (Cons a hs)
    then obtain b where b: "h = Some a" "m a = Some b" "chain m (p_next b) hs" by (auto split: option.splits)
    show ?case
    proof (cases "hs = []")
      case True
      then show ?thesis using b Cons.prems by (simp add: catted_def)
    next
      case False
      have eq: "map_option p_next (catted m (a # hs) t x) = map_option p_next (catted m hs t x)" if "x \<noteq> a \<or> a \<notin> set hs" for x
        using that False Cons.prems(3) b(2) by (cases "m x") (auto simp: catted_def)
      have "chain (catted m hs t) (Some t) ts" using Cons.prems(4) eq Cons.prems(3) by (subst chain_cong) auto
      then have "chain (catted m hs t) (p_next b) (hs @ ts)" using Cons.IH [of m "p_next b"] b False Cons.prems(3) by simp
      then have "chain (catted m (a # hs) t) (p_next b) (hs @ ts)"
        using eq Cons.prems(3) by (subst chain_cong [of _ _ "catted m hs t"]) auto
      moreover have "\<exists>b'. catted m (a # hs) t a = Some b' \<and> p_next b' = p_next b"
        using b(2) False Cons.prems(3) by (auto simp: catted_def)
      ultimately show ?thesis using b(1) by auto
    qed
  qed simp
  show "bytes (catted m hs t) (hs @ ts) = bytes m hs @ bytes m ts"
    unfolding bytes_append [symmetric]
    by (rule bytes_cong) (auto simp: catted_def dest!: chain_in_heap [OF assms(1)])
  show "a \<notin> set hs \<Longrightarrow> catted m hs t a = m a" by (simp add: catted_def)
qed

lemma wp_add_tot_len:
  "pbufs s a = Some b \<Longrightarrow> pbufs s t = Some tb \<Longrightarrow>
     wp (add_tot_len (Some a) (Some t)) Q s = Q () (s\<lparr>pbufs := (pbufs s)(a \<mapsto> b\<lparr>tot_len := tot_len b + tot_len tb\<rparr>)\<rparr>)"
  by (simp add: add_tot_len_def wp_simps)

lemma wp_pbuf_cat:
  assumes "chain (pbufs s) (Some h) hs" "pbufs s t \<noteq> None" "t \<notin> set hs"
    and Q: "Q () (s\<lparr>pbufs := catted (pbufs s) hs t\<rparr>)"
  shows "wp (pbuf_cat (Some h) (Some t)) Q s"
proof -
  let ?step = "\<lambda>p. thenM (add_tot_len p (Some t)) (bindM (read_pbuf p) (\<lambda>b. ret (p_next b)))"
  let ?rest = "\<lambda>p. thenM (add_tot_len p (Some t)) (modify_pbuf p (\<lambda>b. b\<lparr>p_next := Some t\<rparr>))"
  have "wp (whileM (\<lambda>p. bindM (read_pbuf p) (\<lambda>b. ret (p_next b \<noteq> None))) ?step p) (\<lambda>p. wp (?rest p) Q) s"
    if "chain (pbufs s) p hs" "hs \<noteq> []" "pbufs s t \<noteq> None" "t \<notin> set hs" "Q () (s\<lparr>pbufs := catted (pbufs s) hs t\<rparr>)" for p s hs
    using that
  proof (induction hs arbitrary: p s)
    case (Cons a hs)
    then obtain b tb where b: "p = Some a" "pbufs s a = Some b" "chain (pbufs s) (p_next b) hs" and tb: "pbufs s t = Some tb"
      by (auto split: option.splits)
    have at: "t \<noteq> a" "a \<notin> set hs" using Cons.prems(4) chain_distinct [OF Cons.prems(1)] by auto
    show ?case
    proof (cases hs)
      case Nil
      have "catted (pbufs s) [a] t = (pbufs s)(a \<mapsto> b\<lparr>tot_len := tot_len b + tot_len tb, p_next := Some t\<rparr>)"
        using b(2) tb by (auto simp: catted_def)
      then have "Q () (s\<lparr>pbufs := (pbufs s)(a \<mapsto> b\<lparr>tot_len := tot_len b + tot_len tb, p_next := Some t\<rparr>)\<rparr>)"
        using Cons.prems(5) by (simp only: Nil)
      then show ?thesis
        using b tb at Nil
        by (subst wp_whileM_unfold) (simp add: wp_simps wp_add_tot_len)
    next
      case (Cons a' hs')
      let ?s = "s\<lparr>pbufs := (pbufs s)(a \<mapsto> b\<lparr>tot_len := tot_len b + tot_len tb\<rparr>)\<rparr>"
      have n: "p_next b = Some a'" using b(3) Cons by simp
      have c: "chain (pbufs ?s) (p_next b) hs" using b(2,3) at by (subst chain_cong) auto
      have "catted (pbufs ?s) hs t = catted (pbufs s) (a # hs) t"
      proof -
        have "last (a # hs) = last hs" "last hs \<noteq> a" using Cons at(2) last_in_set [of hs] by (auto simp del: last.simps simp: last_ConsR)
        then show ?thesis
          using b(2) tb at by (intro ext) (auto simp: catted_def simp del: last.simps)
      qed
      then have q: "Q () (?s\<lparr>pbufs := catted (pbufs ?s) hs t\<rparr>)" using Cons.prems(5) by simp
      have "wp (whileM (\<lambda>p. bindM (read_pbuf p) (\<lambda>b. ret (p_next b \<noteq> None))) ?step (p_next b)) (\<lambda>p. wp (?rest p) Q) ?s"
        by (rule Cons.IH [OF c _ _ _ q]) (use Cons Cons.prems(4) tb at in simp_all)
      then show ?thesis
        using b tb at n by (subst wp_whileM_unfold) (simp add: wp_simps wp_add_tot_len)
    qed
  qed simp
  from this [OF assms(1) _ assms(2,3) Q] assms(1) show ?thesis
    unfolding pbuf_cat_def by (cases hs) (simp_all add: wp_bindM)
qed

section \<open>Copying\<close>

lemma wp_copy_into [wp_simps]:
  "wp (copy_into dst i src j n) Q =
     (\<lambda>s. i + n \<le> length dst \<and> j + n \<le> length src \<and> Q (take i dst @ take n (drop j src) @ drop (i + n) dst) s)"
  by (auto simp: copy_into_def wp_simps fun_eq_iff)

text \<open>One buffer \<open>B\<close> of a chain whose other buffers hold \<open>R\<close>, copied from offset \<open>off\<close> to position \<open>l\<close>.\<close>

lemma copy_step_list:
  fixes d :: "'a list"
  assumes "off \<le> length B" "n = min len (length B - off)" "l + len \<le> length d"
    and "d1 = take l d @ take n (drop off B) @ drop (l + n) d"
  shows "take (l + n) d1 @ take (len - n) R @ drop (l + n + min (len - n) (length R)) d1 =
         take l d @ take len (drop off (B @ R)) @ drop (l + min len (length (B @ R) - off)) d"
proof -
  have a: "take (l + n) d1 = take l d @ take n (drop off B)" and b: "drop (l + n + k) d1 = drop (l + n + k) d" for k
    using assms by (auto simp: min_def ac_simps)
  have c: "take len (drop off (B @ R)) = take n (drop off B) @ take (len - n) R"
    using assms(1,2) by (auto simp: min_def)
  have e: "l + n + min (len - n) (length R) = l + min len (length (B @ R) - off)"
    using assms(1,2) by (auto simp: min_def)
  show ?thesis unfolding a b c by (simp add: e)
qed

text \<open>What the loop has still to do, from the buffers that are left.\<close>

lemma wp_copy_loop:
  assumes "chain (pbufs s) p as" "sized (pbufs s) as"
    and "unat left + unat len \<le> length d" "unat left + unat len < 2 ^ 16" "tot = left"
    and Q: "\<And>d' left' p' len' off'.
      d' = take (unat left) d @ take (unat len) (drop (unat off) (bytes (pbufs s) as)) @
           drop (unat left + min (unat len) (length (bytes (pbufs s) as) - unat off)) d \<Longrightarrow>
      unat left' = unat left + min (unat len) (length (bytes (pbufs s) as) - unat off) \<Longrightarrow>
      Q (p', len', off', left', left', d') s"
  shows "wp (whileM (\<lambda>(p, len, _). ret (len \<noteq> 0 \<and> p \<noteq> None)) copy_turn (p, len, off, left, tot, d)) Q s"
  using assms
proof (induction as arbitrary: p len off left tot d)
  case Nil
  then show ?case by (subst wp_whileM_unfold) (simp add: wp_simps)
next
  case (Cons a as)
  obtain b where b: "p = Some a" "pbufs s a = Some b" "chain (pbufs s) (p_next b) as"
    using Cons.prems(1) by (auto split: option.splits)
  have sz: "length (payload b) = unat (p_len b)" "sized (pbufs s) as" using Cons.prems(2) b(2) by simp_all
  show ?case
  proof (cases "len = 0")
    case True
    then show ?thesis using Cons.prems(5,6) by (subst wp_whileM_unfold) (simp add: wp_simps)
  next
    case False
    note IH = Cons.IH [OF b(3) sz(2)]
    show ?thesis
    proof (cases "off \<noteq> 0 \<and> off \<ge> p_len b")
      case True
      then have u: "unat (off - p_len b) = unat off - unat (p_len b)" "unat (p_len b) \<le> unat off"
        by (simp_all add: unat_sub word_le_nat_alt)
      have dr: "drop (unat off) (bytes (pbufs s) (a # as)) = drop (unat (off - p_len b)) (bytes (pbufs s) as)"
        and ln: "length (bytes (pbufs s) (a # as)) - unat off = length (bytes (pbufs s) as) - unat (off - p_len b)"
        using u by (simp_all add: b(2) sz(1))
      have "wp (whileM (\<lambda>(p, len, _). ret (len \<noteq> 0 \<and> p \<noteq> None)) copy_turn (p_next b, len, off - p_len b, left, tot, d)) Q s"
        by (rule IH [OF Cons.prems(3-5)]) (rule Cons.prems(6) [unfolded dr ln])
      then show ?thesis
        using True False b by (subst wp_whileM_unfold) (simp add: wp_simps copy_turn_def)
    next
      case skip: False
      define n where "n = (if p_len b - off > len then len else p_len b - off)"
      have off: "unat off \<le> unat (p_len b)" using skip by (auto simp: word_le_nat_alt)
      have "unat (p_len b - off) = unat (p_len b) - unat off" using off by (simp add: unat_sub word_le_nat_alt)
      then have n: "unat n = min (unat len) (unat (p_len b) - unat off)"
        by (auto simp: n_def word_less_nat_alt)
      have un: "unat (len - n) = unat len - unat n" using n by (simp add: unat_sub word_le_nat_alt)
      have ul: "unat (left + n) = unat left + unat n"
        using Cons.prems(4) n by (subst unat_plus_if') (auto simp: min_def)
      let ?d = "take (unat left) d @ take (unat n) (drop (unat off) (payload b)) @ drop (unat left + unat n) d"
      have "wp (whileM (\<lambda>(p, len, _). ret (len \<noteq> 0 \<and> p \<noteq> None)) copy_turn (p_next b, len - n, 0, left + n, tot + n, ?d)) Q s"
      proof (rule IH, goal_cases)
        case 1
        show ?case using Cons.prems(3) n un ul sz(1) by simp
      next
        case 2
        show ?case using Cons.prems(4) n un ul by simp
      next
        case 3
        show ?case using Cons.prems(5) by simp
      next
        case (4 d' left' p' len' off')
        show ?case
        proof (rule Cons.prems(6))
          show "d' = take (unat left) d @ take (unat len) (drop (unat off) (bytes (pbufs s) (a # as))) @
           drop (unat left + min (unat len) (length (bytes (pbufs s) (a # as)) - unat off)) d"
            using copy_step_list [OF _ n [folded sz(1)] Cons.prems(3) refl, of "bytes (pbufs s) as"] 4(1) off sz(1)
            by (simp add: ul un b(2))
          show "unat left' = unat left + min (unat len) (length (bytes (pbufs s) (a # as)) - unat off)"
            using 4(2) n un ul b(2) sz(1) off by (simp add: min_def split: if_splits)
        qed
      qed
      moreover have "wp (copy_turn (p, len, off, left, tot, d)) R s = R (p_next b, len - n, 0, left + n, tot + n, ?d) s" for R
      proof -
        have "unat left + unat n \<le> length d" "unat off + unat n \<le> length (payload b)"
          using Cons.prems(3) n sz(1) off by auto
        moreover have "\<not> (off \<noteq> 0 \<and> p_len b \<le> off)" using skip by simp
        ultimately show ?thesis
          using b by (simp only: copy_turn_def prod.case wp_bindM wp_read_pbuf option.case if_False Let_def n_def [symmetric] wp_copy_into wp_ret simp_thms)
      qed
      ultimately show ?thesis
        using False b(1) by (subst wp_whileM_unfold) (simp add: wp_simps)
    qed
  qed
qed

section \<open>Single bytes\<close>

lemma wp_pbuf_skip:
  assumes "chain (pbufs s) p as" "sized (pbufs s) as"
    and past: "length (bytes (pbufs s) as) \<le> unat off \<Longrightarrow> \<forall>o'. Q (None, o') s"
    and found: "\<And>xs a ys o'. as = xs @ a # ys \<Longrightarrow> unat off = length (bytes (pbufs s) xs) + unat o' \<Longrightarrow>
      unat o' < unat (p_len (the (pbufs s a))) \<Longrightarrow> Q (Some a, o') s"
  shows "wp (pbuf_skip p off) Q s"
  unfolding pbuf_skip_def
  using assms
proof (induction as arbitrary: p off)
  case Nil
  then show ?case by (subst wp_whileM_unfold) (simp add: wp_simps)
next
  case (Cons a as)
  obtain b where b: "p = Some a" "pbufs s a = Some b" "chain (pbufs s) (p_next b) as"
    using Cons.prems(1) by (auto split: option.splits)
  have sz: "length (payload b) = unat (p_len b)" "sized (pbufs s) as" using Cons.prems(2) b(2) by simp_all
  show ?case
  proof (cases "p_len b \<le> off")
    case True
    then have u: "unat off = unat (p_len b) + unat (off - p_len b)" by (simp add: unat_sub word_le_nat_alt)
    have "wp (whileM (\<lambda>(q, offset_left). if q = None then ret False else bindM (read_pbuf q) (\<lambda>b. ret (p_len b \<le> offset_left)))
       (\<lambda>(q, offset_left). bindM (read_pbuf q) (\<lambda>b. ret (p_next b, offset_left - p_len b))) (p_next b, off - p_len b)) Q s"
    proof (rule Cons.IH [OF b(3) sz(2)])
      show "\<forall>o'. Q (None, o') s" if "length (bytes (pbufs s) as) \<le> unat (off - p_len b)"
        using Cons.prems(3) that u by (simp add: b(2) sz(1))
      show "Q (Some x, o') s" if "as = xs @ x # ys" "unat (off - p_len b) = length (bytes (pbufs s) xs) + unat o'"
        "unat o' < unat (p_len (the (pbufs s x)))" for xs x ys o'
        by (rule Cons.prems(4) [of "a # xs" x ys]) (use that u b(2) sz(1) in simp_all)
    qed
    then show ?thesis
      using True b by (subst wp_whileM_unfold) (simp add: wp_simps)
  next
    case False
    have "Q (Some a, off) s"
      by (rule Cons.prems(4) [of "[]" a as]) (use False b(2) in \<open>simp_all add: word_less_nat_alt word_le_nat_alt\<close>)
    then show ?thesis
      using False b by (subst wp_whileM_unfold) (simp add: wp_simps)
  qed
qed

lemma wp_pbuf_get_at:
  assumes "chain (pbufs s) p as" "sized (pbufs s) as"
    and Q: "Q (if unat off < length (bytes (pbufs s) as) then bytes (pbufs s) as ! unat off else 0) s"
  shows "wp (pbuf_get_at p off) Q s"
  unfolding pbuf_get_at_def pbuf_try_get_at_def wp_bindM
proof (rule wp_pbuf_skip [OF assms(1,2)], goal_cases)
  case 1
  then show ?case using Q by (simp add: wp_simps)
next
  case (2 xs a ys o')
  obtain b where b: "pbufs s a = Some b" using chain_in_heap [OF assms(1), of a] 2(1) by auto
  have "length (payload b) = unat (p_len b)" using assms(2) 2(1) b by simp
  then show ?case using Q 2 b by (simp add: wp_simps word_less_nat_alt nth_append)
qed

lemma bytes_update:
  assumes "distinct (xs @ a # ys)" "m a = Some b"
  shows "bytes (m(a \<mapsto> b\<lparr>payload := (payload b)[i := v]\<rparr>)) (xs @ a # ys) =
         (if i < length (payload b) then (bytes m (xs @ a # ys))[length (bytes m xs) + i := v] else bytes m (xs @ a # ys))"
proof -
  have "bytes (m(a \<mapsto> b')) zs = bytes m zs" if "a \<notin> set zs" for zs b'
    by (rule bytes_cong) (use that in auto)
  with assms show ?thesis by (auto simp: list_update_append list_update_beyond)
qed

lemma wp_pbuf_put_at:
  assumes "chain (pbufs s) p as" "sized (pbufs s) as"
    and Q: "\<And>m. chain m p as \<Longrightarrow> sized m as \<Longrightarrow> bytes m as = (bytes (pbufs s) as)[unat off := v] \<Longrightarrow>
      (\<And>a. a \<notin> set as \<Longrightarrow> m a = pbufs s a) \<Longrightarrow> Q () (s\<lparr>pbufs := m\<rparr>)"
  shows "wp (pbuf_put_at p off v) Q s"
  unfolding pbuf_put_at_def wp_bindM
proof (rule wp_pbuf_skip [OF assms(1,2)], goal_cases)
  case 1
  then have "Q () (s\<lparr>pbufs := pbufs s\<rparr>)" using assms(1,2) by (intro Q) (simp_all add: list_update_beyond)
  then show ?case by (simp add: wp_simps)
next
  case (2 xs a ys o')
  obtain b where b: "pbufs s a = Some b" using chain_in_heap [OF assms(1), of a] 2(1) by auto
  let ?m = "(pbufs s)(a \<mapsto> b\<lparr>payload := (payload b)[unat o' := v]\<rparr>)"
  have sz: "length (payload b) = unat (p_len b)" using assms(2) 2(1) b by simp
  have "Q () (s\<lparr>pbufs := ?m\<rparr>)"
  proof (rule Q)
    show "chain ?m p as" using assms(1) by (subst chain_cong [of _ _ "pbufs s"]) (auto simp: b)
    show "sized ?m as" using assms(2) b by (auto simp: sized_def)
    show "bytes ?m as = (bytes (pbufs s) as)[unat off := v]"
      using bytes_update [of xs a ys "pbufs s" b "unat o'" v] chain_distinct [OF assms(1)] 2 b sz by simp
    show "?m x = pbufs s x" if "x \<notin> set as" for x using that 2(1) by auto
  qed
  then show ?case using 2 b sz by (simp add: wp_simps word_less_nat_alt)
qed

section \<open>Properties\<close>

text \<open>
  C18: \<open>pbuf_free\<close> gives back exactly the buffers at the head of the chain that have no other reference,
  takes one reference from the first that has, leaves every other buffer as it is, and returns the
  number of buffers given back (modulo 256).
\<close>

theorem pbuf_free_releases_prefix:
  fixes s :: "'z netmem_scheme"
  assumes "chain (pbufs s) p (ys @ zs)" "\<forall>y \<in> set ys. p_ref (the (pbufs s y)) = 1"
    and "zs \<noteq> [] \<longrightarrow> p_ref (the (pbufs s (hd zs))) \<noteq> 1"
  shows "wp (pbuf_free p) (\<lambda>n t. n = of_nat (length ys) \<and> (\<exists>m. t = s\<lparr>pbufs := m\<rparr> \<and>
    (\<forall>a. m a = (if a \<in> set ys then None
               else if zs \<noteq> [] \<and> a = hd zs then map_option (\<lambda>b. b\<lparr>p_ref := p_ref b - 1\<rparr>) (pbufs s a)
               else pbufs s a)))) s"
  by (rule wp_pbuf_free [OF assms(1)]) (use assms(2,3) in auto)

definition demo_pbuf :: "nat option \<Rightarrow> u8 list \<Rightarrow> u16 \<Rightarrow> u8 \<Rightarrow> pbuf" where
  "demo_pbuf n bs t r = \<lparr>p_next = n, payload = bs, tot_len = t, p_len = of_nat (length bs), p_ref = r\<rparr>"

definition demo_mem :: netmem where
  "demo_mem = \<lparr>pbufs = [1 \<mapsto> demo_pbuf (Some 2) [10, 11] 5 1, 2 \<mapsto> demo_pbuf (Some 3) [12, 13] 3 1,
     3 \<mapsto> demo_pbuf None [14] 1 2]\<rparr>"

text \<open>The example of the comment: reference counts \<open>1 -> 1 -> 2\<close> become \<open>. -> . -> 1\<close>.\<close>

theorem pbuf_free_releases_prefix_witness:
  "wp (pbuf_free (Some 1)) (\<lambda>n t. n = 2 \<and> pbufs t 1 = None \<and> pbufs t 2 = None \<and>
     pbufs t 3 = Some (demo_pbuf None [14] 1 1)) demo_mem"
  by (rule wp_mono [OF pbuf_free_releases_prefix [where ys = "[1, 2]" and zs = "[3]" and s = demo_mem]])
    (auto simp: demo_mem_def demo_pbuf_def)

text \<open>
  C16: \<open>pbuf_copy_partial\<close> copies the bytes of the packet from the offset on, as many as are asked for and
  there are, to the start of the target, and returns their number; the rest of the target and the
  heap are untouched. The target must hold as many bytes as are asked for.
\<close>

theorem pbuf_copy_partial_is_slice:
  fixes s :: "'z netmem_scheme"
  assumes "chain (pbufs s) (Some a) as" "sized (pbufs s) as" "unat len \<le> length d"
  shows "wp (pbuf_copy_partial (Some a) (Some d) len off) (\<lambda>(n, r) t. t = s \<and>
     (let slice = take (unat len) (drop (unat off) (bytes (pbufs s) as))
      in unat n = length slice \<and> r = Some (slice @ drop (length slice) d))) s"
proof -
  have "unat len < 2 ^ 16" using unsigned_less [of len, where ?'a = nat] by simp
  then show ?thesis
    unfolding pbuf_copy_partial_def option.case if_not_P [OF option.distinct(2)] wp_bindM
    by (intro wp_copy_loop [OF assms(1,2)]) (use assms(3) in \<open>simp_all add: wp_simps Let_def min.commute\<close>)
qed

theorem pbuf_copy_partial_is_slice_witness:
  "wp (pbuf_copy_partial (Some 1) (Some [0, 0, 0, 9]) 3 1) (\<lambda>(n, r) t. n = 3 \<and> r = Some [11, 12, 13, 9]) demo_mem"
proof (rule wp_mono [OF pbuf_copy_partial_is_slice [where as = "[1, 2, 3]"]])
  fix v :: "u16 \<times> u8 list option" and t :: netmem
  assume "(\<lambda>(n, r) t. t = demo_mem \<and>
     (let slice = take (unat (3 :: u16)) (drop (unat (1 :: u16)) (bytes (pbufs demo_mem) [1, 2, 3]))
      in unat n = length slice \<and> r = Some (slice @ drop (length slice) [0, 0, 0, 9]))) v t"
  then show "(\<lambda>(n, r) t. n = 3 \<and> r = Some [11, 12, 13, 9]) v t"
    by (auto simp: demo_mem_def demo_pbuf_def Let_def word_unat_eq_iff)
qed (simp_all add: demo_mem_def demo_pbuf_def)

text \<open>
  chaining a packet to a single buffer and taking it off again gives back the packet and the heap as
  they were, whatever the lengths, even when their sum wraps around, provided the packet is referenced.
\<close>

theorem chain_dechain_round_trip:
  fixes s :: "'z netmem_scheme"
  assumes "pbufs s h = Some hb" "p_next hb = None" "tot_len hb = p_len hb" "pbufs s t = Some tb" "h \<noteq> t" "p_ref tb \<noteq> 0"
    and "chain (pbufs s) (Some t) ts" "h \<notin> set ts"
  shows "wp (thenM (pbuf_chain (Some h) (Some t)) (pbuf_dechain (Some h))) (\<lambda>r u. r = Some t \<and> u = s) s"
proof -
  let ?h = "hb\<lparr>p_next := Some t, tot_len := p_len hb + tot_len tb\<rparr>" and ?t = "tb\<lparr>p_ref := p_ref tb + 1\<rparr>"
  let ?m = "(pbufs s)(h \<mapsto> ?h, t \<mapsto> ?t)"
  have "wp (pbuf_chain (Some h) (Some t)) Q s" if "Q () (s\<lparr>pbufs := ?m\<rparr>)" for Q
  proof -
    have "catted (pbufs s) [h] t = (pbufs s)(h \<mapsto> ?h)" using assms by (intro ext) (auto simp: catted_def)
    then show ?thesis
      unfolding pbuf_chain_def wp_thenM pbuf_ref_def
      by (intro wp_pbuf_cat [where hs = "[h]"]) (use assms that in \<open>simp_all add: wp_simps\<close>)
  qed
  moreover have "wp (pbuf_dechain (Some h)) (\<lambda>r u. r = Some t \<and> u = s) (s\<lparr>pbufs := ?m\<rparr>)"
  proof -
    let ?m' = "(pbufs s)(t \<mapsto> ?t)"
    have m': "?m(t \<mapsto> ?t\<lparr>tot_len := tot_len ?h - p_len ?h\<rparr>, h \<mapsto> ?h\<lparr>p_next := None\<rparr>, h \<mapsto> ?h\<lparr>p_next := None, tot_len := p_len ?h\<rparr>) = ?m'"
      using assms by (intro ext) auto
    obtain ts' where ts: "ts = t # ts'" using assms(7) by (cases ts) auto
    have r: "(\<lambda>a. if a \<in> set [] then None else if ts \<noteq> [] \<and> a = hd ts then map_option (\<lambda>b. b\<lparr>p_ref := p_ref b - 1\<rparr>) (?m' a) else ?m' a) = pbufs s"
      using assms(4) by (auto simp: ts fun_eq_iff)
    have "wp (pbuf_free (Some t)) (\<lambda>n u. n = 0 \<and> u = s) (s\<lparr>pbufs := ?m'\<rparr>)"
    proof (rule wp_pbuf_free [where ys = "[]" and zs = ts])
      show "chain (pbufs (s\<lparr>pbufs := ?m'\<rparr>)) (Some t) ([] @ ts)"
        using assms(7) by (simp, subst chain_cong [of _ _ "pbufs s"]) (use assms(4) in auto)
    qed (use assms(6) r in \<open>simp_all add: ts cong: if_cong\<close>)
    then have "wp (pbuf_free (Some t)) (\<lambda>n u. (if n > 0 then None else Some t) = Some t \<and> u = s) (s\<lparr>pbufs := ?m'\<rparr>)"
      by (rule wp_mono) simp
    then show ?thesis
      using assms(5) m' by (simp add: pbuf_dechain_def wp_simps Let_def cong: if_cong)
  qed
  ultimately show ?thesis unfolding wp_thenM .
qed

theorem chain_dechain_round_trip_witness:
  "wp (thenM (pbuf_chain (Some 4) (Some 1)) (pbuf_dechain (Some 4))) (\<lambda>r u. r = Some 1 \<and> u = demo_mem\<lparr>pbufs := (pbufs demo_mem)(4 \<mapsto> demo_pbuf None [7] 1 1)\<rparr>)
     (demo_mem\<lparr>pbufs := (pbufs demo_mem)(4 \<mapsto> demo_pbuf None [7] 1 1)\<rparr>)"
  by (rule chain_dechain_round_trip [where hb = "demo_pbuf None [7] 1 1" and tb = "demo_pbuf (Some 2) [10, 11] 5 1" and ts = "[1, 2, 3]"])
    (simp_all add: demo_mem_def demo_pbuf_def)

text \<open>
  \<open>pbuf_put_at\<close> changes the byte at the offset and no other, and \<open>pbuf_get_at\<close> reads it back; past the
  end of the packet the write does nothing and the read returns zero.
\<close>

theorem put_at_get_at:
  fixes s :: "'z netmem_scheme"
  assumes "chain (pbufs s) p as" "sized (pbufs s) as"
  shows "wp (bindM (pbuf_put_at p off v) (\<lambda>_. pbuf_get_at p off)) (\<lambda>r t.
    r = (if unat off < length (bytes (pbufs s) as) then v else 0) \<and>
    chain (pbufs t) p as \<and> bytes (pbufs t) as = (bytes (pbufs s) as)[unat off := v] \<and>
    (\<forall>a. a \<notin> set as \<longrightarrow> pbufs t a = pbufs s a)) s"
  unfolding wp_bindM
proof (rule wp_pbuf_put_at [OF assms])
  fix m
  assume m: "chain m p as" "sized m as" "bytes m as = (bytes (pbufs s) as)[unat off := v]" "\<And>a. a \<notin> set as \<Longrightarrow> m a = pbufs s a"
  show "wp (pbuf_get_at p off) (\<lambda>r t. r = (if unat off < length (bytes (pbufs s) as) then v else 0) \<and>
    chain (pbufs t) p as \<and> bytes (pbufs t) as = (bytes (pbufs s) as)[unat off := v] \<and>
    (\<forall>a. a \<notin> set as \<longrightarrow> pbufs t a = pbufs s a)) (s\<lparr>pbufs := m\<rparr>)"
    by (rule wp_pbuf_get_at [of _ _ as]) (use m in simp_all)
qed

theorem put_at_get_at_witness:
  "wp (bindM (pbuf_put_at (Some 1) 3 99) (\<lambda>_. pbuf_get_at (Some 1) 3)) (\<lambda>r t. r = 99) demo_mem"
  by (rule wp_mono [OF put_at_get_at [where as = "[1, 2, 3]"]]) (auto simp: demo_mem_def demo_pbuf_def)

end
