(* ===== verification/Tcpecho.thy ===== *)
theory Tcpecho
  imports Lwip_Pbuf
begin

text \<open>
  The TCP echo server, \<open>user/sys/tcpecho_raw.c\<close>: every callback, over the heap of packet buffers, the heap
  of connection states and the callback fields of the protocol control blocks. lwIP itself is the
  environment: how much it can buffer, whether it accepts a write and whether there is memory are
  arbitrary functions of the calls made so far. The theorems are about any sequence of events lwIP
  may deliver to a connection.
\<close>

section \<open>State\<close>

datatype err_t = ERR_OK | ERR_MEM | ERR_BUF | ERR_TIMEOUT | ERR_RTE | ERR_INPROGRESS | ERR_VAL | ERR_WOULDBLOCK | ERR_USE
  | ERR_ALREADY | ERR_ISCONN | ERR_CONN | ERR_IF | ERR_ABRT | ERR_RST | ERR_CLSD | ERR_ARG

datatype tcpecho_raw_states = ES_NONE | ES_ACCEPTED | ES_RECEIVED | ES_CLOSING

record tcpecho_raw_state =
  es_state :: tcpecho_raw_states
  es_retries :: u8
  es_pcb :: nat
  es_p :: "nat option"

text \<open>The fields of a control block that the server uses; a callback is set to the server's function or not at all.\<close>

record tcp_pcb =
  callback_arg :: "nat option"
  cb_recv :: bool
  cb_sent :: bool
  cb_errf :: bool
  cb_poll :: bool
  pollinterval :: u8
  prio :: u8

text \<open>What the server asks of lwIP, newest first.\<close>

datatype tcp_call = Tcp_Write nat "u8 list" err_t | Tcp_Recved nat u16 | Tcp_Close nat | Tcp_Abort nat | Mem_Malloc "nat option"

record lwip =
  snd_buf :: "tcp_call list \<Rightarrow> nat \<Rightarrow> u16"
  write_err :: "tcp_call list \<Rightarrow> nat \<Rightarrow> u8 list \<Rightarrow> err_t"
  malloc :: "tcp_call list \<Rightarrow> nat option"

record echo = netmem +
  es_heap :: "nat \<rightharpoonup> tcpecho_raw_state"
  pcbs :: "nat \<Rightarrow> tcp_pcb"
  tcp_log :: "tcp_call list"

section \<open>The calls into lwIP\<close>

definition upd_pcb :: "nat \<Rightarrow> (tcp_pcb \<Rightarrow> tcp_pcb) \<Rightarrow> ('z echo_scheme, unit) cm" where
  "upd_pcb pcb f = modM (\<lambda>s. s\<lparr>pcbs := (pcbs s)(pcb := f (pcbs s pcb))\<rparr>)"

definition tcp_arg :: "nat \<Rightarrow> nat option \<Rightarrow> ('z echo_scheme, unit) cm" where
  "tcp_arg pcb arg = upd_pcb pcb (\<lambda>b. b\<lparr>callback_arg := arg\<rparr>)"

definition tcp_recv :: "nat \<Rightarrow> bool \<Rightarrow> ('z echo_scheme, unit) cm" where
  "tcp_recv pcb recv = upd_pcb pcb (\<lambda>b. b\<lparr>cb_recv := recv\<rparr>)"

definition tcp_sent :: "nat \<Rightarrow> bool \<Rightarrow> ('z echo_scheme, unit) cm" where
  "tcp_sent pcb sent = upd_pcb pcb (\<lambda>b. b\<lparr>cb_sent := sent\<rparr>)"

definition tcp_err :: "nat \<Rightarrow> bool \<Rightarrow> ('z echo_scheme, unit) cm" where
  "tcp_err pcb err = upd_pcb pcb (\<lambda>b. b\<lparr>cb_errf := err\<rparr>)"

definition tcp_poll :: "nat \<Rightarrow> bool \<Rightarrow> u8 \<Rightarrow> ('z echo_scheme, unit) cm" where
  "tcp_poll pcb poll interval = upd_pcb pcb (\<lambda>b. b\<lparr>cb_poll := poll, pollinterval := interval\<rparr>)"

definition tcp_setprio :: "nat \<Rightarrow> u8 \<Rightarrow> ('z echo_scheme, unit) cm" where
  "tcp_setprio pcb p = upd_pcb pcb (\<lambda>b. b\<lparr>prio := p\<rparr>)"

definition call :: "tcp_call \<Rightarrow> ('z echo_scheme, unit) cm" where
  "call c = modM (\<lambda>s. s\<lparr>tcp_log := c # tcp_log s\<rparr>)"

definition tcp_sndbuf :: "lwip \<Rightarrow> nat \<Rightarrow> ('z echo_scheme, u16) cm" where
  "tcp_sndbuf lw pcb = getM (\<lambda>s. snd_buf lw (tcp_log s) pcb)"

definition tcp_write :: "lwip \<Rightarrow> nat \<Rightarrow> u8 list \<Rightarrow> u16 \<Rightarrow> ('z echo_scheme, err_t) cm" where
  "tcp_write lw pcb data len =
     (if unat len > length data then faultM Out_Of_Bounds
      else bindM (getM (\<lambda>s. write_err lw (tcp_log s) pcb (take (unat len) data))) (\<lambda>e.
           thenM (call (Tcp_Write pcb (take (unat len) data) e)) (ret e)))"

definition mem_malloc :: "lwip \<Rightarrow> ('z echo_scheme, nat option) cm" where
  "mem_malloc lw = bindM (getM (\<lambda>s. malloc lw (tcp_log s))) (\<lambda>a. thenM (call (Mem_Malloc a)) (ret a))"

definition read_es :: "nat option \<Rightarrow> ('z echo_scheme, tcpecho_raw_state) cm" where
  "read_es es =
     (case es of None \<Rightarrow> faultM Null_Dereference
      | Some a \<Rightarrow> bindM (getM es_heap) (\<lambda>m. case m a of None \<Rightarrow> faultM Out_Of_Bounds | Some e \<Rightarrow> ret e))"

definition modify_es :: "nat option \<Rightarrow> (tcpecho_raw_state \<Rightarrow> tcpecho_raw_state) \<Rightarrow> ('z echo_scheme, unit) cm" where
  "modify_es es f =
     (case es of None \<Rightarrow> faultM Null_Dereference
      | Some a \<Rightarrow> bindM (read_es es) (\<lambda>e. modM (\<lambda>s. s\<lparr>es_heap := (es_heap s)(a \<mapsto> f e)\<rparr>)))"

definition mem_free :: "nat option \<Rightarrow> ('z echo_scheme, unit) cm" where
  "mem_free es =
     (case es of None \<Rightarrow> faultM Null_Dereference
      | Some a \<Rightarrow> bindM (read_es es) (\<lambda>_. modM (\<lambda>s. s\<lparr>es_heap := (es_heap s)(a := None)\<rparr>)))"

section \<open>The server\<close>

definition tcpecho_raw_free :: "nat option \<Rightarrow> ('z echo_scheme, unit) cm" where
  "tcpecho_raw_free es =
     whenM (es \<noteq> None)
       (bindM (read_es es) (\<lambda>e.
        thenM (whenM (es_p e \<noteq> None) (bindM (pbuf_free (es_p e)) (\<lambda>_. ret ())))
              (mem_free es)))"

definition tcpecho_raw_close :: "nat \<Rightarrow> nat option \<Rightarrow> ('z echo_scheme, unit) cm" where
  "tcpecho_raw_close tpcb es =
     seqM [tcp_arg tpcb None, tcp_sent tpcb False, tcp_recv tpcb False, tcp_err tpcb False, tcp_poll tpcb False 0,
           tcpecho_raw_free es,
           call (Tcp_Close tpcb)]"

definition echo_test :: "lwip \<Rightarrow> nat \<Rightarrow> nat option \<Rightarrow> err_t \<Rightarrow> ('z echo_scheme, bool) cm" where
  "echo_test lw tpcb es wr_err =
     (if wr_err \<noteq> ERR_OK then ret False
      else bindM (read_es es) (\<lambda>e.
           if es_p e = None then ret False
           else bindM (read_pbuf (es_p e)) (\<lambda>b.
                bindM (tcp_sndbuf lw tpcb) (\<lambda>n. ret (p_len b \<le> n)))))"

definition echo_turn :: "lwip \<Rightarrow> nat \<Rightarrow> nat option \<Rightarrow> err_t \<Rightarrow> ('z echo_scheme, err_t) cm" where
  "echo_turn lw tpcb es wr_err =
     bindM (read_es es) (\<lambda>e. let ptr = es_p e in
     bindM (read_pbuf ptr) (\<lambda>b.
     bindM (tcp_write lw tpcb (payload b) (p_len b)) (\<lambda>wr_err.
     if wr_err = ERR_OK then
       bindM (read_pbuf ptr) (\<lambda>b. let plen = p_len b in
       thenM (modify_es es (\<lambda>e. e\<lparr>es_p := p_next b\<rparr>))
      (thenM (whenM (p_next b \<noteq> None) (pbuf_ref (p_next b)))
      (bindM (pbuf_free ptr) (\<lambda>_.
       thenM (call (Tcp_Recved tpcb plen)) (ret wr_err)))))
     else if wr_err = ERR_MEM then thenM (modify_es es (\<lambda>e. e\<lparr>es_p := ptr\<rparr>)) (ret wr_err)
     else ret wr_err)))"

definition tcpecho_raw_send :: "lwip \<Rightarrow> nat \<Rightarrow> nat option \<Rightarrow> ('z echo_scheme, unit) cm" where
  "tcpecho_raw_send lw tpcb es =
     bindM (whileM (echo_test lw tpcb es) (echo_turn lw tpcb es) ERR_OK) (\<lambda>_. ret ())"

definition tcpecho_raw_error :: "nat option \<Rightarrow> err_t \<Rightarrow> ('z echo_scheme, unit) cm" where
  "tcpecho_raw_error arg err = tcpecho_raw_free arg"

definition tcpecho_raw_poll :: "lwip \<Rightarrow> nat option \<Rightarrow> nat \<Rightarrow> ('z echo_scheme, err_t) cm" where
  "tcpecho_raw_poll lw arg tpcb =
     (if arg \<noteq> None then
        bindM (read_es arg) (\<lambda>e.
        thenM (if es_p e \<noteq> None then tcpecho_raw_send lw tpcb arg
               else whenM (es_state e = ES_CLOSING) (tcpecho_raw_close tpcb arg))
              (ret ERR_OK))
      else thenM (call (Tcp_Abort tpcb)) (ret ERR_ABRT))"

definition tcpecho_raw_sent :: "lwip \<Rightarrow> nat option \<Rightarrow> nat \<Rightarrow> u16 \<Rightarrow> ('z echo_scheme, err_t) cm" where
  "tcpecho_raw_sent lw arg tpcb len =
     thenM (modify_es arg (\<lambda>e. e\<lparr>es_retries := 0\<rparr>))
    (bindM (read_es arg) (\<lambda>e.
     thenM (if es_p e \<noteq> None then thenM (tcp_sent tpcb True) (tcpecho_raw_send lw tpcb arg)
            else whenM (es_state e = ES_CLOSING) (tcpecho_raw_close tpcb arg))
           (ret ERR_OK)))"

definition tcpecho_raw_recv :: "lwip \<Rightarrow> nat option \<Rightarrow> nat \<Rightarrow> nat option \<Rightarrow> err_t \<Rightarrow> ('z echo_scheme, err_t) cm" where
  "tcpecho_raw_recv lw arg tpcb p err =
     (if p = None then
        thenM (modify_es arg (\<lambda>e. e\<lparr>es_state := ES_CLOSING\<rparr>))
       (bindM (read_es arg) (\<lambda>e.
        thenM (if es_p e = None then tcpecho_raw_close tpcb arg else tcpecho_raw_send lw tpcb arg)
              (ret ERR_OK)))
      else if err \<noteq> ERR_OK then thenM (whenM (p \<noteq> None) (bindM (pbuf_free p) (\<lambda>_. ret ()))) (ret err)
      else bindM (read_es arg) (\<lambda>e.
        if es_state e = ES_ACCEPTED then
          thenM (modify_es arg (\<lambda>e. e\<lparr>es_state := ES_RECEIVED, es_p := p\<rparr>))
         (thenM (tcpecho_raw_send lw tpcb arg) (ret ERR_OK))
        else if es_state e = ES_RECEIVED then
          thenM (if es_p e = None then thenM (modify_es arg (\<lambda>e. e\<lparr>es_p := p\<rparr>)) (tcpecho_raw_send lw tpcb arg)
                 else pbuf_cat (es_p e) p)
                (ret ERR_OK)
        else bindM (read_pbuf p) (\<lambda>b.
             thenM (call (Tcp_Recved tpcb (tot_len b)))
            (bindM (pbuf_free p) (\<lambda>_. ret ERR_OK)))))"

definition tcpecho_raw_accept :: "lwip \<Rightarrow> nat option \<Rightarrow> err_t \<Rightarrow> ('z echo_scheme, err_t) cm" where
  "tcpecho_raw_accept lw newpcb err =
     (case newpcb of None \<Rightarrow> ret ERR_VAL
      | Some pcb \<Rightarrow>
        if err \<noteq> ERR_OK then ret ERR_VAL
        else thenM (tcp_setprio pcb 1)
            (bindM (mem_malloc lw) (\<lambda>es.
             case es of None \<Rightarrow> ret ERR_MEM
             | Some a \<Rightarrow>
               thenM (modM (\<lambda>s. s\<lparr>es_heap := (es_heap s)(a \<mapsto>
                        \<lparr>es_state = ES_ACCEPTED, es_retries = 0, es_pcb = pcb, es_p = None\<rparr>)\<rparr>))
              (thenM (tcp_arg pcb (Some a))
              (thenM (tcp_recv pcb True)
              (thenM (tcp_err pcb True)
              (thenM (tcp_poll pcb True 0)
              (thenM (tcp_sent pcb True)
              (ret ERR_OK)))))))))"

text \<open>
  \<open>tcpecho_raw_init\<close>, given what \<open>tcp_new_ip_type\<close>, \<open>tcp_bind\<close> and \<open>tcp_listen\<close> return: the variable
  \<open>tcpecho_raw_pcb\<close> afterwards, and the control block whose accept callback is set (\<open>tcp_accept\<close> ignores a null
  pointer).
\<close>

definition tcpecho_raw_init :: "nat option \<Rightarrow> (nat \<Rightarrow> u16 \<Rightarrow> err_t) \<Rightarrow> (nat \<Rightarrow> nat option) \<Rightarrow> nat option \<times> nat option" where
  "tcpecho_raw_init new_pcb tcp_bind tcp_listen =
     (case new_pcb of None \<Rightarrow> (None, None)
      | Some pcb \<Rightarrow> if tcp_bind pcb 7 = ERR_OK then (tcp_listen pcb, tcp_listen pcb) else (Some pcb, None))"

section \<open>Events\<close>

text \<open>
  The macros \<open>TCP_EVENT_RECV\<close>, \<open>TCP_EVENT_SENT\<close>, \<open>TCP_EVENT_POLL\<close> and \<open>TCP_EVENT_ERR\<close> of lwIP call the
  function that is set, with the argument of the control block. A packet arrives as a list of fresh
  buffers with one reference each; a control block is gone before its error callback runs.
\<close>

datatype event = Data "(nat \<times> u8 list) list" | Fin | Sent u16 | Poll | Err err_t

fun packet :: "(nat \<times> u8 list) list \<Rightarrow> (nat \<rightharpoonup> pbuf) \<Rightarrow> nat \<rightharpoonup> pbuf" where
  "packet [] m = m"
| "packet ((a, bs) # ps) m = (packet ps m)(a \<mapsto>
     \<lparr>p_next = (case ps of [] \<Rightarrow> None | q # _ \<Rightarrow> Some (fst q)), payload = bs,
      tot_len = of_nat (length bs + length (concat (map snd ps))), p_len = of_nat (length bs), p_ref = 1\<rparr>)"

definition no_callbacks :: "tcp_pcb \<Rightarrow> tcp_pcb" where
  "no_callbacks b = b\<lparr>callback_arg := None, cb_recv := False, cb_sent := False, cb_errf := False, cb_poll := False\<rparr>"

definition deliver :: "lwip \<Rightarrow> nat \<Rightarrow> event \<Rightarrow> ('z echo_scheme, unit) cm" where
  "deliver lw pcb ev =
     bindM (getM (\<lambda>s. pcbs s pcb)) (\<lambda>b.
     case ev of
       Data ps \<Rightarrow> whenM (cb_recv b \<and> ps \<noteq> [])
         (thenM (modM (\<lambda>s. s\<lparr>pbufs := packet ps (pbufs s)\<rparr>))
                (bindM (tcpecho_raw_recv lw (callback_arg b) pcb (Some (fst (hd ps))) ERR_OK) (\<lambda>_. ret ())))
     | Fin \<Rightarrow> whenM (cb_recv b) (bindM (tcpecho_raw_recv lw (callback_arg b) pcb None ERR_OK) (\<lambda>_. ret ()))
     | Sent n \<Rightarrow> whenM (cb_sent b) (bindM (tcpecho_raw_sent lw (callback_arg b) pcb n) (\<lambda>_. ret ()))
     | Poll \<Rightarrow> whenM (cb_poll b) (bindM (tcpecho_raw_poll lw (callback_arg b) pcb) (\<lambda>_. ret ()))
     | Err e \<Rightarrow> thenM (upd_pcb pcb no_callbacks) (whenM (cb_errf b) (tcpecho_raw_error (callback_arg b) e)))"

text \<open>The bytes lwIP accepted for a connection, oldest first.\<close>

fun echoed :: "nat \<Rightarrow> tcp_call list \<Rightarrow> u8 list" where
  "echoed pcb [] = []"
| "echoed pcb (Tcp_Write q bs e # l) = echoed pcb l @ (if q = pcb \<and> e = ERR_OK then bs else [])"
| "echoed pcb (c # l) = echoed pcb l"

text \<open>The bytes that arrived before the other side closed or the connection broke.\<close>

fun ends :: "event \<Rightarrow> bool" where
  "ends Fin = True"
| "ends (Err e) = True"
| "ends _ = False"

fun received_bytes :: "event list \<Rightarrow> u8 list" where
  "received_bytes [] = []"
| "received_bytes (Data ps # evs) = concat (map snd ps) @ received_bytes evs"
| "received_bytes (Fin # evs) = []"
| "received_bytes (Err e # evs) = []"
| "received_bytes (ev # evs) = received_bytes evs"

text \<open>A packet lwIP may hand over: at least one buffer, none of them in use, none longer than 65535 bytes.\<close>

fun arrives :: "event \<Rightarrow> 'z echo_scheme \<Rightarrow> bool" where
  "arrives (Data ps) s = (ps \<noteq> [] \<and> distinct (map fst ps) \<and>
     list_all (\<lambda>(a, bs). pbufs s a = None \<and> length bs < 2 ^ 16) ps)"
| "arrives _ s = True"

text \<open>The states of a connection after a sequence of events, from its acceptance in \<open>s\<^sub>0\<close>.\<close>

inductive session :: "lwip \<Rightarrow> nat \<Rightarrow> 'z echo_scheme \<Rightarrow> event list \<Rightarrow> 'z echo_scheme \<Rightarrow> bool" for lw pcb s\<^sub>0 where
  accepted: "tcpecho_raw_accept lw (Some pcb) ERR_OK s\<^sub>0 = Some (Inr (ERR_OK, s)) \<Longrightarrow>
     (\<And>a. malloc lw (tcp_log s\<^sub>0) = Some a \<Longrightarrow> es_heap s\<^sub>0 a = None) \<Longrightarrow> session lw pcb s\<^sub>0 [] s"
| event: "session lw pcb s\<^sub>0 evs s \<Longrightarrow> arrives ev s \<Longrightarrow> deliver lw pcb ev s = Some (Inr ((), t)) \<Longrightarrow>
     session lw pcb s\<^sub>0 (evs @ [ev]) t"

section \<open>Rules for the calls\<close>

lemma wp_upd_pcb [wp_simps]: "wp (upd_pcb pcb f) Q = (\<lambda>s. Q () (s\<lparr>pcbs := (pcbs s)(pcb := f (pcbs s pcb))\<rparr>))"
  by (simp add: upd_pcb_def wp_simps)

lemma wp_call [wp_simps]: "wp (call c) Q = (\<lambda>s. Q () (s\<lparr>tcp_log := c # tcp_log s\<rparr>))"
  by (simp add: call_def wp_simps)

lemma wp_es [wp_simps]:
  "wp (read_es (Some a)) Q = (\<lambda>s. case es_heap s a of None \<Rightarrow> False | Some e \<Rightarrow> Q e s)"
  "wp (modify_es (Some a) f) R = (\<lambda>s. case es_heap s a of None \<Rightarrow> False | Some e \<Rightarrow> R () (s\<lparr>es_heap := (es_heap s)(a \<mapsto> f e)\<rparr>))"
  "wp (mem_free (Some a)) R = (\<lambda>s. case es_heap s a of None \<Rightarrow> False | Some e \<Rightarrow> R () (s\<lparr>es_heap := (es_heap s)(a := None)\<rparr>))"
  by (auto simp: read_es_def modify_es_def mem_free_def wp_simps fun_eq_iff split: option.split)

lemmas pcb_setters = tcp_arg_def tcp_recv_def tcp_sent_def tcp_err_def tcp_poll_def tcp_setprio_def

section \<open>A connection and its pending bytes\<close>

text \<open>
  An open connection: its state block, the buffers still to be echoed, each referenced once, and nothing
  else in the two heaps changed since it was accepted; all callbacks set.
\<close>

definition registered :: "nat \<Rightarrow> tcp_pcb \<Rightarrow> bool" where
  "registered a b = (callback_arg b = Some a \<and> cb_recv b \<and> cb_sent b \<and> cb_errf b \<and> cb_poll b)"

definition owns :: "nat \<Rightarrow> (nat \<rightharpoonup> pbuf) \<Rightarrow> (nat \<rightharpoonup> tcpecho_raw_state) \<Rightarrow> tcpecho_raw_states \<Rightarrow> nat list \<Rightarrow> 'z echo_scheme \<Rightarrow> bool" where
  "owns a m e0 st as s \<longleftrightarrow>
     (\<exists>e. es_heap s = e0(a \<mapsto> e) \<and> es_state e = st \<and> chain (pbufs s) (es_p e) as) \<and>
     sized (pbufs s) as \<and> (\<forall>x \<in> set as. p_ref (the (pbufs s x)) = 1 \<and> m x = None) \<and>
     (\<forall>x. x \<notin> set as \<longrightarrow> pbufs s x = m x)"

definition conn :: "nat \<Rightarrow> nat \<Rightarrow> (nat \<rightharpoonup> pbuf) \<Rightarrow> (nat \<rightharpoonup> tcpecho_raw_state) \<Rightarrow> tcpecho_raw_states \<Rightarrow> u8 list \<Rightarrow> nat list \<Rightarrow>
    'z echo_scheme \<Rightarrow> bool" where
  "conn pcb a m e0 st out as s \<longleftrightarrow> owns a m e0 st as s \<and> echoed pcb (tcp_log s) = out \<and> registered a (pcbs s pcb)"

lemmas conn_defs = conn_def owns_def

text \<open>Taking a reference to the second buffer and freeing the first cuts the first off the chain.\<close>

lemma wp_chop_first:
  assumes "pbufs s x = Some b" "chain (pbufs s) (p_next b) as" "x \<notin> set as"
    and "p_ref b = 1" "\<forall>y \<in> set as. p_ref (the (pbufs s y)) = 1"
    and Q: "\<And>n. Q n (s\<lparr>pbufs := (pbufs s)(x := None)\<rparr>)"
  shows "wp (bindM (whenM (p_next b \<noteq> None) (pbuf_ref (p_next b))) (\<lambda>_. pbuf_free (Some x))) Q s"
proof (cases as)
  case Nil
  have r: "(\<lambda>c. if c \<in> set [x] then None else if ([] :: nat list) \<noteq> [] \<and> c = hd [] then map_option (\<lambda>b. b\<lparr>p_ref := p_ref b - 1\<rparr>) (pbufs s c) else pbufs s c)
      = (pbufs s)(x := None)" by (auto simp: fun_eq_iff)
  have "wp (pbuf_free (Some x)) Q s"
    by (rule wp_pbuf_free [where ys = "[x]" and zs = "[]"]) (use assms Nil Q r in \<open>simp_all cong: if_cong\<close>)
  then show ?thesis using assms(2) Nil by (simp add: wp_simps)
next
  case (Cons y ys)
  obtain yb where y: "p_next b = Some y" "pbufs s y = Some yb" "x \<noteq> y" "p_ref yb = 1"
    using assms(2,3,5) Cons by (auto split: option.splits)
  let ?m = "(pbufs s)(y \<mapsto> yb\<lparr>p_ref := p_ref yb + 1\<rparr>)"
  have r: "(\<lambda>c. if c \<in> set [x] then None else if as \<noteq> [] \<and> c = hd as then map_option (\<lambda>b. b\<lparr>p_ref := p_ref b - 1\<rparr>) (?m c) else ?m c)
      = (pbufs s)(x := None)" using y Cons by (auto simp: fun_eq_iff)
  have "chain ?m (p_next b) as" using assms(2) by (subst chain_cong [of _ _ "pbufs s"]) (use y(2) in auto)
  then have ch: "chain ?m (Some x) ([x] @ as)" using assms(1) y(3) by simp
  have eq: "pbufs (s\<lparr>pbufs := ?m\<rparr>) = ?m" by simp
  have "wp (pbuf_free (Some x)) Q (s\<lparr>pbufs := ?m\<rparr>)"
  proof (rule wp_pbuf_free [where ys = "[x]" and zs = as])
    show "chain (pbufs (s\<lparr>pbufs := ?m\<rparr>)) (Some x) ([x] @ as)" using ch by simp
    show "Q (of_nat (length [x])) ((s\<lparr>pbufs := ?m\<rparr>)\<lparr>pbufs := \<lambda>a. if a \<in> set [x] then None
      else if as \<noteq> [] \<and> a = hd as then map_option (\<lambda>b. b\<lparr>p_ref := p_ref b - 1\<rparr>) (pbufs (s\<lparr>pbufs := ?m\<rparr>) a) else pbufs (s\<lparr>pbufs := ?m\<rparr>) a\<rparr>)"
      unfolding eq r using Q by simp
  qed (use assms(1,4) y Cons in auto)
  then show ?thesis using y by (simp add: wp_simps pbuf_ref_def)
qed

text \<open>One turn of the loop moves the first buffer out, or leaves everything as it is.\<close>

lemma conn_same:
  "conn pcb a m e0 st out as s \<Longrightarrow> es_heap t = es_heap s \<Longrightarrow> pbufs t = pbufs s \<Longrightarrow>
     echoed pcb (tcp_log t) = echoed pcb (tcp_log s) \<Longrightarrow> pcbs t = pcbs s \<Longrightarrow> conn pcb a m e0 st out as t"
  by (simp add: conn_defs)

lemma wp_echo_turn:
  assumes c: "conn pcb a m e0 st out (x # as) s"
    and ok: "\<And>t. conn pcb a m e0 st (out @ payload (the (pbufs s x))) as t \<Longrightarrow> pbufs t = (pbufs s)(x := None) \<Longrightarrow> Q ERR_OK t"
    and no: "\<And>t e. conn pcb a m e0 st out (x # as) t \<Longrightarrow> pbufs t = pbufs s \<Longrightarrow> e \<noteq> ERR_OK \<Longrightarrow>
      e = write_err lw (tcp_log s) pcb (payload (the (pbufs s x))) \<Longrightarrow> Q e t"
  shows "wp (echo_turn lw pcb (Some a) wr) Q s"
proof -
  obtain e b where e: "es_heap s = e0(a \<mapsto> e)" "es_state e = st" "es_p e = Some x"
    and b: "pbufs s x = Some b" "chain (pbufs s) (p_next b) as" "length (payload b) = unat (p_len b)" "p_ref b = 1"
    using c by (auto simp: conn_defs split: option.splits)
  have d: "x \<notin> set as" using chain_distinct [of "pbufs s" "Some x" "x # as"] b by simp
  let ?w = "write_err lw (tcp_log s) pcb (payload b)"
  let ?s = "s\<lparr>tcp_log := Tcp_Write pcb (payload b) ?w # tcp_log s\<rparr>"
  have es: "e\<lparr>es_p := Some x\<rparr> = e" using e(3) by simp
  show ?thesis
  proof (cases "?w = ERR_OK")
    case False
    have "conn pcb a m e0 st out (x # as) ?s" by (rule conn_same [OF c]) (use False in simp_all)
    then have "Q ?w ?s" by (rule no) (use False b(1) in simp_all)
    moreover have "Q ?w (?s\<lparr>es_heap := e0(a \<mapsto> e\<lparr>es_p := Some x\<rparr>)\<rparr>)"
      by (rule no, rule conn_same [OF c]) (use False b(1) e(1) es in \<open>simp_all only: echo.simps netmem.simps, simp_all\<close>)
    ultimately show ?thesis
      using False b e by (auto simp: echo_turn_def tcp_write_def wp_simps Let_def)
  next
    case True
    let ?t = "?s\<lparr>es_heap := e0(a \<mapsto> e\<lparr>es_p := p_next b\<rparr>)\<rparr>"
    let ?u = "?t\<lparr>pbufs := (pbufs s)(x := None), tcp_log := Tcp_Recved pcb (p_len b) # tcp_log ?t\<rparr>"
    have ch: "chain ((pbufs s)(x := None)) (p_next b) as" using b(2) d by (subst chain_cong [of _ _ "pbufs s"]) auto
    have u: "conn pcb a m e0 st (out @ payload b) as ?u"
      using c d e b True ch by (auto simp: conn_defs sized_def)
    have "Q ERR_OK ?u" by (rule ok) (use u b(1) in simp_all)
    then have "wp (bindM (whenM (p_next b \<noteq> None) (pbuf_ref (p_next b))) (\<lambda>_. pbuf_free (Some x)))
        (\<lambda>_ t. Q ERR_OK (t\<lparr>tcp_log := Tcp_Recved pcb (p_len b) # tcp_log t\<rparr>)) ?t"
      by (intro wp_chop_first [of _ x b as]) (use b c d True in \<open>simp_all add: conn_defs\<close>)
    then show ?thesis
      using True b e by (simp add: echo_turn_def tcp_write_def wp_simps Let_def)
  qed
qed

text \<open>Sending: some prefix of the pending buffers goes out; all of them if lwIP has room.\<close>

definition roomy :: "lwip \<Rightarrow> bool" where
  "roomy lw = (\<forall>l pcb bs. snd_buf lw l pcb = 0xFFFF \<and> write_err lw l pcb bs = ERR_OK)"

lemma wp_tcpecho_raw_send:
  fixes s :: "'z echo_scheme"
  assumes "conn pcb a m e0 st out as s"
    and "\<And>xs ys t. as = xs @ ys \<Longrightarrow> conn pcb a m e0 st (out @ bytes (pbufs s) xs) ys t \<Longrightarrow>
      bytes (pbufs t) ys = bytes (pbufs s) ys \<Longrightarrow> (roomy lw \<Longrightarrow> ys = []) \<Longrightarrow> Q () t"
  shows "wp (tcpecho_raw_send lw pcb (Some a)) Q s"
proof -
  have stop: "wp (whileM (echo_test lw pcb (Some a)) (echo_turn lw pcb (Some a)) e) (\<lambda>_. R) s"
    if "e \<noteq> ERR_OK" "R s" for R e s
    using that by (subst wp_whileM_unfold) (simp add: echo_test_def wp_simps)
  have "wp (whileM (echo_test lw pcb (Some a)) (echo_turn lw pcb (Some a)) ERR_OK) (\<lambda>_. Q ()) s"
    using assms
  proof (induction as arbitrary: s out)
    case Nil
    then obtain e where e: "es_heap s = e0(a \<mapsto> e)" "es_p e = None" by (auto simp: conn_defs)
    have "Q () s" by (rule Nil.prems(2) [of "[]" "[]"]) (use Nil.prems(1) in simp_all)
    then show ?case using e by (subst wp_whileM_unfold) (simp add: echo_test_def wp_simps)
  next
    case (Cons x as)
    obtain e b where e: "es_heap s = e0(a \<mapsto> e)" "es_p e = Some x" "pbufs s x = Some b" "chain (pbufs s) (Some x) (x # as)"
      using Cons.prems(1) by (auto simp: conn_defs split: option.splits)
    have d: "x \<notin> set as" using chain_distinct [OF e(4)] by simp
    have here: "Q () t" if "conn pcb a m e0 st out (x # as) t" "pbufs t = pbufs s" "\<not> roomy lw" for t
      by (rule Cons.prems(2) [of "[]" "x # as"]) (use that in simp_all)
    have "wp (echo_turn lw pcb (Some a) ERR_OK) (\<lambda>v. wp (whileM (echo_test lw pcb (Some a)) (echo_turn lw pcb (Some a)) v) (\<lambda>_. Q ())) s"
    proof (rule wp_echo_turn [OF Cons.prems(1)])
      fix t :: "'z echo_scheme" and e assume t: "conn pcb a m e0 st out (x # as) t" "pbufs t = pbufs s" "e \<noteq> ERR_OK"
        and e: "e = write_err lw (tcp_log s) pcb (payload (the (pbufs s x)))"
      then have "\<not> roomy lw" by (auto simp: roomy_def)
      with t show "wp (whileM (echo_test lw pcb (Some a)) (echo_turn lw pcb (Some a)) e) (\<lambda>_. Q ()) t"
        by (intro stop here)
    next
      fix t :: "'z echo_scheme" assume t: "conn pcb a m e0 st (out @ payload (the (pbufs s x))) as t" "pbufs t = (pbufs s)(x := None)"
      have bt: "bytes (pbufs t) zs = bytes (pbufs s) zs" if "x \<notin> set zs" for zs
        by (rule bytes_cong) (use t(2) that in auto)
      show "wp (whileM (echo_test lw pcb (Some a)) (echo_turn lw pcb (Some a)) ERR_OK) (\<lambda>_. Q ()) t"
      proof (rule Cons.IH [OF t(1)])
        fix xs ys and u :: "'z echo_scheme"
        assume "as = xs @ ys" "conn pcb a m e0 st ((out @ payload (the (pbufs s x))) @ bytes (pbufs t) xs) ys u"
          "bytes (pbufs u) ys = bytes (pbufs t) ys" "roomy lw \<Longrightarrow> ys = []"
        then show "Q () u" using bt d by (intro Cons.prems(2) [of "x # xs" ys]) simp_all
      qed
    qed
    moreover have "Q () s" if "\<not> p_len b \<le> snd_buf lw (tcp_log s) pcb"
    proof -
      have "p_len b \<le> 0xFFFF" using unsigned_less [of "p_len b", where ?'a = nat] by (simp add: word_le_nat_alt)
      then have "\<not> roomy lw" using that unfolding roomy_def by metis
      then show ?thesis using Cons.prems(1) by (intro here) auto
    qed
    ultimately show ?case
      using e by (subst wp_whileM_unfold) (simp add: echo_test_def wp_simps tcp_sndbuf_def)
  qed
  then show ?thesis by (simp add: tcpecho_raw_send_def wp_simps)
qed

section \<open>The callbacks on an open connection\<close>

text \<open>A closed connection: no callback is set, and the heaps are as they were before it was accepted.\<close>

definition closed :: "nat \<Rightarrow> (nat \<rightharpoonup> pbuf) \<Rightarrow> (nat \<rightharpoonup> tcpecho_raw_state) \<Rightarrow> u8 list \<Rightarrow> 'z echo_scheme \<Rightarrow> bool" where
  "closed pcb m e0 out s \<longleftrightarrow>
     no_callbacks (pcbs s pcb) = pcbs s pcb \<and> pbufs s = m \<and> es_heap s = e0 \<and> echoed pcb (tcp_log s) = out"

lemma owns_heap:
  assumes "owns a m e0 st as s"
  shows "pbufs s |` (- set as) = m"
  using assms by (auto simp: owns_def restrict_map_def fun_eq_iff)

lemma wp_tcpecho_raw_free:
  fixes s :: "'z echo_scheme"
  assumes c: "owns a m e0 st as s" and a: "e0 a = None"
    and Q: "Q () (s\<lparr>pbufs := m, es_heap := e0\<rparr>)"
  shows "wp (tcpecho_raw_free (Some a)) Q s"
proof -
  obtain e where e: "es_heap s = e0(a \<mapsto> e)" "chain (pbufs s) (es_p e) as" using c by (auto simp: owns_def)
  have e0: "e0(a := None) = e0" using a by auto
  have "wp (pbuf_free (es_p e)) (\<lambda>_ t. Q () (t\<lparr>es_heap := e0\<rparr>) \<and> es_heap t = es_heap s) s"
    by (rule wp_pbuf_free_all [OF e(2)]) (use c Q owns_heap [OF c] in \<open>auto simp: owns_def\<close>)
  then have f: "wp (pbuf_free (es_p e)) (\<lambda>_ t. case es_heap t a of None \<Rightarrow> False | Some _ \<Rightarrow> Q () (t\<lparr>es_heap := (es_heap t)(a := None)\<rparr>)) s"
    by (rule wp_mono) (simp add: e(1) e0)
  show ?thesis
  proof (cases "es_p e")
    case None
    then have "as = []" using e(2) by (cases as) auto
    then have "pbufs s = m" using owns_heap [OF c] by (simp add: restrict_map_def)
    then have "s\<lparr>pbufs := m, es_heap := e0\<rparr> = s\<lparr>es_heap := e0\<rparr>" by (metis netmem_same)
    then show ?thesis using Q None e e0 by (simp add: tcpecho_raw_free_def wp_simps)
  next
    case (Some x)
    then show ?thesis using f e by (simp add: tcpecho_raw_free_def wp_simps)
  qed
qed

lemma owns_pcbs [simp]: "owns a m e0 st as (s\<lparr>pcbs := f\<rparr>) = owns a m e0 st as s"
  by (simp add: owns_def)

lemma wp_tcpecho_raw_close:
  fixes s :: "'z echo_scheme"
  assumes c: "conn pcb a m e0 st out as s" and a: "e0 a = None"
    and Q: "\<And>t. closed pcb m e0 out t \<Longrightarrow> Q () t"
  shows "wp (tcpecho_raw_close pcb (Some a)) Q s"
proof -
  let ?b = "\<lambda>b. b\<lparr>callback_arg := None, cb_sent := False, cb_recv := False, cb_errf := False, cb_poll := False, pollinterval := 0\<rparr>"
  let ?t = "s\<lparr>pcbs := (pcbs s)(pcb := ?b (pcbs s pcb))\<rparr>"
  have "owns a m e0 st as ?t" using c by (simp add: conn_def)
  then have "wp (tcpecho_raw_free (Some a)) (\<lambda>_ t. Q () (t\<lparr>tcp_log := Tcp_Close pcb # tcp_log t\<rparr>)) ?t"
    by (rule wp_tcpecho_raw_free) (use a c in \<open>simp_all add: Q closed_def no_callbacks_def conn_def\<close>)
  then show ?thesis by (simp add: tcpecho_raw_close_def wp_simps pcb_setters)
qed

text \<open>A packet that has just arrived, and where it goes.\<close>

lemma packet_parts:
  assumes "distinct (map fst ps)" "\<forall>x \<in> set ps. length (snd x) < 2 ^ 16"
  shows "chain (packet ps m) (case ps of [] \<Rightarrow> None | q # _ \<Rightarrow> Some (fst q)) (map fst ps)"
    "sized (packet ps m) (map fst ps)" "\<forall>x \<in> set (map fst ps). p_ref (the (packet ps m x)) = 1"
    "bytes (packet ps m) (map fst ps) = concat (map snd ps)" "x \<notin> set (map fst ps) \<Longrightarrow> packet ps m x = m x"
proof -
  show other: "x \<notin> set (map fst ps) \<Longrightarrow> packet ps m x = m x" for x
    by (induction ps m rule: packet.induct) auto
  show "chain (packet ps m) (case ps of [] \<Rightarrow> None | q # _ \<Rightarrow> Some (fst q)) (map fst ps)"
    using assms(1)
  proof (induction ps m rule: packet.induct)
    case (2 a bs ps m)
    then have "chain (packet ((a, bs) # ps) m) (case ps of [] \<Rightarrow> None | q # _ \<Rightarrow> Some (fst q)) (map fst ps)"
      by (subst chain_cong [of _ _ "packet ps m"]) auto
    moreover have "\<exists>b. packet ((a, bs) # ps) m a = Some b \<and> p_next b = (case ps of [] \<Rightarrow> None | q # _ \<Rightarrow> Some (fst q))"
      by simp
    ultimately show ?case by (auto simp: chain_Cons simp del: packet.simps chain.simps)
  qed simp
  show "sized (packet ps m) (map fst ps)"
    using assms
  proof (induction ps m rule: packet.induct)
    case (2 a bs ps m)
    then show ?case by (auto simp: sized_def unat_word_of_nat)
  qed simp
  show "\<forall>x \<in> set (map fst ps). p_ref (the (packet ps m x)) = 1"
    by (induction ps m rule: packet.induct) auto
  show "bytes (packet ps m) (map fst ps) = concat (map snd ps)"
    using assms(1)
  proof (induction ps m rule: packet.induct)
    case (2 a bs ps m)
    then have "bytes (packet ((a, bs) # ps) m) (map fst ps) = bytes (packet ps m) (map fst ps)"
      by (intro bytes_cong) auto
    moreover have "payload (the (packet ((a, bs) # ps) m a)) = bs" by simp
    ultimately show ?case using 2 by (simp del: packet.simps)
  qed simp
qed

lemma conn_arrive:
  assumes c: "conn pcb a m e0 st out as s" and ar: "arrives (Data ps) s"
  defines "n \<equiv> packet ps (pbufs s)" and "qs \<equiv> map fst ps"
  shows "chain n q as = chain (pbufs s) q as" "bytes n as = bytes (pbufs s) as" "sized n as"
    "\<forall>x \<in> set as. p_ref (the (n x)) = 1 \<and> m x = None"
    and "chain n (Some (fst (hd ps))) qs" "bytes n qs = concat (map snd ps)" "sized n qs"
    "\<forall>x \<in> set qs. p_ref (the (n x)) = 1 \<and> m x = None"
    and "set as \<inter> set qs = {}" "n |` (- set qs) = pbufs s" "x \<notin> set as \<union> set qs \<Longrightarrow> n x = m x"
proof -
  have ps: "distinct (map fst ps)" "\<forall>x \<in> set ps. length (snd x) < 2 ^ 16" "ps \<noteq> []"
    and new: "\<And>x. x \<in> set qs \<Longrightarrow> pbufs s x = None"
    using ar by (auto simp: qs_def list_all_iff split: prod.splits)
  note p = packet_parts [OF ps(1,2), where m = "pbufs s", folded n_def qs_def]
  have "\<exists>b. pbufs s x = Some b" if "x \<in> set as" for x
    using c that chain_in_heap unfolding conn_defs by metis
  then show dis: "set as \<inter> set qs = {}" using new by fastforce
  have other: "n x = pbufs s x" if "x \<in> set as" for x using dis that by (auto intro!: p(5))
  show "chain n q as = chain (pbufs s) q as" by (rule chain_cong) (simp add: other)
  show "bytes n as = bytes (pbufs s) as" by (rule bytes_cong) (simp add: other)
  show "sized n as" "\<forall>x \<in> set as. p_ref (the (n x)) = 1 \<and> m x = None"
    using c other by (auto simp: conn_defs sized_def)
  show "chain n (Some (fst (hd ps))) qs" using p(1) ps(3) by (cases ps) (simp_all add: qs_def)
  show "sized n qs" "bytes n qs = concat (map snd ps)" using p(2,4) by simp_all
  have mx: "pbufs s x = m x" if "x \<notin> set as" for x using c that by (simp add: conn_defs)
  then show "\<forall>x \<in> set qs. p_ref (the (n x)) = 1 \<and> m x = None" using p(3) new dis by fastforce
  show "n |` (- set qs) = pbufs s" using p(5) new by (auto simp: restrict_map_def fun_eq_iff)
  show "x \<notin> set as \<union> set qs \<Longrightarrow> n x = m x" using p(5) mx by auto
qed

text \<open>
  The state of a session: active, with what is echoed and what is pending making up what was received_bytes,
  or finished, with the heaps restored.
\<close>

definition active :: "lwip \<Rightarrow> nat \<Rightarrow> nat \<Rightarrow> 'z echo_scheme \<Rightarrow> tcpecho_raw_states \<Rightarrow> u8 list \<Rightarrow> 'z echo_scheme \<Rightarrow> bool" where
  "active lw pcb a s0 st R s \<longleftrightarrow>
     (\<exists>out as. conn pcb a (pbufs s0) (es_heap s0) st (echoed pcb (tcp_log s0) @ out) as s \<and> out @ bytes (pbufs s) as = R \<and>
        (st = ES_ACCEPTED \<longrightarrow> as = []) \<and> (roomy lw \<longrightarrow> as = []))"

definition finished :: "nat \<Rightarrow> 'z echo_scheme \<Rightarrow> u8 list \<Rightarrow> 'z echo_scheme \<Rightarrow> bool" where
  "finished pcb s0 out s \<longleftrightarrow> closed pcb (pbufs s0) (es_heap s0) (echoed pcb (tcp_log s0) @ out) s"

lemma activeE:
  assumes "active lw pcb a s0 st R s"
  obtains out as e where "conn pcb a (pbufs s0) (es_heap s0) st (echoed pcb (tcp_log s0) @ out) as s" "out @ bytes (pbufs s) as = R"
    "st = ES_ACCEPTED \<longrightarrow> as = []" "roomy lw \<longrightarrow> as = []" "es_heap s = (es_heap s0)(a \<mapsto> e)" "es_state e = st"
    "chain (pbufs s) (es_p e) as" "es_p e = None \<longleftrightarrow> as = []" "registered a (pcbs s pcb)"
proof -
  obtain out as where c: "conn pcb a (pbufs s0) (es_heap s0) st (echoed pcb (tcp_log s0) @ out) as s" "out @ bytes (pbufs s) as = R"
    "st = ES_ACCEPTED \<longrightarrow> as = []" "roomy lw \<longrightarrow> as = []" using assms by (auto simp: active_def)
  then obtain e where e: "es_heap s = (es_heap s0)(a \<mapsto> e)" "es_state e = st" "chain (pbufs s) (es_p e) as" by (auto simp: conn_defs)
  moreover from e(3) have "es_p e = None \<longleftrightarrow> as = []" by (cases as) auto
  ultimately show thesis using c by (intro that [of out as e]) (auto simp: conn_def)
qed

lemma wp_send_active:
  fixes s :: "'z echo_scheme"
  assumes "conn pcb a (pbufs s0) (es_heap s0) st (echoed pcb (tcp_log s0) @ out) as s" "out @ bytes (pbufs s) as = R" "st \<noteq> ES_ACCEPTED"
    and Q: "\<And>t. active lw pcb a s0 st R t \<Longrightarrow> Q () t"
  shows "wp (tcpecho_raw_send lw pcb (Some a)) Q s"
proof (rule wp_tcpecho_raw_send [OF assms(1)])
  fix xs ys and t :: "'z echo_scheme"
  assume "as = xs @ ys" "conn pcb a (pbufs s0) (es_heap s0) st ((echoed pcb (tcp_log s0) @ out) @ bytes (pbufs s) xs) ys t"
    "bytes (pbufs t) ys = bytes (pbufs s) ys" "roomy lw \<Longrightarrow> ys = []"
  then show "Q () t" using assms(2,3)
    by (intro Q, unfold active_def) (auto intro!: exI [of _ "out @ bytes (pbufs s) xs"] exI [of _ ys])
qed

text \<open>Fields of the state block that do not matter to the chain may change.\<close>

lemma conn_modify_es:
  "conn pcb a m e0 st out as s \<Longrightarrow> es_heap s = e0(a \<mapsto> e) \<Longrightarrow> chain (pbufs s) (es_p e') as \<Longrightarrow>
     conn pcb a m e0 (es_state e') out as (s\<lparr>es_heap := e0(a \<mapsto> e')\<rparr>)"
  by (auto simp: conn_defs)

lemma conn_registered:
  "conn pcb a m e0 st out as s \<Longrightarrow> registered a b \<Longrightarrow> conn pcb a m e0 st out as (s\<lparr>pcbs := (pcbs s)(pcb := b)\<rparr>)"
  by (simp add: conn_defs)

lemma wp_poll:
  fixes s :: "'z echo_scheme"
  assumes s: "active lw pcb a s0 st R s" and a: "es_heap s0 a = None"
  shows "wp (tcpecho_raw_poll lw (Some a) pcb) (\<lambda>_ t. active lw pcb a s0 st R t \<or> st = ES_CLOSING \<and> finished pcb s0 R t) s"
proof -
  obtain out as e where c: "conn pcb a (pbufs s0) (es_heap s0) st (echoed pcb (tcp_log s0) @ out) as s" "out @ bytes (pbufs s) as = R"
    "st = ES_ACCEPTED \<longrightarrow> as = []" "roomy lw \<longrightarrow> as = []" "es_heap s = (es_heap s0)(a \<mapsto> e)" "es_state e = st"
    "chain (pbufs s) (es_p e) as" "es_p e = None \<longleftrightarrow> as = []" "registered a (pcbs s pcb)" by (rule activeE [OF s])
  show ?thesis
  proof (cases as)
    case Nil
    then have "wp (tcpecho_raw_close pcb (Some a)) (\<lambda>_ t. finished pcb s0 R t) s"
      using c(2) by (intro wp_tcpecho_raw_close [where ?e0.0 = "es_heap s0" and a = a, OF c(1) a]) (simp add: finished_def)
    then have "wp (tcpecho_raw_close pcb (Some a)) (\<lambda>_ t. active lw pcb a s0 st R t \<or> st = ES_CLOSING \<and> finished pcb s0 R t) s"
      if "st = ES_CLOSING" by (rule wp_mono) (simp add: that)
    then show ?thesis using Nil c s by (auto simp: tcpecho_raw_poll_def wp_simps)
  next
    case (Cons x xs)
    then have "wp (tcpecho_raw_send lw pcb (Some a)) (\<lambda>_ t. active lw pcb a s0 st R t \<or> st = ES_CLOSING \<and> finished pcb s0 R t) s"
      using c(3) by (intro wp_send_active [OF c(1,2)]) auto
    then show ?thesis using Cons c by (simp add: tcpecho_raw_poll_def wp_simps)
  qed
qed

lemma wp_sent:
  fixes s :: "'z echo_scheme"
  assumes s: "active lw pcb a s0 st R s" and a: "es_heap s0 a = None"
  shows "wp (tcpecho_raw_sent lw (Some a) pcb n) (\<lambda>_ t. active lw pcb a s0 st R t \<or> st = ES_CLOSING \<and> finished pcb s0 R t) s"
proof -
  obtain out as e where c: "conn pcb a (pbufs s0) (es_heap s0) st (echoed pcb (tcp_log s0) @ out) as s" "out @ bytes (pbufs s) as = R"
    "st = ES_ACCEPTED \<longrightarrow> as = []" "roomy lw \<longrightarrow> as = []" "es_heap s = (es_heap s0)(a \<mapsto> e)" "es_state e = st"
    "chain (pbufs s) (es_p e) as" "es_p e = None \<longleftrightarrow> as = []" "registered a (pcbs s pcb)" by (rule activeE [OF s])
  let ?Q = "\<lambda>_ t. active lw pcb a s0 st R t \<or> st = ES_CLOSING \<and> finished pcb s0 R t"
  let ?s = "s\<lparr>es_heap := (es_heap s0)(a \<mapsto> e\<lparr>es_retries := 0\<rparr>)\<rparr>"
  have c': "conn pcb a (pbufs s0) (es_heap s0) st (echoed pcb (tcp_log s0) @ out) as ?s"
    using conn_modify_es [OF c(1,5), of "e\<lparr>es_retries := 0\<rparr>"] c(6,7) by simp
  show ?thesis
  proof (cases as)
    case Nil
    have "wp (tcpecho_raw_close pcb (Some a)) ?Q ?s" if "st = ES_CLOSING"
      using c(2) that Nil by (intro wp_tcpecho_raw_close [where ?e0.0 = "es_heap s0" and a = a, OF c' a]) (simp add: finished_def)
    moreover have "active lw pcb a s0 st R ?s"
      unfolding active_def by (rule exI [of _ out], rule exI [of _ as]) (use c' c(2) Nil in simp)
    ultimately show ?thesis using Nil c by (auto simp: tcpecho_raw_sent_def wp_simps)
  next
    case (Cons x xs)
    let ?b = "(pcbs s pcb)\<lparr>cb_sent := True\<rparr>"
    have "conn pcb a (pbufs s0) (es_heap s0) st (echoed pcb (tcp_log s0) @ out) as (?s\<lparr>pcbs := (pcbs ?s)(pcb := ?b)\<rparr>)"
      by (rule conn_registered [OF c']) (use c(9) in \<open>simp add: registered_def\<close>)
    then have "wp (tcpecho_raw_send lw pcb (Some a)) ?Q (?s\<lparr>pcbs := (pcbs ?s)(pcb := ?b)\<rparr>)"
      by (rule wp_send_active) (use c(2,3) Cons in auto)
    then show ?thesis using Cons c by (simp add: tcpecho_raw_sent_def wp_simps pcb_setters)
  qed
qed

lemma wp_fin:
  fixes s :: "'z echo_scheme"
  assumes s: "active lw pcb a s0 st R s" and a: "es_heap s0 a = None"
  shows "wp (tcpecho_raw_recv lw (Some a) pcb None er) (\<lambda>_ t. active lw pcb a s0 ES_CLOSING R t \<or> finished pcb s0 R t) s"
proof -
  obtain out as e where c: "conn pcb a (pbufs s0) (es_heap s0) st (echoed pcb (tcp_log s0) @ out) as s" "out @ bytes (pbufs s) as = R"
    "st = ES_ACCEPTED \<longrightarrow> as = []" "roomy lw \<longrightarrow> as = []" "es_heap s = (es_heap s0)(a \<mapsto> e)" "es_state e = st"
    "chain (pbufs s) (es_p e) as" "es_p e = None \<longleftrightarrow> as = []" "registered a (pcbs s pcb)" by (rule activeE [OF s])
  let ?Q = "\<lambda>_ t. active lw pcb a s0 ES_CLOSING R t \<or> finished pcb s0 R t"
  let ?s = "s\<lparr>es_heap := (es_heap s0)(a \<mapsto> e\<lparr>es_state := ES_CLOSING\<rparr>)\<rparr>"
  have c': "conn pcb a (pbufs s0) (es_heap s0) ES_CLOSING (echoed pcb (tcp_log s0) @ out) as ?s"
    using conn_modify_es [OF c(1,5), of "e\<lparr>es_state := ES_CLOSING\<rparr>"] c(7) by simp
  show ?thesis
  proof (cases as)
    case Nil
    have "wp (tcpecho_raw_close pcb (Some a)) ?Q ?s"
      using c(2) Nil by (intro wp_tcpecho_raw_close [where ?e0.0 = "es_heap s0" and a = a, OF c' a]) (simp add: finished_def)
    then show ?thesis using Nil c by (auto simp: tcpecho_raw_recv_def wp_simps)
  next
    case (Cons x xs)
    have "wp (tcpecho_raw_send lw pcb (Some a)) ?Q ?s"
      by (rule wp_send_active [OF c']) (use c(2) in auto)
    then show ?thesis using Cons c by (simp add: tcpecho_raw_recv_def wp_simps)
  qed
qed

text \<open>The packet becomes the pending chain, is put at its end, or is thrown away while closing.\<close>

lemma wp_data:
  fixes s :: "'z echo_scheme"
  assumes s: "active lw pcb a s0 st R s" and a: "es_heap s0 a = None" and st: "st \<noteq> ES_NONE" and ar: "arrives (Data ps) s"
  shows "wp (tcpecho_raw_recv lw (Some a) pcb (Some (fst (hd ps))) ERR_OK)
     (\<lambda>_. active lw pcb a s0 (if st = ES_CLOSING then ES_CLOSING else ES_RECEIVED) (if st = ES_CLOSING then R else R @ concat (map snd ps)))
     (s\<lparr>pbufs := packet ps (pbufs s)\<rparr>)"
proof -
  obtain out as e where c: "conn pcb a (pbufs s0) (es_heap s0) st (echoed pcb (tcp_log s0) @ out) as s" "out @ bytes (pbufs s) as = R"
    "st = ES_ACCEPTED \<longrightarrow> as = []" "roomy lw \<longrightarrow> as = []" "es_heap s = (es_heap s0)(a \<mapsto> e)" "es_state e = st"
    "chain (pbufs s) (es_p e) as" "es_p e = None \<longleftrightarrow> as = []" "registered a (pcbs s pcb)" by (rule activeE [OF s])
  note n = conn_arrive [OF c(1) ar]
  let ?n = "packet ps (pbufs s)" and ?qs = "map fst ps" and ?p = "Some (fst (hd ps))"
  let ?s = "s\<lparr>pbufs := ?n\<rparr>"
  let ?take = "?s\<lparr>es_heap := (es_heap s0)(a \<mapsto> e\<lparr>es_state := ES_RECEIVED, es_p := ?p\<rparr>)\<rparr>"
  let ?R = "R @ concat (map snd ps)"
  have taken: "conn pcb a (pbufs s0) (es_heap s0) ES_RECEIVED (echoed pcb (tcp_log s0) @ out) ?qs ?take" if "as = []"
    using c(1) n(5,7,8,11) that by (auto simp: conn_defs)
  have send: "wp (tcpecho_raw_send lw pcb (Some a)) (\<lambda>_. active lw pcb a s0 ES_RECEIVED ?R) ?take" if "as = []"
    by (rule wp_send_active [OF taken [OF that]]) (use c(2) that n(6) in auto)
  consider (acc) "st = ES_ACCEPTED" | (new) "st = ES_RECEIVED" "as = []" | (cat) "st = ES_RECEIVED" "as \<noteq> []" | (trash) "st = ES_CLOSING"
    using st by (cases st) auto
  then show ?thesis
  proof cases
    case acc
    then show ?thesis using c send by (simp add: tcpecho_raw_recv_def wp_simps)
  next
    case new
    have eq: "e\<lparr>es_state := ES_RECEIVED, es_p := ?p\<rparr> = e\<lparr>es_p := ?p\<rparr>" using new c(6) by simp
    from send [OF new(2), unfolded eq] new c show ?thesis by (simp add: tcpecho_raw_recv_def wp_simps)
  next
    case cat
    obtain x where x: "es_p e = Some x" using cat(2) c(8) by blast
    let ?m = "catted ?n as (fst (hd ps))"
    have qs: "fst (hd ps) \<in> set ?qs" using ar by (cases ps) auto
    have ch: "chain ?n (es_p e) as" using c(7) n(1) by simp
    note k = catted_parts [OF ch cat(2) n(5,9)]
    have m: "\<exists>b. ?n y = Some b \<and> payload (the (?m y)) = payload b \<and> p_len (the (?m y)) = p_len b \<and> p_ref (the (?m y)) = p_ref b"
      if "y \<in> set (as @ ?qs)" for y
    proof -
      from that obtain b where "?n y = Some b" using chain_in_heap [OF ch, of y] chain_in_heap [OF n(5), of y] by auto
      then show ?thesis by (simp add: catted_def)
    qed
    have "sized ?m (as @ ?qs)" "\<forall>y \<in> set (as @ ?qs). p_ref (the (?m y)) = 1 \<and> pbufs s0 y = None"
      using n(3,4,7,8) m unfolding sized_def by (metis Un_iff option.sel set_append)+
    then have "conn pcb a (pbufs s0) (es_heap s0) ES_RECEIVED (echoed pcb (tcp_log s0) @ out) (as @ ?qs) (?s\<lparr>pbufs := ?m\<rparr>)"
      using c(1,5,6,9) k(1,3) n(11) cat(1) by (auto simp: conn_defs)
    moreover have "\<not> roomy lw" using c(4) cat(2) by blast
    ultimately have "active lw pcb a s0 ES_RECEIVED ?R (?s\<lparr>pbufs := ?m\<rparr>)"
      unfolding active_def using k(2) c(2) n(2,6) by (intro exI [of _ out] exI [of _ "as @ ?qs"]) simp
    then have "wp (pbuf_cat (Some x) ?p) (\<lambda>_. active lw pcb a s0 ES_RECEIVED ?R) ?s"
      using ch n(9) qs x chain_in_heap [OF n(5) qs] by (intro wp_pbuf_cat [of _ _ as]) auto
    then show ?thesis using cat c x by (simp add: tcpecho_raw_recv_def wp_simps)
  next
    case trash
    let ?t = "?s\<lparr>tcp_log := Tcp_Recved pcb (tot_len (the (?n (fst (hd ps))))) # tcp_log s\<rparr>"
    have "active lw pcb a s0 ES_CLOSING R (?t\<lparr>pbufs := pbufs s\<rparr>)"
      unfolding active_def
      by (rule exI [of _ out], rule exI [of _ as]) (use c(1-4) trash in \<open>simp add: conn_defs\<close>)
    then have "wp (pbuf_free ?p) (\<lambda>_. active lw pcb a s0 ES_CLOSING R) ?t"
      by (intro wp_pbuf_free_all [of _ _ ?qs]) (use n(5,8,10) in auto)
    moreover obtain b where "?n (fst (hd ps)) = Some b" using n(5) ar by (cases ps) (auto split: option.splits)
    ultimately show ?thesis using trash c by (simp add: tcpecho_raw_recv_def wp_simps)
  qed
qed

section \<open>Every event keeps the invariant\<close>

definition echo_inv :: "lwip \<Rightarrow> nat \<Rightarrow> nat \<Rightarrow> 'z echo_scheme \<Rightarrow> event list \<Rightarrow> 'z echo_scheme \<Rightarrow> bool" where
  "echo_inv lw pcb a s0 evs s \<longleftrightarrow>
     (\<exists>st. active lw pcb a s0 st (received_bytes evs) s \<and> st \<noteq> ES_NONE \<and> (st = ES_CLOSING) = (Fin \<in> set evs) \<and> (\<forall>e. Err e \<notin> set evs)) \<or>
     (\<exists>out rest. finished pcb s0 out s \<and> out @ rest = received_bytes evs \<and> (\<exists>ev \<in> set evs. ends ev) \<and>
        ((\<forall>e. Err e \<notin> set evs) \<or> roomy lw \<longrightarrow> rest = []))"

lemma received_snoc:
  "received_bytes (evs @ [ev]) = (if \<exists>e \<in> set evs. ends e then received_bytes evs
     else received_bytes evs @ (case ev of Data ps \<Rightarrow> concat (map snd ps) | _ \<Rightarrow> []))"
  by (induction evs rule: received_bytes.induct) (auto split: event.split)

lemma ends_iff: "(\<exists>e \<in> set evs. ends e) \<longleftrightarrow> Fin \<in> set evs \<or> (\<exists>e. Err e \<in> set evs)"
  by (auto elim!: ends.elims(2)) (metis ends.simps)+

lemma echo_inv_active:
  "active lw pcb a s0 st R s \<Longrightarrow> received_bytes evs = R \<Longrightarrow> st \<noteq> ES_NONE \<Longrightarrow> (st = ES_CLOSING) = (Fin \<in> set evs) \<Longrightarrow> (\<And>e. Err e \<notin> set evs) \<Longrightarrow>
     echo_inv lw pcb a s0 evs s"
  unfolding echo_inv_def by blast

lemma echo_inv_finished:
  "finished pcb s0 R s \<Longrightarrow> received_bytes evs = R \<Longrightarrow> (\<exists>ev \<in> set evs. ends ev) \<Longrightarrow> echo_inv lw pcb a s0 evs s"
  unfolding echo_inv_def by (metis append_Nil2)

text \<open>After an event that brings no data: still active, or closed while closing.\<close>

lemma echo_inv_quiet:
  assumes "active lw pcb a s0 st (received_bytes evs) t \<or> st = ES_CLOSING \<and> finished pcb s0 (received_bytes evs) t"
    and "st \<noteq> ES_NONE" "(st = ES_CLOSING) = (Fin \<in> set evs)" "\<And>e. Err e \<notin> set evs" "ev = Poll \<or> ev = Sent n"
  shows "echo_inv lw pcb a s0 (evs @ [ev]) t"
proof -
  have r: "received_bytes (evs @ [ev]) = received_bytes evs" using assms(5) by (auto simp: received_snoc)
  show ?thesis
    using assms(1)
  proof (elim disjE conjE)
    assume "active lw pcb a s0 st (received_bytes evs) t"
    then show ?thesis by (rule echo_inv_active) (use assms r in auto)
  next
    assume "st = ES_CLOSING" "finished pcb s0 (received_bytes evs) t"
    then show ?thesis using assms(3) by (intro echo_inv_finished [OF _ r]) (auto intro: bexI [of _ Fin])
  qed
qed

lemma wp_deliver_active:
  fixes s :: "'z echo_scheme"
  assumes s: "active lw pcb a s0 st (received_bytes evs) s" and st: "st \<noteq> ES_NONE" "(st = ES_CLOSING) = (Fin \<in> set evs)" "\<And>e. Err e \<notin> set evs"
    and a: "es_heap s0 a = None" and ar: "arrives ev s"
  shows "wp (deliver lw pcb ev) (\<lambda>_. echo_inv lw pcb a s0 (evs @ [ev])) s"
proof -
  obtain out as e where c: "conn pcb a (pbufs s0) (es_heap s0) st (echoed pcb (tcp_log s0) @ out) as s" "out @ bytes (pbufs s) as = received_bytes evs"
    "st = ES_ACCEPTED \<longrightarrow> as = []" "roomy lw \<longrightarrow> as = []" "es_heap s = (es_heap s0)(a \<mapsto> e)" "es_state e = st"
    "chain (pbufs s) (es_p e) as" "es_p e = None \<longleftrightarrow> as = []" "registered a (pcbs s pcb)" by (rule activeE [OF s])
  have cb: "callback_arg (pcbs s pcb) = Some a" "cb_recv (pcbs s pcb)" "cb_sent (pcbs s pcb)" "cb_errf (pcbs s pcb)" "cb_poll (pcbs s pcb)"
    using c(9) by (simp_all add: registered_def)
  have ends: "(\<exists>e \<in> set evs. ends e) \<longleftrightarrow> st = ES_CLOSING" using st(2,3) by (simp add: ends_iff)
  show ?thesis
  proof (cases ev)
    case (Data ps)
    have "wp (tcpecho_raw_recv lw (Some a) pcb (Some (fst (hd ps))) ERR_OK) (\<lambda>_. echo_inv lw pcb a s0 (evs @ [ev])) (s\<lparr>pbufs := packet ps (pbufs s)\<rparr>)"
      by (rule wp_mono [OF wp_data [OF s a st(1)]])
        (use ar Data st ends in \<open>auto simp: received_snoc intro!: echo_inv_active split: if_splits\<close>)
    then show ?thesis using cb ar Data by (simp add: deliver_def wp_simps)
  next
    case Fin
    have "wp (tcpecho_raw_recv lw (Some a) pcb None ERR_OK) (\<lambda>_. echo_inv lw pcb a s0 (evs @ [ev])) s"
      by (rule wp_mono [OF wp_fin [OF s a]])
        (use Fin st ends in \<open>auto simp: received_snoc intro: echo_inv_finished echo_inv_active [where st = ES_CLOSING]\<close>)
    then show ?thesis using cb Fin by (simp add: deliver_def wp_simps)
  next
    case (Sent n)
    have "wp (tcpecho_raw_sent lw (Some a) pcb n) (\<lambda>_. echo_inv lw pcb a s0 (evs @ [ev])) s"
      by (rule wp_mono [OF wp_sent [OF s a]])
        (rule echo_inv_quiet, use Sent st in auto)
    then show ?thesis using cb Sent by (simp add: deliver_def wp_simps)
  next
    case Poll
    have "wp (tcpecho_raw_poll lw (Some a) pcb) (\<lambda>_. echo_inv lw pcb a s0 (evs @ [ev])) s"
      by (rule wp_mono [OF wp_poll [OF s a]])
        (rule echo_inv_quiet, use Poll st in auto)
    then show ?thesis using cb Poll by (simp add: deliver_def wp_simps)
  next
    case (Err er)
    let ?t = "s\<lparr>pcbs := (pcbs s)(pcb := no_callbacks (pcbs s pcb))\<rparr>"
    have "owns a (pbufs s0) (es_heap s0) st as ?t" using c(1) by (simp add: conn_def)
    moreover have "echo_inv lw pcb a s0 (evs @ [ev]) (?t\<lparr>pbufs := pbufs s0, es_heap := es_heap s0\<rparr>)"
    proof -
      have "finished pcb s0 out (?t\<lparr>pbufs := pbufs s0, es_heap := es_heap s0\<rparr>)"
        using c(1) by (simp add: finished_def closed_def no_callbacks_def conn_def)
      moreover have "out @ bytes (pbufs s) as = received_bytes (evs @ [ev])" using c(2) Err by (simp add: received_snoc)
      moreover have "roomy lw \<longrightarrow> bytes (pbufs s) as = []" using c(4) by auto
      ultimately show ?thesis using Err unfolding echo_inv_def by fastforce
    qed
    ultimately have "wp (tcpecho_raw_free (Some a)) (\<lambda>_. echo_inv lw pcb a s0 (evs @ [ev])) ?t"
      using a by (intro wp_tcpecho_raw_free)
    then show ?thesis using cb Err by (simp add: deliver_def wp_simps tcpecho_raw_error_def)
  qed
qed

lemma wp_deliver_finished:
  fixes s :: "'z echo_scheme"
  assumes "finished pcb s0 out s"
  shows "wp (deliver lw pcb ev) (\<lambda>_. finished pcb s0 out) s"
proof -
  have nc: "no_callbacks (pcbs s pcb) = pcbs s pcb" using assms by (simp add: finished_def closed_def)
  have "callback_arg (pcbs s pcb) = None" "\<not> cb_recv (pcbs s pcb)" "\<not> cb_sent (pcbs s pcb)" "\<not> cb_errf (pcbs s pcb)" "\<not> cb_poll (pcbs s pcb)"
    using arg_cong [OF nc, of callback_arg] arg_cong [OF nc, of cb_recv] arg_cong [OF nc, of cb_sent] arg_cong [OF nc, of cb_errf]
      arg_cong [OF nc, of cb_poll] by (simp_all add: no_callbacks_def)
  then show ?thesis using assms nc by (cases ev) (simp_all add: deliver_def wp_simps finished_def closed_def)
qed

lemma wp_deliver:
  fixes s :: "'z echo_scheme"
  assumes inv: "echo_inv lw pcb a s0 evs s" and a: "es_heap s0 a = None" and ar: "arrives ev s"
  shows "wp (deliver lw pcb ev) (\<lambda>_. echo_inv lw pcb a s0 (evs @ [ev])) s"
  using inv unfolding echo_inv_def [of lw pcb a s0 evs]
proof (elim disjE exE conjE)
  fix st assume "active lw pcb a s0 st (received_bytes evs) s" "st \<noteq> ES_NONE" "(st = ES_CLOSING) = (Fin \<in> set evs)" "\<forall>e. Err e \<notin> set evs"
  then show ?thesis using a ar by (intro wp_deliver_active) auto
next
  fix out rest
  assume f: "finished pcb s0 out s" and r: "out @ rest = received_bytes evs" and e: "\<exists>ev \<in> set evs. ends ev"
    and d: "(\<forall>e. Err e \<notin> set evs) \<or> roomy lw \<longrightarrow> rest = []"
  have "received_bytes (evs @ [ev]) = received_bytes evs" using e by (simp add: received_snoc)
  then show ?thesis
    by (intro wp_mono [OF wp_deliver_finished [OF f]]) (use r e d in \<open>auto simp: echo_inv_def\<close>)
qed

lemma wp_accept:
  fixes s0 :: "'z echo_scheme"
  assumes "malloc lw (tcp_log s0) = Some a" "es_heap s0 a = None"
  shows "wp (tcpecho_raw_accept lw (Some pcb) ERR_OK) (\<lambda>r s. r = ERR_OK \<and> echo_inv lw pcb a s0 [] s) s0"
proof -
  have "active lw pcb a s0 ES_ACCEPTED [] s \<Longrightarrow> echo_inv lw pcb a s0 [] s" for s :: "'z echo_scheme"
    by (rule echo_inv_active [where st = ES_ACCEPTED]) simp_all
  moreover have "active lw pcb a s0 ES_ACCEPTED [] s"
    if "pbufs s = pbufs s0" "es_heap s = (es_heap s0)(a \<mapsto> \<lparr>es_state = ES_ACCEPTED, es_retries = 0, es_pcb = pcb, es_p = None\<rparr>)"
      "echoed pcb (tcp_log s) = echoed pcb (tcp_log s0)" "registered a (pcbs s pcb)" for s :: "'z echo_scheme"
    using that by (auto simp: active_def conn_defs intro!: exI [of _ "[]"])
  ultimately show ?thesis
    using assms by (simp add: tcpecho_raw_accept_def mem_malloc_def wp_simps pcb_setters registered_def)
qed

lemma session_inv:
  assumes "session lw pcb s0 evs s"
  shows "\<exists>a. es_heap s0 a = None \<and> echo_inv lw pcb a s0 evs s"
  using assms
proof induction
  case (accepted s)
  then obtain a where a: "malloc lw (tcp_log s0) = Some a"
    by (cases "malloc lw (tcp_log s0)") (auto simp: tcpecho_raw_accept_def mem_malloc_def run_simps pcb_setters upd_pcb_def call_def)
  with accepted show ?case using wp_accept [OF a, of pcb] by (auto simp: wp_def)
next
  case (event evs s ev t)
  then obtain a where "es_heap s0 a = None" "echo_inv lw pcb a s0 evs s" by blast
  with event wp_deliver [of lw pcb a s0 evs s ev] show ?case by (auto simp: wp_def)
qed

section \<open>Properties\<close>

text \<open>A connection on which lwIP has room, accepted on an idle system.\<close>

definition demo_lwip :: lwip where
  "demo_lwip = \<lparr>snd_buf = \<lambda>l pcb. 0xFFFF, write_err = \<lambda>l pcb bs. ERR_OK, malloc = \<lambda>l. Some 100\<rparr>"

definition demo_idle :: echo where
  "demo_idle = \<lparr>pbufs = Map.empty, es_heap = Map.empty, pcbs = (\<lambda>_. \<lparr>callback_arg = None, cb_recv = False, cb_sent = False,
     cb_errf = False, cb_poll = False, pollinterval = 0, prio = 64\<rparr>), tcp_log = []\<rparr>"

definition demo_open :: echo where
  "demo_open = snd (projr (the (tcpecho_raw_accept demo_lwip (Some 1) ERR_OK demo_idle)))"

lemma demo_session: "session demo_lwip 1 demo_idle [] demo_open"
  by (rule session.accepted)
    (simp_all add: demo_open_def demo_lwip_def demo_idle_def tcpecho_raw_accept_def mem_malloc_def run_simps pcb_setters upd_pcb_def call_def)

lemma demo_arrives: "arrives (Data [(7, [1, 2])]) demo_open"
  by (simp add: demo_open_def demo_lwip_def demo_idle_def tcpecho_raw_accept_def mem_malloc_def run_simps pcb_setters upd_pcb_def call_def)

lemma session_step:
  assumes "session lw pcb s0 evs s" "arrives ev s"
  shows "wp (deliver lw pcb ev) (\<lambda>_. session lw pcb s0 (evs @ [ev])) s"
proof -
  obtain a where "es_heap s0 a = None" "echo_inv lw pcb a s0 evs s" using session_inv [OF assms(1)] by blast
  from wp_deliver [OF this(2,1) assms(2)] show ?thesis
    using session.event [OF assms] by (auto simp: wp_def)
qed

lemma demo_session_data: "\<exists>s. session demo_lwip 1 demo_idle [Data [(7, [1, 2])]] s"
  using session_step [OF demo_session demo_arrives] by (auto simp: wp_def)

text \<open>
  C2: whatever events lwIP delivers and whatever it answers, the server never touches a buffer or a state
  block that was given back, never follows a null pointer, and every callback returns.
\<close>

theorem echo_never_faults:
  assumes "session lw pcb s0 evs s" "arrives ev s"
  shows "wp (deliver lw pcb ev) (\<lambda>_ _. True) s"
  using session_step [OF assms] by (rule wp_mono) simp

theorem echo_never_faults_witness: "wp (deliver demo_lwip 1 (Data [(7, [1, 2])])) (\<lambda>_ _. True) demo_open"
  by (rule echo_never_faults [OF demo_session demo_arrives])

text \<open>
  C1: what is echoed on a connection is always a prefix of what arrived on it, in order, nothing twice and
  nothing made up. Once the connection is closed (its argument is cleared), every buffer and the state
  block have been given back and nothing else in the heaps has changed, and if the connection did not
  break everything that arrived has been echoed.
\<close>

theorem echo_in_order_without_leak:
  assumes "session lw pcb s0 evs s"
  shows "\<exists>out rest. echoed pcb (tcp_log s) = echoed pcb (tcp_log s0) @ out \<and> out @ rest = received_bytes evs \<and>
    (callback_arg (pcbs s pcb) = None \<longrightarrow> pbufs s = pbufs s0 \<and> es_heap s = es_heap s0 \<and> ((\<forall>e. Err e \<notin> set evs) \<longrightarrow> rest = []))"
proof -
  obtain a where "echo_inv lw pcb a s0 evs s" using session_inv [OF assms] by blast
  then show ?thesis
    unfolding echo_inv_def
  proof (elim disjE exE conjE)
    fix st assume "active lw pcb a s0 st (received_bytes evs) s"
    then show ?thesis by (rule activeE) (fastforce simp: conn_def registered_def)
  next
    fix out rest
    assume "finished pcb s0 out s" "out @ rest = received_bytes evs" "(\<forall>e. Err e \<notin> set evs) \<or> roomy lw \<longrightarrow> rest = []"
    then show ?thesis by (auto simp: finished_def closed_def)
  qed
qed

theorem echo_in_order_without_leak_witness:
  "\<exists>s out rest. session demo_lwip 1 demo_idle [Data [(7, [1, 2])]] s \<and> echoed 1 (tcp_log s) = out \<and> out @ rest = [1, 2]"
proof -
  obtain s where s: "session demo_lwip 1 demo_idle [Data [(7, [1, 2])]] s" using demo_session_data by blast
  from echo_in_order_without_leak [OF s] obtain out rest where "echoed 1 (tcp_log s) = out" "out @ rest = [1, 2]"
    by (auto simp: demo_idle_def)
  with s show ?thesis by blast
qed

text \<open>
  C15: if lwIP always has room, nothing is held back: after every event all that arrived has been echoed.
\<close>

theorem echo_complete_with_room:
  assumes "session lw pcb s0 evs s" "roomy lw"
  shows "echoed pcb (tcp_log s) = echoed pcb (tcp_log s0) @ received_bytes evs"
proof -
  obtain a where "echo_inv lw pcb a s0 evs s" using session_inv [OF assms(1)] by blast
  then show ?thesis
    unfolding echo_inv_def
  proof (elim disjE exE conjE)
    fix st assume "active lw pcb a s0 st (received_bytes evs) s"
    then show ?thesis by (rule activeE) (use assms(2) in \<open>auto simp: conn_def\<close>)
  next
    fix out rest
    assume "finished pcb s0 out s" "out @ rest = received_bytes evs" "(\<forall>e. Err e \<notin> set evs) \<or> roomy lw \<longrightarrow> rest = []"
    then show ?thesis using assms(2) by (auto simp: finished_def closed_def)
  qed
qed

theorem echo_complete_with_room_witness:
  "\<exists>s. session demo_lwip 1 demo_idle [Data [(7, [1, 2])]] s \<and> echoed 1 (tcp_log s) = [1, 2]"
proof -
  obtain s where s: "session demo_lwip 1 demo_idle [Data [(7, [1, 2])]] s" using demo_session_data by blast
  have "roomy demo_lwip" by (simp add: roomy_def demo_lwip_def)
  from echo_complete_with_room [OF s this] s show ?thesis by (auto simp: demo_idle_def)
qed

end
