(* ===== verification/Lwip_Chksum.thy ===== *)
theory Lwip_Chksum
  imports Lwip_Pbuf
begin

text \<open>
  Checksums: \<open>core/inet_chksum.c\<close> of lwIP for IPv4, with the second of its algorithms, the one this build
  selects. The sums are built in the byte order of the machine, from any address; payloads are lists of bytes, and the
  argument \<open>at\<close> says at which address the payload of a buffer lies. They are compared with the Internet checksum of
  RFC 1071, computed word by word in network order.
\<close>

section \<open>Words and bytes\<close>

definition SWAP_BYTES_IN_WORD :: "u32 \<Rightarrow> u32" where
  "SWAP_BYTES_IN_WORD w = push_bit 8 (w AND 0xff) OR drop_bit 8 (w AND 0xff00)"

definition FOLD_U32T :: "u32 \<Rightarrow> u32" where
  "FOLD_U32T u = drop_bit 16 u + (u AND 0xffff)"

definition lwip_htons :: "u16 \<Rightarrow> u16" where
  "lwip_htons x = push_bit 8 (x AND 0xff) OR drop_bit 8 (x AND 0xff00)"

text \<open>\<open>((u8_t *)&t)[0] = b\<close>, \<open>((u8_t *)&t)[1] = b\<close>, and \<open>*ps\<close> at an index of an array of bytes.\<close>

definition set_low :: "u16 \<Rightarrow> u8 \<Rightarrow> u16" where
  "set_low t b = (t AND 0xff00) OR ucast b"

definition set_high :: "u16 \<Rightarrow> u8 \<Rightarrow> u16" where
  "set_high t b = (t AND 0xff) OR push_bit 8 (ucast b)"

definition load_u16 :: "u8 list \<Rightarrow> nat \<Rightarrow> ('s, u16) cm" where
  "load_u16 xs i = bindM (load_elem xs i) (\<lambda>b. bindM (load_elem xs (i + 1)) (\<lambda>c. ret (ucast b OR push_bit 8 (ucast c))))"

section \<open>The sum of an array\<close>

text \<open>The array \<open>xs\<close> lies at the address \<open>dataptr\<close>.\<close>

definition lwip_standard_chksum :: "u32 \<Rightarrow> u8 list \<Rightarrow> int \<Rightarrow> ('s, u16) cm" where
  "lwip_standard_chksum dataptr xs len =
     (let is_odd = (dataptr AND 1 \<noteq> 0) in
      bindM (if is_odd \<and> len > 0 then bindM (load_elem xs 0) (\<lambda>b. ret (set_high 0 b, 1, len - 1)) else ret (0, 0, len))
        (\<lambda>(t, pb, len).
      bindM (whileM (\<lambda>(sum, ps, len). ret (len > 1))
          (\<lambda>(sum, ps, len). bindM (load_u16 xs ps) (\<lambda>w. ret (sum + ucast w, ps + 2, len - 2)))
          (0 :: u32, pb, len)) (\<lambda>(sum, ps, len).
      bindM (if len > 0 then bindM (load_elem xs ps) (\<lambda>b. ret (set_low t b)) else ret t) (\<lambda>t.
      let sum = FOLD_U32T (FOLD_U32T (sum + ucast t)); sum = (if is_odd then SWAP_BYTES_IN_WORD sum else sum)
      in ret (ucast sum)))))"

definition inet_chksum :: "u32 \<Rightarrow> u8 list \<Rightarrow> u16 \<Rightarrow> ('s, u16) cm" where
  "inet_chksum dataptr xs len = bindM (lwip_standard_chksum dataptr xs (uint len)) (\<lambda>c. ret (NOT c))"

section \<open>Sums of chains\<close>

text \<open>The addition of one buffer, with \<open>len\<close> of its bytes.\<close>

definition add_pbuf :: "(nat \<Rightarrow> u32) \<Rightarrow> nat option \<Rightarrow> u16 \<Rightarrow> u32 \<times> bool \<Rightarrow> ('z netmem_scheme, u32 \<times> bool) cm" where
  "add_pbuf at q len = (\<lambda>(acc, swapped).
     bindM (read_pbuf q) (\<lambda>b.
     bindM (lwip_standard_chksum (at (the q)) (payload b) (uint len)) (\<lambda>c.
     let acc = FOLD_U32T (acc + ucast c) in
     ret (if p_len b mod 2 \<noteq> 0 then (SWAP_BYTES_IN_WORD acc, \<not> swapped) else (acc, swapped)))))"

text \<open>The loop over a chain, the same in \<open>inet_chksum_pbuf\<close> and \<open>inet_cksum_pseudo_base\<close>.\<close>

definition chksum_chain :: "(nat \<Rightarrow> u32) \<Rightarrow> nat option \<Rightarrow> u32 \<Rightarrow> ('z netmem_scheme, u32) cm" where
  "chksum_chain at p acc =
     bindM (whileM (\<lambda>(q, v). ret (q \<noteq> None))
       (\<lambda>(q, v). bindM (read_pbuf q) (\<lambda>b. bindM (add_pbuf at q (p_len b) v) (\<lambda>v. ret (p_next b, v))))
       (p, acc, False)) (\<lambda>(q, acc, swapped). ret (if swapped then SWAP_BYTES_IN_WORD acc else acc))"

definition inet_chksum_pbuf :: "(nat \<Rightarrow> u32) \<Rightarrow> nat option \<Rightarrow> ('z netmem_scheme, u16) cm" where
  "inet_chksum_pbuf at p = bindM (chksum_chain at p 0) (\<lambda>acc. ret (ucast (NOT (acc AND 0xffff))))"

definition pseudo_end :: "u8 \<Rightarrow> u16 \<Rightarrow> u32 \<Rightarrow> u16" where
  "pseudo_end proto proto_len acc =
     ucast (NOT (FOLD_U32T (FOLD_U32T (acc + ucast (lwip_htons (ucast proto)) + ucast (lwip_htons proto_len))) AND 0xffff))"

definition inet_cksum_pseudo_base :: "(nat \<Rightarrow> u32) \<Rightarrow> nat option \<Rightarrow> u8 \<Rightarrow> u16 \<Rightarrow> u32 \<Rightarrow> ('z netmem_scheme, u16) cm" where
  "inet_cksum_pseudo_base at p proto proto_len acc =
     bindM (chksum_chain at p acc) (\<lambda>acc. ret (pseudo_end proto proto_len acc))"

text \<open>The sum of two addresses.\<close>

definition addr_sum :: "u32 \<Rightarrow> u32 \<Rightarrow> u32" where
  "addr_sum src dest =
     FOLD_U32T (FOLD_U32T ((src AND 0xffff) + (drop_bit 16 src AND 0xffff) + (dest AND 0xffff) + (drop_bit 16 dest AND 0xffff)))"

definition inet_chksum_pseudo :: "(nat \<Rightarrow> u32) \<Rightarrow> nat option \<Rightarrow> u8 \<Rightarrow> u16 \<Rightarrow> u32 \<Rightarrow> u32 \<Rightarrow> ('z netmem_scheme, u16) cm" where
  "inet_chksum_pseudo at p proto proto_len src dest =
     inet_cksum_pseudo_base at p proto proto_len (addr_sum src dest)"

definition ip_chksum_pseudo :: "(nat \<Rightarrow> u32) \<Rightarrow> nat option \<Rightarrow> u8 \<Rightarrow> u16 \<Rightarrow> u32 \<Rightarrow> u32 \<Rightarrow> ('z netmem_scheme, u16) cm" where
  "ip_chksum_pseudo at p proto proto_len src dest = inet_chksum_pseudo at p proto proto_len src dest"

definition inet_cksum_pseudo_partial_base ::
  "(nat \<Rightarrow> u32) \<Rightarrow> nat option \<Rightarrow> u8 \<Rightarrow> u16 \<Rightarrow> u16 \<Rightarrow> u32 \<Rightarrow> ('z netmem_scheme, u16) cm" where
  "inet_cksum_pseudo_partial_base at p proto proto_len chksum_len acc =
     bindM (whileM (\<lambda>(q, chksum_len, v). ret (q \<noteq> None \<and> chksum_len > 0))
       (\<lambda>(q, chksum_len, v). bindM (read_pbuf q) (\<lambda>b.
          let chklen = (if p_len b > chksum_len then chksum_len else p_len b) in
          bindM (add_pbuf at q chklen v) (\<lambda>v. ret (p_next b, chksum_len - chklen, v))))
       (p, chksum_len, acc, False)) (\<lambda>(q, chksum_len, acc, swapped).
     ret (pseudo_end proto proto_len (if swapped then SWAP_BYTES_IN_WORD acc else acc)))"

definition inet_chksum_pseudo_partial ::
  "(nat \<Rightarrow> u32) \<Rightarrow> nat option \<Rightarrow> u8 \<Rightarrow> u16 \<Rightarrow> u16 \<Rightarrow> u32 \<Rightarrow> u32 \<Rightarrow> ('z netmem_scheme, u16) cm" where
  "inet_chksum_pseudo_partial at p proto proto_len chksum_len src dest =
     inet_cksum_pseudo_partial_base at p proto proto_len chksum_len (addr_sum src dest)"

definition ip_chksum_pseudo_partial ::
  "(nat \<Rightarrow> u32) \<Rightarrow> nat option \<Rightarrow> u8 \<Rightarrow> u16 \<Rightarrow> u16 \<Rightarrow> u32 \<Rightarrow> u32 \<Rightarrow> ('z netmem_scheme, u16) cm" where
  "ip_chksum_pseudo_partial at p proto proto_len chksum_len src dest =
     inet_chksum_pseudo_partial at p proto proto_len chksum_len src dest"

section \<open>The Internet checksum\<close>

text \<open>The sum of RFC 1071: 16-bit words in network order, added with the carry brought around.\<close>

definition add_ones :: "nat \<Rightarrow> nat \<Rightarrow> nat" where
  "add_ones x y = (if x + y < 65536 then x + y else x + y - 65535)"

fun rfc_sum :: "u8 list \<Rightarrow> nat" where
  "rfc_sum [] = 0"
| "rfc_sum [b] = 256 * unat b"
| "rfc_sum (b # c # bs) = add_ones (256 * unat b + unat c) (rfc_sum bs)"

definition rfc_checksum :: "u8 list \<Rightarrow> u16" where
  "rfc_checksum bs = NOT (of_nat (rfc_sum bs))"

text \<open>The bytes of an address in network order, as they lie in memory, and the pseudo header.\<close>

definition addr_bytes :: "u32 \<Rightarrow> u8 list" where
  "addr_bytes a = [ucast a, ucast (drop_bit 8 a), ucast (drop_bit 16 a), ucast (drop_bit 24 a)]"

definition pseudo_header :: "u32 \<Rightarrow> u32 \<Rightarrow> u8 \<Rightarrow> u16 \<Rightarrow> u8 list" where
  "pseudo_header src dest proto proto_len =
     addr_bytes src @ addr_bytes dest @ [0, proto, ucast (drop_bit 8 proto_len), ucast proto_len]"

section \<open>Arithmetic\<close>

text \<open>The sums modulo 65535, with 65535 for the multiples other than 0.\<close>

definition ones :: "nat \<Rightarrow> nat" where
  "ones n = (if n = 0 then 0 else (n - 1) mod 65535 + 1)"

fun le_sum :: "u8 list \<Rightarrow> nat" where
  "le_sum [] = 0"
| "le_sum [b] = unat b"
| "le_sum (b # c # bs) = unat b + 256 * unat c + le_sum bs"

lemma ones_small: "n < 65536 \<Longrightarrow> ones n = n"
  by (simp add: ones_def)

lemma ones_less: "ones n < 65536"
  using mod_less_divisor [of 65535 "n - 1"] by (simp add: ones_def)

lemma ones_mod: "ones n mod 65535 = n mod 65535"
  by (cases n) (simp_all add: ones_def mod_Suc_eq)

lemma ones_zero [simp]: "ones n = 0 \<longleftrightarrow> n = 0"
  by (simp add: ones_def)

lemma ones_eqI:
  assumes "m mod 65535 = n mod 65535" "m = 0 \<longleftrightarrow> n = 0"
  shows "ones m = ones n"
proof (cases m; cases n)
  fix m' n' assume "m = Suc m'" "n = Suc n'"
  then show ?thesis using assms(1) by (auto simp: ones_def mod_Suc split: if_splits)
qed (use assms in auto)

lemma ones_ones [simp]: "ones (ones n) = ones n"
  by (simp add: ones_small ones_less)

lemma ones_add1: "ones (ones m + n) = ones (m + n)"
  by (rule ones_eqI) (simp_all add: mod_add_cong [OF ones_mod refl])

lemma ones_add2: "ones (m + ones n) = ones (m + n)"
  using ones_add1 [of n m] by (simp add: add.commute)

lemma ones_mult: "ones (k * ones n) = ones (k * n)"
  by (rule ones_eqI) (simp_all add: mod_mult_cong [OF refl ones_mod])

lemma ones_65536: "ones (n + 65535 * k) = ones n" if "n = 0 \<Longrightarrow> k = 0"
  by (rule ones_eqI) (use that in auto)

text \<open>The operations on words.\<close>

lemma and_masks:
  fixes w :: "'a :: len word"
  shows "w AND 0xff = take_bit 8 w" "w AND 0xffff = take_bit 16 w"
  by (simp_all add: take_bit_eq_mask mask_eq_exp_minus_1)

lemma unat_take_8: "unat (take_bit 8 w) = unat w mod 256" "unat (take_bit 16 w) = unat w mod 65536"
  by (simp_all only: unsigned_take_bit_eq) (simp_all add: take_bit_eq_mod)

lemma unat_drop_8: "unat (drop_bit 8 w) = unat w div 256" "unat (drop_bit 16 w) = unat w div 65536"
  for w :: "'a :: len word"
  by (simp_all only: unat_drop_bit_eq) (simp_all add: drop_bit_eq_div)

lemma unat_join:
  fixes x y :: "'a :: len word"
  assumes "unat x < 256" "unat y < 256" "16 \<le> LENGTH('a)"
  shows "unat (push_bit 8 x OR y) = 256 * unat x + unat y"
proof -
  have y: "y = take_bit 8 y" using assms(2) by (simp add: word_unat_eq_iff unat_take_8)
  have "push_bit 8 x OR y = push_bit 8 x + y"
    by (rule disjunctive_add [symmetric], subst y) (auto simp: bit_simps)
  moreover have "(65536 :: nat) \<le> 2 ^ LENGTH('a)" using power_increasing [OF assms(3), of "2 :: nat"] by simp
  moreover from this have "unat (push_bit 8 x) = 256 * unat x"
    using assms(1) by (simp only: unsigned_push_bit_eq) (simp add: push_bit_eq_mult take_bit_nat_eq_self)
  ultimately show ?thesis using assms(1,2) by (simp add: unat_word_ariths)
qed

lemma unat_fold: "unat (FOLD_U32T u) = unat u div 65536 + unat u mod 65536"
  using unsigned_less [of u, where ?'a = nat] unfolding FOLD_U32T_def and_masks
  by (subst unat_word_ariths) (simp add: unat_take_8 unat_drop_8)

lemma ones_fold: "ones (n div 65536 + n mod 65536) = ones n"
proof -
  have "n = (n div 65536 + n mod 65536) + 65535 * (n div 65536)" using mult_div_mod_eq [of 65536 n] by linarith
  then have "ones n = ones ((n div 65536 + n mod 65536) + 65535 * (n div 65536))" by (rule arg_cong)
  then show ?thesis by (subst (asm) ones_65536) auto
qed

lemma fold_once: "unat u < 131071 \<Longrightarrow> unat (FOLD_U32T u) = ones (unat u)"
  unfolding unat_fold ones_fold [symmetric, of "unat u"]
  by (rule ones_small [symmetric]) (auto simp: mod_if div_if)

lemma fold_twice: "unat (FOLD_U32T (FOLD_U32T u)) = ones (unat u)"
proof -
  have "unat (FOLD_U32T u) < 131071"
    using unsigned_less [of u, where ?'a = nat] mod_less_divisor [of 65536 "unat u"] by (simp add: unat_fold)
  then show ?thesis using ones_fold [of "unat u"] by (simp add: fold_once) (simp add: unat_fold)
qed

lemma ff00: "(0xff00 :: 'a :: len word) = push_bit 8 (mask 8)"
  by (simp add: push_bit_eq_mult mask_eq_exp_minus_1)

lemma drop_ff00: "drop_bit 8 (w AND 0xff00) = take_bit 8 (drop_bit 8 w)" for w :: "'a :: len word"
  unfolding ff00 by (auto intro!: bit_word_eqI simp: bit_simps dest: bit_imp_le_length)

lemma unat_swap: "unat (SWAP_BYTES_IN_WORD w) = 256 * (unat w mod 256) + unat w div 256 mod 256"
  unfolding SWAP_BYTES_IN_WORD_def drop_ff00 and_masks by (subst unat_join) (simp_all add: unat_take_8 unat_drop_8)

lemma unat_htons: "unat (lwip_htons w) = 256 * (unat w mod 256) + unat w div 256"
proof -
  have "unat w div 256 < 256" using unsigned_less [of w, where ?'a = nat] by simp
  then show ?thesis
    unfolding lwip_htons_def drop_ff00 and_masks by (subst unat_join) (simp_all add: unat_take_8 unat_drop_8)
qed

lemma ones_swap:
  assumes "n < 65536"
  shows "256 * (n mod 256) + n div 256 mod 256 = ones (256 * n)"
proof -
  let ?m = "256 * (n mod 256) + n div 256"
  have d: "n div 256 < 256" using assms by simp
  have "256 * n = ?m + 65535 * (n div 256)" using mult_div_mod_eq [of 256 n] by linarith
  then have "ones (256 * n) = ones (?m + 65535 * (n div 256))" by (rule arg_cong)
  also have "\<dots> = ones ?m" by (rule ones_65536) simp
  also have "\<dots> = ?m" using d mod_less_divisor [of 256 n] by (intro ones_small) linarith
  finally show ?thesis using d by simp
qed

section \<open>Sums of bytes\<close>

lemma ones_carry: "ones (a + 65536 * b) = ones (a + b)"
  using ones_65536 [of "a + b" b] by (simp add: algebra_simps)

lemma le_sum_Cons: "ones (le_sum (b # bs)) = ones (unat b + 256 * le_sum bs)"
proof (induction bs arbitrary: b)
  case (Cons c r)
  have "ones (unat b + 256 * le_sum (c # r)) = ones (unat b + ones (256 * ones (unat c + 256 * le_sum r)))"
    by (simp only: Cons.IH [symmetric] ones_mult ones_add2)
  also have "\<dots> = ones (unat b + 256 * unat c + 65536 * le_sum r)"
    by (simp only: ones_mult ones_add2) (simp add: algebra_simps)
  finally show ?case by (simp add: ones_carry)
qed simp

lemma le_sum_zero: "le_sum bs = 0 \<longleftrightarrow> (\<forall>b \<in> set bs. b = 0)"
  by (induction bs rule: le_sum.induct) (auto simp: unat_eq_0)

text \<open>Bytes behind an odd number of bytes have the other weight.\<close>

lemma le_sum_append:
  "ones (le_sum (xs @ ys)) = ones (le_sum xs + (if even (length xs) then 1 else 256) * le_sum ys)"
proof (induction xs rule: le_sum.induct)
  case (2 b)
  then show ?case by (simp add: le_sum_Cons)
next
  case (3 b c bs)
  let ?k = "if even (length bs) then 1 else 256 :: nat"
  have "ones (le_sum ((b # c # bs) @ ys)) = ones (unat b + 256 * unat c + ones (le_sum bs + ?k * le_sum ys))"
    by (simp add: ones_add2 flip: 3)
  then show ?case by (simp only: ones_add2) (simp add: add.assoc)
qed simp

lemma add_ones: "x < 65536 \<Longrightarrow> y < 65536 \<Longrightarrow> add_ones x y = ones (x + y)"
  using ones_65536 [of "x + y - 65535" 1] by (auto simp: add_ones_def ones_small)

lemma byte_sum_less: "256 * unat (b :: u8) + unat (c :: u8) < 65536"
  using unsigned_less [of b, where ?'a = nat] unsigned_less [of c, where ?'a = nat] by simp

lemma rfc_sum: "rfc_sum bs = ones (256 * le_sum bs)"
proof (induction bs rule: rfc_sum.induct)
  case (2 b)
  then show ?case using byte_sum_less [of b 0] by (simp add: ones_small)
next
  case (3 b c bs)
  have "rfc_sum (b # c # bs) = ones (256 * unat b + unat c + ones (256 * le_sum bs))"
    using byte_sum_less [of b c] by (simp add: 3 add_ones ones_less)
  also have "\<dots> = ones (256 * unat b + 256 * le_sum bs + 65536 * unat c)"
    by (simp only: ones_add2 ones_carry) (simp add: algebra_simps)
  finally show ?case by (simp add: algebra_simps)
qed simp

lemma htons_ones: "unat (lwip_htons w) = ones (256 * unat w)"
proof -
  have "unat w < 65536" using unsigned_less [of w, where ?'a = nat] by simp
  then show ?thesis using ones_swap [of "unat w"] by (simp add: unat_htons)
qed

text \<open>A sum in the order of the machine is the sum of the RFC, stored in network order.\<close>

lemma sum_in_network_order: "unat r = ones (le_sum bs) \<Longrightarrow> lwip_htons r = of_nat (rfc_sum bs)"
  using ones_less [of "256 * le_sum bs"] by (simp add: word_unat_eq_iff htons_ones ones_mult rfc_sum take_bit_nat_eq_self unsigned_of_nat)

section \<open>The sum of an array is the Internet checksum\<close>

lemma wp_load_u16:
  "wp (load_u16 xs i) Q = (\<lambda>s. i + 1 < length xs \<and> Q (ucast (xs ! i) OR push_bit 8 (ucast (xs ! (i + 1)))) s)"
  by (auto simp: load_u16_def wp_simps fun_eq_iff)

lemma unat_pair: "unat (ucast b OR push_bit 8 (ucast c) :: u16) = unat b + 256 * unat c" for b c :: u8
  using unat_join [of "ucast c :: u16" "ucast b"] unsigned_less [of b, where ?'a = nat] unsigned_less [of c, where ?'a = nat]
  by (simp add: or.commute unsigned_ucast_eq take_bit_nat_eq_self)

lemma take_two: "i + 1 < length xs \<Longrightarrow> take (n + 2) (drop i xs) = xs ! i # xs ! (i + 1) # take n (drop (i + 2) xs)"
  by (simp add: Cons_nth_drop_Suc [symmetric] numeral_2_eq_2)

definition sum_loop :: "u8 list \<Rightarrow> u32 \<times> nat \<times> int \<Rightarrow> ('s, u32 \<times> nat \<times> int) cm" where
  "sum_loop xs = whileM (\<lambda>(sum, ps, len). ret (len > 1))
     (\<lambda>(sum, ps, len). bindM (load_u16 xs ps) (\<lambda>w. ret (sum + ucast w, ps + 2, len - 2)))"

lemma wp_sum_loop:
  assumes "i + n \<le> length xs" "unat v + le_sum (take n (drop i xs)) < 2 ^ 32"
    and "\<And>v' i'. unat v' = unat v + le_sum (take (n - n mod 2) (drop i xs)) \<Longrightarrow> i' = i + (n - n mod 2) \<Longrightarrow>
      Q (v', i', int (n mod 2)) s"
  shows "wp (sum_loop xs (v, i, int n)) Q s"
  using assms
proof (induction n arbitrary: i v rule: nat_induct2)
  case (step n)
  let ?w = "ucast (xs ! i) OR push_bit 8 (ucast (xs ! (i + 1))) :: u16"
  have n: "n + 2 - n mod 2 = n - n mod 2 + 2" using mod_less_eq_dividend [of n 2] by linarith
  have two: "take (n + 2) (drop i xs) = xs ! i # xs ! (i + 1) # take n (drop (i + 2) xs)"
    "take (n + 2 - n mod 2) (drop i xs) = xs ! i # xs ! (i + 1) # take (n - n mod 2) (drop (i + 2) xs)"
    using step.prems(1) take_two [of i xs n] take_two [of i xs "n - n mod 2"] unfolding n by simp_all
  have v: "unat (v + ucast ?w) = unat v + (unat (xs ! i) + 256 * unat (xs ! (i + 1)))"
    using step.prems(2) unfolding two by (simp add: unat_word_ariths unsigned_ucast_eq take_bit_nat_eq_self unat_pair)
  have "wp (sum_loop xs (v + ucast ?w, i + 2, int n)) Q s"
  proof (rule step.IH)
    show "i + 2 + n \<le> length xs" using step.prems(1) by simp
    show "unat (v + ucast ?w) + le_sum (take n (drop (i + 2) xs)) < 2 ^ 32"
      using step.prems(2) unfolding two v by (simp add: add.assoc)
    show "Q (v', i', int (n mod 2)) s" if "unat v' = unat (v + ucast ?w) + le_sum (take (n - n mod 2) (drop (i + 2) xs))"
      "i' = i + 2 + (n - n mod 2)" for v' i'
    proof -
      have m: "(n + 2) mod 2 = n mod 2" by simp
      have "unat v' = unat v + le_sum (take (n + 2 - n mod 2) (drop i xs))"
        using that(1) unfolding v two(2) le_sum.simps by (simp only: add.assoc)
      moreover have "i' = i + (n + 2 - n mod 2)" unfolding n using that(2) by simp
      ultimately show ?thesis by (rule step.prems(3) [unfolded m])
    qed
  qed
  then show ?case
    using step.prems(1) by (subst sum_loop_def, subst wp_whileM_unfold) (simp add: wp_simps wp_load_u16 sum_loop_def algebra_simps)
qed (simp_all add: sum_loop_def wp_whileM_unfold wp_simps)

lemma le_sum_append_even: "even (length xs) \<Longrightarrow> le_sum (xs @ ys) = le_sum xs + le_sum ys"
  by (induction xs rule: le_sum.induct) simp_all

lemma le_sum_le: "le_sum bs \<le> 65535 * ((length bs + 1) div 2)"
proof (induction bs rule: le_sum.induct)
  case (2 b)
  then show ?case using byte_sum_less [of b 0] by simp
next
  case (3 b c bs)
  then show ?case using byte_sum_less [of c b] by simp
qed simp

lemma unat_set: "unat (set_high 0 b) = 256 * unat b" "t = set_high 0 b \<or> t = 0 \<Longrightarrow> unat (set_low t c) = unat t + unat c"
proof -
  have b: "unat (ucast b :: u16) = unat b" "unat (ucast c :: u16) = unat c" "unat b < 256" "unat c < 256"
    using unsigned_less [of b, where ?'a = nat] unsigned_less [of c, where ?'a = nat]
    by (simp_all add: unsigned_ucast_eq take_bit_nat_eq_self)
  have high: "set_high 0 b = push_bit 8 (ucast b)" by (simp add: set_high_def)
  then show "unat (set_high 0 b) = 256 * unat b" using unat_join [of "ucast b :: u16" 0] b by simp
  have "set_high 0 b AND 0xff00 = set_high 0 b"
    unfolding high ff00 by (rule bit_word_eqI) (auto simp: bit_simps dest: bit_imp_le_length)
  then show "unat (set_low t c) = unat t + unat c" if "t = set_high 0 b \<or> t = 0"
    using that unat_join [of "ucast b :: u16" "ucast c"] unat_join [of "ucast b :: u16" 0] b by (auto simp: set_low_def high)
qed

text \<open>The end of the sum: \<open>t\<close> holds the byte in front, the last byte joins it.\<close>

lemma wp_sum_tail:
  assumes "i + n \<le> length xs" "n < 131071" "t = set_high 0 b \<or> t = 0"
    and "\<And>v. unat v = unat t + le_sum (take n (drop i xs)) \<Longrightarrow> Q v s"
  shows "wp (sum_loop xs (0, i, int n)) (\<lambda>(v, ps, len).
      wp (if len > 0 then bindM (load_elem xs ps) (\<lambda>b. ret (set_low t b)) else ret t) (\<lambda>t. Q (v + ucast t))) s"
proof (rule wp_sum_loop [OF assms(1)])
  let ?ys = "take n (drop i xs)"
  have len: "length ?ys = n" using assms(1) by simp
  have t: "unat t \<le> 65280" using assms(3) unsigned_less [of b, where ?'a = nat] by (auto simp: unat_set)
  have le: "unat t + le_sum ?ys < 2 ^ 32"
    using le_sum_le [of ?ys] t assms(2) unfolding len by (simp add: div_le_mono less_eq_div_iff_mult_less_eq)
  then show "unat (0 :: u32) + le_sum ?ys < 2 ^ 32" by simp
  fix v :: u32 and i' assume v: "unat v = unat (0 :: u32) + le_sum (take (n - n mod 2) (drop i xs))" and i': "i' = i + (n - n mod 2)"
  show "(case (v, i', int (n mod 2)) of (v, ps, len) \<Rightarrow>
      wp (if len > 0 then bindM (load_elem xs ps) (\<lambda>b. ret (set_low t b)) else ret t) (\<lambda>t. Q (v + ucast t))) s"
  proof (cases "n mod 2 = 0")
    case True
    have "unat (v + ucast t) = unat t + le_sum ?ys"
      using v le True by (simp add: unat_word_ariths unsigned_ucast_eq take_bit_nat_eq_self)
    then show ?thesis using True assms(4) by (simp add: wp_simps)
  next
    case False
    then obtain k where k: "n = Suc (2 * k)" by (metis oddE Suc_eq_plus1 even_iff_mod_2_eq_zero)
    then have one: "n mod 2 = 1" "n - 1 = 2 * k" by simp_all
    let ?zs = "take (n - 1) (drop i xs)"
    have ys: "?ys = ?zs @ [xs ! i']" "even (length ?zs)" "i' < length xs"
      using one k i' assms(1) take_Suc_conv_app_nth [of "2 * k" "drop i xs"] by simp_all
    have "le_sum ?ys = unat v + unat (xs ! i')" unfolding ys(1) le_sum_append_even [OF ys(2)] using v one by simp
    then have "unat (v + ucast (set_low t (xs ! i'))) = unat t + le_sum ?ys"
      using le by (simp add: unat_word_ariths unsigned_ucast_eq take_bit_nat_eq_self unat_set(2) [OF assms(3)])
    then show ?thesis using one ys(3) assms(4) by (simp add: wp_simps)
  qed
qed

definition sum_end :: "bool \<Rightarrow> u32 \<Rightarrow> u16" where
  "sum_end is_odd v = (let v = FOLD_U32T (FOLD_U32T v) in ucast (if is_odd then SWAP_BYTES_IN_WORD v else v))"

lemma unat_sum_end: "unat (sum_end is_odd v) = ones ((if is_odd then 256 else 1) * unat v)"
  using ones_less [of "unat v"] ones_less [of "256 * unat v"] ones_swap [of "ones (unat v)"]
  by (simp add: sum_end_def unsigned_ucast_eq take_bit_nat_eq_self fold_twice unat_swap ones_mult)

definition sum_rest :: "bool \<Rightarrow> u8 list \<Rightarrow> u16 \<times> nat \<times> int \<Rightarrow> ('s, u16) cm" where
  "sum_rest is_odd xs = (\<lambda>(t, pb, len). bindM (sum_loop xs (0, pb, len)) (\<lambda>(v, ps, len).
     bindM (if len > 0 then bindM (load_elem xs ps) (\<lambda>b. ret (set_low t b)) else ret t) (\<lambda>t. ret (sum_end is_odd (v + ucast t)))))"

lemma standard_chksum_rest: "lwip_standard_chksum a xs len =
    bindM (if a AND 1 \<noteq> 0 \<and> len > 0 then bindM (load_elem xs 0) (\<lambda>b. ret (set_high 0 b, 1, len - 1)) else ret (0, 0, len))
      (sum_rest (a AND 1 \<noteq> 0) xs)"
  unfolding lwip_standard_chksum_def sum_rest_def sum_loop_def sum_end_def Let_def by (rule refl)

lemma wp_sum_rest:
  assumes "i + n \<le> length xs" "n < 131071" "t = set_high 0 b \<or> t = 0"
    and "\<And>r. unat r = ones ((if is_odd then 256 else 1) * (unat t + le_sum (take n (drop i xs)))) \<Longrightarrow> Q r s"
  shows "wp (sum_rest is_odd xs (t, i, int n)) Q s"
proof -
  have "wp (sum_loop xs (0, i, int n)) (\<lambda>(v, ps, len).
      wp (if len > 0 then bindM (load_elem xs ps) (\<lambda>b. ret (set_low t b)) else ret t) (\<lambda>t. (\<lambda>v. Q (sum_end is_odd v)) (v + ucast t))) s"
    by (rule wp_sum_tail [OF assms(1-3)]) (simp add: assms(4) unat_sum_end)
  then show ?thesis unfolding sum_rest_def split_conv wp_bindM by (rule wp_mono) (auto simp: wp_bindM wp_ret)
qed

lemma wp_standard_chksum:
  assumes "n \<le> length xs" "n < 131071" "\<And>r. unat r = ones (le_sum (take n xs)) \<Longrightarrow> Q r s"
  shows "wp (lwip_standard_chksum a xs (int n)) Q s"
proof (cases "a AND 1 \<noteq> 0 \<and> 0 < n")
  case False
  then have "(if a AND 1 \<noteq> 0 then 256 else 1) * (unat (0 :: u16) + le_sum (take n (drop 0 xs))) = le_sum (take n xs)" by auto
  then have "wp (sum_rest (a AND 1 \<noteq> 0) xs (0, 0, int n)) Q s"
    by (intro wp_sum_rest) (simp_all only: assms(2,3), use assms(1) in simp_all)
  then show ?thesis using False unfolding standard_chksum_rest by (auto simp: wp_bindM wp_ret)
next
  case True
  then obtain b ys where xs: "xs = b # ys" using assms(1) by (cases xs) auto
  then have "take n xs = b # take (n - 1) ys" using True by (simp add: take_Cons')
  then have "ones (256 * (256 * unat b + le_sum (take (n - 1) ys))) = ones (le_sum (take n xs))"
    using ones_carry [of "256 * le_sum (take (n - 1) ys)" "unat b"] by (simp add: le_sum_Cons algebra_simps)
  then show ?thesis
    unfolding standard_chksum_rest
    using True assms xs wp_sum_rest [of 1 "n - 1" xs "set_high 0 b" b "a AND 1 \<noteq> 0" Q s] by (simp add: wp_simps unat_set of_nat_diff)
qed

section \<open>The sum of a chain\<close>

text \<open>
  What the accumulator stands for: the initial sum \<open>n\<close> and the bytes so far, in the other byte order when the bytes were
  swapped.
\<close>

definition carries :: "nat \<Rightarrow> u8 list \<Rightarrow> u32 \<times> bool \<Rightarrow> bool" where
  "carries n bs = (\<lambda>(acc, swapped). unat acc = ones ((if swapped then 256 else 1) * (n + le_sum bs)))"

lemma carries_end: "carries n bs (acc, swapped) \<Longrightarrow> unat (if swapped then SWAP_BYTES_IN_WORD acc else acc) = ones (n + le_sum bs)"
  using ones_swap [OF ones_less, of "256 * (n + le_sum bs)"] ones_carry [of 0 "n + le_sum bs"]
  by (auto simp: carries_def unat_swap ones_mult)

lemma carries_add:
  assumes "carries n bs (acc, swapped)" "swapped \<longleftrightarrow> odd (length bs)" "unat c = ones (le_sum cs)"
  shows "carries n (bs @ cs) (let acc = FOLD_U32T (acc + ucast (c :: u16)) in if p then (SWAP_BYTES_IN_WORD acc, \<not> swapped) else (acc, swapped))"
proof -
  define k :: nat where "k = (if swapped then 256 else 1)"
  have acc: "unat acc = ones (k * (n + le_sum bs))" using assms(1) by (simp add: carries_def k_def)
  have sum: "unat (acc + ucast c) = unat acc + unat c" "unat acc + unat c < 131071"
    using ones_less [of "k * (n + le_sum bs)"] ones_less [of "le_sum cs"] unfolding acc [symmetric] assms(3) [symmetric]
    by (simp_all add: unat_word_ariths unsigned_ucast_eq take_bit_nat_eq_self)
  have "ones (k * (n + le_sum (bs @ cs))) = ones (k * ones (n + ones (le_sum (bs @ cs))))"
    by (simp only: ones_mult ones_add2)
  also have "\<dots> = ones (k * (n + (le_sum bs + k * le_sum cs)))"
    unfolding le_sum_append by (simp only: ones_mult ones_add2) (simp add: k_def assms(2))
  also have "\<dots> = ones (k * (n + le_sum bs) + le_sum cs)"
    using ones_carry [of "256 * (n + le_sum bs)" "le_sum cs"] by (auto simp: k_def algebra_simps)
  also have "\<dots> = ones (unat acc + unat c)" unfolding acc assms(3) by (simp only: ones_add1 ones_add2)
  finally have folded: "unat (FOLD_U32T (acc + ucast c)) = ones (k * (n + le_sum (bs @ cs)))"
    using sum by (simp add: fold_once)
  then have "unat (SWAP_BYTES_IN_WORD (FOLD_U32T (acc + ucast c))) = ones (256 * (k * (n + le_sum (bs @ cs))))"
    by (simp add: unat_swap ones_swap ones_less ones_mult)
  with folded show ?thesis
    using ones_carry [of 0 "n + le_sum (bs @ cs)"] by (auto simp: carries_def k_def Let_def)
qed

lemma wp_add_pbuf:
  assumes "pbufs s a = Some b" "unat len \<le> length (payload b)" "carries n bs (acc, swapped)" "swapped \<longleftrightarrow> odd (length bs)"
    and "\<And>v. carries n (bs @ take (unat len) (payload b)) v \<Longrightarrow> snd v \<longleftrightarrow> (swapped \<noteq> odd (unat (p_len b))) \<Longrightarrow> Q v s"
  shows "wp (add_pbuf at (Some a) len (acc, swapped)) Q s"
proof -
  have parity: "p_len b mod 2 \<noteq> 0 \<longleftrightarrow> odd (unat (p_len b))"
    by (simp add: word_unat_eq_iff unat_mod even_iff_mod_2_eq_zero)
  have "unat len < 131071" using unsigned_less [of len, where ?'a = nat] by simp
  moreover have "Q (let acc = FOLD_U32T (acc + ucast c) in if p_len b mod 2 \<noteq> 0 then (SWAP_BYTES_IN_WORD acc, \<not> swapped) else (acc, swapped)) s"
    if "unat c = ones (le_sum (take (unat len) (payload b)))" for c :: u16
    by (rule assms(5), rule carries_add [OF assms(3,4) that]) (simp only: parity Let_def, simp split: if_split)
  ultimately have "wp (lwip_standard_chksum (at a) (payload b) (int (unat len)))
      (\<lambda>c. Q (let acc = FOLD_U32T (acc + ucast c) in if p_len b mod 2 \<noteq> 0 then (SWAP_BYTES_IN_WORD acc, \<not> swapped) else (acc, swapped))) s"
    by (intro wp_standard_chksum [OF assms(2)])
  then show ?thesis
    unfolding add_pbuf_def split_conv using assms(1) by (simp add: wp_simps Let_def)
qed

text \<open>The loop over a whole chain, and the loop over the first bytes of one.\<close>

lemma chain_head:
  assumes "chain m q (a # as)" "sized m (a # as)"
  obtains b where "q = Some a" "m a = Some b" "chain m (p_next b) as" "length (payload b) = unat (p_len b)" "sized m as"
  using assms by (auto split: option.splits)

lemma wp_chain_loop:
  assumes "chain (pbufs s) q as" "sized (pbufs s) as" "carries n bs (acc, swapped)" "swapped \<longleftrightarrow> odd (length bs)"
    and "\<And>v. carries n (bs @ bytes (pbufs s) as) v \<Longrightarrow> Q (None, v) s"
  shows "wp (whileM (\<lambda>(q, v). ret (q \<noteq> None))
       (\<lambda>(q, v). bindM (read_pbuf q) (\<lambda>b. bindM (add_pbuf at q (p_len b) v) (\<lambda>v. ret (p_next b, v)))) (q, acc, swapped)) Q s"
  using assms
proof (induction as arbitrary: q bs acc swapped)
  case Nil
  then show ?case by (subst wp_whileM_unfold) (simp add: wp_simps)
next
  case (Cons a as)
  obtain b where b: "q = Some a" "pbufs s a = Some b" "chain (pbufs s) (p_next b) as" "length (payload b) = unat (p_len b)"
    "sized (pbufs s) as" using chain_head [OF Cons.prems(1,2)] .
  let ?loop = "whileM (\<lambda>(q, v). ret (q \<noteq> None))
       (\<lambda>(q, v). bindM (read_pbuf q) (\<lambda>b. bindM (add_pbuf at q (p_len b) v) (\<lambda>v. ret (p_next b, v))))"
  have "wp (add_pbuf at (Some a) (p_len b) (acc, swapped)) (\<lambda>v. wp (?loop (p_next b, v)) Q) s"
  proof (rule wp_add_pbuf [OF b(2) _ Cons.prems(3,4)])
    fix v assume v: "carries n (bs @ take (unat (p_len b)) (payload b)) v" "snd v \<longleftrightarrow> (swapped \<noteq> odd (unat (p_len b)))"
    obtain acc' swapped' where "v = (acc', swapped')" by (cases v)
    with v show "wp (?loop (p_next b, v)) Q s"
      using Cons.IH [OF b(3,5), of "bs @ payload b" acc' swapped'] Cons.prems(4,5) b(2,4) by auto
  qed (use b(4) in simp)
  then show ?case by (subst wp_whileM_unfold) (simp add: wp_simps b(1,2))
qed

lemma wp_chksum_chain:
  assumes "chain (pbufs s) p as" "sized (pbufs s) as" "unat acc < 65536"
    and "\<And>r. unat r = ones (unat acc + le_sum (bytes (pbufs s) as)) \<Longrightarrow> Q r s"
  shows "wp (chksum_chain at p acc) Q s"
  unfolding chksum_chain_def wp_bindM
proof (rule wp_chain_loop [OF assms(1,2), where n = "unat acc" and bs = "[]"])
  fix v assume "carries (unat acc) ([] @ bytes (pbufs s) as) v"
  then show "wp (case (None, v) of (q, acc, swapped) \<Rightarrow> ret (if swapped then SWAP_BYTES_IN_WORD acc else acc)) Q s"
    using assms(4) carries_end by (cases v) (auto simp: wp_ret)
qed (use assms(3) in \<open>simp_all add: carries_def ones_small\<close>)

lemma wp_partial_loop:
  assumes "chain (pbufs s) q as" "sized (pbufs s) as" "carries n bs (acc, swapped)" "swapped \<longleftrightarrow> odd (length bs)"
    and "\<And>q' k' v. carries n (bs @ take (unat k) (bytes (pbufs s) as)) v \<Longrightarrow> Q (q', k', v) s"
  shows "wp (whileM (\<lambda>(q, chksum_len, v). ret (q \<noteq> None \<and> chksum_len > 0))
       (\<lambda>(q, chksum_len, v). bindM (read_pbuf q) (\<lambda>b.
          let chklen = (if p_len b > chksum_len then chksum_len else p_len b) in
          bindM (add_pbuf at q chklen v) (\<lambda>v. ret (p_next b, chksum_len - chklen, v)))) (q, k, acc, swapped)) Q s"
  using assms
proof (induction as arbitrary: q k bs acc swapped)
  case Nil
  then show ?case by (subst wp_whileM_unfold) (simp add: wp_simps)
next
  case (Cons a as)
  obtain b where b: "q = Some a" "pbufs s a = Some b" "chain (pbufs s) (p_next b) as" "length (payload b) = unat (p_len b)"
    "sized (pbufs s) as" using chain_head [OF Cons.prems(1,2)] .
  let ?loop = "whileM (\<lambda>(q, chksum_len, v). ret (q \<noteq> None \<and> chksum_len > 0))
       (\<lambda>(q, chksum_len, v). bindM (read_pbuf q) (\<lambda>b.
          let chklen = (if p_len b > chksum_len then chksum_len else p_len b) in
          bindM (add_pbuf at q chklen v) (\<lambda>v. ret (p_next b, chksum_len - chklen, v))))"
  show ?case
  proof (cases "k = 0")
    case True
    then show ?thesis using Cons.prems(3,5) by (subst wp_whileM_unfold) (simp add: wp_simps)
  next
    case False
    let ?l = "if p_len b > k then k else p_len b"
    have le: "unat ?l \<le> length (payload b)" using b(4) by (simp add: word_less_nat_alt)
    have "wp (add_pbuf at (Some a) ?l (acc, swapped)) (\<lambda>v. wp (?loop (p_next b, k - ?l, v)) Q) s"
    proof (rule wp_add_pbuf [OF b(2) le Cons.prems(3,4)])
      fix v assume v: "carries n (bs @ take (unat ?l) (payload b)) v" "snd v \<longleftrightarrow> (swapped \<noteq> odd (unat (p_len b)))"
      obtain acc' swapped' where v': "v = (acc', swapped')" by (cases v)
      show "wp (?loop (p_next b, k - ?l, v)) Q s"
      proof (cases "p_len b > k")
        case True
        then have "carries n (bs @ take (unat k) (bytes (pbufs s) (a # as))) v" using v(1) b(2,4) by (simp add: word_less_nat_alt)
        then show ?thesis using True Cons.prems(5) by (subst wp_whileM_unfold) (simp add: wp_simps v')
      next
        case False
        then have "unat (k - p_len b) = unat k - unat (p_len b)" "unat (p_len b) \<le> unat k" by (simp_all add: unat_sub not_less word_le_nat_alt)
        then show ?thesis
          using Cons.IH [OF b(3,5), of "bs @ payload b" acc' swapped' "k - p_len b"] Cons.prems(4,5) b(2,4) v v' False by auto
      qed
    qed
    then show ?thesis using False by (subst wp_whileM_unfold) (simp add: wp_simps b(1,2) word_gt_0 Let_def)
  qed
qed

section \<open>The pseudo header\<close>

lemma bit_htons: "n < 16 \<Longrightarrow> bit (lwip_htons w) n \<longleftrightarrow> bit w (if n < 8 then n + 8 else n - 8)"
  unfolding lwip_htons_def drop_ff00 and_masks by (auto simp: bit_simps add.commute)

lemma htons_not: "lwip_htons (NOT w) = NOT (lwip_htons w)"
  by (rule bit_word_eqI) (auto simp: bit_simps bit_htons)

lemma not_low: "ucast (NOT (w AND 0xffff)) = NOT (ucast w :: u16)" for w :: u32
  unfolding and_masks by (rule bit_word_eqI) (auto simp: bit_simps)

lemma checksum_of_sum:
  fixes w :: u32
  assumes "unat w = ones (le_sum bs)"
  shows "lwip_htons (ucast (NOT (w AND 0xffff))) = rfc_checksum bs"
proof -
  have "unat (ucast w :: u16) = ones (le_sum bs)" using assms ones_less [of "le_sum bs"] by (simp add: unsigned_ucast_eq take_bit_nat_eq_self)
  then show ?thesis unfolding not_low htons_not rfc_checksum_def by (simp add: sum_in_network_order)
qed

lemma unat_byte: "unat (ucast w :: u8) = unat w mod 256" for w :: "'a :: len word"
  by (simp add: unsigned_ucast_eq take_bit_eq_mod)

lemma le_sum_addr: "le_sum (addr_bytes w) = unat w mod 65536 + unat w div 65536"
proof -
  have "unat w < 4294967296" using unsigned_less [of w, where ?'a = nat] by simp
  then have "unat w div 16777216 < 256" by simp
  moreover have "unat w mod 65536 = unat w mod 256 + 256 * (unat w div 256 mod 256)" using mod_mult2_eq [of "unat w" 256 256] by simp
  moreover have "unat w div 65536 = unat w div 65536 mod 256 + 256 * (unat w div 16777216)"
    using mod_mult_div_eq [of "unat w div 65536" 256] by (simp add: div_mult2_eq [symmetric])
  moreover have "unat (drop_bit 24 w) = unat w div 16777216" "unat (drop_bit 16 w) = unat w div 65536" "unat (drop_bit 8 w) = unat w div 256"
    by (simp_all only: unat_drop_bit_eq) (simp_all add: drop_bit_eq_div)
  ultimately show ?thesis by (simp add: addr_bytes_def unat_byte)
qed

lemma unat_addr_sum: "unat (addr_sum src dest) = ones (le_sum (addr_bytes src @ addr_bytes dest))"
proof -
  have half: "drop_bit 16 w AND 0xffff = drop_bit 16 w" for w :: u32
    unfolding and_masks by (rule bit_word_eqI) (auto simp: bit_simps dest: bit_imp_le_length)
  have le: "unat w mod 65536 < 65536" "unat w div 65536 < 65536" for w :: u32
    using unsigned_less [of w, where ?'a = nat] by simp_all
  have "unat ((src AND 0xffff) + (drop_bit 16 src AND 0xffff) + (dest AND 0xffff) + (drop_bit 16 dest AND 0xffff))
      = le_sum (addr_bytes src) + le_sum (addr_bytes dest)"
    unfolding half and_masks using le [of src] le [of dest] by (simp add: unat_word_ariths unat_take_8 unat_drop_8 le_sum_addr)
  moreover have "even (length (addr_bytes src))" by (simp add: addr_bytes_def)
  ultimately show ?thesis unfolding addr_sum_def fold_twice by (simp add: le_sum_append_even)
qed

lemma pseudo_end_sum:
  assumes "unat acc = ones (unat (addr_sum src dest) + le_sum bs)"
  shows "lwip_htons (pseudo_end proto proto_len acc) = rfc_checksum (pseudo_header src dest proto proto_len @ bs)"
proof -
  let ?a = "addr_bytes src @ addr_bytes dest" and ?l = "[0, proto, ucast (drop_bit 8 proto_len), ucast proto_len] :: u8 list"
  let ?v = "acc + ucast (lwip_htons (ucast proto)) + ucast (lwip_htons proto_len)"
  have p: "unat (ucast proto :: u16) = unat proto" "unat proto < 256" "unat proto_len < 65536" "unat proto_len div 256 < 256"
    using unsigned_less [of proto, where ?'a = nat] unsigned_less [of proto_len, where ?'a = nat]
    by (simp_all add: unsigned_ucast_eq take_bit_nat_eq_self)
  have l: "le_sum ?l = unat (lwip_htons (ucast proto)) + unat (lwip_htons proto_len)"
    using p by (simp add: unat_htons unat_byte unat_drop_8)
  have "unat ?v = unat acc + le_sum ?l"
    using ones_less [of "unat (addr_sum src dest) + le_sum bs"] unsigned_less [of "lwip_htons (ucast proto)", where ?'a = nat]
      unsigned_less [of "lwip_htons proto_len", where ?'a = nat] unfolding l assms [symmetric]
    by (simp add: unat_word_ariths unsigned_ucast_eq take_bit_nat_eq_self)
  also have "ones \<dots> = ones (le_sum ?a + le_sum bs + le_sum ?l)"
    unfolding assms unat_addr_sum by (simp only: ones_add1 add.assoc)
  also have "\<dots> = ones (le_sum (pseudo_header src dest proto proto_len @ bs))"
    by (simp add: pseudo_header_def addr_bytes_def ac_simps)
  finally show ?thesis
    unfolding pseudo_end_def by (intro checksum_of_sum) (simp only: fold_twice)
qed

section \<open>Correctness\<close>

text \<open>
  The checksum of an array, at any address and of any length, is the Internet checksum of RFC 1071, in
  network order; nothing is changed and no byte outside the array is read.
\<close>

theorem inet_chksum_is_rfc_1071:
  assumes "unat len \<le> length xs"
  shows "wp (inet_chksum a xs len) (\<lambda>r t. t = s \<and> lwip_htons r = rfc_checksum (take (unat len) xs)) s"
proof -
  have "unat len < 131071" using unsigned_less [of len, where ?'a = nat] by simp
  then have "wp (lwip_standard_chksum a xs (int (unat len))) (\<lambda>c t. t = s \<and> lwip_htons (NOT c) = rfc_checksum (take (unat len) xs)) s"
    by (intro wp_standard_chksum assms) (simp_all add: htons_not sum_in_network_order rfc_checksum_def)
  then show ?thesis unfolding inet_chksum_def wp_bindM wp_ret by simp
qed



section \<open>Filling in and verifying\<close>

lemma le_sum_update:
  "k < length xs \<Longrightarrow> le_sum (xs[k := b]) + (if even k then 1 else 256) * unat (xs ! k)
     = le_sum xs + (if even k then 1 else 256) * unat b"
proof (induction xs arbitrary: k rule: le_sum.induct)
  case (3 b c bs)
  consider "k = 0" | "k = 1" | l where "k = Suc (Suc l)" by (metis One_nat_def not0_implies_Suc)
  then show ?case using 3 by cases auto
qed simp_all

lemma ones_complement: "ones (n + (65535 - ones n)) = 65535"
proof -
  have "ones n \<le> 65535" using ones_less [of n] by simp
  have "(n + (65535 - ones n)) mod 65535 = (ones n + (65535 - ones n)) mod 65535"
    by (rule mod_add_cong) (simp_all add: ones_mod)
  moreover have "n + (65535 - ones n) \<noteq> 0" by (cases "n = 0") (simp_all add: ones_def)
  ultimately have "ones (n + (65535 - ones n)) = ones 65535" using \<open>ones n \<le> 65535\<close> by (intro ones_eqI) simp_all
  then show ?thesis by (simp add: ones_small)
qed

lemma unat_not: "unat (NOT w) = 65535 - unat w" for w :: u16
proof -
  have "NOT w = -1 - w" by (simp add: not_eq_complement)
  then show ?thesis using unat_sub [of w "-1"] by (simp add: unsigned_minus_1_eq_mask mask_eq_exp_minus_1)
qed

lemma wp_inet_chksum:
  assumes "unat len = length xs" "\<And>r. unat r = 65535 - ones (le_sum xs) \<Longrightarrow> Q r s"
  shows "wp (inet_chksum a xs len) Q s"
proof -
  have "unat len < 131071" using unsigned_less [of len, where ?'a = nat] by simp
  then have "wp (lwip_standard_chksum a xs (int (unat len))) (\<lambda>c. Q (NOT c)) s"
    by (intro wp_standard_chksum) (simp_all add: assms unat_not)
  then show ?thesis unfolding inet_chksum_def wp_bindM wp_ret by simp
qed

text \<open>
  Filling in and verifying a checksum. A header with a field of zeros at an even place, into which the result of
  \<open>inet_chksum\<close> is stored, has the checksum 0, whatever its address; and after any change of a single byte its checksum is
  not 0, so that the receiver drops it.
\<close>

theorem filled_checksum_verifies:
  assumes "unat len = length xs" "even k" "k + 1 < length xs" "xs ! k = 0" "xs ! (k + 1) = 0"
  shows "wp (inet_chksum a xs len) (\<lambda>r t. t = s \<and>
      (let ys = xs[k := ucast r, k + 1 := ucast (drop_bit 8 r)] in
       wp (inet_chksum a' ys len) (\<lambda>r' t'. t' = s \<and> r' = 0) s \<and>
       (\<forall>j < length xs. \<forall>b. b \<noteq> ys ! j \<longrightarrow> wp (inet_chksum a' (ys[j := b]) len) (\<lambda>r' t'. t' = s \<and> r' \<noteq> 0) s))) s"
proof (rule wp_inet_chksum [OF assms(1)])
  fix r :: u16 assume r: "unat r = 65535 - ones (le_sum xs)"
  define ys where "ys = xs[k := ucast r, k + 1 := ucast (drop_bit 8 r)]"
  have "unat r < 65536" using unsigned_less [of r, where ?'a = nat] by simp
  then have bytes: "unat (ucast r :: u8) = unat r mod 256" "unat (ucast (drop_bit 8 r) :: u8) = unat r div 256"
    by (simp_all add: unat_byte unat_drop_8)
  have len: "length ys = length xs" by (simp add: ys_def)
  have "le_sum ys = le_sum xs + unat r"
    using le_sum_update [of k xs "ucast r"] le_sum_update [of "k + 1" "xs[k := ucast r]" "ucast (drop_bit 8 r)"] assms(2-)
    by (simp add: ys_def bytes)
  then have sum: "ones (le_sum ys) = 65535" using ones_complement [of "le_sum xs"] r by simp
  then have "wp (inet_chksum a' ys len) (\<lambda>r' t'. t' = s \<and> r' = 0) s"
    by (intro wp_inet_chksum) (simp_all add: len assms(1) unat_eq_0)
  moreover have "wp (inet_chksum a' (ys[j := b]) len) (\<lambda>r' t'. t' = s \<and> r' \<noteq> 0) s" if j: "j < length xs" "b \<noteq> ys ! j" for j b
  proof (rule wp_inet_chksum)
    fix r' :: u16 assume r': "unat r' = 65535 - ones (le_sum (ys[j := b]))"
    let ?w = "if even j then 1 else 256 :: nat"
    have "ones (le_sum (ys[j := b])) \<noteq> 65535"
    proof
      assume "ones (le_sum (ys[j := b])) = 65535"
      then have "le_sum (ys[j := b]) mod 65535 = 0" "le_sum ys mod 65535 = 0"
        using sum ones_mod [of "le_sum ys"] ones_mod [of "le_sum (ys[j := b])"] by simp_all
      then have "(le_sum ys + ?w * unat b) mod 65535 = ?w * unat b mod 65535"
          "(le_sum (ys[j := b]) + ?w * unat (ys ! j)) mod 65535 = ?w * unat (ys ! j) mod 65535"
        by (simp_all only: mod_add_left_eq [symmetric, of "le_sum ys"] mod_add_left_eq [symmetric, of "le_sum (ys[j := b])"] add_0)
      then have "?w * unat b mod 65535 = ?w * unat (ys ! j) mod 65535"
        using le_sum_update [of j ys b] j(1) len by simp
      then show False using j(2) byte_sum_less [of b 0] byte_sum_less [of "ys ! j" 0] by (auto simp: word_unat_eq_iff split: if_splits)
    qed
    then show "s = s \<and> r' \<noteq> 0" using r' ones_less [of "le_sum (ys[j := b])"] by (auto simp: unat_eq_0 [symmetric])
  qed (simp add: len assms(1))
  ultimately show "s = s \<and> (let ys = xs[k := ucast r, k + 1 := ucast (drop_bit 8 r)] in
       wp (inet_chksum a' ys len) (\<lambda>r' t'. t' = s \<and> r' = 0) s \<and>
       (\<forall>j < length xs. \<forall>b. b \<noteq> ys ! j \<longrightarrow> wp (inet_chksum a' (ys[j := b]) len) (\<lambda>r' t'. t' = s \<and> r' \<noteq> 0) s))"
    unfolding ys_def [symmetric] Let_def by simp
qed

end
