(* ===== verification/Usb_Memcpy.thy ===== *)
theory Usb_Memcpy
  imports C_Machine
begin

text \<open>
  The copy routine \<open>common/usb_memcpy.h\<close>, by which the stack replaces \<open>memcpy\<close>: bytes up to a word
  boundary, then words, in groups of four, then the remaining bytes, with a second variant for source
  and destination that are aligned differently. The memory is a function from addresses to bytes; a
  word access at an address that is not a multiple of four is a fault. The result is that of copying
  byte by byte.
\<close>

section \<open>Memory\<close>

type_synonym memory = "u32 \<Rightarrow> u8"

definition ALIGN_UP_DWORD :: "u32 \<Rightarrow> u32" where
  "ALIGN_UP_DWORD x = x AND (4 - 1)"

definition load_word :: "u32 \<Rightarrow> (memory, u32) cm" where
  "load_word a =
     (if a AND 3 \<noteq> 0 then faultM Misaligned_Access
      else getM (\<lambda>m. ucast (m a) OR push_bit 8 (ucast (m (a + 1))) OR push_bit 16 (ucast (m (a + 2)))
                   OR push_bit 24 (ucast (m (a + 3)))))"

definition put_word :: "u32 \<Rightarrow> u32 \<Rightarrow> memory \<Rightarrow> memory" where
  "put_word a w m =
     m(a := ucast w, a + 1 := ucast (drop_bit 8 w), a + 2 := ucast (drop_bit 16 w), a + 3 := ucast (drop_bit 24 w))"

definition store_word :: "u32 \<Rightarrow> u32 \<Rightarrow> (memory, unit) cm" where
  "store_word a w = (if a AND 3 \<noteq> 0 then faultM Misaligned_Access else modM (put_word a w))"

section \<open>The routine\<close>

text \<open>\<open>addr[0] = w; addr[1] = w >> 8; ...\<close>, byte by byte.\<close>

definition dword2array :: "u32 \<Rightarrow> u32 \<Rightarrow> (memory, unit) cm" where
  "dword2array addr w =
     seqM [modM (\<lambda>m. m(addr := ucast w)), modM (\<lambda>m. m(addr + 1 := ucast (drop_bit 8 w))),
           modM (\<lambda>m. m(addr + 2 := ucast (drop_bit 16 w))), modM (\<lambda>m. m(addr + 3 := ucast (drop_bit 24 w)))]"

text \<open>The pointers and the number of bytes left are the local variables \<open>(b1, b2, n)\<close>.\<close>

type_synonym copy_vars = "u32 \<times> u32 \<times> u32"

text \<open>\<open>*b1++ = *b2++\<close>, \<open>*w1++ = *w2++\<close>, and \<open>dword2array(b1, *w2++); b1 += sizeof(uint32_t)\<close>.\<close>

definition copy_byte :: "copy_vars \<Rightarrow> (memory, copy_vars) cm" where
  "copy_byte = (\<lambda>(b1, b2, n).
     bindM (getM (\<lambda>m. m b2)) (\<lambda>x. bindM (modM (\<lambda>m. m(b1 := x))) (\<lambda>_. ret (b1 + 1, b2 + 1, n))))"

definition copy_word :: "copy_vars \<Rightarrow> (memory, copy_vars) cm" where
  "copy_word = (\<lambda>(w1, w2, n).
     bindM (load_word w2) (\<lambda>w. bindM (store_word w1 w) (\<lambda>_. ret (w1 + 4, w2 + 4, n))))"

definition spread_word :: "copy_vars \<Rightarrow> (memory, copy_vars) cm" where
  "spread_word = (\<lambda>(b1, w2, n).
     bindM (load_word w2) (\<lambda>w. bindM (dword2array b1 w) (\<lambda>_. ret (b1 + 4, w2 + 4, n))))"

text \<open>\<open>n -= k\<close>, and the three loops both variants end with; \<open>while (n--)\<close> leaves \<open>n\<close> unused.\<close>

definition reduce :: "u32 \<Rightarrow> copy_vars \<Rightarrow> (memory, copy_vars) cm" where
  "reduce k = (\<lambda>(b1, b2, n). ret (b1, b2, n - k))"

definition copy_words :: "(copy_vars \<Rightarrow> (memory, copy_vars) cm) \<Rightarrow> copy_vars \<Rightarrow> (memory, copy_vars) cm" where
  "copy_words word v =
     bindM (whileM (\<lambda>(b1, b2, n). ret (n \<ge> 4 * 4))
       (\<lambda>v. bindM (word v) (\<lambda>v. bindM (word v) (\<lambda>v. bindM (word v) (\<lambda>v. bindM (word v) (reduce (4 * 4)))))) v)
     (\<lambda>v. bindM (whileM (\<lambda>(b1, b2, n). ret (n \<ge> 4)) (\<lambda>v. bindM (word v) (reduce 4)) v)
     (\<lambda>v. whileM (\<lambda>(b1, b2, n). ret (n \<noteq> 0)) (\<lambda>v. bindM (reduce 1 v) copy_byte) v))"

definition usb_memcpy :: "u32 \<Rightarrow> u32 \<Rightarrow> u32 \<Rightarrow> (memory, u32) cm" where
  "usb_memcpy s1 s2 n =
     bindM
       (if ALIGN_UP_DWORD s1 = ALIGN_UP_DWORD s2 then
          bindM (whileM (\<lambda>(b1, b2, n). ret (ALIGN_UP_DWORD b1 \<noteq> 0 \<and> n > 0))
            (\<lambda>v. bindM (copy_byte v) (reduce 1)) (s1, s2, n)) (copy_words copy_word)
        else
          bindM (whileM (\<lambda>(b1, b2, n). ret (n > 0 \<and> ALIGN_UP_DWORD b2 \<noteq> 0))
            (\<lambda>v. bindM (copy_byte v) (reduce 1)) (s1, s2, n)) (copy_words spread_word))
     (\<lambda>_. ret s1)"

section \<open>Copying byte by byte\<close>

definition copied :: "memory \<Rightarrow> u32 \<Rightarrow> u32 \<Rightarrow> nat \<Rightarrow> memory" where
  "copied m s1 s2 k = (\<lambda>a. if unat (a - s1) < k then m (s2 + (a - s1)) else m a)"

definition separate :: "u32 \<Rightarrow> u32 \<Rightarrow> nat \<Rightarrow> bool" where
  "separate s1 s2 n \<longleftrightarrow> (\<forall>i < n. \<not> unat (s2 + of_nat i - s1) < n)"

text \<open>The word read from the source goes to the destination byte for byte.\<close>

lemma word_bytes:
  fixes a b c d :: u8
  defines "w \<equiv> (ucast a OR push_bit 8 (ucast b) OR push_bit 16 (ucast c) OR push_bit 24 (ucast d) :: u32)"
  shows "ucast w = a" "ucast (drop_bit 8 w) = b" "ucast (drop_bit 16 w) = c" "ucast (drop_bit 24 w) = d"
  unfolding w_def by (rule bit_word_eqI, auto simp: bit_simps dest: bit_imp_le_length)+

lemma put_word_bytes:
  "put_word a (ucast p OR push_bit 8 (ucast q) OR push_bit 16 (ucast r) OR push_bit 24 (ucast s)) m =
     m(a := p, a + 1 := q, a + 2 := r, a + 3 := s)"
  unfolding put_word_def word_bytes ..

lemma copied_0: "copied m s1 s2 0 = m"
  by (rule ext) (simp add: copied_def)

lemma copied_source:
  assumes "separate s1 s2 n" "k \<le> n" "j < n"
  shows "copied m s1 s2 k (s2 + of_nat j) = m (s2 + of_nat j)"
  using assms by (auto simp: copied_def separate_def)

lemma copied_step:
  assumes "k < 2 ^ 32"
  shows "(copied m s1 s2 k)(s1 + of_nat k := m (s2 + of_nat k)) = copied m s1 s2 (Suc k)"
proof
  fix a
  have "a = s1 + of_nat k \<longleftrightarrow> a - s1 = of_nat k" by (auto simp: algebra_simps)
  also have "\<dots> \<longleftrightarrow> unat (a - s1) = k" using assms by (auto simp: unat_of_nat)
  finally show "((copied m s1 s2 k)(s1 + of_nat k := m (s2 + of_nat k))) a = copied m s1 s2 (Suc k) a"
    by (auto simp: copied_def less_Suc_eq)
qed

lemma copied_word:
  assumes "k + 4 \<le> 2 ^ 32"
  shows "(copied m s1 s2 k)(s1 + of_nat k := m (s2 + of_nat k), s1 + of_nat k + 1 := m (s2 + of_nat k + 1),
      s1 + of_nat k + 2 := m (s2 + of_nat k + 2), s1 + of_nat k + 3 := m (s2 + of_nat k + 3)) = copied m s1 s2 (k + 4)"
proof -
  have "k + 4 = Suc (Suc (Suc (Suc k)))" by simp
  then have "copied m s1 s2 (k + 4) = (copied m s1 s2 k)(s1 + of_nat k := m (s2 + of_nat k),
      s1 + of_nat (Suc k) := m (s2 + of_nat (Suc k)), s1 + of_nat (Suc (Suc k)) := m (s2 + of_nat (Suc (Suc k))),
      s1 + of_nat (Suc (Suc (Suc k))) := m (s2 + of_nat (Suc (Suc (Suc k)))))"
    using assms by (simp only: copied_step [symmetric])
  then show ?thesis by (simp add: add_ac)
qed

section \<open>The loops\<close>

text \<open>After \<open>k\<close> of \<open>n\<close> bytes, and what the loops keep: \<open>r\<close> bytes are left.\<close>

definition at_byte :: "memory \<Rightarrow> u32 \<Rightarrow> u32 \<Rightarrow> nat \<Rightarrow> u32 \<Rightarrow> u32 \<Rightarrow> memory \<Rightarrow> bool" where
  "at_byte m s1 s2 k b1 b2 m' \<longleftrightarrow> b1 = s1 + of_nat k \<and> b2 = s2 + of_nat k \<and> m' = copied m s1 s2 k"

definition copying :: "(u32 \<Rightarrow> u32 \<Rightarrow> bool) \<Rightarrow> memory \<Rightarrow> u32 \<Rightarrow> u32 \<Rightarrow> nat \<Rightarrow> copy_vars \<Rightarrow> memory \<Rightarrow> bool" where
  "copying fits m s1 s2 n = (\<lambda>(b1, b2, r) m'.
     \<exists>k. at_byte m s1 s2 k b1 b2 m' \<and> k + unat r = n \<and> (r \<noteq> 0 \<longrightarrow> fits b1 b2))"

lemma byte_step:
  assumes "separate s1 s2 n" "k < n" "n < 2 ^ 32" "at_byte m s1 s2 k b1 b2 m'"
  shows "wp (copy_byte (b1, b2, r)) (\<lambda>v m''. v = (b1 + 1, b2 + 1, r) \<and> at_byte m s1 s2 (k + 1) (b1 + 1) (b2 + 1) m'') m'"
  using assms copied_source [OF assms(1), of k k m] copied_step [of k m s1 s2]
  by (simp add: copy_byte_def wp_simps at_byte_def add_ac)

text \<open>A word of the source read after \<open>k\<close> bytes, and written.\<close>

lemma word_moved:
  assumes "separate s1 s2 n" "k + 4 \<le> n" "n < 2 ^ 32" "at_byte m s1 s2 k b1 b2 m'" "b2 AND 3 = 0"
  shows "wp (load_word b2) (\<lambda>w m''. m'' = m' \<and> at_byte m s1 s2 (k + 4) (b1 + 4) (b2 + 4) (put_word b1 w m')) m'"
proof -
  have src: "m' (b2 + of_nat i) = m (b2 + of_nat i)" if "i < 4" for i
    using copied_source [OF assms(1), of k "k + i" m] assms(2,4) that by (simp add: at_byte_def add_ac)
  have "m' b2 = m b2" "m' (b2 + 1) = m (b2 + 1)" "m' (b2 + 2) = m (b2 + 2)" "m' (b2 + 3) = m (b2 + 3)"
    using src [of 0] src [of 1] src [of 2] src [of 3] by simp_all
  with assms copied_word [of k m s1 s2] show ?thesis
    by (simp add: load_word_def wp_simps put_word_bytes at_byte_def add_ac)
qed

text \<open>
  The contract of the two ways to copy a word, which the loops over the words rely on: with the
  pointers suitably aligned it moves four bytes on.
\<close>

locale word_copier =
  fixes word :: "copy_vars \<Rightarrow> (memory, copy_vars) cm"
    and fits :: "u32 \<Rightarrow> u32 \<Rightarrow> bool"
  assumes word_step: "\<And>s1 s2 n k m m' b1 b2 r. separate s1 s2 n \<Longrightarrow> k + 4 \<le> n \<Longrightarrow> n < 2 ^ 32 \<Longrightarrow>
      at_byte m s1 s2 k b1 b2 m' \<Longrightarrow> fits b1 b2 \<Longrightarrow>
      wp (word (b1, b2, r)) (\<lambda>v m''. v = (b1 + 4, b2 + 4, r) \<and> at_byte m s1 s2 (k + 4) (b1 + 4) (b2 + 4) m'') m'"
    and fits_step: "\<And>b1 b2. fits b1 b2 \<Longrightarrow> fits (b1 + 4) (b2 + 4)"
begin

lemma then_step:
  assumes "separate s1 s2 n" "n < 2 ^ 32" "k + 4 \<le> n" "at_byte m s1 s2 k b1 b2 m'" "fits b1 b2"
    and "\<And>m''. at_byte m s1 s2 (k + 4) (b1 + 4) (b2 + 4) m'' \<Longrightarrow> fits (b1 + 4) (b2 + 4) \<Longrightarrow>
      wp (f (b1 + 4, b2 + 4, r)) Q m''"
  shows "wp (bindM (word (b1, b2, r)) f) Q m'"
  unfolding wp_bindM
  by (rule wp_mono [OF word_step [OF assms(1,3,2,4,5)]]) (use assms(5,6) fits_step in auto)

lemma end_step:
  assumes "at_byte m s1 s2 k b1 b2 m'" "k + unat r = n + unat d" "unat d \<le> unat r" "d \<noteq> 0" "fits b1 b2"
  shows "wp (reduce d (b1, b2, r)) (\<lambda>v m''. copying fits m s1 s2 n v m'' \<and> unat (snd (snd v)) < unat r) m'"
proof -
  have "unat (r - d) = unat r - unat d" using assms(3) by (simp add: unat_sub word_le_nat_alt)
  moreover have "unat d \<noteq> 0" using assms(4) by (simp add: unat_eq_zero)
  ultimately show ?thesis using assms by (auto simp: reduce_def wp_simps copying_def intro!: exI [of _ k])
qed

lemma words_step:
  assumes s: "separate s1 s2 n" "n < 2 ^ 32" "copying fits m s1 s2 n (b1, b2, r) m'"
  shows "16 \<le> unat r \<Longrightarrow>
      wp (bindM (word (b1, b2, r)) (\<lambda>v. bindM (word v) (\<lambda>v. bindM (word v) (\<lambda>v. bindM (word v) (reduce (4 * 4))))))
      (\<lambda>v m''. copying fits m s1 s2 n v m'' \<and> unat (snd (snd v)) < unat r) m'"
    and "4 \<le> unat r \<Longrightarrow> wp (bindM (word (b1, b2, r)) (reduce 4))
      (\<lambda>v m''. copying fits m s1 s2 n v m'' \<and> unat (snd (snd v)) < unat r) m'"
proof -
  obtain k where k: "at_byte m s1 s2 k b1 b2 m'" "k + unat r = n" "r \<noteq> 0 \<longrightarrow> fits b1 b2"
    using s(3) by (auto simp: copying_def)
  note step = then_step [OF s(1,2)]
  show "wp (bindM (word (b1, b2, r)) (reduce 4))
      (\<lambda>v m''. copying fits m s1 s2 n v m'' \<and> unat (snd (snd v)) < unat r) m'" if r: "4 \<le> unat r"
    using k r by (intro step [OF _ k(1)] end_step) auto
  show "wp (bindM (word (b1, b2, r)) (\<lambda>v. bindM (word v) (\<lambda>v. bindM (word v) (\<lambda>v. bindM (word v) (reduce (4 * 4))))))
      (\<lambda>v m''. copying fits m s1 s2 n v m'' \<and> unat (snd (snd v)) < unat r) m'" if r: "16 \<le> unat r"
  proof -
    have "r \<noteq> 0" "k + 16 \<le> n" using k r by auto
    with k have f: "fits b1 b2" "k + 16 \<le> n" by auto
    then have l: "k + 4 \<le> n" "k + 4 + 4 \<le> n" "k + 4 + 4 + 4 \<le> n" "k + 4 + 4 + 4 + 4 \<le> n" by auto
    show ?thesis
      by (rule step [OF l(1) k(1) f(1)], rule step [OF l(2)], assumption+, rule step [OF l(3)], assumption+,
        rule step [OF l(4)], assumption+, rule end_step, assumption) (use k r in auto)
  qed
qed

lemma copy_words_copies:
  assumes s: "separate s1 s2 n" "n < 2 ^ 32" "copying fits m s1 s2 n v m'"
  shows "wp (copy_words word v) (\<lambda>_ m''. m'' = copied m s1 s2 n) m'"
proof -
  let ?I = "copying fits m s1 s2 n" and ?M = "\<lambda>v m. unat (snd (snd v))"
  have "wp (bindM (reduce 1 v) copy_byte) (\<lambda>v' m''. copying (\<lambda>_ _. True) m s1 s2 n v' m'' \<and> ?M v' m'' < ?M v m') m'"
    if "copying (\<lambda>_ _. True) m s1 s2 n v m'" "snd (snd v) \<noteq> 0" for v m'
  proof -
    note a = that
    obtain b1 b2 r k where v: "v = (b1, b2, r)" "at_byte m s1 s2 k b1 b2 m'" "k + unat r = n" "r \<noteq> 0"
      using a by (cases v) (auto simp: copying_def)
    have r: "unat (r - 1) = unat r - 1" "unat r \<noteq> 0" using v(4) by (simp_all add: unat_eq_zero unat_minus_one)
    show ?thesis
      unfolding v wp_bindM reduce_def wp_ret prod.case
      by (rule wp_mono [OF byte_step [OF s(1) _ s(2) v(2)]]) (use v(3) r in \<open>auto simp: copying_def intro!: exI [of _ "k + 1"]\<close>)
  qed
  then have bytes: "wp (whileM (\<lambda>(b1, b2, n). ret (n \<noteq> 0)) (\<lambda>v. bindM (reduce 1 v) copy_byte) v)
      (\<lambda>_ m''. m'' = copied m s1 s2 n) m'" if "?I v m'" for v m'
    by (intro wp_whileM [where I = "copying (\<lambda>_ _. True) m s1 s2 n" and M = ?M])
      (use that in \<open>auto simp: wp_ret copying_def at_byte_def\<close>)
  have words: "wp (whileM (\<lambda>(b1, b2, n). ret (n \<ge> 4)) (\<lambda>v. bindM (word v) (reduce 4)) v)
      (\<lambda>v. wp (whileM (\<lambda>(b1, b2, n). ret (n \<noteq> 0)) (\<lambda>v. bindM (reduce 1 v) copy_byte) v)
        (\<lambda>_ m''. m'' = copied m s1 s2 n)) m'" if "?I v m'" for v m'
    by (rule wp_whileM [where I = ?I and M = ?M])
      (use that bytes words_step(2) [OF s(1,2)] in \<open>auto simp: wp_ret word_le_nat_alt\<close>)
  show ?thesis
    unfolding copy_words_def wp_bindM
    by (rule wp_whileM [where I = ?I and M = ?M])
      (use s words words_step(1) [OF s(1,2)] in \<open>auto simp: wp_ret word_le_nat_alt\<close>)
qed

end

section \<open>Alignment\<close>

lemma unat_and_3: "unat (x AND 3 :: u32) = unat x mod 4"
proof -
  have "x AND 3 = take_bit 2 x" by (simp add: take_bit_eq_mask mask_eq_exp_minus_1)
  then show ?thesis by (simp add: unsigned_take_bit_eq take_bit_eq_mod unat_mod)
qed

lemma and_3_eq: "(x AND 3 :: u32) = y AND 3 \<longleftrightarrow> unat x mod 4 = unat y mod 4"
  by (metis unat_and_3 word_unat_eq_iff)

lemma and_3_eq_0: "(x AND 3 :: u32) = 0 \<longleftrightarrow> unat x mod 4 = 0"
  using and_3_eq [of x 0] by simp

lemma unat_add_mod_4: "unat (x + y :: u32) mod 4 = (unat x + unat y) mod 4"
proof -
  have "(4 :: nat) dvd 2 ^ 32" by simp
  then show ?thesis by (simp add: unat_word_ariths mod_mod_cancel)
qed

lemma wp_dword2array: "wp (dword2array a w) Q m = Q () (put_word a w m)"
  by (simp add: dword2array_def put_word_def wp_simps)

lemma and_3_inc: "(x AND 3 :: u32) = y AND 3 \<Longrightarrow> (x + 1) AND 3 = (y + 1) AND 3"
  unfolding and_3_eq unat_add_mod_4 by (rule mod_add_cong) simp_all

interpretation aligned: word_copier copy_word "\<lambda>b1 b2. b1 AND 3 = 0 \<and> b2 AND 3 = 0"
proof
  fix s1 s2 n k m m' b1 b2 r
  assume a: "separate s1 s2 n" "k + 4 \<le> n" "n < 2 ^ 32" "at_byte m s1 s2 k b1 b2 m'" "b1 AND 3 = 0 \<and> b2 AND 3 = 0"
  then show "wp (copy_word (b1, b2, r)) (\<lambda>v m''. v = (b1 + 4, b2 + 4, r) \<and> at_byte m s1 s2 (k + 4) (b1 + 4) (b2 + 4) m'') m'"
    unfolding copy_word_def prod.case wp_bindM
    by (intro wp_mono [OF word_moved]) (auto simp: store_word_def wp_simps)
qed (simp add: and_3_eq_0 unat_add_mod_4)

interpretation unaligned: word_copier spread_word "\<lambda>b1 b2. b2 AND 3 = 0"
proof
  fix s1 s2 n k m m' b1 b2 r
  assume a: "separate s1 s2 n" "k + 4 \<le> n" "n < 2 ^ 32" "at_byte m s1 s2 k b1 b2 m'" "b2 AND 3 = 0"
  then show "wp (spread_word (b1, b2, r)) (\<lambda>v m''. v = (b1 + 4, b2 + 4, r) \<and> at_byte m s1 s2 (k + 4) (b1 + 4) (b2 + 4) m'') m'"
    unfolding spread_word_def prod.case wp_bindM
    by (intro wp_mono [OF word_moved]) (auto simp: wp_dword2array wp_simps)
qed (simp add: and_3_eq_0 unat_add_mod_4)

section \<open>Properties\<close>

lemma head_step:
  assumes s: "separate s1 s2 n" "n < 2 ^ 32" "copying P m s1 s2 n v m'" "snd (snd v) > 0"
    and P: "\<And>b1 b2. P b1 b2 \<Longrightarrow> P (b1 + 1) (b2 + 1)"
  shows "wp (bindM (copy_byte v) (reduce 1)) (\<lambda>v' m''. copying P m s1 s2 n v' m'' \<and> unat (snd (snd v')) < unat (snd (snd v))) m'"
proof -
  obtain b1 b2 r k where v: "v = (b1, b2, r)" "at_byte m s1 s2 k b1 b2 m'" "k + unat r = n" "r \<noteq> 0" "P b1 b2"
    using s(3,4) by (cases v) (auto simp: copying_def)
  have r: "unat (r - 1) = unat r - 1" "unat r \<noteq> 0" using v(4) by (simp_all add: unat_eq_zero unat_minus_one)
  show ?thesis
    unfolding v wp_bindM
    by (rule wp_mono [OF byte_step [OF s(1) _ s(2) v(2)]])
      (use v(3,5) r P in \<open>auto simp: copying_def reduce_def wp_ret intro!: exI [of _ "k + 1"]\<close>)
qed

text \<open>
  C23: The optimised copy is a copy. For source and destination areas that do not overlap, of any
  length and any alignment, \<open>usb_memcpy\<close> returns its first argument, never makes a word access at an
  address that is not a multiple of four, copies the bytes in order and changes no other byte.
\<close>

theorem usb_memcpy_copies:
  assumes "separate s1 s2 (unat n)"
  shows "wp (usb_memcpy s1 s2 n) (\<lambda>r m'. r = s1 \<and>
     m' = (\<lambda>a. if unat (a - s1) < unat n then m (s2 + (a - s1)) else m a)) m"
proof -
  have n: "unat n < 2 ^ 32" using unsigned_less [of n, where ?'a = nat] by simp
  have start: "copying P m s1 s2 (unat n) (s1, s2, n) m" if "P s1 s2" for P
    using that by (auto simp: copying_def at_byte_def copied_0 intro!: exI [of _ 0])
  let ?Q = "\<lambda>_ m'. m' = copied m s1 s2 (unat n)" and ?M = "\<lambda>v _. unat (snd (snd v))"
  have "wp (bindM (whileM (\<lambda>(b1, b2, n). ret (ALIGN_UP_DWORD b1 \<noteq> 0 \<and> n > 0))
      (\<lambda>v. bindM (copy_byte v) (reduce 1)) (s1, s2, n)) (copy_words copy_word)) ?Q m"
    if e: "s1 AND 3 = s2 AND 3"
    unfolding wp_bindM
  proof (rule wp_whileM [where I = "copying (\<lambda>b1 b2. b1 AND 3 = b2 AND 3) m s1 s2 (unat n)" and M = ?M])
    fix v m'
    assume v: "copying (\<lambda>b1 b2. b1 AND 3 = b2 AND 3) m s1 s2 (unat n) v m'"
    have "wp (copy_words copy_word v) ?Q m'" if "fst v AND 3 = 0 \<or> snd (snd v) = 0"
      by (rule aligned.copy_words_copies [OF assms n]) (use v that in \<open>auto simp: copying_def split: prod.splits\<close>)
    then show "wp (case v of (b1, b2, n) \<Rightarrow> ret (ALIGN_UP_DWORD b1 \<noteq> 0 \<and> n > 0))
        (\<lambda>t s'. if t then wp (bindM (copy_byte v) (reduce 1)) (\<lambda>v' s''. copying (\<lambda>b1 b2. b1 AND 3 = b2 AND 3) m s1 s2
          (unat n) v' s'' \<and> ?M v' s'' < ?M v m') s' else wp (copy_words copy_word v) ?Q s') m'"
      using head_step [OF assms n v _ and_3_inc]
      by (auto simp: wp_ret ALIGN_UP_DWORD_def word_gt_0 split: prod.splits)
  qed (use start [of "\<lambda>b1 b2. b1 AND 3 = b2 AND 3"] e in simp)
  moreover have "wp (bindM (whileM (\<lambda>(b1, b2, n). ret (n > 0 \<and> ALIGN_UP_DWORD b2 \<noteq> 0))
      (\<lambda>v. bindM (copy_byte v) (reduce 1)) (s1, s2, n)) (copy_words spread_word)) ?Q m"
    unfolding wp_bindM
  proof (rule wp_whileM [where I = "copying (\<lambda>_ _. True) m s1 s2 (unat n)" and M = ?M])
    fix v m'
    assume v: "copying (\<lambda>_ _. True) m s1 s2 (unat n) v m'"
    have "wp (copy_words spread_word v) ?Q m'" if "fst (snd v) AND 3 = 0 \<or> snd (snd v) = 0"
      by (rule unaligned.copy_words_copies [OF assms n]) (use v that in \<open>auto simp: copying_def split: prod.splits\<close>)
    then show "wp (case v of (b1, b2, n) \<Rightarrow> ret (n > 0 \<and> ALIGN_UP_DWORD b2 \<noteq> 0))
        (\<lambda>t s'. if t then wp (bindM (copy_byte v) (reduce 1)) (\<lambda>v' s''. copying (\<lambda>_ _. True) m s1 s2
          (unat n) v' s'' \<and> ?M v' s'' < ?M v m') s' else wp (copy_words spread_word v) ?Q s') m'"
      using head_step [OF assms n v] by (auto simp: wp_ret ALIGN_UP_DWORD_def word_gt_0 split: prod.splits)
  qed (use start [of "\<lambda>_ _. True"] in simp)
  ultimately show ?thesis
    by (simp add: usb_memcpy_def wp_if wp_bindM wp_ret ALIGN_UP_DWORD_def flip: copied_def)
qed

lemma separate_apart:
  assumes "n \<le> unat (s2 - s1)" "unat (s2 - s1) + n \<le> 2 ^ 32"
  shows "separate s1 s2 n"
  unfolding separate_def
proof (intro allI impI)
  fix i assume i: "i < n"
  define d where "d = s2 - s1"
  have "s2 + of_nat i - s1 = d + of_nat i" by (simp add: d_def)
  moreover have "unat (d + of_nat i) = unat d + i"
    using i assms(2) by (simp add: d_def [symmetric] unat_word_ariths unat_of_nat)
  ultimately have "unat (s2 + of_nat i - s1) = unat d + i" by (simp only:)
  with assms(1) show "\<not> unat (s2 + of_nat i - s1) < n" by (simp add: d_def)
qed

theorem usb_memcpy_copies_witness:
  "wp (usb_memcpy 0x20000001 0x08000003 75) (\<lambda>r m'. r = 0x20000001 \<and>
     m' = (\<lambda>a. if unat (a - 0x20000001) < unat (75 :: u32) then (\<lambda>a. ucast a) (0x08000003 + (a - 0x20000001))
             else ucast a)) (\<lambda>a. ucast a)"
proof (rule usb_memcpy_copies)
  show "separate 0x20000001 0x08000003 (unat (75 :: u32))" by (rule separate_apart) simp_all
qed

end
