(* ===== verification/Usb_Types.thy ===== *)
theory Usb_Types
  imports C_Machine
begin

text \<open>
  The USB device stack (CherryUSB), shared part: the structures of \<open>usb_def.h\<close> and \<open>usbd_core.h\<close>,
  the stack's private state \<open>struct usbd_core_priv\<close> of \<open>core/usbd_core.c\<close> with the globals of
  \<open>demo/cdc_acm_template.c\<close>, the calls into the device controller of \<open>common/usb_dc.h\<close>, and the
  registration functions and getters.

  \<^item> The firmware has one bus, so \<open>g_usbd_core[0]\<close> is the state and \<open>busid\<close> is left out except in
    \<open>usbd_initialize\<close> and \<open>usbd_deinitialize\<close>, which test it.
  \<^item> A data pointer names the buffer it points into and an offset; reading or writing outside the
    buffer is the fault \<open>Out_Of_Bounds\<close>.
  \<^item> A function pointer is the name of the function, \<open>None\<close> for \<open>NULL\<close>.
  \<^item> Every call into the controller is appended to \<open>dc_log\<close>, newest first. What a call returns is
    decided by the controller: a function of the log, an argument of the definitions.
  \<^item> The build has \<open>CONFIG_USBDEV_ADVANCE_DESC\<close>, and neither \<open>CONFIG_USB_HS\<close>,
    \<open>CONFIG_USBDEV_EP0_THREAD\<close>, \<open>CONFIG_USBDEV_TEST_MODE\<close> nor \<open>CONFIG_USBDEV_EP0_INDATA_NO_COPY\<close>.
    Log output is left out.
\<close>

section \<open>Structures\<close>

record usb_setup_packet =
  bmRequestType :: u8
  bRequest :: u8
  wValue :: u16
  wIndex :: u16
  wLength :: u16

text \<open>The fields of an endpoint descriptor that the stack or the controller driver reads.\<close>

record usb_endpoint_descriptor =
  bEndpointAddress :: u8
  bmAttributes :: u8
  wMaxPacketSize :: u16

record usb_msosv1_descriptor =
  v1_string :: "u8 list"
  v1_vendor_code :: u8
  v1_compat_id :: "u8 list"
  v1_comp_id_property :: "u8 list list"

record usb_msosv2_descriptor =
  v2_compat_id :: "u8 list"
  v2_compat_id_len :: u16
  v2_vendor_code :: u8

record usb_webusb_descriptor =
  url_vendor_code :: u8
  url_string :: "u8 list"
  url_string_len :: u32

record usb_bos_descriptor =
  bos_string :: "u8 list"
  bos_string_len :: u32

text \<open>
  A descriptor callback returns a constant byte array or \<open>NULL\<close>; a C string is the array of its
  bytes, the terminating zero included.
\<close>

record usb_descriptor =
  device_descriptor_callback :: "(u8 \<Rightarrow> u8 list option) option"
  config_descriptor_callback :: "(u8 \<Rightarrow> u8 list option) option"
  device_quality_descriptor_callback :: "(u8 \<Rightarrow> u8 list option) option"
  other_speed_descriptor_callback :: "(u8 \<Rightarrow> u8 list option) option"
  string_descriptor_callback :: "(u8 \<Rightarrow> u8 \<Rightarrow> u8 list option) option"
  msosv1_descriptor :: "usb_msosv1_descriptor option"
  msosv2_descriptor :: "usb_msosv2_descriptor option"
  webusb_url_descriptor :: "usb_webusb_descriptor option"
  bos_descriptor :: "usb_bos_descriptor option"

section \<open>Pointers\<close>

text \<open>
  The buffers a data pointer of the stack can point into: the request buffer, a constant array in
  flash, and the two transfer buffers of the serial port demo.
\<close>

datatype ptr =
    Null_Ptr
  | Req_Data nat
  | Rom "u8 list" nat
  | Read_Buffer nat
  | Write_Buffer nat

fun ptr_add :: "ptr \<Rightarrow> nat \<Rightarrow> ptr" where
  "ptr_add Null_Ptr n = Null_Ptr"
| "ptr_add (Req_Data i) n = Req_Data (i + n)"
| "ptr_add (Rom xs i) n = Rom xs (i + n)"
| "ptr_add (Read_Buffer i) n = Read_Buffer (i + n)"
| "ptr_add (Write_Buffer i) n = Write_Buffer (i + n)"

text \<open>
  The functions the firmware stores in function pointers. A notification handler belongs to a class
  driver; the serial port class has none, so what one would do is an argument.
\<close>

datatype request_handler = Cdc_Acm_Class_Interface_Request_Handler

datatype endpoint_callback =
    Usbd_Event_Ep0_In_Complete_Handler
  | Usbd_Event_Ep0_Out_Complete_Handler
  | Usbd_Cdc_Acm_Bulk_In
  | Usbd_Cdc_Acm_Bulk_Out

datatype event_callback = Usbd_Event_Handler

section \<open>The controller's log\<close>

text \<open>
  The calls of \<open>usb_dc.h\<close>, and what the controller reports: a setup packet, the end of a transfer
  with the number of bytes moved, a bus reset.
\<close>

datatype dc_item =
    Dc_Init
  | Dc_Deinit
  | Dc_Set_Address u8
  | Dc_Remote_Wakeup
  | Ep_Open usb_endpoint_descriptor
  | Ep_Close u8
  | Ep_Set_Stall u8
  | Ep_Clear_Stall u8
  | Start_Write u8 "u8 list"
  | Start_Read u8 ptr u32
  | Setup_Received
  | In_Done u8 u32
  | Out_Done u8 u32
  | Bus_Reset

type_synonym dc_log_t = "dc_item list"

section \<open>The state\<close>

record usbd_interface =
  class_interface_handler :: "request_handler option"
  class_endpoint_handler :: "request_handler option"
  vendor_handler :: "request_handler option"
  notify_handler :: "nat option"
  hid_report_descriptor :: ptr
  hid_report_descriptor_len :: u32
  intf_num :: u8

record usbd_tx_rx_msg =
  msg_ep :: u8
  ep_mult :: u8
  ep_mps :: u16
  msg_nbytes :: u32
  msg_cb :: "endpoint_callback option"

record usbd_endpoint =
  ep_addr :: u8
  ep_cb :: "endpoint_callback option"

record usb_state =
  setup_pkt :: usb_setup_packet
  ep0_data_buf :: ptr
  ep0_data_buf_residue :: u32
  ep0_data_buf_len :: u32
  zlp_flag :: bool
  descriptors :: "usb_descriptor option"
  req_data :: "u8 list"
  configuration :: u8
  device_address :: u8
  ep0_next_state :: u8
  self_powered :: bool
  remote_wakeup_support :: bool
  remote_wakeup_enabled :: bool
  is_suspend :: bool
  port_speed :: u8
  intf :: "usbd_interface option list"
  intf_altsetting :: "u8 list"
  intf_offset :: u8
  tx_msg :: "usbd_tx_rx_msg list"
  rx_msg :: "usbd_tx_rx_msg list"
  event_handler :: "event_callback option"
  reg_base :: u32
  read_buffer :: "u8 list"
  write_buffer :: "u8 list"
  ep_tx_busy_flag :: bool
  dtr_enable :: u8
  dc_log :: dc_log_t

type_synonym 'a usb = "(usb_state, 'a) cm"

text \<open>The controller and the notification handlers of other class drivers.\<close>

record usb_dc =
  ep_open_rc :: "dc_log_t \<Rightarrow> usb_endpoint_descriptor \<Rightarrow> int"
  ep_close_rc :: "dc_log_t \<Rightarrow> u8 \<Rightarrow> int"
  ep_stalled :: "dc_log_t \<Rightarrow> u8 \<Rightarrow> u8"
  dc_port_speed :: "dc_log_t \<Rightarrow> u8"
  dc_wakeup_rc :: "dc_log_t \<Rightarrow> int"
  dc_init_rc :: "dc_log_t \<Rightarrow> int"
  class_notify :: "nat \<Rightarrow> u8 \<Rightarrow> ptr \<Rightarrow> unit usb"

section \<open>Constants\<close>

abbreviation CONFIG_USBDEV_REQUEST_BUFFER_LEN :: nat where "CONFIG_USBDEV_REQUEST_BUFFER_LEN \<equiv> 512"
abbreviation CONFIG_USBDEV_EP_NUM :: nat where "CONFIG_USBDEV_EP_NUM \<equiv> 6"
abbreviation CONFIG_USBDEV_MAX_BUS :: u8 where "CONFIG_USBDEV_MAX_BUS \<equiv> 1"
abbreviation USB_CTRL_EP_MPS :: u32 where "USB_CTRL_EP_MPS \<equiv> 64"
abbreviation USB_CONTROL_IN_EP0 :: u8 where "USB_CONTROL_IN_EP0 \<equiv> 0x80"
abbreviation USB_CONTROL_OUT_EP0 :: u8 where "USB_CONTROL_OUT_EP0 \<equiv> 0x00"

abbreviation USBD_EP0_STATE_SETUP :: u8 where "USBD_EP0_STATE_SETUP \<equiv> 0"
abbreviation USBD_EP0_STATE_IN_DATA :: u8 where "USBD_EP0_STATE_IN_DATA \<equiv> 1"
abbreviation USBD_EP0_STATE_OUT_DATA :: u8 where "USBD_EP0_STATE_OUT_DATA \<equiv> 2"
abbreviation USBD_EP0_STATE_IN_STATUS :: u8 where "USBD_EP0_STATE_IN_STATUS \<equiv> 3"
abbreviation USBD_EP0_STATE_OUT_STATUS :: u8 where "USBD_EP0_STATE_OUT_STATUS \<equiv> 4"

abbreviation USBD_EVENT_RESET :: u8 where "USBD_EVENT_RESET \<equiv> 1"
abbreviation USBD_EVENT_SOF :: u8 where "USBD_EVENT_SOF \<equiv> 2"
abbreviation USBD_EVENT_CONNECTED :: u8 where "USBD_EVENT_CONNECTED \<equiv> 3"
abbreviation USBD_EVENT_DISCONNECTED :: u8 where "USBD_EVENT_DISCONNECTED \<equiv> 4"
abbreviation USBD_EVENT_SUSPEND :: u8 where "USBD_EVENT_SUSPEND \<equiv> 5"
abbreviation USBD_EVENT_RESUME :: u8 where "USBD_EVENT_RESUME \<equiv> 6"
abbreviation USBD_EVENT_CONFIGURED :: u8 where "USBD_EVENT_CONFIGURED \<equiv> 7"
abbreviation USBD_EVENT_SET_INTERFACE :: u8 where "USBD_EVENT_SET_INTERFACE \<equiv> 8"
abbreviation USBD_EVENT_SET_REMOTE_WAKEUP :: u8 where "USBD_EVENT_SET_REMOTE_WAKEUP \<equiv> 9"
abbreviation USBD_EVENT_CLR_REMOTE_WAKEUP :: u8 where "USBD_EVENT_CLR_REMOTE_WAKEUP \<equiv> 10"
abbreviation USBD_EVENT_INIT :: u8 where "USBD_EVENT_INIT \<equiv> 11"
abbreviation USBD_EVENT_DEINIT :: u8 where "USBD_EVENT_DEINIT \<equiv> 12"

abbreviation USB_REQUEST_DIR_MASK :: u8 where "USB_REQUEST_DIR_MASK \<equiv> 0x80"
abbreviation USB_REQUEST_DIR_OUT :: u8 where "USB_REQUEST_DIR_OUT \<equiv> 0"
abbreviation USB_REQUEST_DIR_IN :: u8 where "USB_REQUEST_DIR_IN \<equiv> 0x80"
abbreviation USB_REQUEST_TYPE_MASK :: u8 where "USB_REQUEST_TYPE_MASK \<equiv> 0x60"
abbreviation USB_REQUEST_STANDARD :: u8 where "USB_REQUEST_STANDARD \<equiv> 0"
abbreviation USB_REQUEST_CLASS :: u8 where "USB_REQUEST_CLASS \<equiv> 0x20"
abbreviation USB_REQUEST_VENDOR :: u8 where "USB_REQUEST_VENDOR \<equiv> 0x40"
abbreviation USB_REQUEST_RECIPIENT_MASK :: u8 where "USB_REQUEST_RECIPIENT_MASK \<equiv> 3"
abbreviation USB_REQUEST_RECIPIENT_DEVICE :: u8 where "USB_REQUEST_RECIPIENT_DEVICE \<equiv> 0"
abbreviation USB_REQUEST_RECIPIENT_INTERFACE :: u8 where "USB_REQUEST_RECIPIENT_INTERFACE \<equiv> 1"
abbreviation USB_REQUEST_RECIPIENT_ENDPOINT :: u8 where "USB_REQUEST_RECIPIENT_ENDPOINT \<equiv> 2"

abbreviation USB_REQUEST_GET_STATUS :: u8 where "USB_REQUEST_GET_STATUS \<equiv> 0"
abbreviation USB_REQUEST_CLEAR_FEATURE :: u8 where "USB_REQUEST_CLEAR_FEATURE \<equiv> 1"
abbreviation USB_REQUEST_SET_FEATURE :: u8 where "USB_REQUEST_SET_FEATURE \<equiv> 3"
abbreviation USB_REQUEST_SET_ADDRESS :: u8 where "USB_REQUEST_SET_ADDRESS \<equiv> 5"
abbreviation USB_REQUEST_GET_DESCRIPTOR :: u8 where "USB_REQUEST_GET_DESCRIPTOR \<equiv> 6"
abbreviation USB_REQUEST_GET_CONFIGURATION :: u8 where "USB_REQUEST_GET_CONFIGURATION \<equiv> 8"
abbreviation USB_REQUEST_SET_CONFIGURATION :: u8 where "USB_REQUEST_SET_CONFIGURATION \<equiv> 9"
abbreviation USB_REQUEST_GET_INTERFACE :: u8 where "USB_REQUEST_GET_INTERFACE \<equiv> 10"
abbreviation USB_REQUEST_SET_INTERFACE :: u8 where "USB_REQUEST_SET_INTERFACE \<equiv> 11"

abbreviation USB_DESCRIPTOR_TYPE_DEVICE :: u8 where "USB_DESCRIPTOR_TYPE_DEVICE \<equiv> 1"
abbreviation USB_DESCRIPTOR_TYPE_CONFIGURATION :: u8 where "USB_DESCRIPTOR_TYPE_CONFIGURATION \<equiv> 2"
abbreviation USB_DESCRIPTOR_TYPE_STRING :: u8 where "USB_DESCRIPTOR_TYPE_STRING \<equiv> 3"
abbreviation USB_DESCRIPTOR_TYPE_INTERFACE :: u8 where "USB_DESCRIPTOR_TYPE_INTERFACE \<equiv> 4"
abbreviation USB_DESCRIPTOR_TYPE_ENDPOINT :: u8 where "USB_DESCRIPTOR_TYPE_ENDPOINT \<equiv> 5"
abbreviation USB_DESCRIPTOR_TYPE_DEVICE_QUALIFIER :: u8
  where "USB_DESCRIPTOR_TYPE_DEVICE_QUALIFIER \<equiv> 6"
abbreviation USB_DESCRIPTOR_TYPE_OTHER_SPEED :: u8 where "USB_DESCRIPTOR_TYPE_OTHER_SPEED \<equiv> 7"
abbreviation USB_DESCRIPTOR_TYPE_BINARY_OBJECT_STORE :: u8
  where "USB_DESCRIPTOR_TYPE_BINARY_OBJECT_STORE \<equiv> 15"
abbreviation USB_STRING_LANGID_INDEX :: u8 where "USB_STRING_LANGID_INDEX \<equiv> 0"
abbreviation USB_OSDESC_STRING_DESC_INDEX :: u8 where "USB_OSDESC_STRING_DESC_INDEX \<equiv> 0xEE"

definition LO_BYTE :: "u16 \<Rightarrow> u8" where
  "LO_BYTE x = ucast (x AND 0x00FF)"

definition HI_BYTE :: "u16 \<Rightarrow> u8" where
  "HI_BYTE x = ucast (drop_bit 8 (x AND 0xFF00))"

definition USB_GET_MAXPACKETSIZE :: "u16 \<Rightarrow> u16" where
  "USB_GET_MAXPACKETSIZE x = x AND 0x7ff"

definition USB_GET_MULT :: "u16 \<Rightarrow> u8" where
  "USB_GET_MULT x = ucast (drop_bit 11 (x AND 0x1800))"

text \<open>\<open>lo | (hi << 8)\<close> of two bytes.\<close>

definition le16 :: "u8 \<Rightarrow> u8 \<Rightarrow> u32" where
  "le16 lo hi = ucast lo OR push_bit 8 (ucast hi)"

section \<open>Memory\<close>

text \<open>The bytes of the array a pointer points into, and the offset.\<close>

fun ptr_array :: "ptr \<Rightarrow> usb_state \<Rightarrow> (u8 list \<times> nat) option" where
  "ptr_array Null_Ptr s = None"
| "ptr_array (Req_Data i) s = Some (req_data s, i)"
| "ptr_array (Rom xs i) s = Some (xs, i)"
| "ptr_array (Read_Buffer i) s = Some (read_buffer s, i)"
| "ptr_array (Write_Buffer i) s = Some (write_buffer s, i)"

text \<open>Reading \<open>n\<close> bytes at a pointer (of which none is touched when \<open>n\<close> is 0).\<close>

definition load_bytes :: "ptr \<Rightarrow> nat \<Rightarrow> u8 list usb" where
  "load_bytes p n = (\<lambda>s.
     if n = 0 then Some (Inr ([], s))
     else case ptr_array p s of
         None \<Rightarrow> Some (Inl Null_Dereference)
       | Some (xs, i) \<Rightarrow>
           if i + n \<le> length xs then Some (Inr (take n (drop i xs), s)) else Some (Inl Out_Of_Bounds))"

text \<open>Writing bytes at a pointer. Constant arrays cannot be written.\<close>

definition splice_at :: "'a list \<Rightarrow> nat \<Rightarrow> 'a list \<Rightarrow> 'a list" where
  "splice_at xs i ys = take i xs @ ys @ drop (i + length ys) xs"

definition store_bytes :: "ptr \<Rightarrow> u8 list \<Rightarrow> unit usb" where
  "store_bytes p ys = (\<lambda>s.
     if ys = [] then Some (Inr ((), s))
     else case p of
         Null_Ptr \<Rightarrow> Some (Inl Null_Dereference)
       | Rom xs i \<Rightarrow> Some (Inl Out_Of_Bounds)
       | Req_Data i \<Rightarrow>
           if i + length ys \<le> length (req_data s)
           then Some (Inr ((), s\<lparr>req_data := splice_at (req_data s) i ys\<rparr>)) else Some (Inl Out_Of_Bounds)
       | Read_Buffer i \<Rightarrow>
           if i + length ys \<le> length (read_buffer s)
           then Some (Inr ((), s\<lparr>read_buffer := splice_at (read_buffer s) i ys\<rparr>)) else Some (Inl Out_Of_Bounds)
       | Write_Buffer i \<Rightarrow>
           if i + length ys \<le> length (write_buffer s)
           then Some (Inr ((), s\<lparr>write_buffer := splice_at (write_buffer s) i ys\<rparr>)) else Some (Inl Out_Of_Bounds))"

text \<open>\<open>p[i] = x\<close>, the copy routine, and reading a pointer that must not be \<open>NULL\<close>.\<close>

definition store_at :: "ptr \<Rightarrow> nat \<Rightarrow> u8 \<Rightarrow> unit usb" where
  "store_at p i x = store_bytes (ptr_add p i) [x]"

definition copy_bytes :: "ptr \<Rightarrow> ptr \<Rightarrow> nat \<Rightarrow> unit usb" where
  "copy_bytes d p n = bindM (load_bytes p n) (store_bytes d)"

definition deref :: "'a option \<Rightarrow> 'a usb" where
  "deref p = (case p of None \<Rightarrow> faultM Null_Dereference | Some x \<Rightarrow> ret x)"

section \<open>Calls into the controller\<close>

definition logM :: "dc_item \<Rightarrow> unit usb" where
  "logM c = modM (\<lambda>s. s\<lparr>dc_log := c # dc_log s\<rparr>)"

definition usb_dc_init :: "usb_dc \<Rightarrow> int usb" where
  "usb_dc_init dc = bindM (logM Dc_Init) (\<lambda>_. getM (\<lambda>s. dc_init_rc dc (dc_log s)))"

definition usb_dc_deinit :: "unit usb" where
  "usb_dc_deinit = logM Dc_Deinit"

definition usbd_set_address :: "u8 \<Rightarrow> unit usb" where
  "usbd_set_address addr = logM (Dc_Set_Address addr)"

definition usbd_set_remote_wakeup :: "usb_dc \<Rightarrow> int usb" where
  "usbd_set_remote_wakeup dc =
     bindM (logM Dc_Remote_Wakeup) (\<lambda>_. getM (\<lambda>s. dc_wakeup_rc dc (dc_log s)))"

definition usbd_get_port_speed :: "usb_dc \<Rightarrow> u8 usb" where
  "usbd_get_port_speed dc = getM (\<lambda>s. dc_port_speed dc (dc_log s))"

text \<open>
  The driver's assertions are compiled in (\<open>usb_log.h\<close>): one that fails is an endless loop. An endpoint
  must exist, and the packets of an IN endpoint must fit in its FIFO, which \<open>usb_config.h\<close> gives 16 words.
\<close>

definition usb_assert :: "bool \<Rightarrow> ('s, unit) cm" where
  "usb_assert b = (if b then ret () else hang)"

definition ep_fits :: "usb_endpoint_descriptor \<Rightarrow> bool" where
  "ep_fits ep \<longleftrightarrow> bEndpointAddress ep AND 0x7f < 6 \<and>
     (bEndpointAddress ep AND 0x80 \<noteq> 0 \<longrightarrow> USB_GET_MAXPACKETSIZE (wMaxPacketSize ep) \<le> 64)"

definition usbd_ep_open :: "usb_dc \<Rightarrow> usb_endpoint_descriptor \<Rightarrow> int usb" where
  "usbd_ep_open dc ep = bindM (usb_assert (ep_fits ep)) (\<lambda>_.
     bindM (logM (Ep_Open ep)) (\<lambda>_. getM (\<lambda>s. ep_open_rc dc (dc_log s) ep)))"

definition usbd_ep_close :: "usb_dc \<Rightarrow> u8 \<Rightarrow> int usb" where
  "usbd_ep_close dc ep = bindM (logM (Ep_Close ep)) (\<lambda>_. getM (\<lambda>s. ep_close_rc dc (dc_log s) ep))"

definition usbd_ep_set_stall :: "u8 \<Rightarrow> unit usb" where
  "usbd_ep_set_stall ep = logM (Ep_Set_Stall ep)"

definition usbd_ep_clear_stall :: "u8 \<Rightarrow> unit usb" where
  "usbd_ep_clear_stall ep = logM (Ep_Clear_Stall ep)"

definition usbd_ep_is_stalled :: "usb_dc \<Rightarrow> u8 \<Rightarrow> u8 usb" where
  "usbd_ep_is_stalled dc ep = getM (\<lambda>s. ep_stalled dc (dc_log s) ep)"

text \<open>
  Arming a transfer. The bytes to send are those of the buffer at the call; the buffer of a read is
  written when the transfer ends. The driver asserts that the buffer lies at a multiple of four
  (\<open>usb_dc_dwc2.c\<close>); the buffers of the stack are aligned, and a constant array of bytes need not be. A
  transfer of some bytes with a null pointer is refused.
\<close>

fun aligned :: "ptr \<Rightarrow> bool" where
  "aligned Null_Ptr = True"
| "aligned (Req_Data i) = (i mod 4 = 0)"
| "aligned (Rom xs i) = False"
| "aligned (Read_Buffer i) = (i mod 4 = 0)"
| "aligned (Write_Buffer i) = (i mod 4 = 0)"

definition usbd_ep_start_write :: "u8 \<Rightarrow> ptr \<Rightarrow> u32 \<Rightarrow> unit usb" where
  "usbd_ep_start_write ep data data_len =
     bindM (usb_assert (aligned data)) (\<lambda>_.
     if data = Null_Ptr \<and> data_len \<noteq> 0 then ret ()
     else bindM (load_bytes data (unat data_len)) (\<lambda>bs. logM (Start_Write ep bs)))"

definition usbd_ep_start_read :: "u8 \<Rightarrow> ptr \<Rightarrow> u32 \<Rightarrow> unit usb" where
  "usbd_ep_start_read ep data data_len =
     bindM (usb_assert (aligned data)) (\<lambda>_.
     if data = Null_Ptr \<and> data_len \<noteq> 0 then ret ()
     else logM (Start_Read ep data data_len))"

section \<open>Registration and getters\<close>

definition empty_msg :: usbd_tx_rx_msg where
  "empty_msg = \<lparr>msg_ep = 0, ep_mult = 0, ep_mps = 0, msg_nbytes = 0, msg_cb = None\<rparr>"

definition empty_setup :: usb_setup_packet where
  "empty_setup = \<lparr>bmRequestType = 0, bRequest = 0, wValue = 0, wIndex = 0, wLength = 0\<rparr>"

text \<open>\<open>memset(&g_usbd_core[busid], 0, sizeof(struct usbd_core_priv))\<close>: the other globals stay.\<close>

definition clear_core :: "usb_state \<Rightarrow> usb_state" where
  "clear_core s = s\<lparr>setup_pkt := empty_setup, ep0_data_buf := Null_Ptr, ep0_data_buf_residue := 0,
     ep0_data_buf_len := 0, zlp_flag := False, descriptors := None, req_data := replicate 512 0,
     configuration := 0, device_address := 0, ep0_next_state := 0, self_powered := False,
     remote_wakeup_support := False, remote_wakeup_enabled := False, is_suspend := False,
     port_speed := 0, intf := replicate 16 None, intf_altsetting := replicate 16 0, intf_offset := 0,
     tx_msg := replicate 6 empty_msg, rx_msg := replicate 6 empty_msg, event_handler := None\<rparr>"

definition usbd_desc_register :: "usb_descriptor \<Rightarrow> unit usb" where
  "usbd_desc_register desc = modM (\<lambda>s0. let s = clear_core s0 in
     s\<lparr>descriptors := Some desc, intf_offset := 0,
       tx_msg := (tx_msg s)[0 := (tx_msg s ! 0)
         \<lparr>msg_ep := 0x80, msg_cb := Some Usbd_Event_Ep0_In_Complete_Handler\<rparr>],
       rx_msg := (rx_msg s)[0 := (rx_msg s ! 0)
         \<lparr>msg_ep := 0x00, msg_cb := Some Usbd_Event_Ep0_Out_Complete_Handler\<rparr>]\<rparr>)"

definition usbd_add_interface :: "usbd_interface \<Rightarrow> unit usb" where
  "usbd_add_interface i =
     bindM (getM intf_offset) (\<lambda>k.
     bindM (getM intf) (\<lambda>xs.
     bindM (store_elem xs (unat k) (Some (i\<lparr>intf_num := k\<rparr>))) (\<lambda>ys.
     modM (\<lambda>s. s\<lparr>intf := ys, intf_offset := k + 1\<rparr>))))"

text \<open>\<open>tx_msg[ep & 0x7f]\<close> or \<open>rx_msg[ep & 0x7f]\<close>, by the direction bit of the address.\<close>

definition get_msg :: "u8 \<Rightarrow> usbd_tx_rx_msg usb" where
  "get_msg ep =
     bindM (getM (\<lambda>s. if ep AND 0x80 \<noteq> 0 then tx_msg s else rx_msg s)) (\<lambda>xs.
     load_elem xs (unat (ep AND 0x7f)))"

definition set_msg :: "u8 \<Rightarrow> (usbd_tx_rx_msg \<Rightarrow> usbd_tx_rx_msg) \<Rightarrow> unit usb" where
  "set_msg ep f =
     bindM (get_msg ep) (\<lambda>m.
     modM (\<lambda>s. if ep AND 0x80 \<noteq> 0 then s\<lparr>tx_msg := (tx_msg s)[unat (ep AND 0x7f) := f m]\<rparr>
               else s\<lparr>rx_msg := (rx_msg s)[unat (ep AND 0x7f) := f m]\<rparr>))"

definition usbd_add_endpoint :: "usbd_endpoint \<Rightarrow> unit usb" where
  "usbd_add_endpoint e = set_msg (ep_addr e) (\<lambda>m. m\<lparr>msg_ep := ep_addr e, msg_cb := ep_cb e\<rparr>)"

definition usbd_get_ep_mps :: "u8 \<Rightarrow> u16 usb" where
  "usbd_get_ep_mps ep = bindM (get_msg ep) (\<lambda>m. ret (ep_mps m))"

definition usbd_get_ep_mult :: "u8 \<Rightarrow> u8 usb" where
  "usbd_get_ep_mult ep = bindM (get_msg ep) (\<lambda>m. ret (ep_mult m))"

definition usb_device_is_configured :: "bool usb" where
  "usb_device_is_configured = getM (\<lambda>s. configuration s \<noteq> 0)"

definition usb_device_is_suspend :: "bool usb" where
  "usb_device_is_suspend = getM is_suspend"

definition usbd_get_ep0_next_state :: "u8 usb" where
  "usbd_get_ep0_next_state = getM ep0_next_state"

section \<open>Rules for the memory and the log\<close>

lemma length_splice_at [simp]: "i + length ys \<le> length xs \<Longrightarrow> length (splice_at xs i ys) = length xs"
  by (simp add: splice_at_def)

lemma splice_at_Nil [simp]: "splice_at xs i [] = xs"
  by (simp add: splice_at_def)

lemma splice_at_0: "splice_at xs 0 ys = ys @ drop (length ys) xs"
  by (simp add: splice_at_def)

lemma take_drop_splice:
  "i + length ys \<le> length xs \<Longrightarrow> take (length ys) (drop i (splice_at xs i ys)) = ys"
  by (simp add: splice_at_def)

text \<open>\<open>readable p n s\<close>: the \<open>n\<close> bytes at \<open>p\<close> may be read.\<close>

definition readable :: "ptr \<Rightarrow> nat \<Rightarrow> usb_state \<Rightarrow> bool" where
  "readable p n s \<longleftrightarrow>
     n = 0 \<or> (case ptr_array p s of None \<Rightarrow> False | Some (xs, i) \<Rightarrow> i + n \<le> length xs)"

definition bytes_at :: "ptr \<Rightarrow> nat \<Rightarrow> usb_state \<Rightarrow> u8 list" where
  "bytes_at p n s = (case ptr_array p s of None \<Rightarrow> [] | Some (xs, i) \<Rightarrow> take n (drop i xs))"

lemma length_bytes_at [simp]: "readable p n s \<Longrightarrow> length (bytes_at p n s) = n"
  by (auto simp: readable_def bytes_at_def split: option.splits)

lemma wp_load_bytes [wp_simps]:
  "wp (load_bytes p n) Q = (\<lambda>s. readable p n s \<and> Q (bytes_at p n s) s)"
  by (rule ext)
    (auto simp: wp_def load_bytes_def readable_def bytes_at_def split: option.splits)

text \<open>\<open>store_ok p ys s\<close>: the bytes may be written there; \<open>stored p ys s\<close> is the state after.\<close>

definition store_ok :: "ptr \<Rightarrow> nat \<Rightarrow> usb_state \<Rightarrow> bool" where
  "store_ok p n s \<longleftrightarrow> n = 0 \<or> (case p of
       Null_Ptr \<Rightarrow> False | Rom xs i \<Rightarrow> False
     | Req_Data i \<Rightarrow> i + n \<le> length (req_data s)
     | Read_Buffer i \<Rightarrow> i + n \<le> length (read_buffer s)
     | Write_Buffer i \<Rightarrow> i + n \<le> length (write_buffer s))"

fun stored :: "ptr \<Rightarrow> u8 list \<Rightarrow> usb_state \<Rightarrow> usb_state" where
  "stored (Req_Data i) ys s = s\<lparr>req_data := splice_at (req_data s) i ys\<rparr>"
| "stored (Read_Buffer i) ys s = s\<lparr>read_buffer := splice_at (read_buffer s) i ys\<rparr>"
| "stored (Write_Buffer i) ys s = s\<lparr>write_buffer := splice_at (write_buffer s) i ys\<rparr>"
| "stored _ ys s = s"

lemma wp_store_bytes [wp_simps]:
  "wp (store_bytes p ys) Q = (\<lambda>s. store_ok p (length ys) s \<and> Q () (stored p ys s))"
  by (rule ext, cases p) (auto simp: wp_def store_bytes_def store_ok_def)

lemma wp_deref [wp_simps]: "wp (deref p) Q = (\<lambda>s. case p of None \<Rightarrow> False | Some x \<Rightarrow> Q x s)"
  by (cases p) (auto simp: deref_def wp_simps)

lemma wp_logM [wp_simps]: "wp (logM c) Q = (\<lambda>s. Q () (s\<lparr>dc_log := c # dc_log s\<rparr>))"
  by (simp add: logM_def wp_simps)

lemma wp_usb_assert [wp_simps]: "wp (usb_assert b) Q = (\<lambda>s. b \<and> Q () s)"
  by (simp add: usb_assert_def wp_simps fun_eq_iff)

lemma usb_assert_run [run_simps]: "usb_assert b s = (if b then Some (Inr ((), s)) else None)"
  by (simp add: usb_assert_def run_simps)

lemma wp_start_write [wp_simps]:
  "wp (usbd_ep_start_write ep p n) Q = (\<lambda>s. aligned p \<and>
     (if p = Null_Ptr \<and> n \<noteq> 0 then Q () s
      else readable p (unat n) s \<and>
        Q () (s\<lparr>dc_log := Start_Write ep (bytes_at p (unat n) s) # dc_log s\<rparr>)))"
  by (auto simp: usbd_ep_start_write_def wp_simps fun_eq_iff)

lemma wp_start_read [wp_simps]:
  "wp (usbd_ep_start_read ep p n) Q = (\<lambda>s. aligned p \<and>
     (if p = Null_Ptr \<and> n \<noteq> 0 then Q () s else Q () (s\<lparr>dc_log := Start_Read ep p n # dc_log s\<rparr>)))"
  by (auto simp: usbd_ep_start_read_def wp_simps fun_eq_iff)

lemmas usb_dc_defs = usb_dc_init_def usb_dc_deinit_def usbd_set_address_def
  usbd_set_remote_wakeup_def usbd_get_port_speed_def usbd_ep_open_def usbd_ep_close_def
  usbd_ep_set_stall_def usbd_ep_clear_stall_def usbd_ep_is_stalled_def

lemma wp_get_msg [wp_simps]:
  "wp (get_msg ep) Q = (\<lambda>s.
     let xs = (if ep AND 0x80 \<noteq> 0 then tx_msg s else rx_msg s); i = unat (ep AND 0x7f) in
     i < length xs \<and> Q (xs ! i) s)"
  by (simp add: get_msg_def wp_simps Let_def)

lemma wp_set_msg [wp_simps]:
  "wp (set_msg ep f) Q = (\<lambda>s.
     let i = unat (ep AND 0x7f) in
     if ep AND 0x80 \<noteq> 0 then i < length (tx_msg s) \<and> Q () (s\<lparr>tx_msg := (tx_msg s)[i := f (tx_msg s ! i)]\<rparr>)
     else i < length (rx_msg s) \<and> Q () (s\<lparr>rx_msg := (rx_msg s)[i := f (rx_msg s ! i)]\<rparr>))"
  by (auto simp: set_msg_def wp_simps Let_def fun_eq_iff)

end
