(* ===== verification/Usb_Cdc.thy ===== *)
theory Usb_Cdc
  imports Usb_Types
begin

text \<open>
  The communications class driver \<open>class/cdc/usbd_cdc_acm.c\<close> and the callbacks and descriptors of
  the serial port demo \<open>demo/cdc_acm_template.c\<close>, which the firmware links as it is. A request
  handler takes the setup packet and the data pointer and returns the C return value with the data
  pointer it leaves; its \<open>*len\<close> is the field \<open>ep0_data_buf_len\<close> of the state, as in both of its calls.
\<close>

section \<open>The class driver\<close>

record cdc_line_coding =
  dwDTERate :: u32
  bCharFormat :: u8
  bParityType :: u8
  bDataBits :: u8

text \<open>The packed structure as the seven bytes it occupies.\<close>

definition line_coding_bytes :: "cdc_line_coding \<Rightarrow> u8 list" where
  "line_coding_bytes c =
     [ucast (dwDTERate c), ucast (drop_bit 8 (dwDTERate c)), ucast (drop_bit 16 (dwDTERate c)),
      ucast (drop_bit 24 (dwDTERate c)), bCharFormat c, bParityType c, bDataBits c]"

abbreviation sizeof_cdc_line_coding :: nat where "sizeof_cdc_line_coding \<equiv> 7"

abbreviation CDC_REQUEST_SET_LINE_CODING :: u8 where "CDC_REQUEST_SET_LINE_CODING \<equiv> 0x20"
abbreviation CDC_REQUEST_GET_LINE_CODING :: u8 where "CDC_REQUEST_GET_LINE_CODING \<equiv> 0x21"
abbreviation CDC_REQUEST_SET_CONTROL_LINE_STATE :: u8
  where "CDC_REQUEST_SET_CONTROL_LINE_STATE \<equiv> 0x22"
abbreviation CDC_REQUEST_SEND_BREAK :: u8 where "CDC_REQUEST_SEND_BREAK \<equiv> 0x23"

text \<open>The weak defaults; the demo replaces only \<open>usbd_cdc_acm_set_dtr\<close>.\<close>

definition usbd_cdc_acm_set_line_coding :: "u8 \<Rightarrow> u8 list \<Rightarrow> unit usb" where
  "usbd_cdc_acm_set_line_coding i line_coding = ret ()"

definition usbd_cdc_acm_get_line_coding :: "u8 \<Rightarrow> cdc_line_coding usb" where
  "usbd_cdc_acm_get_line_coding i =
     ret \<lparr>dwDTERate = 2000000, bCharFormat = 0, bParityType = 0, bDataBits = 8\<rparr>"

definition usbd_cdc_acm_set_dtr :: "u8 \<Rightarrow> bool \<Rightarrow> unit usb" where
  "usbd_cdc_acm_set_dtr i dtr =
     (if dtr then modM (\<lambda>s. s\<lparr>dtr_enable := 1\<rparr>) else modM (\<lambda>s. s\<lparr>dtr_enable := 0\<rparr>))"

definition usbd_cdc_acm_set_rts :: "u8 \<Rightarrow> bool \<Rightarrow> unit usb" where
  "usbd_cdc_acm_set_rts i rts = ret ()"

definition usbd_cdc_acm_send_break :: "u8 \<Rightarrow> unit usb" where
  "usbd_cdc_acm_send_break i = ret ()"

text \<open>
  \<open>memcpy(&line_coding, *data, setup->wLength)\<close>: the destination is a local of seven bytes, and
  \<open>wLength\<close> is the host's.
\<close>

definition memcpy_line_coding :: "ptr \<Rightarrow> u16 \<Rightarrow> u8 list usb" where
  "memcpy_line_coding data n =
     bindM (load_bytes data (unat n)) (\<lambda>bs.
     if sizeof_cdc_line_coding < unat n then faultM Out_Of_Bounds else ret bs)"

definition cdc_acm_class_interface_request_handler ::
    "usb_setup_packet \<Rightarrow> ptr \<Rightarrow> (int \<times> ptr) usb" where
  "cdc_acm_class_interface_request_handler pkt data =
     (let intf_num = LO_BYTE (wIndex pkt) in
      if bRequest pkt = CDC_REQUEST_SET_LINE_CODING then
        bindM (memcpy_line_coding data (wLength pkt)) (\<lambda>line_coding.
        bindM (usbd_cdc_acm_set_line_coding intf_num line_coding) (\<lambda>_.
        ret (0, data)))
      else if bRequest pkt = CDC_REQUEST_SET_CONTROL_LINE_STATE then
        bindM (usbd_cdc_acm_set_dtr intf_num (wValue pkt AND 0x0001 \<noteq> 0)) (\<lambda>_.
        bindM (usbd_cdc_acm_set_rts intf_num (wValue pkt AND 0x0002 \<noteq> 0)) (\<lambda>_.
        ret (0, data)))
      else if bRequest pkt = CDC_REQUEST_GET_LINE_CODING then
        bindM (usbd_cdc_acm_get_line_coding intf_num) (\<lambda>line_coding.
        bindM (store_bytes data (line_coding_bytes line_coding)) (\<lambda>_.
        bindM (modM (\<lambda>s. s\<lparr>ep0_data_buf_len := 7\<rparr>)) (\<lambda>_.
        ret (0, data))))
      else if bRequest pkt = CDC_REQUEST_SEND_BREAK then
        bindM (usbd_cdc_acm_send_break intf_num) (\<lambda>_. ret (0, data))
      else ret (-1, data))"

definition usbd_cdc_acm_init_intf :: "usbd_interface \<Rightarrow> usbd_interface" where
  "usbd_cdc_acm_init_intf i =
     i\<lparr>class_interface_handler := Some Cdc_Acm_Class_Interface_Request_Handler,
       class_endpoint_handler := None, vendor_handler := None, notify_handler := None\<rparr>"

section \<open>Descriptors\<close>

definition WBVAL :: "u16 \<Rightarrow> u8 list" where
  "WBVAL x = [ucast (x AND 0xFF), ucast (drop_bit 8 x AND 0xFF)]"

definition USB_DEVICE_DESCRIPTOR_INIT ::
    "u16 \<Rightarrow> u8 \<Rightarrow> u8 \<Rightarrow> u8 \<Rightarrow> u16 \<Rightarrow> u16 \<Rightarrow> u16 \<Rightarrow> u8 \<Rightarrow> u8 list" where
  "USB_DEVICE_DESCRIPTOR_INIT bcdUSB cls sub prot vid pid bcdDevice nconf =
     [0x12, USB_DESCRIPTOR_TYPE_DEVICE] @ WBVAL bcdUSB @ [cls, sub, prot, 0x40] @
     WBVAL vid @ WBVAL pid @ WBVAL bcdDevice @ [0x01, 0x02, 0x03, nconf]"

definition USB_CONFIG_DESCRIPTOR_INIT :: "u16 \<Rightarrow> u8 \<Rightarrow> u8 \<Rightarrow> u8 \<Rightarrow> u8 \<Rightarrow> u8 list" where
  "USB_CONFIG_DESCRIPTOR_INIT wTotal nintf cval attr mA =
     [0x09, USB_DESCRIPTOR_TYPE_CONFIGURATION] @ WBVAL wTotal @ [nintf, cval, 0x00, attr, mA div 2]"

definition CDC_ACM_DESCRIPTOR_INIT :: "u8 \<Rightarrow> u8 \<Rightarrow> u8 \<Rightarrow> u8 \<Rightarrow> u16 \<Rightarrow> u8 \<Rightarrow> u8 list list" where
  "CDC_ACM_DESCRIPTOR_INIT first int_ep out_ep in_ep mps str_idx =
     [[0x08, 0x0B, first, 0x02, 0x02, 0x02, 0x00, 0x00],
      [0x09, USB_DESCRIPTOR_TYPE_INTERFACE, first, 0x00, 0x01, 0x02, 0x02, 0x00, str_idx],
      [0x05, 0x24, 0x00] @ WBVAL 0x0110,
      [0x05, 0x24, 0x01, 0x00, first + 1],
      [0x04, 0x24, 0x02, 0x02],
      [0x05, 0x24, 0x06, first, first + 1],
      [0x07, USB_DESCRIPTOR_TYPE_ENDPOINT, int_ep, 0x03, 0x08, 0x00, 0x0a],
      [0x09, USB_DESCRIPTOR_TYPE_INTERFACE, first + 1, 0x00, 0x02, 0x0A, 0x00, 0x00, 0x00],
      [0x07, USB_DESCRIPTOR_TYPE_ENDPOINT, out_ep, 0x02] @ WBVAL mps @ [0x00],
      [0x07, USB_DESCRIPTOR_TYPE_ENDPOINT, in_ep, 0x02] @ WBVAL mps @ [0x00]]"

abbreviation CDC_IN_EP :: u8 where "CDC_IN_EP \<equiv> 0x81"
abbreviation CDC_OUT_EP :: u8 where "CDC_OUT_EP \<equiv> 0x02"
abbreviation CDC_INT_EP :: u8 where "CDC_INT_EP \<equiv> 0x83"
abbreviation CDC_MAX_MPS :: nat where "CDC_MAX_MPS \<equiv> 64"
abbreviation USB_CONFIG_SIZE :: u16 where "USB_CONFIG_SIZE \<equiv> 9 + 66"

definition device_descriptor :: "u8 list" where
  "device_descriptor = USB_DEVICE_DESCRIPTOR_INIT 0x0200 0xEF 0x02 0x01 0xFFFF 0xFFFF 0x0100 0x01"

text \<open>The configuration, as the list of its descriptors; the array is their concatenation.\<close>

definition config_descriptors :: "u8 list list" where
  "config_descriptors = USB_CONFIG_DESCRIPTOR_INIT USB_CONFIG_SIZE 0x02 0x01 0x80 100 #
     CDC_ACM_DESCRIPTOR_INIT 0x00 CDC_INT_EP CDC_OUT_EP CDC_IN_EP 64 0x02"

definition config_descriptor :: "u8 list" where
  "config_descriptor = concat config_descriptors"

definition device_quality_descriptor :: "u8 list" where
  "device_quality_descriptor = [0x0a, 0x06, 0x00, 0x02, 0x00, 0x00, 0x00, 0x40, 0x00, 0x00]"

definition c_string :: "string \<Rightarrow> u8 list" where
  "c_string cs = map (\<lambda>c. of_nat (of_char c)) cs @ [0]"

definition string_descriptors :: "u8 list list" where
  "string_descriptors =
     [[0x09, 0x04], c_string ''CherryUSB'', c_string ''CherryUSB CDC DEMO'', c_string ''2022123456'']"

definition device_descriptor_callback_cdc :: "u8 \<Rightarrow> u8 list option" where
  "device_descriptor_callback_cdc speed = Some device_descriptor"

definition config_descriptor_callback_cdc :: "u8 \<Rightarrow> u8 list option" where
  "config_descriptor_callback_cdc speed = Some config_descriptor"

definition device_quality_descriptor_callback_cdc :: "u8 \<Rightarrow> u8 list option" where
  "device_quality_descriptor_callback_cdc speed = Some device_quality_descriptor"

definition string_descriptor_callback_cdc :: "u8 \<Rightarrow> u8 \<Rightarrow> u8 list option" where
  "string_descriptor_callback_cdc speed index =
     (if index > 3 then None else Some (string_descriptors ! unat index))"

definition cdc_descriptor :: usb_descriptor where
  "cdc_descriptor =
     \<lparr>device_descriptor_callback = Some device_descriptor_callback_cdc,
      config_descriptor_callback = Some config_descriptor_callback_cdc,
      device_quality_descriptor_callback = Some device_quality_descriptor_callback_cdc,
      other_speed_descriptor_callback = None,
      string_descriptor_callback = Some string_descriptor_callback_cdc,
      msosv1_descriptor = None, msosv2_descriptor = None,
      webusb_url_descriptor = None, bos_descriptor = None\<rparr>"

section \<open>The demo's callbacks\<close>

definition usbd_event_handler :: "u8 \<Rightarrow> unit usb" where
  "usbd_event_handler event =
     (if event = USBD_EVENT_CONFIGURED then
        bindM (modM (\<lambda>s. s\<lparr>ep_tx_busy_flag := False\<rparr>)) (\<lambda>_.
        usbd_ep_start_read CDC_OUT_EP (Read_Buffer 0) (of_nat CDC_MAX_MPS))
      else ret ())"

definition usbd_cdc_acm_bulk_out :: "u8 \<Rightarrow> u32 \<Rightarrow> unit usb" where
  "usbd_cdc_acm_bulk_out ep nbytes =
     usbd_ep_start_read CDC_OUT_EP (Read_Buffer 0) (of_nat CDC_MAX_MPS)"

definition usbd_cdc_acm_bulk_in :: "u8 \<Rightarrow> u32 \<Rightarrow> unit usb" where
  "usbd_cdc_acm_bulk_in ep nbytes =
     bindM (usbd_get_ep_mps ep) (\<lambda>mps.
     if mps = 0 then faultM Division_By_Zero
     else if nbytes mod ucast mps = 0 \<and> nbytes \<noteq> 0 then usbd_ep_start_write CDC_IN_EP Null_Ptr 0
     else modM (\<lambda>s. s\<lparr>ep_tx_busy_flag := False\<rparr>))"

definition cdc_out_ep :: usbd_endpoint where
  "cdc_out_ep = \<lparr>ep_addr = CDC_OUT_EP, ep_cb = Some Usbd_Cdc_Acm_Bulk_Out\<rparr>"

definition cdc_in_ep :: usbd_endpoint where
  "cdc_in_ep = \<lparr>ep_addr = CDC_IN_EP, ep_cb = Some Usbd_Cdc_Acm_Bulk_In\<rparr>"

text \<open>
  The demo's transmission. While it waits for the flag the interrupts run: \<open>isr\<close> is what happens
  during one turn of the loop.
\<close>

definition cdc_acm_data_send_with_dtr_test :: "unit usb \<Rightarrow> unit usb" where
  "cdc_acm_data_send_with_dtr_test isr =
     bindM (getM dtr_enable) (\<lambda>d.
     whenM (d \<noteq> 0)
       (bindM (modM (\<lambda>s. s\<lparr>ep_tx_busy_flag := True\<rparr>)) (\<lambda>_.
        bindM (usbd_ep_start_write CDC_IN_EP (Write_Buffer 0) (of_nat (CDC_MAX_MPS - 1))) (\<lambda>_.
        whileM (\<lambda>_. getM ep_tx_busy_flag) (\<lambda>_. isr) ()))))"

end
