(* ===== verification/Usb_Core.thy ===== *)
theory Usb_Core
  imports Usb_Cdc
begin

text \<open>
  The device stack \<open>core/usbd_core.c\<close>: parsing of the configuration descriptor, the standard, class
  and vendor requests, the control transfer state machine of endpoint 0 and the event handlers the
  controller's interrupt routine calls. The names of the definitions are those of the source.
\<close>

section \<open>Calls through function pointers\<close>

fun call_request_handler ::
    "request_handler \<Rightarrow> usb_setup_packet \<Rightarrow> ptr \<Rightarrow> (int \<times> ptr) usb" where
  "call_request_handler Cdc_Acm_Class_Interface_Request_Handler =
     cdc_acm_class_interface_request_handler"

definition call_event_handler :: "u8 \<Rightarrow> unit usb" where
  "call_event_handler event =
     bindM (getM event_handler) (\<lambda>p.
     bindM (deref p) (\<lambda>h. case h of Usbd_Event_Handler \<Rightarrow> usbd_event_handler event))"

definition get_descriptors :: "usb_descriptor usb" where
  "get_descriptors = bindM (getM descriptors) deref"

text \<open>
  \<open>for (uint8_t i = 0; i < intf_offset; i++)\<close> over the registered interfaces that are not \<open>NULL\<close>;
  a result other than \<open>None\<close> is an early return.
\<close>

definition each_intf :: "(usbd_interface \<Rightarrow> 'r option usb) \<Rightarrow> 'r option usb" where
  "each_intf body =
     bindM (whileM (\<lambda>(i, r). getM (\<lambda>s. r = None \<and> i < intf_offset s))
       (\<lambda>(i, r). bindM (getM intf) (\<lambda>xs. bindM (load_elem xs (unat i)) (\<lambda>p.
          case p of None \<Rightarrow> ret (i + 1, None)
                  | Some x \<Rightarrow> bindM (body x) (\<lambda>r'. ret (i + 1, r')))))
       (0 :: u8, None))
     (\<lambda>(i, r). ret r)"

definition usbd_class_event_notify_handler :: "usb_dc \<Rightarrow> u8 \<Rightarrow> ptr \<Rightarrow> unit usb" where
  "usbd_class_event_notify_handler dc event arg =
     bindM (each_intf (\<lambda>x. bindM
        (case notify_handler x of
           None \<Rightarrow> ret ()
         | Some h \<Rightarrow>
             if arg \<noteq> Null_Ptr then
               bindM (load_bytes (ptr_add arg 2) 1) (\<lambda>b.
               whenM (hd b = intf_num x) (class_notify dc h event arg))
             else class_notify dc h event arg)
        (\<lambda>_. ret (None :: unit option))))
     (\<lambda>_. ret ())"

section \<open>Walking the configuration descriptor\<close>

text \<open>
  The local variables of the three loops over the descriptors: the position of \<open>p\<close>, the current
  alternate setting, configuration and interface, the result, the interface descriptor found, the
  total length and how much of it is done, and whether the loop was left.
\<close>

record walk =
  pos :: nat
  cur_alt_setting :: u8
  cur_config :: u8
  cur_iface :: u8
  found :: bool
  if_desc :: ptr
  desc_len :: u32
  current_desc_len :: u32
  left :: bool

definition walk_init :: walk where
  "walk_init = \<lparr>pos = 0, cur_alt_setting = 0xFF, cur_config = 0xFF, cur_iface = 0xFF, found = False,
     if_desc = Null_Ptr, desc_len = 0, current_desc_len = 0, left = False\<rparr>"

text \<open>\<open>p[DESC_bLength] != 0U\<close>, and the step to the next descriptor with its early exit.\<close>

definition walk_guard :: "u8 list \<Rightarrow> walk \<Rightarrow> bool usb" where
  "walk_guard d w =
     (if left w then ret False else bindM (load_elem d (pos w)) (\<lambda>l. ret (l \<noteq> 0)))"

definition walk_next :: "u8 list \<Rightarrow> walk \<Rightarrow> walk usb" where
  "walk_next d w =
     bindM (load_elem d (pos w)) (\<lambda>l.
     let n = current_desc_len w + ucast l in
     ret (w\<lparr>current_desc_len := n, pos := pos w + unat l,
            left := (n \<ge> desc_len w \<and> desc_len w \<noteq> 0)\<rparr>))"

text \<open>\<open>p[CONF_DESC_wTotalLength] | (p[CONF_DESC_wTotalLength + 1] << 8)\<close>.\<close>

definition total_length :: "u8 list \<Rightarrow> nat \<Rightarrow> u32 usb" where
  "total_length d i =
     bindM (load_elem d (i + 2)) (\<lambda>lo. bindM (load_elem d (i + 3)) (\<lambda>hi. ret (le16 lo hi)))"

text \<open>\<open>(struct usb_endpoint_descriptor *)p\<close>.\<close>

definition endpoint_at :: "u8 list \<Rightarrow> nat \<Rightarrow> usb_endpoint_descriptor usb" where
  "endpoint_at d i =
     bindM (load_elem d (i + 2)) (\<lambda>a.
     bindM (load_elem d (i + 3)) (\<lambda>t.
     bindM (load_elem d (i + 4)) (\<lambda>lo.
     bindM (load_elem d (i + 5)) (\<lambda>hi.
     ret \<lparr>bEndpointAddress = a, bmAttributes = t, wMaxPacketSize = ucast (le16 lo hi)\<rparr>))))"

definition usbd_set_endpoint :: "usb_dc \<Rightarrow> usb_endpoint_descriptor \<Rightarrow> bool usb" where
  "usbd_set_endpoint dc ep =
     bindM (set_msg (bEndpointAddress ep) (\<lambda>m.
       m\<lparr>ep_mps := USB_GET_MAXPACKETSIZE (wMaxPacketSize ep),
         ep_mult := USB_GET_MULT (wMaxPacketSize ep)\<rparr>)) (\<lambda>_.
     bindM (usbd_ep_open dc ep) (\<lambda>rc. ret (rc = 0)))"

definition usbd_reset_endpoint :: "usb_dc \<Rightarrow> usb_endpoint_descriptor \<Rightarrow> bool usb" where
  "usbd_reset_endpoint dc ep =
     bindM (usbd_ep_close dc (bEndpointAddress ep)) (\<lambda>rc. ret (rc = 0))"

text \<open>\<open>descriptors->config_descriptor_callback(speed)\<close>, called without a test for \<open>NULL\<close>.\<close>

definition config_bytes :: "u8 list option usb" where
  "config_bytes =
     bindM get_descriptors (\<lambda>ds.
     bindM (deref (config_descriptor_callback ds)) (\<lambda>cb.
     bindM (getM port_speed) (\<lambda>sp. ret (cb sp))))"

definition set_configuration_step :: "usb_dc \<Rightarrow> u8 list \<Rightarrow> u8 \<Rightarrow> u8 \<Rightarrow> walk \<Rightarrow> walk usb" where
  "set_configuration_step dc d config_index alt_setting w =
     bindM (load_elem d (pos w + 1)) (\<lambda>t.
     bindM
       (if t = USB_DESCRIPTOR_TYPE_CONFIGURATION then
          bindM (load_elem d (pos w + 5)) (\<lambda>c.
          if c = config_index then
            bindM (total_length d (pos w)) (\<lambda>n.
            ret (w\<lparr>cur_config := c, found := True, current_desc_len := 0, desc_len := n\<rparr>))
          else ret (w\<lparr>cur_config := c\<rparr>))
        else if t = USB_DESCRIPTOR_TYPE_INTERFACE then
          bindM (load_elem d (pos w + 3)) (\<lambda>a. ret (w\<lparr>cur_alt_setting := a\<rparr>))
        else if t = USB_DESCRIPTOR_TYPE_ENDPOINT then
          (if cur_config w \<noteq> config_index \<or> cur_alt_setting w \<noteq> alt_setting then ret w
           else bindM (endpoint_at d (pos w)) (\<lambda>ep.
                bindM (usbd_set_endpoint dc ep) (\<lambda>ok. ret (w\<lparr>found := ok\<rparr>))))
        else ret w)
     (walk_next d))"

definition usbd_set_configuration :: "usb_dc \<Rightarrow> u8 \<Rightarrow> u8 \<Rightarrow> bool usb" where
  "usbd_set_configuration dc config_index alt_setting =
     bindM config_bytes (\<lambda>p.
     bindM (deref p) (\<lambda>d.
     bindM (whileM (walk_guard d) (set_configuration_step dc d config_index alt_setting) walk_init)
     (\<lambda>w. ret (found w))))"

definition set_interface_step :: "usb_dc \<Rightarrow> u8 list \<Rightarrow> u8 \<Rightarrow> u8 \<Rightarrow> walk \<Rightarrow> walk usb" where
  "set_interface_step dc d iface alt_setting w =
     bindM (load_elem d (pos w + 1)) (\<lambda>t.
     bindM
       (if t = USB_DESCRIPTOR_TYPE_CONFIGURATION then
          bindM (total_length d (pos w)) (\<lambda>n. ret (w\<lparr>current_desc_len := 0, desc_len := n\<rparr>))
        else if t = USB_DESCRIPTOR_TYPE_INTERFACE then
          bindM (load_elem d (pos w + 3)) (\<lambda>a.
          bindM (load_elem d (pos w + 2)) (\<lambda>i.
          ret (w\<lparr>cur_alt_setting := a, cur_iface := i,
                 if_desc := (if i = iface \<and> a = alt_setting then Rom d (pos w) else if_desc w)\<rparr>)))
        else if t = USB_DESCRIPTOR_TYPE_ENDPOINT then
          (if cur_iface w = iface then
             bindM (endpoint_at d (pos w)) (\<lambda>ep.
             if alt_setting = 0 then
               bindM (usbd_reset_endpoint dc ep) (\<lambda>ok. ret (w\<lparr>found := ok\<rparr>))
             else if cur_alt_setting w = alt_setting then
               bindM (usbd_set_endpoint dc ep) (\<lambda>ok. ret (w\<lparr>found := ok\<rparr>))
             else ret w)
           else ret w)
        else ret w)
     (walk_next d))"

definition usbd_set_interface :: "usb_dc \<Rightarrow> u8 \<Rightarrow> u8 \<Rightarrow> bool usb" where
  "usbd_set_interface dc iface alt_setting =
     bindM config_bytes (\<lambda>p.
     bindM (deref p) (\<lambda>d.
     bindM (whileM (walk_guard d) (set_interface_step dc d iface alt_setting) walk_init) (\<lambda>w.
     bindM (usbd_class_event_notify_handler dc USBD_EVENT_SET_INTERFACE (if_desc w)) (\<lambda>_.
     ret (found w)))))"

section \<open>Descriptors\<close>

text \<open>\<open>*len = n\<close>.\<close>

definition set_len :: "u32 \<Rightarrow> unit usb" where
  "set_len n = modM (\<lambda>s. s\<lparr>ep0_data_buf_len := n\<rparr>)"

definition c_strlen :: "u8 list \<Rightarrow> nat usb" where
  "c_strlen cs = (if 0 \<in> set cs then ret (length (takeWhile (\<lambda>c. c \<noteq> 0) cs)) else faultM Out_Of_Bounds)"

text \<open>Calling a descriptor callback: \<open>None\<close> when it is \<open>NULL\<close> or returns \<open>NULL\<close>.\<close>

definition call_desc :: "(u8 \<Rightarrow> u8 list option) option \<Rightarrow> u8 list option usb" where
  "call_desc cb = (case cb of None \<Rightarrow> ret None | Some f \<Rightarrow> getM (\<lambda>s. f (port_speed s)))"

text \<open>\<open>found\<close>: the array and its length are handed out, or the request fails.\<close>

definition give_desc :: "ptr \<Rightarrow> u32 \<Rightarrow> (bool \<times> ptr) usb" where
  "give_desc p n = bindM (set_len n) (\<lambda>_. ret (True, p))"

definition string_descriptor :: "u8 \<Rightarrow> u8 list \<Rightarrow> ptr \<Rightarrow> (bool \<times> ptr) usb" where
  "string_descriptor index str data =
     (if index = USB_STRING_LANGID_INDEX then
        bindM (store_at data 0 4) (\<lambda>_.
        bindM (store_at data 1 USB_DESCRIPTOR_TYPE_STRING) (\<lambda>_.
        bindM (load_elem str 0) (\<lambda>c0.
        bindM (store_at data 2 c0) (\<lambda>_.
        bindM (load_elem str 1) (\<lambda>c1.
        bindM (store_at data 3 c1) (\<lambda>_.
        bindM (set_len 4) (\<lambda>_. ret (True, data))))))))
      else
        bindM (c_strlen str) (\<lambda>n.
        let str_size = (of_nat n :: u16); total_size = 2 * str_size + 2 in
        if unat total_size > CONFIG_USBDEV_REQUEST_BUFFER_LEN then ret (False, data)
        else
          bindM (store_at data 0 (ucast total_size)) (\<lambda>_.
          bindM (store_at data 1 USB_DESCRIPTOR_TYPE_STRING) (\<lambda>_.
          bindM (foldM (\<lambda>i _.
                   bindM (load_elem str i) (\<lambda>c.
                   bindM (store_at data (2 * i + 2) c) (\<lambda>_.
                   store_at data (2 * i + 3) 0)))
                 [0..<unat str_size] ()) (\<lambda>_.
          bindM (set_len (ucast total_size)) (\<lambda>_. ret (True, data)))))))"

definition usbd_get_descriptor :: "usb_dc \<Rightarrow> u16 \<Rightarrow> ptr \<Rightarrow> (bool \<times> ptr) usb" where
  "usbd_get_descriptor dc type_index data =
     (let type = HI_BYTE type_index; index = LO_BYTE type_index in
      if type = USB_DESCRIPTOR_TYPE_DEVICE then
        bindM (usbd_get_port_speed dc) (\<lambda>sp.
        bindM (modM (\<lambda>s. s\<lparr>port_speed := sp\<rparr>)) (\<lambda>_.
        bindM get_descriptors (\<lambda>ds.
        bindM (call_desc (device_descriptor_callback ds)) (\<lambda>p.
        case p of None \<Rightarrow> ret (False, data)
        | Some desc \<Rightarrow> bindM (load_elem desc 0) (\<lambda>n. give_desc (Rom desc 0) (ucast n))))))
      else if type = USB_DESCRIPTOR_TYPE_CONFIGURATION then
        bindM get_descriptors (\<lambda>ds.
        bindM (call_desc (config_descriptor_callback ds)) (\<lambda>p.
        case p of None \<Rightarrow> ret (False, data)
        | Some desc \<Rightarrow>
            bindM (total_length desc 0) (\<lambda>n.
            bindM (load_elem desc 7) (\<lambda>a.
            bindM (modM (\<lambda>s. s\<lparr>self_powered := (a AND 0x40 \<noteq> 0), remote_wakeup_support := (a AND 0x20 \<noteq> 0)\<rparr>))
              (\<lambda>_. give_desc (Rom desc 0) n)))))
      else if type = USB_DESCRIPTOR_TYPE_STRING then
        bindM get_descriptors (\<lambda>ds.
        if index = USB_OSDESC_STRING_DESC_INDEX then
          (case msosv1_descriptor ds of None \<Rightarrow> ret (False, data)
           | Some v \<Rightarrow> bindM (load_elem (v1_string v) 0) (\<lambda>n. give_desc (Rom (v1_string v) 0) (ucast n)))
        else
          (case string_descriptor_callback ds of None \<Rightarrow> ret (False, data)
           | Some cb \<Rightarrow>
               bindM (getM port_speed) (\<lambda>sp.
               case cb sp index of None \<Rightarrow> ret (False, data)
               | Some str \<Rightarrow> string_descriptor index str data)))
      else if type = USB_DESCRIPTOR_TYPE_DEVICE_QUALIFIER then ret (False, data)
      else if type = USB_DESCRIPTOR_TYPE_OTHER_SPEED then
        bindM get_descriptors (\<lambda>ds.
        bindM (call_desc (other_speed_descriptor_callback ds)) (\<lambda>p.
        case p of None \<Rightarrow> ret (False, data)
        | Some desc \<Rightarrow> bindM (total_length desc 0) (give_desc (Rom desc 0))))
      else if type = USB_DESCRIPTOR_TYPE_BINARY_OBJECT_STORE then
        bindM get_descriptors (\<lambda>ds.
        case bos_descriptor ds of None \<Rightarrow> ret (False, data)
        | Some b \<Rightarrow> give_desc (Rom (bos_string b) 0) (bos_string_len b))
      else ret (False, data))"

section \<open>Standard requests\<close>

definition usbd_std_device_req_handler ::
    "usb_dc \<Rightarrow> usb_setup_packet \<Rightarrow> ptr \<Rightarrow> (bool \<times> ptr) usb" where
  "usbd_std_device_req_handler dc pkt data =
     (let value = wValue pkt; req = bRequest pkt in
      if req = USB_REQUEST_GET_STATUS then
        bindM (getM (\<lambda>s. (if self_powered s then 1 else 0) OR (if remote_wakeup_enabled s then 2 else 0)))
          (\<lambda>b.
        bindM (store_at data 0 b) (\<lambda>_.
        bindM (store_at data 1 0) (\<lambda>_.
        bindM (set_len 2) (\<lambda>_. ret (True, data)))))
      else if req = USB_REQUEST_CLEAR_FEATURE \<or> req = USB_REQUEST_SET_FEATURE then
        bindM (whenM (value = 1)
          (if req = USB_REQUEST_SET_FEATURE then
             bindM (modM (\<lambda>s. s\<lparr>remote_wakeup_enabled := True\<rparr>)) (\<lambda>_.
             call_event_handler USBD_EVENT_SET_REMOTE_WAKEUP)
           else
             bindM (modM (\<lambda>s. s\<lparr>remote_wakeup_enabled := False\<rparr>)) (\<lambda>_.
             call_event_handler USBD_EVENT_CLR_REMOTE_WAKEUP))) (\<lambda>_.
        bindM (set_len 0) (\<lambda>_. ret (True, data)))
      else if req = USB_REQUEST_SET_ADDRESS then
        bindM (modM (\<lambda>s. s\<lparr>device_address := ucast value\<rparr>)) (\<lambda>_.
        bindM (usbd_set_address (ucast value)) (\<lambda>_.
        bindM (set_len 0) (\<lambda>_. ret (True, data))))
      else if req = USB_REQUEST_GET_DESCRIPTOR then usbd_get_descriptor dc value data
      else if req = USB_REQUEST_GET_CONFIGURATION then
        bindM (getM configuration) (\<lambda>c.
        bindM (store_at data 0 c) (\<lambda>_.
        bindM (set_len 1) (\<lambda>_. ret (True, data))))
      else if req = USB_REQUEST_SET_CONFIGURATION then
        (let v = ucast (value AND 0xFF) :: u8 in
         bindM
           (if v = 0 then bindM (modM (\<lambda>s. s\<lparr>configuration := 0\<rparr>)) (\<lambda>_. ret True)
            else bindM (usbd_set_configuration dc v 0) (\<lambda>ok.
              if \<not> ok then ret False
              else bindM (modM (\<lambda>s. s\<lparr>configuration := v, is_suspend := False\<rparr>)) (\<lambda>_.
                   bindM (usbd_class_event_notify_handler dc USBD_EVENT_CONFIGURED Null_Ptr) (\<lambda>_.
                   bindM (call_event_handler USBD_EVENT_CONFIGURED) (\<lambda>_. ret True))))) (\<lambda>r.
         bindM (set_len 0) (\<lambda>_. ret (r, data))))
      else ret (False, data))"

definition hid_descriptor_step :: "u8 list \<Rightarrow> u8 \<Rightarrow> walk \<Rightarrow> walk usb" where
  "hid_descriptor_step d intf_n w =
     bindM (load_elem d (pos w + 1)) (\<lambda>t.
     if t = 0x21 \<and> cur_iface w = intf_n then
       bindM (load_elem d (pos w)) (\<lambda>n.
       bindM (set_len (ucast n)) (\<lambda>_.
       ret (w\<lparr>found := True, if_desc := Rom d (pos w), left := True\<rparr>)))
     else
       bindM
         (if t = USB_DESCRIPTOR_TYPE_CONFIGURATION then
            bindM (total_length d (pos w)) (\<lambda>n. ret (w\<lparr>current_desc_len := 0, desc_len := n\<rparr>))
          else if t = USB_DESCRIPTOR_TYPE_INTERFACE then
            bindM (load_elem d (pos w + 2)) (\<lambda>i. ret (w\<lparr>cur_iface := i\<rparr>))
          else ret w)
       (walk_next d))"

definition usbd_std_interface_req_handler ::
    "usb_dc \<Rightarrow> usb_setup_packet \<Rightarrow> ptr \<Rightarrow> (bool \<times> ptr) usb" where
  "usbd_std_interface_req_handler dc pkt data =
     (let type = HI_BYTE (wValue pkt); intf_n = LO_BYTE (wIndex pkt); req = bRequest pkt in
      bindM config_bytes (\<lambda>p.
      bindM usb_device_is_configured (\<lambda>conf.
      if \<not> conf then ret (False, data)
      else if req = USB_REQUEST_GET_STATUS then
        bindM (store_at data 0 0) (\<lambda>_.
        bindM (store_at data 1 0) (\<lambda>_.
        bindM (set_len 2) (\<lambda>_. ret (True, data))))
      else if req = USB_REQUEST_GET_DESCRIPTOR then
        (if type = 0x21 then
           bindM (deref p) (\<lambda>d.
           bindM (whileM (walk_guard d) (hid_descriptor_step d intf_n) walk_init) (\<lambda>w.
           ret (if found w then (True, if_desc w) else (False, data))))
         else if type = 0x22 then
           bindM (each_intf (\<lambda>x.
             if intf_num x = intf_n then
               bindM (set_len (hid_report_descriptor_len x)) (\<lambda>_. ret (Some (hid_report_descriptor x)))
             else ret None)) (\<lambda>r.
           ret (case r of None \<Rightarrow> (False, data) | Some q \<Rightarrow> (True, q)))
         else ret (False, data))
      else if req = USB_REQUEST_GET_INTERFACE then
        bindM (getM intf_altsetting) (\<lambda>xs.
        bindM (load_elem xs (unat intf_n)) (\<lambda>a.
        bindM (store_at data 0 a) (\<lambda>_.
        bindM (set_len 1) (\<lambda>_. ret (True, data)))))
      else if req = USB_REQUEST_SET_INTERFACE then
        bindM (getM intf_altsetting) (\<lambda>xs.
        bindM (store_elem xs (unat intf_n) (LO_BYTE (wValue pkt))) (\<lambda>ys.
        bindM (modM (\<lambda>s. s\<lparr>intf_altsetting := ys\<rparr>)) (\<lambda>_.
        bindM (usbd_set_interface dc (ucast (wIndex pkt)) (ucast (wValue pkt))) (\<lambda>_.
        bindM (set_len 0) (\<lambda>_. ret (True, data))))))
      else ret (False, data))))"

definition usbd_std_endpoint_req_handler ::
    "usb_dc \<Rightarrow> usb_setup_packet \<Rightarrow> ptr \<Rightarrow> (bool \<times> ptr) usb" where
  "usbd_std_endpoint_req_handler dc pkt data =
     (let ep = ucast (wIndex pkt) :: u8; req = bRequest pkt in
      bindM usb_device_is_configured (\<lambda>conf.
      if \<not> conf then ret (False, data)
      else if req = USB_REQUEST_GET_STATUS then
        bindM (usbd_ep_is_stalled dc ep) (\<lambda>stalled.
        bindM (store_at data 0 (if stalled \<noteq> 0 then 1 else 0)) (\<lambda>_.
        bindM (store_at data 1 0) (\<lambda>_.
        bindM (set_len 2) (\<lambda>_. ret (True, data)))))
      else if req = USB_REQUEST_CLEAR_FEATURE then
        (if wValue pkt = 0 then bindM (usbd_ep_clear_stall ep) (\<lambda>_. ret (True, data))
         else bindM (set_len 0) (\<lambda>_. ret (False, data)))
      else if req = USB_REQUEST_SET_FEATURE then
        (if wValue pkt = 0 then
           bindM (usbd_ep_set_stall ep) (\<lambda>_. bindM (set_len 0) (\<lambda>_. ret (True, data)))
         else bindM (set_len 0) (\<lambda>_. ret (False, data)))
      else ret (False, data)))"

definition usbd_standard_request_handler ::
    "usb_dc \<Rightarrow> usb_setup_packet \<Rightarrow> ptr \<Rightarrow> (int \<times> ptr) usb" where
  "usbd_standard_request_handler dc pkt data =
     (let rcp = bmRequestType pkt AND USB_REQUEST_RECIPIENT_MASK in
      if rcp = USB_REQUEST_RECIPIENT_DEVICE then
        bindM (usbd_std_device_req_handler dc pkt data) (\<lambda>(ok, p). ret (if ok then 0 else -1, p))
      else if rcp = USB_REQUEST_RECIPIENT_INTERFACE then
        bindM (usbd_std_interface_req_handler dc pkt data) (\<lambda>(ok, p). ret (if ok then 0 else -1, p))
      else if rcp = USB_REQUEST_RECIPIENT_ENDPOINT then
        bindM (usbd_std_endpoint_req_handler dc pkt data) (\<lambda>(ok, p). ret (if ok then 0 else -1, p))
      else ret (-1, data))"

section \<open>Class and vendor requests\<close>

definition usbd_class_request_handler ::
    "usb_setup_packet \<Rightarrow> ptr \<Rightarrow> (int \<times> ptr) usb" where
  "usbd_class_request_handler pkt data =
     (let rcp = bmRequestType pkt AND USB_REQUEST_RECIPIENT_MASK in
      bindM
        (if rcp = USB_REQUEST_RECIPIENT_INTERFACE then
           each_intf (\<lambda>x. case class_interface_handler x of
               None \<Rightarrow> ret None
             | Some h \<Rightarrow>
                 if ucast (intf_num x) = wIndex pkt AND 0xFF
                 then bindM (call_request_handler h pkt data) (\<lambda>r. ret (Some r)) else ret None)
         else if rcp = USB_REQUEST_RECIPIENT_ENDPOINT then
           each_intf (\<lambda>x. case class_endpoint_handler x of
               None \<Rightarrow> ret None
             | Some h \<Rightarrow> bindM (call_request_handler h pkt data) (\<lambda>r. ret (Some r)))
         else ret None) (\<lambda>r.
      ret (case r of None \<Rightarrow> (-1, data) | Some q \<Rightarrow> q)))"

text \<open>A length in four little-endian bytes, as the code adds it up.\<close>

definition sum_le32 :: "u8 list \<Rightarrow> u32 usb" where
  "sum_le32 bs =
     bindM (load_elem bs 0) (\<lambda>b0. bindM (load_elem bs 1) (\<lambda>b1.
     bindM (load_elem bs 2) (\<lambda>b2. bindM (load_elem bs 3) (\<lambda>b3.
     ret (ucast b0 + push_bit 8 (ucast b1) + push_bit 16 (ucast b2) + push_bit 24 (ucast b3))))))"

text \<open>
  The Microsoft OS and WebUSB descriptors: \<open>Some\<close> is a return, \<open>None\<close> falls through to the vendor
  handlers of the interfaces.
\<close>

definition vendor_descriptors ::
    "usb_descriptor \<Rightarrow> usb_setup_packet \<Rightarrow> ptr \<Rightarrow> (int \<times> ptr) option usb" where
  "vendor_descriptors ds pkt data =
     bindM
       (case msosv1_descriptor ds of
          Some v \<Rightarrow>
            if bRequest pkt = v1_vendor_code v then
              (if wIndex pkt = 4 then
                 bindM (sum_le32 (v1_compat_id v)) (\<lambda>n.
                 bindM (set_len n) (\<lambda>_. ret (Some (0, Rom (v1_compat_id v) 0))))
               else if wIndex pkt = 5 then
                 bindM (load_elem (v1_comp_id_property v) (unat (wValue pkt))) (\<lambda>bs.
                 bindM (sum_le32 bs) (\<lambda>n.
                 bindM (set_len n) (\<lambda>_. ret (Some (0, Rom bs 0)))))
               else ret (Some (-1, data)))
            else ret None
        | None \<Rightarrow>
            (case msosv2_descriptor ds of
               Some v \<Rightarrow>
                 if bRequest pkt = v2_vendor_code v then
                   (if wIndex pkt = 7 then
                      bindM (set_len (ucast (v2_compat_id_len v))) (\<lambda>_. ret (Some (0, Rom (v2_compat_id v) 0)))
                    else ret (Some (-1, data)))
                 else ret None
             | None \<Rightarrow> ret None)) (\<lambda>r.
     case r of Some q \<Rightarrow> ret (Some q)
     | None \<Rightarrow>
         (case webusb_url_descriptor ds of
            Some v \<Rightarrow>
              if bRequest pkt = url_vendor_code v then
                (if wIndex pkt = 2 then
                   bindM (set_len (url_string_len v)) (\<lambda>_. ret (Some (0, Rom (url_string v) 0)))
                 else ret (Some (-1, data)))
              else ret None
          | None \<Rightarrow> ret None))"

definition usbd_vendor_request_handler ::
    "usb_setup_packet \<Rightarrow> ptr \<Rightarrow> (int \<times> ptr) usb" where
  "usbd_vendor_request_handler pkt data =
     bindM get_descriptors (\<lambda>ds.
     bindM (vendor_descriptors ds pkt data) (\<lambda>r.
     case r of Some q \<Rightarrow> ret q
     | None \<Rightarrow>
         bindM (each_intf (\<lambda>x. case vendor_handler x of
             None \<Rightarrow> ret None
           | Some h \<Rightarrow> bindM (call_request_handler h pkt data) (\<lambda>(rc, p).
               ret (if rc = 0 then Some (0, p) else None)))) (\<lambda>r.
         ret (case r of None \<Rightarrow> (-1, data) | Some q \<Rightarrow> q))))"

definition usbd_setup_request_handler ::
    "usb_dc \<Rightarrow> usb_setup_packet \<Rightarrow> ptr \<Rightarrow> (bool \<times> ptr) usb" where
  "usbd_setup_request_handler dc pkt data =
     (let ty = bmRequestType pkt AND USB_REQUEST_TYPE_MASK in
      if ty = USB_REQUEST_STANDARD then
        bindM (usbd_standard_request_handler dc pkt data) (\<lambda>(rc, p). ret (\<not> rc < 0, p))
      else if ty = USB_REQUEST_CLASS then
        bindM (usbd_class_request_handler pkt data) (\<lambda>(rc, p). ret (\<not> rc < 0, p))
      else if ty = USB_REQUEST_VENDOR then
        bindM (usbd_vendor_request_handler pkt data) (\<lambda>(rc, p). ret (\<not> rc < 0, p))
      else ret (False, data))"

section \<open>Bus events\<close>

definition usbd_event_sof_handler :: "unit usb" where
  "usbd_event_sof_handler = call_event_handler USBD_EVENT_SOF"

definition usbd_event_connect_handler :: "unit usb" where
  "usbd_event_connect_handler = call_event_handler USBD_EVENT_CONNECTED"

definition usbd_event_disconnect_handler :: "unit usb" where
  "usbd_event_disconnect_handler =
     bindM (modM (\<lambda>s. s\<lparr>configuration := 0\<rparr>)) (\<lambda>_. call_event_handler USBD_EVENT_DISCONNECTED)"

definition usbd_event_resume_handler :: "unit usb" where
  "usbd_event_resume_handler =
     bindM (modM (\<lambda>s. s\<lparr>is_suspend := False\<rparr>)) (\<lambda>_. call_event_handler USBD_EVENT_RESUME)"

definition usbd_event_suspend_handler :: "unit usb" where
  "usbd_event_suspend_handler =
     bindM (getM device_address) (\<lambda>a.
     whenM (a > 0)
       (bindM (modM (\<lambda>s. s\<lparr>is_suspend := True\<rparr>)) (\<lambda>_. call_event_handler USBD_EVENT_SUSPEND)))"

definition usbd_event_reset_handler :: "usb_dc \<Rightarrow> unit usb" where
  "usbd_event_reset_handler dc =
     (let ep0 = \<lparr>bEndpointAddress = USB_CONTROL_IN_EP0, bmAttributes = 0, wMaxPacketSize = 64\<rparr> in
      bindM (usbd_set_address 0) (\<lambda>_.
      bindM (modM (\<lambda>s. s\<lparr>device_address := 0, configuration := 0,
                       ep0_next_state := USBD_EP0_STATE_SETUP, port_speed := 0\<rparr>)) (\<lambda>_.
      bindM (usbd_ep_open dc ep0) (\<lambda>_.
      bindM (usbd_ep_open dc (ep0\<lparr>bEndpointAddress := USB_CONTROL_OUT_EP0\<rparr>)) (\<lambda>_.
      bindM (usbd_class_event_notify_handler dc USBD_EVENT_RESET Null_Ptr) (\<lambda>_.
      call_event_handler USBD_EVENT_RESET))))))"

section \<open>Control transfers\<close>

text \<open>\<open>setup->bmRequestType & USB_REQUEST_DIR_MASK\<close>.\<close>

definition dir_in :: "usb_setup_packet \<Rightarrow> bool" where
  "dir_in pkt \<longleftrightarrow> bmRequestType pkt AND USB_REQUEST_DIR_MASK = USB_REQUEST_DIR_IN"

definition dir_out :: "usb_setup_packet \<Rightarrow> bool" where
  "dir_out pkt \<longleftrightarrow> bmRequestType pkt AND USB_REQUEST_DIR_MASK = USB_REQUEST_DIR_OUT"

definition set_ep0_state :: "u8 \<Rightarrow> unit usb" where
  "set_ep0_state x = modM (\<lambda>s. s\<lparr>ep0_next_state := x\<rparr>)"

text \<open>The end of a request that cannot be served.\<close>

definition refuse_request :: "unit usb" where
  "refuse_request =
     bindM (set_ep0_state USBD_EP0_STATE_SETUP) (\<lambda>_. usbd_ep_set_stall USB_CONTROL_IN_EP0)"

text \<open>The second half of the setup handler: sending the answer, or the status.\<close>

definition send_answer :: "usb_setup_packet \<Rightarrow> ptr \<Rightarrow> unit usb" where
  "send_answer pkt buf =
     bindM (modM (\<lambda>s. s\<lparr>ep0_data_buf_residue := min (ep0_data_buf_len s) (ucast (wLength pkt))\<rparr>)) (\<lambda>_.
     bindM (getM ep0_data_buf_residue) (\<lambda>residue.
     if unat residue > CONFIG_USBDEV_REQUEST_BUFFER_LEN then refuse_request
     else
       bindM (getM ep0_data_buf) (\<lambda>dst.
       bindM (whenM (buf \<noteq> dst) (copy_bytes dst buf (unat residue))) (\<lambda>_.
       bindM (set_ep0_state (if residue > 0 then USBD_EP0_STATE_IN_DATA else USBD_EP0_STATE_IN_STATUS))
         (\<lambda>_.
       bindM (usbd_ep_start_write USB_CONTROL_IN_EP0 dst residue) (\<lambda>_.
       modM (\<lambda>s. s\<lparr>zlp_flag := (if ucast (wLength pkt) > ep0_data_buf_len s
                                  \<and> ep0_data_buf_len s mod USB_CTRL_EP_MPS = 0
                                then True else zlp_flag s)\<rparr>))))))) "

definition usbd_event_ep0_setup_complete :: "usb_dc \<Rightarrow> usb_setup_packet \<Rightarrow> unit usb" where
  "usbd_event_ep0_setup_complete dc pkt =
     (if unat (wLength pkt) > CONFIG_USBDEV_REQUEST_BUFFER_LEN \<and> dir_out pkt then
        usbd_ep_set_stall USB_CONTROL_IN_EP0
      else
        bindM (modM (\<lambda>s. s\<lparr>ep0_data_buf := Req_Data 0, ep0_data_buf_residue := ucast (wLength pkt),
                         ep0_data_buf_len := ucast (wLength pkt), zlp_flag := False\<rparr>)) (\<lambda>_.
        if wLength pkt \<noteq> 0 \<and> dir_out pkt then
          bindM (set_ep0_state USBD_EP0_STATE_OUT_DATA) (\<lambda>_.
          usbd_ep_start_read USB_CONTROL_OUT_EP0 (Req_Data 0) (ucast (wLength pkt)))
        else
          bindM (usbd_setup_request_handler dc pkt (Req_Data 0)) (\<lambda>(ok, buf).
          if \<not> ok then refuse_request else send_answer pkt buf)))"

text \<open>\<open>memcpy(setup, psetup, 8)\<close> into the packed little-endian structure.\<close>

definition setup_of_bytes :: "u8 list \<Rightarrow> usb_setup_packet" where
  "setup_of_bytes b = \<lparr>bmRequestType = b ! 0, bRequest = b ! 1,
     wValue = ucast (le16 (b ! 2) (b ! 3)), wIndex = ucast (le16 (b ! 4) (b ! 5)),
     wLength = ucast (le16 (b ! 6) (b ! 7))\<rparr>"

definition usbd_event_ep0_setup_complete_handler :: "usb_dc \<Rightarrow> u8 list \<Rightarrow> unit usb" where
  "usbd_event_ep0_setup_complete_handler dc psetup =
     (if length psetup < 8 then faultM Out_Of_Bounds
      else
        bindM (modM (\<lambda>s. s\<lparr>setup_pkt := setup_of_bytes psetup\<rparr>)) (\<lambda>_.
        bindM (getM setup_pkt) (usbd_event_ep0_setup_complete dc)))"

definition usbd_event_ep0_in_complete_handler :: "u8 \<Rightarrow> u32 \<Rightarrow> unit usb" where
  "usbd_event_ep0_in_complete_handler ep nbytes =
     bindM (modM (\<lambda>s. s\<lparr>ep0_data_buf := ptr_add (ep0_data_buf s) (unat nbytes),
                      ep0_data_buf_residue := ep0_data_buf_residue s - nbytes\<rparr>)) (\<lambda>_.
     bindM (getM ep0_data_buf) (\<lambda>buf.
     bindM (getM ep0_data_buf_residue) (\<lambda>residue.
     bindM (getM zlp_flag) (\<lambda>zlp.
     bindM (getM setup_pkt) (\<lambda>pkt.
     if residue \<noteq> 0 then usbd_ep_start_write USB_CONTROL_IN_EP0 buf residue
     else if zlp then
       bindM (modM (\<lambda>s. s\<lparr>zlp_flag := False\<rparr>)) (\<lambda>_.
       usbd_ep_start_write USB_CONTROL_IN_EP0 Null_Ptr 0)
     else if wLength pkt \<noteq> 0 \<and> dir_in pkt then
       bindM (set_ep0_state USBD_EP0_STATE_OUT_STATUS) (\<lambda>_.
       usbd_ep_start_read USB_CONTROL_OUT_EP0 Null_Ptr 0)
     else
       bindM (getM ep0_next_state) (\<lambda>x.
       whenM (x = USBD_EP0_STATE_IN_STATUS) (set_ep0_state USBD_EP0_STATE_SETUP)))))))"

definition usbd_event_ep0_out_complete_handler :: "usb_dc \<Rightarrow> u8 \<Rightarrow> u32 \<Rightarrow> unit usb" where
  "usbd_event_ep0_out_complete_handler dc ep nbytes =
     (if nbytes > 0 then
        bindM (modM (\<lambda>s. s\<lparr>ep0_data_buf := ptr_add (ep0_data_buf s) (unat nbytes),
                         ep0_data_buf_residue := ep0_data_buf_residue s - nbytes\<rparr>)) (\<lambda>_.
        bindM (getM ep0_data_buf) (\<lambda>buf.
        bindM (getM ep0_data_buf_residue) (\<lambda>residue.
        if residue = 0 then
          bindM (modM (\<lambda>s. s\<lparr>ep0_data_buf := Req_Data 0\<rparr>)) (\<lambda>_.
          bindM (getM setup_pkt) (\<lambda>pkt.
          bindM (usbd_setup_request_handler dc pkt (Req_Data 0)) (\<lambda>(ok, p).
          bindM (modM (\<lambda>s. s\<lparr>ep0_data_buf := p\<rparr>)) (\<lambda>_.
          if \<not> ok then refuse_request
          else
            bindM (set_ep0_state USBD_EP0_STATE_IN_STATUS) (\<lambda>_.
            usbd_ep_start_write USB_CONTROL_IN_EP0 Null_Ptr 0)))))
        else usbd_ep_start_read USB_CONTROL_OUT_EP0 buf residue)))
      else set_ep0_state USBD_EP0_STATE_SETUP)"

section \<open>Transfer completion on the other endpoints\<close>

fun call_endpoint_callback :: "usb_dc \<Rightarrow> endpoint_callback \<Rightarrow> u8 \<Rightarrow> u32 \<Rightarrow> unit usb" where
  "call_endpoint_callback dc Usbd_Event_Ep0_In_Complete_Handler = usbd_event_ep0_in_complete_handler"
| "call_endpoint_callback dc Usbd_Event_Ep0_Out_Complete_Handler = usbd_event_ep0_out_complete_handler dc"
| "call_endpoint_callback dc Usbd_Cdc_Acm_Bulk_In = usbd_cdc_acm_bulk_in"
| "call_endpoint_callback dc Usbd_Cdc_Acm_Bulk_Out = usbd_cdc_acm_bulk_out"

definition usbd_event_ep_in_complete_handler :: "usb_dc \<Rightarrow> u8 \<Rightarrow> u32 \<Rightarrow> unit usb" where
  "usbd_event_ep_in_complete_handler dc ep nbytes =
     bindM (getM tx_msg) (\<lambda>xs.
     bindM (load_elem xs (unat (ep AND 0x7f))) (\<lambda>m.
     case msg_cb m of None \<Rightarrow> ret () | Some cb \<Rightarrow> call_endpoint_callback dc cb ep nbytes))"

definition usbd_event_ep_out_complete_handler :: "usb_dc \<Rightarrow> u8 \<Rightarrow> u32 \<Rightarrow> unit usb" where
  "usbd_event_ep_out_complete_handler dc ep nbytes =
     bindM (getM rx_msg) (\<lambda>xs.
     bindM (load_elem xs (unat (ep AND 0x7f))) (\<lambda>m.
     case msg_cb m of None \<Rightarrow> ret () | Some cb \<Rightarrow> call_endpoint_callback dc cb ep nbytes))"

section \<open>Remote wake-up, start and stop\<close>

definition usbd_send_remote_wakeup :: "usb_dc \<Rightarrow> int usb" where
  "usbd_send_remote_wakeup dc =
     bindM (getM (\<lambda>s. remote_wakeup_support s \<and> remote_wakeup_enabled s \<and> is_suspend s)) (\<lambda>b.
     if b then usbd_set_remote_wakeup dc else ret (-1))"

definition usbd_initialize :: "usb_dc \<Rightarrow> u8 \<Rightarrow> u32 \<Rightarrow> event_callback option \<Rightarrow> int usb" where
  "usbd_initialize dc busid base handler =
     (if busid \<ge> CONFIG_USBDEV_MAX_BUS then hang
      else
        bindM (modM (\<lambda>s. s\<lparr>reg_base := base\<rparr>)) (\<lambda>_.
        bindM (modM (\<lambda>s. s\<lparr>event_handler := handler\<rparr>)) (\<lambda>_.
        bindM (usb_dc_init dc) (\<lambda>rc.
        bindM (usbd_class_event_notify_handler dc USBD_EVENT_INIT Null_Ptr) (\<lambda>_.
        bindM (call_event_handler USBD_EVENT_INIT) (\<lambda>_. ret rc))))))"

definition usbd_deinitialize :: "usb_dc \<Rightarrow> u8 \<Rightarrow> int usb" where
  "usbd_deinitialize dc busid =
     (if busid \<ge> CONFIG_USBDEV_MAX_BUS then hang
      else
        bindM (call_event_handler USBD_EVENT_DEINIT) (\<lambda>_.
        bindM (usbd_class_event_notify_handler dc USBD_EVENT_DEINIT Null_Ptr) (\<lambda>_.
        bindM usb_dc_deinit (\<lambda>_.
        bindM (modM (\<lambda>s. s\<lparr>intf_offset := 0\<rparr>)) (\<lambda>_. ret 0)))))"

end
