(* ===== verification/Usb_Walk.thy ===== *)
theory Usb_Walk
  imports Usb_Core
begin

text \<open>
  The loops of \<open>core/usbd_core.c\<close> that walk the configuration descriptor. For a well-formed array (a
  list of descriptors whose length bytes are right, \<open>config_ok\<close>) the walk of \<open>usbd_set_configuration\<close>
  is equal to opening a list of endpoints that is computed from the descriptors, \<open>alt_endpoints\<close>. The
  locale \<open>descriptor_walk\<close> is the contract between a loop body and the walk for the other loops: its
  lemma \<open>walk_config\<close> says that the walk ends and that what the body preserves holds then.
\<close>

section \<open>Well-formed descriptors\<close>

definition desc_ok :: "u8 list \<Rightarrow> bool" where
  "desc_ok x \<longleftrightarrow> 2 \<le> length x \<and> unat (x ! 0) = length x
     \<and> (x ! 1 = USB_DESCRIPTOR_TYPE_CONFIGURATION \<longrightarrow> 8 \<le> length x)
     \<and> (x ! 1 = USB_DESCRIPTOR_TYPE_INTERFACE \<longrightarrow> 4 \<le> length x)
     \<and> (x ! 1 = USB_DESCRIPTOR_TYPE_ENDPOINT \<longrightarrow> 6 \<le> length x)"

definition endpoint_of :: "u8 list \<Rightarrow> usb_endpoint_descriptor" where
  "endpoint_of x = \<lparr>bEndpointAddress = x ! 2, bmAttributes = x ! 3,
     wMaxPacketSize = ucast (le16 (x ! 4) (x ! 5))\<rparr>"

text \<open>The endpoints of the interfaces with one alternate setting, in the order of the descriptors.\<close>

fun alt_endpoints :: "u8 \<Rightarrow> u8 \<Rightarrow> u8 list list \<Rightarrow> usb_endpoint_descriptor list" where
  "alt_endpoints alt cur [] = []"
| "alt_endpoints alt cur (x # xs) =
     (if x ! 1 = USB_DESCRIPTOR_TYPE_INTERFACE then alt_endpoints alt (x ! 3) xs
      else if x ! 1 = USB_DESCRIPTOR_TYPE_ENDPOINT \<and> cur = alt then endpoint_of x # alt_endpoints alt cur xs
      else alt_endpoints alt cur xs)"

lemma of_nat_le_u32:
  "m < 2 ^ 32 \<Longrightarrow> n < 2 ^ 32 \<Longrightarrow> (of_nat m :: u32) \<le> of_nat n \<longleftrightarrow> m \<le> n"
  by (simp add: word_le_nat_alt unat_of_nat)

lemma of_nat_eq_0_u32: "n < 2 ^ 32 \<Longrightarrow> (of_nat n :: u32) = 0 \<longleftrightarrow> n = 0"
  using of_nat_le_u32 [of n 0] by simp

lemma desc_ok_ne: "desc_ok x \<Longrightarrow> 0 < length x" "desc_ok x \<Longrightarrow> 1 < length x"
  by (auto simp: desc_ok_def)

text \<open>Reading the descriptor \<open>x\<close> of the array at its position \<open>i\<close>.\<close>

lemma load_at:
  assumes "d = concat pre @ x @ post" "i = length (concat pre)"
  shows "k < length x \<Longrightarrow> load_elem d (i + k) = ret (x ! k)"
    and "0 < length x \<Longrightarrow> load_elem d i = ret (x ! 0)"
    and "1 < length x \<Longrightarrow> load_elem d (Suc i) = ret (x ! 1)"
    and "2 < length x \<Longrightarrow> load_elem d (Suc (Suc i)) = ret (x ! 2)"
proof -
  have at: "load_elem d (i + k) = ret (x ! k)" if "k < length x" for k
    using assms that by (simp add: load_elem_def nth_append)
  show "k < length x \<Longrightarrow> load_elem d (i + k) = ret (x ! k)" by (rule at)
  show "0 < length x \<Longrightarrow> load_elem d i = ret (x ! 0)" using at [of 0] by simp
  show "1 < length x \<Longrightarrow> load_elem d (Suc i) = ret (x ! 1)" using at [of 1] by simp
  show "2 < length x \<Longrightarrow> load_elem d (Suc (Suc i)) = ret (x ! 2)" using at [of 2] by simp
qed

lemma walk_next_at:
  assumes d: "d = concat pre @ x @ post" and x: "desc_ok x" and p: "pos w = length (concat pre)"
  shows "walk_next d w = ret (w\<lparr>current_desc_len := current_desc_len w + of_nat (length x),
     pos := pos w + length x,
     left := (current_desc_len w + of_nat (length x) \<ge> desc_len w \<and> desc_len w \<noteq> 0)\<rparr>)"
proof -
  have n: "unat (x ! 0) = length x" using x by (simp add: desc_ok_def)
  then have "ucast (x ! 0) = (of_nat (length x) :: u32)" by (metis of_nat_unat)
  with n show ?thesis
    by (simp add: walk_next_def load_at(2) [OF d p] desc_ok_ne [OF x] Let_def
        del: length_greater_0_conv)
qed

lemma walk_guard_at:
  assumes d: "d = concat pre @ x @ post" and x: "desc_ok x" and p: "pos w = length (concat pre)"
  shows "walk_guard d w = ret (\<not> left w)"
proof -
  have "x ! 0 \<noteq> 0" using x by (auto simp: desc_ok_def)
  then show ?thesis
    by (simp add: walk_guard_def load_at(2) [OF d p] desc_ok_ne [OF x] del: length_greater_0_conv)
qed

lemma endpoint_at_eq:
  assumes d: "d = concat pre @ x @ post" and p: "i = length (concat pre)" and x: "6 \<le> length x"
  shows "endpoint_at d i = ret (endpoint_of x)"
  using x by (simp add: endpoint_at_def load_at [OF d p] endpoint_of_def)

lemma whileM_step:
  assumes "b v = ret True"
  shows "whileM b c v = bindM (c v) (whileM b c)"
  by (rule ext) (simp add: whileM_unfold assms)

lemma whileM_stop:
  assumes "b v = ret False"
  shows "whileM b c v = ret v"
  by (rule ext) (simp add: whileM_unfold assms)

text \<open>The walk over what follows the configuration descriptor.\<close>

lemma set_configuration_walk:
  assumes "d = concat pre @ concat xs @ post" "\<forall>x\<in>set xs. desc_ok x \<and> x ! 1 \<noteq> 2"
    "pos w = length (concat pre)" "cur_config w = idx"
    "desc_len w = of_nat (length (concat (pre @ xs)))" "length (concat (pre @ xs)) < 2 ^ 16"
    "current_desc_len w = of_nat (length (concat pre))" "left w = (xs = [])" "pre \<noteq> [] \<Longrightarrow> concat pre \<noteq> []"
    "pre \<noteq> []"
  shows "bindM (whileM (walk_guard d) (set_configuration_step dc d idx alt) w) (\<lambda>w. ret (found w))
    = foldM (\<lambda>ep _. usbd_set_endpoint dc ep) (alt_endpoints alt (cur_alt_setting w) xs) (found w)"
  using assms
proof (induction xs arbitrary: pre w)
  case Nil
  then have "walk_guard d w = ret False" by (simp add: walk_guard_def)
  then show ?case by (simp add: whileM_stop foldM_Nil)
next
  case (Cons x xs)
  have d: "d = concat pre @ x @ (concat xs @ post)" using Cons.prems by simp
  have x: "desc_ok x" and t: "x ! 1 \<noteq> 2" using Cons.prems by auto
  have len: "2 \<le> length x" using x by (simp add: desc_ok_def)
  note p = Cons.prems(3)
  define w' where "w' = (\<lambda>v :: walk. v\<lparr>current_desc_len := of_nat (length (concat (pre @ [x]))),
      pos := length (concat (pre @ [x])), left := (xs = [])\<rparr>)"
  have "(of_nat (length (concat (pre @ [x]))) :: u32) \<ge> of_nat (length (concat (pre @ x # xs)))
      \<longleftrightarrow> length (concat xs) = 0"
    using Cons.prems(6) by (subst of_nat_le_u32) simp_all
  also have "\<dots> \<longleftrightarrow> xs = []" using Cons.prems(2) by (cases xs) (auto simp: desc_ok_def)
  finally have last: "(of_nat (length (concat (pre @ [x]))) :: u32) \<ge> of_nat (length (concat (pre @ x # xs)))
      \<longleftrightarrow> xs = []" .
  have nz: "(of_nat (length (concat (pre @ x # xs))) :: u32) \<noteq> 0"
    using Cons.prems(6) len by (subst of_nat_eq_0_u32) auto
  have step: "walk_next d v = ret (w' v)" if v: "pos v = pos w"
      "current_desc_len v = current_desc_len w" "desc_len v = desc_len w" for v
    using last nz Cons.prems(3,5,7) v by (simp add: walk_next_at [OF d x] w'_def)
  have IH: "bindM (whileM (walk_guard d) (set_configuration_step dc d idx alt) (w' v)) (\<lambda>w. ret (found w))
      = foldM (\<lambda>ep _. usbd_set_endpoint dc ep) (alt_endpoints alt (cur_alt_setting v) xs) (found v)"
    if "cur_config v = idx" "desc_len v = desc_len w" for v
    using Cons.IH [of "pre @ [x]" "w' v"] Cons.prems that len by (simp add: w'_def)
  have "whileM (walk_guard d) (set_configuration_step dc d idx alt) w
     = bindM (set_configuration_step dc d idx alt w) (whileM (walk_guard d) (set_configuration_step dc d idx alt))"
    by (rule whileM_step) (simp add: walk_guard_at [OF d x p] Cons.prems(8))
  moreover have "bindM (set_configuration_step dc d idx alt w) (\<lambda>w. bindM (whileM (walk_guard d) (set_configuration_step dc d idx alt) w) (\<lambda>w. ret (found w)))
    = foldM (\<lambda>ep _. usbd_set_endpoint dc ep) (alt_endpoints alt (cur_alt_setting w) (x # xs)) (found w)"
  proof (cases "x ! 1 = 4 \<or> x ! 1 = 5")
    case False
    then show ?thesis using t Cons.prems(4) desc_ok_ne [OF x]
      by (simp add: set_configuration_step_def load_at [OF d p] step IH)
  next
    case True
    then have "x ! 1 = 4 \<and> 4 \<le> length x \<or> x ! 1 = 5 \<and> 6 \<le> length x" using x by (auto simp: desc_ok_def)
    then show ?thesis using t Cons.prems(4) desc_ok_ne [OF x]
      by (auto simp: set_configuration_step_def load_at [OF d p] endpoint_at_eq [OF d p] step IH
          foldM_Cons bindM_assoc)
  qed
  ultimately show ?case by (simp add: bindM_assoc)
qed

text \<open>
  A configuration: the configuration descriptor, which gives the length of the whole, then
  interface, endpoint and class descriptors.
\<close>

definition config_ok :: "u8 list \<Rightarrow> u8 list list \<Rightarrow> bool" where
  "config_ok c xs \<longleftrightarrow> desc_ok c \<and> c ! 1 = USB_DESCRIPTOR_TYPE_CONFIGURATION
     \<and> le16 (c ! 2) (c ! 3) = of_nat (length (concat (c # xs)))
     \<and> length (concat (c # xs)) < 2 ^ 16
     \<and> (\<forall>x\<in>set xs. desc_ok x \<and> x ! 1 \<noteq> USB_DESCRIPTOR_TYPE_CONFIGURATION)"

lemma walk_init_sel:
  "pos walk_init = 0" "desc_len walk_init = 0" "current_desc_len walk_init = 0" "\<not> left walk_init"
  "cur_alt_setting walk_init = 0xFF"
  by (simp_all add: walk_init_def)

lemma config_ok_length:
  assumes "config_ok c xs"
  shows "(of_nat (length (concat (c # xs))) :: u32) \<le> of_nat (length c) \<longleftrightarrow> xs = []"
    and "(of_nat (length (concat (c # xs))) :: u32) \<noteq> 0"
proof -
  have len: "length (concat (c # xs)) < 2 ^ 16" "\<forall>x\<in>set xs. desc_ok x" "desc_ok c"
    using assms by (auto simp: config_ok_def)
  have "(of_nat (length (concat (c # xs))) :: u32) \<le> of_nat (length c) \<longleftrightarrow> length (concat xs) = 0"
    using len by (subst of_nat_le_u32) simp_all
  also have "\<dots> \<longleftrightarrow> xs = []" using len(2) by (cases xs) (auto simp: desc_ok_def)
  finally show "(of_nat (length (concat (c # xs))) :: u32) \<le> of_nat (length c) \<longleftrightarrow> xs = []" .
  show "(of_nat (length (concat (c # xs))) :: u32) \<noteq> 0"
    using len by (subst of_nat_eq_0_u32) (auto simp: desc_ok_def)
qed

lemma set_configuration_at_head:
  assumes ok: "config_ok c xs" and c: "c ! 5 = idx" and D: "D = concat (c # xs) @ post"
  shows "bindM (whileM (walk_guard D) (set_configuration_step dc D idx alt) walk_init) (\<lambda>w. ret (found w))
    = foldM (\<lambda>ep _. usbd_set_endpoint dc ep) (alt_endpoints alt 0xFF xs) True"
proof -
  have d: "D = concat [] @ c @ (concat xs @ post)" using D by simp
  have x: "desc_ok c" "8 \<le> length c" "c ! 1 = 2"
    using ok by (auto simp: config_ok_def desc_ok_def)
  have p: "pos walk_init = length (concat [])" by (simp add: walk_init_sel)
  define n :: u32 where "n = of_nat (length (concat (c # xs)))"
  have n: "le16 (c ! 2) (c ! 3) = n" "n \<le> of_nat (length c) \<longleftrightarrow> xs = []" "n \<noteq> 0"
    using ok config_ok_length [OF ok] by (simp_all add: config_ok_def n_def)
  define w where "w = walk_init\<lparr>cur_config := idx, found := True, desc_len := n,
      current_desc_len := of_nat (length c), pos := length c, left := (xs = [])\<rparr>"
  have "set_configuration_step dc D idx alt walk_init = ret (walk_init\<lparr>cur_config := idx, found := True,
      desc_len := n, current_desc_len := of_nat (length c), pos := pos walk_init + length c, left := (xs = [])\<rparr>)"
    using x c n
    by (simp add: set_configuration_step_def total_length_def load_at [OF d p] walk_next_at [OF d x(1)] p
        del: concat.simps)
  then have step: "set_configuration_step dc D idx alt walk_init = ret w"
    by (simp add: w_def walk_init_sel)
  have "walk_guard D walk_init = ret True"
    by (simp add: walk_guard_at [OF d x(1) p] walk_init_sel)
  then have "whileM (walk_guard D) (set_configuration_step dc D idx alt) walk_init
      = whileM (walk_guard D) (set_configuration_step dc D idx alt) w"
    by (simp add: whileM_step step)
  moreover have "bindM (whileM (walk_guard D) (set_configuration_step dc D idx alt) w) (\<lambda>w. ret (found w))
      = foldM (\<lambda>ep _. usbd_set_endpoint dc ep) (alt_endpoints alt (cur_alt_setting w) xs) (found w)"
    by (rule set_configuration_walk [where pre = "[c]" and post = post])
      (use ok x D in \<open>auto simp: w_def config_ok_def n_def\<close>)
  ultimately show ?thesis by (simp add: w_def walk_init_sel)
qed

text \<open>
  With another configuration value the length is never taken from the descriptor, so only a zero
  length byte ends the walk: without one it runs past the end of the array.
\<close>

lemma set_configuration_runs_off:
  assumes "D = concat pre @ concat xs" "\<forall>x\<in>set xs. desc_ok x \<and> (x ! 1 = 2 \<longrightarrow> x ! 5 \<noteq> idx)"
    "pos w = length (concat pre)" "cur_config w \<noteq> idx \<or> xs \<noteq> [] \<and> hd xs ! 1 = 2" "desc_len w = 0" "\<not> left w"
  shows "whileM (walk_guard D) (set_configuration_step dc D idx alt) w = faultM Out_Of_Bounds"
  using assms
proof (induction xs arbitrary: pre w)
  case Nil
  then have "walk_guard D w = faultM Out_Of_Bounds" by (auto simp: walk_guard_def load_elem_def bindM_def faultM_def)
  then show ?case by (intro ext) (simp add: whileM_unfold run_simps)
next
  case (Cons x xs)
  have d: "D = concat pre @ x @ concat xs" and x: "desc_ok x" using Cons.prems by auto
  note p = Cons.prems(3)
  have IH: "whileM (walk_guard D) (set_configuration_step dc D idx alt) v = faultM Out_Of_Bounds"
    if "pos v = pos w + length x" "cur_config v \<noteq> idx" "desc_len v = 0" "\<not> left v" for v
    using Cons.IH [of "pre @ [x]" v] Cons.prems that by simp
  have step: "walk_next D v = ret (v\<lparr>current_desc_len := current_desc_len v + of_nat (length x),
      pos := pos w + length x, left := False\<rparr>)" if "pos v = pos w" "desc_len v = 0" for v
    using that p by (simp add: walk_next_at [OF d x])
  have "x ! 1 = 2 \<and> 8 \<le> length x \<and> x ! 5 \<noteq> idx \<or> x ! 1 = 4 \<and> 4 \<le> length x \<and> cur_config w \<noteq> idx
      \<or> x ! 1 \<noteq> 2 \<and> x ! 1 \<noteq> 4 \<and> cur_config w \<noteq> idx"
    using x Cons.prems(2,4) by (auto simp: desc_ok_def)
  then have "bindM (set_configuration_step dc D idx alt w)
      (whileM (walk_guard D) (set_configuration_step dc D idx alt)) = faultM Out_Of_Bounds"
    using Cons.prems(5,6) desc_ok_ne [OF x]
    by (elim disjE) (auto simp: set_configuration_step_def load_at [OF d p] step IH)
  then show ?case
    using Cons.prems(6) by (simp add: whileM_step walk_guard_at [OF d x p])
qed

text \<open>
  Walking a well-formed configuration with another loop body: if the body leaves an assertion
  intact and moves to the next descriptor, the walk ends and the assertion holds.
\<close>

definition advanced :: "u8 list \<Rightarrow> walk \<Rightarrow> walk \<Rightarrow> bool" where
  "advanced x w v \<longleftrightarrow> pos v = pos w + length x \<and> desc_len v = desc_len w
     \<and> current_desc_len v = current_desc_len w + of_nat (length x)
     \<and> left v = (current_desc_len v \<ge> desc_len v \<and> desc_len v \<noteq> 0)"

locale descriptor_walk =
  fixes step :: "u8 list \<Rightarrow> walk \<Rightarrow> walk usb"
    and wanted :: "u8 list \<Rightarrow> bool"
    and assertion :: "walk \<Rightarrow> usb_state \<Rightarrow> bool"
  assumes step_head: "\<And>d c post s. d = c @ post \<Longrightarrow> desc_ok c \<Longrightarrow> c ! 1 = 2 \<Longrightarrow> assertion walk_init s \<Longrightarrow>
      wp (step d walk_init) (\<lambda>v s'. assertion v s' \<and>
        advanced c (walk_init\<lparr>desc_len := le16 (c ! 2) (c ! 3)\<rparr>) v) s"
    and step_rest: "\<And>d pre x post w s. d = concat pre @ x @ post \<Longrightarrow> desc_ok x \<Longrightarrow> x ! 1 \<noteq> 2 \<Longrightarrow>
      wanted x \<Longrightarrow> pos w = length (concat pre) \<Longrightarrow> assertion w s \<Longrightarrow>
      wp (step d w) (\<lambda>v s'. assertion v s' \<and> advanced x w v) s"
begin

lemma walk_rest:
  assumes "d = concat pre @ concat xs @ post" "\<forall>x\<in>set xs. desc_ok x \<and> x ! 1 \<noteq> 2 \<and> wanted x"
    "pos w = length (concat pre)" "concat pre \<noteq> []" "assertion w s"
    "desc_len w = of_nat (length (concat (pre @ xs)))" "length (concat (pre @ xs)) < 2 ^ 16"
    "current_desc_len w = of_nat (length (concat pre))" "left w = (xs = [])"
  shows "wp (whileM (walk_guard d) (step d) w) assertion s"
  using assms
proof (induction xs arbitrary: pre w s)
  case Nil
  then show ?case by (simp add: walk_guard_def whileM_stop wp_simps)
next
  case (Cons x xs)
  have d: "d = concat pre @ x @ (concat xs @ post)" and x: "desc_ok x" "x ! 1 \<noteq> 2" "wanted x"
    using Cons.prems by auto
  have "(of_nat (length (concat (pre @ x # xs))) :: u32) \<le> of_nat (length (concat (pre @ [x])))
      \<longleftrightarrow> length (concat xs) = 0"
    using Cons.prems(7) by (subst of_nat_le_u32) simp_all
  also have "\<dots> \<longleftrightarrow> xs = []" using Cons.prems(2) by (cases xs) (auto simp: desc_ok_def)
  finally have last: "(of_nat (length (concat (pre @ x # xs))) :: u32)
      \<le> of_nat (length (concat (pre @ [x]))) \<longleftrightarrow> xs = []" .
  have nz: "(of_nat (length (concat (pre @ x # xs))) :: u32) \<noteq> 0"
    using Cons.prems(7) x(1) by (subst of_nat_eq_0_u32) (auto simp: desc_ok_def)
  have "wp (whileM (walk_guard d) (step d) v) assertion s'"
    if a: "assertion v s'" "advanced x w v" for v s'
    using Cons.IH [of "pre @ [x]" v s'] Cons.prems a last nz by (simp add: advanced_def add.assoc)
  then have "wp (step d w) (\<lambda>v. wp (whileM (walk_guard d) (step d) v) assertion) s"
    by (intro wp_mono [OF step_rest [OF d x Cons.prems(3,5)]]) simp
  then show ?case
    using Cons.prems(9) by (simp add: whileM_step walk_guard_at [OF d x(1) Cons.prems(3)] wp_simps)
qed

lemma walk_config:
  assumes ok: "config_ok c xs" and w: "\<forall>x\<in>set xs. wanted x" and s: "assertion walk_init s"
  shows "wp (whileM (walk_guard (concat (c # xs))) (step (concat (c # xs))) walk_init) assertion s"
proof -
  let ?d = "concat (c # xs)"
  have d: "?d = concat [] @ c @ concat xs" and c: "desc_ok c" "c ! 1 = 2" "c \<noteq> []"
    using ok by (auto simp: config_ok_def desc_ok_def)
  have p: "pos walk_init = length (concat [])" "\<not> left walk_init" by (simp_all add: walk_init_def)
  note n = config_ok_length [OF ok]
  have "wp (whileM (walk_guard ?d) (step ?d) v) assertion s'"
    if a: "assertion v s'" "advanced c (walk_init\<lparr>desc_len := le16 (c ! 2) (c ! 3)\<rparr>) v" for v s'
    by (rule walk_rest [where pre = "[c]" and xs = xs and post = "[]"])
      (use ok w c a n in \<open>auto simp: config_ok_def advanced_def walk_init_def\<close>)
  then have "wp (step ?d walk_init) (\<lambda>v. wp (whileM (walk_guard ?d) (step ?d) v) assertion) s"
    by (intro wp_mono [OF step_head [OF _ c(1,2) s]]) (auto simp: d)
  then show ?thesis
    using p(2) by (simp only: whileM_step walk_guard_at [OF d c(1) p(1)] wp_simps simp_thms)
qed

end

end
