(* ===== verification/Usb_Inv.thy ===== *)
theory Usb_Inv
  imports Usb_Walk
begin

text \<open>
  What is true of the USB stack while it runs. The log of the calls to the controller says which
  transfers are armed and which endpoints are open; \<open>usb_ok\<close> is the invariant of the tables, the
  buffers and those transfers, and \<open>ep0_view\<close> the part of the state that the control transfers depend
  on. The lemmas show that configuring the device, choosing an alternate setting and looking for a
  HID descriptor keep both; the last two are interpretations of the locale \<open>descriptor_walk\<close>.
\<close>

section \<open>The controller's view of the transfers\<close>

fun armed_in :: "u8 \<Rightarrow> dc_log_t \<Rightarrow> u8 list option" where
  "armed_in ep [] = None"
| "armed_in ep (Start_Write e bs # l) = (if e = ep then Some bs else armed_in ep l)"
| "armed_in ep (In_Done e n # l) = (if e = ep then None else armed_in ep l)"
| "armed_in ep (Setup_Received # l) = (if ep = USB_CONTROL_IN_EP0 then None else armed_in ep l)"
| "armed_in ep (Bus_Reset # l) = None"
| "armed_in ep (_ # l) = armed_in ep l"

fun armed_out :: "u8 \<Rightarrow> dc_log_t \<Rightarrow> (ptr \<times> u32) option" where
  "armed_out ep [] = None"
| "armed_out ep (Start_Read e p n # l) = (if e = ep then Some (p, n) else armed_out ep l)"
| "armed_out ep (Out_Done e n # l) = (if e = ep then None else armed_out ep l)"
| "armed_out ep (Setup_Received # l) = (if ep = USB_CONTROL_OUT_EP0 then None else armed_out ep l)"
| "armed_out ep (Bus_Reset # l) = None"
| "armed_out ep (_ # l) = armed_out ep l"

fun is_open :: "u8 \<Rightarrow> dc_log_t \<Rightarrow> bool" where
  "is_open ep [] = False"
| "is_open ep (Ep_Open e # l) = (if bEndpointAddress e = ep then True else is_open ep l)"
| "is_open ep (Ep_Close e # l) = (if e = ep then False else is_open ep l)"
| "is_open ep (Bus_Reset # l) = False"
| "is_open ep (_ # l) = is_open ep l"

section \<open>The invariant\<close>

definition cdc_intf :: "u8 \<Rightarrow> usbd_interface" where
  "cdc_intf k = \<lparr>class_interface_handler = Some Cdc_Acm_Class_Interface_Request_Handler,
     class_endpoint_handler = None, vendor_handler = None, notify_handler = None,
     hid_report_descriptor = Null_Ptr, hid_report_descriptor_len = 0, intf_num = k\<rparr>"

definition cdc_intfs :: "usbd_interface option list" where
  "cdc_intfs = [Some (cdc_intf 0), Some (cdc_intf 1)] @ replicate 14 None"

definition usb_ok :: "usb_state \<Rightarrow> bool" where
  "usb_ok s \<longleftrightarrow> length (req_data s) = 512 \<and> length (read_buffer s) = 64 \<and> length (write_buffer s) = 64
     \<and> intf s = cdc_intfs \<and> intf_offset s = 2 \<and> length (intf_altsetting s) = 16
     \<and> map msg_cb (tx_msg s) =
         [Some Usbd_Event_Ep0_In_Complete_Handler, Some Usbd_Cdc_Acm_Bulk_In, None, None, None, None]
     \<and> map msg_cb (rx_msg s) =
         [Some Usbd_Event_Ep0_Out_Complete_Handler, None, Some Usbd_Cdc_Acm_Bulk_Out, None, None, None]
     \<and> descriptors s = Some cdc_descriptor \<and> event_handler s = Some Usbd_Event_Handler
     \<and> (is_open CDC_IN_EP (dc_log s) \<longrightarrow> ep_mps (tx_msg s ! 1) \<noteq> 0)
     \<and> (\<forall>ep p n. armed_out ep (dc_log s) = Some (p, n) \<longrightarrow>
          ep = USB_CONTROL_OUT_EP0 \<or> ep = CDC_OUT_EP \<and> p = Read_Buffer 0 \<and> n = 64)
     \<and> (\<forall>ep bs. armed_in ep (dc_log s) = Some bs \<longrightarrow> ep = USB_CONTROL_IN_EP0 \<or> ep = CDC_IN_EP)"

type_synonym ep0_view_t =
  "usb_setup_packet \<times> ptr \<times> u32 \<times> bool \<times> u8 list option \<times> (ptr \<times> u32) option"

definition ep0_view :: "usb_state \<Rightarrow> ep0_view_t" where
  "ep0_view s = (setup_pkt s, ep0_data_buf s, ep0_data_buf_residue s, zlp_flag s,
     armed_in USB_CONTROL_IN_EP0 (dc_log s), armed_out USB_CONTROL_OUT_EP0 (dc_log s))"

abbreviation keeps :: "ep0_view_t \<Rightarrow> usb_state \<Rightarrow> bool" where
  "keeps v s \<equiv> usb_ok s \<and> ep0_view s = v"

text \<open>Reading \<open>min (*len) wLength\<close> bytes of the answer, as far as the request buffer can take them.\<close>

definition answer_ok :: "usb_setup_packet \<Rightarrow> ptr \<Rightarrow> usb_state \<Rightarrow> bool" where
  "answer_ok pkt p s \<longleftrightarrow>
     (let n = min (unat (ep0_data_buf_len s)) (unat (wLength pkt)) in n \<le> 512 \<longrightarrow> readable p n s)"

text \<open>Updates outside the invariant, and items of the log that cannot disturb it.\<close>

lemma usb_ok_update [simp]:
  "usb_ok (s\<lparr>setup_pkt := x0\<rparr>) = usb_ok s"
  "usb_ok (s\<lparr>ep0_data_buf := x1\<rparr>) = usb_ok s"
  "usb_ok (s\<lparr>ep0_data_buf_residue := x2\<rparr>) = usb_ok s"
  "usb_ok (s\<lparr>ep0_data_buf_len := x3\<rparr>) = usb_ok s"
  "usb_ok (s\<lparr>zlp_flag := x4\<rparr>) = usb_ok s"
  "usb_ok (s\<lparr>configuration := x5\<rparr>) = usb_ok s"
  "usb_ok (s\<lparr>device_address := x6\<rparr>) = usb_ok s"
  "usb_ok (s\<lparr>ep0_next_state := x7\<rparr>) = usb_ok s"
  "usb_ok (s\<lparr>self_powered := x8\<rparr>) = usb_ok s"
  "usb_ok (s\<lparr>remote_wakeup_support := x9\<rparr>) = usb_ok s"
  "usb_ok (s\<lparr>remote_wakeup_enabled := x10\<rparr>) = usb_ok s"
  "usb_ok (s\<lparr>is_suspend := x11\<rparr>) = usb_ok s"
  "usb_ok (s\<lparr>port_speed := x12\<rparr>) = usb_ok s"
  "usb_ok (s\<lparr>reg_base := x13\<rparr>) = usb_ok s"
  "usb_ok (s\<lparr>ep_tx_busy_flag := x14\<rparr>) = usb_ok s"
  "usb_ok (s\<lparr>dtr_enable := x15\<rparr>) = usb_ok s"
  "length ys = length (req_data s) \<Longrightarrow> usb_ok (s\<lparr>req_data := ys\<rparr>) = usb_ok s"
  "length ys = length (read_buffer s) \<Longrightarrow> usb_ok (s\<lparr>read_buffer := ys\<rparr>) = usb_ok s"
  by (simp_all add: usb_ok_def)

lemma ep0_view_update [simp]:
  "ep0_view (s\<lparr>ep0_data_buf_len := x0\<rparr>) = ep0_view s"
  "ep0_view (s\<lparr>configuration := x1\<rparr>) = ep0_view s"
  "ep0_view (s\<lparr>device_address := x2\<rparr>) = ep0_view s"
  "ep0_view (s\<lparr>ep0_next_state := x3\<rparr>) = ep0_view s"
  "ep0_view (s\<lparr>self_powered := x4\<rparr>) = ep0_view s"
  "ep0_view (s\<lparr>remote_wakeup_support := x5\<rparr>) = ep0_view s"
  "ep0_view (s\<lparr>remote_wakeup_enabled := x6\<rparr>) = ep0_view s"
  "ep0_view (s\<lparr>is_suspend := x7\<rparr>) = ep0_view s"
  "ep0_view (s\<lparr>port_speed := x8\<rparr>) = ep0_view s"
  "ep0_view (s\<lparr>dtr_enable := x9\<rparr>) = ep0_view s"
  "ep0_view (s\<lparr>req_data := x10\<rparr>) = ep0_view s"
  by (simp_all add: ep0_view_def)

fun harmless :: "dc_item \<Rightarrow> bool" where
  "harmless (Start_Write ep bs) \<longleftrightarrow> ep = USB_CONTROL_IN_EP0 \<or> ep = CDC_IN_EP"
| "harmless (Start_Read ep p n) \<longleftrightarrow>
     ep = USB_CONTROL_OUT_EP0 \<or> ep = CDC_OUT_EP \<and> p = Read_Buffer 0 \<and> n = 64"
| "harmless (Ep_Open ep) \<longleftrightarrow> bEndpointAddress ep \<noteq> CDC_IN_EP"
| "harmless _ \<longleftrightarrow> True"

lemma usb_ok_log [simp]:
  assumes "usb_ok (s\<lparr>dc_log := l\<rparr>)" "harmless c"
  shows "usb_ok (s\<lparr>dc_log := c # l\<rparr>)"
proof -
  have i: "armed_in ep (c # l) = Some bs \<Longrightarrow> ep = USB_CONTROL_IN_EP0 \<or> ep = CDC_IN_EP" for ep bs
    using assms by (cases c) (auto simp: usb_ok_def split: if_splits)
  have o: "armed_out ep (c # l) = Some (p, n) \<Longrightarrow>
      ep = USB_CONTROL_OUT_EP0 \<or> ep = CDC_OUT_EP \<and> p = Read_Buffer 0 \<and> n = 64" for ep p n
    using assms by (cases c) (auto simp: usb_ok_def split: if_splits)
  have "is_open CDC_IN_EP (c # l) \<longrightarrow> ep_mps (tx_msg s ! 1) \<noteq> 0"
    using assms by (cases c) (auto simp: usb_ok_def split: if_splits)
  with i o assms(1) show ?thesis by (simp add: usb_ok_def)
qed

lemma config_descriptors_ok:
  "\<forall>x\<in>set config_descriptors. desc_ok x"
  "\<forall>x\<in>set (tl config_descriptors). x ! 1 \<noteq> 2 \<and> x ! 1 \<noteq> 0x21"
  "length config_descriptor = 75"
  "alt_endpoints 0 0xFF (tl config_descriptors) =
     [\<lparr>bEndpointAddress = CDC_INT_EP, bmAttributes = 3, wMaxPacketSize = 8\<rparr>,
      \<lparr>bEndpointAddress = CDC_OUT_EP, bmAttributes = 2, wMaxPacketSize = 64\<rparr>,
      \<lparr>bEndpointAddress = CDC_IN_EP, bmAttributes = 2, wMaxPacketSize = 64\<rparr>]"
  by (simp_all add: config_descriptors_def config_descriptor_def CDC_ACM_DESCRIPTOR_INIT_def
      USB_CONFIG_DESCRIPTOR_INIT_def WBVAL_def desc_ok_def endpoint_of_def le16_def)

section \<open>Walking the interfaces\<close>

lemma u8_lt: "unat (x :: u8) < 256"
  using unsigned_less [of x, where ?'a = nat] by simp

lemma wp_each_intf:
  assumes J: "J s" and off: "\<And>s. J s \<Longrightarrow> intf_offset s = n \<and> intf s = xs" and len: "unat n \<le> length xs"
    and body: "\<And>x s. Some x \<in> set (take (unat n) xs) \<Longrightarrow> J s \<Longrightarrow>
        wp (body x) (\<lambda>r s'. case r of None \<Rightarrow> J s' | Some v \<Rightarrow> Q (Some v) s') s"
    and fin: "\<And>s. J s \<Longrightarrow> Q None s"
  shows "wp (each_intf body) Q s"
proof -
  define b where "b = (\<lambda>(i :: u8, r :: 'a option). getM (\<lambda>s :: usb_state. r = None \<and> i < intf_offset s))"
  define c where "c = (\<lambda>(i :: u8, r :: 'a option). bindM (getM intf) (\<lambda>xs.
      bindM (load_elem xs (unat i)) (\<lambda>p.
      case p of None \<Rightarrow> ret (i + 1, None) | Some x \<Rightarrow> bindM (body x) (\<lambda>r'. ret (i + 1, r')))))"
  define I where "I = (\<lambda>(i :: u8, r) s. case r of None \<Rightarrow> J s \<and> i \<le> n | Some v \<Rightarrow> Q (Some v) s)"
  define M where "M = (\<lambda>(i :: u8, r :: 'a option) (s :: usb_state).
      case r of None \<Rightarrow> Suc (unat n - unat i) | Some v \<Rightarrow> 0)"
  have "wp (whileM b c (0, None)) (\<lambda>v s. Q (snd v) s) s"
  proof (rule wp_whileM [where I = I and M = M])
    show "I (0, None) s" using J by (simp add: I_def)
  next
    fix v s
    assume Ivs: "I v s"
    obtain i r where v: "v = (i, r)" by (cases v)
    show "wp (b v) (\<lambda>t s'. if t then wp (c v) (\<lambda>v' s''. I v' s'' \<and> M v' s'' < M v s) s'
        else Q (snd v) s') s"
    proof (cases "r = None \<and> i < n")
      case False
      with Ivs v fin off show ?thesis by (cases r) (auto simp: b_def I_def wp_simps)
    next
      case True
      with Ivs v have J': "J s" by (simp add: I_def)
      have lt: "unat i < unat n" using True by (simp add: word_less_nat_alt)
      then have "unat i + 1 < 256" using u8_lt [of n] by simp
      then have i1: "unat (i + 1) = Suc (unat i)" by (simp add: unat_word_ariths)
      have le: "i + 1 \<le> n" using lt i1 by (simp add: word_le_nat_alt)
      have len': "unat i < length xs" using lt len by simp
      have next_i: "I (i + 1, None) s' \<longleftrightarrow> J s'" "M (i + 1, r') s' < M v s" for r' s'
        using i1 lt le True v by (auto simp: I_def M_def split: option.splits)
      show ?thesis
      proof (cases "xs ! unat i")
        case None
        then show ?thesis using True v off [OF J'] J' len' next_i by (simp add: b_def c_def wp_simps)
      next
        case (Some x)
        then have "Some x \<in> set (take (unat n) xs)"
          using lt len' by (metis in_set_conv_nth length_take min_less_iff_conj nth_take)
        from wp_mono [OF body [OF this J']]
        have "wp (body x) (\<lambda>r' s'. I (i + 1, r') s') s"
          using next_i(1) by (auto simp: I_def split: option.splits)
        then show ?thesis
          using True v off [OF J'] len' Some next_i(2) by (simp add: b_def c_def wp_simps)
      qed
    qed
  qed
  then show ?thesis
    by (simp add: each_intf_def wp_simps case_prod_unfold b_def c_def)
qed

lemma set_cdc_intfs: "Some x \<in> set (take 2 cdc_intfs) \<longleftrightarrow> x = cdc_intf 0 \<or> x = cdc_intf 1"
  by (auto simp: cdc_intfs_def)

lemma length_cdc_intfs [simp]: "length cdc_intfs = 16"
  by (simp add: cdc_intfs_def)

lemma usb_ok_handler: "usb_ok s \<Longrightarrow> event_handler s = Some Usbd_Event_Handler"
  by (simp add: usb_ok_def)

lemma usb_ok_intf: "usb_ok s \<Longrightarrow> intf_offset s = 2 \<and> intf s = cdc_intfs"
  by (simp add: usb_ok_def)

lemma notify_silent:
  assumes "usb_ok s"
  shows "wp (usbd_class_event_notify_handler dc ev arg) (\<lambda>_ s'. s' = s) s"
  unfolding usbd_class_event_notify_handler_def wp_bindM wp_ret
  by (rule wp_each_intf [where J = "\<lambda>s'. s' = s" and n = 2 and xs = cdc_intfs])
    (use assms in \<open>auto simp: usb_ok_intf set_cdc_intfs cdc_intf_def wp_simps\<close>)

lemma notify_keeps:
  assumes "keeps v s"
  shows "wp (usbd_class_event_notify_handler dc ev arg) (\<lambda>_. keeps v) s"
  by (rule wp_mono [OF notify_silent]) (use assms in simp_all)

lemma event_keeps: "keeps v s \<Longrightarrow> wp (call_event_handler ev) (\<lambda>_. keeps v) s"
  by (simp add: call_event_handler_def usbd_event_handler_def wp_simps usb_ok_handler)
    (simp add: ep0_view_def)

section \<open>Endpoints\<close>

lemma config_bytes_ok:
  "usb_ok s \<Longrightarrow> wp config_bytes Q s \<longleftrightarrow> Q (Some config_descriptor) s"
  by (simp add: config_bytes_def get_descriptors_def wp_simps usb_ok_def cdc_descriptor_def
      config_descriptor_callback_cdc_def)

lemma set_endpoint_keeps:
  assumes "keeps v s" "ep \<in> {\<lparr>bEndpointAddress = CDC_INT_EP, bmAttributes = 3, wMaxPacketSize = 8\<rparr>,
      \<lparr>bEndpointAddress = CDC_OUT_EP, bmAttributes = 2, wMaxPacketSize = 64\<rparr>,
      \<lparr>bEndpointAddress = CDC_IN_EP, bmAttributes = 2, wMaxPacketSize = 64\<rparr>}"
  shows "wp (usbd_set_endpoint dc ep) (\<lambda>_. keeps v) s"
proof -
  have "length (tx_msg s) = 6" "length (rx_msg s) = 6"
    using assms(1) by (auto simp: usb_ok_def dest: arg_cong [where f = length])
  with assms show ?thesis
    by (auto simp: usbd_set_endpoint_def wp_simps usb_dc_defs usb_ok_def ep0_view_def Let_def
        map_update ep_fits_def USB_GET_MAXPACKETSIZE_def)
qed

lemma foldM_keeps:
  assumes "P s" "\<And>x v s. x \<in> set xs \<Longrightarrow> P s \<Longrightarrow> wp (f x v) (\<lambda>_. P) s"
  shows "wp (foldM f xs v) (\<lambda>_. P) s"
  using assms
proof (induction xs arbitrary: v s)
  case (Cons x xs)
  have "wp (f x v) (\<lambda>_. P) s" using Cons.prems by simp
  then show ?case
    unfolding wp_foldM by (rule wp_mono) (use Cons in auto)
qed (simp add: wp_simps)

lemma cdc_config_ok: "config_ok (hd config_descriptors) (tl config_descriptors)"
  and cdc_config_bytes: "config_descriptor = concat (hd config_descriptors # tl config_descriptors)"
  and cdc_config_value: "hd config_descriptors ! 5 = 1"
proof -
  have ne: "hd config_descriptors # tl config_descriptors = config_descriptors"
    by (simp add: config_descriptors_def)
  show "config_descriptor = concat (hd config_descriptors # tl config_descriptors)"
    unfolding ne by (simp add: config_descriptor_def)
  show "config_ok (hd config_descriptors) (tl config_descriptors)"
    using config_descriptors_ok(1-3) unfolding config_ok_def ne config_descriptor_def [symmetric]
    by (simp add: config_descriptors_def USB_CONFIG_DESCRIPTOR_INIT_def WBVAL_def le16_def)
  show "hd config_descriptors ! 5 = 1"
    by (simp add: config_descriptors_def USB_CONFIG_DESCRIPTOR_INIT_def WBVAL_def)
qed

lemma config_bytes_run: "usb_ok s \<Longrightarrow> config_bytes s = Some (Inr (Some config_descriptor, s))"
  using config_bytes_ok [of s "\<lambda>x s'. x = Some config_descriptor \<and> s' = s"] by (auto simp: wp_def)

lemma set_configuration_fold:
  assumes "usb_ok s"
  shows "usbd_set_configuration dc 1 0 s =
    foldM (\<lambda>ep _. usbd_set_endpoint dc ep) (alt_endpoints 0 0xFF (tl config_descriptors)) True s"
  using config_bytes_run [OF assms]
    set_configuration_at_head [OF cdc_config_ok cdc_config_value, of config_descriptor "[]" dc 0] cdc_config_bytes
  by (simp add: usbd_set_configuration_def run_simps deref_def)

lemma set_configuration_keeps:
  assumes "keeps v s"
  shows "wp (usbd_set_configuration dc 1 0) (\<lambda>_. keeps v) s"
proof -
  have "wp (foldM (\<lambda>ep _. usbd_set_endpoint dc ep) (alt_endpoints 0 0xFF (tl config_descriptors)) True)
      (\<lambda>_. keeps v) s"
    by (rule foldM_keeps) (use assms set_endpoint_keeps in \<open>auto simp: config_descriptors_ok\<close>)
  then show ?thesis using assms by (simp add: wp_def set_configuration_fold)
qed

lemma walk_config_step:
  assumes "d = c @ post" "desc_ok c" "c ! 1 = 2"
  shows "bindM (total_length d (pos walk_init))
      (\<lambda>n. bindM (ret (walk_init\<lparr>current_desc_len := 0, desc_len := n\<rparr>)) (walk_next d)) =
    ret (walk_init\<lparr>desc_len := le16 (c ! 2) (c ! 3), current_desc_len := of_nat (length c), pos := length c,
      left := (of_nat (length c) \<ge> le16 (c ! 2) (c ! 3) \<and> le16 (c ! 2) (c ! 3) \<noteq> 0)\<rparr>)"
proof -
  have d: "d = concat [] @ c @ post" and p: "pos walk_init = length (concat [])" and l: "8 \<le> length c"
    using assms by (auto simp: walk_init_sel desc_ok_def)
  have "walk_next d w = ret (w\<lparr>current_desc_len := current_desc_len w + of_nat (length c),
     pos := pos w + length c,
     left := (current_desc_len w + of_nat (length c) \<ge> desc_len w \<and> desc_len w \<noteq> 0)\<rparr>)"
    if "pos w = 0" for w using walk_next_at [OF d assms(2), of w] that by simp
  moreover have "total_length d (pos walk_init) = ret (le16 (c ! 2) (c ! 3))"
    using l by (simp add: total_length_def load_at [OF d p])
  ultimately show ?thesis by (simp add: walk_init_sel)
qed

lemma reset_endpoint_keeps: "keeps v s \<Longrightarrow> wp (usbd_reset_endpoint dc ep) (\<lambda>_. keeps v) s"
  by (auto simp: usbd_reset_endpoint_def wp_simps usb_dc_defs usb_ok_def ep0_view_def)

text \<open>
  The serial port's interfaces have one alternate setting, 0, whose endpoints a request to select it
  closes; no endpoint is opened for another one.
\<close>

definition endpoint_ok :: "u8 list \<Rightarrow> bool" where
  "endpoint_ok x \<longleftrightarrow> (x ! 1 = 5 \<longrightarrow> endpoint_of x \<in> set (alt_endpoints 0 0xFF (tl config_descriptors)))"

interpretation set_interface: descriptor_walk "\<lambda>d. set_interface_step dc d iface alt" endpoint_ok "\<lambda>_. keeps v"
proof
  fix d c post s
  assume d: "d = c @ post" and c: "desc_ok c" "c ! 1 = 2" and s: "keeps v s"
  have d': "d = concat [] @ c @ post" and p: "pos walk_init = length (concat [])" 
    using d by (simp_all add: walk_init_sel)
  have "set_interface_step dc d iface alt walk_init = bindM (total_length d (pos walk_init))
      (\<lambda>n. bindM (ret (walk_init\<lparr>current_desc_len := 0, desc_len := n\<rparr>)) (walk_next d))"
    using c desc_ok_ne [OF c(1)] by (simp add: set_interface_step_def load_at [OF d' p] bindM_assoc)
  also note walk_config_step [OF d c]
  finally show "wp (set_interface_step dc d iface alt walk_init) (\<lambda>w s'. keeps v s' \<and>
        advanced c (walk_init\<lparr>desc_len := le16 (c ! 2) (c ! 3)\<rparr>) w) s"
    using s by (simp add: wp_simps advanced_def walk_init_sel)
next
  fix d pre x post s and w :: walk
  assume d: "d = concat pre @ x @ post" and x: "desc_ok x" "x ! 1 \<noteq> 2" "endpoint_ok x"
    and p: "pos w = length (concat pre)" and s: "keeps v s"
  have step: "walk_next d u = ret (u\<lparr>current_desc_len := current_desc_len w + of_nat (length x),
      pos := pos w + length x, left := (current_desc_len w + of_nat (length x) \<ge> desc_len w \<and> desc_len w \<noteq> 0)\<rparr>)"
    if "pos u = pos w" "desc_len u = desc_len w" "current_desc_len u = current_desc_len w" for u
    using walk_next_at [OF d x(1), of u] that p by simp
  show "wp (set_interface_step dc d iface alt w) (\<lambda>u s'. keeps v s' \<and> advanced x w u) s"
  proof (cases "x ! 1 = 5")
    case False
    then have "x ! 1 = 4 \<and> 4 \<le> length x \<or> x ! 1 \<noteq> 4 \<and> x ! 1 \<noteq> 5" using x by (auto simp: desc_ok_def)
    then show ?thesis
      using s x desc_ok_ne [OF x(1)]
      by (elim disjE) (simp_all add: set_interface_step_def load_at [OF d p] step wp_simps advanced_def)
  next
    case True
    then have ep: "endpoint_at d (pos w) = ret (endpoint_of x)"
      using x by (intro endpoint_at_eq [OF d p]) (simp add: desc_ok_def)
    have "wp (usbd_set_endpoint dc (endpoint_of x)) (\<lambda>_. keeps v) s"
      using True x(3) s set_endpoint_keeps by (auto simp: endpoint_ok_def config_descriptors_ok)
    moreover have "wp (usbd_reset_endpoint dc (endpoint_of x)) (\<lambda>_. keeps v) s"
      by (rule reset_endpoint_keeps [OF s])
    ultimately show ?thesis
      using s True desc_ok_ne [OF x(1)]
      by (auto simp: set_interface_step_def load_at [OF d p] ep step wp_simps advanced_def)
  qed
qed

lemma set_interface_keeps:
  assumes "keeps v s"
  shows "wp (usbd_set_interface dc iface alt) (\<lambda>_. keeps v) s"
proof -
  have ep: "\<forall>x\<in>set (tl config_descriptors). endpoint_ok x"
    by (simp add: endpoint_ok_def config_descriptors_ok)
      (simp add: config_descriptors_def CDC_ACM_DESCRIPTOR_INIT_def WBVAL_def endpoint_of_def le16_def)
  have "wp (whileM (walk_guard config_descriptor) (set_interface_step dc config_descriptor iface alt) walk_init)
      (\<lambda>_. keeps v) s"
    using set_interface.walk_config [OF cdc_config_ok ep assms] by (simp add: cdc_config_bytes)
  then have "wp (whileM (walk_guard config_descriptor) (set_interface_step dc config_descriptor iface alt) walk_init)
      (\<lambda>w. wp (usbd_class_event_notify_handler dc USBD_EVENT_SET_INTERFACE (if_desc w)) (\<lambda>_. keeps v)) s"
    by (rule wp_mono) (rule notify_keeps)
  then show ?thesis
    using assms by (simp add: usbd_set_interface_def wp_bindM wp_ret wp_deref config_bytes_ok)
qed

text \<open>The serial port has no HID descriptor: the search for one ends without it.\<close>

interpretation hid: descriptor_walk "\<lambda>d. hid_descriptor_step d i" "\<lambda>x. x ! 1 \<noteq> 0x21" "\<lambda>w s. s = s0 \<and> \<not> found w"
proof
  fix d c post s
  assume d: "d = c @ post" and c: "desc_ok c" "c ! 1 = 2" and s: "s = s0 \<and> \<not> found walk_init"
  have d': "d = concat [] @ c @ post" and p: "pos walk_init = length (concat [])"
    using d by (simp_all add: walk_init_sel)
  have "hid_descriptor_step d i walk_init = bindM (total_length d (pos walk_init))
      (\<lambda>n. bindM (ret (walk_init\<lparr>current_desc_len := 0, desc_len := n\<rparr>)) (walk_next d))"
    using c desc_ok_ne [OF c(1)] by (simp add: hid_descriptor_step_def load_at [OF d' p] bindM_assoc)
  also note walk_config_step [OF d c]
  finally show "wp (hid_descriptor_step d i walk_init) (\<lambda>w s'. (s' = s0 \<and> \<not> found w) \<and>
        advanced c (walk_init\<lparr>desc_len := le16 (c ! 2) (c ! 3)\<rparr>) w) s"
    using s by (simp add: wp_simps advanced_def walk_init_sel)
next
  fix d pre x post s and w :: walk
  assume d: "d = concat pre @ x @ post" and x: "desc_ok x" "x ! 1 \<noteq> 2" "x ! 1 \<noteq> 0x21"
    and p: "pos w = length (concat pre)" and s: "s = s0 \<and> \<not> found w"
  have step: "walk_next d u = ret (u\<lparr>current_desc_len := current_desc_len w + of_nat (length x),
      pos := pos w + length x, left := (current_desc_len w + of_nat (length x) \<ge> desc_len w \<and> desc_len w \<noteq> 0)\<rparr>)"
    if "pos u = pos w" "desc_len u = desc_len w" "current_desc_len u = current_desc_len w" for u
    using walk_next_at [OF d x(1), of u] that p by simp
  have "x ! 1 = 4 \<and> 4 \<le> length x \<or> x ! 1 \<noteq> 4" using x by (auto simp: desc_ok_def)
  then show "wp (hid_descriptor_step d i w) (\<lambda>u s'. (s' = s0 \<and> \<not> found u) \<and> advanced x w u) s"
    using s x desc_ok_ne [OF x(1)]
    by (elim disjE) (simp_all add: hid_descriptor_step_def load_at [OF d p] step wp_simps advanced_def)
qed

lemma hid_search_ends:
  "wp (whileM (walk_guard config_descriptor) (hid_descriptor_step config_descriptor i) walk_init)
     (\<lambda>w s'. s' = s \<and> \<not> found w) s"
  using hid.walk_config [OF cdc_config_ok, of s s i] config_descriptors_ok(2)
  by (simp add: cdc_config_bytes walk_init_def)

end
