(* ===== verification/Usb_Safe.thy ===== *)
theory Usb_Safe
  imports Usb_Inv
begin

text \<open>
  Every request handler of the stack and of the class driver keeps the invariant and, when it accepts
  the request, leaves a data pointer and a length that can be read (\<open>served\<close>). The locale
  \<open>usb_request\<close> is that contract, which the control transfers rely on; \<open>usbd_setup_request_handler\<close>,
  with everything below it, is its interpretation.
\<close>

text \<open>
  The setup packets the stack can deal with: all but three kinds, a configuration value other than 0
  and 1, an interface number of 16 or more in a request for the alternate setting, and a line coding
  of more than seven bytes. The theory \<open>Usb_Device\<close> shows what each of the three does.
\<close>

definition benign :: "usb_setup_packet \<Rightarrow> bool" where
  "benign pkt \<longleftrightarrow>
     (let ty = bmRequestType pkt AND USB_REQUEST_TYPE_MASK;
          rcp = bmRequestType pkt AND USB_REQUEST_RECIPIENT_MASK in
      (ty = 0 \<and> rcp = 0 \<and> bRequest pkt = USB_REQUEST_SET_CONFIGURATION \<longrightarrow>
         (ucast (wValue pkt AND 0xFF) :: u8) \<in> {0, 1})
    \<and> (ty = 0 \<and> rcp = 1 \<and> bRequest pkt \<in> {USB_REQUEST_GET_INTERFACE, USB_REQUEST_SET_INTERFACE} \<longrightarrow>
         unat (LO_BYTE (wIndex pkt)) < 16)
    \<and> (ty = 0x20 \<and> rcp = 1 \<and> bRequest pkt = CDC_REQUEST_SET_LINE_CODING \<longrightarrow> unat (wLength pkt) \<le> 7))"

definition served :: "ep0_view_t \<Rightarrow> usb_setup_packet \<Rightarrow> bool \<times> ptr \<Rightarrow> usb_state \<Rightarrow> bool" where
  "served v pkt = (\<lambda>(ok, p) s. keeps v s \<and> (ok \<longrightarrow> answer_ok pkt p s))"

lemma answer_req [simp]: "usb_ok s \<Longrightarrow> answer_ok pkt (Req_Data 0) s"
  by (simp add: answer_ok_def readable_def usb_ok_def Let_def)

lemma answer_rom: "unat (ep0_data_buf_len s) \<le> length xs \<Longrightarrow> answer_ok pkt (Rom xs 0) s"
  by (auto simp: answer_ok_def readable_def Let_def)

lemma wp_store_at_req [wp_simps]:
  "wp (store_at (Req_Data j) i x) Q =
     (\<lambda>s. j + i < length (req_data s) \<and> Q () (s\<lparr>req_data := (req_data s)[j + i := x]\<rparr>))"
proof -
  have "splice_at xs k [x] = xs[k := x]" if "k < length xs" for xs :: "u8 list" and k
    using that by (simp add: splice_at_def upd_conv_take_nth_drop)
  then show ?thesis by (auto simp: store_at_def wp_simps store_ok_def fun_eq_iff)
qed

lemma wp_set_len [wp_simps]: "wp (set_len n) Q = (\<lambda>s. Q () (s\<lparr>ep0_data_buf_len := n\<rparr>))"
  by (simp add: set_len_def wp_simps)

lemma usb_ok_req: "usb_ok s \<Longrightarrow> length (req_data s) = 512 \<and> req_data s \<noteq> []"
  by (auto simp: usb_ok_def)

lemma get_descriptors_ok: "usb_ok s \<Longrightarrow> wp get_descriptors Q s \<longleftrightarrow> Q cdc_descriptor s"
  by (simp add: get_descriptors_def wp_simps usb_ok_def)

section \<open>Descriptors\<close>

lemma list_update_splice:
  "k = i + length ys \<Longrightarrow> k < length xs \<Longrightarrow> (splice_at xs i ys)[k := x] = splice_at xs i (ys @ [x])"
  by (simp add: splice_at_def list_update_append Cons_nth_drop_Suc [symmetric] del: upt_Suc)

text \<open>A string descriptor holds the characters as sixteen bit units.\<close>

definition utf16 :: "u8 list \<Rightarrow> u8 list" where
  "utf16 cs = concat (map (\<lambda>c. [c, 0]) cs)"

lemma length_utf16 [simp]: "length (utf16 cs) = 2 * length cs"
  by (induction cs) (auto simp: utf16_def)

lemma string_loop:
  assumes "n \<le> length cs" "2 * length cs + 2 \<le> length (req_data s)"
  shows "wp (foldM (\<lambda>i _. bindM (load_elem (cs @ [0]) i) (\<lambda>c.
      bindM (store_at (Req_Data 0) (2 * i + 2) c) (\<lambda>_. store_at (Req_Data 0) (2 * i + 3) 0))) [0..<n] ())
      (\<lambda>_ s'. s' = s\<lparr>req_data := splice_at (req_data s) 2 (utf16 (take n cs))\<rparr>) s"
  using assms(1)
proof (induction n)
  case 0
  then show ?case by (simp add: wp_simps utf16_def)
next
  case (Suc n)
  have n: "n < length cs" using Suc.prems by simp
  have "take (Suc n) cs = take n cs @ [cs ! n]" using n by (simp add: take_Suc_conv_app_nth)
  then have u: "utf16 (take (Suc n) cs) = (utf16 (take n cs) @ [cs ! n]) @ [0]" by (simp add: utf16_def)
  have "(splice_at xs 2 (utf16 (take n cs)))[2 * n + 2 := cs ! n, 2 * n + 3 := 0] =
      splice_at xs 2 (utf16 (take (Suc n) cs))" if "length xs = length (req_data s)" for xs
    using n assms(2) that unfolding u by (subst list_update_splice list_update_splice; simp)+
  then show ?case
    unfolding upt_Suc_append [OF le0] foldM_append wp_bindM
    by (intro wp_mono [OF Suc.IH]) (use n assms(2) in \<open>auto simp: wp_simps nth_append\<close>)
qed

lemma string_descriptor_result:
  assumes "i \<noteq> 0" "0 \<notin> set cs" "2 * length cs + 2 \<le> 512" "length (req_data s) = 512"
  shows "wp (string_descriptor i (cs @ [0]) (Req_Data 0)) (\<lambda>r s'. r = (True, Req_Data 0) \<and>
     s' = s\<lparr>req_data := splice_at (req_data s) 0 ([of_nat (2 * length cs + 2), 3] @ utf16 cs),
            ep0_data_buf_len := of_nat (2 * length cs + 2)\<rparr>) s"
proof -
  define n where "n = length cs"
  have len: "length (takeWhile (\<lambda>c. c \<noteq> 0) (cs @ [0])) = n"
    using assms(2) by (subst takeWhile_append2) (auto simp: n_def)
  have sz: "unat (of_nat n :: u16) = n" "unat (2 * of_nat n + 2 :: u16) = 2 * n + 2"
    "ucast (2 * of_nat n + 2 :: u16) = (of_nat (2 * n + 2) :: u8)"
    "ucast (2 * of_nat n + 2 :: u16) = (of_nat (2 * n + 2) :: u32)"
  proof -
    show a: "unat (of_nat n :: u16) = n" "unat (2 * of_nat n + 2 :: u16) = 2 * n + 2"
      using assms(3) by (simp_all add: n_def unat_of_nat unat_word_ariths)
    show "ucast (2 * of_nat n + 2 :: u16) = (of_nat (2 * n + 2) :: u8)"
      "ucast (2 * of_nat n + 2 :: u16) = (of_nat (2 * n + 2) :: u32)"
      using a(2) by (metis of_nat_unat)+
  qed
  have rd: "splice_at (xs[0 := a, Suc 0 := b]) 2 ys = splice_at xs 0 ([a, b] @ ys)"
    if "2 \<le> length xs" for xs ys :: "u8 list" and a b
    using that by (cases xs; cases "tl xs") (auto simp: splice_at_def)
  have loop: "wp (foldM (\<lambda>i _. bindM (load_elem (cs @ [0]) i) (\<lambda>c.
      bindM (store_at (Req_Data 0) (2 * i + 2) c) (\<lambda>_. store_at (Req_Data 0) (2 * i + 3) 0))) [0..<n] ())
      (\<lambda>_ s'. s' = s\<lparr>req_data := splice_at (req_data s) 0 ([a, b] @ utf16 cs)\<rparr>)
      (s\<lparr>req_data := (req_data s)[0 := a, Suc 0 := b]\<rparr>)" for a b
    by (rule wp_mono [OF string_loop]) (use assms in \<open>auto simp: n_def rd\<close>)
  have "req_data s \<noteq> []" "\<not> 255 < n" using assms by (auto simp: n_def)
  then show ?thesis
    using assms sz
    by (simp add: string_descriptor_def c_strlen_def len Let_def wp_simps)
      (rule wp_mono [OF loop [simplified]], simp add: n_def)
qed

lemma string_served:
  assumes "keeps v s" "i \<le> 3"
  shows "wp (string_descriptor i (string_descriptors ! unat i) (Req_Data 0)) (served v pkt) s"
proof (cases "i = 0")
  case True
  then show ?thesis
    using assms usb_ok_req [of s]
    by (simp add: string_descriptor_def wp_simps served_def string_descriptors_def)
next
  case False
  have "unat i \<noteq> 0" "unat i \<le> 3" using False assms(2) by (simp_all add: word_le_nat_alt unat_eq_zero)
  then have "unat i = 1 \<or> unat i = 2 \<or> unat i = 3" by linarith
  then obtain cs where str: "string_descriptors ! unat i = cs @ [0]" and cs: "length cs \<le> 18" "0 \<notin> set cs"
    by (elim disjE) (auto simp: string_descriptors_def c_string_def)
  show ?thesis
    unfolding str by (rule wp_mono [OF string_descriptor_result])
      (use assms cs False usb_ok_req [of s] in \<open>auto simp: served_def\<close>)
qed

lemma get_descriptor_served:
  assumes "keeps v s"
  shows "wp (usbd_get_descriptor dc ti (Req_Data 0)) (served v pkt) s"
proof -
  have d: "length device_descriptor = 18" "device_descriptor ! 0 = 18" "config_descriptor ! 7 = 0x80"
    "config_descriptor ! Suc (Suc 0) = 75" "config_descriptor ! 3 = 0" "length config_descriptor = 75"
    by (simp_all add: device_descriptor_def USB_DEVICE_DESCRIPTOR_INIT_def WBVAL_def config_descriptor_def
        config_descriptors_def USB_CONFIG_DESCRIPTOR_INIT_def CDC_ACM_DESCRIPTOR_INIT_def le16_def)
  consider "HI_BYTE ti = 1" | "HI_BYTE ti = 2" | "HI_BYTE ti = 3" | "HI_BYTE ti \<notin> {1, 2, 3}" by auto
  then show ?thesis
  proof cases
    case 3
    then show ?thesis
      using assms string_served [OF assms, of "LO_BYTE ti"]
      by (auto simp: usbd_get_descriptor_def Let_def wp_simps get_descriptors_ok cdc_descriptor_def
          string_descriptor_callback_cdc_def served_def not_less [symmetric])
  qed (use assms d in \<open>auto simp: usbd_get_descriptor_def Let_def wp_simps get_descriptors_ok usbd_get_port_speed_def
          cdc_descriptor_def call_desc_def device_descriptor_callback_cdc_def config_descriptor_callback_cdc_def
          give_desc_def served_def answer_rom total_length_def le16_def\<close>)
qed

section \<open>Requests\<close>

text \<open>What every request handler of the stack and of the class driver promises its caller.\<close>

locale usb_request =
  fixes handler :: "usb_setup_packet \<Rightarrow> ptr \<Rightarrow> (bool \<times> ptr) usb"
    and allowed :: "usb_setup_packet \<Rightarrow> bool"
  assumes serves: "keeps v s \<Longrightarrow> allowed pkt \<Longrightarrow> wp (handler pkt (Req_Data 0)) (served v pkt) s"

lemma std_device_served:
  assumes s: "keeps v s" and ok: "bRequest pkt = 9 \<longrightarrow> (ucast (wValue pkt AND 0xFF) :: u8) \<in> {0, 1}"
  shows "wp (usbd_std_device_req_handler dc pkt (Req_Data 0)) (served v pkt) s"
proof -
  consider "bRequest pkt = 9" "(ucast (wValue pkt AND 0xFF) :: u8) = 1"
    | "bRequest pkt = 6" | "bRequest pkt = 1 \<or> bRequest pkt = 3"
    | "bRequest pkt \<notin> {1, 3, 6, 9} \<or> bRequest pkt = 9 \<and> (ucast (wValue pkt AND 0xFF) :: u8) = 0"
    using ok by auto
  then show ?thesis
  proof cases
    case 1
    have conf: "wp (usbd_class_event_notify_handler dc USBD_EVENT_CONFIGURED Null_Ptr)
        (\<lambda>_. wp (call_event_handler USBD_EVENT_CONFIGURED) (\<lambda>_. keeps v)) s'" if "keeps v s'" for s'
      by (rule wp_mono [OF notify_keeps [OF that]]) (rule event_keeps)
    have "wp (usbd_set_configuration dc 1 0) (\<lambda>ok s'. if \<not> ok then keeps v s' else
        wp (usbd_class_event_notify_handler dc USBD_EVENT_CONFIGURED Null_Ptr)
        (\<lambda>_. wp (call_event_handler USBD_EVENT_CONFIGURED) (\<lambda>_. keeps v))
        (s'\<lparr>configuration := 1, is_suspend := False\<rparr>)) s"
      by (rule wp_mono [OF set_configuration_keeps [OF s]]) (simp add: conf)
    then show ?thesis
      unfolding usbd_std_device_req_handler_def using 1
      by (simp add: Let_def wp_simps served_def cong: if_cong) (erule wp_mono, auto elim!: wp_mono split: if_splits)
  next
    case 2
    then show ?thesis
      using get_descriptor_served [OF s] by (simp add: usbd_std_device_req_handler_def Let_def)
  next
    case 3
    have "wp (call_event_handler ev) (\<lambda>_ s'. served v pkt (True, Req_Data 0) (s'\<lparr>ep0_data_buf_len := 0\<rparr>)) s'"
      if "keeps v s'" for ev s'
      by (rule wp_mono [OF event_keeps [OF that]]) (auto simp: served_def)
    with 3 s show ?thesis
      by (auto simp: usbd_std_device_req_handler_def Let_def wp_simps) (auto simp: served_def)
  next
    case 4
    then show ?thesis
      using s usb_ok_req [of s]
      by (auto simp: usbd_std_device_req_handler_def Let_def wp_simps served_def usb_dc_defs)
        (auto simp: usb_ok_def ep0_view_def)
  qed
qed

lemma std_interface_served:
  assumes s: "keeps v s"
    and ok: "bRequest pkt = 10 \<or> bRequest pkt = 11 \<longrightarrow> unat (LO_BYTE (wIndex pkt)) < 16"
  shows "wp (usbd_std_interface_req_handler dc pkt (Req_Data 0)) (served v pkt) s"
proof -
  have alt: "length (intf_altsetting s) = 16" using s by (simp add: usb_ok_def)
  consider "bRequest pkt = 11" | "bRequest pkt = 6" "HI_BYTE (wValue pkt) = 0x21"
    | "bRequest pkt = 6" "HI_BYTE (wValue pkt) = 0x22"
    | "bRequest pkt \<notin> {6, 11}" | "bRequest pkt = 6" "HI_BYTE (wValue pkt) \<notin> {0x21, 0x22}" by auto
  then show ?thesis
  proof cases
    case 1
    have "keeps v (s\<lparr>intf_altsetting := (intf_altsetting s)[unat (LO_BYTE (wIndex pkt)) := LO_BYTE (wValue pkt)]\<rparr>)"
      using s by (auto simp: usb_ok_def ep0_view_def)
    from set_interface_keeps [OF this, of dc "ucast (wIndex pkt)" "ucast (wValue pkt)"] 1 s alt ok
    show ?thesis
      by (auto simp: usbd_std_interface_req_handler_def Let_def wp_simps config_bytes_ok
          usb_device_is_configured_def served_def elim!: wp_mono)
  next
    case 2
    with s show ?thesis
      by (auto simp: usbd_std_interface_req_handler_def Let_def wp_simps config_bytes_ok
          usb_device_is_configured_def served_def intro!: wp_mono [OF hid_search_ends])
  next
    case 3
    have "wp (each_intf (\<lambda>x. if intf_num x = LO_BYTE (wIndex pkt) then
          bindM (set_len (hid_report_descriptor_len x)) (\<lambda>_. ret (Some (hid_report_descriptor x)))
          else ret None))
        (\<lambda>r. served v pkt (case r of None \<Rightarrow> (False, Req_Data 0) | Some q \<Rightarrow> (True, q))) s"
      by (rule wp_each_intf [where J = "keeps v" and n = 2 and xs = cdc_intfs])
        (use s in \<open>auto simp: usb_ok_intf set_cdc_intfs cdc_intf_def wp_simps served_def answer_ok_def readable_def\<close>)
    with 3 s show ?thesis
      by (simp add: usbd_std_interface_req_handler_def Let_def wp_simps config_bytes_ok
          usb_device_is_configured_def) (simp add: served_def)
  qed (use s alt ok usb_ok_req [of s] in \<open>auto simp: usbd_std_interface_req_handler_def Let_def wp_simps
          config_bytes_ok usb_device_is_configured_def served_def\<close>)
qed

lemma std_endpoint_served:
  assumes s: "keeps v s"
  shows "wp (usbd_std_endpoint_req_handler dc pkt (Req_Data 0)) (served v pkt) s"
proof -
  have "keeps v (s\<lparr>dc_log := Ep_Clear_Stall e # dc_log s\<rparr>)" "keeps v (s\<lparr>dc_log := Ep_Set_Stall e # dc_log s\<rparr>)" for e
    using s by (auto simp: usb_ok_def ep0_view_def)
  with s usb_ok_req [of s] show ?thesis
    by (auto simp: usbd_std_endpoint_req_handler_def Let_def wp_simps usb_device_is_configured_def usb_dc_defs served_def)
qed

definition answered :: "ep0_view_t \<Rightarrow> usb_setup_packet \<Rightarrow> int \<times> ptr \<Rightarrow> usb_state \<Rightarrow> bool" where
  "answered v pkt = (\<lambda>(rc, p). served v pkt (\<not> rc < 0, p))"

lemma cdc_request_answered:
  assumes s: "keeps v s" and ok: "bRequest pkt = 0x20 \<longrightarrow> unat (wLength pkt) \<le> 7"
  shows "wp (cdc_acm_class_interface_request_handler pkt (Req_Data 0)) (answered v pkt) s"
proof -
  have "readable (Req_Data 0) n s" "store_ok (Req_Data 0) n s" if "n \<le> 512" for n
    using s that by (simp_all add: readable_def store_ok_def usb_ok_def)
  with s ok usb_ok_req [of s] show ?thesis
    by (auto simp: cdc_acm_class_interface_request_handler_def Let_def wp_simps answered_def served_def
        memcpy_line_coding_def usbd_cdc_acm_set_line_coding_def usbd_cdc_acm_get_line_coding_def
        usbd_cdc_acm_set_dtr_def usbd_cdc_acm_set_rts_def usbd_cdc_acm_send_break_def line_coding_bytes_def)
qed

lemma class_request_answered:
  assumes s: "keeps v s"
    and ok: "bmRequestType pkt AND 3 = 1 \<and> bRequest pkt = 0x20 \<longrightarrow> unat (wLength pkt) \<le> 7"
  shows "wp (usbd_class_request_handler pkt (Req_Data 0)) (answered v pkt) s"
proof -
  let ?Q = "\<lambda>r s'. answered v pkt (case r of None \<Rightarrow> (-1, Req_Data 0) | Some q \<Rightarrow> q) s'"
  have none: "?Q None s'" if "keeps v s'" for s' using that by (simp add: answered_def served_def)
  have intf: "wp (each_intf (\<lambda>x. case class_interface_handler x of None \<Rightarrow> ret None
      | Some h \<Rightarrow> if ucast (intf_num x) = wIndex pkt AND 0xFF
                 then bindM (call_request_handler h pkt (Req_Data 0)) (\<lambda>r. ret (Some r)) else ret None)) ?Q s"
    if "bmRequestType pkt AND 3 = 1"
  proof (rule wp_each_intf [where J = "keeps v" and n = 2 and xs = cdc_intfs])
    fix x s'
    assume x: "Some x \<in> set (take (unat (2 :: u8)) cdc_intfs)" and s': "keeps v s'"
    have ok': "bRequest pkt = 0x20 \<longrightarrow> unat (wLength pkt) \<le> 7" using ok that by simp
    show "wp (case class_interface_handler x of None \<Rightarrow> ret None
        | Some h \<Rightarrow> if ucast (intf_num x) = wIndex pkt AND 0xFF
            then bindM (call_request_handler h pkt (Req_Data 0)) (\<lambda>r. ret (Some r)) else ret None)
        (\<lambda>r s'. case r of None \<Rightarrow> keeps v s' | Some q \<Rightarrow> ?Q (Some q) s') s'"
      using x s' cdc_request_answered [OF s' ok']
      by (auto simp: set_cdc_intfs cdc_intf_def wp_simps)
  qed (use s none in \<open>simp_all add: usb_ok_intf\<close>)
  have ep: "wp (each_intf (\<lambda>x. case class_endpoint_handler x of None \<Rightarrow> ret None
      | Some h \<Rightarrow> bindM (call_request_handler h pkt (Req_Data 0)) (\<lambda>r. ret (Some r)))) ?Q s"
    by (rule wp_each_intf [where J = "keeps v" and n = 2 and xs = cdc_intfs])
      (use s none in \<open>auto simp: usb_ok_intf set_cdc_intfs cdc_intf_def wp_simps\<close>)
  show ?thesis
    using intf ep none [OF s] by (auto simp: usbd_class_request_handler_def Let_def wp_simps)
qed

lemma vendor_request_answered:
  assumes s: "keeps v s"
  shows "wp (usbd_vendor_request_handler pkt (Req_Data 0)) (answered v pkt) s"
proof -
  have "wp (each_intf (\<lambda>x. case vendor_handler x of None \<Rightarrow> ret None
      | Some h \<Rightarrow> bindM (call_request_handler h pkt (Req_Data 0)) (\<lambda>(rc, p).
               ret (if rc = 0 then Some (0, p) else None)))) 
      (\<lambda>r. answered v pkt (case r of None \<Rightarrow> (-1, Req_Data 0) | Some q \<Rightarrow> q)) s"
    by (rule wp_each_intf [where J = "keeps v" and n = 2 and xs = cdc_intfs])
      (use s in \<open>auto simp: usb_ok_intf set_cdc_intfs cdc_intf_def wp_simps answered_def served_def\<close>)
  with s show ?thesis
    by (simp add: usbd_vendor_request_handler_def wp_simps get_descriptors_ok vendor_descriptors_def cdc_descriptor_def)
qed

interpretation setup_request: usb_request "usbd_setup_request_handler dc" benign
proof
  fix v s pkt
  assume s: "keeps v s" and b: "benign pkt"
  let ?ty = "bmRequestType pkt AND USB_REQUEST_TYPE_MASK"
  consider (std) "?ty = 0" | (cls) "?ty = 0x20" | (vendor) "?ty = 0x40" | (none) "?ty \<notin> {0, 0x20, 0x40}" by auto
  then show "wp (usbd_setup_request_handler dc pkt (Req_Data 0)) (served v pkt) s"
  proof cases
    case std
    have "wp (usbd_standard_request_handler dc pkt (Req_Data 0)) (answered v pkt) s"
      using std_device_served [OF s, of pkt dc] std_interface_served [OF s, of pkt dc]
        std_endpoint_served [OF s, of dc pkt] b std s
      by (auto simp: usbd_standard_request_handler_def Let_def wp_simps benign_def answered_def
          case_prod_unfold served_def elim!: wp_mono)
    with std show ?thesis
      by (auto simp: usbd_setup_request_handler_def Let_def wp_simps answered_def case_prod_unfold elim!: wp_mono)
  next
    case cls
    with class_request_answered [OF s, of pkt] b show ?thesis
      by (auto simp: usbd_setup_request_handler_def Let_def wp_simps answered_def case_prod_unfold benign_def
          elim!: wp_mono)
  next
    case vendor
    with vendor_request_answered [OF s, of pkt] show ?thesis
      by (auto simp: usbd_setup_request_handler_def Let_def wp_simps answered_def case_prod_unfold elim!: wp_mono)
  next
    case none
    with s show ?thesis by (auto simp: usbd_setup_request_handler_def Let_def wp_simps served_def)
  qed
qed

end
