(* ===== verification/Usb_Control.thy ===== *)
theory Usb_Control
  imports Usb_Safe
begin

text \<open>
  The control transfers on endpoint 0. The invariant \<open>usb_inv\<close> adds to the tables what makes a
  transfer that is under way safe: the bytes that are armed lie in the request buffer at the current
  position, which the controller's driver requires to be a multiple of four, and their number is the
  residue. The setup handler and the sending of an answer keep it,
  for every request handler that satisfies the locale \<open>usb_request\<close>.
\<close>

section \<open>The invariant of endpoint 0\<close>

definition ctl_ok :: "usb_state \<Rightarrow> bool" where
  "ctl_ok s \<longleftrightarrow> benign (setup_pkt s)
     \<and> (case armed_in USB_CONTROL_IN_EP0 (dc_log s) of None \<Rightarrow> True
        | Some bs \<Rightarrow> length bs = unat (ep0_data_buf_residue s)
            \<and> armed_out USB_CONTROL_OUT_EP0 (dc_log s) = None
            \<and> (bs \<noteq> [] \<longrightarrow> (\<exists>off. ep0_data_buf s = Req_Data off \<and> off mod 4 = 0 \<and> off + length bs \<le> 512)))
     \<and> (case armed_out USB_CONTROL_OUT_EP0 (dc_log s) of None \<Rightarrow> True
        | Some (p, n) \<Rightarrow> p = Null_Ptr \<and> n = 0 \<or>
            n \<noteq> 0 \<and> n = ep0_data_buf_residue s \<and> ep0_data_buf s = p
            \<and> (\<exists>off. p = Req_Data off \<and> off mod 4 = 0 \<and> off + unat n \<le> 512))"

definition usb_inv :: "usb_state \<Rightarrow> bool" where
  "usb_inv s \<longleftrightarrow> usb_ok s \<and> ctl_ok s"

text \<open>Between transfers: nothing is armed on endpoint 0.\<close>

definition idle :: "usb_state \<Rightarrow> bool" where
  "idle s \<longleftrightarrow> usb_ok s \<and> benign (setup_pkt s)
     \<and> armed_in USB_CONTROL_IN_EP0 (dc_log s) = None \<and> armed_out USB_CONTROL_OUT_EP0 (dc_log s) = None"

lemma idle_inv: "idle s \<Longrightarrow> usb_inv s"
  by (simp add: idle_def usb_inv_def ctl_ok_def)

lemma refuse_idle: "idle s \<Longrightarrow> wp refuse_request (\<lambda>_. idle) s"
  by (auto simp: refuse_request_def set_ep0_state_def wp_simps usb_dc_defs idle_def usb_ok_def)

lemma refuse_inv: "idle s \<Longrightarrow> wp refuse_request (\<lambda>_. usb_inv) s"
  by (rule wp_mono [OF refuse_idle]) (auto intro: idle_inv)

lemma unat_ucast16 [simp]: "unat (ucast (n :: u16) :: u32) = unat n"
  by (simp add: unsigned_ucast_eq take_bit_nat_eq_self less_trans [OF unsigned_less [of n, where ?'a = nat]])

lemma ucast16_eq_0 [simp]: "(ucast (n :: u16) :: u32) = 0 \<longleftrightarrow> n = 0"
  by (metis unat_ucast16 unat_eq_zero)

lemma residue_min:
  "unat (min (a :: u32) (ucast (n :: u16))) = min (unat a) (unat n)"
  by (simp add: min_def word_le_nat_alt)

lemma usb_inv_update [simp]:
  "usb_inv (s\<lparr>zlp_flag := x1\<rparr>) = usb_inv s"
  "usb_inv (s\<lparr>ep0_next_state := x2\<rparr>) = usb_inv s"
  by (simp_all add: usb_inv_def ctl_ok_def usb_ok_def split: option.splits)

lemma start_in_inv:
  assumes s: "idle s" and b: "ep0_data_buf s = Req_Data off" and al: "off mod 4 = 0" and n: "off + unat (ep0_data_buf_residue s) \<le> 512"
  shows "readable (Req_Data off) (unat (ep0_data_buf_residue s)) s"
    and "usb_inv (s\<lparr>dc_log := Start_Write USB_CONTROL_IN_EP0
      (bytes_at (Req_Data off) (unat (ep0_data_buf_residue s)) s) # dc_log s\<rparr>)"
proof -
  show r: "readable (Req_Data off) (unat (ep0_data_buf_residue s)) s"
    using s n by (simp add: readable_def idle_def usb_ok_def)
  show "usb_inv (s\<lparr>dc_log := Start_Write USB_CONTROL_IN_EP0
      (bytes_at (Req_Data off) (unat (ep0_data_buf_residue s)) s) # dc_log s\<rparr>)"
    using s b al n length_bytes_at [OF r] by (auto simp: usb_inv_def idle_def ctl_ok_def usb_ok_def)
qed

lemma idle_update [simp]:
  "idle (s\<lparr>ep0_data_buf_residue := x1\<rparr>) = idle s"
  "idle (s\<lparr>ep0_next_state := x2\<rparr>) = idle s"
  "idle (s\<lparr>ep0_data_buf := x3\<rparr>) = idle s"
  "idle (s\<lparr>ep0_data_buf_len := x4\<rparr>) = idle s"
  "idle (s\<lparr>zlp_flag := x5\<rparr>) = idle s"
  "length ys = length (req_data s) \<Longrightarrow> idle (s\<lparr>req_data := ys\<rparr>) = idle s"
  by (simp_all add: idle_def usb_ok_def)

lemma send_answer_inv:
  assumes s: "idle s" and b: "ep0_data_buf s = Req_Data 0" and a: "answer_ok pkt buf s"
  shows "wp (send_answer pkt buf) (\<lambda>_. usb_inv) s"
proof -
  define n where "n = min (ep0_data_buf_len s) (ucast (wLength pkt))"
  have n: "unat n = min (unat (ep0_data_buf_len s)) (unat (wLength pkt))"
    by (simp add: n_def residue_min)
  show ?thesis
  proof (cases "unat n > 512")
    case True
    have "idle (s\<lparr>ep0_data_buf_residue := n\<rparr>)" using s by simp
    from refuse_inv [OF this] True show ?thesis
      by (simp add: send_answer_def wp_simps flip: n_def)
  next
    case False
    with a n have r: "readable buf (unat n) s" by (simp add: answer_ok_def Let_def)
    then have r': "readable buf (unat n) (s\<lparr>ep0_data_buf_residue := n\<rparr>)"
      by (cases buf) (simp_all add: readable_def)
    have len: "length (req_data s) = 512" using s by (simp add: idle_def usb_ok_def)
    let ?go = "\<lambda>x. bindM (set_ep0_state x) (\<lambda>_. bindM (usbd_ep_start_write USB_CONTROL_IN_EP0 (Req_Data 0) n) (\<lambda>_.
       modM (\<lambda>s. s\<lparr>zlp_flag := (if ucast (wLength pkt) > ep0_data_buf_len s
                                  \<and> ep0_data_buf_len s mod USB_CTRL_EP_MPS = 0
                                then True else zlp_flag s)\<rparr>)))"
    have go: "wp (?go x) (\<lambda>_. usb_inv) s'"
      if "idle s'" "ep0_data_buf s' = Req_Data 0" "ep0_data_buf_residue s' = n" for s' x
      using that False start_in_inv [of "s'\<lparr>ep0_next_state := x\<rparr>" 0]
      by (simp add: wp_simps set_ep0_state_def)
    have "wp (whenM (buf \<noteq> Req_Data 0) (copy_bytes (Req_Data 0) buf (unat n)))
       (\<lambda>_ s'. idle s' \<and> ep0_data_buf s' = Req_Data 0 \<and> ep0_data_buf_residue s' = n) (s\<lparr>ep0_data_buf_residue := n\<rparr>)"
      using s b r' False len by (simp add: wp_simps copy_bytes_def store_ok_def)
    then have "wp (whenM (buf \<noteq> Req_Data 0) (copy_bytes (Req_Data 0) buf (unat n))) (\<lambda>_. wp (?go x) (\<lambda>_. usb_inv))
        (s\<lparr>ep0_data_buf_residue := n\<rparr>)" for x
      by (rule wp_mono) (simp add: go)
    from this [of "if n > 0 then 1 else 3"] False b show ?thesis
      by (simp add: send_answer_def wp_getM wp_modM wp_bindM flip: n_def)
  qed
qed


section \<open>The handlers keep the invariant\<close>

text \<open>
  What the clients of a request handler need of it: an answer is sent, or the request is refused,
  and the invariant holds again.
\<close>

context usb_request
begin

lemma answer_sent:
  assumes s: "idle s" "ep0_data_buf s = Req_Data 0" and pkt: "allowed pkt"
  shows "wp (bindM (handler pkt (Req_Data 0)) (\<lambda>(ok, buf).
    if \<not> ok then refuse_request else send_answer pkt buf)) (\<lambda>_. usb_inv) s"
proof -
  have "wp (handler pkt (Req_Data 0)) (served (ep0_view s) pkt) s"
    using s pkt by (intro serves) (simp_all add: idle_def)
  then show ?thesis
    unfolding wp_bindM
    by (rule wp_mono) (use s in \<open>auto simp: served_def idle_def ep0_view_def
        intro!: send_answer_inv refuse_inv\<close>)
qed

lemma data_taken:
  assumes s: "idle s" and pkt: "allowed pkt" and z: "ep0_data_buf_residue s = 0"
  shows "wp (bindM (handler pkt (Req_Data 0)) (\<lambda>(ok, p).
    bindM (modM (\<lambda>s. s\<lparr>ep0_data_buf := p\<rparr>)) (\<lambda>_.
    if \<not> ok then refuse_request
    else bindM (set_ep0_state USBD_EP0_STATE_IN_STATUS) (\<lambda>_.
         usbd_ep_start_write USB_CONTROL_IN_EP0 Null_Ptr 0)))) (\<lambda>_. usb_inv) s"
proof -
  have "wp (handler pkt (Req_Data 0)) (served (ep0_view s) pkt) s"
    using s pkt by (intro serves) (simp_all add: idle_def)
  then show ?thesis
    unfolding wp_bindM
  proof (rule wp_mono)
    fix r s'
    assume r: "served (ep0_view s) pkt r s'"
    obtain ok p where rp: "r = (ok, p)" by (cases r)
    have i: "idle (s'\<lparr>ep0_data_buf := p\<rparr>)" and z': "ep0_data_buf_residue s' = 0"
      using r rp s z by (auto simp: served_def idle_def ep0_view_def usb_ok_def)
    have "usb_inv (s'\<lparr>ep0_data_buf := p, ep0_next_state := 3,
        dc_log := Start_Write USB_CONTROL_IN_EP0 [] # dc_log s'\<rparr>)"
      using i z' by (auto simp: usb_inv_def ctl_ok_def idle_def usb_ok_def)
    with refuse_inv [OF i]
    show "wp (case r of (ok, p) \<Rightarrow> bindM (modM (\<lambda>s. s\<lparr>ep0_data_buf := p\<rparr>)) (\<lambda>_.
        if \<not> ok then refuse_request
        else bindM (set_ep0_state USBD_EP0_STATE_IN_STATUS) (\<lambda>_.
             usbd_ep_start_write USB_CONTROL_IN_EP0 Null_Ptr 0))) (\<lambda>_. usb_inv) s'"
      by (simp add: rp wp_simps set_ep0_state_def readable_def bytes_at_def)
  qed
qed

end

lemma ep0_setup_inv:
  assumes s: "idle s" and b: "setup_pkt s = pkt"
  shows "wp (usbd_event_ep0_setup_complete dc pkt) (\<lambda>_. usb_inv) s"
proof -
  have pkt: "benign pkt" using s b by (auto simp: idle_def)
  let ?s = "s\<lparr>ep0_data_buf := Req_Data 0, ep0_data_buf_residue := ucast (wLength pkt),
      ep0_data_buf_len := ucast (wLength pkt), zlp_flag := False\<rparr>"
  have "wp (bindM (usbd_setup_request_handler dc pkt (Req_Data 0)) (\<lambda>(ok, buf).
      if \<not> ok then refuse_request else send_answer pkt buf)) (\<lambda>_. usb_inv) ?s"
    by (rule setup_request.answer_sent) (use s pkt in simp_all)
  moreover have "usb_inv (s\<lparr>dc_log := Ep_Set_Stall x # dc_log s\<rparr>)" for x
    using s by (auto simp: usb_inv_def ctl_ok_def idle_def usb_ok_def)
  moreover have "usb_inv (?s\<lparr>ep0_next_state := 2,
      dc_log := Start_Read USB_CONTROL_OUT_EP0 (Req_Data 0) (ucast (wLength pkt)) # dc_log s\<rparr>)"
    if "wLength pkt \<noteq> 0" "unat (wLength pkt) \<le> 512"
    using s that by (auto simp: usb_inv_def ctl_ok_def idle_def usb_ok_def)
  ultimately show ?thesis
    by (auto simp: usbd_event_ep0_setup_complete_def wp_modM wp_start_read wp_bindM set_ep0_state_def
        usb_dc_defs wp_logM not_less)
qed

end
