(* ===== verification/Usb_App.thy ===== *)
theory Usb_App
  imports Usb_Control
begin

text \<open>
  The serial port of \<open>demo/cdc_acm_template.c\<close> running on the stack: \<open>cdc_acm_init\<close> and the main
  loop's transmission, interleaved with the interrupts of the controller. The interrupts and the main
  loop are the events of a step relation \<open>usb_reach\<close>, and the invariant is kept by every one of them.
\<close>

section \<open>The application\<close>

text \<open>The static interface objects, zero before \<open>main\<close>.\<close>

definition zero_intf :: usbd_interface where
  "zero_intf = \<lparr>class_interface_handler = None, class_endpoint_handler = None, vendor_handler = None,
     notify_handler = None, hid_report_descriptor = Null_Ptr, hid_report_descriptor_len = 0, intf_num = 0\<rparr>"

definition cdc_acm_init :: "usb_dc \<Rightarrow> u8 \<Rightarrow> u32 \<Rightarrow> unit usb" where
  "cdc_acm_init dc busid base =
     bindM (modM (\<lambda>s. s\<lparr>write_buffer := replicate 64 97\<rparr>)) (\<lambda>_.
     bindM (usbd_desc_register cdc_descriptor) (\<lambda>_.
     bindM (usbd_add_interface (usbd_cdc_acm_init_intf zero_intf)) (\<lambda>_.
     bindM (usbd_add_interface (usbd_cdc_acm_init_intf zero_intf)) (\<lambda>_.
     bindM (usbd_add_endpoint cdc_out_ep) (\<lambda>_.
     bindM (usbd_add_endpoint cdc_in_ep) (\<lambda>_.
     bindM (usbd_initialize dc busid base (Some Usbd_Event_Handler)) (\<lambda>_. ret ())))))))"

text \<open>The globals when \<open>main\<close> starts.\<close>

definition usb_start :: "usb_state \<Rightarrow> bool" where
  "usb_start s \<longleftrightarrow> length (read_buffer s) = 64 \<and> dc_log s = [] \<and> dtr_enable s = 0"

section \<open>Events\<close>

text \<open>
  What can happen to the stack: the controller reports a setup packet, the end of a transfer (with
  the number of bytes sent, or the bytes received) or a bus event, or the main loop starts to send.
  The step of an event is the controller's part (it stores received bytes where the transfer was
  armed) followed by the handler the controller's driver calls for it.
\<close>

datatype usb_event =
    Ev_Setup "u8 list"
  | Ev_In u8 u32
  | Ev_Out u8 "u8 list"
  | Ev_Reset
  | Ev_Suspend
  | Ev_Resume
  | Ev_Connect
  | Ev_Disconnect
  | Ev_Sof
  | Ev_Send

text \<open>
  \<open>cdc_acm_data_send_with_dtr_test\<close> up to its busy loop, which changes no state.
\<close>

definition send_start :: "unit usb" where
  "send_start =
     bindM (getM dtr_enable) (\<lambda>d.
     whenM (d \<noteq> 0)
       (bindM (modM (\<lambda>s. s\<lparr>ep_tx_busy_flag := True\<rparr>)) (\<lambda>_.
        usbd_ep_start_write CDC_IN_EP (Write_Buffer 0) (of_nat (CDC_MAX_MPS - 1)))))"

fun usb_step :: "usb_dc \<Rightarrow> usb_event \<Rightarrow> unit usb" where
  "usb_step dc (Ev_Setup b) =
     bindM (logM Setup_Received) (\<lambda>_. usbd_event_ep0_setup_complete_handler dc b)"
| "usb_step dc (Ev_In ep n) =
     bindM (logM (In_Done ep n)) (\<lambda>_. usbd_event_ep_in_complete_handler dc ep n)"
| "usb_step dc (Ev_Out ep bs) =
     bindM (getM (\<lambda>s. armed_out ep (dc_log s))) (\<lambda>a. case a of
         None \<Rightarrow> ret ()
       | Some (p, n) \<Rightarrow>
           bindM (store_bytes p bs) (\<lambda>_.
           bindM (logM (Out_Done ep (of_nat (length bs)))) (\<lambda>_.
           usbd_event_ep_out_complete_handler dc ep (of_nat (length bs)))))"
| "usb_step dc Ev_Reset = bindM (logM Bus_Reset) (\<lambda>_. usbd_event_reset_handler dc)"
| "usb_step dc Ev_Suspend = usbd_event_suspend_handler"
| "usb_step dc Ev_Resume = usbd_event_resume_handler"
| "usb_step dc Ev_Connect = usbd_event_connect_handler"
| "usb_step dc Ev_Disconnect = usbd_event_disconnect_handler"
| "usb_step dc Ev_Sof = usbd_event_sof_handler"
| "usb_step dc Ev_Send = send_start"

text \<open>
  The controller is documented to report the end of a transfer only when one is armed, with at most
  the number of bytes it was armed for, and on other endpoints than 0 only while they are open; on
  endpoint 0 it sends whole packets of 64 bytes, but for the last one. A setup packet has eight bytes.
  The status stage of a control read is armed for no bytes: a host that sends some there anyway is
  not modelled. The host is free otherwise to send any bytes.
\<close>

fun possible :: "usb_event \<Rightarrow> usb_state \<Rightarrow> bool" where
  "possible (Ev_Setup b) s = (length b = 8)"
| "possible (Ev_In ep n) s = (case armed_in ep (dc_log s) of
     None \<Rightarrow> False
   | Some bs \<Rightarrow> unat n \<le> length bs \<and>
       (if ep = USB_CONTROL_IN_EP0 then unat n = length bs \<or> 64 dvd unat n else is_open ep (dc_log s)))"
| "possible (Ev_Out ep bs) s = (case armed_out ep (dc_log s) of
     None \<Rightarrow> False
   | Some (p, n) \<Rightarrow> length bs \<le> unat n)"
| "possible _ s = True"

text \<open>
  The hosts the stack is safe with send no setup packet that \<open>benign\<close> rules out, and end the data
  stage of a control transfer early, if at all, after a multiple of four bytes: the stack arms the
  rest of the transfer behind the bytes received, and the driver asserts that address to be aligned.
\<close>

fun polite :: "usb_event \<Rightarrow> usb_state \<Rightarrow> bool" where
  "polite (Ev_Setup b) s = benign (setup_of_bytes b)"
| "polite (Ev_Out ep bs) s = (case armed_out ep (dc_log s) of
     None \<Rightarrow> True
   | Some (p, n) \<Rightarrow> ep = USB_CONTROL_OUT_EP0 \<longrightarrow> length bs = unat n \<or> 4 dvd length bs)"
| "polite _ s = True"

text \<open>The states the firmware can reach, from the start of \<open>main\<close> on.\<close>

inductive usb_reach :: "usb_dc \<Rightarrow> usb_state \<Rightarrow> bool" for dc where
  start: "usb_start s \<Longrightarrow> cdc_acm_init dc 0 base s = Some (Inr ((), s')) \<Longrightarrow> usb_reach dc s'"
| event: "usb_reach dc s \<Longrightarrow> possible e s \<Longrightarrow> polite e s \<Longrightarrow> usb_step dc e s = Some (Inr ((), s')) \<Longrightarrow>
    usb_reach dc s'"

section \<open>Every event keeps the invariant\<close>

lemma setup_inv:
  assumes "usb_inv s" "length b = 8" "benign (setup_of_bytes b)"
  shows "wp (usb_step dc (Ev_Setup b)) (\<lambda>_. usb_inv) s"
proof -
  have "idle (s\<lparr>dc_log := Setup_Received # dc_log s, setup_pkt := setup_of_bytes b\<rparr>)"
    using assms by (auto simp: usb_inv_def idle_def)
  from ep0_setup_inv [OF this refl] assms(2) show ?thesis
    by (simp add: usbd_event_ep0_setup_complete_handler_def wp_simps)
qed

lemma ep0_in_inv:
  assumes s: "usb_inv s" and a: "armed_in USB_CONTROL_IN_EP0 (dc_log s) = Some bs" and n: "unat n \<le> length bs"
    and al: "unat n = length bs \<or> 64 dvd unat n"
  shows "wp (usbd_event_ep0_in_complete_handler ep n) (\<lambda>_. usb_inv)
     (s\<lparr>dc_log := In_Done USB_CONTROL_IN_EP0 n # dc_log s\<rparr>)"
proof -
  let ?r = "ep0_data_buf_residue s - n"
  let ?s = "s\<lparr>dc_log := In_Done USB_CONTROL_IN_EP0 n # dc_log s,
     ep0_data_buf := ptr_add (ep0_data_buf s) (unat n), ep0_data_buf_residue := ?r\<rparr>"
  have len: "length bs = unat (ep0_data_buf_residue s)" and out: "armed_out USB_CONTROL_OUT_EP0 (dc_log s) = None"
    and buf: "bs \<noteq> [] \<Longrightarrow> \<exists>off. ep0_data_buf s = Req_Data off \<and> off mod 4 = 0 \<and> off + length bs \<le> 512"
    using s a by (auto simp: usb_inv_def ctl_ok_def)
  have i: "idle ?s" using s out by (auto simp: usb_inv_def ctl_ok_def idle_def)
  have r: "unat ?r = length bs - unat n" using n len by (simp add: unat_sub word_le_nat_alt)
  have "aligned (ep0_data_buf ?s) \<and> readable (ep0_data_buf ?s) (unat ?r) ?s \<and> usb_inv (?s\<lparr>dc_log := Start_Write USB_CONTROL_IN_EP0
      (bytes_at (ep0_data_buf ?s) (unat ?r) ?s) # dc_log ?s\<rparr>)" if "?r \<noteq> 0"
  proof -
    have "bs \<noteq> []" using that r by (auto simp: unat_eq_zero)
    then obtain off where off: "ep0_data_buf s = Req_Data off" "off mod 4 = 0" "off + length bs \<le> 512"
      using buf by auto
    have "64 dvd unat n" using al that r by (auto simp: unat_eq_zero)
    then have "(off + unat n) mod 4 = 0" using off(2) by presburger
    then show ?thesis
      using start_in_inv [OF i, of "off + unat n"] off n r by simp
  qed
  moreover have "usb_inv (?s\<lparr>zlp_flag := False, dc_log := Start_Write USB_CONTROL_IN_EP0 [] # dc_log ?s\<rparr>)" if "?r = 0"
    using s i that by (auto simp: usb_inv_def ctl_ok_def idle_def)
  moreover have "usb_inv (?s\<lparr>ep0_next_state := 4, dc_log := Start_Read USB_CONTROL_OUT_EP0 Null_Ptr 0 # dc_log ?s\<rparr>)"
    using s i by (auto simp: usb_inv_def ctl_ok_def idle_def)
  moreover note idle_inv [OF i]
  ultimately show ?thesis
    by (auto simp: usbd_event_ep0_in_complete_handler_def wp_simps set_ep0_state_def readable_def bytes_at_def)
qed

text \<open>The part of the invariant on endpoint 0 is one of its view only.\<close>

lemma keeps_inv:
  assumes "usb_inv s" "keeps (ep0_view s) s'"
  shows "usb_inv s'"
proof -
  have "ctl_ok s' = ctl_ok s" using assms(2) by (simp add: ep0_view_def ctl_ok_def cong: option.case_cong)
  with assms show ?thesis by (simp add: usb_inv_def)
qed

lemma usb_inv_ok: "usb_inv s \<Longrightarrow> usb_ok s"
  by (simp add: usb_inv_def)

lemma usb_ok_armed:
  assumes "usb_ok s"
  shows "armed_out ep (dc_log s) = Some (p, n) \<Longrightarrow>
      ep = USB_CONTROL_OUT_EP0 \<or> ep = CDC_OUT_EP \<and> p = Read_Buffer 0 \<and> n = 64"
    and "armed_in ep (dc_log s) = Some bs \<Longrightarrow> ep = USB_CONTROL_IN_EP0 \<or> ep = CDC_IN_EP"
    and "length (read_buffer s) = 64" "length (write_buffer s) = 64"
proof -
  have "\<forall>ep p n. armed_out ep (dc_log s) = Some (p, n) \<longrightarrow>
          ep = USB_CONTROL_OUT_EP0 \<or> ep = CDC_OUT_EP \<and> p = Read_Buffer 0 \<and> n = 64"
    and "\<forall>ep bs. armed_in ep (dc_log s) = Some bs \<longrightarrow> ep = USB_CONTROL_IN_EP0 \<or> ep = CDC_IN_EP"
    using assms by (simp_all add: usb_ok_def)
  then show "armed_out ep (dc_log s) = Some (p, n) \<Longrightarrow>
      ep = USB_CONTROL_OUT_EP0 \<or> ep = CDC_OUT_EP \<and> p = Read_Buffer 0 \<and> n = 64"
    and "armed_in ep (dc_log s) = Some bs \<Longrightarrow> ep = USB_CONTROL_IN_EP0 \<or> ep = CDC_IN_EP"
    by metis+
qed (use assms in \<open>simp_all add: usb_ok_def\<close>)

lemma usb_ok_callbacks:
  assumes "usb_ok s"
  shows "length (tx_msg s) = 6" "length (rx_msg s) = 6" "tx_msg s \<noteq> []" "rx_msg s \<noteq> []"
    "msg_cb (tx_msg s ! 0) = Some Usbd_Event_Ep0_In_Complete_Handler"
    "msg_cb (tx_msg s ! 1) = Some Usbd_Cdc_Acm_Bulk_In"
    "msg_cb (rx_msg s ! 0) = Some Usbd_Event_Ep0_Out_Complete_Handler"
    "msg_cb (rx_msg s ! 2) = Some Usbd_Cdc_Acm_Bulk_Out"
  using assms by (auto simp: usb_ok_def)

lemma ep0_out_inv:
  assumes s: "usb_inv s" and a: "armed_out USB_CONTROL_OUT_EP0 (dc_log s) = Some (p, n)" and l: "length bs \<le> unat n"
    and al: "length bs = unat n \<or> 4 dvd length bs"
  shows "wp (usb_step dc (Ev_Out USB_CONTROL_OUT_EP0 bs)) (\<lambda>_. usb_inv) s"
proof -
  have i: "armed_in USB_CONTROL_IN_EP0 (dc_log s) = None" and ok: "usb_ok s"
    using s a by (auto simp: usb_inv_def ctl_ok_def split: option.splits)
  note cb = usb_ok_callbacks [OF ok]
  show ?thesis
  proof (cases "bs = []")
    case True
    have "usb_inv (s\<lparr>dc_log := Out_Done USB_CONTROL_OUT_EP0 0 # dc_log s\<rparr>)"
      using s i by (auto simp: usb_inv_def ctl_ok_def)
    with True a cb show ?thesis
      by (cases p) (auto simp: wp_simps store_ok_def usbd_event_ep_out_complete_handler_def
          usbd_event_ep0_out_complete_handler_def set_ep0_state_def)
  next
    case False
    then have "n \<noteq> 0" using l by auto
    then have "n = ep0_data_buf_residue s \<and> ep0_data_buf s = p \<and> (\<exists>off. p = Req_Data off \<and> off mod 4 = 0 \<and> off + unat n \<le> 512)"
      using s a unfolding usb_inv_def ctl_ok_def by (simp only: option.case prod.case) blast
    then obtain off where p: "p = Req_Data off" "off + unat n \<le> 512" and off: "off mod 4 = 0" and b: "ep0_data_buf s = p"
        "ep0_data_buf_residue s = n" by metis
    define m :: u32 where "m = of_nat (length bs)"
    have m: "unat m = length bs" using l unsigned_less [of n, where ?'a = nat]
      by (simp add: m_def unat_of_nat)
    have m0: "m \<noteq> 0" "m > 0" using m False by (auto simp: word_less_nat_alt)
    have al': "(off + length bs) mod 4 = 0" if "n \<noteq> m"
      using al off that m by (metis dvd_imp_mod_0 mod_0_imp_dvd dvd_add word_unat_eq_iff)
    let ?s = "s\<lparr>req_data := splice_at (req_data s) off bs, dc_log := Out_Done USB_CONTROL_OUT_EP0 m # dc_log s,
      ep0_data_buf := Req_Data (off + length bs), ep0_data_buf_residue := n - m\<rparr>"
    have len: "length (req_data s) = 512" using ok by (simp add: usb_ok_def)
    have id: "idle ?s" using s i p l len by (auto simp: usb_inv_def ctl_ok_def idle_def)
    have "usb_inv (?s\<lparr>dc_log := Start_Read USB_CONTROL_OUT_EP0 (Req_Data (off + length bs)) (n - m) # dc_log ?s\<rparr>)"
      if "n \<noteq> m"
      using id i that p l m s len al' by (auto simp: usb_inv_def ctl_ok_def idle_def unat_sub word_le_nat_alt)
    moreover have "wp (bindM (usbd_setup_request_handler dc (setup_pkt s) (Req_Data 0)) (\<lambda>(ok, p).
        bindM (modM (\<lambda>s. s\<lparr>ep0_data_buf := p\<rparr>)) (\<lambda>_.
        if \<not> ok then refuse_request
        else bindM (set_ep0_state USBD_EP0_STATE_IN_STATUS) (\<lambda>_.
             usbd_ep_start_write USB_CONTROL_IN_EP0 Null_Ptr 0)))) (\<lambda>_. usb_inv)
        (?s\<lparr>ep0_data_buf := Req_Data 0\<rparr>)" if "n = m"
      by (rule setup_request.data_taken) (use id that in \<open>auto simp: idle_def\<close>)
    moreover have "store_ok p (length bs) s" using p l len by (simp add: store_ok_def)
    ultimately show ?thesis
      using a cb p b m m0 al'
      by (cases "n = m")
        (simp_all add: wp_load_elem wp_start_read wp_bindM wp_getM wp_modM wp_logM wp_store_bytes
          usbd_event_ep_out_complete_handler_def usbd_event_ep0_out_complete_handler_def flip: m_def)
  qed
qed

lemma bulk_in_inv:
  assumes s: "usb_inv s" and a: "is_open CDC_IN_EP (dc_log s)"
  shows "wp (usb_step dc (Ev_In CDC_IN_EP n)) (\<lambda>_. usb_inv) s"
proof -
  have ok: "usb_ok s" "ep_mps (tx_msg s ! 1) \<noteq> 0" using s a by (auto simp: usb_inv_def usb_ok_def)
  note cb = usb_ok_callbacks [OF ok(1)]
  from s have "usb_inv (s\<lparr>dc_log := Start_Write CDC_IN_EP [] # In_Done CDC_IN_EP n # dc_log s\<rparr>)"
    "usb_inv (s\<lparr>dc_log := In_Done CDC_IN_EP n # dc_log s, ep_tx_busy_flag := False\<rparr>)"
    by (auto intro!: keeps_inv [OF s] simp: ok(1), simp_all add: ep0_view_def)
  with ok(2) cb show ?thesis
    by (simp add: wp_simps usbd_event_ep_in_complete_handler_def usbd_cdc_acm_bulk_in_def usbd_get_ep_mps_def
        readable_def bytes_at_def)
qed

lemma reset_inv:
  assumes s: "usb_inv s"
  shows "wp (usb_step dc Ev_Reset) (\<lambda>_. usb_inv) s"
proof -
  let ?ep0 = "\<lparr>bEndpointAddress = USB_CONTROL_IN_EP0, bmAttributes = 0, wMaxPacketSize = 64\<rparr>"
  let ?s = "s\<lparr>device_address := 0, configuration := 0, ep0_next_state := 0, port_speed := 0,
      dc_log := Ep_Open (?ep0\<lparr>bEndpointAddress := USB_CONTROL_OUT_EP0\<rparr>) # Ep_Open ?ep0 #
        Dc_Set_Address 0 # Bus_Reset # dc_log s\<rparr>"
  have "idle ?s" using s by (simp add: usb_inv_def ctl_ok_def idle_def)
  then have inv: "usb_inv ?s" and k: "keeps (ep0_view ?s) ?s" by (auto simp: idle_inv idle_def)
  have "wp (usbd_class_event_notify_handler dc USBD_EVENT_RESET Null_Ptr)
      (\<lambda>_. wp (call_event_handler USBD_EVENT_RESET) (\<lambda>_. usb_inv)) ?s"
    by (rule wp_mono [OF notify_keeps [OF k]], rule wp_mono [OF event_keeps], assumption)
      (rule keeps_inv [OF inv])
  then show ?thesis
    by (simp add: usbd_event_reset_handler_def Let_def wp_simps usb_dc_defs ep_fits_def USB_GET_MAXPACKETSIZE_def)
qed

lemma event_inv: "usb_inv s \<Longrightarrow> wp (call_event_handler ev) (\<lambda>_. usb_inv) s"
  by (rule wp_mono [OF event_keeps [where v = "ep0_view s"]]) (auto dest: usb_inv_ok intro: keeps_inv)

lemma simple_inv:
  assumes s: "usb_inv s" and e: "e \<in> {Ev_Suspend, Ev_Resume, Ev_Connect, Ev_Disconnect, Ev_Sof}"
  shows "wp (usb_step dc e) (\<lambda>_. usb_inv) s"
proof -
  have "usb_inv (s\<lparr>configuration := c\<rparr>)" "usb_inv (s\<lparr>is_suspend := b\<rparr>)" for c b
    by (rule keeps_inv [OF s]; simp add: usb_inv_ok [OF s])+
  with s e show ?thesis
    by (auto simp: wp_simps usbd_event_suspend_handler_def usbd_event_resume_handler_def
        usbd_event_connect_handler_def usbd_event_disconnect_handler_def usbd_event_sof_handler_def intro!: event_inv)
qed

lemma send_inv:
  assumes s: "usb_inv s"
  shows "wp (usb_step dc Ev_Send) (\<lambda>_. usb_inv) s"
proof -
  have ok: "usb_ok s" "length (write_buffer s) = 64" using usb_inv_ok [OF s] usb_ok_armed(4) by auto
  have "usb_inv (s\<lparr>ep_tx_busy_flag := True, dc_log := Start_Write CDC_IN_EP bs # dc_log s\<rparr>)" for bs
    by (rule keeps_inv [OF s]) (simp add: ok, simp add: ep0_view_def)
  with s ok show ?thesis by (simp add: send_start_def wp_simps readable_def)
qed

lemma bulk_out_inv:
  assumes s: "usb_inv s" and a: "armed_out CDC_OUT_EP (dc_log s) = Some (p, n)" and l: "length bs \<le> unat n"
  shows "wp (usb_step dc (Ev_Out CDC_OUT_EP bs)) (\<lambda>_. usb_inv) s"
proof -
  note u = usb_inv_ok [OF s]
  have ok: "usb_ok s" "length (read_buffer s) = 64" "p = Read_Buffer 0" "n = 64"
    using u usb_ok_armed(1) [OF u a] usb_ok_armed(3) [OF u] by simp_all
  have "usb_inv (s\<lparr>read_buffer := splice_at (read_buffer s) 0 bs,
      dc_log := Start_Read CDC_OUT_EP (Read_Buffer 0) 64 # Out_Done CDC_OUT_EP m # dc_log s\<rparr>)" for m
    using l ok by (intro keeps_inv [OF s]) (simp, simp add: ep0_view_def)
  with ok l a usb_ok_callbacks [OF ok(1)] show ?thesis
    by (simp add: wp_simps store_ok_def usbd_event_ep_out_complete_handler_def usbd_cdc_acm_bulk_out_def)
qed

lemma usb_step_inv:
  assumes s: "usb_inv s" and e: "possible e s" "polite e s"
  shows "wp (usb_step dc e) (\<lambda>_. usb_inv) s"
proof (cases e)
  case (Ev_Setup b)
  with setup_inv [OF s] e show ?thesis by simp
next
  case (Ev_In ep n)
  then obtain bs where bs: "armed_in ep (dc_log s) = Some bs" "unat n \<le> length bs"
      "if ep = USB_CONTROL_IN_EP0 then unat n = length bs \<or> 64 dvd unat n else is_open ep (dc_log s)"
    using e by (auto split: option.splits)
  have ok: "usb_ok s" using s by (simp add: usb_inv_def)
  then have "ep = USB_CONTROL_IN_EP0 \<or> ep = CDC_IN_EP" using bs usb_ok_armed(2) by blast
  then show ?thesis
  proof
    assume ep: "ep = USB_CONTROL_IN_EP0"
    with ep0_in_inv [OF s _ bs(2), of ep] bs usb_ok_callbacks [OF ok] Ev_In show ?thesis
      by (simp add: wp_simps usbd_event_ep_in_complete_handler_def)
  next
    assume "ep = CDC_IN_EP"
    with bulk_in_inv [OF s] bs Ev_In show ?thesis by (simp del: usb_step.simps)
  qed
next
  case (Ev_Out ep bs)
  then obtain p n where p: "armed_out ep (dc_log s) = Some (p, n)" "length bs \<le> unat n"
      "ep = USB_CONTROL_OUT_EP0 \<Longrightarrow> length bs = unat n \<or> 4 dvd length bs"
    using e by (auto split: option.splits)
  have "usb_ok s" using s by (simp add: usb_inv_def)
  then have "ep = USB_CONTROL_OUT_EP0 \<or> ep = CDC_OUT_EP" using p usb_ok_armed(1) by blast
  with ep0_out_inv [OF s] bulk_out_inv [OF s] p Ev_Out show ?thesis by (auto simp del: usb_step.simps)
qed (use s reset_inv simple_inv send_inv in \<open>simp_all del: usb_step.simps\<close>)

section \<open>Start-up\<close>

lemma init_inv:
  assumes "usb_start s"
  shows "wp (cdc_acm_init dc 0 base) (\<lambda>_ s'. usb_inv s' \<and> configuration s' = 0 \<and> dc_log s' = [Dc_Init]
     \<and> write_buffer s' = replicate 64 97) s"
proof -
  let ?tx = "[empty_msg\<lparr>msg_ep := 0x80, msg_cb := Some Usbd_Event_Ep0_In_Complete_Handler\<rparr>,
      empty_msg\<lparr>msg_ep := 0x81, msg_cb := Some Usbd_Cdc_Acm_Bulk_In\<rparr>, empty_msg, empty_msg, empty_msg, empty_msg]"
  let ?rx = "[empty_msg\<lparr>msg_ep := 0, msg_cb := Some Usbd_Event_Ep0_Out_Complete_Handler\<rparr>, empty_msg,
      empty_msg\<lparr>msg_ep := 2, msg_cb := Some Usbd_Cdc_Acm_Bulk_Out\<rparr>, empty_msg, empty_msg, empty_msg]"
  let ?s = "(clear_core s)\<lparr>descriptors := Some cdc_descriptor, intf := cdc_intfs, intf_offset := 2, tx_msg := ?tx,
      rx_msg := ?rx, event_handler := Some Usbd_Event_Handler, reg_base := base, write_buffer := replicate 64 97,
      dc_log := [Dc_Init]\<rparr>"
  have inv: "usb_inv ?s"
    using assms by (simp add: usb_inv_def usb_ok_def ctl_ok_def clear_core_def usb_start_def empty_msg_def
        benign_def empty_setup_def)
  have r6: "replicate 6 x = [x, x, x, x, x, x]" for x :: usbd_tx_rx_msg by (simp add: numeral_eq_Suc)
  have r16: "(replicate 16 None)[0 := Some (cdc_intf 0), Suc 0 := Some (cdc_intf 1)] = cdc_intfs"
    by (simp add: cdc_intfs_def numeral_eq_Suc)
  have i: "usbd_cdc_acm_init_intf zero_intf = cdc_intf 0" "(cdc_intf 0)\<lparr>intf_num := k\<rparr> = cdc_intf k" for k
    by (simp_all add: usbd_cdc_acm_init_intf_def zero_intf_def cdc_intf_def)
  have "wp (cdc_acm_init dc 0 base) (\<lambda>_ s'. s' = ?s) s"
    using assms
    by (simp add: cdc_acm_init_def wp_simps usbd_desc_register_def Let_def clear_core_def
      usbd_add_interface_def usbd_add_endpoint_def usbd_initialize_def usb_dc_init_def
      usb_start_def cdc_out_ep_def cdc_in_ep_def r6 r16 i)
      (rule wp_mono [OF notify_silent], simp add: usb_ok_def empty_msg_def,
       simp add: call_event_handler_def usbd_event_handler_def wp_simps)
  then show ?thesis by (rule wp_mono) (use inv in \<open>simp add: clear_core_def\<close>)
qed

section \<open>A device on the bus\<close>

text \<open>
  A controller that opens every endpoint, the memory before \<open>main\<close>, and the state after
  \<open>cdc_acm_init\<close> and a sequence of events: the concrete runs on which the properties are evaluated.
\<close>

definition demo_dc :: usb_dc where
  "demo_dc = \<lparr>ep_open_rc = (\<lambda>_ _. 0), ep_close_rc = (\<lambda>_ _. 0), ep_stalled = (\<lambda>_ _. 0),
     dc_port_speed = (\<lambda>_. 1), dc_wakeup_rc = (\<lambda>_. 0), dc_init_rc = (\<lambda>_. 0),
     class_notify = (\<lambda>_ _ _. ret ())\<rparr>"

definition demo_start :: usb_state where
  "demo_start = \<lparr>setup_pkt = empty_setup, ep0_data_buf = Null_Ptr, ep0_data_buf_residue = 0,
     ep0_data_buf_len = 0, zlp_flag = False, descriptors = None, req_data = [], configuration = 0,
     device_address = 0, ep0_next_state = 0, self_powered = False, remote_wakeup_support = False,
     remote_wakeup_enabled = False, is_suspend = False, port_speed = 0, intf = [], intf_altsetting = [],
     intf_offset = 0, tx_msg = [], rx_msg = [], event_handler = None, reg_base = 0,
     read_buffer = replicate 64 0, write_buffer = replicate 64 0, ep_tx_busy_flag = False,
     dtr_enable = 0, dc_log = []\<rparr>"

fun run_events :: "usb_dc \<Rightarrow> usb_event list \<Rightarrow> usb_state \<Rightarrow> usb_state option" where
  "run_events dc [] s = Some s"
| "run_events dc (e # es) s =
     (if possible e s \<and> polite e s then
        case usb_step dc e s of Some (Inr (_, s')) \<Rightarrow> run_events dc es s' | _ \<Rightarrow> None
      else None)"

definition demo_run :: "usb_event list \<Rightarrow> usb_state option" where
  "demo_run es =
     (case cdc_acm_init demo_dc 0 0x50000000 demo_start of
        Some (Inr (_, s)) \<Rightarrow> run_events demo_dc es s | _ \<Rightarrow> None)"

abbreviation demo_state :: "usb_event list \<Rightarrow> usb_state" where
  "demo_state es \<equiv> the (demo_run es)"

lemma run_events_reach: "usb_reach dc s \<Longrightarrow> run_events dc es s = Some s' \<Longrightarrow> usb_reach dc s'"
  by (induction es arbitrary: s)
    (auto split: if_splits option.splits sum.splits dest: usb_reach.event)

lemma demo_reach:
  assumes "demo_run es \<noteq> None"
  shows "usb_reach demo_dc (demo_state es)"
proof -
  obtain s s' where s: "cdc_acm_init demo_dc 0 0x50000000 demo_start = Some (Inr ((), s))"
      "run_events demo_dc es s = Some s'" "demo_run es = Some s'"
    using assms by (auto simp: demo_run_def split: option.splits sum.splits prod.splits)
  have "usb_start demo_start" by (simp add: usb_start_def demo_start_def)
  from run_events_reach [OF usb_reach.start [OF this s(1)] s(2)] s(3) show ?thesis by simp
qed

section \<open>Properties\<close>

lemma usb_reach_inv: "usb_reach dc s \<Longrightarrow> usb_inv s"
proof (induction rule: usb_reach.induct)
  case (start s base s')
  with init_inv [OF start(1), of dc base] show ?case by (auto simp: wp_def)
next
  case (event s e s')
  with usb_step_inv [of s e dc] show ?case by (auto simp: wp_def)
qed



end
