(* ===== verification/Usb_Host.thy ===== *)
theory Usb_Host
  imports Usb_App
begin

text \<open>
  The device as its host sees it. A host that reads on endpoint 0 takes one packet of at most 64
  bytes after the other until a short packet or until it has all it asked for (\<open>host_in\<close>). Composed
  with the setup handler and the completion handler of the stack this gives the descriptors of the
  device, whatever the lengths and the positions of the packets.
\<close>

section \<open>A host that reads\<close>

text \<open>
  One control read of a host that wants \<open>want\<close> bytes, as the USB specification has it: the controller
  sends the next 64 armed bytes and reports them; a packet shorter than 64 bytes ends the data stage.
\<close>

function host_in :: "usb_dc \<Rightarrow> nat \<Rightarrow> u8 list usb" where
  "host_in dc want =
     bindM (getM (\<lambda>s. armed_in USB_CONTROL_IN_EP0 (dc_log s))) (\<lambda>a. case a of
         None \<Rightarrow> ret []
       | Some bs \<Rightarrow>
           (let p = take 64 bs in
            bindM (usb_step dc (Ev_In USB_CONTROL_IN_EP0 (of_nat (length p)))) (\<lambda>_.
            if length p < 64 \<or> want \<le> 64 then ret p
            else bindM (host_in dc (want - 64)) (\<lambda>r. ret (p @ r)))))"
  by pat_completeness auto
termination by (relation "measure snd") auto

declare host_in.simps [simp del]

lemma ep0_in_step:
  assumes "usb_ok s"
  shows "wp (usb_step dc (Ev_In USB_CONTROL_IN_EP0 n)) Q s \<longleftrightarrow>
    wp (usbd_event_ep0_in_complete_handler USB_CONTROL_IN_EP0 n) Q
      (s\<lparr>dc_log := In_Done USB_CONTROL_IN_EP0 n # dc_log s\<rparr>)"
  using usb_ok_callbacks [OF assms] by (simp add: wp_simps usbd_event_ep_in_complete_handler_def)

text \<open>The data stage: the armed bytes are those of the request buffer from the current position on.\<close>

definition sending :: "u8 list \<Rightarrow> bool \<Rightarrow> usb_state \<Rightarrow> bool" where
  "sending bs z s \<longleftrightarrow> usb_inv s \<and> armed_in USB_CONTROL_IN_EP0 (dc_log s) = Some bs \<and> zlp_flag s = z
     \<and> dir_in (setup_pkt s) \<and> wLength (setup_pkt s) \<noteq> 0
     \<and> (bs \<noteq> [] \<longrightarrow> (\<exists>off. ep0_data_buf s = Req_Data off \<and> bs = take (length bs) (drop off (req_data s))))"

definition status_stage :: "usb_state \<Rightarrow> bool" where
  "status_stage s \<longleftrightarrow> usb_inv s \<and> ep0_next_state s = USBD_EP0_STATE_OUT_STATUS
     \<and> armed_in USB_CONTROL_IN_EP0 (dc_log s) = None
     \<and> armed_out USB_CONTROL_OUT_EP0 (dc_log s) = Some (Null_Ptr, 0)"

lemma in_step_inv:
  assumes "usb_inv s" "armed_in USB_CONTROL_IN_EP0 (dc_log s) = Some bs" "unat n \<le> length bs"
    "unat n = length bs \<or> 64 dvd unat n"
  shows "wp (usb_step dc (Ev_In USB_CONTROL_IN_EP0 n)) (\<lambda>_. usb_inv) s"
  by (rule usb_step_inv) (use assms in auto)

lemma sending_length:
  assumes "sending bs z s"
  shows "ep0_data_buf_residue s = of_nat (length bs)" "length bs \<le> 512"
proof -
  have l: "length bs = unat (ep0_data_buf_residue s)" "bs \<noteq> [] \<longrightarrow> length bs \<le> 512"
    using assms by (auto simp: sending_def usb_inv_def ctl_ok_def)
  then show "ep0_data_buf_residue s = of_nat (length bs)" by simp
  show "length bs \<le> 512" using l(2) by (cases "bs = []") simp_all
qed

lemma last_packet:
  assumes s: "sending bs False s" and l: "length bs \<le> 64"
  shows "wp (usb_step dc (Ev_In USB_CONTROL_IN_EP0 (of_nat (length bs)))) (\<lambda>_. status_stage) s"
proof -
  have i: "usb_inv s" "armed_in USB_CONTROL_IN_EP0 (dc_log s) = Some bs" using s by (auto simp: sending_def)
  have "wp (usb_step dc (Ev_In USB_CONTROL_IN_EP0 (of_nat (length bs)))) (\<lambda>_ s'. ep0_next_state s' = USBD_EP0_STATE_OUT_STATUS
     \<and> armed_in USB_CONTROL_IN_EP0 (dc_log s') = None
     \<and> armed_out USB_CONTROL_OUT_EP0 (dc_log s') = Some (Null_Ptr, 0)) s"
    using s sending_length [OF s] unfolding ep0_in_step [OF usb_inv_ok [OF i(1)]]
    by (simp add: usbd_event_ep0_in_complete_handler_def wp_simps set_ep0_state_def sending_def)
  moreover have "wp (usb_step dc (Ev_In USB_CONTROL_IN_EP0 (of_nat (length bs)))) (\<lambda>_. usb_inv) s"
    by (rule in_step_inv [OF i]) (use l in \<open>simp_all add: unat_of_nat\<close>)
  ultimately show ?thesis
    unfolding status_stage_def using wp_conj wp_wlp by fast
qed

lemma full_packet:
  assumes s: "sending bs z s" and l: "64 \<le> length bs" "length bs = 64 \<longrightarrow> z"
  shows "wp (usb_step dc (Ev_In USB_CONTROL_IN_EP0 64)) (\<lambda>_. sending (drop 64 bs) (z \<and> length bs \<noteq> 64)) s"
proof -
  have i: "usb_inv s" "armed_in USB_CONTROL_IN_EP0 (dc_log s) = Some bs" using s by (auto simp: sending_def)
  note n = sending_length [OF s]
  obtain off where off: "ep0_data_buf s = Req_Data off" "bs = take (length bs) (drop off (req_data s))"
    "off + length bs \<le> 512" "length (req_data s) = 512" and al: "(off + 64) mod 4 = 0"
    using s l by (auto simp: sending_def usb_inv_def ctl_ok_def usb_ok_def)
  have r: "ep0_data_buf_residue s - 64 = of_nat (length bs - 64)" using n l by (simp add: of_nat_diff)
  then have u: "unat (ep0_data_buf_residue s - 64) = length bs - 64" using n by (simp add: unat_of_nat)
  have d: "drop 64 bs = take (length bs - 64) (drop (off + 64) (req_data s))"
    by (subst off(2)) (simp add: drop_take add.commute)
  let ?Q = "\<lambda>_ s'. armed_in USB_CONTROL_IN_EP0 (dc_log s') = Some (drop 64 bs) \<and> zlp_flag s' = (z \<and> length bs \<noteq> 64)
     \<and> setup_pkt s' = setup_pkt s \<and> req_data s' = req_data s \<and> ep0_data_buf s' = Req_Data (off + 64)"
  have "wp (usb_step dc (Ev_In USB_CONTROL_IN_EP0 64)) ?Q s"
  proof (cases "length bs = 64")
    case True
    then show ?thesis
      using s r l off(1) unfolding ep0_in_step [OF usb_inv_ok [OF i(1)]]
      by (simp add: usbd_event_ep0_in_complete_handler_def wp_simps sending_def readable_def bytes_at_def)
  next
    case False
    then have nz: "ep0_data_buf_residue s - 64 \<noteq> 0" using u l by (metis diff_is_0_eq le_antisym unsigned_0)
    show ?thesis
      using s l off(1,3,4) al u nz False unfolding ep0_in_step [OF usb_inv_ok [OF i(1)]]
      by (simp add: usbd_event_ep0_in_complete_handler_def wp_simps sending_def readable_def bytes_at_def d)
  qed
  moreover have "wp (usb_step dc (Ev_In USB_CONTROL_IN_EP0 64)) (\<lambda>_. usb_inv) s"
    by (rule in_step_inv [OF i]) (use l in simp_all)
  ultimately have "wp (usb_step dc (Ev_In USB_CONTROL_IN_EP0 64)) (\<lambda>x s'. ?Q x s' \<and> usb_inv s') s"
    using wp_conj wp_wlp by fast
  then show ?thesis
    by (rule wp_mono) (use s d [symmetric] in \<open>simp add: sending_def\<close>)
qed

lemma host_in_data:
  assumes "sending bs z s" "length bs \<le> want" "z \<longleftrightarrow> length bs < want \<and> 64 dvd length bs" "bs \<noteq> []"
  shows "wp (host_in dc want) (\<lambda>r s'. r = bs \<and> status_stage s') s"
  using assms
proof (induction "length bs" arbitrary: bs want s rule: less_induct)
  case less
  have a: "armed_in USB_CONTROL_IN_EP0 (dc_log s) = Some bs" using less.prems(1) by (simp add: sending_def)
  show ?case
  proof (cases "length bs < 64 \<or> length bs = 64 \<and> want = 64")
    case True
    then have "\<not> z" "length bs \<le> 64" using less.prems by (auto dest: dvd_imp_le)
    then have "wp (usb_step dc (Ev_In USB_CONTROL_IN_EP0 (of_nat (length bs)))) (\<lambda>_. status_stage) s"
      using last_packet less.prems(1) by simp
    with True a show ?thesis
      by (subst host_in.simps) (auto simp: wp_getM wp_bindM wp_ret Let_def elim!: wp_mono)
  next
    case False
    then have l: "64 \<le> length bs" "64 < want" using less.prems by auto
    have z: "length bs = 64 \<longrightarrow> z" using False less.prems(2,3) by auto
    have rest: "wp (host_in dc (want - 64)) (\<lambda>r s'. r = drop 64 bs \<and> status_stage s') s'"
      if s': "sending (drop 64 bs) (z \<and> length bs \<noteq> 64) s'" for s'
    proof (cases "length bs = 64")
      case True
      then have "sending [] False s'" using s' by simp
      from last_packet [OF this] this True show ?thesis
        by (subst host_in.simps) (auto simp: sending_def wp_getM wp_bindM wp_ret Let_def elim!: wp_mono)
    next
      case False
      show ?thesis
        by (rule less.hyps) (use s' False l less.prems(2,3) in \<open>auto simp: dvd_diff_nat
          dest: dvd_diffD [of 64 "length bs" 64]\<close>)
    qed
    have "wp (usb_step dc (Ev_In USB_CONTROL_IN_EP0 64)) (\<lambda>_. wp (host_in dc (want - 64))
        (\<lambda>r s'. r = drop 64 bs \<and> status_stage s')) s"
      by (rule wp_mono [OF full_packet [OF less.prems(1) l(1) z]]) (rule rest)
    with l a show ?thesis
      by (subst host_in.simps) (auto simp: wp_getM wp_bindM wp_ret Let_def min_def elim!: wp_mono)
  qed
qed

lemma bytes_at_take: "m \<le> n \<Longrightarrow> bytes_at p m s = take m (bytes_at p n s)"
  by (auto simp: bytes_at_def min_def split: option.splits)

lemma bytes_at_residue [simp]: "bytes_at p n (s\<lparr>ep0_data_buf_residue := x\<rparr>) = bytes_at p n s"
  by (cases p) (simp_all add: bytes_at_def)

lemma readable_residue [simp]: "readable p n (s\<lparr>ep0_data_buf_residue := x\<rparr>) = readable p n s"
  by (cases p) (simp_all add: readable_def)

lemma send_answer_sends:
  assumes s: "idle s" "ep0_data_buf s = Req_Data 0" "setup_pkt s = pkt" "\<not> zlp_flag s" "dir_in pkt" "wLength pkt \<noteq> 0"
    and a: "answer_ok pkt buf s" and D: "unat (ep0_data_buf_len s) = length D" "bytes_at buf (length D) s = D"
    and l: "D \<noteq> []" "min (length D) (unat (wLength pkt)) \<le> 512"
  shows "wp (send_answer pkt buf) (\<lambda>_. sending (take (unat (wLength pkt)) D)
     (length D < unat (wLength pkt) \<and> 64 dvd length D)) s"
proof -
  define n where "n = min (ep0_data_buf_len s) (ucast (wLength pkt))"
  have n: "unat n = min (length D) (unat (wLength pkt))" by (simp add: n_def residue_min D)
  have n0: "n \<noteq> 0" using l s(6) n by (auto simp: unat_eq_zero [symmetric] min_def)
  have r: "readable buf (unat n) s" using a l n by (simp add: answer_ok_def D Let_def)
  define E where "E = take (unat (wLength pkt)) D"
  have len: "length E = unat n" by (simp add: E_def n min_def)
  have bs: "bytes_at buf (unat n) s = E"
    using n D(2) bytes_at_take [of "unat n" "length D" buf s] by (simp add: E_def min_def)
  define z where "z \<longleftrightarrow> length D < unat (wLength pkt) \<and> 64 dvd length D"
  have z: "ucast (wLength pkt) > ep0_data_buf_len s \<and> ep0_data_buf_len s mod 64 = 0 \<longleftrightarrow> z"
    using D(1) by (simp add: z_def word_less_nat_alt unat_eq_zero [symmetric] unat_mod mod_eq_0_iff_dvd)
  have le: "\<not> 512 < unat n" using n l(2) by linarith
  let ?Q = "\<lambda>_ s'. armed_in USB_CONTROL_IN_EP0 (dc_log s') = Some E \<and> zlp_flag s' = z \<and> setup_pkt s' = pkt
      \<and> ep0_data_buf s' = Req_Data 0 \<and> take (unat n) (req_data s') = E"
  have "wp (send_answer pkt buf) ?Q s"
  proof (cases "buf = Req_Data 0")
    case True
    then show ?thesis
      using s r bs le z
      by (simp add: send_answer_def wp_simps set_ep0_state_def readable_def bytes_at_def not_less flip: n_def)
  next
    case False
    have "length (req_data s) = 512" using s by (simp add: idle_def usb_ok_def)
    with False show ?thesis
      using s r bs le z len
      by (simp add: send_answer_def wp_simps set_ep0_state_def copy_bytes_def store_ok_def not_less splice_at_0
          readable_def [of "Req_Data 0"] bytes_at_def [of "Req_Data 0"] flip: n_def)
  qed
  with wp_wlp [OF send_answer_inv [OF s(1,2) a]]
  have "wp (send_answer pkt buf) (\<lambda>x s'. ?Q x s' \<and> usb_inv s') s" by (rule wp_conj [rotated])
  then show ?thesis
    by (rule wp_mono) (use s len in \<open>auto simp: sending_def E_def z_def\<close>)
qed

lemma setup_sends:
  assumes inv: "usb_inv s" and b: "length b = 8" "setup_of_bytes b = pkt"
    and pkt: "benign pkt" "dir_in pkt" "wLength pkt \<noteq> 0"
    and h: "\<And>s0. usb_ok s0 \<Longrightarrow> wp (usbd_setup_request_handler dc pkt (Req_Data 0))
      (\<lambda>(ok, p) s'. ok \<and> unat (ep0_data_buf_len s') = length D \<and> bytes_at p (length D) s' = D) s0"
    and l: "D \<noteq> []" "min (length D) (unat (wLength pkt)) \<le> 512"
  shows "wp (usb_step dc (Ev_Setup b)) (\<lambda>_. sending (take (unat (wLength pkt)) D)
     (length D < unat (wLength pkt) \<and> 64 dvd length D)) s"
proof -
  let ?s = "s\<lparr>dc_log := Setup_Received # dc_log s, setup_pkt := pkt, ep0_data_buf := Req_Data 0,
      ep0_data_buf_residue := ucast (wLength pkt), ep0_data_buf_len := ucast (wLength pkt), zlp_flag := False\<rparr>"
  have i: "idle ?s" using inv pkt by (simp add: usb_inv_def idle_def)
  then have k: "keeps (ep0_view ?s) ?s" by (simp add: idle_def)
  have "wp (usbd_setup_request_handler dc pkt (Req_Data 0)) (\<lambda>r s'. (\<lambda>(ok, p) s'. ok \<and>
      unat (ep0_data_buf_len s') = length D \<and> bytes_at p (length D) s' = D) r s' \<and> served (ep0_view ?s) pkt r s') ?s"
    by (rule wp_conj [OF h wp_wlp [OF setup_request.serves [OF k pkt(1)]]]) (use k in simp)
  then have "wp (usbd_setup_request_handler dc pkt (Req_Data 0)) (\<lambda>(ok, buf).
      wp (if \<not> ok then refuse_request else send_answer pkt buf) (\<lambda>_. sending (take (unat (wLength pkt)) D)
     (length D < unat (wLength pkt) \<and> 64 dvd length D))) ?s"
    by (rule wp_mono) (use i pkt l in \<open>auto simp: served_def ep0_view_def idle_def intro!: send_answer_sends\<close>)
  moreover have "\<not> dir_out pkt" using pkt(2) by (simp add: dir_in_def dir_out_def)
  ultimately show ?thesis
    using b by (simp add: usbd_event_ep0_setup_complete_handler_def usbd_event_ep0_setup_complete_def
        wp_modM wp_getM wp_bindM wp_logM wp_if case_prod_unfold cong: if_cong)
qed

section \<open>Descriptors\<close>

definition device_text :: "u8 \<Rightarrow> string" where
  "device_text i = (if i = 1 then ''CherryUSB'' else if i = 2 then ''CherryUSB CDC DEMO'' else ''2022123456'')"

definition string_bytes :: "string \<Rightarrow> u8 list" where
  "string_bytes cs = [of_nat (2 * length cs + 2), USB_DESCRIPTOR_TYPE_STRING] @ utf16 (map (\<lambda>c. of_nat (of_char c)) cs)"

text \<open>The descriptors of the device, by type and index.\<close>

definition device_descriptors :: "u8 \<Rightarrow> u8 \<Rightarrow> u8 list option" where
  "device_descriptors type index =
     (if type = USB_DESCRIPTOR_TYPE_DEVICE then Some device_descriptor
      else if type = USB_DESCRIPTOR_TYPE_CONFIGURATION then Some config_descriptor
      else if type = USB_DESCRIPTOR_TYPE_STRING \<and> index = 0 then Some [4, USB_DESCRIPTOR_TYPE_STRING, 0x09, 0x04]
      else if type = USB_DESCRIPTOR_TYPE_STRING \<and> index \<le> 3 then Some (string_bytes (device_text index))
      else None)"

lemma lo_hi_le16 [simp]:
  "LO_BYTE (ucast (le16 a b)) = a" "HI_BYTE (ucast (le16 a b)) = b"
proof -
  have m: "0x00FF = (mask 8 :: u16)" "0xFF00 = push_bit 8 (mask 8 :: u16)"
    by (simp_all add: mask_eq_exp_minus_1 push_bit_eq_mult)
  show "LO_BYTE (ucast (le16 a b)) = a"
    unfolding LO_BYTE_def m by (rule bit_word_eqI) (auto simp: le16_def bit_simps)
  show "HI_BYTE (ucast (le16 a b)) = b"
    unfolding HI_BYTE_def m by (rule bit_word_eqI) (auto simp: le16_def bit_simps dest: bit_imp_le_length)
qed

lemma string_result:
  assumes ok: "usb_ok s" and i: "i \<noteq> 0" "i \<le> 3"
  shows "wp (string_descriptor i (string_descriptors ! unat i) (Req_Data 0)) (\<lambda>(ok, p) s'. ok \<and>
     unat (ep0_data_buf_len s') = length (string_bytes (device_text i)) \<and>
     bytes_at p (length (string_bytes (device_text i))) s' = string_bytes (device_text i)) s"
proof -
  define cs :: "u8 list" where "cs = map (\<lambda>c. of_nat (of_char c)) (device_text i)"
  have "unat i \<noteq> 0" "unat i \<le> 3" using i by (simp_all add: word_le_nat_alt unat_eq_zero)
  then have "unat i = 1 \<or> unat i = 2 \<or> unat i = 3" by linarith
  then have "of_nat (unat i) = (of_nat 1 :: u8) \<or> of_nat (unat i) = (of_nat 2 :: u8)
      \<or> of_nat (unat i) = (of_nat 3 :: u8)" by metis
  then have "i = 1 \<or> i = 2 \<or> i = 3" by simp
  then have str: "string_descriptors ! unat i = cs @ [0]" and cs: "length cs \<le> 18" "0 \<notin> set cs"
    by (auto simp: string_descriptors_def c_string_def cs_def device_text_def)
  have sb: "string_bytes (device_text i) = [of_nat (2 * length cs + 2), 3] @ utf16 cs"
    by (simp add: string_bytes_def cs_def)
  show ?thesis
    unfolding str sb
    by (rule wp_mono [OF string_descriptor_result])
      (use ok i cs in \<open>auto simp: usb_ok_req bytes_at_def splice_at_0 unat_of_nat unat_word_ariths\<close>)
qed

lemma device_descriptor_facts:
  "length device_descriptor = 18" "device_descriptor ! 0 = 18" "config_descriptor ! 7 = 0x80"
  "config_descriptor ! Suc (Suc 0) = 75" "config_descriptor ! 3 = 0" "length config_descriptor = 75"
  by (simp_all add: device_descriptor_def USB_DEVICE_DESCRIPTOR_INIT_def WBVAL_def config_descriptor_def
      config_descriptors_def USB_CONFIG_DESCRIPTOR_INIT_def CDC_ACM_DESCRIPTOR_INIT_def)

lemma take_four:
  "4 \<le> length xs \<Longrightarrow>
     take (Suc (Suc (Suc (Suc 0)))) (xs[0 := a, Suc 0 := b, Suc (Suc 0) := c, 3 := d]) = [a, b, c, d]"
  by (cases xs rule: list.exhaust; cases "tl xs"; cases "tl (tl xs)"; cases "tl (tl (tl xs))")
    (auto simp: numeral_3_eq_3)

lemma get_descriptor_result:
  assumes ok: "usb_ok s"
  shows "wp (usbd_get_descriptor dc ti (Req_Data 0)) (\<lambda>(ok, p) s'.
     case device_descriptors (HI_BYTE ti) (LO_BYTE ti) of None \<Rightarrow> \<not> ok
     | Some D \<Rightarrow> ok \<and> unat (ep0_data_buf_len s') = length D \<and> bytes_at p (length D) s' = D) s"
proof -
  consider "HI_BYTE ti = 3" "LO_BYTE ti \<noteq> 0" "LO_BYTE ti \<le> 3" | "HI_BYTE ti = 3" "LO_BYTE ti = 0"
    | "HI_BYTE ti = 3" "\<not> LO_BYTE ti \<le> 3" | "HI_BYTE ti \<noteq> 3" by auto
  then show ?thesis
  proof cases
    case 1
    then have "LO_BYTE ti \<noteq> 0xEE" by auto
    with 1 string_result [OF ok 1(2,3)] ok show ?thesis
      by (simp add: usbd_get_descriptor_def Let_def wp_simps get_descriptors_ok cdc_descriptor_def
          string_descriptor_callback_cdc_def device_descriptors_def not_less)
  next
    case 2
    with ok usb_ok_req [OF ok] show ?thesis
      by (simp add: usbd_get_descriptor_def Let_def wp_simps get_descriptors_ok cdc_descriptor_def bytes_at_def
          string_descriptor_callback_cdc_def device_descriptors_def string_descriptor_def string_descriptors_def
          take_four)
  qed (use ok device_descriptor_facts in \<open>auto simp: usbd_get_descriptor_def Let_def wp_simps get_descriptors_ok usbd_get_port_speed_def
          cdc_descriptor_def call_desc_def device_descriptor_callback_cdc_def config_descriptor_callback_cdc_def bytes_at_def
          give_desc_def total_length_def le16_def device_descriptors_def string_descriptor_callback_cdc_def not_less\<close>)
qed

lemma device_descriptors_length:
  assumes "device_descriptors type index = Some D"
  shows "D \<noteq> [] \<and> length D \<le> 75"
  using assms device_descriptor_facts
  by (auto simp: device_descriptors_def string_bytes_def device_text_def split: if_splits)

section \<open>Properties\<close>

text \<open>The eight bytes of a request to read a descriptor.\<close>

definition get_descriptor_packet :: "u8 \<Rightarrow> u8 \<Rightarrow> u16 \<Rightarrow> u16 \<Rightarrow> u8 list" where
  "get_descriptor_packet type index lang n =
     [0x80, USB_REQUEST_GET_DESCRIPTOR, index, type, LO_BYTE lang, HI_BYTE lang, LO_BYTE n, HI_BYTE n]"

lemma le16_lo_hi: "ucast (le16 (LO_BYTE n) (HI_BYTE n)) = n"
proof -
  have m: "0x00FF = (mask 8 :: u16)" "0xFF00 = push_bit 8 (mask 8 :: u16)"
    by (simp_all add: mask_eq_exp_minus_1 push_bit_eq_mult)
  show ?thesis
    unfolding LO_BYTE_def HI_BYTE_def m by (rule bit_word_eqI) (auto simp: le16_def bit_simps)
qed

lemma get_descriptor_setup:
  "setup_of_bytes (get_descriptor_packet type index lang n) = \<lparr>bmRequestType = 0x80, bRequest = 6,
     wValue = ucast (le16 index type), wIndex = lang, wLength = n\<rparr>"
  by (simp add: get_descriptor_packet_def setup_of_bytes_def le16_lo_hi numeral_eq_Suc)

text \<open>
  C4: A host that asks for a descriptor gets it. In every reachable state, a read request for a
  descriptor the device has is answered with the descriptor, cut to the length the host asked for,
  in packets of at most 64 bytes; the transfer ends for the host where it ends for the device (an
  empty packet follows a full last one exactly when the host asked for more), and the device then
  waits for the status stage. A request for any other descriptor is refused with a stall and sends
  nothing.
\<close>

theorem host_reads_descriptor:
  assumes s: "usb_reach dc s" and n: "n \<noteq> 0"
  shows "case device_descriptors type index of
      Some D \<Rightarrow> wp (bindM (usb_step dc (Ev_Setup (get_descriptor_packet type index lang n)))
           (\<lambda>_. host_in dc (unat n))) (\<lambda>r s'. r = take (unat n) D \<and> status_stage s') s
    | None \<Rightarrow> wp (usb_step dc (Ev_Setup (get_descriptor_packet type index lang n)))
           (\<lambda>_ s'. hd (dc_log s') = Ep_Set_Stall USB_CONTROL_IN_EP0
              \<and> armed_in USB_CONTROL_IN_EP0 (dc_log s') = None) s"
proof -
  define b where "b = get_descriptor_packet type index lang n"
  define pkt where "pkt = setup_of_bytes b"
  have pkt: "bmRequestType pkt = 0x80" "bRequest pkt = 6" "wValue pkt = ucast (le16 index type)" "wLength pkt = n"
    by (simp_all add: pkt_def b_def get_descriptor_setup)
  have lb: "length b = 8" by (simp add: b_def get_descriptor_packet_def)
  note inv = usb_reach_inv [OF s]
  have ben: "benign pkt" "dir_in pkt" "\<not> dir_out pkt" using pkt by (simp_all add: benign_def dir_in_def dir_out_def)
  have h: "wp (usbd_setup_request_handler dc pkt (Req_Data 0)) (\<lambda>(ok, p) s'.
     case device_descriptors type index of None \<Rightarrow> \<not> ok
     | Some D \<Rightarrow> ok \<and> unat (ep0_data_buf_len s') = length D \<and> bytes_at p (length D) s' = D) s0" if "usb_ok s0" for s0
    using pkt that
    by (simp add: usbd_setup_request_handler_def usbd_standard_request_handler_def usbd_std_device_req_handler_def
        Let_def wp_bindM wp_ret case_prod_unfold)
      (rule wp_mono [OF get_descriptor_result], auto split: option.splits)
  show ?thesis
  proof (cases "device_descriptors type index")
    case (Some D)
    have D: "D \<noteq> []" "length D \<le> 512" using device_descriptors_length [OF Some] by auto
    have "wp (usb_step dc (Ev_Setup b)) (\<lambda>_. sending (take (unat (wLength pkt)) D)
        (length D < unat (wLength pkt) \<and> 64 dvd length D)) s"
      by (rule setup_sends [OF inv lb pkt_def [symmetric] ben(1,2)]) (use h Some D pkt n in auto)
    then have "wp (usb_step dc (Ev_Setup b)) (\<lambda>_. wp (host_in dc (unat n)) (\<lambda>r s'. r = take (unat n) D \<and> status_stage s')) s"
      by (rule wp_mono) (rule host_in_data, use pkt n D in \<open>auto simp: min_def unat_eq_zero\<close>)
    with Some show ?thesis by (simp add: b_def wp_bindM)
  next
    case None
    let ?s = "s\<lparr>dc_log := Setup_Received # dc_log s, setup_pkt := pkt, ep0_data_buf := Req_Data 0,
      ep0_data_buf_residue := ucast (wLength pkt), ep0_data_buf_len := ucast (wLength pkt), zlp_flag := False\<rparr>"
    have i: "idle ?s" using inv ben by (simp add: usb_inv_def idle_def)
    then have k: "keeps (ep0_view ?s) ?s" by (simp add: idle_def)
    have "wp (usbd_setup_request_handler dc pkt (Req_Data 0)) (\<lambda>r s'. \<not> fst r \<and> served (ep0_view ?s) pkt r s') ?s"
      using h [of ?s] k None by (intro wp_conj [OF _ wp_wlp [OF setup_request.serves [OF k ben(1)]]])
        (auto elim: wp_mono)
    then have "wp (usbd_setup_request_handler dc pkt (Req_Data 0)) (\<lambda>(ok, buf).
      wp (if \<not> ok then refuse_request else send_answer pkt buf) (\<lambda>_ s'. hd (dc_log s') = Ep_Set_Stall USB_CONTROL_IN_EP0
              \<and> armed_in USB_CONTROL_IN_EP0 (dc_log s') = None)) ?s"
      by (rule wp_mono) (auto simp: served_def ep0_view_def refuse_request_def set_ep0_state_def wp_simps usb_dc_defs)
    with None ben lb show ?thesis
      by (simp add: usbd_event_ep0_setup_complete_handler_def usbd_event_ep0_setup_complete_def
        wp_modM wp_getM wp_bindM wp_logM wp_if case_prod_unfold pkt_def b_def cong: if_cong)
  qed
qed

theorem host_reads_descriptor_witness:
  "case device_descriptors USB_DESCRIPTOR_TYPE_CONFIGURATION 0 of
      Some D \<Rightarrow> wp (bindM (usb_step demo_dc (Ev_Setup (get_descriptor_packet USB_DESCRIPTOR_TYPE_CONFIGURATION 0 0 255)))
           (\<lambda>_. host_in demo_dc (unat (255 :: u16)))) (\<lambda>r s'. r = take (unat (255 :: u16)) D \<and> status_stage s')
           (demo_state [Ev_Reset])
    | None \<Rightarrow> wp (usb_step demo_dc (Ev_Setup (get_descriptor_packet USB_DESCRIPTOR_TYPE_CONFIGURATION 0 0 255)))
           (\<lambda>_ s'. hd (dc_log s') = Ep_Set_Stall USB_CONTROL_IN_EP0
              \<and> armed_in USB_CONTROL_IN_EP0 (dc_log s') = None) (demo_state [Ev_Reset])"
proof (rule host_reads_descriptor)
  show "usb_reach demo_dc (demo_state [Ev_Reset])" by (rule demo_reach) code_simp
qed simp

end
