(* ===== verification/Usb_Device.thy ===== *)
theory Usb_Device
  imports Usb_Host
begin

text \<open>
  The serial device: how a host configures it and receives from it, and the three kinds of setup
  packet that make the stack leave its arrays. Together with the safety theorem of \<open>Usb_App\<close>, which
  covers every other packet, this says exactly which packets of a hostile host are dangerous.
\<close>

section \<open>Packets that leave the arrays\<close>

lemma set_configuration_unknown:
  assumes s: "usb_ok s" and v: "v \<noteq> 1"
  shows "usbd_set_configuration dc v alt s = Some (Inl Out_Of_Bounds)"
proof -
  have "whileM (walk_guard config_descriptor) (set_configuration_step dc config_descriptor v alt) walk_init
      = faultM Out_Of_Bounds"
    by (rule set_configuration_runs_off [where pre = "[]" and xs = config_descriptors])
      (use v config_descriptors_ok in \<open>auto simp: config_descriptor_def walk_init_def
        config_descriptors_def USB_CONFIG_DESCRIPTOR_INIT_def WBVAL_def CDC_ACM_DESCRIPTOR_INIT_def\<close>)
  with config_bytes_run [OF s] show ?thesis
    by (simp add: usbd_set_configuration_def run_simps deref_def)
qed

text \<open>
  C20: Configuring a device opens the endpoints its descriptor lists. For every well-formed
  configuration descriptor, of this or another device, the byte-wise walk of
  \<open>usbd_set_configuration\<close> is equal to opening, one after the other, the endpoints of the interfaces
  with the given alternate setting; the result is that of the last endpoint opened, or success when
  there is none.
\<close>

theorem set_configuration_opens_endpoints:
  assumes "descriptors s = Some ds" "config_descriptor_callback ds = Some cb"
    and "cb (port_speed s) = Some (concat (c # xs) @ post)" "config_ok c xs"
  shows "usbd_set_configuration dc (c ! 5) alt s =
    foldM (\<lambda>ep _. usbd_set_endpoint dc ep) (alt_endpoints alt 0xFF xs) True s"
  using assms set_configuration_at_head [OF assms(4) refl refl, of post dc alt]
  by (simp add: usbd_set_configuration_def config_bytes_def get_descriptors_def run_simps deref_def)

theorem set_configuration_opens_endpoints_witness:
  "usbd_set_configuration demo_dc (hd config_descriptors ! 5) 0 (demo_state [Ev_Reset]) =
     foldM (\<lambda>ep _. usbd_set_endpoint demo_dc ep) (alt_endpoints 0 0xFF (tl config_descriptors)) True
       (demo_state [Ev_Reset])"
proof (rule set_configuration_opens_endpoints)
  have ok: "usb_ok (demo_state [Ev_Reset])"
    by (rule usb_inv_ok, rule usb_reach_inv, rule demo_reach) code_simp
  then show "descriptors (demo_state [Ev_Reset]) = Some cdc_descriptor" by (simp add: usb_ok_def)
  show "config_descriptor_callback cdc_descriptor = Some config_descriptor_callback_cdc"
    by (simp add: cdc_descriptor_def)
  show "config_descriptor_callback_cdc (port_speed (demo_state [Ev_Reset])) =
      Some (concat (hd config_descriptors # tl config_descriptors) @ [])"
    by (simp add: config_descriptor_callback_cdc_def cdc_config_bytes)
qed (rule cdc_config_ok)

lemma setup_run:
  assumes "length b = 8" "setup_of_bytes b = pkt"
  shows "usb_step dc (Ev_Setup b) s = usbd_event_ep0_setup_complete dc pkt
     (s\<lparr>dc_log := Setup_Received # dc_log s, setup_pkt := pkt\<rparr>)"
  using assms by (simp add: usbd_event_ep0_setup_complete_handler_def run_simps logM_def)

text \<open>
  A host that selects a configuration the device does not have makes the device read past the end
  of its configuration descriptor: the total length is only taken from the configuration that
  matches, and the array of \<open>cdc_acm_template.c\<close> has no zero byte at its end to stop the walk.
\<close>

theorem hostile_configuration:
  assumes s: "usb_reach dc s" and v: "v \<noteq> 0" "v \<noteq> 1"
  shows "usb_step dc (Ev_Setup [0x00, 9, v, 0, 0, 0, 0, 0]) s = Some (Inl Out_Of_Bounds)"
proof -
  let ?b = "[0x00, 9, v, 0, 0, 0, 0, 0]"
  have pkt: "setup_of_bytes ?b = \<lparr>bmRequestType = 0, bRequest = 9, wValue = ucast (le16 v 0), wIndex = 0, wLength = 0\<rparr>"
    by (simp add: setup_of_bytes_def numeral_eq_Suc le16_def)
  have len: "length ?b = 8" by simp
  have val: "ucast (ucast (le16 v 0) AND 0xFF :: u16) = v"
    using lo_hi_le16(1) [of v 0] by (simp add: LO_BYTE_def)
  have ok: "usb_ok s" using usb_inv_ok [OF usb_reach_inv [OF s]] .
  show ?thesis
    unfolding setup_run [OF _ pkt, of dc s, OF len]
    using v val set_configuration_unknown
    by (simp add: usbd_event_ep0_setup_complete_def usbd_setup_request_handler_def usbd_standard_request_handler_def
        usbd_std_device_req_handler_def Let_def run_simps ok dir_out_def)
qed

theorem hostile_configuration_witness:
  "usb_step demo_dc (Ev_Setup [0x00, 9, 2, 0, 0, 0, 0, 0]) (demo_state [Ev_Reset]) = Some (Inl Out_Of_Bounds)"
proof (rule hostile_configuration)
  show "usb_reach demo_dc (demo_state [Ev_Reset])" by (rule demo_reach) code_simp
qed simp_all

text \<open>
  Once the device is configured, a request to read or to set the alternate setting of an interface
  with a number of 16 or more accesses \<open>intf_altsetting\<close> outside its sixteen elements; the number is
  the host's and is not checked.
\<close>

theorem hostile_interface:
  assumes s: "usb_reach dc s" "configuration s \<noteq> 0" and i: "16 \<le> unat i"
  shows "usb_step dc (Ev_Setup [0x81, 10, 0, 0, i, 0, 1, 0]) s = Some (Inl Out_Of_Bounds)
    \<and> usb_step dc (Ev_Setup [0x01, 11, 0, 0, i, 0, 0, 0]) s = Some (Inl Out_Of_Bounds)"
proof -
  let ?b = "[0x81, 10, 0, 0, i, 0, 1, 0]" and ?c = "[0x01, 11, 0, 0, i, 0, 0, 0]"
  have pkt: "setup_of_bytes ?b = \<lparr>bmRequestType = 0x81, bRequest = 10, wValue = 0, wIndex = ucast (le16 i 0), wLength = 1\<rparr>"
    "setup_of_bytes ?c = \<lparr>bmRequestType = 1, bRequest = 11, wValue = 0, wIndex = ucast (le16 i 0), wLength = 0\<rparr>"
    by (simp_all add: setup_of_bytes_def numeral_eq_Suc le16_def)
  have len: "length ?b = 8" "length ?c = 8" by simp_all
  have ok: "usb_ok s" "length (intf_altsetting s) = 16" using usb_inv_ok [OF usb_reach_inv [OF s(1)]] by (auto simp: usb_ok_def)
  have "usb_step dc (Ev_Setup ?b) s = Some (Inl Out_Of_Bounds)"
    unfolding setup_run [OF _ pkt(1), of dc s, OF len(1)]
    using i ok s(2)
    by (simp add: usbd_event_ep0_setup_complete_def usbd_setup_request_handler_def usbd_standard_request_handler_def
        usbd_std_interface_req_handler_def Let_def run_simps config_bytes_run usb_device_is_configured_def
        dir_out_def load_elem_def)
  moreover have "usb_step dc (Ev_Setup ?c) s = Some (Inl Out_Of_Bounds)"
    unfolding setup_run [OF _ pkt(2), of dc s, OF len(2)]
    using i ok s(2)
    by (simp add: usbd_event_ep0_setup_complete_def usbd_setup_request_handler_def usbd_standard_request_handler_def
        usbd_std_interface_req_handler_def Let_def run_simps config_bytes_run usb_device_is_configured_def
        dir_out_def store_elem_def)
  ultimately show ?thesis by blast
qed

abbreviation set_configuration_1 :: usb_event where
  "set_configuration_1 \<equiv> Ev_Setup [0x00, USB_REQUEST_SET_CONFIGURATION, 1, 0, 0, 0, 0, 0]"

abbreviation set_dtr :: usb_event where
  "set_dtr \<equiv> Ev_Setup [0x21, CDC_REQUEST_SET_CONTROL_LINE_STATE, 1, 0, 0, 0, 0, 0]"

theorem hostile_interface_witness:
  "usb_step demo_dc (Ev_Setup [0x81, 10, 0, 0, 200, 0, 1, 0]) (demo_state [Ev_Reset, set_configuration_1])
       = Some (Inl Out_Of_Bounds)
   \<and> usb_step demo_dc (Ev_Setup [0x01, 11, 0, 0, 200, 0, 0, 0]) (demo_state [Ev_Reset, set_configuration_1])
       = Some (Inl Out_Of_Bounds)"
proof (rule hostile_interface)
  show "usb_reach demo_dc (demo_state [Ev_Reset, set_configuration_1])" by (rule demo_reach) code_simp
  show "configuration (demo_state [Ev_Reset, set_configuration_1]) \<noteq> 0" by code_simp
qed simp

lemma each_intf_first:
  assumes "usb_ok s" "body (cdc_intf 0) s = Some (Inl e)"
  shows "each_intf body s = Some (Inl e)"
  using assms usb_ok_intf [OF assms(1)]
  by (simp add: each_intf_def run_simps whileM_unfold load_elem_def cdc_intfs_def)

text \<open>
  C31: A host that sends a line coding of more than seven bytes overflows the local structure of the
  class driver: the request and its data stage, of any bytes, end in a write past its end.
\<close>

theorem hostile_line_coding:
  assumes s: "usb_reach dc s" and bs: "7 < length bs" "length bs \<le> 64"
  shows "bindM (usb_step dc (Ev_Setup [0x21, 0x20, 0, 0, 0, 0, of_nat (length bs), 0]))
     (\<lambda>_. usb_step dc (Ev_Out USB_CONTROL_OUT_EP0 bs)) s = Some (Inl Out_Of_Bounds)"
proof -
  define n :: u16 where "n = of_nat (length bs)"
  let ?b = "[0x21, 0x20, 0, 0, 0, 0, of_nat (length bs), 0]"
  let ?pkt = "\<lparr>bmRequestType = 0x21, bRequest = 0x20, wValue = 0, wIndex = 0, wLength = n\<rparr>"
  have n: "unat n = length bs" "n \<noteq> 0" using bs by (auto simp: n_def unat_of_nat unat_eq_zero [symmetric])
  have "unat (of_nat (length bs) :: u8) = length bs" "unat (of_nat (length bs) :: u32) = length bs"
    using bs by (simp_all add: unat_of_nat)
  then have "ucast (of_nat (length bs) :: u8) = (of_nat (length bs) :: u32)"
    and "ucast (of_nat (length bs) :: u32) = n" unfolding n_def by (metis of_nat_unat)+
  then have pkt: "setup_of_bytes ?b = ?pkt"
    by (simp add: setup_of_bytes_def numeral_eq_Suc le16_def)
  have len: "length ?b = 8" by simp
  have ok: "usb_ok s" using usb_inv_ok [OF usb_reach_inv [OF s]] .
  let ?s = "s\<lparr>dc_log := Start_Read USB_CONTROL_OUT_EP0 (Req_Data 0) (ucast n) # Setup_Received # dc_log s, setup_pkt := ?pkt,
      ep0_data_buf := Req_Data 0, ep0_data_buf_residue := ucast n, ep0_data_buf_len := ucast n, zlp_flag := False,
      ep0_next_state := 2\<rparr>"
  have "usb_step dc (Ev_Setup ?b) s = Some (Inr ((), ?s))"
    unfolding setup_run [OF _ pkt, of dc s, OF len]
    using n bs by (simp add: usbd_event_ep0_setup_complete_def run_simps dir_out_def set_ep0_state_def
        usbd_ep_start_read_def logM_def)
  moreover have "usb_step dc (Ev_Out USB_CONTROL_OUT_EP0 bs) ?s = Some (Inl Out_Of_Bounds)"
  proof -
    let ?t = "s\<lparr>setup_pkt := ?pkt, ep0_data_buf_len := ucast n, zlp_flag := False, ep0_next_state := 2,
      req_data := splice_at (req_data s) 0 bs, dc_log := Out_Done USB_CONTROL_OUT_EP0 (ucast n) #
        Start_Read USB_CONTROL_OUT_EP0 (Req_Data 0) (ucast n) # Setup_Received # dc_log s,
      ep0_data_buf_residue := 0, ep0_data_buf := Req_Data 0\<rparr>"
    have rq: "length (req_data s) = 512" using usb_ok_req [OF ok] by simp
    have t: "usb_ok ?t" using ok bs rq by simp
    have "cdc_acm_class_interface_request_handler ?pkt (Req_Data 0) ?t = Some (Inl Out_Of_Bounds)"
      using n bs rq by (simp add: cdc_acm_class_interface_request_handler_def Let_def run_simps memcpy_line_coding_def
          load_bytes_def)
    then have "usbd_setup_request_handler dc ?pkt (Req_Data 0) ?t = Some (Inl Out_Of_Bounds)"
      by (simp add: usbd_setup_request_handler_def usbd_class_request_handler_def Let_def run_simps
          each_intf_first [OF t] cdc_intf_def)
    moreover have un: "(of_nat (length bs) :: u32) = ucast n" "ucast n \<noteq> (0 :: u32)" "0 < (ucast n :: u32)" "unat (ucast n :: u32) = length bs"
      using n bs by (metis of_nat_unat n(1), auto simp: word_less_nat_alt)
    moreover have ne: "bs \<noteq> []" using bs by auto
    ultimately show ?thesis
      using usb_ok_callbacks [OF ok] rq bs(2) un ne
      by (simp add: run_simps store_bytes_def usbd_event_ep_out_complete_handler_def load_elem_def logM_def
          usbd_event_ep0_out_complete_handler_def)
  qed
  ultimately show ?thesis by (simp add: run_simps)
qed


theorem hostile_line_coding_witness:
  "bindM (usb_step demo_dc (Ev_Setup [0x21, 0x20, 0, 0, 0, 0, of_nat (length (replicate 8 (0 :: u8))), 0]))
     (\<lambda>_. usb_step demo_dc (Ev_Out USB_CONTROL_OUT_EP0 (replicate 8 0))) (demo_state [Ev_Reset])
   = Some (Inl Out_Of_Bounds)"
proof (rule hostile_line_coding)
  show "usb_reach demo_dc (demo_state [Ev_Reset])" by (rule demo_reach) code_simp
qed simp_all

text \<open>
  C30: A host that ends the data stage of a control write early stops the device. In every reachable
  state in which the stack waits for more than the packet's bytes, a packet whose length is no
  multiple of four never returns from the interrupt: the stack arms the rest of the transfer behind
  the bytes received, and the driver's assertion on that address loops for ever.
\<close>

theorem short_packet_stops_device:
  assumes s: "usb_reach dc s" and a: "armed_out USB_CONTROL_OUT_EP0 (dc_log s) = Some (p, n)"
    and bs: "length bs < unat n" "\<not> 4 dvd length bs"
  shows "usb_step dc (Ev_Out USB_CONTROL_OUT_EP0 bs) s = None"
proof -
  have i: "usb_inv s" by (rule usb_reach_inv [OF s])
  have ok: "usb_ok s" using usb_inv_ok [OF i] .
  have "n \<noteq> 0" "bs \<noteq> []" using bs by auto
  then have "ep0_data_buf_residue s = n \<and> ep0_data_buf s = p \<and> (\<exists>off. p = Req_Data off \<and> off mod 4 = 0 \<and> off + unat n \<le> 512)"
    using i a unfolding usb_inv_def ctl_ok_def by (simp only: option.case prod.case) blast
  then obtain off where p: "p = Req_Data off" "off mod 4 = 0" "off + unat n \<le> 512"
      "ep0_data_buf s = Req_Data off" "ep0_data_buf_residue s = n" by auto
  define m :: u32 where "m = of_nat (length bs)"
  have m: "unat m = length bs" using bs unsigned_less [of n, where ?'a = nat] by (simp add: m_def unat_of_nat)
  then have m0: "0 < m" "n \<noteq> m" using bs \<open>bs \<noteq> []\<close> by (auto simp: word_less_nat_alt)
  have "(off + length bs) mod 4 \<noteq> 0" using p(2) bs(2) by presburger
  moreover have "length (req_data s) = 512" using usb_ok_req [OF ok] by simp
  ultimately show ?thesis
    using usb_ok_callbacks [OF ok] a p m m0 bs \<open>bs \<noteq> []\<close>
    by (simp add: run_simps store_bytes_def usbd_event_ep_out_complete_handler_def load_elem_def logM_def
        usbd_event_ep0_out_complete_handler_def usbd_ep_start_read_def flip: m_def)
qed

theorem short_packet_stops_device_witness:
  "usb_step demo_dc (Ev_Out USB_CONTROL_OUT_EP0 [0, 0, 0, 0, 0])
     (demo_state [Ev_Reset, Ev_Setup [0x21, 0x20, 0, 0, 0, 0, 7, 0]]) = None"
proof (rule short_packet_stops_device)
  show "usb_reach demo_dc (demo_state [Ev_Reset, Ev_Setup [0x21, 0x20, 0, 0, 0, 0, 7, 0]])"
    by (rule demo_reach) code_simp
  show "armed_out USB_CONTROL_OUT_EP0 (dc_log (demo_state [Ev_Reset, Ev_Setup [0x21, 0x20, 0, 0, 0, 0, 7, 0]])) =
      Some (Req_Data 0, 7)"
    by code_simp
qed code_simp+

section \<open>Enumeration and transmission\<close>

text \<open>The endpoints of the serial port.\<close>

definition cdc_endpoints :: "usb_endpoint_descriptor list" where
  "cdc_endpoints =
     [\<lparr>bEndpointAddress = CDC_INT_EP, bmAttributes = 3, wMaxPacketSize = 8\<rparr>,
      \<lparr>bEndpointAddress = CDC_OUT_EP, bmAttributes = 2, wMaxPacketSize = 64\<rparr>,
      \<lparr>bEndpointAddress = CDC_IN_EP, bmAttributes = 2, wMaxPacketSize = 64\<rparr>]"

lemma cdc_alt_endpoints: "alt_endpoints 0 0xFF (tl config_descriptors) = cdc_endpoints"
  by (simp add: config_descriptors_def CDC_ACM_DESCRIPTOR_INIT_def endpoint_of_def WBVAL_def le16_def
      cdc_endpoints_def)

lemma set_configuration_cdc:
  assumes s: "usb_ok s" and rc: "\<forall>l e. ep_open_rc dc l e = 0"
  shows "wp (usbd_set_configuration dc 1 0) (\<lambda>ok s'. ok \<and> usb_ok s' \<and> ep0_view s' = ep0_view s
     \<and> dc_log s' = map Ep_Open (rev cdc_endpoints) @ dc_log s
     \<and> ep_mps (tx_msg s' ! 1) = 64 \<and> ep_mps (rx_msg s' ! 2) = 64 \<and> ep_mps (tx_msg s' ! 3) = 8) s"
proof -
  note fold = set_configuration_fold [OF s, of dc, unfolded cdc_alt_endpoints]
  have len: "length (tx_msg s) = 6" "length (rx_msg s) = 6" using usb_ok_callbacks [OF s] by simp_all
  have "wp (foldM (\<lambda>ep _. usbd_set_endpoint dc ep) cdc_endpoints True) (\<lambda>ok s'. ok
      \<and> dc_log s' = map Ep_Open (rev cdc_endpoints) @ dc_log s
      \<and> ep_mps (tx_msg s' ! 1) = 64 \<and> ep_mps (rx_msg s' ! 2) = 64 \<and> ep_mps (tx_msg s' ! 3) = 8) s"
    using len rc by (simp add: cdc_endpoints_def wp_simps usbd_set_endpoint_def usbd_ep_open_def ep_fits_def set_msg_def USB_GET_MAXPACKETSIZE_def)
  then have "wp (usbd_set_configuration dc 1 0) (\<lambda>ok s'. ok
      \<and> dc_log s' = map Ep_Open (rev cdc_endpoints) @ dc_log s
      \<and> ep_mps (tx_msg s' ! 1) = 64 \<and> ep_mps (rx_msg s' ! 2) = 64 \<and> ep_mps (tx_msg s' ! 3) = 8) s"
    by (simp add: wp_def fold)
  moreover have "wp (usbd_set_configuration dc 1 0) (\<lambda>_. keeps (ep0_view s)) s"
    by (rule set_configuration_keeps) (use s in simp)
  ultimately have "wp (usbd_set_configuration dc 1 0) (\<lambda>ok s'. (ok
      \<and> dc_log s' = map Ep_Open (rev cdc_endpoints) @ dc_log s
      \<and> ep_mps (tx_msg s' ! 1) = 64 \<and> ep_mps (rx_msg s' ! 2) = 64 \<and> ep_mps (tx_msg s' ! 3) = 8)
      \<and> keeps (ep0_view s) s') s"
    using wp_conj wp_wlp by fast
  then show ?thesis by (rule wp_mono) simp
qed

lemma notify_run: "usb_ok s \<Longrightarrow> usbd_class_event_notify_handler dc ev arg s = Some (Inr ((), s))"
  using notify_silent [of s dc ev arg] by (auto simp: wp_def)

text \<open>
  C19: Selecting the device's configuration configures it. In every reachable state, on a controller
  that opens every endpoint, the request opens the interrupt, the output and the input endpoint, in
  this order and with the sizes of their descriptors, then starts the first reception of the serial
  port, clears its busy flag, and acknowledges the request with an empty packet; the device is
  configured then.
\<close>

theorem host_configures_device:
  assumes s: "usb_reach dc s" and rc: "\<forall>l e. ep_open_rc dc l e = 0"
  shows "\<exists>s'. usb_step dc (Ev_Setup [0x00, USB_REQUEST_SET_CONFIGURATION, 1, 0, 0, 0, 0, 0]) s = Some (Inr ((), s'))
    \<and> usb_device_is_configured s' = Some (Inr (True, s')) \<and> \<not> ep_tx_busy_flag s'
    \<and> ep_mps (tx_msg s' ! 1) = 64 \<and> ep_mps (rx_msg s' ! 2) = 64 \<and> ep_mps (tx_msg s' ! 3) = 8
    \<and> dc_log s' = [Start_Write USB_CONTROL_IN_EP0 [], Start_Read CDC_OUT_EP (Read_Buffer 0) 64] @
        map Ep_Open (rev cdc_endpoints) @ Setup_Received # dc_log s"
proof -
  let ?b = "[0x00, USB_REQUEST_SET_CONFIGURATION, 1, 0, 0, 0, 0, 0]"
  let ?pkt = "\<lparr>bmRequestType = 0, bRequest = 9, wValue = 1, wIndex = 0, wLength = 0\<rparr>"
  have pkt: "setup_of_bytes ?b = ?pkt"
    by (simp add: setup_of_bytes_def numeral_eq_Suc le16_def)
  have len: "length ?b = 8" by simp
  have ok: "usb_ok s" using usb_inv_ok [OF usb_reach_inv [OF s]] .
  let ?s = "s\<lparr>dc_log := Setup_Received # dc_log s, setup_pkt := ?pkt, ep0_data_buf := Req_Data 0,
      ep0_data_buf_residue := 0, ep0_data_buf_len := 0, zlp_flag := False\<rparr>"
  obtain s1 where s1: "usbd_set_configuration dc 1 0 ?s = Some (Inr (True, s1))" "usb_ok s1" "ep0_data_buf s1 = Req_Data 0"
    "dc_log s1 = map Ep_Open (rev cdc_endpoints) @ Setup_Received # dc_log s"
    "ep_mps (tx_msg s1 ! 1) = 64" "ep_mps (rx_msg s1 ! 2) = 64" "ep_mps (tx_msg s1 ! 3) = 8"
    using set_configuration_cdc [of ?s dc] ok rc by (auto simp: wp_def ep0_view_def)
  have ev: "call_event_handler USBD_EVENT_CONFIGURED (s1\<lparr>configuration := 1, is_suspend := False\<rparr>)
    = Some (Inr ((), s1\<lparr>configuration := 1, is_suspend := False, ep_tx_busy_flag := False,
        dc_log := Start_Read CDC_OUT_EP (Read_Buffer 0) 64 # dc_log s1\<rparr>))"
    using s1(2) by (simp add: call_event_handler_def usbd_event_handler_def run_simps usb_ok_handler deref_def
        usbd_ep_start_read_def logM_def)
  show ?thesis
    unfolding setup_run [OF _ pkt, of dc s, OF len]
    using s1
    by (simp add: usbd_event_ep0_setup_complete_def usbd_setup_request_handler_def usbd_standard_request_handler_def
        usbd_std_device_req_handler_def Let_def run_simps dir_out_def notify_run ev set_len_def send_answer_def
        set_ep0_state_def usbd_ep_start_write_def logM_def load_bytes_def whenM_def
        usb_device_is_configured_def)
qed


theorem host_configures_device_witness:
  "\<exists>s'. usb_step demo_dc set_configuration_1 (demo_state [Ev_Reset]) = Some (Inr ((), s'))
    \<and> usb_device_is_configured s' = Some (Inr (True, s')) \<and> \<not> ep_tx_busy_flag s'
    \<and> ep_mps (tx_msg s' ! 1) = 64 \<and> ep_mps (rx_msg s' ! 2) = 64 \<and> ep_mps (tx_msg s' ! 3) = 8
    \<and> dc_log s' = [Start_Write USB_CONTROL_IN_EP0 [], Start_Read CDC_OUT_EP (Read_Buffer 0) 64] @
        map Ep_Open (rev cdc_endpoints) @ Setup_Received # dc_log (demo_state [Ev_Reset])"
proof (rule host_configures_device)
  show "usb_reach demo_dc (demo_state [Ev_Reset])" by (rule demo_reach) code_simp
qed (simp add: demo_dc_def)

lemma busy_wait_hangs:
  assumes "ep_tx_busy_flag s"
  shows "whileM (\<lambda>_. getM ep_tx_busy_flag) (\<lambda>_. ret ()) () s = None"
proof -
  have "wlp (whileM (\<lambda>_. getM ep_tx_busy_flag) (\<lambda>_. ret ()) ()) (\<lambda>_ _. False) s"
    by (rule wlp_whileM [where I = "\<lambda>_. ep_tx_busy_flag"]) (use assms in \<open>auto simp: wlp_iff wp_simps\<close>)
  then show ?thesis by (auto simp: wlp_iff wp_def)
qed

text \<open>
  The serial port's transmission: with the terminal ready and the input endpoint configured for
  packets of 64 bytes, the main loop hands the first 63 bytes of the write buffer to the controller
  and returns, with the busy flag clear, when the next interrupt reports them. With no interrupt at
  all it waits for ever.
\<close>

lemma cdc_transmission:
  assumes s: "usb_reach dc s" and d: "dtr_enable s \<noteq> 0" "ep_mps (tx_msg s ! 1) = 64"
  shows "cdc_acm_data_send_with_dtr_test (usb_step dc (Ev_In CDC_IN_EP 63)) s =
      Some (Inr ((), s\<lparr>ep_tx_busy_flag := False, dc_log := In_Done CDC_IN_EP 63 #
        Start_Write CDC_IN_EP (take 63 (write_buffer s)) # dc_log s\<rparr>))
    \<and> cdc_acm_data_send_with_dtr_test (ret ()) s = None"
proof -
  have ok: "usb_ok s" using usb_inv_ok [OF usb_reach_inv [OF s]] .
  note cb = usb_ok_callbacks [OF ok] and w = usb_ok_armed(4) [OF ok]
  let ?s = "s\<lparr>ep_tx_busy_flag := True, dc_log := Start_Write CDC_IN_EP (take 63 (write_buffer s)) # dc_log s\<rparr>"
  let ?t = "s\<lparr>ep_tx_busy_flag := False, dc_log := In_Done CDC_IN_EP 63 #
        Start_Write CDC_IN_EP (take 63 (write_buffer s)) # dc_log s\<rparr>"
  have send: "cdc_acm_data_send_with_dtr_test isr s = whileM (\<lambda>_. getM ep_tx_busy_flag) (\<lambda>_. isr) () ?s" for isr
    using w d by (simp add: cdc_acm_data_send_with_dtr_test_def run_simps usbd_ep_start_write_def
        load_bytes_def logM_def whenM_def)
  have isr: "usb_step dc (Ev_In CDC_IN_EP 63) ?s = Some (Inr ((), ?t))"
    using cb d by (simp add: run_simps usbd_event_ep_in_complete_handler_def usbd_cdc_acm_bulk_in_def usbd_get_ep_mps_def
        logM_def load_elem_def get_msg_def)
  have "whileM (\<lambda>_. getM ep_tx_busy_flag) (\<lambda>_. isr) () ?t = Some (Inr ((), ?t))" for isr
    by (subst whileM_unfold) (simp add: run_simps)
  then have "whileM (\<lambda>_. getM ep_tx_busy_flag) (\<lambda>_. usb_step dc (Ev_In CDC_IN_EP 63)) () ?s = Some (Inr ((), ?t))"
    by (subst whileM_unfold) (simp add: run_simps isr del: usb_step.simps)
  then show ?thesis using busy_wait_hangs [of ?s] by (simp add: send del: usb_step.simps)
qed

end
