(* ===== verification/Usb_Dwc2.thy ===== *)
theory Usb_Dwc2
  imports Bsp_Uart Usb_Types Usb_Memcpy
begin

text \<open>
  The register driver of the USB controller, \<open>port/dwc2/usb_dc_dwc2.c\<close> with \<open>usb_glue_gd.c\<close>, in the
  configuration of \<open>usb_config.h\<close>: full speed, six endpoints, transfers through the FIFOs (no DMA). The
  driver's assertions are compiled in: one that fails loops for ever. The registers are those of the bus of \<open>C_Machine\<close>, at offsets from the base address \<open>b\<close>;
  buffers are addresses of a memory of bytes, apart from the driver's own structures. The stack above the driver, which the interrupt routine
  calls, is the argument \<open>up\<close>.
\<close>

section \<open>Registers\<close>

abbreviation GOTGINT :: "u32 \<Rightarrow> u32" where "GOTGINT b \<equiv> b + 0x004"
abbreviation GAHBCFG :: "u32 \<Rightarrow> u32" where "GAHBCFG b \<equiv> b + 0x008"
abbreviation GUSBCFG :: "u32 \<Rightarrow> u32" where "GUSBCFG b \<equiv> b + 0x00C"
abbreviation GRSTCTL :: "u32 \<Rightarrow> u32" where "GRSTCTL b \<equiv> b + 0x010"
abbreviation GINTSTS :: "u32 \<Rightarrow> u32" where "GINTSTS b \<equiv> b + 0x014"
abbreviation GINTMSK :: "u32 \<Rightarrow> u32" where "GINTMSK b \<equiv> b + 0x018"
abbreviation GRXSTSP :: "u32 \<Rightarrow> u32" where "GRXSTSP b \<equiv> b + 0x020"
abbreviation GRXFSIZ :: "u32 \<Rightarrow> u32" where "GRXFSIZ b \<equiv> b + 0x024"
abbreviation DIEPTXF0 :: "u32 \<Rightarrow> u32" where "DIEPTXF0 b \<equiv> b + 0x028"
abbreviation GCCFG :: "u32 \<Rightarrow> u32" where "GCCFG b \<equiv> b + 0x038"
abbreviation GSNPSID_REG :: "u32 \<Rightarrow> u32" where "GSNPSID_REG b \<equiv> b + 0x040"
abbreviation GHWCFG2 :: "u32 \<Rightarrow> u32" where "GHWCFG2 b \<equiv> b + 0x048"
abbreviation DIEPTXF :: "u32 \<Rightarrow> nat \<Rightarrow> u32" where "DIEPTXF b i \<equiv> b + 0x104 + 4 * of_nat i"
abbreviation DCFG :: "u32 \<Rightarrow> u32" where "DCFG b \<equiv> b + 0x800"
abbreviation DCTL :: "u32 \<Rightarrow> u32" where "DCTL b \<equiv> b + 0x804"
abbreviation DSTS :: "u32 \<Rightarrow> u32" where "DSTS b \<equiv> b + 0x808"
abbreviation DIEPMSK :: "u32 \<Rightarrow> u32" where "DIEPMSK b \<equiv> b + 0x810"
abbreviation DOEPMSK :: "u32 \<Rightarrow> u32" where "DOEPMSK b \<equiv> b + 0x814"
abbreviation DAINT :: "u32 \<Rightarrow> u32" where "DAINT b \<equiv> b + 0x818"
abbreviation DAINTMSK :: "u32 \<Rightarrow> u32" where "DAINTMSK b \<equiv> b + 0x81C"
abbreviation DIEPEMPMSK :: "u32 \<Rightarrow> u32" where "DIEPEMPMSK b \<equiv> b + 0x834"
abbreviation DEACHMSK :: "u32 \<Rightarrow> u32" where "DEACHMSK b \<equiv> b + 0x83C"
abbreviation DIEPCTL :: "u32 \<Rightarrow> nat \<Rightarrow> u32" where "DIEPCTL b i \<equiv> b + 0x900 + 0x20 * of_nat i"
abbreviation DIEPINT :: "u32 \<Rightarrow> nat \<Rightarrow> u32" where "DIEPINT b i \<equiv> b + 0x908 + 0x20 * of_nat i"
abbreviation DIEPTSIZ :: "u32 \<Rightarrow> nat \<Rightarrow> u32" where "DIEPTSIZ b i \<equiv> b + 0x910 + 0x20 * of_nat i"
abbreviation DTXFSTS :: "u32 \<Rightarrow> nat \<Rightarrow> u32" where "DTXFSTS b i \<equiv> b + 0x918 + 0x20 * of_nat i"
abbreviation DOEPCTL :: "u32 \<Rightarrow> nat \<Rightarrow> u32" where "DOEPCTL b i \<equiv> b + 0xB00 + 0x20 * of_nat i"
abbreviation DOEPINT :: "u32 \<Rightarrow> nat \<Rightarrow> u32" where "DOEPINT b i \<equiv> b + 0xB08 + 0x20 * of_nat i"
abbreviation DOEPTSIZ :: "u32 \<Rightarrow> nat \<Rightarrow> u32" where "DOEPTSIZ b i \<equiv> b + 0xB10 + 0x20 * of_nat i"
abbreviation PCGCCTL :: "u32 \<Rightarrow> u32" where "PCGCCTL b \<equiv> b + 0xE00"
abbreviation FIFO :: "u32 \<Rightarrow> nat \<Rightarrow> u32" where "FIFO b i \<equiv> b + 0x1000 + 0x1000 * of_nat i"

section \<open>State\<close>

record dwc2_ep_state =
  dep_mps :: u16
  dep_type :: u8
  dep_stalled :: u8
  xfer_buf :: u32
  xfer_len :: u32
  actual_xfer_len :: u32

text \<open>The driver's globals and the memory; the setup packet lies in memory, at the address \<open>sa\<close>.\<close>

record dwc2 = bus +
  GSNPSID :: u32
  in_ep :: "dwc2_ep_state list"
  out_ep :: "dwc2_ep_state list"
  ram :: memory

type_synonym 'a drv = "(dwc2, 'a) cm"

definition empty_ep :: dwc2_ep_state where
  "empty_ep = \<lparr>dep_mps = 0, dep_type = 0, dep_stalled = 0, xfer_buf = 0, xfer_len = 0, actual_xfer_len = 0\<rparr>"

text \<open>\<open>memset(&g_dwc2_udc[busid], 0, sizeof(struct dwc2_udc))\<close>.\<close>

definition clear_udc :: "u32 \<Rightarrow> unit drv" where
  "clear_udc sa = modM (\<lambda>s. s\<lparr>GSNPSID := 0, in_ep := replicate 6 empty_ep, out_ep := replicate 6 empty_ep,
     ram := (\<lambda>a. if unat (a - sa) < 8 then 0 else ram s a)\<rparr>)"

definition get_in :: "nat \<Rightarrow> dwc2_ep_state drv" where
  "get_in i = bindM (getM in_ep) (\<lambda>xs. load_elem xs i)"

definition get_out :: "nat \<Rightarrow> dwc2_ep_state drv" where
  "get_out i = bindM (getM out_ep) (\<lambda>xs. load_elem xs i)"

definition mod_in :: "nat \<Rightarrow> (dwc2_ep_state \<Rightarrow> dwc2_ep_state) \<Rightarrow> unit drv" where
  "mod_in i f = bindM (get_in i) (\<lambda>e. modM (\<lambda>s. s\<lparr>in_ep := (in_ep s)[i := f e]\<rparr>))"

definition mod_out :: "nat \<Rightarrow> (dwc2_ep_state \<Rightarrow> dwc2_ep_state) \<Rightarrow> unit drv" where
  "mod_out i f = bindM (get_out i) (\<lambda>e. modM (\<lambda>s. s\<lparr>out_ep := (out_ep s)[i := f e]\<rparr>))"

section \<open>Set-up\<close>

text \<open>
  \<open>do { if (++count > limit) ...; } while (condition)\<close>: poll a register until a test of its value
  succeeds; the result says whether it did within the limit.
\<close>

definition poll_times :: "hw \<Rightarrow> u32 \<Rightarrow> (u32 \<Rightarrow> bool) \<Rightarrow> u32 \<Rightarrow> bool drv" where
  "poll_times h a p limit =
     bindM (whileM (\<lambda>(count, r). ret (r = None))
       (\<lambda>(count, r).
          if count + 1 > limit then ret (count + 1, Some False)
          else bindM (rd32 h a) (\<lambda>v. ret (count + 1, if p v then Some True else None)))
       (0, None))
     (\<lambda>(count, r). ret (r = Some True))"

definition dwc2_reset :: "hw \<Rightarrow> u32 \<Rightarrow> int drv" where
  "dwc2_reset h b =
     bindM (poll_times h (GRSTCTL b) (\<lambda>v. v AND BIT 31 \<noteq> 0) 200000) (\<lambda>ok.
     if \<not> ok then ret (-1)
     else
       bindM (setbits h (GRSTCTL b) (BIT 0)) (\<lambda>_.
       bindM (getM GSNPSID) (\<lambda>snpsid.
       if snpsid < 0x4F54420A then
         bindM (poll_times h (GRSTCTL b) (\<lambda>v. v AND BIT 0 \<noteq> BIT 0) 200000) (\<lambda>ok.
         ret (if ok then 0 else -1))
       else
         bindM (poll_times h (GRSTCTL b) (\<lambda>v. v AND BIT 29 = BIT 29) 200000) (\<lambda>ok.
         if \<not> ok then ret (-1)
         else
           bindM (clrbits h (GRSTCTL b) (BIT 0)) (\<lambda>_.
           bindM (setbits h (GRSTCTL b) (BIT 29)) (\<lambda>_. ret 0))))))"

definition dwc2_core_init :: "hw \<Rightarrow> u32 \<Rightarrow> int drv" where
  "dwc2_core_init h b = bindM (setbits h (GUSBCFG b) (BIT 6)) (\<lambda>_. dwc2_reset h b)"

text \<open>\<open>usb_glue_gd.c\<close>: the vendor register and the delay loop; \<open>clk\<close> is \<open>SystemCoreClock\<close>.\<close>

definition usbd_get_dwc2_gccfg_conf :: "u32 \<Rightarrow> u32" where
  "usbd_get_dwc2_gccfg_conf b = BIT 16 OR BIT 18 OR BIT 19 OR BIT 21"

definition usbd_dwc2_delay_ms :: "u32 \<Rightarrow> u8 \<Rightarrow> unit drv" where
  "usbd_dwc2_delay_ms clk ms =
     bindM (whileM (\<lambda>count. ret (count \<noteq> 0)) (\<lambda>count. ret (count - 1)) (clk div 1000 * ucast ms)) (\<lambda>_. ret ())"

definition dwc2_set_mode :: "hw \<Rightarrow> u32 \<Rightarrow> u32 \<Rightarrow> u8 \<Rightarrow> unit drv" where
  "dwc2_set_mode h b clk mode = seqM
     [clrbits h (GUSBCFG b) (BIT 29 OR BIT 30),
      if mode = 1 then setbits h (GUSBCFG b) (BIT 29)
      else if mode = 0 then setbits h (GUSBCFG b) (BIT 30) else ret (),
      usbd_dwc2_delay_ms clk 50]"

definition dwc2_flush :: "hw \<Rightarrow> u32 \<Rightarrow> u32 \<Rightarrow> u32 \<Rightarrow> int drv" where
  "dwc2_flush h b value flag =
     bindM (poll_times h (GRSTCTL b) (\<lambda>v. v AND BIT 31 \<noteq> 0) 200000) (\<lambda>ok.
     if \<not> ok then ret (-1)
     else
       bindM (wr32 (GRSTCTL b) value) (\<lambda>_.
       bindM (poll_times h (GRSTCTL b) (\<lambda>v. v AND flag \<noteq> flag) 200000) (\<lambda>ok.
       ret (if ok then 0 else -1))))"

definition dwc2_flush_rxfifo :: "hw \<Rightarrow> u32 \<Rightarrow> int drv" where
  "dwc2_flush_rxfifo h b = dwc2_flush h b (BIT 4) (BIT 4)"

definition dwc2_flush_txfifo :: "hw \<Rightarrow> u32 \<Rightarrow> u32 \<Rightarrow> int drv" where
  "dwc2_flush_txfifo h b num = dwc2_flush h b (BIT 5 OR push_bit 6 num) (BIT 5)"

definition turnaround_time :: "u32 \<Rightarrow> u8 \<Rightarrow> u32" where
  "turnaround_time hclk speed =
     (if speed = 3 then
        (if hclk \<ge> 14200000 \<and> hclk < 15000000 then 0xF
         else if hclk \<ge> 15000000 \<and> hclk < 16000000 then 0xE
         else if hclk \<ge> 16000000 \<and> hclk < 17200000 then 0xD
         else if hclk \<ge> 17200000 \<and> hclk < 18500000 then 0xC
         else if hclk \<ge> 18500000 \<and> hclk < 20000000 then 0xB
         else if hclk \<ge> 20000000 \<and> hclk < 21800000 then 0xA
         else if hclk \<ge> 21800000 \<and> hclk < 24000000 then 0x9
         else if hclk \<ge> 24000000 \<and> hclk < 27700000 then 0x8
         else if hclk \<ge> 27700000 \<and> hclk < 32000000 then 0x7
         else 0x6)
      else 9)"

definition dwc2_set_turnaroundtime :: "hw \<Rightarrow> u32 \<Rightarrow> u32 \<Rightarrow> u8 \<Rightarrow> unit drv" where
  "dwc2_set_turnaroundtime h b hclk speed = seqM
     [setbits h (GUSBCFG b) 0x7,
      clrbits h (GUSBCFG b) (push_bit 10 0xF),
      setbits h (GUSBCFG b) (push_bit 10 (turnaround_time hclk speed) AND push_bit 10 0xF)]"

definition dwc2_set_txfifo :: "hw \<Rightarrow> u32 \<Rightarrow> nat \<Rightarrow> u16 \<Rightarrow> unit drv" where
  "dwc2_set_txfifo h b fifo sz =
     bindM (rd32 h (GRXFSIZ b)) (\<lambda>tx_offset.
     if fifo = 0 then wr32 (DIEPTXF0 b) (push_bit 16 (ucast sz) OR tx_offset)
     else
       bindM (rd32 h (DIEPTXF0 b)) (\<lambda>v.
       bindM (foldM (\<lambda>i off. bindM (rd32 h (DIEPTXF b i)) (\<lambda>v. ret (off + drop_bit 16 v)))
         [0..<fifo - 1] (tx_offset + drop_bit 16 v)) (\<lambda>tx_offset.
       wr32 (DIEPTXF b (fifo - 1)) (push_bit 16 (ucast sz) OR tx_offset))))"

definition dwc2_get_devspeed :: "hw \<Rightarrow> u32 \<Rightarrow> u8 drv" where
  "dwc2_get_devspeed h b =
     bindM (rd32 h (DSTS b)) (\<lambda>v.
     let e = v AND 6 in
     ret (if e = 0 then 0 else if e = 2 \<or> e = 6 then 3 else 0xF))"

definition dwc2_ep0_start_read_setup :: "hw \<Rightarrow> u32 \<Rightarrow> unit drv" where
  "dwc2_ep0_start_read_setup h b = seqM
     [wr32 (DOEPTSIZ b 0) 0,
      setbits h (DOEPTSIZ b 0) (push_bit 19 0x3FF AND BIT 19),
      setbits h (DOEPTSIZ b 0) (3 * 8),
      setbits h (DOEPTSIZ b 0) (push_bit 29 3)]"

section \<open>The FIFOs\<close>

text \<open>A word of memory at any address (the accesses are declared unaligned).\<close>

definition word_at :: "memory \<Rightarrow> u32 \<Rightarrow> u32" where
  "word_at m a = ucast (m a) OR push_bit 8 (ucast (m (a + 1))) OR push_bit 16 (ucast (m (a + 2)))
     OR push_bit 24 (ucast (m (a + 3)))"

definition dwc2_ep_write :: "u32 \<Rightarrow> nat \<Rightarrow> u32 \<Rightarrow> u16 \<Rightarrow> unit drv" where
  "dwc2_ep_write b ep_idx src len =
     bindM (foldM (\<lambda>i pSrc. bindM (getM (\<lambda>s. word_at (ram s) pSrc)) (\<lambda>w.
        bindM (wr32 (FIFO b ep_idx) w) (\<lambda>_. ret (pSrc + 4))))
       [0..<unat ((ucast len + 3) div 4 :: u32)] src) (\<lambda>_. ret ())"

definition dwc2_ep_read :: "hw \<Rightarrow> u32 \<Rightarrow> u32 \<Rightarrow> u16 \<Rightarrow> unit drv" where
  "dwc2_ep_read h b dest len =
     bindM (foldM (\<lambda>i pDest. bindM (rd32 h (FIFO b 0)) (\<lambda>w.
        bindM (modM (\<lambda>s. s\<lparr>ram := put_word pDest w (ram s)\<rparr>)) (\<lambda>_. ret (pDest + 4))))
       [0..<unat ((ucast len + 3) div 4 :: u32)] dest) (\<lambda>_. ret ())"

abbreviation USB_ENDPOINT_TYPE_ISOCHRONOUS :: u8 where "USB_ENDPOINT_TYPE_ISOCHRONOUS \<equiv> 1"
abbreviation USB_ENDPOINT_TYPE_BULK :: u8 where "USB_ENDPOINT_TYPE_BULK \<equiv> 2"
abbreviation USB_ENDPOINT_TYPE_INTERRUPT :: u8 where "USB_ENDPOINT_TYPE_INTERRUPT \<equiv> 3"

text \<open>The choice of the frame of an isochronous transfer, for the control register \<open>ctl\<close>.\<close>

definition set_frame :: "hw \<Rightarrow> u32 \<Rightarrow> u32 \<Rightarrow> unit drv" where
  "set_frame h b ctl =
     bindM (rd32 h (DSTS b)) (\<lambda>v.
     if v AND BIT 8 = 0 then thenM (clrbits h ctl (BIT 28)) (setbits h ctl (BIT 29))
     else thenM (clrbits h ctl (BIT 29)) (setbits h ctl (BIT 28)))"

definition set_mulcnt :: "hw \<Rightarrow> u32 \<Rightarrow> nat \<Rightarrow> unit drv" where
  "set_mulcnt h b i =
     thenM (clrbits h (DIEPTSIZ b i) (push_bit 29 3)) (setbits h (DIEPTSIZ b i) (push_bit 29 3 AND BIT 29))"

text \<open>The bytes of the next packet.\<close>

definition packet_len :: "dwc2_ep_state \<Rightarrow> u32" where
  "packet_len e = (let len = xfer_len e - actual_xfer_len e in if len > ucast (dep_mps e) then ucast (dep_mps e) else len)"

definition tx_fifo_packet :: "hw \<Rightarrow> u32 \<Rightarrow> nat \<Rightarrow> unit drv" where
  "tx_fifo_packet h b ep_idx =
     bindM (get_in ep_idx) (\<lambda>e.
     let len = packet_len e in
     bindM (whenM (dep_type e = USB_ENDPOINT_TYPE_ISOCHRONOUS)
       (thenM (set_frame h b (DIEPCTL b ep_idx)) (set_mulcnt h b ep_idx))) (\<lambda>_.
     bindM (dwc2_ep_write b ep_idx (xfer_buf e) (ucast len)) (\<lambda>_.
     mod_in ep_idx (\<lambda>e. e\<lparr>xfer_buf := xfer_buf e + len, actual_xfer_len := actual_xfer_len e + len\<rparr>))))"

definition dwc2_tx_fifo_empty_procecss :: "hw \<Rightarrow> u32 \<Rightarrow> nat \<Rightarrow> unit drv" where
  "dwc2_tx_fifo_empty_procecss h b ep_idx =
     bindM (get_in ep_idx) (\<lambda>e0.
     let len32b = (packet_len e0 + 3) div 4 in
     bindM (whileM
       (\<lambda>_. bindM (rd32 h (DTXFSTS b ep_idx)) (\<lambda>v. bindM (get_in ep_idx) (\<lambda>e.
          ret (v AND 0xFFFF \<ge> len32b \<and> actual_xfer_len e < xfer_len e \<and> xfer_len e \<noteq> 0))))
       (\<lambda>_. tx_fifo_packet h b ep_idx) ()) (\<lambda>_.
     bindM (get_in ep_idx) (\<lambda>e.
     whenM (xfer_len e \<le> actual_xfer_len e) (clrbits h (DIEPEMPMSK b) (push_bit (ep_idx mod 16) 1)))))"


section \<open>Interrupt status\<close>

definition dwc2_get_glb_intstatus :: "hw \<Rightarrow> u32 \<Rightarrow> u32 drv" where
  "dwc2_get_glb_intstatus h b = bindM (rd32 h (GINTSTS b)) (\<lambda>v. bindM (rd32 h (GINTMSK b)) (\<lambda>m. ret (v AND m)))"

definition dwc2_get_outeps_intstatus :: "hw \<Rightarrow> u32 \<Rightarrow> u32 drv" where
  "dwc2_get_outeps_intstatus h b =
     bindM (rd32 h (DAINT b)) (\<lambda>v. bindM (rd32 h (DAINTMSK b)) (\<lambda>m. ret (drop_bit 16 (v AND m AND 0xFFFF0000))))"

definition dwc2_get_ineps_intstatus :: "hw \<Rightarrow> u32 \<Rightarrow> u32 drv" where
  "dwc2_get_ineps_intstatus h b =
     bindM (rd32 h (DAINT b)) (\<lambda>v. bindM (rd32 h (DAINTMSK b)) (\<lambda>m. ret (v AND m AND 0xFFFF)))"

definition dwc2_get_outep_intstatus :: "hw \<Rightarrow> u32 \<Rightarrow> nat \<Rightarrow> u32 drv" where
  "dwc2_get_outep_intstatus h b epnum =
     bindM (rd32 h (DOEPINT b epnum)) (\<lambda>v.
     bindM (wr32 (DOEPINT b epnum) v) (\<lambda>_.
     bindM (rd32 h (DOEPMSK b)) (\<lambda>m. ret (v AND m))))"

definition dwc2_get_inep_intstatus :: "hw \<Rightarrow> u32 \<Rightarrow> nat \<Rightarrow> u32 drv" where
  "dwc2_get_inep_intstatus h b epnum =
     bindM (rd32 h (DIEPMSK b)) (\<lambda>msk.
     bindM (rd32 h (DIEPEMPMSK b)) (\<lambda>emp.
     bindM (rd32 h (DIEPINT b epnum)) (\<lambda>v.
     bindM (wr32 (DIEPINT b epnum) v) (\<lambda>_.
     ret (v AND (msk OR push_bit 7 (drop_bit (epnum mod 16) emp AND 1)))))))"

section \<open>Starting and stopping the controller\<close>

text \<open>The registers that the log messages of the start read.\<close>

definition log_params :: "hw \<Rightarrow> u32 \<Rightarrow> unit drv" where
  "log_params h b = bindM (foldM (\<lambda>r _. rd32 h (b + r)) [0x3C, 0x40, 0x44, 0x48, 0x4C, 0x50, 0x4C] 0) (\<lambda>_. ret ())"

text \<open>
  \<open>usb_config.h\<close>: the words of the receive FIFO and of the transmit FIFOs; those of endpoints 4 and 5 are
  the defaults of the driver.
\<close>

definition RXALL_FIFO_SIZE :: u32 where "RXALL_FIFO_SIZE = 1024 div 4"
definition TX_FIFO_SIZE :: "nat \<Rightarrow> u16" where "TX_FIFO_SIZE i = 64 div 4"

definition usb_dc_init_dwc2 :: "hw \<Rightarrow> u32 \<Rightarrow> u32 \<Rightarrow> u32 \<Rightarrow> int drv" where
  "usb_dc_init_dwc2 h b sa clk =
     bindM (clear_udc sa) (\<lambda>_.
     bindM (usb_dc_low_level_init h) (\<lambda>_.
     bindM (rd32 h (GHWCFG2 b)) (\<lambda>fsphy.
     bindM (rd32 h (GHWCFG2 b)) (\<lambda>hsphy.
     bindM (rd32 h (GHWCFG2 b)) (\<lambda>dma.
     bindM (rd32 h (GHWCFG2 b)) (\<lambda>endpoints.
     let hsphy_type = drop_bit 6 (hsphy AND push_bit 6 3) in
     bindM (log_params h b) (\<lambda>_.
     bindM (rd32 h (GSNPSID_REG b)) (\<lambda>v.
     bindM (modM (\<lambda>s. s\<lparr>GSNPSID := v\<rparr>)) (\<lambda>_.
     bindM (seqM
       [setbits h (DCTL b) (BIT 1),
        clrbits h (GAHBCFG b) (BIT 0),
        wr32 (GCCFG b) (usbd_get_dwc2_gccfg_conf b)]) (\<lambda>_.
     bindM (dwc2_core_init h b) (\<lambda>_.
     bindM (dwc2_set_mode h b clk 0) (\<lambda>_.
     bindM (foldM (\<lambda>i _. wr32 (DIEPTXF b i) 0) [0..<15] ()) (\<lambda>_.
     bindM (seqM
       [wr32 (PCGCCTL b) 0,
        clrbits h (DCFG b) 3,
        if hsphy_type = 0 then setbits h (DCFG b) 3 else setbits h (DCFG b) 1,
        wr32 (DIEPMSK b) 0,
        wr32 (DOEPMSK b) 0,
        wr32 (DAINTMSK b) 0,
        wr32 (GINTMSK b) 0,
        wr32 (GINTSTS b) 0xBFFFFFFF,
        wr32 (GINTMSK b) (BIT 12 OR BIT 13 OR BIT 19 OR BIT 18 OR BIT 11 OR BIT 31),
        setbits h (GINTMSK b) (BIT 4)]) (\<lambda>_.
     bindM (wr32 (GRXFSIZ b) RXALL_FIFO_SIZE) (\<lambda>_.
     bindM (foldM (\<lambda>i _. dwc2_set_txfifo h b i (TX_FIFO_SIZE i)) [0..<6] ()) (\<lambda>_.
     bindM (dwc2_flush_txfifo h b 0x10) (\<lambda>_.
     bindM (dwc2_flush_rxfifo h b) (\<lambda>r.
     bindM (setbits h (GAHBCFG b) (BIT 0)) (\<lambda>_.
     bindM (clrbits h (DCTL b) (BIT 1)) (\<lambda>_. ret r))))))))))))))))))))"

definition usb_dc_deinit_dwc2 :: "hw \<Rightarrow> u32 \<Rightarrow> int drv" where
  "usb_dc_deinit_dwc2 h b =
     bindM (setbits h (GAHBCFG b) (BIT 0)) (\<lambda>_.
     bindM (setbits h (DCTL b) (BIT 1)) (\<lambda>_.
     bindM (foldM (\<lambda>i _. bindM (wr32 (DIEPINT b i) 0xFB7F) (\<lambda>_. wr32 (DOEPINT b i) 0xFB7F)) [0..<15] ()) (\<lambda>_.
     bindM (seqM [wr32 (DIEPMSK b) 0, wr32 (DOEPMSK b) 0, wr32 (DAINTMSK b) 0]) (\<lambda>_.
     bindM (dwc2_flush_txfifo h b 0x10) (\<lambda>_.
     bindM (dwc2_flush_rxfifo h b) (\<lambda>_. ret 0))))))"

definition usbd_set_address_dwc2 :: "hw \<Rightarrow> u32 \<Rightarrow> u8 \<Rightarrow> int drv" where
  "usbd_set_address_dwc2 h b addr =
     bindM (clrbits h (DCFG b) (push_bit 4 0x7F)) (\<lambda>_.
     bindM (setbits h (DCFG b) (push_bit 4 (ucast addr) AND push_bit 4 0x7F)) (\<lambda>_. ret 0))"

definition usbd_set_remote_wakeup_dwc2 :: "hw \<Rightarrow> u32 \<Rightarrow> u32 \<Rightarrow> int drv" where
  "usbd_set_remote_wakeup_dwc2 h b clk =
     bindM (rd32 h (DSTS b)) (\<lambda>v.
     if v AND BIT 0 = 0 then ret (-1)
     else
       bindM (setbits h (DCTL b) (BIT 0)) (\<lambda>_.
       bindM (usbd_dwc2_delay_ms clk 10) (\<lambda>_.
       bindM (clrbits h (DCTL b) (BIT 0)) (\<lambda>_. ret 0))))"

definition usbd_get_port_speed_dwc2 :: "hw \<Rightarrow> u32 \<Rightarrow> u8 drv" where
  "usbd_get_port_speed_dwc2 h b =
     bindM (rd32 h (DSTS b)) (\<lambda>v. ret (if v AND 6 = 0 then 3 else 2))"

section \<open>Endpoints\<close>

definition ep_index :: "u8 \<Rightarrow> nat" where
  "ep_index ep = unat (ep AND 0x7F)"

definition ep_is_out :: "u8 \<Rightarrow> bool" where
  "ep_is_out ep \<longleftrightarrow> ep AND 0x80 = 0"

definition usbd_ep_open_dwc2 :: "hw \<Rightarrow> u32 \<Rightarrow> usb_endpoint_descriptor \<Rightarrow> int drv" where
  "usbd_ep_open_dwc2 h b ep =
     (let i = ep_index (bEndpointAddress ep); mps = USB_GET_MAXPACKETSIZE (wMaxPacketSize ep);
          typ = bmAttributes ep AND 3 in
      bindM (usb_assert (i < 6)) (\<lambda>_.
      if ep_is_out (bEndpointAddress ep) then
        bindM (mod_out i (\<lambda>e. e\<lparr>dep_mps := mps, dep_type := typ\<rparr>)) (\<lambda>_.
        bindM (setbits h (DAINTMSK b) (0xFFFF0000 AND push_bit (16 + i) 1)) (\<lambda>_.
        bindM (rd32 h (DOEPCTL b i)) (\<lambda>v.
        bindM (whenM (v AND BIT 15 = 0)
          (setbits h (DOEPCTL b i) ((ucast mps AND 0x7FF) OR push_bit 18 (ucast typ) OR BIT 28 OR BIT 15))) (\<lambda>_.
        ret 0))))
      else
        bindM (if i = 0 then rd32 h (DIEPTXF0 b) else rd32 h (DIEPTXF b (i - 1))) (\<lambda>v.
        let fifo_size = ucast (drop_bit 16 v) :: u16 in
        bindM (usb_assert (unat fifo_size * 4 \<ge> unat mps)) (\<lambda>_.
        bindM (mod_in i (\<lambda>e. e\<lparr>dep_mps := mps, dep_type := typ\<rparr>)) (\<lambda>_.
        bindM (setbits h (DAINTMSK b) (0xFFFF AND push_bit i 1)) (\<lambda>_.
        bindM (rd32 h (DIEPCTL b i)) (\<lambda>v.
        bindM (whenM (v AND BIT 15 = 0)
          (setbits h (DIEPCTL b i)
            ((ucast mps AND 0x7FF) OR push_bit 18 (ucast typ) OR push_bit 22 (of_nat i) OR BIT 28 OR BIT 15))) (\<lambda>_.
        bindM (dwc2_flush_txfifo h b (of_nat i)) (\<lambda>_. ret 0)))))))))"

text \<open>Switching one endpoint off, for its control and interrupt registers and its bit of the masks.\<close>

definition ep_off :: "hw \<Rightarrow> u32 \<Rightarrow> u32 \<Rightarrow> u32 \<Rightarrow> u32 \<Rightarrow> int drv" where
  "ep_off h b ctl int_reg m =
     bindM (rd32 h ctl) (\<lambda>v.
     bindM (whenM (v AND BIT 31 \<noteq> 0) (seqM
       [setbits h ctl (BIT 27),
        setbits h ctl (BIT 30),
        bindM (poll_times h int_reg (\<lambda>v. v AND BIT 1 = BIT 1) 50000) (\<lambda>_. ret ()),
        wr32 int_reg (BIT 1)])) (\<lambda>_.
     bindM (seqM [clrbits h (DEACHMSK b) m, clrbits h (DAINTMSK b) m, wr32 ctl 0]) (\<lambda>_. ret 0)))"

definition usbd_ep_close_dwc2 :: "hw \<Rightarrow> u32 \<Rightarrow> u8 \<Rightarrow> int drv" where
  "usbd_ep_close_dwc2 h b ep =
     (let i = ep_index ep in
      if ep_is_out ep then ep_off h b (DOEPCTL b i) (DOEPINT b i) (0xFFFF0000 AND push_bit 16 (push_bit (i mod 8) 1))
      else ep_off h b (DIEPCTL b i) (DIEPINT b i) (0xFFFF AND push_bit (i mod 8) 1))"

definition stall_reg :: "hw \<Rightarrow> u32 \<Rightarrow> nat \<Rightarrow> unit drv" where
  "stall_reg h ctl i =
     bindM (rd32 h ctl) (\<lambda>v.
     thenM (whenM (v AND BIT 31 = 0 \<and> i \<noteq> 0) (clrbits h ctl (BIT 30))) (setbits h ctl (BIT 21)))"

definition usbd_ep_set_stall_dwc2 :: "hw \<Rightarrow> u32 \<Rightarrow> u8 \<Rightarrow> int drv" where
  "usbd_ep_set_stall_dwc2 h b ep =
     bindM (stall_reg h (if ep_is_out ep then DOEPCTL b (ep_index ep) else DIEPCTL b (ep_index ep)) (ep_index ep))
       (\<lambda>_. ret 0)"

definition usbd_ep_clear_stall_dwc2 :: "hw \<Rightarrow> u32 \<Rightarrow> u8 \<Rightarrow> int drv" where
  "usbd_ep_clear_stall_dwc2 h b ep =
     (let i = ep_index ep; ctl = (if ep_is_out ep then DOEPCTL b i else DIEPCTL b i) in
      bindM (clrbits h ctl (BIT 21)) (\<lambda>_.
      bindM (if ep_is_out ep then get_out i else get_in i) (\<lambda>e.
      bindM (whenM (dep_type e = USB_ENDPOINT_TYPE_INTERRUPT \<or> dep_type e = USB_ENDPOINT_TYPE_BULK)
        (setbits h ctl (BIT 28))) (\<lambda>_. ret 0))))"

definition usbd_ep_is_stalled_dwc2 :: "hw \<Rightarrow> u32 \<Rightarrow> u8 \<Rightarrow> u8 drv" where
  "usbd_ep_is_stalled_dwc2 h b ep =
     bindM (rd32 h (if ep_is_out ep then DOEPCTL b (ep_index ep) else DIEPCTL b (ep_index ep))) (\<lambda>v.
     ret (if v AND BIT 21 \<noteq> 0 then 1 else 0))"

text \<open>The packets of a transfer; dividing by a packet size of 0 is undefined.\<close>

definition packet_count :: "u32 \<Rightarrow> u16 \<Rightarrow> u32 drv" where
  "packet_count n mps =
     (if mps = 0 then faultM Division_By_Zero
      else ret (ucast (ucast ((n + ucast mps - 1) div ucast mps) :: u16)))"

text \<open>The size register of a transfer of \<open>n > 0\<close> bytes; the result is the number of bytes armed.\<close>

definition arm_size :: "hw \<Rightarrow> u32 \<Rightarrow> nat \<Rightarrow> u32 \<Rightarrow> u16 \<Rightarrow> (u32 \<Rightarrow> unit drv) \<Rightarrow> u32 drv" where
  "arm_size h siz i n mps set_len =
     (if i = 0 then
        (let n = (if n > ucast mps then ucast mps else n) in
         bindM (set_len n) (\<lambda>_.
         bindM (setbits h siz (push_bit 19 0x3FF AND BIT 19)) (\<lambda>_.
         bindM (setbits h siz (0x7FFFF AND n)) (\<lambda>_. ret n))))
      else
        bindM (packet_count n mps) (\<lambda>pktcnt.
        bindM (setbits h siz (push_bit 19 0x3FF AND push_bit 19 pktcnt)) (\<lambda>_.
        bindM (setbits h siz (0x7FFFF AND n)) (\<lambda>_. ret n))))"

definition usbd_ep_start_write_dwc2 :: "hw \<Rightarrow> u32 \<Rightarrow> u8 \<Rightarrow> u32 \<Rightarrow> u32 \<Rightarrow> int drv" where
  "usbd_ep_start_write_dwc2 h b ep data data_len =
     (let i = ep_index ep in
      bindM (usb_assert (data mod 4 = 0)) (\<lambda>_.
      if data = 0 \<and> data_len \<noteq> 0 then ret (-1)
      else
        bindM (if i = 0 then ret True else bindM (rd32 h (DIEPCTL b i)) (\<lambda>v. ret (v AND 0x7FF \<noteq> 0))) (\<lambda>is_open.
        if \<not> is_open then ret (-2)
        else
          bindM (mod_in i (\<lambda>e. e\<lparr>xfer_buf := data, xfer_len := data_len, actual_xfer_len := 0\<rparr>)) (\<lambda>_.
          bindM (clrbits h (DIEPTSIZ b i) (push_bit 19 0x3FF)) (\<lambda>_.
          bindM (clrbits h (DIEPTSIZ b i) 0x7FFFF) (\<lambda>_.
          if data_len = 0 then
            bindM (setbits h (DIEPTSIZ b i) (push_bit 19 0x3FF AND BIT 19)) (\<lambda>_.
            bindM (setbits h (DIEPCTL b i) (BIT 26 OR BIT 31)) (\<lambda>_. ret 0))
          else
            bindM (get_in i) (\<lambda>e.
            bindM (arm_size h (DIEPTSIZ b i) i data_len (dep_mps e) (\<lambda>n. mod_in i (\<lambda>e. e\<lparr>xfer_len := n\<rparr>))) (\<lambda>n.
            bindM (whenM (dep_type e = USB_ENDPOINT_TYPE_ISOCHRONOUS)
              (thenM (set_frame h b (DIEPCTL b i)) (set_mulcnt h b i))) (\<lambda>_.
            bindM (setbits h (DIEPCTL b i) (BIT 26 OR BIT 31)) (\<lambda>_.
            bindM (whenM (n > 0) (setbits h (DIEPEMPMSK b) (push_bit (i mod 16) 1))) (\<lambda>_.
            ret 0)))))))))))"

definition usbd_ep_start_read_dwc2 :: "hw \<Rightarrow> u32 \<Rightarrow> u8 \<Rightarrow> u32 \<Rightarrow> u32 \<Rightarrow> int drv" where
  "usbd_ep_start_read_dwc2 h b ep data data_len =
     (let i = ep_index ep in
      bindM (usb_assert (data mod 4 = 0)) (\<lambda>_.
      if data = 0 \<and> data_len \<noteq> 0 then ret (-1)
      else
        bindM (if i = 0 then ret True else bindM (rd32 h (DOEPCTL b i)) (\<lambda>v. ret (v AND 0x7FF \<noteq> 0))) (\<lambda>is_open.
        if \<not> is_open then ret (-2)
        else
          bindM (mod_out i (\<lambda>e. e\<lparr>xfer_buf := data, xfer_len := data_len, actual_xfer_len := 0\<rparr>)) (\<lambda>_.
          bindM (clrbits h (DOEPTSIZ b i) (push_bit 19 0x3FF)) (\<lambda>_.
          bindM (clrbits h (DOEPTSIZ b i) 0x7FFFF) (\<lambda>_.
          bindM (get_out i) (\<lambda>e.
          if data_len = 0 then
            bindM (setbits h (DOEPTSIZ b i) (push_bit 19 0x3FF AND BIT 19)) (\<lambda>_.
            bindM (setbits h (DOEPTSIZ b i) (0x7FFFF AND ucast (dep_mps e))) (\<lambda>_.
            bindM (setbits h (DOEPCTL b i) (BIT 26 OR BIT 31)) (\<lambda>_. ret 0)))
          else
            bindM (arm_size h (DOEPTSIZ b i) i data_len (dep_mps e) (\<lambda>n. mod_out i (\<lambda>e. e\<lparr>xfer_len := n\<rparr>))) (\<lambda>_.
            bindM (whenM (dep_type e = USB_ENDPOINT_TYPE_ISOCHRONOUS) (set_frame h b (DOEPCTL b i))) (\<lambda>_.
            bindM (setbits h (DOEPCTL b i) (BIT 26 OR BIT 31)) (\<lambda>_. ret 0))))))))))"

section \<open>The interrupt routine\<close>

text \<open>What the routine reports to the stack: the functions \<open>usbd_event_*_handler\<close> it calls.\<close>

datatype report =
    Setup_Complete
  | In_Complete u8 u32
  | Out_Complete u8 u32
  | Reset_Event
  | Suspend_Event
  | Resume_Event

text \<open>
  One entry of the receive FIFO. The number of bytes is not checked: a setup packet of more than the
  eight bytes of \<open>setup\<close> overruns that member of the driver's structure.
\<close>

definition rx_fifo_entry :: "hw \<Rightarrow> u32 \<Rightarrow> u32 \<Rightarrow> unit drv" where
  "rx_fifo_entry h b sa =
     bindM (clrbits h (GINTMSK b) (BIT 4)) (\<lambda>_.
     bindM (rd32 h (GRXSTSP b)) (\<lambda>temp.
     let i = unat (temp AND 0xF); pktsts = drop_bit 17 (temp AND push_bit 17 0xF);
         read_count = drop_bit 4 (temp AND push_bit 4 0x7FF) in
     bindM (if pktsts = 2 then
          whenM (read_count \<noteq> 0)
            (bindM (get_out i) (\<lambda>e.
             bindM (dwc2_ep_read h b (xfer_buf e) (ucast read_count)) (\<lambda>_.
             mod_out i (\<lambda>e. e\<lparr>xfer_buf := xfer_buf e + read_count\<rparr>))))
        else if pktsts = 6 then
          (if read_count > 8 then faultM Out_Of_Bounds else dwc2_ep_read h b sa (ucast read_count))
        else ret ()) (\<lambda>_.
     setbits h (GINTMSK b) (BIT 4))))"

text \<open>The end of a transfer: the bytes moved are those armed less those left in the size register.\<close>

definition out_complete :: "hw \<Rightarrow> (report \<Rightarrow> unit drv) \<Rightarrow> u32 \<Rightarrow> nat \<Rightarrow> unit drv" where
  "out_complete h up b i =
     bindM (rd32 h (DOEPTSIZ b i)) (\<lambda>v.
     bindM (mod_out i (\<lambda>e. e\<lparr>actual_xfer_len := xfer_len e - (v AND 0x7FFFF), xfer_len := 0\<rparr>)) (\<lambda>_.
     bindM (get_out i) (\<lambda>e. up (Out_Complete (of_nat i) (actual_xfer_len e)))))"

definition in_complete :: "hw \<Rightarrow> (report \<Rightarrow> unit drv) \<Rightarrow> u32 \<Rightarrow> nat \<Rightarrow> unit drv" where
  "in_complete h up b i =
     bindM (rd32 h (DIEPTSIZ b i)) (\<lambda>v.
     bindM (mod_in i (\<lambda>e. e\<lparr>actual_xfer_len := xfer_len e - (v AND 0x7FFFF), xfer_len := 0\<rparr>)) (\<lambda>_.
     bindM (get_in i) (\<lambda>e. up (In_Complete (of_nat i OR 0x80) (actual_xfer_len e)))))"

definition out_endpoint_interrupt :: "hw \<Rightarrow> (report \<Rightarrow> unit drv) \<Rightarrow> u32 \<Rightarrow> nat \<Rightarrow> unit drv" where
  "out_endpoint_interrupt h up b i =
     bindM (dwc2_get_outep_intstatus h b i) (\<lambda>epint.
     bindM (whenM (epint AND BIT 0 = BIT 0)
       (bindM (get_out i) (\<lambda>e.
        if i = 0 \<and> xfer_len e = 0 then dwc2_ep0_start_read_setup h b
        else out_complete h up b i))) (\<lambda>_.
     whenM (epint AND BIT 3 = BIT 3) (up Setup_Complete)))"

text \<open>\<open>setup.wLength\<close> and the direction of \<open>setup.bmRequestType\<close>, from the packet in memory.\<close>

definition setup_wLength :: "u32 \<Rightarrow> memory \<Rightarrow> u32" where
  "setup_wLength sa m = le16 (m (sa + 6)) (m (sa + 7))"

definition setup_dir_out :: "u32 \<Rightarrow> memory \<Rightarrow> bool" where
  "setup_dir_out sa m \<longleftrightarrow> m sa AND USB_REQUEST_DIR_MASK = USB_REQUEST_DIR_OUT"

definition in_endpoint_interrupt :: "hw \<Rightarrow> (report \<Rightarrow> unit drv) \<Rightarrow> u32 \<Rightarrow> u32 \<Rightarrow> nat \<Rightarrow> unit drv" where
  "in_endpoint_interrupt h up b sa i =
     bindM (dwc2_get_inep_intstatus h b i) (\<lambda>epint.
     bindM (whenM (epint AND BIT 0 = BIT 0)
       (bindM (in_complete h up b i) (\<lambda>_.
        bindM (getM ram) (\<lambda>m.
        whenM (i = 0 \<and> (setup_wLength sa m \<noteq> 0 \<and> setup_dir_out sa m \<or> setup_wLength sa m = 0))
          (dwc2_ep0_start_read_setup h b))))) (\<lambda>_.
     whenM (epint AND BIT 7 = BIT 7) (dwc2_tx_fifo_empty_procecss h b i)))"

text \<open>\<open>while (ep_intr != 0) { if (ep_intr & 1) ...; ep_intr >>= 1; ep_idx++; }\<close>\<close>

definition each_endpoint :: "u32 \<Rightarrow> (nat \<Rightarrow> unit drv) \<Rightarrow> unit drv" where
  "each_endpoint ep_intr f =
     bindM (whileM (\<lambda>(r, i). ret (r \<noteq> 0))
       (\<lambda>(r, i). bindM (whenM (r AND 1 \<noteq> 0) (f i)) (\<lambda>_. ret (drop_bit 1 r, i + 1))) (ep_intr, 0)) (\<lambda>_. ret ())"

text \<open>An endpoint at a bus reset.\<close>

definition reset_ctl :: "hw \<Rightarrow> u32 \<Rightarrow> unit drv" where
  "reset_ctl h ctl = bindM (rd32 h ctl) (\<lambda>v. if v AND BIT 31 \<noteq> 0 then wr32 ctl (BIT 30 OR BIT 27) else wr32 ctl 0)"

definition reset_endpoint :: "hw \<Rightarrow> u32 \<Rightarrow> nat \<Rightarrow> unit drv" where
  "reset_endpoint h b i = seqM
     [if i = 0 then thenM (wr32 (DIEPCTL b i) (BIT 27)) (wr32 (DOEPCTL b i) (BIT 27))
      else thenM (reset_ctl h (DIEPCTL b i)) (reset_ctl h (DOEPCTL b i)),
      wr32 (DIEPTSIZ b i) 0,
      wr32 (DIEPINT b i) 0xFBFF,
      wr32 (DOEPTSIZ b i) 0,
      wr32 (DOEPINT b i) 0xFBFF]"

definition bus_reset :: "hw \<Rightarrow> (report \<Rightarrow> unit drv) \<Rightarrow> u32 \<Rightarrow> u32 \<Rightarrow> unit drv" where
  "bus_reset h up b sa = seqM
     [wr32 (GINTSTS b) (BIT 12),
      clrbits h (DCTL b) (BIT 0),
      bindM (dwc2_flush_txfifo h b 0x10) (\<lambda>_. ret ()),
      bindM (dwc2_flush_rxfifo h b) (\<lambda>_. ret ()),
      foldM (\<lambda>i _. reset_endpoint h b i) [0..<6] (),
      setbits h (DAINTMSK b) 0x10001,
      wr32 (DOEPMSK b) (BIT 3 OR BIT 0),
      wr32 (DIEPMSK b) (BIT 0),
      clear_udc sa,
      up Reset_Event,
      dwc2_ep0_start_read_setup h b]"

text \<open>A condition that is only acknowledged, and one that is also reported.\<close>

definition ack :: "u32 \<Rightarrow> u32 \<Rightarrow> nat \<Rightarrow> unit drv \<Rightarrow> unit drv" where
  "ack b gint n m = whenM (gint AND BIT n \<noteq> 0) (thenM (wr32 (GINTSTS b) (BIT n)) m)"

definition USBD_IRQHandler :: "hw \<Rightarrow> (report \<Rightarrow> unit drv) \<Rightarrow> u32 \<Rightarrow> u32 \<Rightarrow> u32 \<Rightarrow> unit drv" where
  "USBD_IRQHandler h up b sa clk =
     bindM (dwc2_get_glb_intstatus h b) (\<lambda>gint.
     bindM (rd32 h (GINTSTS b)) (\<lambda>v.
     whenM (v AND 1 = 0 \<and> gint \<noteq> 0) (seqM
       [whenM (gint AND BIT 4 \<noteq> 0) (rx_fifo_entry h b sa),
        whenM (gint AND BIT 19 \<noteq> 0)
          (bindM (dwc2_get_outeps_intstatus h b) (\<lambda>eps. each_endpoint eps (out_endpoint_interrupt h up b))),
        whenM (gint AND BIT 18 \<noteq> 0)
          (bindM (dwc2_get_ineps_intstatus h b) (\<lambda>eps. each_endpoint eps (in_endpoint_interrupt h up b sa))),
        whenM (gint AND BIT 12 \<noteq> 0) (bus_reset h up b sa),
        ack b gint 13
          (bindM (dwc2_get_devspeed h b) (\<lambda>sp.
           thenM (dwc2_set_turnaroundtime h b clk sp) (setbits h (DCTL b) (BIT 8)))),
        ack b gint 21 (ret ()),
        ack b gint 20 (ret ()),
        ack b gint 11 (up Suspend_Event),
        ack b gint 31 (up Resume_Event),
        whenM (gint AND BIT 2 \<noteq> 0)
          (bindM (rd32 h (GOTGINT b)) (\<lambda>temp. mod32 h (GOTGINT b) (\<lambda>v. v OR temp)))])))"

text \<open>The vector of \<open>gd32f4xx_it.c\<close>; \<open>b\<close> is the base address of the only bus.\<close>

definition USBFS_IRQHandler :: "hw \<Rightarrow> (report \<Rightarrow> unit drv) \<Rightarrow> u32 \<Rightarrow> u32 \<Rightarrow> u32 \<Rightarrow> unit drv" where
  "USBFS_IRQHandler h up b sa clk = USBD_IRQHandler h up b sa clk"

end
