(* ===== verification/Dwc2_Transfer.thy ===== *)
theory Dwc2_Transfer
  imports Usb_Dwc2
begin

text \<open>
  Transfers of the USB controller driver. The packets of a transfer and the words they are in the FIFO are lists; arming an
  IN endpoint programs their number and their size, and the interrupt for an empty FIFO sends them in order.
\<close>


section \<open>The packets of a transfer\<close>

text \<open>The sizes of the packets that \<open>n\<close> bytes are sent in, and the words a packet is in the FIFO.\<close>

fun packets :: "nat \<Rightarrow> nat \<Rightarrow> nat list" where
  "packets mps n = (if n = 0 \<or> mps = 0 then [] else min n mps # packets mps (n - mps))"

declare packets.simps [simp del]

definition fifo_words :: "memory \<Rightarrow> u32 \<Rightarrow> nat \<Rightarrow> u32 list" where
  "fifo_words m a n = map (\<lambda>j. word_at m (a + 4 * of_nat j)) [0..<(n + 3) div 4]"

fun packet_words :: "memory \<Rightarrow> u32 \<Rightarrow> nat list \<Rightarrow> u32 list" where
  "packet_words m a [] = []"
| "packet_words m a (n # ns) = fifo_words m a n @ packet_words m (a + of_nat n) ns"

text \<open>The values written to an address, oldest first.\<close>

definition written :: "u32 \<Rightarrow> io_log \<Rightarrow> u32 list" where
  "written a l = map snd (filter (\<lambda>(x, _). x = a) (writes l))"

lemma written_simps [simp]:
  "written a [] = []" "written a (Rd x v # l) = written a l" "written a (Idle # l) = written a l"
  "written a (Wr x v # l) = written a l @ (if x = a then [v] else [])"
  by (simp_all add: written_def)

lemma packets_take:
  "k \<le> length (packets mps n) \<Longrightarrow> sum_list (take k (packets mps n)) \<le> n \<and>
     (k < length (packets mps n) \<longrightarrow> packets mps n ! k = min (n - sum_list (take k (packets mps n))) mps \<and>
        sum_list (take k (packets mps n)) < n) \<and>
     (k = length (packets mps n) \<and> mps \<noteq> 0 \<longrightarrow> sum_list (take k (packets mps n)) = n)"
proof (induction mps n arbitrary: k rule: packets.induct)
  case (1 mps n)
  show ?case
  proof (cases "n = 0 \<or> mps = 0 \<or> k = 0")
    case True
    then show ?thesis using "1.prems" by (cases k) (auto simp: packets.simps [of mps n])
  next
    case False
    then obtain j where k: "k = Suc j" by (cases k) auto
    have "j \<le> length (packets mps (n - mps))" using "1.prems" False by (simp add: k packets.simps [of mps n])
    from "1.IH" [OF _ this] False show ?thesis
      by (auto simp: k packets.simps [of mps n] min_def) (simp_all add: less_diff_conv)
  qed
qed

lemma packet_words_append:
  "packet_words m a (xs @ ys) = packet_words m a xs @ packet_words m (a + of_nat (sum_list xs)) ys"
  by (induction xs arbitrary: a) (simp_all add: add.assoc)

lemma unat_u16: "unat (ucast (x :: u16) :: u32) = unat x"
  by (simp add: unsigned_ucast_eq take_bit_nat_eq_self unsigned_less [THEN order.strict_trans])

lemma words_of_len: "unat ((ucast (len :: u16) + 3) div 4 :: u32) = (unat len + 3) div 4"
proof -
  have "unat len < 65536" using unsigned_less [of len, where ?'a = nat] by simp
  then show ?thesis
    by (simp add: unat_div unat_word_ariths unat_u16)
qed

lemma run_ep_write:
  "foldM (\<lambda>i pSrc. bindM (getM (\<lambda>s. word_at (ram s) pSrc)) (\<lambda>w. bindM (wr32 a w) (\<lambda>_. ret (pSrc + 4)))) [0..<n] p s
     = Some (Inr (p + 4 * of_nat n,
         s\<lparr>iolog := rev (map (\<lambda>j. Wr a (word_at (ram s) (p + 4 * of_nat j))) [0..<n]) @ iolog s\<rparr>))"
proof (induction n)
  case 0
  show ?case by (simp add: run_simps)
next
  case (Suc n)
  then show ?case by (simp add: foldM_append run_simps algebra_simps)
qed

lemma wp_ep_write:
  "wp (dwc2_ep_write b i src len) Q s =
     Q () (s\<lparr>iolog := rev (map (Wr (FIFO b i)) (fifo_words (ram s) src (unat len))) @ iolog s\<rparr>)"
  by (simp add: dwc2_ep_write_def wp_def run_simps run_ep_write words_of_len fifo_words_def comp_def)

lemma written_fifo [simp]:
  "written a (rev (map (Wr a) ws) @ l) = written a l @ ws"
  by (induction ws arbitrary: l rule: rev_induct) simp_all


section \<open>The transmit FIFO\<close>

text \<open>The addresses of an endpoint's registers differ from its FIFO.\<close>

lemma fifo_apart:
  assumes "i < 6"
  shows "FIFO b i \<noteq> DIEPCTL b i" "FIFO b i \<noteq> DIEPTSIZ b i" "FIFO b i \<noteq> DIEPEMPMSK b" "DIEPEMPMSK b \<noteq> FIFO b i"
    "DIEPCTL b i \<noteq> FIFO b i" "DIEPTSIZ b i \<noteq> FIFO b i"
proof -
  have "i \<in> {0, 1, 2, 3, 4, 5}" using assms by auto
  then show "FIFO b i \<noteq> DIEPCTL b i" "FIFO b i \<noteq> DIEPTSIZ b i" "FIFO b i \<noteq> DIEPEMPMSK b"
    "DIEPEMPMSK b \<noteq> FIFO b i" "DIEPCTL b i \<noteq> FIFO b i" "DIEPTSIZ b i \<noteq> FIFO b i"
    by (auto simp: add.assoc)
qed

text \<open>The endpoint after the packets \<open>ps\<close>.\<close>

definition advance :: "dwc2_ep_state \<Rightarrow> nat list \<Rightarrow> dwc2_ep_state" where
  "advance e ps = e\<lparr>xfer_buf := xfer_buf e + of_nat (sum_list ps),
     actual_xfer_len := actual_xfer_len e + of_nat (sum_list ps)\<rparr>"

definition packets_sent :: "u32 \<Rightarrow> nat \<Rightarrow> dwc2 \<Rightarrow> nat list \<Rightarrow> dwc2 \<Rightarrow> bool" where
  "packets_sent b i s ps t \<longleftrightarrow> t = s\<lparr>iolog := iolog t, in_ep := (in_ep s)[i := advance (in_ep s ! i) ps]\<rparr> \<and>
     written (FIFO b i) (iolog t)
       = written (FIFO b i) (iolog s) @ packet_words (ram s) (xfer_buf (in_ep s ! i)) ps"

lemma wp_get_in [wp_simps]: "wp (get_in i) Q = (\<lambda>s. i < length (in_ep s) \<and> Q (in_ep s ! i) s)"
  by (simp add: get_in_def wp_simps)

lemma wp_get_out [wp_simps]: "wp (get_out i) Q = (\<lambda>s. i < length (out_ep s) \<and> Q (out_ep s ! i) s)"
  by (simp add: get_out_def wp_simps)

lemma wp_mod_in [wp_simps]:
  "wp (mod_in i f) Q = (\<lambda>s. i < length (in_ep s) \<and> Q () (s\<lparr>in_ep := (in_ep s)[i := f (in_ep s ! i)]\<rparr>))"
  by (simp add: mod_in_def wp_simps)

lemma wp_mod_out [wp_simps]:
  "wp (mod_out i f) Q = (\<lambda>s. i < length (out_ep s) \<and> Q () (s\<lparr>out_ep := (out_ep s)[i := f (out_ep s ! i)]\<rparr>))"
  by (simp add: mod_out_def wp_simps)

text \<open>The packet after those already sent.\<close>

lemma next_packet:
  fixes e :: dwc2_ep_state
  defines "ps \<equiv> packets (unat (dep_mps e)) (unat (xfer_len e - actual_xfer_len e))"
  assumes k: "k \<le> length ps" and mps: "dep_mps e \<noteq> 0" and le: "actual_xfer_len e \<le> xfer_len e"
  shows "actual_xfer_len (advance e (take k ps)) < xfer_len e \<longleftrightarrow> k < length ps" (is ?A)
    and "k < length ps \<Longrightarrow> unat (packet_len (advance e (take k ps))) = ps ! k" (is "_ \<Longrightarrow> ?B")
    and "unat (xfer_len e - actual_xfer_len (advance e (take k ps)))
      = unat (xfer_len e - actual_xfer_len e) - sum_list (take k ps)" (is ?C)
proof -
  let ?n = "unat (xfer_len e - actual_xfer_len e)" and ?S = "sum_list (take k ps)"
  have m: "unat (dep_mps e) \<noteq> 0" using mps by (simp add: unat_eq_0)
  note pt = packets_take [OF k [unfolded ps_def], folded ps_def]
  have n: "?n = unat (xfer_len e) - unat (actual_xfer_len e)" using le by (simp add: unat_sub)
  have S: "?S \<le> ?n" using pt by simp
  have xl: "unat (xfer_len e) < 2 ^ 32" using unsigned_less [of "xfer_len e", where ?'a = nat] by simp
  have le': "unat (actual_xfer_len e) \<le> unat (xfer_len e)" using le by (simp add: word_le_nat_alt)
  have act: "unat (actual_xfer_len (advance e (take k ps))) = unat (actual_xfer_len e) + ?S"
    using S n xl le' by (simp add: advance_def unat_word_ariths unsigned_of_nat take_bit_nat_eq_self)
  have strict: "?S < ?n \<longleftrightarrow> k < length ps"
    using pt m k by (cases "k = length ps") auto
  show ?A using act n strict le' by (auto simp: word_less_nat_alt)
  show C: ?C
    using act n S le' by (simp add: unat_sub word_le_nat_alt)
  show ?B if "k < length ps"
    using C pt that
    by (simp add: packet_len_def Let_def word_less_nat_alt unat_u16 advance_def min_def)
qed


text \<open>The extra registers of an isochronous packet leave the FIFO alone.\<close>

lemma wp_frame_choice:
  assumes "i < 6"
    and "\<And>l. written (FIFO b i) l = written (FIFO b i) (iolog t) \<Longrightarrow> Q () (t\<lparr>iolog := l\<rparr>)"
  shows "wp (whenM c (thenM (set_frame h b (DIEPCTL b i)) (set_mulcnt h b i))) Q t"
  using assms(2) [of "iolog t"] fifo_apart [OF assms(1), of b]
  by (auto simp: wp_simps set_frame_def set_mulcnt_def bits_defs intro!: assms(2))

lemma packet_step:
  fixes s :: dwc2 and i :: nat
  defines "e \<equiv> in_ep s ! i"
  defines "ps \<equiv> packets (unat (dep_mps e)) (unat (xfer_len e - actual_xfer_len e))"
  assumes i: "i < 6" "i < length (in_ep s)" and k: "k < length ps" and mps: "dep_mps e \<noteq> 0"
    and le: "actual_xfer_len e \<le> xfer_len e" and t: "packets_sent b i s (take k ps) t"
  shows "wp (tx_fifo_packet h b i) (\<lambda>_. packets_sent b i s (take (Suc k) ps)) t"
proof -
  let ?e = "advance e (take k ps)"
  obtain l where te: "t = s\<lparr>iolog := l, in_ep := (in_ep s)[i := ?e]\<rparr>"
    and tw: "written (FIFO b i) l = written (FIFO b i) (iolog s) @ packet_words (ram s) (xfer_buf e) (take k ps)"
    using t unfolding packets_sent_def e_def by (metis bus.select_convs(1))
  have pl: "unat (packet_len ?e) = ps ! k"
    using next_packet(2) [OF _ mps le, of k] k by (simp add: ps_def)
  have "packet_len ?e \<le> ucast (dep_mps e)" by (auto simp: packet_len_def Let_def advance_def not_less)
  then have "ps ! k \<le> unat (dep_mps e)" by (simp add: word_le_nat_alt pl unat_u16)
  moreover have "unat (dep_mps e) < 65536" using unsigned_less [of "dep_mps e", where ?'a = nat] by simp
  ultimately have len: "unat (ucast (packet_len ?e) :: u16) = ps ! k"
    by (simp add: unsigned_ucast_eq pl take_bit_nat_eq_self)
  have pk: "packet_len ?e = of_nat (ps ! k)" using pl by (metis of_nat_unat ucast_id)
  have adv: "?e\<lparr>xfer_buf := xfer_buf ?e + of_nat (ps ! k), actual_xfer_len := actual_xfer_len ?e + of_nat (ps ! k)\<rparr>
      = advance e (take (Suc k) ps)"
    using k by (simp add: advance_def take_Suc_conv_app_nth add.assoc)
  have buf: "xfer_buf ?e = xfer_buf e + of_nat (sum_list (take k ps))" by (simp add: advance_def)
  have words: "packet_words (ram s) (xfer_buf e) (take (Suc k) ps)
      = packet_words (ram s) (xfer_buf e) (take k ps) @ fifo_words (ram s) (xfer_buf ?e) (ps ! k)"
    using k by (simp add: take_Suc_conv_app_nth packet_words_append buf)
  show ?thesis
    unfolding tx_fifo_packet_def wp_bindM wp_get_in Let_def
    using i
  proof (simp add: te, intro wp_frame_choice [OF i(1)])
    fix l' assume "written (FIFO b i) l' = written (FIFO b i)
      (iolog (s\<lparr>iolog := l, in_ep := (in_ep s)[i := advance e (take k ps)]\<rparr>))"
    then show "wp (dwc2_ep_write b i (xfer_buf ?e) (ucast (packet_len ?e)))
      (\<lambda>x. wp (mod_in i (\<lambda>e'. e'\<lparr>xfer_buf := xfer_buf e' + packet_len ?e,
          actual_xfer_len := actual_xfer_len e' + packet_len ?e\<rparr>)) (\<lambda>_. packets_sent b i s (take (Suc k) ps)))
      (s\<lparr>iolog := l, in_ep := (in_ep s)[i := advance e (take k ps)], iolog := l'\<rparr>)"
      using i len by (simp add: wp_ep_write wp_mod_in pk adv packets_sent_def words tw flip: e_def)
  qed
qed


lemma sent_endpoint:
  "packets_sent b i s ps t \<Longrightarrow> i < length (in_ep s) \<Longrightarrow> in_ep t ! i = advance (in_ep s ! i) ps \<and> i < length (in_ep t)"
  by (cases t) (auto simp: packets_sent_def)

lemma sent_read: "packets_sent b i s ps t \<Longrightarrow> packets_sent b i s ps (t\<lparr>iolog := Rd a v # iolog t\<rparr>)"
  by (cases t) (auto simp: packets_sent_def)

lemma sent_none: "i < length (in_ep s) \<Longrightarrow> packets_sent b i s [] s"
  by (simp add: packets_sent_def advance_def)

lemma advance_len [simp]: "xfer_len (advance e ps) = xfer_len e"
  by (simp add: advance_def)

text \<open>Every packet has a byte, so the loop makes progress.\<close>

lemma packets_progress:
  assumes "k < length (packets mps n)" "mps \<noteq> 0"
  shows "n - sum_list (take (Suc k) (packets mps n)) < n - sum_list (take k (packets mps n))"
  using packets_take [of k mps n] assms by (auto simp: take_Suc_conv_app_nth min_def)

lemma packet_advances:
  fixes s :: dwc2 and i :: nat
  defines "e \<equiv> in_ep s ! i"
  defines "ps \<equiv> packets (unat (dep_mps e)) (unat (xfer_len e - actual_xfer_len e))"
  assumes i: "i < 6" "i < length (in_ep s)" and mps: "dep_mps e \<noteq> 0" and le: "actual_xfer_len e \<le> xfer_len e"
    and k: "k < length ps" and t: "packets_sent b i s (take k ps) t"
  shows "wp (tx_fifo_packet h b i) (\<lambda>_ t'. (\<exists>k \<le> length ps. packets_sent b i s (take k ps) t') \<and>
      unat (xfer_len e - actual_xfer_len (in_ep t' ! i)) < unat (xfer_len e - actual_xfer_len (in_ep t ! i))) t"
proof -
  have m0: "unat (dep_mps e) \<noteq> 0" using mps by (simp add: unat_eq_0)
  have left: "unat (xfer_len e - actual_xfer_len (in_ep t ! i))
      = unat (xfer_len e - actual_xfer_len e) - sum_list (take k ps)"
    if "k \<le> length ps" "packets_sent b i s (take k ps) t" for k t
    using next_packet(3) [OF _ mps le, folded ps_def, OF that(1)] sent_endpoint [OF that(2) i(2)]
    by (simp add: e_def)
  show ?thesis
  proof (rule wp_mono [OF packet_step [OF i, folded e_def, folded ps_def, OF k mps le t]], goal_cases)
    case (1 x t')
    with k t show ?case
      using left [of k t] left [of "Suc k" t'] packets_progress [OF k [unfolded ps_def] m0, folded ps_def]
      by (intro conjI exI [of _ "Suc k"]) simp_all
  qed
qed

text \<open>
  C5: the transmit FIFO is filled with the packets of the transfer in order. For every hardware the routine
  ends; the words it writes to the endpoint's FIFO are those of the next packets of the buffer, each
  packet starting on a word of its own; the position in the buffer and the count of bytes sent advance by
  the sizes of these packets. Packets stay behind only when the FIFO reported less room than a packet
  needs; when none is left the FIFO-empty interrupt of the endpoint is switched off.
\<close>

theorem tx_fifo_sends_packets_in_order:
  fixes s :: dwc2 and i :: nat
  defines "e \<equiv> in_ep s ! i"
  defines "ps \<equiv> packets (unat (dep_mps e)) (unat (xfer_len e - actual_xfer_len e))"
  assumes "i < 6" "i < length (in_ep s)" "dep_mps e \<noteq> 0" "actual_xfer_len e \<le> xfer_len e"
  shows "wp (dwc2_tx_fifo_empty_procecss h b i) (\<lambda>_ t. \<exists>k \<le> length ps.
      t = s\<lparr>iolog := iolog t, in_ep := (in_ep s)[i := advance e (take k ps)]\<rparr> \<and>
      written (FIFO b i) (iolog t)
        = written (FIFO b i) (iolog s) @ packet_words (ram s) (xfer_buf e) (take k ps) \<and>
      (k < length ps \<longrightarrow> (\<exists>l. h l (DTXFSTS b i) AND 0xFFFF < (packet_len e + 3) div 4)) \<and>
      (k = length ps \<longrightarrow> (\<exists>v. last_wr (DIEPEMPMSK b) (iolog t) = Some (v AND NOT (BIT i))))) s"
proof -
  let ?left = "\<lambda>t :: dwc2. unat (xfer_len e - actual_xfer_len (in_ep t ! i))"
  note np = next_packet [OF _ assms(5,6), folded ps_def]
  note more = packet_advances [OF assms(3,4,5,6) [unfolded e_def], folded e_def, folded ps_def]
  show ?thesis
    unfolding dwc2_tx_fifo_empty_procecss_def wp_bindM wp_get_in Let_def
  proof (intro conjI assms(4), rule wp_whileM [where I = "\<lambda>_ t. \<exists>k \<le> length ps. packets_sent b i s (take k ps) t"
        and M = "\<lambda>_. ?left"], goal_cases)
    case 1
    show ?case using sent_none [OF assms(4)] by (intro exI [of _ 0]) simp
  next
    case (2 v t)
    then obtain k where k: "k \<le> length ps" and t: "packets_sent b i s (take k ps) t" by blast
    let ?t = "t\<lparr>iolog := Rd (DTXFSTS b i) (h (iolog t) (DTXFSTS b i)) # iolog t\<rparr>"
    have t': "packets_sent b i s (take k ps) ?t" by (rule sent_read [OF t])
    have e': "in_ep t ! i = advance e (take k ps)" "i < length (in_ep t)"
      using sent_endpoint [OF t assms(4)] by (simp_all add: e_def)
    show ?case
    proof (cases "(packet_len e + 3) div 4 \<le> h (iolog t) (DTXFSTS b i) AND 0xFFFF \<and> k < length ps")
      case True
      then have "xfer_len e \<noteq> 0" using np(1) [OF k] by auto
      with True np(1) [OF k] more [OF _ t'] e' show ?thesis by (simp add: wp_simps e_def [symmetric])
    next
      case False
      let ?u = "?t\<lparr>iolog := Wr (DIEPEMPMSK b) (h (iolog ?t) (DIEPEMPMSK b) AND NOT (BIT i))
          # Rd (DIEPEMPMSK b) (h (iolog ?t) (DIEPEMPMSK b)) # iolog ?t\<rparr>"
      have im: "i mod 16 = i" using assms(3) by simp
      have done_iff: "xfer_len e \<le> actual_xfer_len (advance e (take k ps)) \<longleftrightarrow> k = length ps"
        using np(1) [OF k] k by (auto simp: not_less [symmetric])
      show ?thesis
      proof (cases "k = length ps")
        case True
        have "packets_sent b i s (take k ps) ?u"
          using t' fifo_apart(4) [OF assms(3), of b] by (cases t) (auto simp: packets_sent_def)
        then show ?thesis
          using True e' np(1) [OF k] im done_iff
          by (simp add: wp_simps bits_defs packets_sent_def flip: e_def) (auto intro!: exI [of _ k])
      next
        case less: False
        with False k have "h (iolog t) (DTXFSTS b i) AND 0xFFFF < (packet_len e + 3) div 4" by auto
        with less k e' done_iff show ?thesis
          by (simp add: wp_simps flip: e_def) (use t' [unfolded packets_sent_def, folded e_def] in \<open>auto intro!: exI [of _ k]\<close>)
      qed
    qed
  qed
qed


text \<open>A hardware whose FIFOs have room for 16 words at any time.\<close>

definition roomy_fifo :: hw where
  "roomy_fifo l a = 16"

definition demo_drv :: dwc2 where
  "demo_drv = \<lparr>iolog = [], GSNPSID = 0, in_ep = [empty_ep, empty_ep, empty_ep\<lparr>dep_mps := 4, xfer_buf := 100, xfer_len := 6\<rparr>],
     out_ep = [], ram = (\<lambda>a. ucast a)\<rparr>"

theorem tx_fifo_sends_packets_in_order_witness:
  "\<exists>t. dwc2_tx_fifo_empty_procecss roomy_fifo 0 2 demo_drv = Some (Inr ((), t)) \<and>
     written 0x3000 (iolog t) = [0x67666564, 0x6B6A6968] \<and> actual_xfer_len (in_ep t ! 2) = 6"
proof -
  have "packets 4 6 = [4, 2]" by (simp add: packets.simps)
  moreover have "\<not> roomy_fifo l a AND 0xFFFF < (packet_len (in_ep demo_drv ! 2) + 3) div 4" for l a
    by (simp add: roomy_fifo_def demo_drv_def packet_len_def empty_ep_def)
  ultimately show ?thesis
    using tx_fifo_sends_packets_in_order [of 2 demo_drv roomy_fifo 0]
    by (auto simp: wp_def demo_drv_def empty_ep_def advance_def fifo_words_def word_at_def
        dest: arg_cong [of "_ :: dwc2" _ in_ep])
qed


section \<open>Arming a transfer\<close>

text \<open>The packet count and the byte count of a size register.\<close>

definition pktcnt_of :: "u32 \<Rightarrow> u32" where
  "pktcnt_of v = drop_bit 19 v AND 0x3FF"

definition xfrsiz_of :: "u32 \<Rightarrow> u32" where
  "xfrsiz_of v = v AND 0x7FFFF"

lemma size_masks: "(0x3FF :: u32) = mask 10" "(0x7FFFF :: u32) = mask 19" "(3 :: u32) = mask 2"
  by (simp_all add: mask_eq_exp_minus_1)

lemma size_field_updates:
  "pktcnt_of (v AND NOT (push_bit 19 0x3FF)) = 0" "xfrsiz_of (v AND NOT (push_bit 19 0x3FF)) = xfrsiz_of v"
  "pktcnt_of (v AND NOT 0x7FFFF) = pktcnt_of v" "xfrsiz_of (v AND NOT 0x7FFFF) = 0"
  "pktcnt_of (v OR (push_bit 19 0x3FF AND push_bit 19 k)) = pktcnt_of v OR (k AND 0x3FF)"
  "xfrsiz_of (v OR (push_bit 19 0x3FF AND push_bit 19 k)) = xfrsiz_of v"
  "pktcnt_of (v OR (0x7FFFF AND n)) = pktcnt_of v" "xfrsiz_of (v OR (0x7FFFF AND n)) = xfrsiz_of v OR (n AND 0x7FFFF)"
  "pktcnt_of (v AND NOT (push_bit 29 3)) = pktcnt_of v" "xfrsiz_of (v AND NOT (push_bit 29 3)) = xfrsiz_of v"
  "pktcnt_of (v OR (push_bit 29 3 AND w)) = pktcnt_of v" "xfrsiz_of (v OR (push_bit 29 3 AND w)) = xfrsiz_of v"
  unfolding pktcnt_of_def xfrsiz_of_def size_masks by (rule bit_eqI; auto simp: bit_simps)+

lemmas size_fields = size_field_updates [simplified]
  size_field_updates(11,12) [where w = "BIT 29", simplified]

lemma length_packets: "mps \<noteq> 0 \<Longrightarrow> length (packets mps n) = (n + mps - 1) div mps"
proof (induction mps n rule: packets.induct)
  case (1 mps n)
  show ?case
  proof (cases "n = 0")
    case True
    then show ?thesis using "1.prems" by (simp add: packets.simps)
  next
    case False
    with 1 have "length (packets mps n) = Suc ((n - mps + mps - 1) div mps)" by (simp add: packets.simps [of mps n])
    also have "\<dots> = (n + mps - 1) div mps"
      using False "1.prems" by (cases "n \<le> mps") (simp_all add: div_eq_0_iff le_div_geq)
    finally show ?thesis .
  qed
qed


lemma in_regs_apart:
  assumes "i < 6"
  shows "DIEPTSIZ b i \<noteq> DIEPCTL b i" "DIEPTSIZ b i \<noteq> DIEPEMPMSK b" "DIEPCTL b i \<noteq> DIEPTSIZ b i"
    "DIEPEMPMSK b \<noteq> DIEPTSIZ b i" "DIEPCTL b i \<noteq> DIEPEMPMSK b"
proof -
  have "i \<in> {0, 1, 2, 3, 4, 5}" using assms by auto
  then show "DIEPTSIZ b i \<noteq> DIEPCTL b i" "DIEPTSIZ b i \<noteq> DIEPEMPMSK b" "DIEPCTL b i \<noteq> DIEPTSIZ b i"
    "DIEPEMPMSK b \<noteq> DIEPTSIZ b i" "DIEPCTL b i \<noteq> DIEPEMPMSK b"
    by (auto simp: add.assoc)
qed

lemma packet_count_value:
  assumes "mps \<noteq> 0" "length (packets (unat mps) (unat n)) < 1024" "unat n < 2 ^ 19"
  shows "wp (packet_count n mps) Q s \<longleftrightarrow> Q (of_nat (length (packets (unat mps) (unat n)))) s"
proof -
  have m: "unat mps \<noteq> 0" "unat mps < 65536"
    using assms(1) unsigned_less [of mps, where ?'a = nat] by (simp_all add: unat_eq_0)
  have "ucast mps \<le> n + (ucast mps :: u32)" "1 \<le> n + (ucast mps :: u32)"
    using m assms(3) by (simp_all add: word_le_nat_alt unat_word_ariths unat_u16)
  then have "unat (n + ucast mps - 1 :: u32) = unat n + unat mps - 1"
    using m assms(3) by (simp add: unat_sub unat_word_ariths unat_u16)
  then have "unat ((n + ucast mps - 1) div ucast mps :: u32) = length (packets (unat mps) (unat n))"
    using m by (simp add: unat_div unat_u16 length_packets)
  then have eq: "(n + ucast mps - 1) div ucast mps = (of_nat (length (packets (unat mps) (unat n))) :: u32)"
    by (metis of_nat_unat ucast_id)
  have "ucast (ucast (of_nat k :: u32) :: u16) = (of_nat k :: u32)" if "k < 1024" for k
    using that by (simp add: word_unat_eq_iff unsigned_ucast_eq unsigned_of_nat take_bit_nat_eq_self)
  then show ?thesis using assms by (simp add: packet_count_def wp_simps eq)
qed


text \<open>
  Steps on the registers of an endpoint: a change of the size register \<open>a\<close>, which is storage, applies to its
  fields; a change of another register leaves it alone.
\<close>

definition counts :: "u32 \<Rightarrow> u32 \<Rightarrow> u32 \<Rightarrow> io_log \<Rightarrow> bool" where
  "counts a k n l \<longleftrightarrow> (\<exists>v. last_wr a l = Some v \<and> pktcnt_of v = k \<and> xfrsiz_of v = n)"

lemma wp_first_count:
  assumes "storage_reg h a r" "\<And>l. (\<exists>v. last_wr a l = Some (v AND NOT (push_bit 19 0x3FF))) \<Longrightarrow> Q () (s\<lparr>iolog := l\<rparr>)"
  shows "wp (clrbits h a (push_bit 19 0x3FF)) Q s"
  unfolding clrbits_def wp_mod32 by (rule assms(2)) auto

lemma wp_size_reg:
  assumes "storage_reg h a r" "last_wr a (iolog s) = Some v"
    "\<And>l. last_wr a l = Some (f v) \<Longrightarrow> (\<forall>x. x \<noteq> a \<longrightarrow> last_wr x l = last_wr x (iolog s)) \<Longrightarrow> Q () (s\<lparr>iolog := l\<rparr>)"
  shows "wp (mod32 h a f) Q s"
  unfolding wp_mod32 using assms(1,2) by (intro assms(3)) (auto simp: storage_reg_def)

lemma wp_other_reg:
  assumes "x \<noteq> a" "counts a k n (iolog s)"
    "\<And>l v. counts a k n l \<Longrightarrow> last_wr x l = Some (f v) \<Longrightarrow> (\<forall>y. y \<noteq> x \<longrightarrow> last_wr y l = last_wr y (iolog s)) \<Longrightarrow>
       Q () (s\<lparr>iolog := l\<rparr>)"
  shows "wp (mod32 h x f) Q s"
  unfolding wp_mod32 using assms(1,2) by (intro assms(3)) (auto simp: counts_def)

lemma wp_clear_sizes:
  assumes "storage_reg h a r" "\<And>l. counts a 0 0 l \<Longrightarrow> Q () (s\<lparr>iolog := l\<rparr>)"
  shows "wp (clrbits h a (push_bit 19 0x3FF)) (\<lambda>_. wp (clrbits h a 0x7FFFF) Q) s"
proof (rule wp_first_count [OF assms(1)])
  fix l assume "\<exists>v. last_wr a l = Some (v AND NOT (push_bit 19 0x3FF))"
  then obtain v where "last_wr a l = Some (v AND NOT (push_bit 19 0x3FF))" by blast
  then show "wp (clrbits h a 0x7FFFF) Q (s\<lparr>iolog := l\<rparr>)"
    unfolding clrbits_def using assms(2)
    by (intro wp_size_reg [OF assms(1)]) (auto simp: counts_def size_fields)
qed

lemma wp_set_sizes:
  assumes "storage_reg h a r" "counts a 0 0 (iolog s)"
    and "\<And>l. counts a (k AND 0x3FF) (n AND 0x7FFFF) l \<Longrightarrow> Q () (s\<lparr>iolog := l\<rparr>)"
  shows "wp (setbits h a (push_bit 19 0x3FF AND push_bit 19 k)) (\<lambda>_. wp (setbits h a (0x7FFFF AND n)) Q) s"
proof -
  obtain v where v: "last_wr a (iolog s) = Some v" "pktcnt_of v = 0" "xfrsiz_of v = 0"
    using assms(2) by (auto simp: counts_def)
  show ?thesis
    unfolding setbits_def
  proof (rule wp_size_reg [OF assms(1) v(1)])
    fix l assume "last_wr a l = Some (v OR (push_bit 19 0x3FF AND push_bit 19 k))"
    then show "wp (mod32 h a (\<lambda>v. v OR (0x7FFFF AND n))) Q (s\<lparr>iolog := l\<rparr>)"
      using assms(3) v by (intro wp_size_reg [OF assms(1)]) (auto simp: counts_def size_fields)
  qed
qed

lemma wp_frame_counts:
  assumes "storage_reg h (DIEPTSIZ b i) r" "i < 6" "counts (DIEPTSIZ b i) k n (iolog s)"
    and Q: "\<And>l. counts (DIEPTSIZ b i) k n l \<Longrightarrow> Q () (s\<lparr>iolog := l\<rparr>)"
  shows "wp (whenM c (thenM (set_frame h b (DIEPCTL b i)) (set_mulcnt h b i))) Q s"
proof -
  obtain v where v: "last_wr (DIEPTSIZ b i) (iolog s) = Some v" "pktcnt_of v = k" "xfrsiz_of v = n"
    using assms(3) by (auto simp: counts_def)
  have mul: "wp (set_mulcnt h b i) Q (s\<lparr>iolog := l\<rparr>)" if "last_wr (DIEPTSIZ b i) l = Some v" for l
    using assms(1) that v
    by (auto simp: set_mulcnt_def bits_defs wp_simps storage_reg_def counts_def size_fields intro!: Q)
  show ?thesis
    using v in_regs_apart [OF assms(2), of b] Q [of "iolog s"] assms(3)
    by (auto simp: set_frame_def bits_defs wp_simps intro!: mul)
qed

text \<open>
  C21: what \<open>usbd_ep_start_write\<close> tells the controller is what the FIFO routine will deliver: on an open
  endpoint other than 0 the size register holds the number of packets and the number of bytes of the
  transfer, the endpoint is enabled and its FIFO-empty interrupt switched on, and the driver starts at the first
  byte of the buffer. The buffer is aligned, or else the driver's assertion never lets the call return, and
  the counts must fit in the fields of the register, 10 and 19 bits.
\<close>

theorem start_write_arms_all_packets:
  fixes s :: dwc2 and ep :: u8
  defines "i \<equiv> ep_index ep"
  defines "mps \<equiv> dep_mps (in_ep s ! ep_index ep)"
  assumes "0 < i" "i < 6" "i < length (in_ep s)" "storage_reg h (DIEPTSIZ b i) r" "\<And>l. h l (DIEPCTL b i) AND 0x7FF \<noteq> 0"
    and "mps \<noteq> 0" "data \<noteq> 0 \<and> data mod 4 = 0" "0 < n" "unat n < 2 ^ 19" "length (packets (unat mps) (unat n)) < 1024"
  shows "wp (usbd_ep_start_write_dwc2 h b ep data n) (\<lambda>rc t. rc = 0 \<and>
      t = s\<lparr>iolog := iolog t,
        in_ep := (in_ep s)[i := (in_ep s ! i)\<lparr>xfer_buf := data, xfer_len := n, actual_xfer_len := 0\<rparr>]\<rparr> \<and>
      (\<exists>v. last_wr (DIEPTSIZ b i) (iolog t) = Some v \<and>
         unat (pktcnt_of v) = length (packets (unat mps) (unat n)) \<and> xfrsiz_of v = n) \<and>
      (\<exists>v. last_wr (DIEPCTL b i) (iolog t) = Some (v OR BIT 26 OR BIT 31)) \<and>
      (\<exists>v. last_wr (DIEPEMPMSK b) (iolog t) = Some (v OR BIT i))) s"
proof -
  let ?k = "of_nat (length (packets (unat mps) (unat n))) :: u32"
  have n: "n AND 0x7FFFF = n"
    using assms(11) by (simp add: size_masks take_bit_eq_mask [symmetric] word_unat_eq_iff unsigned_take_bit_eq take_bit_nat_eq_self)
  have k: "unat (?k AND 0x3FF) = length (packets (unat mps) (unat n))"
    using assms(12) by (simp add: size_masks take_bit_eq_mask [symmetric] unsigned_take_bit_eq unsigned_of_nat take_bit_nat_eq_self)
  have im: "i mod 16 = i" using assms(4) by simp
  note regs = in_regs_apart [OF assms(4), of b]
  show ?thesis
    unfolding usbd_ep_start_write_dwc2_def Let_def i_def [symmetric]
    using assms(3,5,7-9) assms(10) [THEN less_imp_neq]
    apply (simp add: wp_bindM wp_ret wp_usb_assert wp_rd32 wp_mod_in wp_get_in arm_size_def mps_def [folded i_def, symmetric]
        packet_count_value [OF assms(8,12,11)] im)
    apply (rule wp_clear_sizes [OF assms(6), simplified])
    apply (simp add: wp_bindM wp_get_in wp_ret mps_def [folded i_def, symmetric] packet_count_value [OF assms(8,12,11)])
    apply (rule wp_set_sizes [OF assms(6), simplified], simp)
    apply (rule wp_frame_counts [OF assms(6) assms(4)], simp)
    apply (simp add: setbits_def)
    apply (rule wp_other_reg [OF regs(3)], simp)
    apply (simp add: wp_whenM assms(10))
    apply (rule wp_other_reg [OF regs(4)], simp)
    using k regs(5) by (auto simp: counts_def n or.assoc)
qed


text \<open>Registers that are storage; the control registers start with a packet size.\<close>

definition plain_regs :: "u32 \<Rightarrow> hw" where
  "plain_regs d l a = (case last_wr a l of None \<Rightarrow> d | Some v \<Rightarrow> v)"

lemma plain_regs_storage: "storage_reg (plain_regs d) a d"
  by (simp add: storage_reg_def plain_regs_def)

text \<open>Only the size register of endpoint 2 is storage; every other register reads 64.\<close>

definition demo_regs :: hw where
  "demo_regs l a = (if a = DIEPTSIZ 0 2 then plain_regs 0 l a else 64)"

theorem start_write_arms_all_packets_witness:
  "\<exists>t v. usbd_ep_start_write_dwc2 demo_regs 0 0x82 100 6 demo_drv = Some (Inr (0, t)) \<and>
     last_wr (DIEPTSIZ 0 2) (iolog t) = Some v \<and> unat (pktcnt_of v) = 2 \<and> xfrsiz_of v = 6"
proof -
  have "packets 4 6 = [4, 2]" by (simp add: packets.simps)
  moreover have "ep_index 0x82 = 2" by (simp add: ep_index_def)
  moreover have "storage_reg demo_regs (DIEPTSIZ 0 2) 0"
    by (simp add: storage_reg_def demo_regs_def plain_regs_def)
  moreover have "demo_regs l (DIEPCTL 0 2) AND 0x7FF \<noteq> 0" for l by (simp add: demo_regs_def)
  ultimately show ?thesis
    using start_write_arms_all_packets [where ep = "0x82" and s = demo_drv and h = demo_regs and b = 0 and r = 0
        and data = 100 and n = 6]
    by (auto simp: wp_def demo_drv_def)
qed

end
