(* ===== verification/Dwc2_Service.thy ===== *)
theory Dwc2_Service
  imports Dwc2_Transfer
begin

text \<open>
  The start of the USB controller, its receive FIFO and its interrupt routine: set-up ends with the FIFOs laid out one
  behind the other, a packet that is written to a FIFO is read back byte for byte, and the interrupt for a received
  packet stores it where the transfer was armed, or in the setup buffer.
\<close>


section \<open>Starting the controller\<close>

lemma wp_poll_times:
  assumes "\<And>ok l. same_writes (iolog s) l \<Longrightarrow> Q ok (s\<lparr>iolog := l\<rparr>)" "unat limit < 2 ^ 32 - 1"
  shows "wp (poll_times h a p limit) Q s"
  unfolding poll_times_def wp_bindM
proof (rule wp_whileM [where I = "\<lambda>(count, r) t. count \<le> limit + 1 \<and> (count = limit + 1 \<longrightarrow> r \<noteq> None) \<and>
      (\<exists>l. t = s\<lparr>iolog := l\<rparr> \<and> same_writes (iolog s) l)" and M = "\<lambda>(count, r) _. unat (limit + 1 - count)"], goal_cases)
  case 1
  have "limit + 1 \<noteq> 0" using assms(2) by (simp add: word_unat_eq_iff unat_word_ariths)
  then show ?case by (auto simp: same_writes_refl intro!: exI [of _ "iolog s"])
next
  case (2 v t)
  obtain count r where v: "v = (count, r)" by (cases v)
  obtain l where l: "t = s\<lparr>iolog := l\<rparr>" "same_writes (iolog s) l" using 2 v by auto
  have lim: "unat (limit + 1) = unat limit + 1" using assms(2) by (simp add: u32_plus_one_unat)
  show ?case
  proof (cases r)
    case None
    then have "count \<le> limit" using 2 v lim by (auto simp: word_le_nat_alt word_unat_eq_iff)
    then have "unat (count + 1) = unat count + 1" "unat count \<le> unat limit"
      using assms(2) by (simp_all add: u32_plus_one_unat word_le_nat_alt)
    then show ?thesis
      using None v l lim
      by (auto simp: wp_simps word_le_nat_alt word_less_nat_alt word_unat_eq_iff unat_sub intro: same_writes_Rd)
  next
    case (Some x)
    then show ?thesis using v l by (simp add: wp_simps assms(1))
  qed
qed


lemma wp_flush:
  assumes "\<And>r l. r \<in> {0, -1} \<Longrightarrow> (\<forall>x. x \<noteq> GRSTCTL b \<longrightarrow> last_wr x l = last_wr x (iolog s)) \<Longrightarrow> Q r (s\<lparr>iolog := l\<rparr>)"
  shows "wp (dwc2_flush h b v f) Q s"
  unfolding dwc2_flush_def wp_bindM
  by (rule wp_poll_times) (auto simp: wp_simps same_writes_def intro!: wp_poll_times assms)

lemma wp_io_any:
  assumes "io_only m" "returns m" "\<And>x l. Q x (s\<lparr>iolog := l\<rparr>)"
  shows "wp m Q s"
  using assms(3) by (intro returns_wp [OF assms(2)] wlp_mono [OF io_onlyD [OF assms(1)]]) (auto simp: log_ext_def)

lemma total_poll_times [total_intros]: "unat limit < 2 ^ 32 - 1 \<Longrightarrow> returns (poll_times h a p limit)"
  by (rule wp_returns, rule wp_poll_times) auto

lemma io_poll_times [io_intros]: "io_only (poll_times h a p limit)"
  unfolding poll_times_def by (intro io_intros)

lemma io_delay_ms [io_intros]: "io_only (usbd_dwc2_delay_ms clk ms)"
  unfolding usbd_dwc2_delay_ms_def by (intro io_intros)

lemma total_delay_ms [total_intros]: "returns (usbd_dwc2_delay_ms clk ms)"
proof (rule wp_returns)
  show "wp (usbd_dwc2_delay_ms clk ms) (\<lambda>_ _. True) s" for s
    unfolding usbd_dwc2_delay_ms_def wp_bindM
    by (rule wp_whileM [where I = "\<lambda>_ _. True" and M = "\<lambda>n _. unat n"])
      (auto simp: wp_simps unat_gt_0 word_less_nat_alt unat_minus_one)
qed

lemma low_level_init: "io_only (usb_dc_low_level_init h)" "returns (usb_dc_low_level_init h)"
  unfolding usb_dc_low_level_init_def uart_defs rcu_pll48m_clock_config_def rcu_ck48m_clock_config_def
  by (intro io_intros; simp) (intro total_intros; simp)

lemmas start_defs = log_params_def dwc2_core_init_def dwc2_reset_def dwc2_set_mode_def dwc2_set_txfifo_def

lemma start_io: "io_only (log_params h b)" "io_only (dwc2_core_init h b)" "io_only (dwc2_set_mode h b clk m)"
    "io_only (dwc2_set_txfifo h b i n)"
  unfolding start_defs by (intro io_intros)+

lemma start_total: "returns (log_params h b)" "returns (dwc2_core_init h b)" "returns (dwc2_set_mode h b clk m)"
    "returns (dwc2_set_txfifo h b i n)"
  unfolding start_defs by (intro total_intros; simp)+


text \<open>The register that holds the size and the start of a transmit FIFO, and the layout of the first \<open>k\<close>.\<close>

definition TXF :: "u32 \<Rightarrow> nat \<Rightarrow> u32" where
  "TXF b i = (if i = 0 then DIEPTXF0 b else DIEPTXF b (i - 1))"

definition laid_out :: "u32 \<Rightarrow> nat \<Rightarrow> io_log \<Rightarrow> bool" where
  "laid_out b k l \<longleftrightarrow> last_wr (GRXFSIZ b) l = Some 256 \<and>
     (\<forall>i < k. last_wr (TXF b i) l = Some (push_bit 16 16 OR of_nat (256 + 16 * i)))"

definition fifo_regs :: "hw \<Rightarrow> u32 \<Rightarrow> bool" where
  "fifo_regs h b \<longleftrightarrow> (\<exists>r. storage_reg h (GRXFSIZ b) r) \<and> (\<forall>i < 6. \<exists>r. storage_reg h (TXF b i) r)"

lemma less_6_cases: "(i :: nat) < 6 \<Longrightarrow> i = 0 \<or> i = 1 \<or> i = 2 \<or> i = 3 \<or> i = 4 \<or> i = 5"
  by auto

lemma TXF_apart: "i < 6 \<Longrightarrow> j < 6 \<Longrightarrow> TXF b i = TXF b j \<longleftrightarrow> i = j" "i < 6 \<Longrightarrow> TXF b i \<noteq> GRXFSIZ b"
    "i < 6 \<Longrightarrow> TXF b i \<noteq> GRSTCTL b" "i < 6 \<Longrightarrow> TXF b i \<noteq> GAHBCFG b" "i < 6 \<Longrightarrow> TXF b i \<noteq> DCTL b"
  by (auto dest!: less_6_cases simp: TXF_def add.assoc)

lemma fifo_words_of_reg: "i < 6 \<Longrightarrow> drop_bit 16 (push_bit 16 16 OR of_nat (256 + 16 * i) :: u32) = 16"
  by (auto dest!: less_6_cases simp: drop_bit_eq_div)

lemma laid_out_reads:
  assumes "fifo_regs h b" "laid_out b k l"
  shows "h l (GRXFSIZ b) = 256" "i < k \<Longrightarrow> i < 6 \<Longrightarrow> drop_bit 16 (h l (TXF b i)) = 16"
proof -
  show "h l (GRXFSIZ b) = 256"
    using assms by (auto simp: fifo_regs_def laid_out_def storage_reg_def)
  show "drop_bit 16 (h l (TXF b i)) = 16" if i: "i < k" "i < 6"
  proof -
    obtain r where "storage_reg h (TXF b i) r" using assms(1) i(2) by (auto simp: fifo_regs_def)
    moreover have "last_wr (TXF b i) l = Some (push_bit 16 16 OR of_nat (256 + 16 * i))"
      using assms(2) i(1) unfolding laid_out_def by blast
    ultimately show ?thesis unfolding storage_reg_def by (simp only: option.case fifo_words_of_reg [OF i(2)])
  qed
qed

lemma laid_out_Rd: "laid_out b k (Rd a v # l) \<longleftrightarrow> laid_out b k l"
  by (simp add: laid_out_def)

lemma wp_offsets:
  assumes "fifo_regs h b" "laid_out b k (iolog s)" "Suc n \<le> k" "k \<le> 6"
    and "\<And>l. laid_out b k l \<Longrightarrow> Q (off + 16 * of_nat n) (s\<lparr>iolog := l\<rparr>)"
  shows "wp (foldM (\<lambda>i off. bindM (rd32 h (DIEPTXF b i)) (\<lambda>v. ret (off + drop_bit 16 v))) [0..<n] off) Q s"
  using assms(3,5)
proof (induction n arbitrary: Q)
  case 0
  show ?case using "0.prems"(2) [OF assms(2)] by (simp add: wp_simps)
next
  case (Suc n)
  have "drop_bit 16 (h l (DIEPTXF b n)) = 16" if "laid_out b k l" for l
    using laid_out_reads(2) [OF assms(1) that, of "Suc n"] Suc.prems(1) assms(4) by (simp add: TXF_def)
  with Suc show ?case
    by (simp add: foldM_append wp_bindM) (rule Suc.IH; simp add: wp_simps laid_out_Rd algebra_simps)
qed

lemma wp_set_txfifo:
  assumes "fifo_regs h b" "laid_out b k (iolog s)" "k < 6"
    and "\<And>l. laid_out b (Suc k) l \<Longrightarrow> Q () (s\<lparr>iolog := l\<rparr>)"
  shows "wp (dwc2_set_txfifo h b k (TX_FIFO_SIZE k)) Q s"
proof -
  have new: "laid_out b (Suc k) (Wr (TXF b k) (push_bit 16 16 OR of_nat (256 + 16 * k)) # l)" if "laid_out b k l" for l
    using that assms(3) TXF_apart(1) [of _ k b] TXF_apart(2) [of k b, symmetric] by (auto simp: laid_out_def less_Suc_eq)
  have words: "TX_FIFO_SIZE j = 16" for j by (simp add: TX_FIFO_SIZE_def)
  show ?thesis
  proof (cases k)
    case 0
    then show ?thesis
      using assms(4) [OF new, of "Rd (GRXFSIZ b) 256 # iolog s"] assms(2) laid_out_reads(1) [OF assms(1,2)]
      by (simp add: dwc2_set_txfifo_def wp_simps words TXF_def laid_out_Rd)
  next
    case (Suc n)
    have "drop_bit 16 (h l (DIEPTXF0 b)) = 16" if "laid_out b k l" for l
      using laid_out_reads(2) [OF assms(1) that, of 0] Suc by (simp add: TXF_def)
    then show ?thesis
      using assms(2,4) laid_out_reads(1) [OF assms(1,2)] Suc assms(3) new
      unfolding dwc2_set_txfifo_def wp_simps words
      by (simp add: wp_bindM) (rule wp_offsets [OF assms(1), of k];
          simp add: wp_simps laid_out_Rd TXF_def algebra_simps)
  qed
qed


lemma wp_all_txfifos:
  assumes "fifo_regs h b" "laid_out b 0 (iolog s)" "k \<le> 6"
    and "\<And>l. laid_out b k l \<Longrightarrow> Q () (s\<lparr>iolog := l\<rparr>)"
  shows "wp (foldM (\<lambda>i _. dwc2_set_txfifo h b i (TX_FIFO_SIZE i)) [0..<k] ()) Q s"
  using assms(3,4)
proof (induction k arbitrary: Q)
  case 0
  show ?case using "0.prems"(2) [OF assms(2)] by (simp add: wp_simps)
next
  case (Suc k)
  have "wp (foldM (\<lambda>i _. dwc2_set_txfifo h b i (TX_FIFO_SIZE i)) [k] ()) Q (s\<lparr>iolog := l\<rparr>)" if "laid_out b k l" for l
    unfolding wp_foldM by (rule wp_set_txfifo [OF assms(1)]) (use that Suc.prems in simp_all)
  with Suc.prems(1) show ?case
    by (simp add: foldM_append wp_bindM) (intro Suc.IH; simp)
qed

text \<open>The end of the start, from the layout of the FIFOs on.\<close>

lemma wp_layout_and_flush:
  assumes "last_wr (GRXFSIZ b) (iolog s) = Some 256"
    and "\<And>r l. r \<in> {0, -1} \<Longrightarrow> (fifo_regs h b \<longrightarrow> laid_out b 6 l) \<Longrightarrow> Q r (s\<lparr>iolog := l\<rparr>)"
  shows "wp (foldM (\<lambda>i _. dwc2_set_txfifo h b i (TX_FIFO_SIZE i)) [0..<6] ()) (\<lambda>_.
      wp (dwc2_flush_txfifo h b 0x10) (\<lambda>_. wp (dwc2_flush_rxfifo h b) (\<lambda>r.
      wp (setbits h (GAHBCFG b) (BIT 0)) (\<lambda>_. wp (clrbits h (DCTL b) (BIT 1)) (\<lambda>_. Q r))))) s"
proof -
  let ?P = "\<lambda>l. fifo_regs h b \<longrightarrow> laid_out b 6 l"
  have keep: "?P l'" if "?P l" "\<forall>x. x \<notin> {GRSTCTL b, GAHBCFG b, DCTL b} \<longrightarrow> last_wr x l' = last_wr x l" for l l'
    using that TXF_apart by (auto simp: laid_out_def)
  have flush: "wp (dwc2_flush_txfifo h b 0x10) (\<lambda>_. wp (dwc2_flush_rxfifo h b) (\<lambda>r.
      wp (setbits h (GAHBCFG b) (BIT 0)) (\<lambda>_. wp (clrbits h (DCTL b) (BIT 1)) (\<lambda>_. Q r)))) (s\<lparr>iolog := l\<rparr>)"
    if "?P l" for l
    unfolding dwc2_flush_txfifo_def dwc2_flush_rxfifo_def
    by (rule wp_flush, rule wp_flush, simp only: bits_defs wp_mod32, simp,
        rule assms(2), simp, rule keep [OF that]) simp
  show ?thesis
  proof (cases "fifo_regs h b")
    case True
    have "laid_out b 0 (iolog s)" using assms(1) by (simp add: laid_out_def)
    then show ?thesis by (rule wp_all_txfifos [OF True]) (use flush in simp_all)
  next
    case False
    show ?thesis
      by (rule wp_io_any, intro io_foldM start_io, intro total_foldM start_total) (rule flush, simp add: False)
  qed
qed

text \<open>
  C34: on every hardware the start of the controller ends, with 0 or the error of the last FIFO flush,
  all endpoints cleared and no memory touched but the setup packet. On a hardware whose FIFO size
  registers hold what is written, the six transmit FIFOs of 16 words follow the receive FIFO of 256 words
  without gap or overlap: FIFO \<open>i\<close> starts at word \<open>256 + 16 i\<close>. The last one ends at word 352, beyond the
  320 words that the comment in \<open>usb_dc_init\<close> gives for this chip.
\<close>

theorem usb_dc_init_ends_with_fifos_laid_out:
  "wp (usb_dc_init_dwc2 h b sa clk) (\<lambda>r t. r \<in> {0, -1} \<and>
      in_ep t = replicate 6 empty_ep \<and> out_ep t = replicate 6 empty_ep \<and>
      (\<forall>a. ram t a = (if unat (a - sa) < 8 then 0 else ram s a)) \<and>
      (fifo_regs h b \<longrightarrow> (\<forall>i < 6.
         last_wr (if i = 0 then DIEPTXF0 b else DIEPTXF b (i - 1)) (iolog t)
           = Some (push_bit 16 16 OR of_nat (256 + 16 * i))))) s"
proof -
  have rx: "RXALL_FIFO_SIZE = 256" by (simp add: RXALL_FIFO_SIZE_def)
  show ?thesis
    unfolding usb_dc_init_dwc2_def clear_udc_def wp_bindM wp_modM Let_def
    apply (rule wp_io_any [OF low_level_init])
    apply (rule wp_io_any [OF io_rd32 total_basic(5)])+
    apply (rule wp_io_any [OF start_io(1) start_total(1)])
    apply (rule wp_io_any [OF io_rd32 total_basic(5)])
    apply (rule wp_io_any, intro io_intros, intro total_intros)
    apply (rule wp_io_any [OF start_io(2) start_total(2)])
    apply (rule wp_io_any [OF start_io(3) start_total(3)])
    apply (rule wp_io_any, intro io_intros, intro total_intros)
    apply (rule wp_io_any, intro io_intros, intro total_intros)
    apply (simp only: wp_wr32 rx)
    apply (rule wp_layout_and_flush, simp)
    by (simp add: wp_ret laid_out_def TXF_def)
qed

theorem usb_dc_init_ends_with_fifos_laid_out_witness:
  "\<exists>r t. usb_dc_init_dwc2 (plain_regs 0) 0x50000000 0x20000000 168000000 demo_drv = Some (Inr (r, t)) \<and>
     last_wr 0x50000028 (iolog t) = Some 0x100100 \<and> last_wr 0x50000114 (iolog t) = Some 0x100150"
proof -
  have "fifo_regs (plain_regs 0) 0x50000000"
    unfolding fifo_regs_def using plain_regs_storage by blast
  then obtain r t where run: "usb_dc_init_dwc2 (plain_regs 0) 0x50000000 0x20000000 168000000 demo_drv = Some (Inr (r, t))"
    and "\<forall>i < 6. last_wr (if i = 0 then DIEPTXF0 0x50000000 else DIEPTXF 0x50000000 (i - 1)) (iolog t)
      = Some (push_bit 16 16 OR of_nat (256 + 16 * i))"
    using usb_dc_init_ends_with_fifos_laid_out [of "plain_regs 0" "0x50000000" "0x20000000" 168000000 demo_drv]
    unfolding wp_def by blast
  from this(2) [rule_format, of 0] this(2) [rule_format, of 5] run show ?thesis by simp
qed


section \<open>The receive FIFO\<close>

text \<open>The values read from an address, oldest first, and the bytes of words in memory order.\<close>

fun values_read :: "u32 \<Rightarrow> io_log \<Rightarrow> u32 list" where
  "values_read a [] = []"
| "values_read a (Rd x v # l) = values_read a l @ (if x = a then [v] else [])"
| "values_read a (Wr x v # l) = values_read a l"
| "values_read a (Idle # l) = values_read a l"

definition byte_of :: "u32 list \<Rightarrow> nat \<Rightarrow> u8" where
  "byte_of ws k = ucast (drop_bit (8 * (k mod 4)) (ws ! (k div 4)))"

definition filled :: "memory \<Rightarrow> u32 \<Rightarrow> u32 list \<Rightarrow> memory" where
  "filled m d ws = (\<lambda>a. if unat (a - d) < 4 * length ws then byte_of ws (unat (a - d)) else m a)"

lemma mod_4_cases: "(k :: nat) mod 4 = 0 \<or> k mod 4 = 1 \<or> k mod 4 = 2 \<or> k mod 4 = 3"
  by linarith

lemma word_at_bytes:
  "ucast (word_at m p) = m p" "ucast (drop_bit 8 (word_at m p)) = m (p + 1)"
  "ucast (drop_bit 16 (word_at m p)) = m (p + 2)" "ucast (drop_bit 24 (word_at m p)) = m (p + 3)"
  unfolding word_at_def word_bytes by (rule refl)+

text \<open>The words a buffer is sent in hold its bytes.\<close>

lemma byte_of_fifo_words:
  assumes "k < n"
  shows "byte_of (fifo_words m a n) k = m (a + of_nat k)"
proof -
  have "k div 4 < (n + 3) div 4" using assms by linarith
  then have w: "fifo_words m a n ! (k div 4) = word_at m (a + 4 * of_nat (k div 4))" by (simp add: fifo_words_def)
  have "k = 4 * (k div 4) + k mod 4" by simp
  then have k: "a + of_nat k = a + 4 * of_nat (k div 4) + of_nat (k mod 4)"
    by (metis add.assoc of_nat_add of_nat_mult of_nat_numeral)
  show ?thesis
    unfolding byte_of_def w k using mod_4_cases [of k] by (elim disjE) (simp_all add: word_at_bytes)
qed

lemma filled_step:
  assumes "4 * length ws + 4 < 2 ^ 32"
  shows "put_word (d + 4 * of_nat (length ws)) w (filled m d ws) = filled m d (ws @ [w])"
proof
  fix a
  let ?p = "d + 4 * of_nat (length ws)" and ?j = "unat (a - d)"
  have eq: "a = ?p + of_nat i \<longleftrightarrow> ?j = 4 * length ws + i" if "i < 4" for i
  proof
    assume "a = ?p + of_nat i"
    then have "?j = unat (of_nat (4 * length ws + i) :: u32)" by simp
    also have "\<dots> = 4 * length ws + i" by (rule unat_word_of_nat) (use assms that in simp)
    finally show "?j = 4 * length ws + i" .
  next
    assume "?j = 4 * length ws + i"
    then have "a - d = of_nat (4 * length ws + i)" by (metis of_nat_unat ucast_id)
    then show "a = ?p + of_nat i" by (simp add: algebra_simps)
  qed
  have eqs: "a = ?p \<longleftrightarrow> ?j = 4 * length ws" "a = ?p + 1 \<longleftrightarrow> ?j = 4 * length ws + 1"
    "a = ?p + 2 \<longleftrightarrow> ?j = 4 * length ws + 2" "a = ?p + 3 \<longleftrightarrow> ?j = 4 * length ws + 3"
    using eq [of 0] eq [of 1] eq [of 2] eq [of 3] by simp_all
  consider "?j < 4 * length ws" | i where "i < 4" "?j = 4 * length ws + i" | "?j \<ge> 4 * length ws + 4"
    by (metis add.commute less_diff_conv2 linorder_not_less le_add_diff_inverse)
  then show "put_word ?p w (filled m d ws) a = filled m d (ws @ [w]) a"
  proof cases
    case 1
    then have "?j div 4 < length ws" by linarith
    with 1 show ?thesis by (simp add: put_word_def eqs filled_def byte_of_def nth_append)
  next
    case (2 i)
    then have "?j div 4 = length ws" "?j mod 4 = i" by simp_all
    moreover from 2 have "i = 0 \<or> i = 1 \<or> i = 2 \<or> i = 3" by linarith
    ultimately show ?thesis
      using 2 by (elim disjE) (simp_all add: put_word_def eqs filled_def byte_of_def nth_append)
  next
    case 3
    then show ?thesis by (simp add: put_word_def eqs filled_def)
  qed
qed

text \<open>
  \<open>ws\<close> are the words that a computation from \<open>s\<close> to \<open>t\<close>, which writes no register, reads at the address \<open>a\<close>.
\<close>

definition words_read :: "hw \<Rightarrow> u32 \<Rightarrow> dwc2 \<Rightarrow> u32 list \<Rightarrow> dwc2 \<Rightarrow> bool" where
  "words_read h a s ws t \<longleftrightarrow> values_read a (iolog t) = values_read a (iolog s) @ ws \<and>
     (\<forall>x. written x (iolog t) = written x (iolog s)) \<and>
     (\<forall>j < length ws. \<exists>l. ws ! j = h l a \<and> values_read a l = values_read a (iolog s) @ take j ws \<and>
        (\<forall>x. written x l = written x (iolog s)))"

lemma values_read_writes [simp]: "values_read a (rev (map (Wr x) ws) @ l) = values_read a l"
  by (induction ws arbitrary: l rule: rev_induct) simp_all

text \<open>Over a wire that delivers the words in order, the words read are those written.\<close>

lemma words_over_wire:
  assumes "words_read h (FIFO b 0) s ws t"
    and wire: "\<And>l. length (values_read (FIFO b 0) l) < length (written (FIFO b i) l) \<Longrightarrow>
      h l (FIFO b 0) = written (FIFO b i) l ! length (values_read (FIFO b 0) l)"
    and "length (values_read (FIFO b 0) (iolog s)) = length old"
    and "written (FIFO b i) (iolog s) = old @ vs" "length vs = length ws"
  shows "ws = vs"
proof (rule nth_equalityI)
  fix j assume j: "j < length ws"
  then obtain l where l: "ws ! j = h l (FIFO b 0)" "values_read (FIFO b 0) l = values_read (FIFO b 0) (iolog s) @ take j ws"
      "\<forall>x. written x l = written x (iolog s)"
    using assms(1) unfolding words_read_def by blast
  have "written (FIFO b i) l = old @ vs" "length (values_read (FIFO b 0) l) = length old + j"
    using l assms(3,4) j by simp_all
  with wire [of l] l(1) j assms(5) show "ws ! j = vs ! j" by simp
qed (use assms(5) in simp)

lemma ep_read_loop:
  assumes "4 * n + 4 < 2 ^ 32"
  shows "wp (foldM (\<lambda>i pDest. bindM (rd32 h a) (\<lambda>w. bindM (modM (\<lambda>s. s\<lparr>ram := put_word pDest w (ram s)\<rparr>)) (\<lambda>_.
      ret (pDest + 4)))) [0..<n] d) (\<lambda>p t. p = d + 4 * of_nat n \<and> (\<exists>ws. words_read h a s ws t \<and> length ws = n \<and>
      t = s\<lparr>iolog := iolog t, ram := filled (ram s) d ws\<rparr>)) s"
  using assms
proof (induction n)
  case 0
  show ?case by (simp add: wp_simps filled_def words_read_def)
next
  case (Suc n)
  show ?case
    unfolding upt_Suc_append [OF le0] foldM_append wp_bindM
  proof (rule wp_mono [OF Suc.IH], goal_cases)
    case 1
    then show ?case using Suc.prems by simp
  next
    case (2 p t)
    then obtain ws where ws: "length ws = n" "words_read h a s ws t"
      and t: "t = s\<lparr>iolog := iolog t, ram := filled (ram s) d ws\<rparr>" and p: "p = d + 4 * of_nat n" by blast
    obtain l where l: "t = s\<lparr>iolog := l, ram := filled (ram s) d ws\<rparr>" using t by blast
    have "words_read h a s (ws @ [h l a]) (s\<lparr>iolog := Rd a (h l a) # l, ram := filled (ram s) d (ws @ [h l a])\<rparr>)"
      using ws(2) by (auto simp: words_read_def l less_Suc_eq nth_append)
    then show ?case
      using ws p filled_step [of ws d "h l a" "ram s"] Suc.prems
      by (auto simp: wp_simps l algebra_simps intro!: exI [of _ "ws @ [h l a]"])
  qed
qed

lemma wp_ep_read:
  assumes "\<And>ws t. words_read h (FIFO b 0) s ws t \<Longrightarrow> length ws = (unat len + 3) div 4 \<Longrightarrow>
      t = s\<lparr>iolog := iolog t, ram := filled (ram s) dest ws\<rparr> \<Longrightarrow> Q () t"
  shows "wp (dwc2_ep_read h b dest len) Q s"
proof -
  have n: "unat len < 65536" using unsigned_less [of len, where ?'a = nat] by simp
  have "4 * ((unat len + 3) div 4) \<le> unat len + 3" by simp
  then have "4 * ((unat len + 3) div 4) + 4 < 2 ^ 32" using n by simp
  then show ?thesis
    unfolding dwc2_ep_read_def wp_bindM words_of_len
    by (rule wp_mono [OF ep_read_loop]) (auto simp: wp_ret intro: assms)
qed

text \<open>
  C22: data that is sent arrives. Let the words read from the receive FIFO be those that were written to the
  FIFO of an endpoint, in order, with nothing under way. Then a packet that \<open>dwc2_ep_write\<close> sends and
  \<open>dwc2_ep_read\<close> receives ends at the destination byte for byte, both routines return, and nothing is under way
  again: the writer puts exactly the words in the FIFO that the reader takes out. The rounding is visible: all
  four bytes of the last word are stored, so up to three bytes behind the packet change; nothing else does.
\<close>

theorem fifo_round_trip:
  assumes wire: "\<And>l. length (values_read (FIFO b 0) l) < length (written (FIFO b i) l) \<Longrightarrow>
      h l (FIFO b 0) = written (FIFO b i) l ! length (values_read (FIFO b 0) l)"
    and quiet: "length (values_read (FIFO b 0) (iolog s)) = length (written (FIFO b i) (iolog s))"
  shows "wp (bindM (dwc2_ep_write b i src len) (\<lambda>_. dwc2_ep_read h b dest len)) (\<lambda>_ t.
      (\<forall>k < unat len. ram t (dest + of_nat k) = ram s (src + of_nat k)) \<and>
      (\<forall>a. 4 * ((unat len + 3) div 4) \<le> unat (a - dest) \<longrightarrow> ram t a = ram s a) \<and>
      length (values_read (FIFO b 0) (iolog t)) = length (written (FIFO b i) (iolog t)) \<and>
      t = s\<lparr>iolog := iolog t, ram := ram t\<rparr>) s"
proof -
  let ?ws = "fifo_words (ram s) src (unat len)"
  let ?s = "s\<lparr>iolog := rev (map (Wr (FIFO b i)) ?ws) @ iolog s\<rparr>"
  have n: "unat len < 65536" using unsigned_less [of len, where ?'a = nat] by simp
  have len: "length ?ws = (unat len + 3) div 4" by (simp add: fifo_words_def)
  have quiet': "length (values_read (FIFO b 0) (iolog ?s)) = length (written (FIFO b i) (iolog s))"
    using quiet by simp
  show ?thesis
    unfolding wp_bindM wp_ep_write
  proof (rule wp_ep_read, goal_cases)
    case (1 ws t)
    have "ws = ?ws"
      by (rule words_over_wire [OF 1(1) wire quiet']) (simp_all add: len 1(2))
    then have m: "ram t = filled (ram s) dest ?ws" by (subst 1(3)) simp
    have "ram t (dest + of_nat k) = ram s (src + of_nat k)" if "k < unat len" for k
    proof -
      have "unat (of_nat k :: u32) = k" by (rule unat_word_of_nat) (use that n in simp)
      moreover have "k < 4 * length ?ws" using that len by simp
      ultimately show ?thesis using byte_of_fifo_words [OF that] by (simp add: m filled_def)
    qed
    moreover have "ram t a = ram s a" if "4 * ((unat len + 3) div 4) \<le> unat (a - dest)" for a
      using that len by (simp add: m filled_def)
    moreover have "length (values_read (FIFO b 0) (iolog t)) = length (written (FIFO b i) (iolog t))"
      using 1(1,2) quiet len by (simp add: words_read_def)
    moreover obtain l where "t = s\<lparr>iolog := l, ram := filled (ram s) dest ws\<rparr>" using 1(3) by simp
    ultimately show ?case by simp
  qed
qed


text \<open>A wire from the FIFO of endpoint 1 to the receive FIFO.\<close>

definition loop_back :: hw where
  "loop_back l a = written 0x2000 l ! length (values_read 0x1000 l)"

theorem fifo_round_trip_witness:
  "\<exists>t. bindM (dwc2_ep_write 0 1 100 6) (\<lambda>_. dwc2_ep_read loop_back 0 200 6) demo_drv = Some (Inr ((), t)) \<and>
     ram t 200 = 100 \<and> ram t 205 = 105 \<and> ram t 208 = 208"
proof -
  obtain t where run: "bindM (dwc2_ep_write 0 1 100 6) (\<lambda>_. dwc2_ep_read loop_back 0 200 6) demo_drv = Some (Inr ((), t))"
    and m: "\<forall>k < 6. ram t (200 + of_nat k) = ram demo_drv (100 + of_nat k)"
    and frame: "\<forall>a. 8 \<le> unat (a - 200) \<longrightarrow> ram t a = ram demo_drv a"
    using fifo_round_trip [of 0 1 loop_back demo_drv 100 6 200]
    by (auto simp: wp_def loop_back_def demo_drv_def written_def)
  from m [rule_format, of 0] m [rule_format, of 5] frame [rule_format, of 208] run show ?thesis
    by (simp add: demo_drv_def)
qed

section \<open>The interrupt routine\<close>

text \<open>The fields of the receive status: the endpoint, the kind of entry (2 data, 6 setup) and the bytes.\<close>

definition rx_ep :: "u32 \<Rightarrow> nat" where
  "rx_ep v = unat (v AND 0xF)"

definition rx_kind :: "u32 \<Rightarrow> nat" where
  "rx_kind v = unat (drop_bit 17 v AND 0xF)"

definition rx_bytes :: "u32 \<Rightarrow> nat" where
  "rx_bytes v = unat (drop_bit 4 v AND 0x7FF)"

lemma rx_masks: "(0xF :: u32) = mask 4" "(0x7FF :: u32) = mask 11"
  by (simp_all add: mask_eq_exp_minus_1)

lemma rx_fields:
  fixes v :: u32
  shows "drop_bit 17 (v AND push_bit 17 0xF) = of_nat (rx_kind v)"
    "drop_bit 4 (v AND push_bit 4 0x7FF) = of_nat (rx_bytes v)" "rx_kind v < 16" "rx_bytes v < 2048"
proof -
  have "drop_bit 17 (v AND push_bit 17 0xF) = drop_bit 17 v AND 0xF"
    "drop_bit 4 (v AND push_bit 4 0x7FF) = drop_bit 4 v AND 0x7FF"
    unfolding rx_masks by (auto intro!: bit_word_eqI simp: bit_simps)
  then show "drop_bit 17 (v AND push_bit 17 0xF) = of_nat (rx_kind v)"
    "drop_bit 4 (v AND push_bit 4 0x7FF) = of_nat (rx_bytes v)"
    by (simp_all add: rx_kind_def rx_bytes_def)
  have "unat (x AND mask n) < 2 ^ n" for x :: u32 and n
    by (simp add: unsigned_take_bit_eq flip: take_bit_eq_mask)
  from this [of "drop_bit 17 v" 4] this [of "drop_bit 4 v" 11] show "rx_kind v < 16" "rx_bytes v < 2048"
    unfolding rx_kind_def rx_bytes_def rx_masks by simp_all
qed

text \<open>
  The words \<open>ws\<close> that the receive FIFO delivers between two moments, and what one entry \<open>v\<close> of it does with the
  words that follow it.
\<close>

definition fifo_delivers :: "hw \<Rightarrow> u32 \<Rightarrow> io_log \<Rightarrow> u32 list \<Rightarrow> io_log \<Rightarrow> bool" where
  "fifo_delivers h b l ws l' \<longleftrightarrow>
     values_read (FIFO b 0) l' = values_read (FIFO b 0) l @ ws \<and> (\<forall>w \<in> set ws. \<exists>l. w = h l (FIFO b 0))"

definition rx_stored :: "u32 \<Rightarrow> u32 \<Rightarrow> u32 list \<Rightarrow> dwc2 \<Rightarrow> dwc2 \<Rightarrow> bool" where
  "rx_stored sa v ws s t \<longleftrightarrow>
     (let i = rx_ep v; e = out_ep s ! i in
      length ws = (if rx_kind v = 2 \<or> rx_kind v = 6 then (rx_bytes v + 3) div 4 else 0) \<and>
      ram t = (if rx_kind v = 2 then filled (ram s) (xfer_buf e) ws else if rx_kind v = 6 then filled (ram s) sa ws
               else ram s) \<and>
      out_ep t = (if rx_kind v = 2 \<and> rx_bytes v \<noteq> 0
                  then (out_ep s)[i := e\<lparr>xfer_buf := xfer_buf e + of_nat (rx_bytes v)\<rparr>] else out_ep s) \<and>
      in_ep t = in_ep s \<and> GSNPSID t = GSNPSID s)"

lemma fifo_not_reg: "FIFO b 0 \<noteq> GINTMSK b" "FIFO b 0 \<noteq> GRXSTSP b" "FIFO b 0 \<noteq> GINTSTS b"
  by (simp_all add: add.assoc)

lemma rx_kind_numbers:
  "(of_nat (rx_kind v) :: u32) = 2 \<longleftrightarrow> rx_kind v = 2" "(of_nat (rx_kind v) :: u32) = 6 \<longleftrightarrow> rx_kind v = 6"
  "(of_nat (rx_bytes v) :: u32) = 0 \<longleftrightarrow> rx_bytes v = 0" "(8 :: u32) < of_nat (rx_bytes v) \<longleftrightarrow> 8 < rx_bytes v"
  "unat (ucast (of_nat (rx_bytes v) :: u32) :: u16) = rx_bytes v"
  using rx_fields(3,4) [of v]
  by (auto simp: word_unat_eq_iff word_less_nat_alt unat_of_nat unsigned_ucast_eq unsigned_of_nat take_bit_nat_eq_self)

text \<open>The registers accessed before the entry is looked at.\<close>

definition rx_log :: "hw \<Rightarrow> u32 \<Rightarrow> u32 \<Rightarrow> io_log \<Rightarrow> io_log" where
  "rx_log h b v l = Rd (GRXSTSP b) v # Wr (GINTMSK b) (h l (GINTMSK b) AND NOT (BIT 4)) # Rd (GINTMSK b) (h l (GINTMSK b)) # l"

lemma wp_rx_entry:
  assumes v: "\<And>l. h l (GRXSTSP b) = v"
  shows "wp (rx_fifo_entry h b sa) Q s =
    wp (if rx_kind v = 2 then
          whenM (rx_bytes v \<noteq> 0)
            (bindM (get_out (rx_ep v)) (\<lambda>e.
             bindM (dwc2_ep_read h b (xfer_buf e) (ucast (of_nat (rx_bytes v) :: u32))) (\<lambda>_.
             mod_out (rx_ep v) (\<lambda>e. e\<lparr>xfer_buf := xfer_buf e + of_nat (rx_bytes v)\<rparr>))))
        else if rx_kind v = 6 then
          (if 8 < rx_bytes v then faultM Out_Of_Bounds else dwc2_ep_read h b sa (ucast (of_nat (rx_bytes v) :: u32)))
        else ret ()) (\<lambda>_. wp (setbits h (GINTMSK b) (BIT 4)) Q) (s\<lparr>iolog := rx_log h b v (iolog s)\<rparr>)"
  unfolding rx_fifo_entry_def wp_bindM clrbits_def wp_mod32 wp_rd32 v Let_def rx_fields(1,2) rx_kind_numbers rx_log_def
  by (simp add: rx_ep_def)

lemma wp_rx_read:
  assumes l: "values_read (FIFO b 0) l = values_read (FIFO b 0) (iolog s)"
    and q: "\<And>ws l'. length ws = (rx_bytes v + 3) div 4 \<Longrightarrow>
        fifo_delivers h b (iolog s) ws l' \<Longrightarrow>
        Q () (s\<lparr>iolog := l', ram := filled (ram s) d ws\<rparr>)"
  shows "wp (dwc2_ep_read h b d (ucast (of_nat (rx_bytes v) :: u32))) Q (s\<lparr>iolog := l\<rparr>)"
proof (rule wp_ep_read)
  fix ws t
  assume ws: "words_read h (FIFO b 0) (s\<lparr>iolog := l\<rparr>) ws t" "length ws = (unat (ucast (of_nat (rx_bytes v) :: u32) :: u16) + 3) div 4"
    and t: "t = s\<lparr>iolog := l, iolog := iolog t, ram := filled (ram (s\<lparr>iolog := l\<rparr>)) d ws\<rparr>"
  have "Q () (s\<lparr>iolog := iolog t, ram := filled (ram s) d ws\<rparr>)"
    by (rule q) (use ws l in \<open>simp add: rx_kind_numbers\<close>, use ws l in \<open>fastforce simp: rx_kind_numbers words_read_def fifo_delivers_def in_set_conv_nth\<close>)
  with t show "Q () t" by simp
qed

lemma rx_entry_stores:
  assumes v: "\<And>l. h l (GRXSTSP b) = v" and i: "rx_kind v = 2 \<Longrightarrow> rx_ep v < length (out_ep s)"
    and n: "rx_kind v = 6 \<Longrightarrow> rx_bytes v \<le> 8"
  shows "wp (rx_fifo_entry h b sa) (\<lambda>_ t. (\<exists>ws. rx_stored sa v ws s t \<and>
      fifo_delivers h b (iolog s) ws (iolog t)) \<and>
      (\<exists>m. last_wr (GINTMSK b) (iolog t) = Some (m OR BIT 4))) s"
proof -
  define l where "l = rx_log h b v (iolog s)"
  have l: "values_read (FIFO b 0) l = values_read (FIFO b 0) (iolog s)" by (simp add: l_def rx_log_def add.assoc)
  note entry = wp_rx_entry [where h = h and b = b and v = v, OF v, of sa _ s, folded l_def] and rd = wp_rx_read [OF l]
  define R where "R = (\<lambda>_ :: unit. \<lambda>t. (\<exists>ws. rx_stored sa v ws s t \<and>
      fifo_delivers h b (iolog s) ws (iolog t)) \<and>
      (\<exists>m. last_wr (GINTMSK b) (iolog t) = Some (m OR BIT 4)))"
  define S where "S = wp (setbits h (GINTMSK b) (BIT 4)) R"
  have fin: "S t" if "rx_stored sa v ws s t" "fifo_delivers h b (iolog s) ws (iolog t)" for t ws
    using that by (auto simp: S_def R_def fifo_delivers_def setbits_def wp_mod32 rx_stored_def add.assoc Let_def)
  have none: "S (s\<lparr>iolog := l\<rparr>)" if "rx_stored sa v [] s (s\<lparr>iolog := l\<rparr>)" by (rule fin [OF that]) (use l in \<open>simp add: fifo_delivers_def\<close>)
  have "wp (rx_fifo_entry h b sa) R s"
  proof (cases "rx_kind v = 2 \<and> rx_bytes v \<noteq> 0 \<or> rx_kind v = 6")
    case False
    have "filled m d [] = m" for m d by (simp add: filled_def fun_eq_iff)
    with False none show ?thesis
      unfolding entry S_def [symmetric] by (auto simp: wp_whenM wp_ret rx_stored_def Let_def)
  next
    case True
    let ?t = "\<lambda>d ws l'. s\<lparr>iolog := l', ram := filled (ram s) d ws\<rparr>"
    let ?e = "out_ep s ! rx_ep v"
    have data: "S ((?t (xfer_buf ?e) ws l')\<lparr>out_ep := (out_ep s)[rx_ep v := ?e\<lparr>xfer_buf := xfer_buf ?e + of_nat (rx_bytes v)\<rparr>]\<rparr>)"
      if "rx_kind v = 2" "rx_bytes v \<noteq> 0" "length ws = (rx_bytes v + 3) div 4"
        "fifo_delivers h b (iolog s) ws l'" for ws l'
      by (rule fin [of ws]) (use that in \<open>simp_all add: rx_stored_def Let_def\<close>)
    have pkt: "S (?t sa ws l')" if "rx_kind v = 6" "length ws = (rx_bytes v + 3) div 4"
        "fifo_delivers h b (iolog s) ws l'" for ws l'
      by (rule fin [of ws]) (use that in \<open>simp_all add: rx_stored_def Let_def\<close>)
    from True show ?thesis
    proof (elim disjE conjE)
      assume *: "rx_kind v = 2" "rx_bytes v \<noteq> 0"
      have "wp (dwc2_ep_read h b (xfer_buf ?e) (ucast (of_nat (rx_bytes v) :: u32)))
         (\<lambda>_. wp (mod_out (rx_ep v) (\<lambda>e. e\<lparr>xfer_buf := xfer_buf e + of_nat (rx_bytes v)\<rparr>)) (\<lambda>_. S)) (s\<lparr>iolog := l\<rparr>)"
        using i * by (intro rd) (simp add: wp_mod_out data)
      with * i show ?thesis unfolding entry S_def [symmetric] by (simp add: wp_bindM wp_get_out wp_whenM)
    next
      assume *: "rx_kind v = 6"
      have "wp (dwc2_ep_read h b sa (ucast (of_nat (rx_bytes v) :: u32))) (\<lambda>_. S) (s\<lparr>iolog := l\<rparr>)"
        by (rule rd) (rule pkt [OF *])
      with * n show ?thesis unfolding entry S_def [symmetric] by simp
    qed
  qed
  then show ?thesis by (simp only: R_def)
qed

text \<open>
  C6: An interrupt for received data delivers it. When the controller reports an entry of the receive FIFO and
  nothing else, \<open>USBD_IRQHandler\<close> returns and has read the words of the packet, and no more, from the FIFO: a data
  packet is stored at the current position of its OUT endpoint, which moves on by the packet's bytes; a setup packet
  in the setup buffer; any other entry stores nothing. No other memory and no other endpoint changes, the stack is not
  called, and the interrupt is enabled again. The controller must report an endpoint that exists and no setup packet of
  more than eight bytes, which the routine does not check.
\<close>

theorem irq_stores_received_packet:
  assumes irq: "h (iolog s) (GINTSTS b) AND h (Rd (GINTSTS b) (h (iolog s) (GINTSTS b)) # iolog s) (GINTMSK b) = BIT 4"
    and device: "\<And>l. h l (GINTSTS b) AND 1 = 0"
    and v: "\<And>l. h l (GRXSTSP b) = v" and i: "rx_kind v = 2 \<Longrightarrow> rx_ep v < length (out_ep s)"
    and n: "rx_kind v = 6 \<Longrightarrow> rx_bytes v \<le> 8"
  shows "wp (USBD_IRQHandler h up b sa clk) (\<lambda>_ t. (\<exists>ws. rx_stored sa v ws s t \<and>
      fifo_delivers h b (iolog s) ws (iolog t)) \<and>
      (\<exists>m. last_wr (GINTMSK b) (iolog t) = Some (m OR BIT 4))) s"
proof -
  let ?l = "Rd (GINTSTS b) (h (Rd (GINTMSK b) (h (Rd (GINTSTS b) (h (iolog s) (GINTSTS b)) # iolog s) (GINTMSK b)) #
    Rd (GINTSTS b) (h (iolog s) (GINTSTS b)) # iolog s) (GINTSTS b)) #
    Rd (GINTMSK b) (h (Rd (GINTSTS b) (h (iolog s) (GINTSTS b)) # iolog s) (GINTMSK b)) #
    Rd (GINTSTS b) (h (iolog s) (GINTSTS b)) # iolog s"
  have run: "wp (USBD_IRQHandler h up b sa clk) Q s = wp (rx_fifo_entry h b sa) Q (s\<lparr>iolog := ?l\<rparr>)" for Q
    using irq device by (simp add: USBD_IRQHandler_def dwc2_get_glb_intstatus_def wp_simps ack_def seqM.simps)
  show ?thesis
    unfolding run
    by (rule wp_mono [OF rx_entry_stores [where h = h and b = b and v = v, OF v]]) (use i n in \<open>auto simp: rx_stored_def Let_def fifo_delivers_def add.assoc\<close>)
qed

text \<open>A controller that reports a data packet of six bytes for endpoint 2.\<close>

definition rx_demo :: hw where
  "rx_demo l a = (if a = 0x14 then 0x10 else if a = 0x18 then (case last_wr 0x18 l of None \<Rightarrow> 0x10 | Some v \<Rightarrow> v)
     else if a = 0x20 then 0x40062 else 0x67666564)"

theorem irq_stores_received_packet_witness:
  "\<exists>t. USBD_IRQHandler rx_demo (\<lambda>_. ret ()) 0 0x20000000 168000000
       (demo_drv\<lparr>out_ep := (replicate 6 empty_ep)[2 := empty_ep\<lparr>xfer_buf := 200\<rparr>]\<rparr>) = Some (Inr ((), t)) \<and>
     ram t 200 = 0x64 \<and> ram t 205 = 0x65 \<and> ram t 208 = 208 \<and> xfer_buf (out_ep t ! 2) = 206"
proof -
  let ?s = "demo_drv\<lparr>out_ep := (replicate 6 empty_ep)[2 := empty_ep\<lparr>xfer_buf := 200\<rparr>]\<rparr>"
  have f: "rx_kind 0x40062 = 2" "rx_ep 0x40062 = 2" "rx_bytes 0x40062 = 6"
    by (simp_all add: rx_kind_def rx_ep_def rx_bytes_def drop_bit_eq_div)
  have "wp (USBD_IRQHandler rx_demo (\<lambda>_. ret ()) 0 0x20000000 168000000) (\<lambda>_ t. (\<exists>ws. rx_stored 0x20000000 0x40062 ws ?s t \<and>
      fifo_delivers rx_demo 0 (iolog ?s) ws (iolog t)) \<and>
      (\<exists>m. last_wr (GINTMSK 0) (iolog t) = Some (m OR BIT 4))) ?s"
    by (rule irq_stores_received_packet) (simp_all add: rx_demo_def f demo_drv_def)
  then obtain t ws where t: "USBD_IRQHandler rx_demo (\<lambda>_. ret ()) 0 0x20000000 168000000 ?s = Some (Inr ((), t))"
    and ws: "rx_stored 0x20000000 0x40062 ws ?s t" "fifo_delivers rx_demo 0 (iolog ?s) ws (iolog t)"
    by (auto simp: wp_def)
  have "length ws = 2" "\<forall>w \<in> set ws. w = 0x67666564"
    using ws by (simp_all add: rx_stored_def f fifo_delivers_def rx_demo_def)
  then have "ws = [0x67666564, 0x67666564]" by (auto simp: length_Suc_conv numeral_2_eq_2)
  with t ws(1) show ?thesis
    by (simp add: rx_stored_def f filled_def byte_of_def demo_drv_def drop_bit_eq_div)
qed

end
