(* ===== verification/Xprintf.thy ===== *)
theory Xprintf
  imports C_Machine
begin

text \<open>
  The console library \<open>libraries/xprintf/src/xprintf.c\<close> (the firmware prints through it: \<open>main\<close> sends its
  output to \<open>uart_sendbyte\<close>), with the options of \<open>xprintf.h\<close>: no conversion of line ends, no \<open>long long\<close>,
  floating point, no echo. Plain \<open>char\<close> is unsigned and \<open>int\<close>, \<open>long\<close> and pointers have 32 bits.

  \<^item> Memory is a map from addresses to bytes; strings are read from it and \<open>xsprintf\<close>, \<open>xgets\<close> write to it.
  \<^item> An output function is a number, \<open>None\<close> for the null pointer; a call appends the character to \<open>sent_chars\<close>,
    newest first. The input function is a stream \<open>inp\<close>, of which the state counts the values taken.
  \<^item> The variable arguments are a list; taking one that is not there is a fault.
  \<^item> The arithmetic of \<open>double\<close> is the argument \<open>F\<close>.
\<close>

section \<open>State\<close>

record xio =
  xmem :: "u32 \<Rightarrow> u8"
  strptr :: u32
  xfunc_output :: "nat option"
  sent_chars :: "(nat \<times> u32) list"
  xfunc_input :: bool
  nread :: nat

type_synonym 'a xcm = "(xio, 'a) cm"

text \<open>The operations on \<open>double\<close> that the library uses, with the constants as converted integers and 0.00001.\<close>

record 'd fp =
  f_int :: "int \<Rightarrow> 'd"
  f_tiny :: 'd
  f_add :: "'d \<Rightarrow> 'd \<Rightarrow> 'd"
  f_sub :: "'d \<Rightarrow> 'd \<Rightarrow> 'd"
  f_mul :: "'d \<Rightarrow> 'd \<Rightarrow> 'd"
  f_div :: "'d \<Rightarrow> 'd \<Rightarrow> 'd"
  f_neg :: "'d \<Rightarrow> 'd"
  f_less :: "'d \<Rightarrow> 'd \<Rightarrow> bool"
  f_le :: "'d \<Rightarrow> 'd \<Rightarrow> bool"
  f_eq :: "'d \<Rightarrow> 'd \<Rightarrow> bool"
  f_trunc :: "'d \<Rightarrow> int"
  f_isnan :: "'d \<Rightarrow> bool"
  f_isinf :: "'d \<Rightarrow> bool"

datatype 'd arg = Word u32 | Real 'd

text \<open>Characters.\<close>

abbreviation CH_SPACE :: u8 where "CH_SPACE \<equiv> 32"
abbreviation CH_PERCENT :: u8 where "CH_PERCENT \<equiv> 37"
abbreviation CH_STAR :: u8 where "CH_STAR \<equiv> 42"
abbreviation CH_PLUS :: u8 where "CH_PLUS \<equiv> 43"
abbreviation CH_MINUS :: u8 where "CH_MINUS \<equiv> 45"
abbreviation CH_DOT :: u8 where "CH_DOT \<equiv> 46"
abbreviation CH_0 :: u8 where "CH_0 \<equiv> 48"
abbreviation CH_9 :: u8 where "CH_9 \<equiv> 57"
abbreviation CH_X :: u8 where "CH_X \<equiv> 88"
abbreviation CH_E :: u8 where "CH_E \<equiv> 69"
abbreviation CH_b :: u8 where "CH_b \<equiv> 98"
abbreviation CH_c :: u8 where "CH_c \<equiv> 99"
abbreviation CH_d :: u8 where "CH_d \<equiv> 100"
abbreviation CH_e :: u8 where "CH_e \<equiv> 101"
abbreviation CH_f :: u8 where "CH_f \<equiv> 102"
abbreviation CH_l :: u8 where "CH_l \<equiv> 108"
abbreviation CH_o :: u8 where "CH_o \<equiv> 111"
abbreviation CH_s :: u8 where "CH_s \<equiv> 115"
abbreviation CH_u :: u8 where "CH_u \<equiv> 117"
abbreviation CH_x :: u8 where "CH_x \<equiv> 120"

definition is_digit :: "u8 \<Rightarrow> bool" where
  "is_digit c \<longleftrightarrow> CH_0 \<le> c \<and> c \<le> CH_9"

definition rd8 :: "u32 \<Rightarrow> u8 xcm" where
  "rd8 a = getM (\<lambda>s. xmem s a)"

definition wr8 :: "u32 \<Rightarrow> u8 \<Rightarrow> unit xcm" where
  "wr8 a c = modM (\<lambda>s. s\<lparr>xmem := (xmem s)(a := c)\<rparr>)"

section \<open>Characters and strings\<close>

definition xfputc :: "nat option \<Rightarrow> u32 \<Rightarrow> unit xcm" where
  "xfputc func chr = (case func of
       Some d \<Rightarrow> modM (\<lambda>s. s\<lparr>sent_chars := (d, chr) # sent_chars s\<rparr>)
     | None \<Rightarrow>
         bindM (getM strptr) (\<lambda>p.
         whenM (p \<noteq> 0)
           (thenM (wr8 p (ucast chr)) (modM (\<lambda>s. s\<lparr>strptr := p + 1\<rparr>)))))"

definition xputc :: "u32 \<Rightarrow> unit xcm" where
  "xputc chr = bindM (getM xfunc_output) (\<lambda>f. xfputc f chr)"

definition put :: "nat option \<Rightarrow> u8 \<Rightarrow> unit xcm" where
  "put func c = xfputc func (ucast c)"

definition xfputs :: "nat option \<Rightarrow> u32 \<Rightarrow> unit xcm" where
  "xfputs func str =
     bindM (whileM (\<lambda>p. bindM (rd8 p) (\<lambda>c. ret (c \<noteq> 0)))
       (\<lambda>p. bindM (rd8 p) (\<lambda>c. bindM (put func c) (\<lambda>_. ret (p + 1)))) str) (\<lambda>_. ret ())"

definition xputs :: "u32 \<Rightarrow> unit xcm" where
  "xputs str = bindM (getM xfunc_output) (\<lambda>f. xfputs f str)"

definition strlen :: "u32 \<Rightarrow> u32 xcm" where
  "strlen p = whileM (\<lambda>n. bindM (rd8 (p + n)) (\<lambda>c. ret (c \<noteq> 0))) (\<lambda>n. ret (n + 1)) 0"

section \<open>Floating point\<close>

definition ilog10 :: "'d fp \<Rightarrow> 'd \<Rightarrow> int xcm" where
  "ilog10 F n =
     bindM (whileM (\<lambda>(n, rv). ret (f_le F (f_int F 10) n))
       (\<lambda>(n, rv). ret (if f_le F (f_int F 100000) n then (f_div F n (f_int F 100000), rv + 5)
                       else (f_div F n (f_int F 10), rv + 1))) (n, 0)) (\<lambda>(n, rv).
     bindM (whileM (\<lambda>(n, rv). ret (f_less F n (f_int F 1)))
       (\<lambda>(n, rv). ret (if f_less F n (f_tiny F) then (f_mul F n (f_int F 100000), rv - 5)
                       else (f_mul F n (f_int F 10), rv - 1))) (n, rv)) (\<lambda>(n, rv). ret rv))"

definition i10x :: "'d fp \<Rightarrow> int \<Rightarrow> 'd xcm" where
  "i10x F n =
     bindM (whileM (\<lambda>(rv, n). ret (n > 0))
       (\<lambda>(rv, n). ret (if n \<ge> 5 then (f_mul F rv (f_int F 100000), n - 5) else (f_mul F rv (f_int F 10), n - 1)))
       (f_int F 1, n)) (\<lambda>(rv, n).
     bindM (whileM (\<lambda>(rv, n). ret (n < 0))
       (\<lambda>(rv, n). ret (if n \<le> -5 then (f_div F rv (f_int F 100000), n + 5) else (f_div F rv (f_int F 10), n + 1)))
       (rv, n)) (\<lambda>(rv, n). ret rv))"

text \<open>\<open>*buf++ = c\<close> in the buffer \<open>str\<close> of 32 characters.\<close>

abbreviation SZB_OUTPUT :: nat where "SZB_OUTPUT \<equiv> 32"

type_synonym outbuf = "u8 list \<times> nat"

definition push :: "u8 \<Rightarrow> outbuf \<Rightarrow> outbuf xcm" where
  "push c = (\<lambda>(str, i). bindM (store_elem str i c) (\<lambda>str. ret (str, i + 1)))"

definition push_all :: "u8 list \<Rightarrow> outbuf \<Rightarrow> outbuf xcm" where
  "push_all cs b = foldM push cs b"

text \<open>The digits of \<open>val\<close> from the place \<open>m\<close> down to \<open>-prec\<close>.\<close>

definition put_places :: "'d fp \<Rightarrow> 'd \<Rightarrow> int \<Rightarrow> int \<Rightarrow> outbuf \<Rightarrow> outbuf xcm" where
  "put_places F val m prec b =
     bindM (whileM (\<lambda>(val, m, fin, b). ret (\<not> fin))
       (\<lambda>(val, m, fin, b).
          bindM (i10x F m) (\<lambda>w.
          let d = f_trunc F (f_div F val w); val = f_sub F val (f_mul F (f_int F d) w) in
          bindM (if m = -1 then push CH_DOT b else ret b) (\<lambda>b.
          bindM (push (CH_0 + of_int d) b) (\<lambda>b.
          ret (val, m - 1, \<not> m - 1 \<ge> -prec, b)))))
       (val, m, False, b)) (\<lambda>(val, m, fin, b). ret b)"

text \<open>
  The body of \<open>ftoa\<close> after the rounding; \<open>er\<close> is the error text, or the value with the place of the first
  digit and the exponent.
\<close>

definition put_float :: "'d fp \<Rightarrow> (u8 list + 'd \<times> int \<times> int) \<Rightarrow> u8 \<Rightarrow> int \<Rightarrow> u8 \<Rightarrow> outbuf \<Rightarrow> outbuf xcm" where
  "put_float F r sign prec fmt b = (case r of
       Inl er \<Rightarrow>
         bindM (if sign \<noteq> 0 then push sign b else ret b) (push_all er)
     | Inr (val, m, e) \<Rightarrow>
         bindM (if sign = CH_MINUS then push sign b else ret b) (\<lambda>b.
         bindM (put_places F val m prec b) (\<lambda>b.
         if fmt = CH_f then ret b
         else push_all [fmt, if e < 0 then CH_MINUS else CH_PLUS,
                CH_0 + of_int (\<bar>e\<bar> div 10), CH_0 + of_int (\<bar>e\<bar> mod 10)] b)))"

definition ftoa :: "'d fp \<Rightarrow> 'd \<Rightarrow> int \<Rightarrow> u8 \<Rightarrow> outbuf \<Rightarrow> outbuf xcm" where
  "ftoa F val prec fmt b =
     bindM (if f_isnan F val then put_float F (Inl [78, 97, 78]) 0 prec fmt b
      else
        (let prec = (if prec < 0 then 6 else prec);
             neg = f_less F val (f_int F 0);
             val = (if neg then f_neg F val else val);
             sign = (if neg then CH_MINUS else CH_PLUS) in
         if f_isinf F val then put_float F (Inl [73, 78, 70]) sign prec fmt b
         else if fmt = CH_f then
           bindM (i10x F (-prec)) (\<lambda>h.
           let val = f_add F val (f_div F h (f_int F 2)) in
           bindM (ilog10 F val) (\<lambda>m.
           let m = (if m < 0 then 0 else m) in
           put_float F (if m + prec + 3 \<ge> 32 then Inl [79, 86] else Inr (val, m, 0)) sign prec fmt b))
         else if \<not> f_eq F val (f_int F 0) then
           bindM (ilog10 F val) (\<lambda>k.
           bindM (i10x F (k - prec)) (\<lambda>h.
           let val = f_add F val (f_div F h (f_int F 2)) in
           bindM (ilog10 F val) (\<lambda>e.
           if e > 99 \<or> prec + 6 \<ge> 32 then put_float F (Inl [79, 86]) sign prec fmt b
           else
             (let e = (if e < -99 then -99 else e) in
              bindM (i10x F e) (\<lambda>w. put_float F (Inr (f_div F val w, 0, e)) sign prec fmt b)))))
         else put_float F (Inr (val, 0, 0)) sign prec fmt b)) (push 0)"


section \<open>Formatted output\<close>

text \<open>\<open>va_arg\<close> of an \<open>int\<close>, a \<open>long\<close> or a pointer, and of a \<open>double\<close>.\<close>

definition arg_word :: "'d arg list \<Rightarrow> (u32 \<times> 'd arg list) xcm" where
  "arg_word arp = (case arp of Word x # r \<Rightarrow> ret (x, r) | _ \<Rightarrow> faultM Out_Of_Bounds)"

definition arg_real :: "'d arg list \<Rightarrow> ('d \<times> 'd arg list) xcm" where
  "arg_real arp = (case arp of Real x # r \<Rightarrow> ret (x, r) | _ \<Rightarrow> faultM Out_Of_Bounds)"

text \<open>A signed 32-bit value below 0.\<close>

definition negative :: "u32 \<Rightarrow> bool" where
  "negative x \<longleftrightarrow> x \<ge> 0x80000000"

text \<open>\<open>while (c >= '0' && c <= '9') { n = n * 10 + c - '0'; c = *fmt++; }\<close>\<close>

definition get_number :: "u8 \<Rightarrow> u32 \<Rightarrow> (u32 \<times> u8 \<times> u32) xcm" where
  "get_number c fmt =
     whileM (\<lambda>(n, c, fmt). ret (is_digit c))
       (\<lambda>(n, c, fmt). bindM (rd8 fmt) (\<lambda>c'. ret (n * 10 + ucast c - ucast CH_0, c', fmt + 1))) (0, c, fmt)"

text \<open>
  The parts of a directive after the percent sign: flag, minimum width, precision, size. Each takes the
  current character and the pointer behind it; \<open>f\<close> is 2 for left justification, 4 for \<open>long\<close>.
\<close>

definition get_flag :: "u32 \<Rightarrow> (u32 \<times> u8 \<times> u8 \<times> u32) xcm" where
  "get_flag fmt =
     bindM (rd8 fmt) (\<lambda>c.
     if c = CH_0 then bindM (rd8 (fmt + 1)) (\<lambda>c. ret (0, CH_0, c, fmt + 2))
     else if c = CH_MINUS then bindM (rd8 (fmt + 1)) (\<lambda>c. ret (2, CH_SPACE, c, fmt + 2))
     else ret (0, CH_SPACE, c, fmt + 1))"

definition get_width :: "'d arg list \<Rightarrow> u32 \<Rightarrow> u8 \<Rightarrow> u32 \<Rightarrow> (u32 \<times> u32 \<times> u8 \<times> u32 \<times> 'd arg list) xcm" where
  "get_width arp f c fmt =
     (if c = CH_STAR then
        bindM (arg_word arp) (\<lambda>(n, arp).
        bindM (rd8 fmt) (\<lambda>c.
        ret (if negative n then 2 else f, if negative n then 0 - n else n, c, fmt + 1, arp)))
      else bindM (get_number c fmt) (\<lambda>(w, c, fmt). ret (f, w, c, fmt, arp)))"

definition get_prec :: "'d arg list \<Rightarrow> u8 \<Rightarrow> u32 \<Rightarrow> (u32 \<times> u8 \<times> u32 \<times> 'd arg list) xcm" where
  "get_prec arp c fmt =
     (if c = CH_DOT then
        bindM (rd8 fmt) (\<lambda>c.
        if c = CH_STAR then
          bindM (arg_word arp) (\<lambda>(prec, arp).
          bindM (rd8 (fmt + 1)) (\<lambda>c. ret (prec, c, fmt + 2, arp)))
        else bindM (get_number c (fmt + 1)) (\<lambda>(prec, c, fmt). ret (prec, c, fmt, arp)))
      else ret (-1, c, fmt, arp))"

definition get_size :: "u32 \<Rightarrow> u8 \<Rightarrow> u32 \<Rightarrow> (u32 \<times> u8 \<times> u32) xcm" where
  "get_size f c fmt =
     (if c = CH_l then bindM (rd8 fmt) (\<lambda>c. ret (f OR 4, c, fmt + 1)) else ret (f, c, fmt))"

text \<open>\<open>for (; j < w; j++) xfputc(func, pad)\<close>\<close>

definition pads :: "nat option \<Rightarrow> u8 \<Rightarrow> u32 \<Rightarrow> u32 \<Rightarrow> u32 xcm" where
  "pads func c w j = whileM (\<lambda>j. ret (j < w)) (\<lambda>j. bindM (put func c) (\<lambda>_. ret (j + 1))) j"

definition left_pads :: "nat option \<Rightarrow> u32 \<Rightarrow> u8 \<Rightarrow> u32 \<Rightarrow> u32 \<Rightarrow> u32 xcm" where
  "left_pads func f pad w j = (if f AND 2 = 0 then pads func pad w j else ret j)"

definition right_pads :: "nat option \<Rightarrow> u32 \<Rightarrow> u32 \<Rightarrow> unit xcm" where
  "right_pads func w j = bindM (pads func CH_SPACE w j) (\<lambda>_. ret ())"

definition put_string :: "nat option \<Rightarrow> u32 \<Rightarrow> u8 \<Rightarrow> u32 \<Rightarrow> u32 \<Rightarrow> u32 \<Rightarrow> unit xcm" where
  "put_string func f pad w prec p =
     bindM (if p = 0 then ret 0 else strlen p) (\<lambda>j.
     let j = (if \<not> negative prec \<and> j > prec then prec else j) in
     bindM (left_pads func f pad w j) (\<lambda>j.
     bindM (if p = 0 then ret () else
       bindM (whileM (\<lambda>(p, prec). bindM (rd8 p) (\<lambda>c. ret (c \<noteq> 0 \<and> prec \<noteq> 0)))
         (\<lambda>(p, prec). bindM (rd8 p) (\<lambda>c. bindM (put func c) (\<lambda>_. ret (p + 1, prec - 1)))) (p, prec)) (\<lambda>_. ret ())) (\<lambda>_.
     right_pads func w j)))"

text \<open>The number as text in \<open>str\<close>, lowest digit first; the result is the buffer and the number of digits.\<close>

definition digit_char :: "u8 \<Rightarrow> u32 \<Rightarrow> u8" where
  "digit_char c d = (let d = ucast d in (if d > 9 then d + (if c = CH_x then 0x27 else 0x07) else d) + CH_0)"

definition make_digits :: "u8 \<Rightarrow> u32 \<Rightarrow> u32 \<Rightarrow> u8 list \<Rightarrow> (u8 list \<times> nat) xcm" where
  "make_digits c r v str =
     bindM (whileM (\<lambda>(uv, str, i). ret (i = 0 \<or> uv \<noteq> 0 \<and> i < SZB_OUTPUT))
       (\<lambda>(uv, str, i). bindM (push (digit_char c (uv mod r)) (str, i)) (\<lambda>(str, i). ret (uv div r, str, i)))
       (v, str, 0)) (\<lambda>(uv, str, i). ret (str, i))"

text \<open>
  At least one digit has been made, so that the source's loop with the test at the end is the loop with the
  test in front.
\<close>

definition put_reversed :: "nat option \<Rightarrow> u8 list \<Rightarrow> nat \<Rightarrow> unit xcm" where
  "put_reversed func str i =
     bindM (whileM (\<lambda>i. ret (i \<noteq> 0))
       (\<lambda>i. bindM (load_elem str (i - 1)) (\<lambda>c. bindM (put func c) (\<lambda>_. ret (i - 1)))) i) (\<lambda>_. ret ())"

definition put_integer :: "nat option \<Rightarrow> u8 \<Rightarrow> u32 \<Rightarrow> u32 \<Rightarrow> u8 \<Rightarrow> u32 \<Rightarrow> u32 \<Rightarrow> u8 list \<Rightarrow> unit xcm" where
  "put_integer func c r f pad w v str =
     (let neg = (c = CH_d \<and> negative v) in
      bindM (make_digits c r (if neg then 0 - v else v) str) (\<lambda>(str, i).
      bindM (if neg then push CH_MINUS (str, i) else ret (str, i)) (\<lambda>(str, i).
      bindM (left_pads func f pad w (of_nat i)) (\<lambda>j.
      bindM (put_reversed func str i) (\<lambda>_.
      right_pads func w j)))))"

definition put_real :: "'d fp \<Rightarrow> nat option \<Rightarrow> u8 \<Rightarrow> u32 \<Rightarrow> u8 \<Rightarrow> u32 \<Rightarrow> u32 \<Rightarrow> 'd \<Rightarrow> u8 list \<Rightarrow> unit xcm" where
  "put_real F func c f pad w prec x str =
     bindM (ftoa F x (sint prec) c (str, 0)) (\<lambda>(str, n).
     let text = takeWhile (\<lambda>c. c \<noteq> 0) str in
     bindM (left_pads func f pad w (of_nat (length text))) (\<lambda>j.
     bindM (foldM (\<lambda>c _. put func c) text ()) (\<lambda>_.
     right_pads func w j)))"

definition radix :: "u8 \<Rightarrow> u32 option" where
  "radix c =
     (if c = CH_b then Some 2 else if c = CH_o then Some 8 else if c = CH_d \<or> c = CH_u then Some 10
      else if c = CH_x \<or> c = CH_X then Some 16 else None)"

text \<open>The conversion of a type character.\<close>

definition convert :: "'d fp \<Rightarrow> nat option \<Rightarrow> u8 list \<Rightarrow> u8 \<Rightarrow> u32 \<Rightarrow> u8 \<Rightarrow> u32 \<Rightarrow> u32 \<Rightarrow> 'd arg list \<Rightarrow> 'd arg list xcm" where
  "convert F func str c f pad w prec arp = (case radix c of
       Some r \<Rightarrow>
         bindM (arg_word arp) (\<lambda>(v, arp). bindM (put_integer func c r f pad w v str) (\<lambda>_. ret arp))
     | None \<Rightarrow>
         if c = CH_c then bindM (arg_word arp) (\<lambda>(v, arp). bindM (put func (ucast v)) (\<lambda>_. ret arp))
         else if c = CH_s then
           bindM (arg_word arp) (\<lambda>(p, arp). bindM (put_string func f pad w prec p) (\<lambda>_. ret arp))
         else if c = CH_f \<or> c = CH_e \<or> c = CH_E then
           bindM (arg_real arp) (\<lambda>(x, arp). bindM (put_real F func c f pad w prec x str) (\<lambda>_. ret arp))
         else bindM (put func c) (\<lambda>_. ret arp))"

text \<open>
  One turn of the loop; the result is the pointer behind the directive and the remaining arguments, or
  \<open>None\<close> at the end of the format. The contents of \<open>str\<close> at the start of a conversion do not matter: it is an
  uninitialised array, taken as zero.
\<close>

definition format_step :: "'d fp \<Rightarrow> nat option \<Rightarrow> u32 \<Rightarrow> 'd arg list \<Rightarrow> (u32 \<times> 'd arg list) option xcm" where
  "format_step F func fmt arp =
     bindM (rd8 fmt) (\<lambda>c.
     if c = 0 then ret None
     else if c \<noteq> CH_PERCENT then bindM (put func c) (\<lambda>_. ret (Some (fmt + 1, arp)))
     else
       bindM (get_flag (fmt + 1)) (\<lambda>(f, pad, c, fmt).
       bindM (get_width arp f c fmt) (\<lambda>(f, w, c, fmt, arp).
       bindM (get_prec arp c fmt) (\<lambda>(prec, c, fmt, arp).
       bindM (get_size f c fmt) (\<lambda>(f, c, fmt).
       if c = 0 then ret None
       else bindM (convert F func (replicate SZB_OUTPUT 0) c f pad w prec arp) (\<lambda>arp. ret (Some (fmt, arp))))))))"

definition xvfprintf :: "'d fp \<Rightarrow> nat option \<Rightarrow> u32 \<Rightarrow> 'd arg list \<Rightarrow> unit xcm" where
  "xvfprintf F func fmt arp =
     bindM (whileM (\<lambda>st. ret (st \<noteq> None))
       (\<lambda>st. case st of None \<Rightarrow> ret None | Some (fmt, arp) \<Rightarrow> format_step F func fmt arp)
       (Some (fmt, arp))) (\<lambda>_. ret ())"

definition xprintf :: "'d fp \<Rightarrow> u32 \<Rightarrow> 'd arg list \<Rightarrow> unit xcm" where
  "xprintf F fmt arp = bindM (getM xfunc_output) (\<lambda>f. xvfprintf F f fmt arp)"

definition xfprintf :: "'d fp \<Rightarrow> nat option \<Rightarrow> u32 \<Rightarrow> 'd arg list \<Rightarrow> unit xcm" where
  "xfprintf F func fmt arp = xvfprintf F func fmt arp"

definition xsprintf :: "'d fp \<Rightarrow> u32 \<Rightarrow> u32 \<Rightarrow> 'd arg list \<Rightarrow> unit xcm" where
  "xsprintf F buff fmt arp =
     bindM (modM (\<lambda>s. s\<lparr>strptr := buff\<rparr>)) (\<lambda>_.
     bindM (xvfprintf F None fmt arp) (\<lambda>_.
     bindM (getM strptr) (\<lambda>p.
     bindM (wr8 p 0) (\<lambda>_. modM (\<lambda>s. s\<lparr>strptr := 0\<rparr>)))))"

section \<open>Dump\<close>

text \<open>
  The library's own format strings lie somewhere in flash; here they are the addresses given by \<open>lit\<close>, where the
  memory must hold them.
\<close>

datatype literal = Lit_Addr | Lit_Byte | Lit_Gap | Lit_Short | Lit_Long

definition literal_text :: "literal \<Rightarrow> u8 list" where
  "literal_text l = (case l of
       Lit_Addr \<Rightarrow> [37, 48, 56, 108, 88, 32]
     | Lit_Byte \<Rightarrow> [32, 37, 48, 50, 88]
     | Lit_Gap \<Rightarrow> [32, 32]
     | Lit_Short \<Rightarrow> [32, 37, 48, 52, 88]
     | Lit_Long \<Rightarrow> [32, 37, 48, 56, 108, 88])"

text \<open>Little-endian loads of \<open>unsigned short\<close> and \<open>unsigned long\<close>; they must be aligned.\<close>

definition rd_short :: "u32 \<Rightarrow> u32 xcm" where
  "rd_short a = (if a AND 1 \<noteq> 0 then faultM Misaligned_Access
     else getM (\<lambda>s. ucast (xmem s a) OR push_bit 8 (ucast (xmem s (a + 1)))))"

definition rd_long :: "u32 \<Rightarrow> u32 xcm" where
  "rd_long a = (if a AND 3 \<noteq> 0 then faultM Misaligned_Access
     else getM (\<lambda>s. ucast (xmem s a) OR push_bit 8 (ucast (xmem s (a + 1))) OR push_bit 16 (ucast (xmem s (a + 2)))
       OR push_bit 24 (ucast (xmem s (a + 3)))))"

text \<open>\<open>do { xprintf(format, *p++); } while (--len)\<close>\<close>

definition dump_items :: "'d fp \<Rightarrow> u32 \<Rightarrow> (u32 \<Rightarrow> u32 xcm) \<Rightarrow> u32 \<Rightarrow> u32 \<Rightarrow> u32 \<Rightarrow> unit xcm" where
  "dump_items F fmt ld step p len =
     bindM (whileM (\<lambda>(p, len, fin). ret (\<not> fin))
       (\<lambda>(p, len, fin). bindM (ld p) (\<lambda>v. bindM (xprintf F fmt [Word v]) (\<lambda>_. ret (p + step, len - 1, len - 1 = 0))))
       (p, len, False)) (\<lambda>_. ret ())"

text \<open>\<open>for (i = 0; i < len; i++)\<close> with a signed \<open>len\<close>.\<close>

definition for_items :: "u32 \<Rightarrow> (u32 \<Rightarrow> unit xcm) \<Rightarrow> unit xcm" where
  "for_items len f =
     bindM (whileM (\<lambda>i. ret (\<not> negative len \<and> i < len)) (\<lambda>i. bindM (f i) (\<lambda>_. ret (i + 1))) 0) (\<lambda>_. ret ())"

definition put_dump :: "'d fp \<Rightarrow> (literal \<Rightarrow> u32) \<Rightarrow> u32 \<Rightarrow> u32 \<Rightarrow> u32 \<Rightarrow> u32 \<Rightarrow> unit xcm" where
  "put_dump F lit buff addr len width =
     bindM (xprintf F (lit Lit_Addr) [Word addr]) (\<lambda>_.
     bindM (if width = 1 then
          bindM (for_items len (\<lambda>i. bindM (rd8 (buff + i)) (\<lambda>c. xprintf F (lit Lit_Byte) [Word (ucast c)]))) (\<lambda>_.
          bindM (xputs (lit Lit_Gap)) (\<lambda>_.
          for_items len (\<lambda>i. bindM (rd8 (buff + i)) (\<lambda>c. xputc (ucast (if CH_SPACE \<le> c \<and> c \<le> 126 then c else CH_DOT))))))
        else if width = 2 then dump_items F (lit Lit_Short) rd_short 2 buff len
        else if width = 4 then dump_items F (lit Lit_Long) rd_long 4 buff len
        else ret ()) (\<lambda>_.
     xputc 10))"


section \<open>Input\<close>

text \<open>One call of the input function: the next value of the stream.\<close>

definition get_char :: "(nat \<Rightarrow> int) \<Rightarrow> int xcm" where
  "get_char inp = bindM (getM nread) (\<lambda>k. bindM (modM (\<lambda>s. s\<lparr>nread := k + 1\<rparr>)) (\<lambda>_. ret (inp k)))"

text \<open>What a character does to the line, of which \<open>i\<close> characters are there.\<close>

definition gets_char :: "u32 \<Rightarrow> int \<Rightarrow> int \<Rightarrow> int \<Rightarrow> int xcm" where
  "gets_char buff len c i =
     (if c = 8 \<and> i \<noteq> 0 then ret (i - 1)
      else if c \<ge> 32 \<and> i < len - 1 then bindM (wr8 (buff + of_int i) (of_int c)) (\<lambda>_. ret (i + 1))
      else ret i)"

definition xgets :: "(nat \<Rightarrow> int) \<Rightarrow> u32 \<Rightarrow> int \<Rightarrow> int xcm" where
  "xgets inp buff len =
     bindM (getM xfunc_input) (\<lambda>on.
     if \<not> on then ret 0
     else
       bindM (get_char inp) (\<lambda>c.
       bindM (whileM (\<lambda>(c, i). ret (\<not> (c < 0 \<or> c = 13)))
         (\<lambda>(c, i). bindM (gets_char buff len c i) (\<lambda>i. bindM (get_char inp) (\<lambda>c. ret (c, i)))) (c, 0)) (\<lambda>(c, i).
       bindM (wr8 (buff + of_int i) 0) (\<lambda>_.
       ret (if c = 13 then 1 else 0)))))"

text \<open>
  The outcome of the parsers: \<open>None\<close> when they return 0, else the value; and where \<open>*str\<close> points afterwards.
  A failing call leaves 0 in \<open>*res\<close>.
\<close>

definition skip_spaces :: "u32 \<Rightarrow> u32 xcm" where
  "skip_spaces p = whileM (\<lambda>p. bindM (rd8 p) (\<lambda>c. ret (c = CH_SPACE))) (\<lambda>p. ret (p + 1)) p"

text \<open>The value of a digit character, with the code's arithmetic on \<open>unsigned char\<close>.\<close>

definition digit_value :: "u8 \<Rightarrow> u8 option" where
  "digit_value c =
     (let c = (if c \<ge> 97 then c - 0x20 else c); c = c - CH_0 in
      if c \<ge> 17 then (if c - 7 \<le> 9 then None else Some (c - 7)) else Some c)"

text \<open>The digits up to a character that is not above the space.\<close>

definition get_digits :: "u8 \<Rightarrow> u32 \<Rightarrow> (u32 option \<times> u32) xcm" where
  "get_digits r p =
     bindM (whileM (\<lambda>(val, p). bindM (rd8 p) (\<lambda>c. ret (val \<noteq> None \<and> c > CH_SPACE)))
       (\<lambda>(val, p). bindM (rd8 p) (\<lambda>c. ret (case (val, digit_value c) of
            (Some v, Some d) \<Rightarrow> if d \<ge> r then (None, p) else (Some (v * ucast r + ucast d), p + 1)
          | _ \<Rightarrow> (None, p)))) (Some 0, p)) ret"

definition apply_sign :: "bool \<Rightarrow> u32 option \<times> u32 \<Rightarrow> u32 option \<times> u32" where
  "apply_sign s = (\<lambda>(v, p). (map_option (\<lambda>v. if s then 0 - v else v) v, p))"

definition xatoi :: "u32 \<Rightarrow> (u32 option \<times> u32) xcm" where
  "xatoi str =
     bindM (skip_spaces str) (\<lambda>p.
     bindM (rd8 p) (\<lambda>c.
     let s = (c = CH_MINUS); p = (if s then p + 1 else p) in
     bindM (rd8 p) (\<lambda>c.
     if c = CH_0 then
       bindM (rd8 (p + 1)) (\<lambda>c.
       if c = CH_x then bindM (get_digits 16 (p + 2)) (\<lambda>r. ret (apply_sign s r))
       else if c = CH_b then bindM (get_digits 2 (p + 2)) (\<lambda>r. ret (apply_sign s r))
       else if c \<le> CH_SPACE then ret (Some 0, p + 1)
       else if c < CH_0 \<or> c > CH_9 then ret (None, p + 1)
       else bindM (get_digits 8 (p + 1)) (\<lambda>r. ret (apply_sign s r)))
     else if c < CH_0 \<or> c > CH_9 then ret (None, p)
     else bindM (get_digits 10 p) (\<lambda>r. ret (apply_sign s r)))))"

section \<open>Real numbers\<close>

text \<open>The decimal part: the place \<open>f\<close> is 0 before the point and negative behind it.\<close>

definition get_decimal :: "'d fp \<Rightarrow> int \<Rightarrow> u32 \<Rightarrow> ('d option \<times> int \<times> u32 \<times> bool) xcm" where
  "get_decimal F f p =
     whileM (\<lambda>(val, f, p, fin). bindM (rd8 p) (\<lambda>c. ret (val \<noteq> None \<and> c > CH_SPACE \<and> \<not> fin)))
       (\<lambda>(val, f, p, fin). bindM (rd8 p) (\<lambda>c. case val of None \<Rightarrow> ret (None, f, p, fin) | Some v \<Rightarrow>
          if c = CH_DOT then (if f < 0 then ret (None, f, p, fin) else ret (Some v, -1, p + 1, fin))
          else if c < CH_0 \<or> c > CH_9 then ret (Some v, f, p, True)
          else if f = 0 then ret (Some (f_add F (f_mul F v (f_int F 10)) (f_int F (uint (c - CH_0)))), f, p + 1, fin)
          else bindM (i10x F f) (\<lambda>x. ret (Some (f_add F v (f_mul F x (f_int F (uint (c - CH_0))))), f - 1, p + 1, fin))))
       (Some (f_int F 0), f, p, False)"

definition get_exponent :: "u32 \<Rightarrow> (int option \<times> u32) xcm" where
  "get_exponent p =
     whileM (\<lambda>(e, p). bindM (rd8 p) (\<lambda>c. ret (e \<noteq> None \<and> c > CH_SPACE)))
       (\<lambda>(e, p). bindM (rd8 p) (\<lambda>c. ret (case e of None \<Rightarrow> (None, p) | Some e \<Rightarrow>
          if c - CH_0 > 9 then (None, p) else (Some (e * 10 + uint (c - CH_0)), p + 1)))) (Some 0, p)"

definition xatof :: "'d fp \<Rightarrow> u32 \<Rightarrow> ('d option \<times> u32) xcm" where
  "xatof F str =
     bindM (skip_spaces str) (\<lambda>p.
     bindM (rd8 p) (\<lambda>c.
     let neg = (c = CH_MINUS); p = (if c = CH_MINUS \<or> c = CH_PLUS then p + 1 else p) in
     bindM (rd8 p) (\<lambda>c.
     let f = (if c = CH_DOT then -1 else 0); p = (if c = CH_DOT then p + 1 else p) in
     bindM (rd8 p) (\<lambda>c.
     if c \<le> CH_SPACE then ret (None, p)
     else
       bindM (get_decimal F f p) (\<lambda>(val, f, p, fin). case val of None \<Rightarrow> ret (None, p) | Some v \<Rightarrow>
       bindM (rd8 p) (\<lambda>c.
       if c > CH_SPACE then
         (if c \<noteq> CH_e \<and> c \<noteq> CH_E then ret (None, p)
          else
            bindM (rd8 (p + 1)) (\<lambda>c.
            let eneg = (c = CH_MINUS); p = (if c = CH_MINUS \<or> c = CH_PLUS then p + 2 else p + 1) in
            bindM (rd8 p) (\<lambda>c.
            if c \<le> CH_SPACE then ret (None, p)
            else
              bindM (get_exponent p) (\<lambda>(e, p). case e of None \<Rightarrow> ret (None, p) | Some e \<Rightarrow>
              bindM (i10x F (if eneg then -e else e)) (\<lambda>x.
              let v = f_mul F v x in
              ret (Some (if neg then f_neg F v else v), p))))))
       else ret (Some (if neg then f_neg F v else v), p)))))))"

end
