(* ===== verification/Xprintf_Spec.thy ===== *)
theory Xprintf_Spec
  imports Xprintf
begin

text \<open>
  What the console library promises: formatted output is the text that a functional specification on lists
  gives, the number parser reads back what is printed, and a line of input is edited within its buffer. Printing the
  real number zero is where a promise fails: nothing bounds its precision.
\<close>

section \<open>Specification\<close>

text \<open>The digits of a number in a radix, lowest first, and the text of a number.\<close>

fun digits :: "nat \<Rightarrow> nat \<Rightarrow> nat list" where
  "digits r n = n mod r # (if n < r \<or> r \<le> 1 then [] else digits r (n div r))"

declare digits.simps [simp del]

definition numeral_text :: "u8 \<Rightarrow> nat \<Rightarrow> nat \<Rightarrow> u8 list" where
  "numeral_text c r n = rev (map (\<lambda>d. digit_char c (of_nat d)) (digits r n))"

definition integer_text :: "u8 \<Rightarrow> nat \<Rightarrow> u32 \<Rightarrow> u8 list" where
  "integer_text c r v =
     (if c = CH_d \<and> sint v < 0 then CH_MINUS # numeral_text c r (nat (- sint v)) else numeral_text c r (unat v))"

text \<open>A text in a field of at least \<open>w\<close> characters.\<close>

definition field :: "bool \<Rightarrow> u8 \<Rightarrow> nat \<Rightarrow> u8 list \<Rightarrow> u8 list" where
  "field left pad w body =
     (if left then body @ replicate (w - length body) CH_SPACE else replicate (w - length body) pad @ body)"

text \<open>The value of a row of decimal digits, as the code computes it on 32 bits.\<close>

definition number :: "u8 list \<Rightarrow> u32" where
  "number cs = foldl (\<lambda>n c. n * 10 + ucast c - ucast CH_0) 0 cs"

definition spec_flag :: "u8 list \<Rightarrow> bool \<times> u8 \<times> u8 list" where
  "spec_flag cs = (case cs of
       [] \<Rightarrow> (False, CH_SPACE, [])
     | c # r \<Rightarrow> if c = CH_0 then (False, CH_0, r) else if c = CH_MINUS then (True, CH_SPACE, r) else (False, CH_SPACE, cs))"

definition spec_width :: "'d arg list \<Rightarrow> bool \<Rightarrow> u8 list \<Rightarrow> (bool \<times> u32 \<times> u8 list \<times> 'd arg list) option" where
  "spec_width arp left cs =
     (if cs \<noteq> [] \<and> hd cs = CH_STAR then
        (case arp of
           Word n # arp \<Rightarrow> Some (left \<or> negative n, if negative n then - n else n, tl cs, arp)
         | _ \<Rightarrow> None)
      else Some (left, number (takeWhile is_digit cs), dropWhile is_digit cs, arp))"

definition spec_prec :: "'d arg list \<Rightarrow> u8 list \<Rightarrow> (u32 \<times> u8 list \<times> 'd arg list) option" where
  "spec_prec arp cs =
     (if cs \<noteq> [] \<and> hd cs = CH_DOT then
        (if tl cs \<noteq> [] \<and> hd (tl cs) = CH_STAR then
           (case arp of Word n # arp \<Rightarrow> Some (n, tl (tl cs), arp) | _ \<Rightarrow> None)
         else Some (number (takeWhile is_digit (tl cs)), dropWhile is_digit (tl cs), arp))
      else Some (-1, cs, arp))"

definition spec_size :: "u8 list \<Rightarrow> u8 list" where
  "spec_size cs = (if cs \<noteq> [] \<and> hd cs = CH_l then tl cs else cs)"

text \<open>
  The text of a conversion; \<open>strs\<close> gives the strings in memory. Conversions of real numbers are left out,
  and a missing argument has no meaning.
\<close>

definition spec_convert :: "(u32 \<Rightarrow> u8 list option) \<Rightarrow> u8 \<Rightarrow> bool \<Rightarrow> u8 \<Rightarrow> u32 \<Rightarrow> u32 \<Rightarrow> 'd arg list \<Rightarrow> (u8 list \<times> 'd arg list) option" where
  "spec_convert strs c left pad w prec arp =
     (if radix c = None \<and> c \<notin> {CH_c, CH_s, CH_f, CH_e, CH_E} then Some ([c], arp)
      else if c \<in> {CH_f, CH_e, CH_E} then None
      else case arp of
          Word v # arp \<Rightarrow>
            (case radix c of
               Some r \<Rightarrow> Some (field left pad (unat w) (integer_text c (unat r) v), arp)
             | None \<Rightarrow>
                 if c = CH_c then Some ([ucast v], arp)
                 else case (if v = 0 then Some [] else strs v) of
                     None \<Rightarrow> None
                   | Some xs \<Rightarrow> Some (field left pad (unat w) (if negative prec then xs else take (unat prec) xs), arp))
        | _ \<Rightarrow> None)"

text \<open>One directive, behind the percent sign: the text, the rest of the format and of the arguments; the format may end within it.\<close>

definition spec_directive :: "(u32 \<Rightarrow> u8 list option) \<Rightarrow> u8 list \<Rightarrow> 'd arg list \<Rightarrow> (u8 list \<times> u8 list \<times> 'd arg list) option" where
  "spec_directive strs cs arp =
     (let (left, pad, cs) = spec_flag cs in
      case spec_width arp left cs of None \<Rightarrow> None | Some (left, w, cs, arp) \<Rightarrow>
      case spec_prec arp cs of None \<Rightarrow> None | Some (prec, cs, arp) \<Rightarrow>
      let cs = spec_size cs in
      if cs = [] then Some ([], [], [])
      else case spec_convert strs (hd cs) left pad w prec arp of None \<Rightarrow> None | Some (out, arp) \<Rightarrow> Some (out, tl cs, arp))"

lemma spec_directive_shorter:
  assumes "spec_directive strs cs arp = Some (out, rest, arp')"
  shows "length rest \<le> length cs"
proof -
  have flag: "length r \<le> length cs" if "spec_flag cs = (l, p, r)" for l p r
    using that by (auto simp: spec_flag_def split: list.splits if_splits)
  have width: "length r \<le> length cs" if "spec_width a l cs = Some (l', w, r, a')" for a :: "'a arg list" and l l' w r a' cs
    using that length_dropWhile_le [of is_digit cs]
    by (auto simp: spec_width_def split: list.splits if_splits arg.splits)
  have prec: "length r \<le> length cs" if "spec_prec a cs = Some (p, r, a')" for a :: "'a arg list" and p r a' cs
    using that length_dropWhile_le [of is_digit "tl cs"]
    by (auto simp: spec_prec_def split: list.splits if_splits arg.splits)
  have sz: "length (spec_size cs) \<le> length cs" for cs by (simp add: spec_size_def)
  from assms show ?thesis
    unfolding spec_directive_def Let_def
    by (auto split: prod.splits option.splits if_splits dest!: flag width prec)
      (metis sz diff_le_self le_trans length_tl)
qed

function format :: "(u32 \<Rightarrow> u8 list option) \<Rightarrow> u8 list \<Rightarrow> 'd arg list \<Rightarrow> u8 list option" where
  "format strs [] arp = Some []"
| "format strs (c # cs) arp =
     (if c \<noteq> CH_PERCENT then map_option (Cons c) (format strs cs arp)
      else case spec_directive strs cs arp of
          None \<Rightarrow> None
        | Some (out, rest, arp) \<Rightarrow> map_option (append out) (format strs rest arp))"
  by pat_completeness auto
termination
  by (relation "measure (\<lambda>(strs, cs, arp). length cs)") (auto dest: spec_directive_shorter)


section \<open>Output to a device\<close>

definition emit :: "nat \<Rightarrow> u8 list \<Rightarrow> xio \<Rightarrow> xio" where
  "emit d cs s = s\<lparr>sent_chars := rev (map (\<lambda>c. (d, ucast c)) cs) @ sent_chars s\<rparr>"

lemma emit_simps [simp]:
  "emit d [] s = s" "emit d ys (emit d xs s) = emit d (xs @ ys) s" "xmem (emit d xs s) = xmem s"
  "xfunc_output (emit d xs s) = xfunc_output s"
  by (simp_all add: emit_def)

lemma wp_put [wp_simps]: "wp (put (Some d) c) Q = (\<lambda>s. Q () (emit d [c] s))"
  by (simp add: put_def xfputc_def wp_simps emit_def)

lemma wp_rd8 [wp_simps]: "wp (rd8 a) Q = (\<lambda>s. Q (xmem s a) s)"
  by (simp add: rd8_def wp_simps)

text \<open>Padding brings the count up to the width.\<close>

lemma wp_pads: "wp (pads (Some d) c w j) Q s \<longleftrightarrow> Q (max j w) (emit d (replicate (unat w - unat j) c) s)"
proof (induction "unat w - unat j" arbitrary: j s)
  case 0
  then have "\<not> j < w" by (simp add: word_less_nat_alt)
  with 0 show ?case
    unfolding pads_def by (subst wp_whileM_unfold) (simp add: wp_simps max_def)
next
  case (Suc k)
  then have lt: "j < w" "unat (j + 1) = unat j + 1"
    using unsigned_less [of w, where ?'a = nat] u32_plus_one_unat [of j] by (simp_all add: word_less_nat_alt)
  have mx: "max (j + 1) w = max j w"
    using lt by (simp add: max_def word_le_nat_alt word_less_nat_alt word_unat_eq_iff)
  have k: "k = unat w - unat (j + 1)" "unat w - unat j = Suc k" using Suc.hyps(2) lt by simp_all
  have "wp (pads (Some d) c w j) Q s \<longleftrightarrow> wp (pads (Some d) c w (j + 1)) Q (emit d [c] s)"
    unfolding pads_def using lt(1) by (subst wp_whileM_unfold) (simp add: wp_simps)
  also have "\<dots> \<longleftrightarrow> Q (max j w) (emit d (replicate (Suc k) c) s)"
    using Suc.hyps(1) [OF k(1)] k(1) by (simp add: mx replicate_append_same)
  finally show ?case by (simp add: k(2))
qed

lemma wp_left_pads:
  "wp (left_pads (Some d) f pad w j) Q s \<longleftrightarrow>
     (if f AND 2 = 0 then Q (max j w) (emit d (replicate (unat w - unat j) pad) s) else Q j s)"
  by (simp add: left_pads_def wp_pads wp_simps)

lemma wp_right_pads:
  "wp (right_pads (Some d) w j) Q s \<longleftrightarrow> Q () (emit d (replicate (unat w - unat j) CH_SPACE) s)"
  by (simp add: right_pads_def wp_simps wp_pads)

text \<open>A text between the pads is a field.\<close>

lemma padded_field:
  fixes f j w :: u32
  assumes "unat j = length body"
  shows "(if f AND 2 = 0 then
      Q (emit d (replicate (unat w - unat j) pad @ body @ replicate (unat w - unat (max j w)) CH_SPACE) s)
    else Q (emit d (body @ replicate (unat w - unat j) CH_SPACE) s))
    \<longleftrightarrow> Q (emit d (field (f AND 2 \<noteq> 0) pad (unat w) body) s)"
  using assms by (simp add: field_def max_def word_le_nat_alt)

section \<open>Integers\<close>

lemma digits_length: "2 \<le> r \<Longrightarrow> n < r ^ k \<Longrightarrow> 0 < k \<Longrightarrow> length (digits r n) \<le> k"
proof (induction r n arbitrary: k rule: digits.induct)
  case (1 r n)
  show ?case
  proof (cases "n < r")
    case False
    then have "k \<noteq> 1" using "1.prems" by auto
    then obtain j where j: "k = Suc j" "0 < j" using "1.prems"(3) by (cases k) auto
    have "n div r < r ^ j" using "1.prems"(1,2) j by (simp add: less_mult_imp_div_less mult.commute)
    with 1 False j show ?thesis by (simp add: digits.simps [of r n])
  qed (use "1.prems" in \<open>simp add: digits.simps [of r n]\<close>)
qed


lemma wp_push: "wp (push c (str, i)) Q s \<longleftrightarrow> i < length str \<and> Q (str[i := c], i + 1) s"
  by (simp add: push_def wp_simps)

text \<open>The loop fills the buffer with the digits.\<close>

lemma wp_digit_loop:
  assumes r: "2 \<le> unat r" and len: "i + length (digits (unat r) (unat uv)) \<le> length str" "length str = SZB_OUTPUT"
    and i: "i = 0 \<or> uv \<noteq> 0"
    and Q: "\<And>str'. length str' = length str \<Longrightarrow>
      take (i + length (digits (unat r) (unat uv))) str'
        = take i str @ map (\<lambda>d. digit_char c (of_nat d)) (digits (unat r) (unat uv)) \<Longrightarrow>
      Q (0, str', i + length (digits (unat r) (unat uv))) s"
  shows "wp (whileM (\<lambda>(uv, str, i). ret (i = 0 \<or> uv \<noteq> 0 \<and> i < SZB_OUTPUT))
     (\<lambda>(uv, str, i). bindM (push (digit_char c (uv mod r)) (str, i)) (\<lambda>(str, i). ret (uv div r, str, i)))
     (uv, str, i)) Q s"
  using len i Q
proof (induction "unat uv" arbitrary: uv str i rule: less_induct)
  case less
  let ?ch = "digit_char c (uv mod r)"
  have mod_r: "uv mod r = of_nat (unat uv mod unat r)" by (metis of_nat_unat ucast_id unat_mod)
  have div_r: "unat (uv div r) = unat uv div unat r" by (simp add: unat_div)
  have guard: "i = 0 \<or> uv \<noteq> 0 \<and> i < SZB_OUTPUT"
    using less.prems(1-3) by (auto simp: digits.simps [of "unat r"])
  have i_len: "i < length str" using less.prems(1) by (simp add: digits.simps [of "unat r"] split: if_splits)
  have "wp (whileM (\<lambda>(uv, str, i). ret (i = 0 \<or> uv \<noteq> 0 \<and> i < SZB_OUTPUT))
     (\<lambda>(uv, str, i). bindM (push (digit_char c (uv mod r)) (str, i)) (\<lambda>(str, i). ret (uv div r, str, i)))
     (uv div r, str[i := ?ch], i + 1)) Q s"
  proof (cases "unat uv < unat r")
    case True
    then have "uv div r = 0" by (simp add: word_unat_eq_iff div_r)
    moreover have "Q (0, str[i := ?ch], i + 1) s"
      using less.prems(4) [of "str[i := ?ch]"] True r i_len mod_r
      by (simp add: digits.simps [of "unat r"] take_Suc_conv_app_nth)
    ultimately show ?thesis by (subst wp_whileM_unfold) (simp add: wp_simps)
  next
    case False
    then have d: "digits (unat r) (unat uv) = unat uv mod unat r # digits (unat r) (unat (uv div r))"
      using r by (simp add: digits.simps [of "unat r" "unat uv"] div_r)
    have pos: "unat uv \<noteq> 0" using False r by simp
    show ?thesis
    proof (rule less.hyps)
      show "unat (uv div r) < unat uv" using r pos by (simp add: div_r)
      show "i + 1 + length (digits (unat r) (unat (uv div r))) \<le> length (str[i := ?ch])" using less.prems(1) d by simp
      show "length (str[i := ?ch]) = SZB_OUTPUT" using less.prems(2) by simp
      show "i + 1 = 0 \<or> uv div r \<noteq> 0" using False r by (simp add: word_unat_eq_iff div_r div_eq_0_iff)
      show "Q (0, str', i + 1 + length (digits (unat r) (unat (uv div r)))) s"
        if "length str' = length (str[i := ?ch])"
          "take (i + 1 + length (digits (unat r) (unat (uv div r)))) str' = take (i + 1) (str[i := ?ch]) @
             map (\<lambda>d. digit_char c (of_nat d)) (digits (unat r) (unat (uv div r)))" for str'
        using less.prems(4) [of str'] that d i_len mod_r by (simp add: take_Suc_conv_app_nth)
    qed
  qed
  then show ?case
    using guard i_len by (subst wp_whileM_unfold) (simp add: wp_simps wp_push)
qed

lemma wp_make_digits:
  assumes r: "2 \<le> unat r" and len: "length str = SZB_OUTPUT"
    and Q: "\<And>str'. length str' = SZB_OUTPUT \<Longrightarrow> length (digits (unat r) (unat v)) \<le> SZB_OUTPUT \<Longrightarrow>
      take (length (digits (unat r) (unat v))) str' = map (\<lambda>d. digit_char c (of_nat d)) (digits (unat r) (unat v)) \<Longrightarrow>
      Q (str', length (digits (unat r) (unat v))) s"
  shows "wp (make_digits c r v str) Q s"
proof -
  have "unat v < 2 ^ 32" using unsigned_less [of v, where ?'a = nat] by simp
  also have "\<dots> \<le> unat r ^ 32" using r by (rule power_mono) simp
  finally have "length (digits (unat r) (unat v)) \<le> 32" by (intro digits_length [OF r]) simp_all
  then show ?thesis
    unfolding make_digits_def wp_bindM using len Q
    by (intro wp_digit_loop [OF r]) (simp_all add: wp_simps)
qed

lemma wp_put_reversed:
  "i \<le> length str \<Longrightarrow> wp (put_reversed (Some d) str i) Q s \<longleftrightarrow> Q () (emit d (rev (take i str)) s)"
  unfolding put_reversed_def wp_bindM
proof (induction i arbitrary: s)
  case 0
  show ?case by (subst wp_whileM_unfold) (simp add: wp_simps)
next
  case (Suc i)
  then show ?case
    by (subst wp_whileM_unfold) (simp add: wp_simps take_Suc_conv_app_nth)
qed


text \<open>Signed values: the test of the sign and the negation.\<close>

lemma uint_top: "bit (uint (v :: u32)) 31 \<longleftrightarrow> 0x80000000 \<le> v"
proof (cases "0x80000000 \<le> uint v")
  case True
  have "uint v div 0x80000000 = 1"
    by (rule int_div_pos_eq [where r = "uint v - 0x80000000"]) (use True uint_lt2p [of v] in simp_all)
  with True show ?thesis by (simp add: bit_iff_odd word_le_def)
next
  case False
  then show ?thesis by (simp add: bit_iff_odd word_le_def)
qed

lemma negative_sint: "negative v \<longleftrightarrow> sint v < 0"
  by (simp add: negative_def sint_uint signed_take_bit_def uint_top)

lemma sint_negative: "negative v \<Longrightarrow> sint v = uint v - 2 ^ 32"
  using uint_lt2p [of v]
  by (simp add: negative_def sint_uint signed_take_bit_eq_take_bit_minus uint_top take_bit_int_eq_self)

lemma sint_positive: "\<not> negative v \<Longrightarrow> sint v = uint v"
  using uint_lt2p [of v]
  by (simp add: negative_def sint_uint signed_take_bit_eq_take_bit_minus uint_top take_bit_int_eq_self)

lemma unat_negated: "negative v \<Longrightarrow> unat (0 - v) = nat (- sint v)"
proof -
  assume a: "negative v"
  then have "uint v \<noteq> 0" by (auto simp: negative_def word_le_def)
  moreover have "uint v mod 4294967296 = uint v" using uint_lt2p [of v] by simp
  ultimately show ?thesis
    using a by (simp add: sint_negative uint_word_ariths unat_eq_nat_uint zmod_zminus1_eq_if)
qed

lemma unat_negated_le: "negative v \<Longrightarrow> unat (0 - v) \<le> 2 ^ 31"
  using sint_negative [of v] unat_negated [of v] by (simp add: negative_def word_le_def)

text \<open>A conversion of an integer prints its field.\<close>

lemma wp_put_integer:
  assumes r: "radix c = Some r" and len: "length str = SZB_OUTPUT"
    and Q: "Q () (emit d (field (f AND 2 \<noteq> 0) pad (unat w) (integer_text c (unat r) v)) s)"
  shows "wp (put_integer (Some d) c r f pad w v str) Q s"
proof -
  define neg where "neg \<longleftrightarrow> c = CH_d \<and> negative v"
  let ?v = "if neg then 0 - v else v"
  let ?ds = "digits (unat r) (unat ?v)"
  let ?t = "map (\<lambda>d. digit_char c (of_nat d)) ?ds"
  have r2: "2 \<le> unat r" using r by (auto simp: radix_def split: if_splits)
  have short: "length ?ds < SZB_OUTPUT" if neg
  proof -
    have "unat ?v < 10 ^ 10" using unat_negated_le [of v] that by (simp add: neg_def)
    moreover have "unat r = 10" using r that by (simp add: radix_def neg_def)
    ultimately show ?thesis using digits_length [of 10 "unat ?v" 10] by simp
  qed
  have body: "integer_text c (unat r) v = rev (?t @ (if neg then [CH_MINUS] else []))"
    by (simp add: neg_def integer_text_def numeral_text_def negative_sint [symmetric] unat_negated [simplified])
  have out: "wp (left_pads (Some d) f pad w (of_nat i)) (\<lambda>j. wp (put_reversed (Some d) str' i) (\<lambda>_.
      wp (right_pads (Some d) w j) Q)) s"
    if i: "i \<le> length str'" "length str' = SZB_OUTPUT" "rev (take i str') = integer_text c (unat r) v" for str' i
  proof -
    have "unat (of_nat i :: u32) = length (integer_text c (unat r) v)"
      using i unat_word_of_nat [of i, where ?'a = 32] by (simp flip: i(3))
    from padded_field [OF this, where Q = "Q ()" and f = f and d = d and w = w and pad = pad and s = s] Q show ?thesis
      using i by (simp add: wp_left_pads wp_put_reversed wp_right_pads split: if_splits)
  qed
  show ?thesis
    unfolding put_integer_def Let_def wp_bindM neg_def [symmetric]
  proof (rule wp_make_digits [OF r2 len], goal_cases)
    case (1 str')
    show ?case
    proof (cases neg)
      case True
      have "take (Suc (length ?ds)) (str'[length ?ds := CH_MINUS]) = ?t @ [CH_MINUS]"
        using 1 short [OF True] by (simp add: take_Suc_conv_app_nth)
      with 1 True short [OF True] body show ?thesis
        by (simp add: wp_push wp_bindM del: of_nat_Suc) (intro out; simp)
    next
      case False
      with 1 body show ?thesis by (simp add: wp_ret wp_bindM) (intro out; simp)
    qed
  qed
qed


section \<open>Strings\<close>

text \<open>A zero-terminated string in memory.\<close>

fun str_at :: "(u32 \<Rightarrow> u8) \<Rightarrow> u32 \<Rightarrow> u8 list \<Rightarrow> bool" where
  "str_at m p [] \<longleftrightarrow> m p = 0"
| "str_at m p (c # cs) \<longleftrightarrow> c \<noteq> 0 \<and> m p = c \<and> str_at m (p + 1) cs"

lemma wp_strlen_loop:
  "str_at (xmem s) (p + n) cs \<Longrightarrow>
     wp (whileM (\<lambda>n. bindM (rd8 (p + n)) (\<lambda>c. ret (c \<noteq> 0))) (\<lambda>n. ret (n + 1)) n) Q s \<longleftrightarrow> Q (n + of_nat (length cs)) s"
proof (induction cs arbitrary: n)
  case Nil
  then show ?case by (subst wp_whileM_unfold) (simp add: wp_simps)
next
  case (Cons c cs)
  then have "str_at (xmem s) (p + (n + 1)) cs" by (simp add: add.assoc)
  from Cons.IH [OF this] Cons.prems show ?case
    by (subst wp_whileM_unfold) (simp add: wp_simps add.assoc)
qed

lemma wp_strlen: "str_at (xmem s) p cs \<Longrightarrow> wp (strlen p) Q s \<longleftrightarrow> Q (of_nat (length cs)) s"
  unfolding strlen_def using wp_strlen_loop [of s p 0 cs] by simp

lemma wp_string_body:
  assumes "str_at (xmem s) p cs"
  shows "wp (whileM (\<lambda>(p, prec). bindM (rd8 p) (\<lambda>c. ret (c \<noteq> 0 \<and> prec \<noteq> 0)))
      (\<lambda>(p, prec). bindM (rd8 p) (\<lambda>c. bindM (put (Some d) c) (\<lambda>_. ret (p + 1, prec - 1)))) (p, prec))
      (\<lambda>_. Q) s \<longleftrightarrow> Q (emit d (take (unat prec) cs) s)"
  using assms
proof (induction cs arbitrary: p prec s)
  case Nil
  then show ?case by (subst wp_whileM_unfold) (simp add: wp_simps)
next
  case (Cons c cs)
  show ?case
  proof (cases "prec = 0")
    case True
    then show ?thesis by (subst wp_whileM_unfold) (simp add: wp_simps)
  next
    case False
    then have "unat prec = Suc (unat (prec - 1))" by (simp add: unat_minus_one word_unat_eq_iff)
    with False Cons show ?thesis
      by (subst wp_whileM_unfold) (simp add: wp_simps)
  qed
qed

lemma wp_put_string:
  assumes str: "p \<noteq> 0 \<Longrightarrow> str_at (xmem s) p cs" "p = 0 \<Longrightarrow> cs = []" and len: "length cs < 2 ^ 31"
    and Q: "Q () (emit d (field (f AND 2 \<noteq> 0) pad (unat w) (if negative prec then cs else take (unat prec) cs)) s)"
  shows "wp (put_string (Some d) f pad w prec p) Q s"
proof -
  let ?n = "of_nat (length cs) :: u32"
  define body where "body = (if negative prec then cs else take (unat prec) cs)"
  define j where "j = (if \<not> negative prec \<and> ?n > prec then prec else ?n)"
  define L where "L = (if p = 0 then ret () else
       bindM (whileM (\<lambda>(p, prec). bindM (rd8 p) (\<lambda>c. ret (c \<noteq> 0 \<and> prec \<noteq> 0)))
         (\<lambda>(p, prec). bindM (rd8 p) (\<lambda>c. bindM (put (Some d) c) (\<lambda>_. ret (p + 1, prec - 1)))) (p, prec)) (\<lambda>_. ret ()))"
  have n: "unat ?n = length cs" using len by (intro unat_word_of_nat) simp
  then have j: "unat j = length body" by (auto simp: j_def body_def word_less_nat_alt min_def)
  have "take (unat prec) cs = body" using len by (auto simp: body_def negative_def word_le_nat_alt)
  then have loop: "wp L (\<lambda>_. R) (emit d xs s) \<longleftrightarrow> R (emit d (xs @ body) s)" for R xs
    using str wp_string_body [of "emit d xs s" p cs d prec R] by (auto simp: wp_simps L_def)
  have count: "wp (if p = 0 then ret 0 else strlen p) R s \<longleftrightarrow> R ?n s" for R
    using str wp_strlen [of s p cs] by (auto simp: wp_simps)
  from padded_field [OF j, where Q = "Q ()" and f = f and d = d and w = w and pad = pad and s = s] Q show ?thesis
    unfolding put_string_def Let_def wp_bindM count wp_left_pads L_def [symmetric] j_def [symmetric] body_def [symmetric]
    using loop [of _ "[]"] by (auto simp: loop wp_right_pads split: if_splits)
qed


section \<open>Formats\<close>

text \<open>The scanner has read the character \<open>c\<close> of the format and points behind it; \<open>cs\<close> is left, with \<open>c\<close>.\<close>

definition scanning :: "(u32 \<Rightarrow> u8) \<Rightarrow> u8 \<Rightarrow> u32 \<Rightarrow> u8 list \<Rightarrow> bool" where
  "scanning m c p cs \<longleftrightarrow> c = m (p - 1) \<and> str_at m (p - 1) cs"

lemma scanning_next: "str_at m p cs \<Longrightarrow> scanning m (m p) (p + 1) cs"
  by (simp add: scanning_def)

lemma scanning_Nil: "scanning m c p [] \<Longrightarrow> c = 0"
  by (simp add: scanning_def)

lemma scanning_Cons: "scanning m c p (x # cs) \<Longrightarrow> c = x \<and> x \<noteq> 0 \<and> str_at m p cs"
  by (simp add: scanning_def)

lemma scanning_hd: "scanning m c p cs \<Longrightarrow> k \<noteq> 0 \<Longrightarrow> c = k \<longleftrightarrow> cs \<noteq> [] \<and> hd cs = k"
  by (cases cs) (auto dest: scanning_Nil scanning_Cons)

lemma scanning_tl: "scanning m c p cs \<Longrightarrow> cs \<noteq> [] \<Longrightarrow> scanning m (m p) (p + 1) (tl cs) \<and> str_at m p (tl cs)"
  by (cases cs) (auto dest: scanning_Cons intro: scanning_next)

lemma wp_number_loop:
  assumes "scanning (xmem s) c p cs"
    and "\<And>c' p'. scanning (xmem s) c' p' (dropWhile is_digit cs) \<Longrightarrow>
      Q (foldl (\<lambda>n c. n * 10 + ucast c - ucast CH_0) n (takeWhile is_digit cs), c', p') s"
  shows "wp (whileM (\<lambda>(n, c, fmt). ret (is_digit c))
       (\<lambda>(n, c, fmt). bindM (rd8 fmt) (\<lambda>c'. ret (n * 10 + ucast c - ucast CH_0, c', fmt + 1))) (n, c, p)) Q s"
  using assms
proof (induction cs arbitrary: n c p)
  case Nil
  then have "\<not> is_digit c" by (auto dest!: scanning_Nil simp: is_digit_def)
  with Nil show ?case by (subst wp_whileM_unfold) (simp add: wp_simps)
next
  case (Cons x cs)
  note x = scanning_Cons [OF Cons.prems(1)]
  show ?case
  proof (cases "is_digit x")
    case True
    have "wp (whileM (\<lambda>(n, c, fmt). ret (is_digit c))
       (\<lambda>(n, c, fmt). bindM (rd8 fmt) (\<lambda>c'. ret (n * 10 + ucast c - ucast CH_0, c', fmt + 1)))
         (n * 10 + ucast c - ucast CH_0, xmem s p, p + 1)) Q s"
      by (rule Cons.IH) (use x True Cons.prems in \<open>auto intro: scanning_next\<close>)
    with x True show ?thesis by (subst wp_whileM_unfold) (simp add: wp_simps)
  next
    case False
    with x Cons.prems show ?thesis by (subst wp_whileM_unfold) (simp add: wp_simps)
  qed
qed

lemma wp_get_number:
  assumes "scanning (xmem s) c p cs"
    and "\<And>c' p'. scanning (xmem s) c' p' (dropWhile is_digit cs) \<Longrightarrow> Q (number (takeWhile is_digit cs), c', p') s"
  shows "wp (get_number c p) Q s"
  unfolding get_number_def by (rule wp_number_loop [OF assms(1)]) (use assms(2) in \<open>simp add: number_def\<close>)

lemma wp_get_flag:
  assumes "str_at (xmem s) p cs" "spec_flag cs = (left, pad, cs')"
    and Q: "\<And>f c p'. (f AND 2 \<noteq> 0) = left \<Longrightarrow> scanning (xmem s) c p' cs' \<Longrightarrow> Q (f, pad, c, p') s"
  shows "wp (get_flag p) Q s"
proof -
  note c = scanning_next [OF assms(1)]
  show ?thesis
  proof (cases cs)
    case Nil
    then have "\<not> xmem s p = CH_0" "\<not> xmem s p = CH_MINUS" using assms(1) by simp_all
    with Nil show ?thesis
      using assms(2) c Q by (simp add: get_flag_def wp_simps spec_flag_def)
  next
    case (Cons x r)
    with assms(1) have x: "xmem s p = x" "str_at (xmem s) (p + 1) r" by simp_all
    from scanning_next [OF x(2)] have r: "scanning (xmem s) (xmem s (p + 1)) (p + 2) r" by (simp add: add.assoc)
    show ?thesis
      using Cons assms(2) x c r Q
      by (auto simp: get_flag_def wp_simps spec_flag_def split: if_splits)
  qed
qed

lemma wp_get_width:
  assumes c: "scanning (xmem s) c p cs" and f: "(f AND 2 \<noteq> 0) = left"
    and spec: "spec_width arp left cs = Some (left', w, cs', arp')"
    and Q: "\<And>f c p'. (f AND 2 \<noteq> 0) = left' \<Longrightarrow> scanning (xmem s) c p' cs' \<Longrightarrow> Q (f, w, c, p', arp') s"
  shows "wp (get_width arp f c p) Q s"
proof (cases "cs \<noteq> [] \<and> hd cs = CH_STAR")
  case True
  then obtain n as where arp: "arp = Word n # as"
    using spec by (auto simp: spec_width_def split: list.splits arg.splits)
  show ?thesis
    using True scanning_hd [OF c, of CH_STAR] scanning_tl [OF c] spec f Q
    by (auto simp: get_width_def arg_word_def wp_simps spec_width_def arp)
next
  case False
  then have "c \<noteq> CH_STAR" using scanning_hd [OF c, of CH_STAR] by simp
  moreover from False spec have "left' = left" "w = number (takeWhile is_digit cs)" "cs' = dropWhile is_digit cs" "arp' = arp"
    by (auto simp: spec_width_def)
  ultimately show ?thesis
    using f Q by (simp add: get_width_def wp_bindM) (rule wp_get_number [OF c]; simp add: wp_simps)
qed

lemma wp_get_prec:
  assumes c: "scanning (xmem s) c p cs" and spec: "spec_prec arp cs = Some (prec, cs', arp')"
    and Q: "\<And>c p'. scanning (xmem s) c p' cs' \<Longrightarrow> Q (prec, c, p', arp') s"
  shows "wp (get_prec arp c p) Q s"
proof (cases "cs \<noteq> [] \<and> hd cs = CH_DOT")
  case dot: True
  then have c': "scanning (xmem s) (xmem s p) (p + 1) (tl cs)" using scanning_tl [OF c] by simp
  have cd: "c = CH_DOT" using dot scanning_hd [OF c, of CH_DOT] by simp
  show ?thesis
  proof (cases "tl cs \<noteq> [] \<and> hd (tl cs) = CH_STAR")
    case True
    then obtain n as where arp: "arp = Word n # as"
      using spec dot by (auto simp: spec_prec_def split: list.splits arg.splits)
    show ?thesis
      using True dot scanning_hd [OF c', of CH_STAR] scanning_tl [OF c'] spec
      by (auto simp: get_prec_def arg_word_def wp_simps spec_prec_def arp cd add.assoc intro!: Q)
  next
    case False
    then have "xmem s p \<noteq> CH_STAR" using scanning_hd [OF c', of CH_STAR] by simp
    moreover from False spec dot have "prec = number (takeWhile is_digit (tl cs))"
      "cs' = dropWhile is_digit (tl cs)" "arp' = arp" by (auto simp: spec_prec_def)
    ultimately show ?thesis
      using cd Q by (simp add: get_prec_def wp_simps) (rule wp_get_number [OF c']; simp add: wp_simps)
  qed
next
  case False
  then have "c \<noteq> CH_DOT" using scanning_hd [OF c, of CH_DOT] by simp
  with False spec c show ?thesis by (simp add: get_prec_def wp_simps spec_prec_def Q split: if_splits)
qed

lemma wp_get_size:
  assumes c: "scanning (xmem s) c p cs"
    and Q: "\<And>f' c p'. (f' AND 2 \<noteq> 0) = (f AND 2 \<noteq> 0) \<Longrightarrow> scanning (xmem s) c p' (spec_size cs) \<Longrightarrow> Q (f', c, p') s"
  shows "wp (get_size f c p) Q s"
proof -
  have "(f OR 4) AND 2 = f AND 2" by (rule bit_eqI) (auto simp: bit_simps)
  then show ?thesis
    using scanning_hd [OF c, of CH_l] scanning_tl [OF c] c
    by (auto simp: get_size_def wp_simps spec_size_def intro!: Q)
qed


definition strings_at :: "(u32 \<Rightarrow> u8) \<Rightarrow> (u32 \<Rightarrow> u8 list option) \<Rightarrow> bool" where
  "strings_at m strs \<longleftrightarrow> (\<forall>p xs. strs p = Some xs \<longrightarrow> str_at m p xs \<and> length xs < 2 ^ 31)"

lemma radix_chars: "radix c = Some r \<Longrightarrow> c \<notin> {CH_c, CH_s, CH_f, CH_e, CH_E}"
  by (auto simp: radix_def split: if_splits)

lemma wp_convert:
  assumes strs: "strings_at (xmem s) strs" and f: "(f AND 2 \<noteq> 0) = left"
    and spec: "spec_convert strs c left pad w prec arp = Some (out, arp')"
    and Q: "Q arp' (emit d out s)"
  shows "wp (convert F (Some d) (replicate SZB_OUTPUT 0) c f pad w prec arp) Q s"
proof (cases "radix c = None \<and> c \<notin> {CH_c, CH_s, CH_f, CH_e, CH_E}")
  case True
  with spec Q show ?thesis by (simp add: convert_def spec_convert_def wp_simps)
next
  case False
  with spec obtain v as where arp: "arp = Word v # as" and nf: "c \<notin> {CH_f, CH_e, CH_E}"
    by (auto simp: spec_convert_def split: if_splits list.splits arg.splits)
  show ?thesis
  proof (cases "radix c")
    case (Some r)
    then have "arp' = as" "out = field left pad (unat w) (integer_text c (unat r) v)"
      using spec False radix_chars [OF Some] by (simp_all add: spec_convert_def arp)
    then show ?thesis
      using Q f by (simp add: convert_def Some arp arg_word_def wp_simps) (rule wp_put_integer [OF Some]; simp)
  next
    case None
    with False nf consider "c = CH_c" | "c = CH_s" by auto
    then show ?thesis
    proof cases
      case 1
      then show ?thesis using spec None Q by (simp add: convert_def arp arg_word_def wp_simps spec_convert_def)
    next
      case 2
      then obtain xs where xs: "(if v = 0 then Some [] else strs v) = Some xs" "arp' = as"
        "out = field left pad (unat w) (if negative prec then xs else take (unat prec) xs)"
        using spec None by (auto simp: spec_convert_def arp radix_def split: option.splits)
      have "v \<noteq> 0 \<Longrightarrow> str_at (xmem s) v xs" "v = 0 \<Longrightarrow> xs = []" "length xs < 2 ^ 31"
        using xs(1) strs by (auto simp: strings_at_def split: if_splits)
      with 2 None xs Q f show ?thesis
        by (simp add: convert_def arp arg_word_def wp_simps) (rule wp_put_string [where cs = xs]; simp)
    qed
  qed
qed

lemma wp_directive:
  assumes strs: "strings_at (xmem s) strs" and fmt: "str_at (xmem s) fmt (CH_PERCENT # cs)"
    and spec: "spec_directive strs cs arp = Some (out, rest, arp')"
    and Q: "rest = [] \<Longrightarrow> out = [] \<Longrightarrow> Q None s"
      "\<And>p. str_at (xmem s) p rest \<Longrightarrow> Q (Some (p, arp')) (emit d out s)"
  shows "wp (format_step F (Some d) fmt arp) Q s"
proof -
  obtain left pad cs1 where flag: "spec_flag cs = (left, pad, cs1)" by (cases "spec_flag cs") auto
  obtain left' w cs2 arp2 where width: "spec_width arp left cs1 = Some (left', w, cs2, arp2)"
    using spec flag by (auto simp: spec_directive_def split: option.splits)
  obtain prec cs3 arp3 where prec: "spec_prec arp2 cs2 = Some (prec, cs3, arp3)"
    using spec flag width by (auto simp: spec_directive_def split: option.splits)
  have conv: "wp (if c = 0 then ret None
       else bindM (convert F (Some d) (replicate SZB_OUTPUT 0) c f pad w prec arp3) (\<lambda>arp. ret (Some (p, arp)))) Q s"
    if f: "(f AND 2 \<noteq> 0) = left'" and c: "scanning (xmem s) c p (spec_size cs3)" for f c p
  proof (cases "spec_size cs3")
    case Nil
    with spec flag width prec c show ?thesis
      by (auto simp: spec_directive_def wp_simps dest: scanning_Nil intro!: Q)
  next
    case (Cons x r)
    with spec flag width prec have "spec_convert strs x left' pad w prec arp3 = Some (out, arp')" "rest = r"
      by (auto simp: spec_directive_def split: option.splits)
    with Cons c f show ?thesis
      using scanning_Cons [of "xmem s" c p x r] by (auto simp: wp_simps intro!: wp_convert [OF strs] Q)
  qed
  have start: "xmem s fmt = CH_PERCENT" "str_at (xmem s) (fmt + 1) cs" using fmt by auto
  show ?thesis
    unfolding format_step_def wp_bindM wp_rd8 start(1)
    apply (simp add: wp_bindM del: One_nat_def)
    apply (rule wp_get_flag [OF start(2) flag])
    apply (simp add: wp_bindM)
    apply (rule wp_get_width [OF _ _ width], assumption, assumption)
    apply (simp add: wp_bindM)
    apply (rule wp_get_prec [OF _ prec], assumption)
    apply (simp add: wp_bindM)
    apply (rule wp_get_size, assumption)
    using conv by simp
qed

lemma wp_xvfprintf:
  assumes "format strs cs arp = Some out" "strings_at (xmem s) strs" "str_at (xmem s) fmt cs"
  shows "wp (xvfprintf F (Some d) fmt arp) (\<lambda>_ t. t = emit d out s) s"
proof -
  define loop where "loop = whileM (\<lambda>st. ret (st \<noteq> None))
       (\<lambda>st. case st of None \<Rightarrow> ret None | Some (fmt, arp) \<Rightarrow> format_step F (Some d) fmt arp)"
  have fin: "wp (loop None) Q s \<longleftrightarrow> Q None s" for Q s
    unfolding loop_def by (subst wp_whileM_unfold) (simp add: wp_simps)
  have more: "wp (loop (Some (fmt, arp))) Q s \<longleftrightarrow> wp (format_step F (Some d) fmt arp) (\<lambda>st. wp (loop st) Q) s"
    for Q s fmt and arp :: "'a arg list"
    unfolding loop_def by (subst wp_whileM_unfold) (simp add: wp_simps)
  have "wp (loop (Some (fmt, arp))) (\<lambda>_ t. t = emit d out s) s"
    using assms
  proof (induction strs cs arp arbitrary: out s fmt rule: format.induct)
    case (1 strs arp)
    then show ?case by (simp add: more format_step_def wp_simps fin)
  next
    case (2 strs c cs arp)
    show ?case
    proof (cases "c = CH_PERCENT")
      case False
      with "2.prems" obtain out' where out': "format strs cs arp = Some out'" "out = c # out'" by auto
      have "wp (loop (Some (fmt + 1, arp))) (\<lambda>_ t. t = emit d out' (emit d [c] s)) (emit d [c] s)"
        by (rule "2.IH"(1) [OF False]) (use "2.prems" out' in simp_all)
      with False "2.prems"(3) out' show ?thesis by (simp add: more format_step_def wp_simps)
    next
      case True
      with "2.prems"(1) obtain o1 rest arp' o2 where d: "spec_directive strs cs arp = Some (o1, rest, arp')"
        and o2: "format strs rest arp' = Some o2" "out = o1 @ o2" by (auto split: option.splits)
      have "str_at (xmem s) fmt (CH_PERCENT # cs)" using "2.prems"(3) True by simp
      then show ?thesis
        unfolding more
      proof (rule wp_directive [OF "2.prems"(2) _ d])
        show "wp (loop None) (\<lambda>_ t. t = emit d out s) s" if "rest = []" "o1 = []"
          using that o2 by (simp add: fin)
        show "wp (loop (Some (p, arp'))) (\<lambda>_ t. t = emit d out s) (emit d o1 s)" if "str_at (xmem s) p rest" for p
          using "2.IH"(2) [OF _ d refl refl o2(1), of "emit d o1 s" p] True "2.prems"(2) that o2(2) by simp
      qed
    qed
  qed
  then show ?thesis unfolding xvfprintf_def loop_def [symmetric] by (simp add: wp_simps)
qed


text \<open>
  C24: formatted output is what the specification \<open>format\<close> says. For every zero-terminated format and
  every list of arguments with a meaning (enough of them, strings that are there, no conversion of a
  real number), \<open>xprintf\<close> ends, without leaving its buffer \<open>str\<close>, and has sent exactly the characters of \<open>format\<close>
  to the default output function: the plain characters in order, and for every directive the text of its argument in a field of the
  given width and justification. Nothing else changes.
\<close>

theorem xprintf_prints_format:
  assumes "str_at (xmem s) fmt cs" "strings_at (xmem s) strs" "format strs cs arp = Some out" "xfunc_output s = Some d"
  shows "wp (xprintf F fmt arp) (\<lambda>_ t. t = s\<lparr>sent_chars := rev (map (\<lambda>c. (d, ucast c)) out) @ sent_chars s\<rparr>) s"
  using wp_xvfprintf [OF assms(3,2,1), of F d] assms(4) by (simp add: xprintf_def wp_simps emit_def)

text \<open>A console with the format \<open>"%4d,%-3s|"\<close> at address 16 and the string \<open>"ab"\<close> at address 32.\<close>

definition poke :: "u32 \<Rightarrow> u8 list \<Rightarrow> (u32 \<Rightarrow> u8) \<Rightarrow> (u32 \<Rightarrow> u8)" where
  "poke p xs m = (\<lambda>a. if unat (a - p) < length xs then xs ! unat (a - p) else m a)"

definition demo_console :: xio where
  "demo_console = \<lparr>xmem = poke 16 [37, 52, 100, 44, 37, 45, 51, 115, 124] (poke 32 [97, 98] (\<lambda>_. 0)), strptr = 0,
     xfunc_output = Some 1, sent_chars = [], xfunc_input = True, nread = 0\<rparr>"

definition int_fp :: "int fp" where
  "int_fp = \<lparr>f_int = (\<lambda>n. n), f_tiny = 0, f_add = (+), f_sub = (-), f_mul = (*), f_div = (div), f_neg = uminus,
     f_less = (<), f_le = (\<le>), f_eq = (=), f_trunc = (\<lambda>n. n), f_isnan = (\<lambda>_. False), f_isinf = (\<lambda>_. False)\<rparr>"

theorem xprintf_prints_format_witness:
  "\<exists>t. xprintf int_fp 16 [Word (-5), Word 32] demo_console = Some (Inr ((), t)) \<and>
     map snd (rev (sent_chars t)) = [32, 32, 45, 53, 44, 97, 98, 32, 124]"
proof -
  let ?cs = "[37, 52, 100, 44, 37, 45, 51, 115, 124] :: u8 list" and ?strs = "[32 \<mapsto> [97, 98]] :: u32 \<Rightarrow> u8 list option"
  have "str_at (xmem demo_console) 16 ?cs" "strings_at (xmem demo_console) ?strs"
    by (simp_all add: demo_console_def poke_def strings_at_def)
  moreover have "format ?strs ?cs [Word (-5), Word 32 :: int arg] = Some [32, 32, 45, 53, 44, 97, 98, 32, 124]"
    by code_simp
  moreover have "xfunc_output demo_console = Some 1" "sent_chars demo_console = []" by (simp_all add: demo_console_def)
  ultimately show ?thesis
    using xprintf_prints_format [of demo_console 16 ?cs ?strs "[Word (-5), Word 32]" _ 1 int_fp]
    by (auto simp: wp_def)
qed

section \<open>Reading numbers\<close>

fun holds :: "(u32 \<Rightarrow> u8) \<Rightarrow> u32 \<Rightarrow> u8 list \<Rightarrow> bool" where
  "holds m p [] \<longleftrightarrow> True"
| "holds m p (c # cs) \<longleftrightarrow> m p = c \<and> holds m (p + 1) cs"

lemma wp_digits_loop:
  assumes "holds (xmem s) p (cs @ [t])" "t \<le> CH_SPACE" "\<forall>c \<in> set cs. c > CH_SPACE"
    "map digit_value cs = map Some ds" "\<forall>d \<in> set ds. d < r"
  shows "wp (whileM (\<lambda>(val, p). bindM (rd8 p) (\<lambda>c. ret (val \<noteq> None \<and> c > CH_SPACE)))
       (\<lambda>(val, p). bindM (rd8 p) (\<lambda>c. ret (case (val, digit_value c) of
            (Some v, Some d) \<Rightarrow> if d \<ge> r then (None, p) else (Some (v * ucast r + ucast d), p + 1)
          | _ \<Rightarrow> (None, p)))) (Some v, p)) Q s
     \<longleftrightarrow> Q (Some (foldl (\<lambda>v d. v * ucast r + ucast d) v ds), p + of_nat (length cs)) s"
  using assms
proof (induction cs arbitrary: p v ds)
  case Nil
  then show ?case by (subst wp_whileM_unfold) (auto simp: wp_simps not_less)
next
  case (Cons c cs)
  then obtain d ds' where ds: "ds = d # ds'" "digit_value c = Some d" "map digit_value cs = map Some ds'" by auto
  have "\<not> r \<le> d" using Cons.prems(5) ds(1) by auto
  then show ?case
    by (subst wp_whileM_unfold) (use Cons ds in \<open>simp add: wp_simps add.assoc\<close>)
qed

lemma wp_get_digits:
  assumes "holds (xmem s) p (cs @ [t])" "t \<le> CH_SPACE" "\<forall>c \<in> set cs. c > CH_SPACE"
    "map digit_value cs = map Some ds" "\<forall>d \<in> set ds. d < r"
  shows "wp (get_digits r p) Q s \<longleftrightarrow> Q (Some (foldl (\<lambda>v d. v * ucast r + ucast d) 0 ds), p + of_nat (length cs)) s"
  unfolding get_digits_def bindM_ret_right by (rule wp_digits_loop [OF assms])

lemma digits_less: "d \<in> set (digits r n) \<Longrightarrow> 2 \<le> r \<Longrightarrow> d < r"
  by (induction r n rule: digits.induct) (subst (asm) (2) digits.simps, auto split: if_splits)

lemma digits_value: "2 \<le> r \<Longrightarrow> foldr (\<lambda>d v. v * of_nat r + of_nat d) (digits r n) 0 = (of_nat n :: u32)"
proof (induction r n rule: digits.induct)
  case (1 r n)
  have "(of_nat (n div r) * of_nat r + of_nat (n mod r) :: u32) = of_nat n"
    by (metis div_mult_mod_eq of_nat_add of_nat_mult)
  then show ?case using 1 by (subst digits.simps) simp
qed

lemma last_digit: "2 \<le> r \<Longrightarrow> 0 < n \<Longrightarrow> last (digits r n) \<noteq> 0"
proof (induction r n rule: digits.induct)
  case (1 r n)
  show ?case
  proof (cases "n < r")
    case False
    then have "0 < n div r" using "1.prems" by (simp add: div_greater_zero_iff)
    moreover have "digits r (n div r) \<noteq> []" by (subst digits.simps) simp
    ultimately show ?thesis using 1 False by (subst digits.simps) simp
  qed (use "1.prems" in \<open>simp add: digits.simps [of r n]\<close>)
qed


lemma digit_table:
  "\<forall>d \<in> set [0..<16]. \<forall>c \<in> set [CH_x, CH_X]. digit_value (digit_char c (of_nat d)) = Some (of_nat d) \<and>
     digit_char c (of_nat d) > CH_SPACE \<and> (d < 10 \<longrightarrow> digit_char c (of_nat d) = CH_0 + of_nat d)"
  by code_simp

lemma digit_chars:
  assumes "d < 16"
  shows "digit_value (digit_char c (of_nat d)) = Some (of_nat d)" "digit_char c (of_nat d) > CH_SPACE"
    "d < 10 \<Longrightarrow> digit_char c (of_nat d) = CH_0 + of_nat d"
proof -
  have "digit_char c (of_nat d) = digit_char (if c = CH_x then CH_x else CH_X) (of_nat d)"
    by (simp add: digit_char_def)
  moreover have "d \<in> set [0..<16]" "(if c = CH_x then CH_x else CH_X) \<in> set [CH_x, CH_X]" using assms by simp_all
  note digit_table [rule_format, OF this]
  ultimately show "digit_value (digit_char c (of_nat d)) = Some (of_nat d)" "digit_char c (of_nat d) > CH_SPACE"
    "d < 10 \<Longrightarrow> digit_char c (of_nat d) = CH_0 + of_nat d" by simp_all
qed

text \<open>The digits of a numeral are read back.\<close>

lemma wp_read_numeral:
  assumes "holds (xmem s) p (numeral_text c (unat r) n @ [t])" "t \<le> CH_SPACE" "2 \<le> unat r" "unat r \<le> 16"
  shows "wp (get_digits r p) Q s \<longleftrightarrow> Q (Some (of_nat n), p + of_nat (length (numeral_text c (unat r) n))) s"
proof -
  let ?ds = "digits (unat r) n"
  have d: "d < unat r" "d < 16" if "d \<in> set ?ds" for d using digits_less [OF that assms(3)] assms(4) by simp_all
  have tb: "take_bit 8 d = d" "take_bit 32 d = d" if "d \<in> set ?ds" for d
    using d(2) [OF that] by (simp_all add: take_bit_nat_eq_self)
  have "wp (get_digits r p) Q s
      \<longleftrightarrow> Q (Some (foldl (\<lambda>v d. v * ucast r + ucast d) 0 (rev (map of_nat ?ds) :: u8 list)), p + of_nat (length (numeral_text c (unat r) n))) s"
  proof (rule wp_get_digits [OF assms(1,2)])
    show "\<forall>c \<in> set (numeral_text c (unat r) n). CH_SPACE < c"
      using d digit_chars(2) by (auto simp: numeral_text_def)
    show "map digit_value (numeral_text c (unat r) n) = map Some (rev (map of_nat ?ds))"
      using d digit_chars(1) by (simp add: numeral_text_def rev_map [symmetric])
    show "\<forall>d \<in> set (rev (map of_nat ?ds)). d < r"
      using d tb by (auto simp: word_less_nat_alt unsigned_of_nat)
  qed
  also have "foldl (\<lambda>v d. v * ucast r + ucast d) 0 (rev (map of_nat ?ds) :: u8 list)
      = foldr (\<lambda>d v. v * ucast r + ucast (of_nat d :: u8)) ?ds (0 :: u32)"
    by (simp add: foldl_conv_foldr foldr_map comp_def)
  also have "\<dots> = foldr (\<lambda>d v. v * of_nat (unat r) + of_nat d) ?ds 0"
    using tb by (intro foldr_cong) (simp_all add: word_unat_eq_iff unsigned_ucast_eq unsigned_of_nat)
  finally show ?thesis using digits_value [OF assms(3)] by simp
qed


lemma rev_map_last: "xs \<noteq> [] \<Longrightarrow> rev (map f xs) = f (last xs) # rev (map f (butlast xs))"
  by (induction xs rule: rev_induct) simp_all

text \<open>The first character of a positive numeral is a digit from 1.\<close>

lemma numeral_start:
  assumes "0 < n" "2 \<le> r" "r \<le> 10"
  obtains x xs where "numeral_text c r n = x # xs" "CH_0 < x" "x \<le> CH_9"
proof -
  let ?d = "last (digits r n)"
  have ne: "digits r n \<noteq> []" by (subst digits.simps) simp
  have d: "?d \<noteq> 0" "?d < 10"
    using last_digit [OF assms(2,1)] digits_less [OF last_in_set [OF ne] assms(2)] assms(3) by simp_all
  have "numeral_text c r n = digit_char c (of_nat ?d) # rev (map (\<lambda>d. digit_char c (of_nat d)) (butlast (digits r n)))"
    unfolding numeral_text_def by (rule rev_map_last [OF ne])
  moreover have "digit_char c (of_nat ?d) = CH_0 + of_nat ?d" using d by (intro digit_chars(3)) simp_all
  moreover have "unat (CH_0 + of_nat ?d :: u8) = 48 + ?d" using d by (simp add: unat_word_ariths unsigned_of_nat take_bit_nat_eq_self)
  ultimately show ?thesis using d by (intro that) (auto simp: word_less_nat_alt word_le_nat_alt)
qed

lemma wp_no_spaces: "xmem s p \<noteq> CH_SPACE \<Longrightarrow> wp (skip_spaces p) Q s \<longleftrightarrow> Q p s"
  unfolding skip_spaces_def by (subst wp_whileM_unfold) (simp add: wp_simps)

lemma wp_xatoi_decimal:
  assumes "holds (xmem s) p (integer_text CH_d 10 v @ [t])" "t \<le> CH_SPACE"
  shows "wp (xatoi p) (\<lambda>r s'. r = (Some v, p + of_nat (length (integer_text CH_d 10 v))) \<and> s' = s) s"
proof (cases "negative v")
  case True
  let ?n = "nat (- sint v)"
  have n: "0 < ?n" "of_nat ?n = - v"
    using True unat_negated [OF True, symmetric] by (simp_all add: negative_sint)
  obtain x xs where x: "numeral_text CH_d 10 ?n = x # xs" "CH_0 < x" "x \<le> CH_9"
    using numeral_start [OF n(1), of 10 CH_d] by auto
  have cs: "integer_text CH_d 10 v = CH_MINUS # x # xs" using True x(1) by (simp add: integer_text_def negative_sint)
  show ?thesis
    using assms wp_read_numeral [of s "p + 1" CH_d 10 ?n t] x n less_imp_neq [OF x(2)]
    by (auto simp: cs xatoi_def wp_simps wp_no_spaces apply_sign_def add.assoc not_less Let_def)
next
  case False
  have cs: "integer_text CH_d 10 v = numeral_text CH_d 10 (unat v)" using False by (simp add: integer_text_def negative_sint)
  show ?thesis
  proof (cases "v = 0")
    case True
    then have "integer_text CH_d 10 v = [CH_0]" by (simp add: integer_text_def numeral_text_def digits.simps digit_char_def)
    with True assms show ?thesis by (auto simp: xatoi_def wp_simps wp_no_spaces)
  next
    case nz: False
    then obtain x xs where x: "numeral_text CH_d 10 (unat v) = x # xs" "CH_0 < x" "x \<le> CH_9"
      using numeral_start [of "unat v" 10 CH_d] by (auto simp: unat_gt_0)
    then have "x \<noteq> CH_SPACE" "x \<noteq> CH_MINUS" "x \<noteq> CH_0" by auto
    with x show ?thesis
      using assms wp_read_numeral [of s p CH_d 10 "unat v" t]
      by (simp add: cs xatoi_def wp_simps wp_no_spaces apply_sign_def not_less)
  qed
qed

text \<open>
  C25: the parser reads back what is printed. The text that \<open>%d\<close> or \<open>%ld\<close> prints for a value, or its digits in
  hexadecimal (of either case) behind \<open>0x\<close> or in binary behind \<open>0b\<close>, followed by a space, a control character or the end of the
  string, makes \<open>xatoi\<close> succeed with this very value, for all 32-bit values, the smallest negative one included, and leave the
  pointer behind the number.
\<close>

theorem xatoi_reads_back_printed_numbers:
  assumes "cs = integer_text CH_d 10 v \<or> cs = CH_0 # CH_x # numeral_text c 16 (unat v) \<or>
      cs = CH_0 # CH_b # numeral_text c 2 (unat v)"
    and "holds (xmem s) p (cs @ [t])" "t \<le> CH_SPACE"
  shows "wp (xatoi p) (\<lambda>r s'. r = (Some v, p + of_nat (length cs)) \<and> s' = s) s"
proof -
  show ?thesis
    using assms(1)
  proof (elim disjE)
    assume "cs = CH_0 # CH_x # numeral_text c 16 (unat v)"
    then show ?thesis
      using assms(2,3) wp_read_numeral [of s "p + 2" c 16 "unat v" t]
      by (simp add: xatoi_def wp_simps wp_no_spaces apply_sign_def add.assoc)
  next
    assume "cs = CH_0 # CH_b # numeral_text c 2 (unat v)"
    then show ?thesis
      using assms(2,3) wp_read_numeral [of s "p + 2" c 2 "unat v" t]
      by (simp add: xatoi_def wp_simps wp_no_spaces apply_sign_def add.assoc)
  qed (use wp_xatoi_decimal assms(2,3) in simp)
qed


theorem xatoi_reads_back_printed_numbers_witness:
  "\<exists>s'. xatoi 16 (demo_console\<lparr>xmem := poke 16 [45, 50, 48, 48] (\<lambda>_. 0)\<rparr>) = Some (Inr ((Some (-200), 20), s'))"
proof -
  have "integer_text CH_d 10 (-200) = [45, 50, 48, 48]" by code_simp
  then show ?thesis
    using xatoi_reads_back_printed_numbers
      [of "[45, 50, 48, 48]" "-200" 0 "demo_console\<lparr>xmem := poke 16 [45, 50, 48, 48] (\<lambda>_. 0)\<rparr>" 16 0]
    by (auto simp: wp_def poke_def)
qed


section \<open>Reading lines\<close>

text \<open>The line editor: a backspace takes back a character, a visible character is added while there is room for \<open>n\<close>.\<close>

fun edit :: "nat \<Rightarrow> u8 list \<Rightarrow> int list \<Rightarrow> u8 list" where
  "edit n line [] = line"
| "edit n line (c # cs) = edit n
     (if c = 8 \<and> line \<noteq> [] then butlast line
      else if c \<ge> 32 \<and> length line < n then line @ [of_int c] else line) cs"

fun feeds :: "(nat \<Rightarrow> int) \<Rightarrow> nat \<Rightarrow> int list \<Rightarrow> bool" where
  "feeds inp k [] \<longleftrightarrow> True"
| "feeds inp k (c # cs) \<longleftrightarrow> inp k = c \<and> feeds inp (k + 1) cs"

lemma holds_append: "holds m p (xs @ ys) \<longleftrightarrow> holds m p xs \<and> holds m (p + of_nat (length xs)) ys"
  by (induction xs arbitrary: p) (simp_all add: add.assoc)

lemma holds_update:
  assumes "length xs \<le> k" "k < 2 ^ 32"
  shows "holds (m(p + of_nat k := c)) p xs \<longleftrightarrow> holds m p xs"
  using assms
proof (induction xs arbitrary: p k)
  case (Cons x xs)
  then obtain j where k: "k = Suc j" by (cases k) auto
  have "(of_nat k :: u32) \<noteq> 0" using Cons.prems k unat_word_of_nat [of k, where ?'a = 32] by fastforce
  moreover have "holds (m(p + of_nat k := c)) (p + 1) xs \<longleftrightarrow> holds m (p + 1) xs"
    using Cons.IH [of j "p + 1"] Cons.prems by (simp add: k add.assoc del: fun_upd_apply)
  ultimately show ?case unfolding holds.simps by (simp add: fun_upd_other del: fun_upd_apply)
qed simp

lemma holds_butlast: "holds m p xs \<Longrightarrow> holds m p (butlast xs)"
  using holds_append [of m p "butlast xs" "[last xs]"] by (cases "xs = []") auto

lemma edit_length: "length line \<le> n \<Longrightarrow> length (edit n line cs) \<le> n"
  by (induction cs arbitrary: line) auto

definition edited :: "u32 \<Rightarrow> nat \<Rightarrow> xio \<Rightarrow> xio \<Rightarrow> bool" where
  "edited buff n s t \<longleftrightarrow> t = s\<lparr>xmem := xmem t, nread := nread t\<rparr> \<and> (\<forall>a. n \<le> unat (a - buff) \<longrightarrow> xmem t a = xmem s a)"

lemma wp_get_char: "wp (get_char inp) Q s \<longleftrightarrow> Q (inp (nread s)) (s\<lparr>nread := nread s + 1\<rparr>)"
  by (simp add: get_char_def wp_simps)

lemma wp_wr8: "wp (wr8 a c) Q s \<longleftrightarrow> Q () (s\<lparr>xmem := (xmem s)(a := c)\<rparr>)"
  by (simp add: wr8_def wp_simps)

lemma unat_index: "k < 2 ^ 32 \<Longrightarrow> unat (buff + of_nat k - buff :: u32) = k"
  using unat_word_of_nat [of k, where ?'a = 32] by simp

text \<open>The reading loop, and its turns.\<close>

definition gets_loop :: "(nat \<Rightarrow> int) \<Rightarrow> u32 \<Rightarrow> int \<Rightarrow> int \<times> int \<Rightarrow> (int \<times> int) xcm" where
  "gets_loop inp buff len = whileM (\<lambda>(c, i). ret (\<not> (c < 0 \<or> c = 13)))
     (\<lambda>(c, i). bindM (gets_char buff len c i) (\<lambda>i. bindM (get_char inp) (\<lambda>c. ret (c, i))))"

lemma wp_gets_stop: "c < 0 \<or> c = 13 \<Longrightarrow> wp (gets_loop inp buff len (c, i)) Q s \<longleftrightarrow> Q (c, i) s"
  unfolding gets_loop_def by (subst wp_whileM_unfold) (auto simp: wp_simps)

lemma wp_gets_turn:
  assumes "0 \<le> c" "c \<noteq> 13"
  shows "wp (gets_loop inp buff len (c, i)) Q s \<longleftrightarrow>
     wp (gets_char buff len c i) (\<lambda>i t. wp (gets_loop inp buff len (inp (nread t), i)) Q (t\<lparr>nread := nread t + 1\<rparr>)) s"
proof -
  have "wp (gets_loop inp buff len (c, i)) Q s \<longleftrightarrow>
      wp (bindM (gets_char buff len c i) (\<lambda>i. bindM (get_char inp) (\<lambda>c. ret (c, i)))) (\<lambda>v. wp (gets_loop inp buff len v) Q) s"
    unfolding gets_loop_def using assms by (subst wp_whileM_unfold) (simp add: wp_ret)
  then show ?thesis by (simp add: wp_bindM wp_ret wp_get_char [abs_def])
qed

definition step_line :: "nat \<Rightarrow> u8 list \<Rightarrow> int \<Rightarrow> u8 list" where
  "step_line n line c =
     (if c = 8 \<and> line \<noteq> [] then butlast line else if c \<ge> 32 \<and> length line < n then line @ [of_int c] else line)"

lemma edit_Cons: "edit n line (c # cs) = edit n (step_line n line c) cs"
  by (simp add: step_line_def)

lemma wp_gets_char:
  assumes "holds (xmem s) buff line" "length line \<le> n" "n < 2 ^ 31"
    and "\<And>t. edited buff n s t \<Longrightarrow> nread t = nread s \<Longrightarrow> holds (xmem t) buff (step_line n line c) \<Longrightarrow>
      Q (int (length (step_line n line c))) t"
  shows "wp (gets_char buff (int n + 1) c (int (length line))) Q s"
proof (cases "(c = 8 \<and> line \<noteq> []) \<or> \<not> (c \<ge> 32 \<and> length line < n)")
  case True
  have "edited buff n s s" by (simp add: edited_def)
  with True assms holds_butlast [OF assms(1)] show ?thesis
    by (auto simp: gets_char_def wp_simps step_line_def of_nat_diff Suc_leI)
next
  case False
  let ?t = "s\<lparr>xmem := (xmem s)(buff + of_nat (length line) := of_int c)\<rparr>"
  have "edited buff n s ?t"
    using False assms(3) unat_index [of "length line" buff] by (auto simp: edited_def)
  moreover have "holds (xmem ?t) buff (line @ [of_int c])"
    using assms(1-3) holds_update [of line "length line"] by (simp add: holds_append)
  moreover have "step_line n line c = line @ [of_int c]" using False by (auto simp: step_line_def)
  ultimately show ?thesis
    using False assms(4) [of ?t] by (auto simp: gets_char_def wp_simps wp_wr8 add.commute)
qed

lemma edited_trans: "edited buff n s t \<Longrightarrow> edited buff n (t\<lparr>nread := k\<rparr>) u \<Longrightarrow> edited buff n s u"
  by (cases s; cases t; cases u) (auto simp: edited_def)

lemma wp_edit_loop:
  assumes stop: "e < 0 \<or> e = 13" and n: "n < 2 ^ 31"
    and "c # rest' = rest @ [e]" "\<forall>x \<in> set rest. 0 \<le> x \<and> x \<noteq> 13" "feeds inp (nread s) rest'"
      "holds (xmem s) buff line" "length line \<le> n"
    and Q: "\<And>t. edited buff n s t \<Longrightarrow> nread t = nread s + length rest \<Longrightarrow> holds (xmem t) buff (edit n line rest) \<Longrightarrow>
      Q (e, int (length (edit n line rest))) t"
  shows "wp (gets_loop inp buff (int n + 1) (c, int (length line))) Q s"
  using assms(3-)
proof (induction rest arbitrary: c rest' s line)
  case Nil
  then have "c = e" "edited buff n s s" by (simp_all add: edited_def)
  with Nil stop show ?case by (simp add: wp_gets_stop)
next
  case (Cons x rest)
  have x: "c = x" "rest' = rest @ [e]" "0 \<le> x" "x \<noteq> 13" using Cons.prems by auto
  obtain c' rest'' where next_c: "c' # rest'' = rest @ [e]" by (cases rest) auto
  show ?case
    unfolding wp_gets_turn [OF x(3,4), folded x(1)]
  proof (rule wp_gets_char [OF Cons.prems(4,5) n])
    fix t assume t: "edited buff n s t" "nread t = nread s" "holds (xmem t) buff (step_line n line c)"
    have "feeds inp (nread s) (c' # rest'')" unfolding next_c using Cons.prems(3) x(2) by simp
    then have c': "inp (nread t) = c'" "feeds inp (nread t + 1) rest''" using t(2) by simp_all
    show "wp (gets_loop inp buff (int n + 1) (inp (nread t), int (length (step_line n line c)))) Q (t\<lparr>nread := nread t + 1\<rparr>)"
      unfolding c'(1)
    proof (rule Cons.IH [OF next_c])
      show "length (step_line n line c) \<le> n" using Cons.prems(5) by (auto simp: step_line_def)
      show "Q (e, int (length (edit n (step_line n line c) rest))) u"
        if "edited buff n (t\<lparr>nread := nread t + 1\<rparr>) u" "nread u = nread (t\<lparr>nread := nread t + 1\<rparr>) + length rest"
          "holds (xmem u) buff (edit n (step_line n line c) rest)" for u
        using Cons.prems(6) [of u] edited_trans [OF t(1) that(1)] that t(2) x(1) by (simp only: edit_Cons) simp
    qed (use Cons.prems(2) c'(2) t(3) in simp_all)
  qed
qed

text \<open>
  C26: reading a line. When the input delivers the characters \<open>cs\<close> and then a carriage return or the end of the stream \<open>e\<close>,
  \<open>xgets\<close> ends; the buffer holds the edited line, zero-terminated, where a backspace has
  taken back a character and what did not fit was dropped; the result tells a line from the end of the stream. For every buffer length from 1 on no
  byte outside the buffer changes, whatever is typed.
\<close>

theorem xgets_edits_line:
  assumes "0 < len" "len \<le> 2 ^ 31" "xfunc_input s" "feeds inp (nread s) (cs @ [e])" "e < 0 \<or> e = 13"
    "\<forall>c \<in> set cs. 0 \<le> c \<and> c \<noteq> 13"
  shows "wp (xgets inp buff len) (\<lambda>r t. r = (if e = 13 then 1 else 0) \<and>
      holds (xmem t) buff (edit (nat len - 1) [] cs @ [0]) \<and> int (length (edit (nat len - 1) [] cs)) < len \<and>
      (\<forall>a. nat len \<le> unat (a - buff) \<longrightarrow> xmem t a = xmem s a) \<and> nread t = nread s + length cs + 1 \<and>
      t = s\<lparr>xmem := xmem t, nread := nread t\<rparr>) s"
proof -
  define n where "n = nat len - 1"
  have n: "len = int n + 1" "n < 2 ^ 31" "nat len = n + 1" using assms(1,2) by (auto simp: n_def)
  obtain c rest' where c: "c # rest' = cs @ [e]" by (cases cs) auto
  have "feeds inp (nread s) (c # rest')" unfolding c by (rule assms(4))
  then have inp: "inp (nread s) = c" "feeds inp (nread s + 1) rest'" by simp_all
  let ?line = "edit n [] cs"
  let ?post = "\<lambda>r t. r = (if e = 13 then 1 else 0) \<and> holds (xmem t) buff (?line @ [0]) \<and> int (length ?line) < len \<and>
      (\<forall>a. nat len \<le> unat (a - buff) \<longrightarrow> xmem t a = xmem s a) \<and> nread t = nread s + length cs + 1 \<and>
      t = s\<lparr>xmem := xmem t, nread := nread t\<rparr>"
  let ?fin = "\<lambda>(c, i). bindM (wr8 (buff + of_int i) 0) (\<lambda>_. ret (if c = 13 then 1 else (0 :: int)))"
  have len: "length ?line \<le> n" using edit_length [of "[]"] by simp
  have "wp (gets_loop inp buff (int n + 1) (c, int (length ([] :: u8 list)))) (\<lambda>v. wp (?fin v) ?post) (s\<lparr>nread := nread s + 1\<rparr>)"
  proof (rule wp_edit_loop [where line = "[]", OF assms(5) n(2) c assms(6)])
    fix t assume t: "edited buff n (s\<lparr>nread := nread s + 1\<rparr>) t" "nread t = nread (s\<lparr>nread := nread s + 1\<rparr>) + length cs"
      "holds (xmem t) buff ?line"
    let ?t = "t\<lparr>xmem := (xmem t)(buff + of_nat (length ?line) := 0)\<rparr>"
    have "holds (xmem ?t) buff (?line @ [0])"
      using t(3) len n(2) holds_update [of ?line "length ?line"] by (simp add: holds_append)
    moreover have "xmem ?t a = xmem s a" if "nat len \<le> unat (a - buff)" for a
      using that t(1) len n unat_index [of "length ?line" buff] by (auto simp: edited_def)
    moreover have "?t = s\<lparr>xmem := xmem ?t, nread := nread ?t\<rparr>"
      using t(1) by (cases s; cases t) (simp add: edited_def)
    ultimately have "?post (if e = 13 then 1 else 0) ?t" using len t(2) n(1) by simp
    then show "wp (?fin (e, int (length ?line))) ?post t" by (simp add: wp_bindM wp_wr8 wp_ret)
  qed (use inp(2) in simp_all)
  then have "wp (xgets inp buff (int n + 1)) ?post s"
    unfolding xgets_def gets_loop_def [symmetric] by (simp add: assms(3) wp_bindM wp_getM wp_get_char inp(1))
  then have "wp (xgets inp buff len) ?post s" unfolding n(1) [symmetric] .
  then show ?thesis unfolding n_def .
qed

theorem xgets_edits_line_witness:
  "wp (xgets (\<lambda>k. [97, 98, 8, 99, 100, 101, 13] ! k) 64 4) (\<lambda>r t. r = 1 \<and> holds (xmem t) 64 [97, 99, 100, 0]) demo_console"
proof (rule wp_mono)
  show "wp (xgets (\<lambda>k. [97, 98, 8, 99, 100, 101, 13] ! k) 64 4) (\<lambda>r t. r = (if (13 :: int) = 13 then 1 else 0) \<and>
      holds (xmem t) 64 (edit (nat 4 - 1) [] [97, 98, 8, 99, 100, 101] @ [0]) \<and>
      int (length (edit (nat 4 - 1) [] [97, 98, 8, 99, 100, 101])) < 4 \<and>
      (\<forall>a. nat 4 \<le> unat (a - 64) \<longrightarrow> xmem t a = xmem demo_console a) \<and>
      nread t = nread demo_console + length [97 :: int, 98, 8, 99, 100, 101] + 1 \<and>
      t = demo_console\<lparr>xmem := xmem t, nread := nread t\<rparr>) demo_console"
    by (rule xgets_edits_line) (simp_all add: demo_console_def)
  show "r = 1 \<and> holds (xmem t) 64 [97, 99, 100, 0]"
    if "r = (if (13 :: int) = 13 then 1 else 0) \<and> holds (xmem t) 64 (edit (nat 4 - 1) [] [97, 98, 8, 99, 100, 101] @ [0]) \<and>
      int (length (edit (nat 4 - 1) [] [97, 98, 8, 99, 100, 101])) < 4 \<and>
      (\<forall>a. nat 4 \<le> unat (a - 64) \<longrightarrow> xmem t a = xmem demo_console a) \<and>
      nread t = nread demo_console + length [97 :: int, 98, 8, 99, 100, 101] + 1 \<and>
      t = demo_console\<lparr>xmem := xmem t, nread := nread t\<rparr>" for r t
    using that by simp
qed


section \<open>Real numbers\<close>

text \<open>A run that ends with the postcondition \<open>Q\<close> or with an access out of bounds.\<close>

definition wp_bounds :: "('s, 'a) cm \<Rightarrow> ('a \<Rightarrow> 's \<Rightarrow> bool) \<Rightarrow> 's \<Rightarrow> bool" where
  "wp_bounds m Q s \<longleftrightarrow> m s = Some (Inl Out_Of_Bounds) \<or> wp m Q s"

lemma wp_bounds_bindM: "wp_bounds m (\<lambda>x. wp_bounds (f x) Q) s \<Longrightarrow> wp_bounds (bindM m f) Q s"
  by (auto simp: wp_bounds_def wp_def run_simps)

lemma wp_bounds_wp: "wp m Q s \<Longrightarrow> wp_bounds m Q s"
  by (simp add: wp_bounds_def)

lemma wp_bounds_mono: "wp_bounds m P s \<Longrightarrow> (\<And>x t. P x t \<Longrightarrow> Q x t) \<Longrightarrow> wp_bounds m Q s"
  using wp_mono [of m P s Q] by (auto simp: wp_bounds_def)

lemma wp_bounds_ret: "Q x s \<Longrightarrow> wp_bounds (ret x) Q s"
  by (simp add: wp_bounds_def wp_ret)

lemma wp_bounds_push:
  "(i < length str \<Longrightarrow> Q (str[i := c], i + 1) s) \<Longrightarrow> wp_bounds (push c (str, i)) Q s"
  by (cases "i < length str") (simp_all add: wp_bounds_def wp_def push_def store_elem_def run_simps)

lemma wp_bounds_whileM:
  assumes "wp_bounds (b v) (\<lambda>t. if t then wp_bounds (c v) (\<lambda>v'. wp_bounds (whileM b c v') Q) else Q v) s"
  shows "wp_bounds (whileM b c v) Q s"
proof -
  have "wp_bounds (bindM (b v) (\<lambda>t. if t then bindM (c v) (whileM b c) else ret v)) Q s"
    by (rule wp_bounds_bindM, use assms in \<open>auto simp: wp_bounds_def wp_def run_simps split: if_splits\<close>)
  then show ?thesis by (simp add: wp_bounds_def wp_def whileM_unfold)
qed

text \<open>\<open>i10x\<close> ends for every exponent, whatever the floating point operations compute.\<close>

lemma wp_i10x: "wp (i10x F n) (\<lambda>_ t. t = s) s"
proof -
  let ?down = "whileM (\<lambda>(rv, n :: int). ret (n < 0))
       (\<lambda>(rv, n). ret (if n \<le> -5 then (f_div F rv (f_int F 100000), n + 5) else (f_div F rv (f_int F 10), n + 1)))"
  have "wp (?down w) (\<lambda>x. wp (case x of (rv, n) \<Rightarrow> ret rv) (\<lambda>_ t. t = s)) s" for w
    by (rule wp_whileM [where I = "\<lambda>_ t. t = s" and M = "\<lambda>(rv, n) t. nat (- n)"]) (auto simp: wp_simps)
  then show ?thesis
    unfolding i10x_def wp_bindM
    by (intro wp_whileM [where I = "\<lambda>_ t. t = s" and M = "\<lambda>(rv, n) t. nat n"]) (auto simp: wp_simps)
qed

text \<open>One turn of the loop of digits.\<close>

definition place :: "'d fp \<Rightarrow> int \<Rightarrow> 'd \<times> int \<times> bool \<times> outbuf \<Rightarrow> ('d \<times> int \<times> bool \<times> outbuf) xcm" where
  "place F prec = (\<lambda>(val, m, fin, b).
          bindM (i10x F m) (\<lambda>w.
          let d = f_trunc F (f_div F val w); val = f_sub F val (f_mul F (f_int F d) w) in
          bindM (if m = -1 then push CH_DOT b else ret b) (\<lambda>b.
          bindM (push (CH_0 + of_int d) b) (\<lambda>b.
          ret (val, m - 1, \<not> m - 1 \<ge> -prec, b)))))"

lemma wp_place:
  assumes "\<And>val' m' fin' str' i'. m' = m - 1 \<Longrightarrow> fin' = (m \<le> -prec) \<Longrightarrow> length str' = length str \<Longrightarrow>
    i' = i + (if m = -1 then 2 else 1) \<Longrightarrow> i' \<le> length str \<Longrightarrow> Q (val', m', fin', (str', i')) s"
  shows "wp_bounds (place F prec (val, m, fin, (str, i))) Q s"
  unfolding place_def split_conv
  by (rule wp_bounds_bindM, rule wp_bounds_wp, rule wp_mono, rule wp_i10x, unfold Let_def)
    (auto intro!: wp_bounds_bindM wp_bounds_push wp_bounds_ret assms split: prod.splits)

lemma wp_places:
  assumes "m \<ge> -prec" "i \<le> length str" "length str = L" "int N = int i + (m + prec + 1) + (if -1 \<le> m \<and> 1 \<le> prec then 1 else 0)"
  shows "wp_bounds (put_places F val m prec (str, i)) (\<lambda>(str', i') t. t = s \<and> length str' = L \<and> i' \<le> L \<and> i' = N) s"
  unfolding put_places_def
proof (rule wp_bounds_bindM, fold place_def)
  show "wp_bounds (whileM (\<lambda>(val, m, fin, b). ret (\<not> fin)) (place F prec) (val, m, False, str, i))
     (\<lambda>x. wp_bounds (case x of (val, m, fin, b) \<Rightarrow> ret b) (\<lambda>(str', i') t. t = s \<and> length str' = L \<and> i' \<le> L \<and> i' = N)) s"
    using assms
  proof (induction "nat (m + prec)" arbitrary: m val str i)
    case 0
    then have "m = -prec" by simp
    with 0 show ?case
      by (auto intro!: wp_bounds_whileM wp_bounds_ret wp_place split: if_splits)
  next
    case (Suc k)
    have IH: "wp_bounds (whileM (\<lambda>(val, m, fin, b). ret (\<not> fin)) (place F prec) (val', m', fin', str', i'))
     (\<lambda>x. wp_bounds (case x of (val, m, fin, b) \<Rightarrow> ret b) (\<lambda>(str', i') t. t = s \<and> length str' = L \<and> i' \<le> L \<and> i' = N)) s"
      if "m' = m - 1" "fin' = (m \<le> -prec)" "length str' = length str" "i' = i + (if m = -1 then 2 else 1)"
        "i' \<le> length str" for val' m' fin' str' i'
    proof -
      have "\<not> fin'" "k = nat (m' + prec)" "-prec \<le> m'" using that Suc.hyps(2) by auto
      moreover have "int N = int i' + (m' + prec + 1) + (if -1 \<le> m' \<and> 1 \<le> prec then 1 else 0)"
        using that Suc.prems(4) Suc.hyps(2) by (simp split: if_splits)
      ultimately show ?thesis using Suc.hyps(1) [of m' i' str' val'] that Suc.prems(3) by simp
    qed
    show ?case
      by (rule wp_bounds_whileM, simp, rule wp_bounds_ret, simp, rule wp_place, rule IH)
  qed
qed

lemma wp_push_all:
  assumes "\<And>str'. length str' = length str \<Longrightarrow> i + length cs \<le> length str \<Longrightarrow> Q (str', i + length cs) s" "i \<le> length str"
  shows "wp_bounds (push_all cs (str, i)) Q s"
  using assms unfolding push_all_def
proof (induction cs arbitrary: str i)
  case (Cons c cs)
  show ?case
    unfolding foldM.simps
    by (rule wp_bounds_bindM, rule wp_bounds_push, rule Cons.IH) (use Cons.prems(1) in \<open>simp_all\<close>)
qed (simp add: foldM_Nil wp_bounds_ret)

text \<open>
  C32: printing zero with \<open>%.26e\<close>, or with any larger precision, runs over the buffer of 32 characters of \<open>xvfprintf\<close>: the test
  for an overflow is inside the branch for the values other than zero, so that \<open>ftoa\<close> writes out of bounds, whatever the floating
  point arithmetic computes.
\<close>

theorem printing_zero_overruns_buffer:
  assumes "\<not> f_isnan F val" "\<not> f_isinf F val" "\<not> f_less F val (f_int F 0)" "f_eq F val (f_int F 0)"
    and "fmt \<noteq> CH_f" "26 \<le> prec" "length str = SZB_OUTPUT"
  shows "ftoa F val prec fmt (str, 0) s = Some (Inl Out_Of_Bounds)"
proof -
  have "wp_bounds (put_places F val 0 prec (str, 0)) (\<lambda>(str', i') t. t = s \<and> length str' = 32 \<and> i' \<le> 32 \<and> i' = nat (prec + 2)) s"
    using assms(6,7) by (intro wp_places) simp_all
  then have "wp_bounds (put_places F val 0 prec (str, 0)) (\<lambda>b. wp_bounds (bindM (push_all [fmt, CH_PLUS, CH_0, CH_0] b) (push 0)) (\<lambda>_ _. False)) s"
    by (rule wp_bounds_mono) (use assms(6) in \<open>auto intro!: wp_bounds_bindM wp_push_all wp_bounds_push\<close>)
  then have "wp_bounds (ftoa F val prec fmt (str, 0)) (\<lambda>_ _. False) s"
    using assms unfolding ftoa_def put_float_def
    by (auto simp: bindM_assoc intro!: wp_bounds_bindM)
  then show ?thesis by (simp add: wp_bounds_def wp_def)
qed

theorem printing_zero_overruns_buffer_witness:
  "ftoa int_fp 0 26 101 (replicate 32 0, 0) demo_console = Some (Inl Out_Of_Bounds)"
  by (rule printing_zero_overruns_buffer) (simp_all add: int_fp_def)

end
