(* ===== verification/Spec2Isabelle.thy ===== *)
theory Spec2Isabelle
  imports C_Machine Ring_Buffer Soft_Timer System_Tick Buzzer Sd_Info Sd_Identify Sd_Blocks Bsp_Sd Spi_Flash Bsp_Fmc Bsp_Uart
    Bsp_Enet Tcpecho Lwip_Chksum Usb_Memcpy Usb_Device Dwc2_Service Xprintf_Spec
begin

text \<open>
  A verification of the firmware of a GD32F407 board.

  \<^bold>\<open>The program.\<close> \<open>src/app/main.c\<close> sets up the clock and the tick (\<open>board_init\<close> in \<open>src/app/gd32f4xx_it.c\<close>), the
  serial ports (\<open>src/user/bsp/bsp_uart.c\<close>) and then one of the services \<open>src/app/inc/config.h\<close> selects: the LED, the
  network or the USB device. Below them lie the drivers of \<open>src/user/bsp\<close> and \<open>src/user/sys\<close> (SD card, serial flash,
  internal flash, serial ports, LED, Ethernet, TCP echo server), the modules of \<open>src/module\<close> (ring buffer, software
  timers, buzzer), and the vendor's register library. The tick interrupt drives the software timers; the buzzer, the
  delays and the lwIP timers read the tick; the SD card and flash drivers poll the hardware.

  \<^bold>\<open>How C is read.\<close> Theory \<open>C_Machine\<close>: a C function is a computation on the state that never returns, faults (division
  by zero, access outside an array, use of freed memory) or returns a value and a state. \<open>wp\<close> is total correctness:
  the function returns, does not fault, and establishes the postcondition. Loops are \<open>whileM\<close>, defined as a partial
  function into \<open>option\<close>, so that no fuel is needed and a loop that does not end is the value \<open>None\<close>; every theorem that
  speaks of a result proves that there is one. Hardware is an argument \<open>h\<close> that gives the value of a register for the
  history of all accesses; theorems assume of it what the data sheets say, as named predicates, and each theorem with
  such a hypothesis has a witness on a concrete device. The locales \<open>frame_rel\<close> and \<open>state_frame\<close> give the rules for
  what a computation leaves alone; each driver interprets them on its own relations.

  \<^bold>\<open>Theories and sources.\<close>
  \<^item> \<open>Ring_Buffer\<close>: \<open>src/module/ringbuffer/ringbuffer.c\<close>. Record \<open>ring_buffer\<close>, all operations. Every sequence of legal
    calls keeps the buffer well-formed; writes and reads refine a bounded queue (locale \<open>bounded_fifo\<close>, interpreted on
    the loop bodies); a full buffer with the mirror bit set loses its contents.
  \<^item> \<open>Soft_Timer\<close>: \<open>src/module/soft_timer/soft_timer.c\<close>. The ten timers, their API and tick; periodic timers fire at
    multiples of their period, no call on one timer disturbs another (locale \<open>slot_operation\<close>, interpreted on each
    operation), a stopped timer fires again.
  \<^item> \<open>System_Tick\<close>: \<open>system_gd32f4xx.c\<close> (the configuration for 168 MHz from a crystal of 8 MHz), the NVIC and SysTick
    routines, \<open>gd32f4xx_it.c\<close>. The tick has a period of 10 ms; delays of up to about 25 seconds are not too short, and return.
  \<^item> \<open>Buzzer\<close>: \<open>src/module/buzzer/buzzer.c\<close>. The queue never leaves its array; a tone sounds for its time and is followed by the pause of
    the code, one round longer than its parameter says; the port
    functions of \<open>bsp_beep.h\<close>, which is not in the repository, are arguments.
  \<^item> \<open>Periph\<close>: the clock, pin, DMA and SDIO functions of the vendor library, as sequences of register accesses.
  \<^item> \<open>Sd_Command\<close>, \<open>Sd_Info\<close>, \<open>Sd_Init\<close>, \<open>Sd_Control\<close>, \<open>Sd_Identify\<close>, \<open>Sd_Transfer\<close>, \<open>Sd_Blocks\<close>:
    \<open>src/user/sys/sdcard.c\<close>, in this order the commands and their response checks, the decoding of the card registers,
    initialisation and bus mode, control and interrupt, the identification of a card as a state machine, data transfer, and
    the polled transfers against the contract of a card and of the data FIFO. A card that obeys the state machine of the SD
    specification is identified, an empty socket reported, every card that lets commands end lets \<open>sd_init\<close> end; in polled
    mode, blocks of high capacity cards are read and written.
  \<^item> \<open>Bsp_Sd\<close>: \<open>src/user/bsp/bsp_sd.c\<close>, the composition of these into \<open>sd_io_init\<close>, and the lines \<open>card_info_get\<close> prints; an
    empty socket is reported.
  \<^item> \<open>Spi_Flash\<close>: \<open>src/user/bsp/spi_flash.c\<close> with the chip at the other end of the bus; writes within a page are read
    back, writes across a page wrap.
  \<^item> \<open>Bsp_Fmc\<close>: \<open>src/user/bsp/bsp_fmc.c\<close> with the flash memory controller, which is busy after each erase and program and
    loses what is written meanwhile; words written are read back, a read of 256 words or more never returns.
  \<^item> \<open>Bsp_Uart\<close>: \<open>src/user/bsp/bsp_uart.c\<close>, \<open>bsp_led.c\<close> and the pin set-up of \<open>main.c\<close>; baud rates, the order of bytes,
    and the division by zero that ends \<open>bsp_uart_init\<close>.
  \<^item> \<open>Bsp_Enet\<close>: \<open>src/user/bsp/bsp_enet.c\<close>, the addresses and the periodic timers.
  \<^item> \<open>Lwip_Pbuf\<close>, \<open>Tcpecho\<close>: the packet buffers of lwIP (\<open>core/pbuf.c\<close>) over an explicit heap, and the TCP echo server
    \<open>src/user/sys/tcpecho_raw.c\<close> with lwIP as its environment: events in any order, with any outcome. The server never
    touches freed memory, echoes the bytes in order and gives all memory back.
  \<^item> \<open>Lwip_Chksum\<close>: the checksums of IPv4, \<open>core/inet_chksum.c\<close> of lwIP; whatever the alignment and the division into
    buffers, they are those of RFC 1071, and a checksum filled in is verified.
  \<^item> \<open>Usb_Types\<close>, \<open>Usb_Cdc\<close>, \<open>Usb_Core\<close>: the USB device, \<open>core/usbd_core.c\<close>, \<open>class/cdc/usbd_cdc_acm.c\<close> and
    \<open>demo/cdc_acm_template.c\<close> of \<open>src/libraries/CherryUSB-1.5.0\<close>, with the calls of the controller's driver
    recorded, and its assertions: an assertion that fails loops for ever, as it does in this build. \<open>Usb_Walk\<close>, \<open>Usb_Inv\<close>, \<open>Usb_Safe\<close>, \<open>Usb_Control\<close>: the walks over the descriptors (locale
    \<open>descriptor_walk\<close>), the invariant, what a request handler promises (locale \<open>usb_request\<close>) and the control transfers.
    \<open>Usb_App\<close>: the serial port as a step relation over the events of the bus and the main loop; no event of a host that
    avoids four kinds of packet makes the stack leave its arrays or hang in an assertion. \<open>Usb_Host\<close>: a host reads the descriptors. \<open>Usb_Device\<close>:
    configuring the device, sending, the three kinds of packet that do leave the arrays, and the short packet that
    stops the device.
  \<^item> \<open>Usb_Memcpy\<close>: \<open>common/usb_memcpy.h\<close>; the copy by words equals the copy by bytes (locale \<open>word_copier\<close>, interpreted on
    the two ways to copy a word).
  \<^item> \<open>Usb_Dwc2\<close>, \<open>Dwc2_Transfer\<close>, \<open>Dwc2_Service\<close>: the driver of the USB controller, \<open>port/dwc2/usb_dc_dwc2.c\<close> and
    \<open>usb_glue_gd.c\<close>, the part below the calls that \<open>Usb_Core\<close> records: registers, FIFOs, endpoints and the interrupt
    routine, which calls the stack as an argument. A transfer is sent in the packets it was armed with, in order; what is
    written to a FIFO is read back; the start ends on every hardware, with FIFOs that do not overlap; an interrupt for a
    received packet moves it into the buffer of its endpoint.
  \<^item> \<open>Xprintf\<close>, \<open>Xprintf_Spec\<close>: the console library \<open>src/libraries/xprintf/src/xprintf.c\<close>. Formatted output is the text of
    a specification on lists; numbers printed are read back; a line of input is edited within its buffer; printing zero
    with a large precision is not. The arithmetic of \<open>double\<close> is an argument of which nothing is assumed.

  \<^bold>\<open>Bounds.\<close> No theorem bounds the length of a run. Machine integers have the width of the source and wrap; hypotheses on
  sizes are those of the code (a ring buffer of at most 32768 bytes, because bit 15 of an index is taken for the mirror)
  or of the data sheet (delays below the range of the cycle count).

  \<^bold>\<open>Not modelled.\<close> Interrupts are functions that may be called between operations, not at every instruction; the memory
  accesses of the DMA controllers are not modelled, only their programming. The text printed by the test routines is
  returned in place of the output. Of the vendored code only what the modelled parts call is modelled: the rest of the
  register library, CMSIS, the protocols of lwIP, the host mode of the USB controller and the classes of CherryUSB that are
  not linked, the FreeRTOS kernel, which the firmware does not start, and FatFs are left out. The stack of \<open>Usb_Core\<close> and the
  driver of \<open>Usb_Dwc2\<close> are verified each against the calls between them, not as one run; the driver's calls in
  \<open>Usb_Types\<close> keep of its behaviour what it asserts. The transfers of the SD card by DMA, which \<open>sd_io_init\<close> selects, are
  modelled but nothing is shown of their data, and of \<open>sd_io_init\<close> on a card that works only what \<open>sd_init\<close> does. Of real numbers only the use of the
  output buffer is verified, not the digits. Of \<open>bsp_enet.c\<close> the set-up of the MAC, which rests on the Ethernet
  driver of the register library, the PHY configuration, which nothing calls, and the calls that start lwIP are left out.
\<close>

end
